(* ===== verification/Prelude.thy ===== *)
theory Prelude
  imports Complex_Main "HOL-Library.Code_Target_Nat"
begin

text \<open>
  Shared vocabulary of the development: the values, numbers, strings and insertion-ordered
  objects of the JavaScript libraries under src/WebServer/wwwroot/lib, the named theorem
  collections the component theories fill, and the generic lemmas they share.

  Strings are lists of \<^typ>\<open>char\<close>, so the model covers the inputs whose UTF-16 code units
  are below 256.  Numbers are exact rationals with the two infinities and NaN: rounding of
  IEEE doubles and the sign of zero are not modelled.
\<close>

named_theorems js_num \<open>conversion and arithmetic of JavaScript numbers\<close>
named_theorems js_str \<open>JavaScript string operations\<close>
named_theorems js_obj \<open>insertion-ordered objects\<close>

section \<open>Characters\<close>

definition code_unit :: "char \<Rightarrow> nat" where
  "code_unit c = of_char c"

definition in_range :: "char \<Rightarrow> char \<Rightarrow> char \<Rightarrow> bool" where
  "in_range a b c \<longleftrightarrow> code_unit a \<le> code_unit c \<and> code_unit c \<le> code_unit b"

definition is_digit :: "char \<Rightarrow> bool" where
  "is_digit c \<longleftrightarrow> in_range CHR ''0'' CHR ''9'' c"

definition is_upper :: "char \<Rightarrow> bool" where
  "is_upper c \<longleftrightarrow> in_range CHR ''A'' CHR ''Z'' c"

definition is_lower :: "char \<Rightarrow> bool" where
  "is_lower c \<longleftrightarrow> in_range CHR ''a'' CHR ''z'' c"

definition is_word :: "char \<Rightarrow> bool" where
  \<comment> \<open>the class \<open>\w\<close>\<close>
  "is_word c \<longleftrightarrow> is_digit c \<or> is_upper c \<or> is_lower c \<or> c = CHR ''_''"

definition is_space :: "char \<Rightarrow> bool" where
  \<comment> \<open>the class \<open>\s\<close> below code unit 256: TAB, LF, VT, FF, CR, SP and NBSP\<close>
  "is_space c \<longleftrightarrow> (9 \<le> code_unit c \<and> code_unit c \<le> 13) \<or> code_unit c = 32 \<or> code_unit c = 160"

definition digit_val :: "char \<Rightarrow> nat" where
  "digit_val c = code_unit c - 48"

definition digit_char :: "nat \<Rightarrow> char" where
  "digit_char d = char_of (48 + d)"

text \<open>Lower to upper case on single code units; a code unit whose upper case form is not one
  code unit below 256 (\<open>0xB5\<close>, \<open>0xDF\<close>, \<open>0xFF\<close>) is handled by \<open>toUpperCase\<close>.\<close>

definition up_char :: "char \<Rightarrow> char" where
  "up_char c =
     (if is_lower c \<or> (224 \<le> code_unit c \<and> code_unit c \<le> 254 \<and> code_unit c \<noteq> 247)
      then char_of (code_unit c - 32) else c)"

definition low_char :: "char \<Rightarrow> char" where
  "low_char c =
     (if is_upper c \<or> (192 \<le> code_unit c \<and> code_unit c \<le> 222 \<and> code_unit c \<noteq> 215)
      then char_of (code_unit c + 32) else c)"

lemmas char_class_defs = in_range_def is_digit_def is_upper_def is_lower_def is_word_def
  is_space_def code_unit_def

lemma code_unit_less [simp]: "code_unit c < 256"
  by (simp add: code_unit_def)

lemma code_unit_eq_iff: "code_unit c = code_unit d \<longleftrightarrow> c = d"
  by (simp add: code_unit_def)

lemma code_unit_char_of: "n < 256 \<Longrightarrow> code_unit (char_of n) = n"
  by (simp add: code_unit_def)

lemma digit_val_less: "is_digit c \<Longrightarrow> digit_val c < 10"
  by (auto simp: is_digit_def in_range_def digit_val_def code_unit_def)

lemma digit_val_char [simp]: "d < 10 \<Longrightarrow> digit_val (digit_char d) = d"
  by (simp add: digit_val_def digit_char_def code_unit_char_of)

lemma is_digit_digit_char [simp]: "d < 10 \<Longrightarrow> is_digit (digit_char d)"
  by (simp add: is_digit_def in_range_def digit_char_def code_unit_char_of) (simp add: code_unit_def)

lemma digit_char_val [simp]: "is_digit c \<Longrightarrow> digit_char (digit_val c) = c"
proof -
  assume "is_digit c"
  then have "48 + digit_val c = code_unit c"
    by (auto simp: is_digit_def in_range_def digit_val_def code_unit_def)
  then show ?thesis by (simp add: digit_char_def code_unit_def)
qed

lemma digit_val_inj: "is_digit c \<Longrightarrow> is_digit d \<Longrightarrow> digit_val c = digit_val d \<Longrightarrow> c = d"
  by (metis digit_char_val)

lemma mod_add_cancel_nat:
  assumes "(a + r) mod m = (b + r) mod (m :: nat)"
  shows "a mod m = b mod m"
proof -
  have "int (a + r) mod int m = int (b + r) mod int m"
    using assms by (metis of_nat_mod)
  then have "int m dvd int (a + r) - int (b + r)" by (simp only: mod_eq_dvd_iff)
  then have "int a mod int m = int b mod int m" by (simp add: mod_eq_dvd_iff)
  then show ?thesis by (metis of_nat_mod of_nat_eq_iff)
qed

lemma mod_mult_cancel_nat:
  assumes "(a * k) mod m = (b * k) mod (m :: nat)" and "coprime k m"
  shows "a mod m = b mod m"
proof -
  have "int (a * k) mod int m = int (b * k) mod int m"
    using assms(1) by (metis of_nat_mod)
  then have "int m dvd (int a - int b) * int k"
    by (simp add: mod_eq_dvd_iff algebra_simps)
  moreover have "coprime (int m) (int k)"
    using assms(2) by (simp add: coprime_commute)
  ultimately have "int m dvd int a - int b"
    by (simp add: coprime_dvd_mult_left_iff)
  then have "int a mod int m = int b mod int m" by (simp add: mod_eq_dvd_iff)
  then show ?thesis by (metis of_nat_mod of_nat_eq_iff)
qed

section \<open>Strings\<close>

text \<open>\<open>toUpperCase\<close>: sharp s becomes two letters; the two code units whose upper case form
  lies above 255 are left alone.\<close>

definition toUpperCase :: "string \<Rightarrow> string" where
  "toUpperCase s = concat (map (\<lambda>c. if code_unit c = 223 then ''SS'' else [up_char c]) s)"

definition toLowerCase :: "string \<Rightarrow> string" where
  "toLowerCase s = map low_char s"

definition substring :: "string \<Rightarrow> nat \<Rightarrow> nat \<Rightarrow> string" where
  \<comment> \<open>both ends clamped to the length, and swapped when out of order\<close>
  "substring s a b =
     (let a' = min a (length s); b' = min b (length s)
      in take (max a' b' - min a' b') (drop (min a' b') s))"

definition charAt :: "string \<Rightarrow> nat \<Rightarrow> string" where
  \<comment> \<open>the empty string out of range\<close>
  "charAt s i = (if i < length s then [s ! i] else '''')"

fun indexOf_from :: "nat \<Rightarrow> char \<Rightarrow> string \<Rightarrow> int" where
  "indexOf_from i c [] = -1"
| "indexOf_from i c (x # xs) = (if x = c then int i else indexOf_from (Suc i) c xs)"

definition indexOf :: "string \<Rightarrow> char \<Rightarrow> int" where
  "indexOf s c = indexOf_from 0 c s"

fun lastIndexOf_from :: "nat \<Rightarrow> char \<Rightarrow> string \<Rightarrow> int \<Rightarrow> int" where
  "lastIndexOf_from i c [] r = r"
| "lastIndexOf_from i c (x # xs) r =
     lastIndexOf_from (Suc i) c xs (if x = c then int i else r)"

definition lastIndexOf :: "string \<Rightarrow> char \<Rightarrow> int" where
  "lastIndexOf s c = lastIndexOf_from 0 c s (-1)"

fun split_on :: "(char \<Rightarrow> bool) \<Rightarrow> string \<Rightarrow> string list" where
  \<comment> \<open>\<open>split\<close> at every single character of the class\<close>
  "split_on p [] = [[]]"
| "split_on p (c # s) =
     (if p c then [] # split_on p s
      else (case split_on p s of [] \<Rightarrow> [[c]] | w # ws \<Rightarrow> (c # w) # ws))"

fun join_with :: "string \<Rightarrow> string list \<Rightarrow> string" where
  "join_with sep [] = []"
| "join_with sep [w] = w"
| "join_with sep (w # v # ws) = w @ sep @ join_with sep (v # ws)"

definition trim :: "string \<Rightarrow> string" where
  "trim s = rev (dropWhile is_space (rev (dropWhile is_space s)))"

definition starts_with :: "string \<Rightarrow> string \<Rightarrow> bool" where
  "starts_with p s \<longleftrightarrow> take (length p) s = p"

lemma split_on_nonempty [simp]: "split_on p s \<noteq> []"
  by (induction s) (auto split: list.splits)

lemma join_split_on: "join_with [c] (split_on (\<lambda>d. d = c) s) = s"
proof (induction s)
  case Nil
  then show ?case by simp
next
  case (Cons x s)
  obtain w ws where "split_on (\<lambda>d. d = c) s = w # ws"
    by (cases "split_on (\<lambda>d. d = c) s") auto
  with Cons show ?case by (cases ws) auto
qed

lemma split_on_no_sep: "list_all (\<lambda>w. list_all (\<lambda>c. \<not> p c) w) (split_on p s)"
  by (induction s) (auto split: list.splits)

lemma indexOf_from_bounds:
  "indexOf_from i c s = -1 \<and> c \<notin> set s
   \<or> (\<exists>k < length s. indexOf_from i c s = int (i + k) \<and> s ! k = c \<and> (\<forall>j<k. s ! j \<noteq> c))"
proof (induction s arbitrary: i)
  case Nil
  then show ?case by simp
next
  case (Cons x s)
  show ?case
  proof (cases "x = c")
    case True
    then show ?thesis by (auto intro!: exI [of _ 0])
  next
    case False
    from Cons [of "Suc i"] show ?thesis
    proof
      assume "indexOf_from (Suc i) c s = -1 \<and> c \<notin> set s"
      with False show ?thesis by auto
    next
      assume "\<exists>k<length s. indexOf_from (Suc i) c s = int (Suc i + k) \<and> s ! k = c \<and> (\<forall>j<k. s ! j \<noteq> c)"
      then obtain k where k: "k < length s" "indexOf_from (Suc i) c s = int (Suc i + k)"
        "s ! k = c" "\<forall>j<k. s ! j \<noteq> c" by blast
      have "\<forall>j<Suc k. (x # s) ! j \<noteq> c"
        using k(4) False by (auto simp: less_Suc_eq_0_disj)
      with k False show ?thesis by (intro disjI2 exI [of _ "Suc k"]) auto
    qed
  qed
qed

lemma indexOf_cases:
  obtains (absent) "indexOf s c = -1" "c \<notin> set s"
  | (at) k where "k < length s" "indexOf s c = int k" "s ! k = c" "\<forall>j<k. s ! j \<noteq> c"
  using indexOf_from_bounds [of 0 c s] unfolding indexOf_def by auto

lemma length_substring_le [simp]: "length (substring s a b) \<le> length s"
  by (simp add: substring_def Let_def min_le_iff_disj)

lemma substring_take: "substring s 0 n = take n s"
  by (cases "n \<le> length s") (auto simp: substring_def Let_def min_def)

lemma substring_from: "a \<le> length s \<Longrightarrow> substring s a (length s) = drop a s"
  by (simp add: substring_def)

lemma substring_single: "i < length s \<Longrightarrow> substring s i (Suc i) = [s ! i]"
  by (simp add: substring_def Let_def flip: Cons_nth_drop_Suc)

section \<open>Numbers\<close>

datatype jsnum = NaN | Infty bool | Fin rat
  \<comment> \<open>\<open>Infty True\<close> is +Infinity\<close>

definition num :: "nat \<Rightarrow> jsnum" where
  "num n = Fin (of_nat n)"

definition trunc :: "rat \<Rightarrow> int" where
  "trunc r = (if 0 \<le> r then \<lfloor>r\<rfloor> else \<lceil>r\<rceil>)"

fun js_mod :: "jsnum \<Rightarrow> jsnum \<Rightarrow> jsnum" where
  "js_mod (Fin a) (Fin b) = (if b = 0 then NaN else Fin (a - b * of_int (trunc (a / b))))"
| "js_mod (Fin a) (Infty _) = Fin a"
| "js_mod _ _ = NaN"

fun js_add :: "jsnum \<Rightarrow> jsnum \<Rightarrow> jsnum" where
  "js_add (Fin a) (Fin b) = Fin (a + b)"
| "js_add NaN _ = NaN"
| "js_add _ NaN = NaN"
| "js_add (Infty a) (Infty b) = (if a = b then Infty a else NaN)"
| "js_add (Infty a) (Fin _) = Infty a"
| "js_add (Fin _) (Infty b) = Infty b"

fun js_mul :: "jsnum \<Rightarrow> jsnum \<Rightarrow> jsnum" where
  "js_mul (Fin a) (Fin b) = Fin (a * b)"
| "js_mul NaN _ = NaN"
| "js_mul _ NaN = NaN"
| "js_mul (Infty a) (Infty b) = Infty (a = b)"
| "js_mul (Infty a) (Fin b) = (if b = 0 then NaN else Infty (a = (0 < b)))"
| "js_mul (Fin a) (Infty b) = (if a = 0 then NaN else Infty (b = (0 < a)))"

fun js_le :: "jsnum \<Rightarrow> jsnum \<Rightarrow> bool" where
  \<comment> \<open>\<open>a <= b\<close>: false as soon as one side is NaN\<close>
  "js_le NaN _ = False"
| "js_le _ NaN = False"
| "js_le (Fin a) (Fin b) = (a \<le> b)"
| "js_le (Infty a) (Fin _) = (\<not> a)"
| "js_le (Fin _) (Infty b) = b"
| "js_le (Infty a) (Infty b) = (\<not> a \<or> b)"

definition js_eq :: "jsnum \<Rightarrow> jsnum \<Rightarrow> bool" where
  \<comment> \<open>\<open>===\<close> on two numbers\<close>
  "js_eq a b \<longleftrightarrow> a \<noteq> NaN \<and> a = b"

subsection \<open>Numerals\<close>

definition dec_val :: "string \<Rightarrow> nat" where
  "dec_val s = foldl (\<lambda>n c. 10 * n + digit_val c) 0 s"

fun nat_str :: "nat \<Rightarrow> string" where
  \<comment> \<open>\<open>toString()\<close> of a non-negative integer\<close>
  "nat_str n = (if n < 10 then [digit_char n] else nat_str (n div 10) @ [digit_char (n mod 10)])"

declare nat_str.simps [simp del]

lemma dec_val_Nil [simp]: "dec_val [] = 0"
  by (simp add: dec_val_def)

lemma dec_val_snoc [simp]: "dec_val (s @ [c]) = 10 * dec_val s + digit_val c"
  by (simp add: dec_val_def)

lemma dec_val_append: "dec_val (s @ t) = dec_val s * 10 ^ length t + dec_val t"
proof (induction t rule: rev_induct)
  case Nil
  then show ?case by simp
next
  case (snoc c t)
  then show ?case by (simp add: append_assoc [symmetric] algebra_simps del: append_assoc)
qed

lemma dec_val_single [simp]: "dec_val [c] = digit_val c"
  using dec_val_snoc [of "[]" c] by simp

lemma nat_str_digits: "list_all is_digit (nat_str n)"
  by (induction n rule: nat_str.induct) (subst nat_str.simps, auto)

lemma nat_str_nonempty [simp]: "nat_str n \<noteq> []"
  by (subst nat_str.simps) simp

text \<open>Printing a number and reading it back.\<close>

lemma dec_val_nat_str [simp]: "dec_val (nat_str n) = n"
proof (induction n rule: nat_str.induct)
  case (1 n)
  then show ?case by (subst nat_str.simps) auto
qed

lemma nat_str_inject: "nat_str m = nat_str n \<longleftrightarrow> m = n"
  by (metis dec_val_nat_str)

subsection \<open>StringToNumber\<close>

fun exponent_of :: "string \<Rightarrow> int option" where
  "exponent_of [] = Some 0"
| "exponent_of (c # s) =
     (if c = CHR ''e'' \<or> c = CHR ''E'' then
        (let neg = (take 1 s = ''-'');
             ds = (if take 1 s = ''-'' \<or> take 1 s = ''+'' then drop 1 s else s)
         in if ds \<noteq> [] \<and> list_all is_digit ds
            then Some (if neg then - int (dec_val ds) else int (dec_val ds)) else None)
      else None)"

definition fraction_of :: "string \<Rightarrow> string option \<times> string" where
  \<comment> \<open>an optional point with the digits after it, and what follows\<close>
  "fraction_of s =
     (if take 1 s = ''.'' then (Some (takeWhile is_digit (drop 1 s)), dropWhile is_digit (drop 1 s))
      else (None, s))"

definition unsigned_decimal :: "string \<Rightarrow> jsnum" where
  "unsigned_decimal s =
     (if s = ''Infinity'' then Infty True
      else let ip = takeWhile is_digit s;
               (fp, rest) = fraction_of (dropWhile is_digit s);
               fd = (case fp of None \<Rightarrow> [] | Some d \<Rightarrow> d)
           in if ip = [] \<and> fd = [] then NaN
              else (case exponent_of rest of
                      None \<Rightarrow> NaN
                    | Some e \<Rightarrow> Fin ((of_nat (dec_val (ip @ fd)) / 10 ^ length fd)
                                     * (if 0 \<le> e then 10 ^ nat e else 1 / 10 ^ nat (- e)))))"

definition radix_digit :: "char \<Rightarrow> nat option" where
  "radix_digit c =
     (if is_digit c then Some (digit_val c)
      else if in_range CHR ''a'' CHR ''z'' c then Some (code_unit c - 87)
      else if in_range CHR ''A'' CHR ''Z'' c then Some (code_unit c - 55) else None)"

fun radix_val :: "nat \<Rightarrow> nat \<Rightarrow> string \<Rightarrow> nat option" where
  "radix_val b acc [] = Some acc"
| "radix_val b acc (c # s) =
     (case radix_digit c of
        None \<Rightarrow> None
      | Some d \<Rightarrow> if d < b then radix_val b (b * acc + d) s else None)"

definition radix_literal :: "nat \<Rightarrow> string \<Rightarrow> jsnum" where
  "radix_literal b s =
     (if s = [] then NaN else case radix_val b 0 s of None \<Rightarrow> NaN | Some n \<Rightarrow> Fin (of_nat n))"

fun js_neg :: "jsnum \<Rightarrow> jsnum" where
  "js_neg (Fin r) = Fin (- r)"
| "js_neg (Infty b) = Infty (\<not> b)"
| "js_neg NaN = NaN"

definition to_number :: "string \<Rightarrow> jsnum" where
  \<comment> \<open>\<open>Number(s)\<close> for a string\<close>
  "to_number s =
     (let t = trim s in
      if t = [] then Fin 0
      else if take 1 t = ''+'' then unsigned_decimal (drop 1 t)
      else if take 1 t = ''-'' then js_neg (unsigned_decimal (drop 1 t))
      else if take 2 t = ''0x'' \<or> take 2 t = ''0X'' then radix_literal 16 (drop 2 t)
      else if take 2 t = ''0o'' \<or> take 2 t = ''0O'' then radix_literal 8 (drop 2 t)
      else if take 2 t = ''0b'' \<or> take 2 t = ''0B'' then radix_literal 2 (drop 2 t)
      else unsigned_decimal t)"

definition parseInt10 :: "string \<Rightarrow> jsnum" where
  \<comment> \<open>\<open>parseInt(s, 10)\<close>: leading white space, a sign, then the longest run of digits\<close>
  "parseInt10 s =
     (let t = dropWhile is_space s;
          neg = (take 1 t = ''-'');
          r = (if take 1 t = ''-'' \<or> take 1 t = ''+'' then drop 1 t else t);
          ds = takeWhile is_digit r
      in if ds = [] then NaN
         else Fin (if neg then - of_nat (dec_val ds) else of_nat (dec_val ds)))"

lemma digit_not_special:
  assumes "is_digit c"
  shows "\<not> is_space c" "c \<noteq> CHR ''+''" "c \<noteq> CHR ''-''" "c \<noteq> CHR ''.''" "c \<noteq> CHR ''x''"
    "c \<noteq> CHR ''X''" "c \<noteq> CHR ''o''" "c \<noteq> CHR ''O''" "c \<noteq> CHR ''b''" "c \<noteq> CHR ''B''"
    "c \<noteq> CHR ''I''"
  using assms by (auto simp: char_class_defs)

lemma trim_digits:
  assumes "list_all is_digit s" shows "trim s = s"
proof (cases s)
  case Nil
  then show ?thesis by (simp add: trim_def)
next
  case (Cons c t)
  have "dropWhile is_space s = s"
    using assms Cons digit_not_special(1) by auto
  moreover have "dropWhile is_space (rev s) = rev s"
  proof (cases "rev s")
    case (Cons d u)
    then have "d \<in> set s" by (metis list.set_intros(1) set_rev)
    then show ?thesis
      using assms Cons digit_not_special(1) by (auto simp: list_all_iff)
  qed simp
  ultimately show ?thesis by (simp add: trim_def)
qed

lemma takeWhile_digits: "list_all is_digit s \<Longrightarrow> takeWhile is_digit s = s"
  and dropWhile_digits: "list_all is_digit s \<Longrightarrow> dropWhile is_digit s = []"
  by (auto simp: list_all_iff)

lemma unsigned_decimal_digits:
  assumes "list_all is_digit s" and "s \<noteq> []"
  shows "unsigned_decimal s = num (dec_val s)"
proof -
  have "s \<noteq> ''Infinity''" using assms digit_not_special(11) by (cases s) auto
  with assms(2) show ?thesis
    by (simp add: unsigned_decimal_def fraction_of_def Let_def num_def
        takeWhile_digits [OF assms(1)] dropWhile_digits [OF assms(1)])
qed

text \<open>A non-empty run of digits is read as its decimal value by both conversions.\<close>

lemma to_number_digits [js_num]:
  assumes "list_all is_digit s" and "s \<noteq> []"
  shows "to_number s = num (dec_val s)"
proof -
  obtain c t where s: "s = c # t" using assms(2) by (cases s) auto
  note c = digit_not_special [of c]
  have t: "take 1 t \<noteq> [x]" if "\<not> is_digit x" for x
    using assms(1) s that by (cases t) auto
  have "take 2 s \<noteq> [CHR ''0'', x]" if "\<not> is_digit x" for x
    using t [OF that] s by (auto simp: numeral_2_eq_2)
  then have "take 2 s \<noteq> ''0x''" "take 2 s \<noteq> ''0X''" "take 2 s \<noteq> ''0o''" "take 2 s \<noteq> ''0O''"
    "take 2 s \<noteq> ''0b''" "take 2 s \<noteq> ''0B''"
    by (simp_all add: char_class_defs)
  moreover have "take 1 s \<noteq> ''+''" "take 1 s \<noteq> ''-''" using c s assms(1) by auto
  ultimately show ?thesis
    unfolding to_number_def Let_def trim_digits [OF assms(1)] using assms(2)
    by (simp only: unsigned_decimal_digits [OF assms] if_False refl simp_thms)
qed

lemma parseInt10_digits [js_num]:
  assumes "list_all is_digit s" and "s \<noteq> []"
  shows "parseInt10 s = num (dec_val s)"
proof -
  obtain c t where s: "s = c # t" using assms(2) by (cases s) auto
  have d: "is_digit c" using assms(1) s by simp
  have "dropWhile is_space s = s" using digit_not_special(1) [OF d] s by simp
  moreover have "take 1 s \<noteq> ''+''" "take 1 s \<noteq> ''-''"
    using digit_not_special [OF d] s by auto
  ultimately show ?thesis
    using assms(2) by (simp add: parseInt10_def Let_def num_def takeWhile_digits [OF assms(1)])
qed

lemma trunc_of_nat_div: "trunc (of_nat a / of_nat b) = int (a div b)"
  by (simp add: trunc_def floor_divide_of_nat_eq)

lemma js_mod_num [js_num]: "0 < b \<Longrightarrow> js_mod (num a) (num b) = num (a mod b)"
proof -
  assume "0 < b"
  have "(of_nat a :: rat) = of_nat (b * (a div b) + a mod b)" by simp
  then have "(of_nat a :: rat) - of_nat b * of_nat (a div b) = of_nat (a mod b)"
    by (simp only: of_nat_add of_nat_mult)
  with \<open>0 < b\<close> show ?thesis by (simp add: num_def trunc_of_nat_div)
qed

lemma num_arith [js_num]:
  "js_add (num a) (num b) = num (a + b)" "js_mul (num a) (num b) = num (a * b)"
  "js_eq (num a) (num b) \<longleftrightarrow> a = b" "js_le (num a) (num b) \<longleftrightarrow> a \<le> b"
  by (simp_all add: num_def js_eq_def)

lemma num_inject [simp]: "num a = num b \<longleftrightarrow> a = b" and num_not_NaN [simp]: "num a \<noteq> NaN"
  by (simp_all add: num_def)

lemma to_number_digit [js_num]: "is_digit c \<Longrightarrow> to_number [c] = num (digit_val c)"
  and parseInt10_digit [js_num]: "is_digit c \<Longrightarrow> parseInt10 [c] = num (digit_val c)"
  by (simp_all add: to_number_digits parseInt10_digits)

lemma split_on_no: "list_all (\<lambda>c. \<not> p c) w \<Longrightarrow> split_on p w = [w]"
  by (induction w) auto

lemma split_on_append: "list_all (\<lambda>c. \<not> p c) w \<Longrightarrow> p c \<Longrightarrow> split_on p (w @ c # s) = w # split_on p s"
  by (induction w) auto

lemma split_on_join: "ws \<noteq> [] \<Longrightarrow> (\<And>w. w \<in> set ws \<Longrightarrow> c \<notin> set w) \<Longrightarrow>
  split_on (\<lambda>d. d = c) (join_with [c] ws) = ws"
proof (induction "[c]" ws rule: join_with.induct)
  case (2 w)
  then have "list_all (\<lambda>d. d \<noteq> c) w" by (auto simp: list_all_iff)
  then show ?case using split_on_no [of "\<lambda>d. d = c" w] by simp
next
  case (3 w v ws)
  then have "list_all (\<lambda>d. d \<noteq> c) w" by (auto simp: list_all_iff)
  then show ?case using 3 by (simp add: split_on_append)
qed simp

lemma split_on_join_with: "(\<And>w. w \<in> set ws \<Longrightarrow> c \<notin> set w) \<Longrightarrow>
  set (split_on (\<lambda>d. d = c) (join_with [c] ws)) \<subseteq> insert [] (set ws)"
  using split_on_join [of ws c] by (cases "ws = []") auto

lemma pair_of_snd: "snd p = b \<Longrightarrow> p = (fst p, b)"
  by auto

section \<open>Transition systems\<close>

inductive reach :: "('s \<Rightarrow> bool) \<Rightarrow> ('s \<Rightarrow> 's \<Rightarrow> bool) \<Rightarrow> 's \<Rightarrow> bool" for init step where
  reach_init: "init s \<Longrightarrow> reach init step s"
| reach_step: "reach init step s \<Longrightarrow> step s s' \<Longrightarrow> reach init step s'"

text \<open>The interface of an invariant: what a component promises of its initial states and of each of
  its steps, and what every reachable state then satisfies.\<close>

locale inductive_invariant =
  fixes init :: "'s \<Rightarrow> bool" and step :: "'s \<Rightarrow> 's \<Rightarrow> bool" and inv :: "'s \<Rightarrow> bool"
  assumes inv_init: "init s \<Longrightarrow> inv s"
    and inv_step: "inv s \<Longrightarrow> step s s' \<Longrightarrow> inv s'"
begin

lemma inv_reach: "reach init step s \<Longrightarrow> inv s"
  by (induction rule: reach.induct) (auto intro: inv_init inv_step)

lemma inv_steps: "step\<^sup>*\<^sup>* s s' \<Longrightarrow> inv s \<Longrightarrow> inv s'"
  by (induction rule: rtranclp_induct) (auto intro: inv_step)

end

lemma length_filter_map_le:
  "(\<And>x. x \<in> set xs \<Longrightarrow> Q (f x) \<Longrightarrow> P x) \<Longrightarrow> length (filter Q (map f xs)) \<le> length (filter P xs)"
  by (induction xs) (auto simp: le_SucI)

end
