(* ===== verification/CertServer.thy ===== *)
theory CertServer
  imports CoreCA
begin

text \<open>
  The HTTP handlers of the core CA (src/CertServer/Controllers): IssueCertificate,
  RevokeCertificate, ChangePassword, DownloadPrivateKey, GetCRL and GetCipherSuites, each with the
  validation of its request class that the API framework performs first.  A handler maps the
  database to the new database and the response; an exception is the response \<open>ServerError\<close>, and the
  database is what had been committed before it.  What the handlers take from outside (the clock,
  the generated key and its DER export, the certificate fingerprint, the encryption for the backup
  server) is a record of arguments.  The second half is the system of all requests in any order,
  and of issue transactions that overlap.
\<close>

section \<open>Requests, responses, environment\<close>

record CertRequest =
  cr_Uid :: string
  cr_Password :: string
  cr_CertPassphrase :: string
  cr_RequestedCipherSuite :: CipherSuite

record PasswordChangeRequest =
  pr_Uid :: string
  pr_OldPassword :: string
  pr_NewPassword :: string

datatype response =
    Ok_cert pkcs12 | Ok_crl crl | Ok_suites "CipherSuite list"
  | NoContent | BadRequest string | Unauthorized | ServerError string

record env =
  e_create :: int \<comment> \<open>first reading of the clock: start of the validity\<close>
  e_expire :: int \<comment> \<open>second reading: the base of its end\<close>
  e_now :: int    \<comment> \<open>reading used by the revocation loop\<close>
  e_key :: nat    \<comment> \<open>the generated key\<close>
  e_export :: "nat \<Rightarrow> string" \<comment> \<open>base 64 of the DER export of a key\<close>
  e_thumbprint :: "x509 \<Rightarrow> string"
  e_encrypt :: "8 word list \<Rightarrow> (8 word list) option" \<comment> \<open>RSA-OAEP, which has a size limit\<close>
  e_sha1 :: "8 word list \<Rightarrow> 8 word list"
  e_passwordList :: string
  e_pubcert_has_key :: bool

definition Required :: "string \<Rightarrow> bool" where
  \<comment> \<open>the attribute refuses empty and blank strings\<close>
  "Required s \<longleftrightarrow> trim s \<noteq> []"

definition StringLength :: "nat \<Rightarrow> nat \<Rightarrow> string \<Rightarrow> bool" where
  "StringLength maxi mini s \<longleftrightarrow> mini \<le> length s \<and> length s \<le> maxi"

definition CertRequest_valid :: "CertRequest \<Rightarrow> bool" where
  "CertRequest_valid r \<longleftrightarrow> Required (cr_Uid r) \<and> StringLength 64 1 (cr_Uid r)
     \<and> Required (cr_Password r) \<and> Required (cr_CertPassphrase r)
     \<and> Required (HashAlg (cr_RequestedCipherSuite r))"

definition PasswordChangeRequest_valid :: "PasswordChangeRequest \<Rightarrow> bool" where
  "PasswordChangeRequest_valid r \<longleftrightarrow> Required (pr_Uid r) \<and> Required (pr_OldPassword r)
     \<and> Required (pr_NewPassword r) \<and> StringLength 64 MinPasswordLength (pr_NewPassword r)"

definition RevokeRequest_valid :: "string \<Rightarrow> bool" where
  "RevokeRequest_valid uid \<longleftrightarrow> Required uid"

definition DownloadPrivateKeyRequest_valid :: "string \<Rightarrow> string \<Rightarrow> bool" where
  "DownloadPrivateKeyRequest_valid uid password \<longleftrightarrow>
     Required uid \<and> StringLength 64 1 uid \<and> Required password"

section \<open>Issuing\<close>

definition ToPem :: "EncryptionAlgorithms \<Rightarrow> string \<Rightarrow> string" where
  "ToPem alg b64 = (case alg of RSA \<Rightarrow> ToPem_RSA b64 | ECDSA \<Rightarrow> ToPem_EC b64)"

definition create_cert :: "env \<Rightarrow> User \<Rightarrow> 64 word \<Rightarrow> x509" where
  "create_cert e user nr =
     \<lparr>x_subject = ''CN='' @ Id user, x_san_email = Email user, x_isCA = False,
      x_keyUsage = [''KeyEncipherment'', ''DigitalSignature'', ''NonRepudiation''],
      x_eku = [''1.3.6.1.5.5.7.3.2'', ''1.3.6.1.5.5.7.3.4''],
      x_cdp = CrlDistributionPoint,
      x_notBefore = e_create e, x_notAfter = e_expire e + UserCertValidityPeriod * 86400,
      x_serial = SerialNrBytes nr, x_key = e_key e\<rparr>"

definition issue_transaction :: "env \<Rightarrow> User \<Rightarrow> ca_db \<Rightarrow> (ca_db \<times> x509) option" where
  \<comment> \<open>an exception inside the scope rolls back, so the result is None and nothing changes\<close>
  "issue_transaction e user db =
     (let nr = GetMaxSerialNr db; cert = create_cert e user nr;
          db1 = RevokeAllCertificatesOfUser (e_now e) user db
      in case AddCertificate db1 \<lparr>SerialNr = nr, Uid = Id user, Certificate = cert, IsRevoked = False\<rparr> of
           None \<Rightarrow> None
         | Some db2 \<Rightarrow> Some (db2, cert))"

definition BackupPrivateKey :: "env \<Rightarrow> string \<Rightarrow> string \<Rightarrow> ca_db \<Rightarrow> ca_db option" where
  "BackupPrivateKey e privKeyExport fileName db =
     (case e_encrypt e (ascii_bytes privKeyExport) of
        None \<Rightarrow> None
      | Some privKeyEncrypted \<Rightarrow>
          Some (db\<lparr>BackupFiles := (fileName, privKeyEncrypted) # filter (\<lambda>f. fst f \<noteq> fileName) (BackupFiles db)\<rparr>))"

definition IssueCertificate :: "env \<Rightarrow> ca_db \<Rightarrow> CertRequest \<Rightarrow> ca_db \<times> response" where
  "IssueCertificate e db certRequest =
     (if \<not> CertRequest_valid certRequest then (db, BadRequest ''validation'')
      else if length (cr_CertPassphrase certRequest) < MinPassphraseLength then
        \<comment> \<open>the warning is formatted with empty braces, which \<open>string.Format\<close> refuses\<close>
        (db, ServerError ''FormatException'')
      else if \<not> IsValidCipherSuite (cr_RequestedCipherSuite certRequest) then
        (db, BadRequest ''Invalid cipher suite.'')
      else case AuthenticateAndGetUser (e_sha1 e) db (cr_Uid certRequest) (cr_Password certRequest) of
        None \<Rightarrow> (db, Unauthorized)
      | Some user \<Rightarrow>
          let privKeyExport = ToPem (Alg (cr_RequestedCipherSuite certRequest)) (e_export e (e_key e))
          in if e_pubcert_has_key e then (db, ServerError ''CryptographicUnexpectedOperationException'')
             else case issue_transaction e user db of
               None \<Rightarrow> (db, ServerError ''DbUpdateException'')
             | Some (db2, userCert) \<Rightarrow>
                 (case BackupPrivateKey e privKeyExport (Id user @ ''_'' @ e_thumbprint e userCert @ ''.pem.enc'') db2 of
                    None \<Rightarrow> (db2, ServerError ''CryptographicException'')
                  | Some db3 \<Rightarrow>
                      let archive = \<lparr>p_cert = userCert, p_key = e_key e, p_passphrase = cr_CertPassphrase certRequest\<rparr>
                      in (AddPrivateKey db3 \<lparr>K_Uid = Id user, KeyPkcs12 = archive\<rparr>, Ok_cert archive)))"

section \<open>The other handlers\<close>

definition RevokeCertificate :: "int \<Rightarrow> ca_db \<Rightarrow> string \<Rightarrow> ca_db \<times> response" where
  "RevokeCertificate now db uid =
     (if \<not> RevokeRequest_valid uid then (db, BadRequest ''validation'')
      else case GetUser db uid of
        Some user \<Rightarrow> (RevokeAllCertificatesOfUser now user db, NoContent)
      | None \<Rightarrow> (db, BadRequest []))"

definition ChangePassword_handler :: "env \<Rightarrow> ca_db \<Rightarrow> PasswordChangeRequest \<Rightarrow> ca_db \<times> response" where
  "ChangePassword_handler e db r =
     (if \<not> PasswordChangeRequest_valid r then (db, BadRequest ''validation'')
      else case AuthenticateAndGetUser (e_sha1 e) db (pr_Uid r) (pr_OldPassword r) of
        None \<Rightarrow> (db, Unauthorized)
      | Some user \<Rightarrow>
          (case ChangePassword (e_sha1 e) (e_passwordList e) db user (pr_NewPassword r) of
             (db', ok) \<Rightarrow> (db', if ok then NoContent else BadRequest [])))"

definition DownloadPrivateKey :: "env \<Rightarrow> ca_db \<Rightarrow> string \<Rightarrow> string \<Rightarrow> response" where
  "DownloadPrivateKey e db uid password =
     (if \<not> DownloadPrivateKeyRequest_valid uid password then BadRequest ''validation''
      else case AuthenticateAndGetUser (e_sha1 e) db uid password of
        None \<Rightarrow> Unauthorized
      | Some user \<Rightarrow>
          (case GetPrivateKey db user of None \<Rightarrow> BadRequest [] | Some k \<Rightarrow> Ok_cert (KeyPkcs12 k)))"

definition GetCRL :: "int \<Rightarrow> ca_db \<Rightarrow> response" where
  "GetCRL now db = Ok_crl (GenerateCRL now db)"

definition GetCipherSuites :: response where
  "GetCipherSuites = Ok_suites CipherSuites"

section \<open>Overlapping issue transactions\<close>

text \<open>An issue transaction reads the database as it was at its first read (the isolation level of the
  database server) and writes single rows: it sets the revocation flag of rows it saw and inserts
  one row, which fails when the key exists by then.\<close>

definition to_revoke :: "int \<Rightarrow> string \<Rightarrow> ca_db \<Rightarrow> (64 word) list" where
  "to_revoke now uid snap =
     map SerialNr (filter (\<lambda>pc. Uid pc = uid \<and> \<not> IsRevoked pc \<and> \<not> now > x_notAfter (Certificate pc))
                          (PublicCertificates snap))"

definition mark_revoked :: "(64 word) list \<Rightarrow> PublicCertificate \<Rightarrow> PublicCertificate" where
  "mark_revoked nrs pc = (if SerialNr pc \<in> set nrs then pc\<lparr>IsRevoked := True\<rparr> else pc)"

definition commit_issue :: "env \<Rightarrow> User \<Rightarrow> ca_db \<Rightarrow> ca_db \<Rightarrow> ca_db option" where
  "commit_issue e user snap db =
     (let nr = GetMaxSerialNr snap; nrs = to_revoke (e_now e) (Id user) snap
      in AddCertificate (db\<lparr>PublicCertificates := map (mark_revoked nrs) (PublicCertificates db)\<rparr>)
           \<lparr>SerialNr = nr, Uid = Id user, Certificate = create_cert e user nr, IsRevoked = False\<rparr>)"

record tx =
  t_env :: env
  t_user :: User
  t_snap :: ca_db

record ca_sys =
  s_db :: ca_db
  s_time :: int
  s_txs :: "tx list"

inductive ca_step :: "ca_sys \<Rightarrow> ca_sys \<Rightarrow> bool" where
  tick: "t \<ge> s_time s \<Longrightarrow> ca_step s (s\<lparr>s_time := t\<rparr>)"
| begin_issue: "AuthenticateAndGetUser (e_sha1 e) (s_db s) uid pw = Some user \<Longrightarrow>
    ca_step s (s\<lparr>s_txs := s_txs s @ [\<lparr>t_env = e, t_user = user, t_snap = s_db s\<rparr>]\<rparr>)"
| commit: "i < length (s_txs s) \<Longrightarrow> e_now (t_env (s_txs s ! i)) \<le> s_time s \<Longrightarrow>
    commit_issue (t_env (s_txs s ! i)) (t_user (s_txs s ! i)) (t_snap (s_txs s ! i)) (s_db s) = Some db' \<Longrightarrow>
    ca_step s (s\<lparr>s_db := db', s_txs := take i (s_txs s) @ drop (Suc i) (s_txs s)\<rparr>)"
| rollback: "i < length (s_txs s) \<Longrightarrow>
    ca_step s (s\<lparr>s_txs := take i (s_txs s) @ drop (Suc i) (s_txs s)\<rparr>)"
| backup: "BackupPrivateKey e pem f (s_db s) = Some db' \<Longrightarrow> ca_step s (s\<lparr>s_db := db'\<rparr>)"
| store_key: "ca_step s (s\<lparr>s_db := AddPrivateKey (s_db s) k\<rparr>)"
| revoke: "now \<le> s_time s \<Longrightarrow> ca_step s (s\<lparr>s_db := fst (RevokeCertificate now (s_db s) uid)\<rparr>)"
| change_password: "ca_step s (s\<lparr>s_db := fst (ChangePassword_handler e (s_db s) r)\<rparr>)"

definition valid_rows :: "ca_db \<Rightarrow> int \<Rightarrow> string \<Rightarrow> PublicCertificate list" where
  "valid_rows db t uid =
     filter (\<lambda>pc. Uid pc = uid \<and> \<not> IsRevoked pc \<and> t \<le> x_notAfter (Certificate pc)) (PublicCertificates db)"

definition later_row :: "PublicCertificate \<Rightarrow> PublicCertificate \<Rightarrow> bool" where
  "later_row a b \<longleftrightarrow> SerialNr a = SerialNr b \<and> Uid a = Uid b \<and> Certificate a = Certificate b
     \<and> (IsRevoked a \<longrightarrow> IsRevoked b)"

definition later :: "ca_db \<Rightarrow> ca_db \<Rightarrow> bool" where
  "later snap db \<longleftrightarrow> length (PublicCertificates snap) \<le> length (PublicCertificates db)
     \<and> list_all2 later_row (PublicCertificates snap)
         (take (length (PublicCertificates snap)) (PublicCertificates db))"

definition tx_ok :: "ca_db \<Rightarrow> tx \<Rightarrow> bool" where
  \<comment> \<open>nothing was inserted since the snapshot, or the number the transaction will use is taken\<close>
  "tx_ok db t \<longleftrightarrow> later (t_snap t) db
     \<and> (length (PublicCertificates (t_snap t)) = length (PublicCertificates db)
        \<or> GetMaxSerialNr (t_snap t) \<in> set (serials db))"

definition ca_inv :: "ca_sys \<Rightarrow> bool" where
  "ca_inv s \<longleftrightarrow> db_wf (s_db s) \<and> (\<forall>t \<in> set (s_txs s). tx_ok (s_db s) t)
     \<and> (\<forall>uid. length (valid_rows (s_db s) (s_time s) uid) \<le> 1)"

definition ca_init :: "ca_sys \<Rightarrow> bool" where
  "ca_init s \<longleftrightarrow> s_txs s = [] \<and> PublicCertificates (s_db s) = [] \<and> PrivateKeys (s_db s) = []
     \<and> distinct (map Id (Users (s_db s)))"

subsection \<open>Rows only get revoked\<close>

lemma later_row_trans: "later_row a b \<Longrightarrow> later_row b c \<Longrightarrow> later_row a c"
  by (auto simp: later_row_def)

lemma later_refl: "later db db"
  by (simp add: later_def list_all2_conv_all_nth later_row_def)

lemma later_map:
  assumes "later a db" "PublicCertificates db' = map f (PublicCertificates db) @ new"
    "\<And>pc. later_row pc (f pc)"
  shows "later a db'"
  using assms unfolding later_def
  by (auto simp: list_all2_conv_all_nth nth_append intro: later_row_trans)

lemma later_serials:
  assumes "later a db" "length (PublicCertificates a) = length (PublicCertificates db)"
  shows "serials a = serials db"
  using assms by (auto simp: later_def serials_def list_all2_conv_all_nth later_row_def intro: nth_equalityI)

lemma GetMaxSerialNr_cong: "serials a = serials db \<Longrightarrow> GetMaxSerialNr a = GetMaxSerialNr db"
  by (simp add: GetMaxSerialNr_def)

lemma later_row_mark: "later_row pc (mark_revoked nrs pc)"
  by (simp add: later_row_def mark_revoked_def)

lemma later_row_revoke: "later_row pc (revoke_row now uid pc)"
  by (simp add: later_row_def revoke_row_def)

lemma mark_revoked_simps [simp]:
  "SerialNr (mark_revoked nrs pc) = SerialNr pc" "Uid (mark_revoked nrs pc) = Uid pc"
  "Certificate (mark_revoked nrs pc) = Certificate pc"
  by (simp_all add: mark_revoked_def)

text \<open>A step that keeps the rows, revoking at most, keeps the invariant.\<close>

lemma ca_inv_rows:
  assumes inv: "ca_inv s" and rows: "PublicCertificates db' = map f (PublicCertificates (s_db s))"
    and f: "\<And>pc. later_row pc (f pc)" and wf: "db_wf db'"
  shows "ca_inv (s\<lparr>s_db := db'\<rparr>)"
proof -
  have ser: "serials db' = serials (s_db s)"
    using f rows by (auto simp: serials_def later_row_def)
  have "tx_ok db' t" if "t \<in> set (s_txs s)" for t
    using inv that later_map [of "t_snap t" "s_db s" db' f "[]"] f rows ser
    by (auto simp: ca_inv_def tx_ok_def)
  moreover have "length (valid_rows db' t uid) \<le> length (valid_rows (s_db s) t uid)" for t uid
    unfolding valid_rows_def rows using f
    by (intro length_filter_map_le) (auto simp: later_row_def)
  ultimately show ?thesis using inv wf by (simp add: ca_inv_def) (meson le_trans)
qed

lemma valid_rows_time: "t \<le> t' \<Longrightarrow> length (valid_rows db t' uid) \<le> length (valid_rows db t uid)"
  using length_filter_map_le [of "PublicCertificates db"
      "\<lambda>pc. Uid pc = uid \<and> \<not> IsRevoked pc \<and> t' \<le> x_notAfter (Certificate pc)" id
      "\<lambda>pc. Uid pc = uid \<and> \<not> IsRevoked pc \<and> t \<le> x_notAfter (Certificate pc)"]
  by (auto simp: valid_rows_def)

subsection \<open>A commit\<close>

lemma commit_issue_Some:
  assumes "commit_issue e user snap db = Some db'"
  shows "GetMaxSerialNr snap \<notin> set (serials db)"
    "PublicCertificates db' = map (mark_revoked (to_revoke (e_now e) (Id user) snap)) (PublicCertificates db)
       @ [\<lparr>SerialNr = GetMaxSerialNr snap, Uid = Id user, Certificate = create_cert e user (GetMaxSerialNr snap),
           IsRevoked = False\<rparr>]"
    "serials db' = serials db @ [GetMaxSerialNr snap]"
    "Users db' = Users db" "PrivateKeys db' = PrivateKeys db"
  using assms by (auto simp: commit_issue_def Let_def AddCertificate_Some serials_def comp_def)

text \<open>With nothing inserted since the snapshot, every certificate of the user that is still valid was
  seen by the transaction, so it is revoked.\<close>

lemma commit_revokes_all:
  assumes "later snap db" "length (PublicCertificates snap) = length (PublicCertificates db)"
  shows "filter (\<lambda>pc. Uid pc = uid \<and> \<not> IsRevoked pc \<and> now \<le> x_notAfter (Certificate pc))
           (map (mark_revoked (to_revoke now uid snap)) (PublicCertificates db)) = []"
proof -
  have "IsRevoked (mark_revoked (to_revoke now uid snap) (PublicCertificates db ! i))"
    if i: "i < length (PublicCertificates db)" "Uid (PublicCertificates db ! i) = uid"
       "now \<le> x_notAfter (Certificate (PublicCertificates db ! i))" for i
  proof -
    let ?a = "PublicCertificates snap ! i" and ?b = "PublicCertificates db ! i"
    have l: "later_row ?a ?b" using assms i by (auto simp: later_def list_all2_conv_all_nth)
    show ?thesis
    proof (cases "IsRevoked ?b")
      case False
      then have "SerialNr ?b \<in> set (to_revoke now uid snap)"
        using l i assms by (auto simp: to_revoke_def later_row_def intro!: image_eqI [of _ _ ?a])
      then show ?thesis by (simp add: mark_revoked_def)
    qed (simp add: mark_revoked_def)
  qed
  then show ?thesis by (auto simp: filter_empty_conv in_set_conv_nth)
qed

lemma tx_ok_commit:
  assumes a: "tx_ok db t" and b: "tx_ok db t'"
    and c: "commit_issue (t_env t) (t_user t) (t_snap t) db = Some db'"
  shows "tx_ok db' t'"
proof -
  note s = commit_issue_Some [OF c]
  have "later (t_snap t') db'" using b later_map [OF _ s(2)] later_row_mark by (simp add: tx_ok_def)
  moreover have "serials (t_snap t) = serials db" using a s(1) later_serials by (auto simp: tx_ok_def)
  then have "length (PublicCertificates (t_snap t')) = length (PublicCertificates db) \<Longrightarrow>
      GetMaxSerialNr (t_snap t') = GetMaxSerialNr (t_snap t)"
    using b later_serials [of "t_snap t'" db] by (auto simp: tx_ok_def intro: GetMaxSerialNr_cong)
  ultimately show ?thesis using b s(3) by (auto simp: tx_ok_def)
qed

lemma ca_inv_commit:
  assumes inv: "ca_inv s" and i: "i < length (s_txs s)" and t: "t = s_txs s ! i"
    and now: "e_now (t_env t) \<le> s_time s"
    and c: "commit_issue (t_env t) (t_user t) (t_snap t) (s_db s) = Some db'"
  shows "ca_inv (s\<lparr>s_db := db', s_txs := take i (s_txs s) @ drop (Suc i) (s_txs s)\<rparr>)"
proof -
  note s = commit_issue_Some [OF c]
  have ok: "tx_ok (s_db s) t" using inv i t by (auto simp: ca_inv_def)
  then have l: "later (t_snap t) (s_db s)"
    "length (PublicCertificates (t_snap t)) = length (PublicCertificates (s_db s))"
    using s(1) by (auto simp: tx_ok_def)
  have "db_wf db'" using inv s by (auto simp: ca_inv_def db_wf_def)
  moreover have "tx_ok db' t'" if "t' \<in> set (take i (s_txs s) @ drop (Suc i) (s_txs s))" for t'
    using that inv ok c tx_ok_commit [OF ok _ c, of t']
    by (auto simp: ca_inv_def dest: in_set_takeD in_set_dropD)
  moreover have "length (valid_rows db' (s_time s) uid) \<le> 1" for uid
  proof (cases "uid = Id (t_user t)")
    case True
    have "length (filter (\<lambda>pc. Uid pc = uid \<and> \<not> IsRevoked pc \<and> s_time s \<le> x_notAfter (Certificate pc))
        (map (mark_revoked (to_revoke (e_now (t_env t)) uid (t_snap t))) (PublicCertificates (s_db s)))) = 0"
      using commit_revokes_all [OF l, of uid "e_now (t_env t)"] now
      by (auto simp: filter_empty_conv)
    then show ?thesis using s(2) True by (simp add: valid_rows_def)
  next
    case False
    have "valid_rows db' (s_time s) uid
        = filter (\<lambda>pc. Uid pc = uid \<and> \<not> IsRevoked pc \<and> s_time s \<le> x_notAfter (Certificate pc))
            (map (mark_revoked (to_revoke (e_now (t_env t)) (Id (t_user t)) (t_snap t))) (PublicCertificates (s_db s)))"
      using False by (simp add: valid_rows_def s(2))
    also have "length \<dots> \<le> length (valid_rows (s_db s) (s_time s) uid)"
      unfolding valid_rows_def
      by (intro length_filter_map_le) (auto simp: mark_revoked_def split: if_splits)
    finally show ?thesis using inv by (simp add: ca_inv_def) (meson le_trans)
  qed
  ultimately show ?thesis by (simp add: ca_inv_def)
qed

subsection \<open>Every reachable state\<close>

lemma rows_BackupPrivateKey: "BackupPrivateKey e pem f db = Some db' \<Longrightarrow>
  PublicCertificates db' = PublicCertificates db \<and> (db_wf db \<longrightarrow> db_wf db')"
  by (auto simp: BackupPrivateKey_def db_wf_def serials_def split: option.splits)

lemma rows_AddPrivateKey: "PublicCertificates (AddPrivateKey db k) = PublicCertificates db"
  by (simp add: AddPrivateKey_def)

lemma rows_set_password:
  "PublicCertificates (set_password_hash uid h db) = PublicCertificates db"
  "db_wf db \<Longrightarrow> db_wf (set_password_hash uid h db)"
  by (auto simp: set_password_hash_def db_wf_def serials_def comp_def if_distrib cong: if_cong)

lemma rows_ChangePassword_handler:
  "PublicCertificates (fst (ChangePassword_handler e db r)) = PublicCertificates db"
  "db_wf db \<Longrightarrow> db_wf (fst (ChangePassword_handler e db r))"
  by (auto simp: ChangePassword_handler_def ChangePassword_def rows_set_password split: option.splits)

lemma RevokeCertificate_rows:
  "\<exists>f. PublicCertificates (fst (RevokeCertificate now db uid)) = map f (PublicCertificates db) \<and> (\<forall>pc. later_row pc (f pc))"
proof (cases "RevokeRequest_valid uid \<and> GetUser db uid \<noteq> None")
  case True
  then obtain u where "GetUser db uid = Some u" "Id u = uid" using GetUser_Some by blast
  then show ?thesis using later_row_revoke True
    by (auto simp: RevokeCertificate_def RevokeAllCertificatesOfUser_def intro: exI [of _ "revoke_row now uid" ] dest: GetUser_Some)
next
  case False
  then show ?thesis
    by (auto simp: RevokeCertificate_def later_row_def intro!: exI [of _ id])
qed

lemma ca_inv_same_rows: "ca_inv s \<Longrightarrow> PublicCertificates db' = PublicCertificates (s_db s) \<Longrightarrow> db_wf db' \<Longrightarrow>
  ca_inv (s\<lparr>s_db := db'\<rparr>)"
  using ca_inv_rows [of s db' id] by (simp add: later_row_def)

lemma ca_inv_step: "ca_step s s' \<Longrightarrow> ca_inv s \<Longrightarrow> ca_inv s'"
proof (induction rule: ca_step.induct)
  case (tick t s)
  then show ?case using valid_rows_time [of "s_time s" t "s_db s"]
    by (auto simp: ca_inv_def intro: order_trans)
next
  case (begin_issue e s uid pw user)
  then show ?case by (auto simp: ca_inv_def tx_ok_def later_refl)
next
  case (commit i s db')
  then show ?case using ca_inv_commit by blast
next
  case (rollback i s)
  then show ?case by (auto simp: ca_inv_def dest: in_set_takeD in_set_dropD)
next
  case (backup e pem f s db')
  then show ?case using rows_BackupPrivateKey ca_inv_same_rows by (metis ca_inv_def)
next
  case (store_key s k)
  then show ?case using rows_AddPrivateKey db_wf_AddPrivateKey ca_inv_same_rows by (metis ca_inv_def)
next
  case (revoke now s uid)
  obtain f where "PublicCertificates (fst (RevokeCertificate now (s_db s) uid)) = map f (PublicCertificates (s_db s))"
      "\<And>pc. later_row pc (f pc)"
    using RevokeCertificate_rows by metis
  moreover have "db_wf (fst (RevokeCertificate now (s_db s) uid))"
    using revoke by (auto simp: ca_inv_def RevokeCertificate_def db_wf_revoke split: option.splits)
  ultimately show ?case using revoke ca_inv_rows by blast
next
  case (change_password s e r)
  then show ?case using rows_ChangePassword_handler ca_inv_same_rows by (metis ca_inv_def)
qed

interpretation ca: inductive_invariant ca_init ca_step ca_inv
proof unfold_locales
  show "ca_inv s" if "ca_init s" for s
    using that by (simp add: ca_init_def ca_inv_def db_wf_def serials_def valid_rows_def)
  show "ca_inv s'" if "ca_inv s" "ca_step s s'" for s s' using that ca_inv_step by blast
qed

section \<open>Properties\<close>

text \<open>C1: In every state the core CA can reach, with any number of overlapping issue transactions
  that read stale snapshots, password changes, revocations and key stores in any order, the serial
  numbers are pairwise different and each user has at most one certificate that is neither revoked
  nor expired.\<close>

theorem at_most_one_valid_certificate:
  assumes "reach ca_init ca_step s"
  shows "distinct (serials (s_db s)) \<and> length (valid_rows (s_db s) (s_time s) uid) \<le> 1"
  using ca.inv_reach [OF assms] by (simp add: ca_inv_def db_wf_def)

definition sample_user :: User where
  "sample_user = \<lparr>Id = ''ab'', FirstName = ''A'', LastName = ''B'', Email = ''ab@imovies.ch'', PasswordHash = []\<rparr>"

definition sample_env :: env where
  "sample_env = \<lparr>e_create = 0, e_expire = 0, e_now = 0, e_key = 1, e_export = (\<lambda>_. ''TUlH''),
     e_thumbprint = (\<lambda>_. ''A9''), e_encrypt = (\<lambda>bs. if length bs \<le> 470 then Some bs else None),
     e_sha1 = (\<lambda>_. []), e_passwordList = ''12345678'', e_pubcert_has_key = False\<rparr>"

definition sample_sys :: ca_sys where
  "sample_sys = \<lparr>s_db = \<lparr>Users = [sample_user], PublicCertificates = [], PrivateKeys = [], BackupFiles = []\<rparr>,
     s_time = 0, s_txs = []\<rparr>"

definition sample_tx :: tx where
  "sample_tx = \<lparr>t_env = sample_env, t_user = sample_user, t_snap = s_db sample_sys\<rparr>"

definition sample_row :: PublicCertificate where
  "sample_row = \<lparr>SerialNr = 0, Uid = ''ab'', Certificate = create_cert sample_env sample_user 0, IsRevoked = False\<rparr>"

text \<open>Two transactions overlap, the first commits.\<close>

theorem at_most_one_valid_certificate_witness:
  "let s = sample_sys\<lparr>s_db := (s_db sample_sys)\<lparr>PublicCertificates := [sample_row]\<rparr>, s_txs := [sample_tx]\<rparr>
   in reach ca_init ca_step s \<and> valid_rows (s_db s) (s_time s) ''ab'' = [sample_row]
      \<and> length (valid_rows (s_db s) (s_time s) ''ab'') \<le> 1"
proof -
  let ?s1 = "sample_sys\<lparr>s_txs := [sample_tx]\<rparr>" and ?s2 = "sample_sys\<lparr>s_txs := [sample_tx, sample_tx]\<rparr>"
  let ?db = "(s_db sample_sys)\<lparr>PublicCertificates := [sample_row]\<rparr>"
  let ?s = "sample_sys\<lparr>s_db := ?db, s_txs := [sample_tx]\<rparr>"
  have auth: "AuthenticateAndGetUser (e_sha1 sample_env) (s_db sample_sys) ''ab'' [] = Some sample_user"
    by (simp add: AuthenticateAndGetUser_def GetUser_def sample_sys_def sample_user_def sample_env_def
        ComputePasswordHash_def hex_string_def)
  have "reach ca_init ca_step sample_sys"
    by (rule reach_init) (simp add: ca_init_def sample_sys_def)
  moreover have "ca_step sample_sys ?s1"
    using begin_issue [OF auth] by (simp add: sample_tx_def sample_sys_def)
  moreover have "ca_step ?s1 ?s2"
    using begin_issue [of sample_env ?s1 "''ab''" "[]" sample_user] auth
    by (simp add: sample_tx_def sample_sys_def)
  moreover have "commit_issue sample_env sample_user (s_db sample_sys) (s_db sample_sys) = Some ?db"
    by (simp add: commit_issue_def AddCertificate_def GetMaxSerialNr_def serials_def sample_sys_def
        sample_row_def sample_user_def Let_def)
  then have "ca_step ?s2 ?s"
    using commit [of 0 ?s2 ?db] by (simp add: sample_tx_def sample_sys_def sample_env_def)
  ultimately have "reach ca_init ca_step ?s" by (meson reach_step)
  moreover have "valid_rows (s_db ?s) (s_time ?s) ''ab'' = [sample_row]"
    by (simp add: valid_rows_def sample_sys_def sample_row_def create_cert_def sample_env_def UserCertValidityPeriod_def)
  ultimately show ?thesis using at_most_one_valid_certificate [of ?s "''ab''"] unfolding Let_def by blast
qed

text \<open>An issue transaction alone is the commit of a transaction whose snapshot is the database.\<close>

lemma revoke_row_mark:
  "distinct (serials db) \<Longrightarrow> pc \<in> set (PublicCertificates db) \<Longrightarrow>
     revoke_row now uid pc = mark_revoked (to_revoke now uid db) pc"
  by (auto simp: revoke_row_def mark_revoked_def to_revoke_def serials_def distinct_map inj_on_def)

lemma issue_transaction_commit:
  assumes "db_wf db"
  shows "map_option fst (issue_transaction e user db) = commit_issue e user db db"
proof -
  have "map (revoke_row (e_now e) (Id user)) (PublicCertificates db)
      = map (mark_revoked (to_revoke (e_now e) (Id user) db)) (PublicCertificates db)"
    using assms revoke_row_mark by (auto simp: db_wf_def)
  then show ?thesis
    by (simp add: issue_transaction_def commit_issue_def RevokeAllCertificatesOfUser_def Let_def option.map_comp
        del: map_eq_conv split: option.splits)
qed

lemma issue_transaction_Some:
  assumes "issue_transaction e user db = Some (db2, cert)"
  shows "cert = create_cert e user (GetMaxSerialNr db)" "GetMaxSerialNr db \<notin> set (serials db)"
    "Users db2 = Users db" "PrivateKeys db2 = PrivateKeys db"
    "PublicCertificates db2 = map (revoke_row (e_now e) (Id user)) (PublicCertificates db)
       @ [\<lparr>SerialNr = GetMaxSerialNr db, Uid = Id user, Certificate = cert, IsRevoked = False\<rparr>]"
  using assms
  by (auto simp: issue_transaction_def Let_def AddCertificate_Some RevokeAllCertificatesOfUser_def serials_def comp_def
      split: option.splits)

text \<open>The part of the issue handler behind the checks.\<close>

lemma IssueCertificate_authenticated:
  assumes "CertRequest_valid r" "\<not> length (cr_CertPassphrase r) < MinPassphraseLength"
    "IsValidCipherSuite (cr_RequestedCipherSuite r)"
    "AuthenticateAndGetUser (e_sha1 e) db (cr_Uid r) (cr_Password r) = Some user"
  shows "IssueCertificate e db r =
    (if e_pubcert_has_key e then (db, ServerError ''CryptographicUnexpectedOperationException'')
     else case issue_transaction e user db of
        None \<Rightarrow> (db, ServerError ''DbUpdateException'')
      | Some (db2, cert) \<Rightarrow>
          (case BackupPrivateKey e (ToPem (Alg (cr_RequestedCipherSuite r)) (e_export e (e_key e)))
                  (Id user @ ''_'' @ e_thumbprint e cert @ ''.pem.enc'') db2 of
             None \<Rightarrow> (db2, ServerError ''CryptographicException'')
           | Some db3 \<Rightarrow>
               let archive = \<lparr>p_cert = cert, p_key = e_key e, p_passphrase = cr_CertPassphrase r\<rparr>
               in (AddPrivateKey db3 \<lparr>K_Uid = Id user, KeyPkcs12 = archive\<rparr>, Ok_cert archive)))"
  using assms by (simp add: IssueCertificate_def Let_def)

text \<open>C2: When the issue handler returns an archive, the request carried the password of a known user,
  a supported cipher suite and a passphrase of at least twelve characters; the certificate in the
  archive is the new last row of the table, under a serial number that was not in use, and a
  download with the same password returns the same archive.\<close>

theorem IssueCertificate_ok:
  assumes "IssueCertificate e db r = (db', Ok_cert a)"
  shows "\<exists>user. AuthenticateAndGetUser (e_sha1 e) db (cr_Uid r) (cr_Password r) = Some user
    \<and> cr_RequestedCipherSuite r \<in> set CipherSuites \<and> 12 \<le> length (cr_CertPassphrase r)
    \<and> GetMaxSerialNr db \<notin> set (serials db) \<and> p_passphrase a = cr_CertPassphrase r
    \<and> p_cert a = create_cert e user (GetMaxSerialNr db)
    \<and> last (PublicCertificates db') =
        \<lparr>SerialNr = GetMaxSerialNr db, Uid = cr_Uid r, Certificate = p_cert a, IsRevoked = False\<rparr>
    \<and> DownloadPrivateKey e db' (cr_Uid r) (cr_Password r) = Ok_cert a"
proof -
  obtain user where u: "AuthenticateAndGetUser (e_sha1 e) db (cr_Uid r) (cr_Password r) = Some user"
      and v: "CertRequest_valid r" "\<not> length (cr_CertPassphrase r) < MinPassphraseLength"
      "IsValidCipherSuite (cr_RequestedCipherSuite r)"
    using assms by (auto simp: IssueCertificate_def split: if_splits option.splits)
  note I = assms [unfolded IssueCertificate_authenticated [OF v u]]
  obtain db2 cert where tr: "issue_transaction e user db = Some (db2, cert)"
    using I by (cases "issue_transaction e user db") (auto split: if_splits)
  obtain db3 where b: "BackupPrivateKey e (ToPem (Alg (cr_RequestedCipherSuite r)) (e_export e (e_key e)))
      (Id user @ ''_'' @ e_thumbprint e cert @ ''.pem.enc'') db2 = Some db3"
    using I tr by (cases "BackupPrivateKey e (ToPem (Alg (cr_RequestedCipherSuite r)) (e_export e (e_key e)))
      (Id user @ ''_'' @ e_thumbprint e cert @ ''.pem.enc'') db2") (auto split: if_splits)
  have fin: "db' = AddPrivateKey db3 \<lparr>K_Uid = Id user, KeyPkcs12 = a\<rparr>"
      "a = \<lparr>p_cert = cert, p_key = e_key e, p_passphrase = cr_CertPassphrase r\<rparr>"
    using I tr b by (auto simp: Let_def split: if_splits)
  have bk: "PublicCertificates db3 = PublicCertificates db2" "Users db3 = Users db2"
    using b by (auto simp: BackupPrivateKey_def split: option.splits)
  note s = issue_transaction_Some [OF tr]
  have id: "Id user = cr_Uid r" and same: "AuthenticateAndGetUser (e_sha1 e) db' (cr_Uid r) (cr_Password r) = Some user"
    using AuthenticateAndGetUser_Id [OF u] AuthenticateAndGetUser_cong [of db' db] u fin s(3) bk(2) by simp_all
  have "DownloadPrivateKey e db' (cr_Uid r) (cr_Password r) = Ok_cert a"
    using v(1) same fin id GetPrivateKey_AddPrivateKey [of db3 "\<lparr>K_Uid = Id user, KeyPkcs12 = a\<rparr>" user]
    by (simp add: DownloadPrivateKey_def DownloadPrivateKeyRequest_valid_def CertRequest_valid_def)
  moreover have "cr_RequestedCipherSuite r \<in> set CipherSuites"
    using v(3) by (auto simp: IsValidCipherSuite_def suite_equals_iff list_ex_iff)
  moreover have "last (PublicCertificates db') =
      \<lparr>SerialNr = GetMaxSerialNr db, Uid = cr_Uid r, Certificate = p_cert a, IsRevoked = False\<rparr>"
    using s(5) bk(1) fin id by (simp add: rows_AddPrivateKey)
  ultimately show ?thesis using u v(2) s(1,2) fin(2) by (simp add: MinPassphraseLength_def)
qed

definition sample_request :: CertRequest where
  "sample_request = \<lparr>cr_Uid = ''ab'', cr_Password = ''plain'', cr_CertPassphrase = ''unique passphrase'',
     cr_RequestedCipherSuite = \<lparr>Alg = ECDSA, HashAlg = ''SHA512'', KeySize = 521\<rparr>\<rparr>"

lemma sample_request_facts:
  "CertRequest_valid sample_request" "\<not> length (cr_CertPassphrase sample_request) < MinPassphraseLength"
  "IsValidCipherSuite (cr_RequestedCipherSuite sample_request)"
  "AuthenticateAndGetUser (e_sha1 sample_env) (s_db sample_sys) (cr_Uid sample_request) (cr_Password sample_request) = Some sample_user"
  by code_simp+

theorem IssueCertificate_ok_witness:
  "let res = IssueCertificate sample_env (s_db sample_sys) sample_request;
       a = \<lparr>p_cert = create_cert sample_env sample_user 0, p_key = 1, p_passphrase = ''unique passphrase''\<rparr>
   in snd res = Ok_cert a \<and> DownloadPrivateKey sample_env (fst res) ''ab'' ''plain'' = Ok_cert a"
proof -
  let ?a = "\<lparr>p_cert = create_cert sample_env sample_user 0, p_key = 1, p_passphrase = ''unique passphrase''\<rparr>"
  have r: "cr_Uid sample_request = ''ab''" "cr_Password sample_request = ''plain''"
    by (simp_all add: sample_request_def)
  have s: "snd (IssueCertificate sample_env (s_db sample_sys) sample_request) = Ok_cert ?a" by code_simp
  then obtain db' where
    db': "IssueCertificate sample_env (s_db sample_sys) sample_request = (db', Ok_cert ?a)" by (metis surjective_pairing)
  have "DownloadPrivateKey sample_env db' ''ab'' ''plain'' = Ok_cert ?a"
    using IssueCertificate_ok [OF db'] unfolding r by blast
  then show ?thesis unfolding Let_def db' fst_conv snd_conv by blast
qed

text \<open>C7: A request the issue handler refuses leaves the database as it was, and the only failure after
  the commit is the one of the backup encryption.\<close>

theorem IssueCertificate_refused:
  assumes "\<forall>a. snd (IssueCertificate e db r) \<noteq> Ok_cert a"
    and "snd (IssueCertificate e db r) \<noteq> ServerError ''CryptographicException''"
  shows "fst (IssueCertificate e db r) = db"
  using assms by (auto simp: IssueCertificate_def Let_def split: if_splits option.splits)

theorem IssueCertificate_refused_witness:
  "let r = sample_request\<lparr>cr_CertPassphrase := ''short''\<rparr>
   in IssueCertificate sample_env (s_db sample_sys) r = (s_db sample_sys, ServerError ''FormatException'')"
proof -
  let ?r = "sample_request\<lparr>cr_CertPassphrase := ''short''\<rparr>"
  have s: "snd (IssueCertificate sample_env (s_db sample_sys) ?r) = ServerError ''FormatException''" by code_simp
  then have "fst (IssueCertificate sample_env (s_db sample_sys) ?r) = s_db sample_sys"
    using IssueCertificate_refused [of sample_env "s_db sample_sys" ?r] by simp
  with s show ?thesis by (simp add: Let_def prod_eq_iff)
qed

text \<open>C6: The encryption for the backup server (RSA with OAEP and SHA-1, a 4096 bit modulus) takes at most
  470 bytes.  For an RSA suite the exported key is longer, so the handler fails after the commit: the
  certificate exists and the user's earlier ones are revoked, but no private key is stored, and a
  download still returns the archive that belongs to a revoked certificate.\<close>

theorem IssueCertificate_RSA_fails:
  assumes oaep: "\<forall>bs. 470 < length bs \<longrightarrow> e_encrypt e bs = None"
    and export: "470 < length (e_export e (e_key e))"
    and r: "CertRequest_valid r" "12 \<le> length (cr_CertPassphrase r)"
      "cr_RequestedCipherSuite r \<in> set CipherSuites" "Alg (cr_RequestedCipherSuite r) = RSA"
    and u: "AuthenticateAndGetUser (e_sha1 e) db (cr_Uid r) (cr_Password r) = Some user"
    and pub: "\<not> e_pubcert_has_key e" and serial: "-1 \<notin> set (serials db)"
  shows "snd (IssueCertificate e db r) = ServerError ''CryptographicException''
    \<and> serials (fst (IssueCertificate e db r)) = serials db @ [GetMaxSerialNr db]
    \<and> PrivateKeys (fst (IssueCertificate e db r)) = PrivateKeys db
    \<and> (\<forall>pc \<in> set (butlast (PublicCertificates (fst (IssueCertificate e db r)))).
         Uid pc = cr_Uid r \<longrightarrow> IsRevoked pc \<or> e_now e > x_notAfter (Certificate pc))"
proof -
  have fresh: "GetMaxSerialNr db \<notin> set (serials db)"
    using GetMaxSerialNr_fresh_all [OF serial] by blast
  have v: "\<not> length (cr_CertPassphrase r) < MinPassphraseLength" "IsValidCipherSuite (cr_RequestedCipherSuite r)"
    using r(2,3) by (auto simp: MinPassphraseLength_def IsValidCipherSuite_def suite_equals_iff list_ex_iff)
  have "470 < length (ascii_bytes (ToPem RSA (e_export e (e_key e))))"
    using export length_FormatB64 [of "e_export e (e_key e)"] by (simp add: ascii_bytes_def ToPem_def ToPem_RSA_def)
  then have b: "BackupPrivateKey e (ToPem RSA (e_export e (e_key e))) f db2 = None" for f db2
    using oaep by (simp add: BackupPrivateKey_def)
  obtain db2 cert where tr: "issue_transaction e user db = Some (db2, cert)"
    using fresh by (auto simp: issue_transaction_def AddCertificate_def Let_def)
  have I: "IssueCertificate e db r = (db2, ServerError ''CryptographicException'')"
    using IssueCertificate_authenticated [OF r(1) v u] pub tr b r(4) by simp
  note s = issue_transaction_Some [OF tr]
  have "Uid pc = cr_Uid r \<Longrightarrow> IsRevoked pc \<or> e_now e > x_notAfter (Certificate pc)"
    if "pc \<in> set (butlast (PublicCertificates db2))" for pc
    using that AuthenticateAndGetUser_Id [OF u] by (auto simp: s(5) revoke_row_revoked)
  then show ?thesis using s(4,5) by (simp add: I serials_def)
qed

definition sample_rsa_env :: env where
  "sample_rsa_env = sample_env\<lparr>e_export := (\<lambda>_. replicate 1588 CHR ''A'')\<rparr>"

definition sample_rsa_request :: CertRequest where
  "sample_rsa_request = sample_request\<lparr>cr_RequestedCipherSuite := \<lparr>Alg = RSA, HashAlg = ''SHA512'', KeySize = 2048\<rparr>\<rparr>"

theorem IssueCertificate_RSA_fails_witness:
  "snd (IssueCertificate sample_rsa_env (s_db sample_sys) sample_rsa_request) = ServerError ''CryptographicException''
   \<and> serials (fst (IssueCertificate sample_rsa_env (s_db sample_sys) sample_rsa_request)) = [0]"
proof -
  have a: "\<forall>bs. 470 < length bs \<longrightarrow> e_encrypt sample_rsa_env bs = None"
    "470 < length (e_export sample_rsa_env (e_key sample_rsa_env))"
    by (simp_all add: sample_rsa_env_def sample_env_def)
  have r: "CertRequest_valid sample_rsa_request" "12 \<le> length (cr_CertPassphrase sample_rsa_request)" by code_simp+
  have s: "cr_RequestedCipherSuite sample_rsa_request \<in> set CipherSuites"
    "Alg (cr_RequestedCipherSuite sample_rsa_request) = RSA" "\<not> e_pubcert_has_key sample_rsa_env"
    by (simp_all add: sample_rsa_request_def CipherSuites_def sample_rsa_env_def sample_env_def)
  have u: "AuthenticateAndGetUser (e_sha1 sample_rsa_env) (s_db sample_sys) (cr_Uid sample_rsa_request)
      (cr_Password sample_rsa_request) = Some sample_user"
    using sample_request_facts(4) by (simp add: sample_rsa_request_def sample_rsa_env_def)
  have d: "serials (s_db sample_sys) = []" by (simp add: serials_def sample_sys_def)
  then show ?thesis using IssueCertificate_RSA_fails [OF a r s(1,2) u s(3)] by (simp add: GetMaxSerialNr_def)
qed

text \<open>C5: After a revocation request for a known user was answered, the revocation list carries the serial
  number of every certificate of that user that had not expired; the list never loses an entry, and
  only that user's numbers are new.\<close>

theorem revoked_certificates_listed:
  assumes "RevokeCertificate now db uid = (db', NoContent)" and "pc \<in> set (PublicCertificates db)"
  shows "signed_be (SerialNrBytes (SerialNr pc)) \<in> set (crl_entries (GenerateCRL t db'))
    \<or> \<not> IsRevoked pc \<and> (Uid pc \<noteq> uid \<or> now > x_notAfter (Certificate pc))"
proof -
  obtain user where u: "GetUser db uid = Some user" and db': "db' = RevokeAllCertificatesOfUser now user db"
    using assms(1) by (auto simp: RevokeCertificate_def split: if_splits option.splits)
  have "revoke_row now uid pc \<in> set (PublicCertificates db')"
    using assms(2) GetUser_Some [OF u] db' by (auto simp: RevokeAllCertificatesOfUser_def)
  moreover have "SerialNr (revoke_row now uid pc) = SerialNr pc" by simp
  ultimately have "IsRevoked (revoke_row now uid pc) \<Longrightarrow>
      signed_be (SerialNrBytes (SerialNr pc)) \<in> set (crl_entries (GenerateCRL t db'))"
    unfolding GenerateCRL_def by (force intro!: image_eqI [of _ _ "revoke_row now uid pc"])
  then show ?thesis unfolding revoke_row_revoked by linarith
qed

theorem revoked_certificates_listed_witness:
  "3 \<in> set (crl_entries (GenerateCRL 5 (fst (RevokeCertificate 4 sample_db ''ab''))))"
proof -
  let ?pc = "\<lparr>SerialNr = 3, Uid = ''ab'', Certificate = sample_x509, IsRevoked = False\<rparr>"
  have "snd (RevokeCertificate 4 sample_db ''ab'') = NoContent" by code_simp
  then have r: "RevokeCertificate 4 sample_db ''ab'' = (fst (RevokeCertificate 4 sample_db ''ab''), NoContent)"
    by (metis surjective_pairing)
  have m: "?pc \<in> set (PublicCertificates sample_db)" by (simp add: sample_db_def)
  have "signed_be (SerialNrBytes 3) = 3" by code_simp
  then show ?thesis using revoked_certificates_listed [OF r m, of 5] by (simp add: sample_x509_def)
qed

text \<open>A password change with the right old password and an acceptable new one makes the new
  password, and every password with the same hash, the one that authenticates the user, and leaves
  the authentication of every other user as it was; any other password change leaves the database
  as it was.\<close>

theorem ChangePassword_effect:
  "(if snd (ChangePassword_handler e db r) = NoContent
    then AuthenticateAndGetUser (e_sha1 e) db (pr_Uid r) (pr_OldPassword r) \<noteq> None
      \<and> \<not> contains_substring (e_passwordList e) (pr_NewPassword r)
      \<and> (AuthenticateAndGetUser (e_sha1 e) (fst (ChangePassword_handler e db r)) uid pw \<noteq> None \<longleftrightarrow>
           (if uid = pr_Uid r then ComputePasswordHash (e_sha1 e) pw = ComputePasswordHash (e_sha1 e) (pr_NewPassword r)
            else AuthenticateAndGetUser (e_sha1 e) db uid pw \<noteq> None))
    else fst (ChangePassword_handler e db r) = db)"
proof (cases "snd (ChangePassword_handler e db r) = NoContent")
  case True
  then obtain user where u: "AuthenticateAndGetUser (e_sha1 e) db (pr_Uid r) (pr_OldPassword r) = Some user"
      and pol: "MeetsPasswordPolicy (e_passwordList e) (pr_NewPassword r)" and v: "PasswordChangeRequest_valid r"
    by (auto simp: ChangePassword_handler_def ChangePassword_def split: if_splits option.splits)
  have H: "fst (ChangePassword_handler e db r)
      = set_password_hash (pr_Uid r) (ComputePasswordHash (e_sha1 e) (pr_NewPassword r)) db"
    using u pol v AuthenticateAndGetUser_Id [OF u] by (simp add: ChangePassword_handler_def ChangePassword_def)
  have "GetUser db (pr_Uid r) = Some user" using u by (simp add: AuthenticateAndGetUser_Some)
  then have "AuthenticateAndGetUser (e_sha1 e) (fst (ChangePassword_handler e db r)) uid pw \<noteq> None \<longleftrightarrow>
      (if uid = pr_Uid r then ComputePasswordHash (e_sha1 e) pw = ComputePasswordHash (e_sha1 e) (pr_NewPassword r)
       else AuthenticateAndGetUser (e_sha1 e) db uid pw \<noteq> None)"
    using GetUser_Some [of db uid] GetUser_Some [of db "pr_Uid r"]
    by (auto simp: H AuthenticateAndGetUser_def GetUser_set_password split: option.splits)
  then show ?thesis using True u pol by (simp add: MeetsPasswordPolicy_def IsValidPassword_def)
next
  case False
  then show ?thesis
    by (auto simp: ChangePassword_handler_def ChangePassword_def split: if_splits option.splits)
qed

lemma issue_steps:
  assumes u: "AuthenticateAndGetUser (e_sha1 e) (s_db s) uid pw = Some user"
    and c: "commit_issue e user (s_db s) (s_db s) = Some db2" and "e_now e \<le> s_time s"
  shows "ca_step\<^sup>*\<^sup>* s (s\<lparr>s_db := db2\<rparr>)"
proof -
  let ?t = "\<lparr>t_env = e, t_user = user, t_snap = s_db s\<rparr>"
  let ?s = "s\<lparr>s_txs := s_txs s @ [?t]\<rparr>"
  have "ca_step s ?s" by (rule begin_issue [OF u])
  moreover have "ca_step ?s (s\<lparr>s_db := db2\<rparr>)"
    using commit [of "length (s_txs s)" ?s db2] c assms(3) by simp
  ultimately show ?thesis by (meson r_into_rtranclp rtranclp.rtrancl_into_rtrancl)
qed

text \<open>C3: The whole issue handler is a sequence of steps of the system: the invariant proved for
  overlapping transactions covers the handler as it is written.\<close>

theorem IssueCertificate_steps:
  assumes "db_wf (s_db s)" and "e_now e \<le> s_time s"
  shows "ca_step\<^sup>*\<^sup>* s (s\<lparr>s_db := fst (IssueCertificate e (s_db s) r)\<rparr>)"
proof (cases "fst (IssueCertificate e (s_db s) r) = s_db s")
  case True
  then show ?thesis by simp
next
  case False
  then obtain user where u: "AuthenticateAndGetUser (e_sha1 e) (s_db s) (cr_Uid r) (cr_Password r) = Some user"
      and v: "CertRequest_valid r" "\<not> length (cr_CertPassphrase r) < MinPassphraseLength"
      "IsValidCipherSuite (cr_RequestedCipherSuite r)"
    by (auto simp: IssueCertificate_def split: if_splits option.splits)
  note I = IssueCertificate_authenticated [OF v u]
  obtain db2 cert where tr: "issue_transaction e user (s_db s) = Some (db2, cert)" and pub: "\<not> e_pubcert_has_key e"
    using I False by (cases "issue_transaction e user (s_db s)") (auto split: if_splits)
  have "commit_issue e user (s_db s) (s_db s) = Some db2"
    using issue_transaction_commit [OF assms(1), of e user] tr by simp
  then have "ca_step\<^sup>*\<^sup>* s (s\<lparr>s_db := db2\<rparr>)"
    by (rule issue_steps [OF u _ assms(2)])
  moreover have "ca_step\<^sup>*\<^sup>* (s\<lparr>s_db := db2\<rparr>) (s\<lparr>s_db := fst (IssueCertificate e (s_db s) r)\<rparr>)"
  proof (cases "BackupPrivateKey e (ToPem (Alg (cr_RequestedCipherSuite r)) (e_export e (e_key e)))
      (Id user @ ''_'' @ e_thumbprint e cert @ ''.pem.enc'') db2")
    case None
    then show ?thesis using I tr pub by simp
  next
    case (Some db3)
    let ?s = "s\<lparr>s_db := db3\<rparr>"
    have "ca_step (s\<lparr>s_db := db2\<rparr>) ?s" using backup [of _ _ _ "s\<lparr>s_db := db2\<rparr>" db3] Some by simp
    moreover have "ca_step ?s (s\<lparr>s_db := AddPrivateKey db3 k\<rparr>)" for k using store_key [of ?s k] by simp
    ultimately show ?thesis using I tr pub Some by (simp add: Let_def) (meson r_into_rtranclp rtranclp.rtrancl_into_rtrancl)
  qed
  ultimately show ?thesis by (rule rtranclp_trans)
qed

theorem IssueCertificate_steps_witness:
  "ca_step\<^sup>*\<^sup>* sample_sys (sample_sys\<lparr>s_db := fst (IssueCertificate sample_env (s_db sample_sys) sample_request)\<rparr>)"
  by (rule IssueCertificate_steps) (simp_all add: sample_sys_def db_wf_def serials_def sample_env_def)

end
