(* ===== verification/WebApp.thy ===== *)
theory WebApp
  imports CertServer
begin

text \<open>
  The public web application (src/WebServer) on top of the core CA: the client that calls the CA
  (src/CoreCA.Client/CoreCAClient.cs), login and the two authentication validators, the account,
  certificate and admin controllers.  The web server reads the same two databases as the CA and
  keeps the table of administrators and a memory cache.  A call to the CA is a call of the handler
  of theory CertServer.
\<close>

section \<open>Client of the core CA\<close>

definition IsSuccessStatusCode :: "response \<Rightarrow> bool" where
  "IsSuccessStatusCode r =
     (case r of Ok_cert _ \<Rightarrow> True | Ok_crl _ \<Rightarrow> True | Ok_suites _ \<Rightarrow> True | NoContent \<Rightarrow> True | _ \<Rightarrow> False)"

definition client_DownloadPrivateKey :: "env \<Rightarrow> ca_db \<Rightarrow> string \<Rightarrow> string \<Rightarrow> pkcs12 option" where
  "client_DownloadPrivateKey e db uid userPassword =
     (case DownloadPrivateKey e db uid userPassword of Ok_cert a \<Rightarrow> Some a | _ \<Rightarrow> None)"

definition client_RequestNewCertificate ::
  "env \<Rightarrow> ca_db \<Rightarrow> string \<Rightarrow> string \<Rightarrow> string \<Rightarrow> CipherSuite option \<Rightarrow> ca_db \<times> pkcs12 option" where
  "client_RequestNewCertificate e db uid userPassword certPassphrase cipherSuite =
     (let suite = (case cipherSuite of
          Some s \<Rightarrow> Some s
        | None \<Rightarrow> (case GetCipherSuites of Ok_suites ss \<Rightarrow> (case ss of [] \<Rightarrow> None | s # _ \<Rightarrow> Some s) | _ \<Rightarrow> None))
      in case suite of
        None \<Rightarrow> (db, None)
      | Some s \<Rightarrow>
          (case IssueCertificate e db \<lparr>cr_Uid = uid, cr_Password = userPassword,
                   cr_CertPassphrase = certPassphrase, cr_RequestedCipherSuite = s\<rparr> of
             (db', Ok_cert a) \<Rightarrow> (db', Some a)
           | (db', _) \<Rightarrow> (db', None)))"

definition client_RevokeCertificate :: "int \<Rightarrow> ca_db \<Rightarrow> string \<Rightarrow> ca_db \<times> bool" where
  "client_RevokeCertificate now db uid =
     (case RevokeCertificate now db uid of (db', r) \<Rightarrow> (db', IsSuccessStatusCode r))"

definition client_ChangePassword :: "env \<Rightarrow> ca_db \<Rightarrow> string \<Rightarrow> string \<Rightarrow> string \<Rightarrow> ca_db \<times> bool" where
  "client_ChangePassword e db uid oldPassword newPassword =
     (case ChangePassword_handler e db \<lparr>pr_Uid = uid, pr_OldPassword = oldPassword, pr_NewPassword = newPassword\<rparr> of
        (db', r) \<Rightarrow> (db', IsSuccessStatusCode r))"

section \<open>Claims and the two validators\<close>

type_synonym claims = "(string \<times> string) list"

record web =
  w_db :: ca_db
  w_admins :: "string list"
  w_cache :: "(string \<times> pkcs12 \<times> int) list"

definition AdminClaim :: string where "AdminClaim = ''IsAdmin''"

definition GetName :: "User \<Rightarrow> string" where
  "GetName user = FirstName user @ '' '' @ LastName user"

definition ToClaimsIdentity :: "User \<Rightarrow> claims" where
  "ToClaimsIdentity user =
     [(''NameIdentifier'', Id user), (''GivenName'', FirstName user), (''Surname'', LastName user),
      (''Name'', GetName user), (''Email'', Email user)]"

definition FindFirstValue :: "claims \<Rightarrow> string \<Rightarrow> string option" where
  "FindFirstValue cs t = map_option snd (List.find (\<lambda>c. fst c = t) cs)"

datatype cookie_result = Reject | Keep | Replace claims

definition ValidatePrincipal :: "web \<Rightarrow> claims \<Rightarrow> cookie_result option" where
  \<comment> \<open>None: no name claim, the null reference throws\<close>
  "ValidatePrincipal w userPrincipal =
     (case FindFirstValue userPrincipal ''NameIdentifier'' of
        None \<Rightarrow> None
      | Some uid \<Rightarrow>
          Some (case GetUser (w_db w) uid of
             None \<Rightarrow> Reject
           | Some user \<Rightarrow>
               if list_ex (\<lambda>c. FindFirstValue userPrincipal (fst c) \<noteq> Some (snd c)) (ToClaimsIdentity user)
               then Replace (ToClaimsIdentity user) else Keep))"

datatype cert_result = NoResult | Success claims | ChainException

definition CertificateValidated :: "web \<Rightarrow> nat \<Rightarrow> string \<Rightarrow> cert_result" where
  \<comment> \<open>the number of chain elements and the simple name of the subject come from the TLS certificate\<close>
  "CertificateValidated w chain_length key =
     (if chain_length < 2 then ChainException
      else case GetUser (w_db w) key of
        None \<Rightarrow> NoResult
      | Some user \<Rightarrow>
          Success (ToClaimsIdentity user
            @ (if key \<in> set (w_admins w) then [(AdminClaim, ''True'')] else [])))"

datatype scheme = Cookie | CertificateScheme

definition default_policy :: "(scheme \<times> claims) list \<Rightarrow> bool" where
  "default_policy ids \<longleftrightarrow> ids \<noteq> []"

definition admin_policy :: "(scheme \<times> claims) list \<Rightarrow> bool" where
  \<comment> \<open>only identities of the certificate scheme are asked for the claim\<close>
  "admin_policy ids \<longleftrightarrow>
     list_ex (\<lambda>i. fst i = CertificateScheme \<and> list_ex (\<lambda>c. fst c = AdminClaim) (snd i)) ids"

section \<open>Account controller\<close>

definition utf8_bytes :: "string \<Rightarrow> 8 word list" where
  "utf8_bytes s = concat (map (\<lambda>c. if code_unit c < 128 then [of_nat (code_unit c)]
     else [of_nat (192 + code_unit c div 64), of_nat (128 + code_unit c mod 64)]) s)"

definition login_hash :: "(8 word list \<Rightarrow> 8 word list) \<Rightarrow> string \<Rightarrow> string" where
  "login_hash sha1 password = hex_string (sha1 (utf8_bytes password))"

datatype login_result = LoginView string | SignedIn claims string

definition LoginDetails_valid :: "string \<Rightarrow> string \<Rightarrow> bool" where
  "LoginDetails_valid uid password \<longleftrightarrow> Required uid \<and> StringLength 64 1 uid \<and> Required password"

definition Login :: "(8 word list \<Rightarrow> 8 word list) \<Rightarrow> web \<Rightarrow> string \<Rightarrow> string \<Rightarrow> string option \<Rightarrow> login_result" where
  "Login sha1 w uid password returnUrl =
     (if LoginDetails_valid uid password then
        (let passwordHash = login_hash sha1 password in
         case GetUser (w_db w) uid of
           None \<Rightarrow> LoginView ''User ID or password incorrect.''
         | Some user \<Rightarrow>
             if PasswordHash user \<noteq> passwordHash then LoginView ''User ID or password incorrect.''
             else if Id user \<in> set (w_admins w) then
               LoginView ''CA admins may only use certificate authentication.''
             else (case returnUrl of
                 Some url \<Rightarrow> if trim url \<noteq> [] then SignedIn (ToClaimsIdentity user) url
                             else SignedIn (ToClaimsIdentity user) ''Index''
               | None \<Rightarrow> SignedIn (ToClaimsIdentity user) ''Index''))
      else LoginView [])"

definition UserDetails_valid :: "(string \<Rightarrow> bool) \<Rightarrow> string \<Rightarrow> string \<Rightarrow> string \<Rightarrow> bool" where
  "UserDetails_valid isEmail firstName lastName mail \<longleftrightarrow>
     Required firstName \<and> StringLength 64 1 firstName \<and> Required lastName \<and> StringLength 64 1 lastName
     \<and> Required mail \<and> isEmail mail \<and> StringLength 64 1 mail"

definition update_user :: "string \<Rightarrow> string \<Rightarrow> string \<Rightarrow> string \<Rightarrow> ca_db \<Rightarrow> ca_db" where
  "update_user uid firstName lastName mail db =
     db\<lparr>Users := map (\<lambda>u. if Id u = uid then u\<lparr>Email := mail, FirstName := firstName, LastName := lastName\<rparr> else u) (Users db)\<rparr>"

definition Update ::
  "(string \<Rightarrow> bool) \<Rightarrow> int \<Rightarrow> web \<Rightarrow> string \<Rightarrow> string \<Rightarrow> string \<Rightarrow> string \<Rightarrow> web \<times> bool option" where
  \<comment> \<open>None: the form is shown again; Some success otherwise.  The result of the revocation is ignored.\<close>
  "Update isEmail now w uid firstName lastName mail =
     (if UserDetails_valid isEmail firstName lastName mail then
        (let Emails = filter (\<lambda>p. Email p = mail) (Users (w_db w)) in
         case GetUser (w_db w) uid of
           None \<Rightarrow> (w, Some False)
         | Some user \<Rightarrow>
             if Emails = [] \<or> Email user = mail then
               (let (db1, _) = client_RevokeCertificate now (w_db w) uid
                in (w\<lparr>w_db := update_user uid firstName lastName mail db1\<rparr>, Some True))
             else (w, Some False))
      else (w, None))"

definition UpdatePasswordDetails_valid :: "string \<Rightarrow> string \<Rightarrow> bool" where
  "UpdatePasswordDetails_valid oldp newp \<longleftrightarrow>
     Required oldp \<and> Required newp \<and> StringLength 64 MinPasswordLength newp"

definition UpdatePassword :: "env \<Rightarrow> web \<Rightarrow> string \<Rightarrow> string \<Rightarrow> string \<Rightarrow> web \<times> bool option" where
  "UpdatePassword e w uid oldp newp =
     (if \<not> UpdatePasswordDetails_valid oldp newp then (w, None)
      else case client_ChangePassword e (w_db w) uid oldp newp of
        (db', ok) \<Rightarrow> (w\<lparr>w_db := db'\<rparr>, Some ok))"

section \<open>Certificate and admin controllers\<close>

record CertificatesData =
  Valid :: "PublicCertificate list"
  Revoked :: "PublicCertificate list"
  Expired :: "PublicCertificate list"

definition FetchCertificatesData :: "int \<Rightarrow> web \<Rightarrow> string \<Rightarrow> CertificatesData" where
  "FetchCertificatesData now w uid =
     (let rows = filter (\<lambda>c. Uid c = uid) (PublicCertificates (w_db w))
      in \<lparr>Valid = filter (\<lambda>c. x_notBefore (Certificate c) \<le> now \<and> now \<le> x_notAfter (Certificate c) \<and> \<not> IsRevoked c) rows,
          Revoked = filter IsRevoked rows,
          Expired = filter (\<lambda>c. now > x_notAfter (Certificate c) \<and> \<not> IsRevoked c) rows\<rparr>)"

definition cache_get :: "int \<Rightarrow> web \<Rightarrow> string \<Rightarrow> pkcs12 option" where
  "cache_get now w key =
     (case map_of (w_cache w) key of None \<Rightarrow> None | Some (a, t) \<Rightarrow> if now < t then Some a else None)"

definition cache_set :: "web \<Rightarrow> string \<Rightarrow> pkcs12 \<Rightarrow> int \<Rightarrow> web" where
  "cache_set w key a t = w\<lparr>w_cache := (key, a, t) # w_cache w\<rparr>"

definition cache_key :: "string \<Rightarrow> string" where
  "cache_key uid = uid @ ''.CertB64''"

definition Download_get :: "int \<Rightarrow> web \<Rightarrow> string \<Rightarrow> pkcs12 option" where
  \<comment> \<open>None is the redirection with the error message\<close>
  "Download_get now w uid = cache_get now w (cache_key uid)"

definition Download_post :: "env \<Rightarrow> int \<Rightarrow> web \<Rightarrow> string \<Rightarrow> string \<Rightarrow> web \<times> bool" where
  "Download_post e now w uid password =
     (if \<not> Required password then (w, False)
      else case client_DownloadPrivateKey e (w_db w) uid password of
        None \<Rightarrow> (w, False)
      | Some a \<Rightarrow> (cache_set w (cache_key uid) a (now + 60), True))"

definition RequestNewCertDetails_valid :: "string \<Rightarrow> string \<Rightarrow> bool" where
  "RequestNewCertDetails_valid passphrase password \<longleftrightarrow>
     Required passphrase \<and> StringLength 256 MinPassphraseLength passphrase \<and> Required password"

definition New :: "env \<Rightarrow> int \<Rightarrow> web \<Rightarrow> string \<Rightarrow> string \<Rightarrow> string \<Rightarrow> web \<times> bool" where
  "New e now w uid passphrase password =
     (if \<not> RequestNewCertDetails_valid passphrase password then (w, False)
      else case client_RequestNewCertificate e (w_db w) uid password passphrase None of
        (db', None) \<Rightarrow> (w\<lparr>w_db := db'\<rparr>, False)
      | (db', Some a) \<Rightarrow> (cache_set (w\<lparr>w_db := db'\<rparr>) (cache_key uid) a (now + 60), True))"

definition Revoke :: "int \<Rightarrow> web \<Rightarrow> string \<Rightarrow> web \<times> bool" where
  "Revoke now w uid =
     (case client_RevokeCertificate now (w_db w) uid of (db', ok) \<Rightarrow> (w\<lparr>w_db := db'\<rparr>, ok))"

record AdminStats =
  NumIssuedCertificates :: nat
  NumRevokedCertificates :: nat
  CurrentSerialNum :: "64 word"

definition Admin_Index :: "web \<Rightarrow> AdminStats" where
  "Admin_Index w =
     \<lparr>NumIssuedCertificates = length (PublicCertificates (w_db w)),
      NumRevokedCertificates = length (filter IsRevoked (PublicCertificates (w_db w))),
      CurrentSerialNum = (case rev (sort (serials (w_db w))) of [] \<Rightarrow> 0 | s # _ \<Rightarrow> s)\<rparr>"

section \<open>Properties\<close>

text \<open>Identities a request can carry: a cookie whose claims the cookie validator accepted or replaced,
  and a client certificate the certificate validator accepted.\<close>

inductive identity :: "web \<Rightarrow> scheme \<times> claims \<Rightarrow> bool" for w where
  by_cookie: "ValidatePrincipal w cs = Some Keep \<Longrightarrow> identity w (Cookie, cs)"
| by_replaced_cookie: "ValidatePrincipal w cs = Some (Replace cs') \<Longrightarrow> identity w (Cookie, cs')"
| by_certificate: "CertificateValidated w n key = Success cs \<Longrightarrow> identity w (CertificateScheme, cs)"

inductive_cases identity_certificate: "identity w (CertificateScheme, cs)"

lemma CertificateValidated_Success:
  "CertificateValidated w n key = Success cs \<longleftrightarrow> 2 \<le> n \<and> (\<exists>user. GetUser (w_db w) key = Some user
     \<and> cs = ToClaimsIdentity user @ (if key \<in> set (w_admins w) then [(AdminClaim, ''True'')] else []))"
  by (auto simp: CertificateValidated_def split: option.splits)

text \<open>C4: A request passes the policy of the admin pages only when it carries a client certificate whose
  subject is a user in the table of administrators, and a login with a password never signs in a
  user of that table.\<close>

theorem admin_needs_certificate:
  assumes "\<forall>i \<in> set ids. identity w i" and "admin_policy ids"
  shows "(\<exists>n key. CertificateValidated w n key \<noteq> NoResult \<and> key \<in> set (w_admins w) \<and> GetUser (w_db w) key \<noteq> None
      \<and> (\<exists>cs. (CertificateScheme, cs) \<in> set ids \<and> FindFirstValue cs ''NameIdentifier'' = Some key))
    \<and> (\<forall>sha1 uid pw url cs target. Login sha1 w uid pw url = SignedIn cs target \<longrightarrow> uid \<notin> set (w_admins w))"
proof -
  obtain cs where cs: "(CertificateScheme, cs) \<in> set ids" "list_ex (\<lambda>c. fst c = AdminClaim) cs"
    using assms(2) by (force simp: admin_policy_def list_ex_iff)
  then obtain n key where c: "CertificateValidated w n key = Success cs"
    using assms(1) identity_certificate by blast
  then have "key \<in> set (w_admins w)" "GetUser (w_db w) key \<noteq> None" "FindFirstValue cs ''NameIdentifier'' = Some key"
    using cs(2) GetUser_Some
    by (auto simp: CertificateValidated_Success ToClaimsIdentity_def AdminClaim_def FindFirstValue_def split: if_splits)
  moreover have "Login sha1 w uid pw url = SignedIn cs target \<Longrightarrow> uid \<notin> set (w_admins w)" for sha1 uid pw url cs target
    using GetUser_Some by (auto simp: Login_def Let_def split: if_splits option.splits)
  moreover have "CertificateValidated w n key \<noteq> NoResult" using c by simp
  ultimately show ?thesis using cs(1) by blast
qed

definition sample_web :: web where
  "sample_web = \<lparr>w_db = sample_db, w_admins = [''ab''], w_cache = []\<rparr>"

theorem admin_needs_certificate_witness:
  "let ids = [(CertificateScheme, ToClaimsIdentity (hd (Users sample_db)) @ [(AdminClaim, ''True'')])]
   in admin_policy ids \<and> (\<exists>n key. CertificateValidated sample_web n key \<noteq> NoResult \<and> key \<in> set (w_admins sample_web))"
proof -
  let ?cs = "ToClaimsIdentity (hd (Users sample_db)) @ [(AdminClaim, ''True'')]"
  have c: "CertificateValidated sample_web 2 ''ab'' = Success ?cs" by code_simp
  have "\<forall>i \<in> set [(CertificateScheme, ?cs)]. identity sample_web i" using by_certificate [OF c] by simp
  moreover have "admin_policy [(CertificateScheme, ?cs)]" by (simp add: admin_policy_def)
  ultimately show ?thesis using admin_needs_certificate [of "[(CertificateScheme, ?cs)]" sample_web]
    unfolding Let_def by blast
qed

lemma filter_partition3:
  "(\<And>x. x \<in> set xs \<Longrightarrow> (if P x then \<not> Q x \<and> \<not> R x else if Q x then \<not> R x else R x)) \<Longrightarrow>
   length (filter P xs) + length (filter Q xs) + length (filter R xs) = length xs"
  by (induction xs) (auto split: if_splits)

text \<open>The certificate page splits the certificates of a user: when none starts in the future, each is
  in exactly one of the three lists, and with the invariant of the CA at most one is listed valid.\<close>

theorem FetchCertificatesData_partition:
  assumes "\<forall>c \<in> set (PublicCertificates (w_db w)). Uid c = uid \<longrightarrow> x_notBefore (Certificate c) \<le> now"
  shows "let d = FetchCertificatesData now w uid; rows = filter (\<lambda>c. Uid c = uid) (PublicCertificates (w_db w))
    in set rows = set (Valid d) \<union> set (Revoked d) \<union> set (Expired d)
       \<and> length (Valid d) + length (Revoked d) + length (Expired d) = length rows
       \<and> Valid d = valid_rows (w_db w) now uid"
proof -
  let ?rows = "filter (\<lambda>c. Uid c = uid) (PublicCertificates (w_db w))"
  have "length (filter (\<lambda>c. x_notBefore (Certificate c) \<le> now \<and> now \<le> x_notAfter (Certificate c) \<and> \<not> IsRevoked c) ?rows)
      + length (filter IsRevoked ?rows) + length (filter (\<lambda>c. now > x_notAfter (Certificate c) \<and> \<not> IsRevoked c) ?rows)
      = length ?rows"
    using assms by (intro filter_partition3) auto
  moreover have "filter (\<lambda>c. x_notBefore (Certificate c) \<le> now \<and> now \<le> x_notAfter (Certificate c) \<and> \<not> IsRevoked c) ?rows
      = valid_rows (w_db w) now uid"
    unfolding valid_rows_def filter_filter using assms by (intro filter_cong) auto
  moreover have "set ?rows = set (filter (\<lambda>c. x_notBefore (Certificate c) \<le> now \<and> now \<le> x_notAfter (Certificate c)
        \<and> \<not> IsRevoked c) ?rows) \<union> set (filter IsRevoked ?rows)
      \<union> set (filter (\<lambda>c. now > x_notAfter (Certificate c) \<and> \<not> IsRevoked c) ?rows)"
    using assms by (auto simp: linorder_not_le)
  ultimately show ?thesis by (simp add: FetchCertificatesData_def Let_def)
qed

theorem FetchCertificatesData_partition_witness:
  "let d = FetchCertificatesData 5 sample_web ''ab''
   in length (Valid d) + length (Revoked d) + length (Expired d) = 1"
proof -
  have "\<forall>c \<in> set (PublicCertificates (w_db sample_web)). Uid c = ''ab'' \<longrightarrow> x_notBefore (Certificate c) \<le> 5"
    by (simp add: sample_web_def sample_db_def sample_x509_def)
  then have "let d = FetchCertificatesData 5 sample_web ''ab''
      in length (Valid d) + length (Revoked d) + length (Expired d)
         = length (filter (\<lambda>c. Uid c = ''ab'') (PublicCertificates (w_db sample_web)))"
    using FetchCertificatesData_partition [of sample_web "''ab''" 5] unfolding Let_def by blast
  moreover have "length (filter (\<lambda>c. Uid c = ''ab'') (PublicCertificates (w_db sample_web))) = 1" by code_simp
  ultimately show ?thesis by simp
qed

text \<open>The two servers hash different bytes.\<close>

lemma utf8_ascii: "list_all (\<lambda>c. code_unit c < 128) s \<Longrightarrow> utf8_bytes s = ascii_bytes s"
  by (induction s) (auto simp: utf8_bytes_def ascii_bytes_def)

text \<open>C8: After the web application changed the password of a user who is not an administrator, the user
  can log in with it when all its characters are ASCII.\<close>

theorem UpdatePassword_then_Login:
  assumes "UpdatePassword e w uid oldp newp = (w', Some True)"
    and "list_all (\<lambda>c. code_unit c < 128) newp" and "uid \<notin> set (w_admins w)" and "length uid \<le> 64"
  shows "\<exists>cs. Login (e_sha1 e) w' uid newp None = SignedIn cs ''Index''
    \<and> FindFirstValue cs ''NameIdentifier'' = Some uid"
proof -
  let ?r = "\<lparr>pr_Uid = uid, pr_OldPassword = oldp, pr_NewPassword = newp\<rparr>"
  have v: "UpdatePasswordDetails_valid oldp newp" and w': "w' = w\<lparr>w_db := fst (ChangePassword_handler e (w_db w) ?r)\<rparr>"
    and ok: "IsSuccessStatusCode (snd (ChangePassword_handler e (w_db w) ?r))"
    using assms(1) by (auto simp: UpdatePassword_def client_ChangePassword_def split: if_splits prod.splits)
  obtain user where u: "AuthenticateAndGetUser (e_sha1 e) (w_db w) uid oldp = Some user"
      and H: "fst (ChangePassword_handler e (w_db w) ?r)
        = set_password_hash uid (ComputePasswordHash (e_sha1 e) newp) (w_db w)" and pv: "PasswordChangeRequest_valid ?r"
    using ok AuthenticateAndGetUser_Id
    by (auto simp: ChangePassword_handler_def ChangePassword_def IsSuccessStatusCode_def split: if_splits option.splits)
  have g: "GetUser (w_db w) uid = Some user" and i: "Id user = uid"
    using u AuthenticateAndGetUser_Id [OF u] by (simp_all add: AuthenticateAndGetUser_Some)
  have "login_hash (e_sha1 e) newp = ComputePasswordHash (e_sha1 e) newp"
    using utf8_ascii [OF assms(2)] by (simp add: login_hash_def ComputePasswordHash_def)
  moreover have "LoginDetails_valid uid newp"
    using v pv assms(4) by (cases uid) (auto simp: LoginDetails_valid_def UpdatePasswordDetails_valid_def
        PasswordChangeRequest_valid_def StringLength_def Required_def trim_def)
  ultimately show ?thesis using g i assms(3)
    by (simp add: Login_def w' H GetUser_set_password ToClaimsIdentity_def FindFirstValue_def)
qed

definition sample_web_env :: env where
  "sample_web_env = sample_env\<lparr>e_sha1 := id\<rparr>"

definition sample_site :: web where
  "sample_site = \<lparr>w_db = sample_db\<lparr>Users := [sample_user\<lparr>PasswordHash := ''6f6c64''\<rparr>]\<rparr>, w_admins = [], w_cache = []\<rparr>"

theorem UpdatePassword_then_Login_witness:
  "\<exists>cs. Login id (fst (UpdatePassword sample_web_env sample_site ''ab'' ''old'' ''new password'')) ''ab'' ''new password'' None
     = SignedIn cs ''Index''"
proof -
  let ?w' = "fst (UpdatePassword sample_web_env sample_site ''ab'' ''old'' ''new password'')"
  have "snd (UpdatePassword sample_web_env sample_site ''ab'' ''old'' ''new password'') = Some True" by code_simp
  then have u: "UpdatePassword sample_web_env sample_site ''ab'' ''old'' ''new password'' = (?w', Some True)"
    by (metis surjective_pairing)
  have a: "list_all (\<lambda>c. code_unit c < 128) ''new password''" by code_simp
  have s: "''ab'' \<notin> set (w_admins sample_site)" "length ''ab'' \<le> 64" "e_sha1 sample_web_env = id"
    by (simp_all add: sample_site_def sample_web_env_def)
  show ?thesis using UpdatePassword_then_Login [OF u a s(1,2)] s(3) by auto
qed


lemma hex_digit_inj: "m < 16 \<Longrightarrow> n < 16 \<Longrightarrow> hex_digit m = hex_digit n \<Longrightarrow> m = n"
  by (auto simp: hex_digit_def digit_char_def char_of_eq_iff take_bit_eq_mod split: if_splits)

lemma hex_string_inj: "hex_string a = hex_string b \<Longrightarrow> a = b"
proof (induction a arbitrary: b)
  case Nil
  then show ?case by (cases b) (auto simp: hex_string_def)
next
  case (Cons x a)
  then obtain y b' where b: "b = y # b'" by (cases b) (auto simp: hex_string_def)
  have lt: "unat z < 256" for z :: "8 word" using unsigned_less [of z] by simp
  have "unat x div 16 = unat y div 16" "unat x mod 16 = unat y mod 16" "hex_string a = hex_string b'"
    using Cons.prems b hex_digit_inj [of "unat x div 16" "unat y div 16"] hex_digit_inj [of "unat x mod 16" "unat y mod 16"]
      lt [of x] lt [of y] by (auto simp: hex_string_def)
  then have "unat x = unat y" by (metis div_mult_mod_eq)
  then show ?case using Cons.IH [of b'] \<open>hex_string a = hex_string b'\<close> b by (simp add: unsigned_word_eqI)
qed


text \<open>A new certificate requested through the web application is always requested with the CA's first
  suite; when that succeeds the archive can be fetched from the cache for a minute, and it is the
  archive the CA stored.\<close>

theorem New_then_Download:
  assumes "New e now w uid passphrase pw = (w', True)" and "t < now + 60"
  shows "\<exists>a. Download_get t w' uid = Some a
    \<and> IssueCertificate e (w_db w) \<lparr>cr_Uid = uid, cr_Password = pw, cr_CertPassphrase = passphrase,
         cr_RequestedCipherSuite = \<lparr>Alg = ECDSA, HashAlg = ''SHA512'', KeySize = 521\<rparr>\<rparr> = (w_db w', Ok_cert a)"
proof -
  let ?r = "\<lparr>cr_Uid = uid, cr_Password = pw, cr_CertPassphrase = passphrase,
         cr_RequestedCipherSuite = \<lparr>Alg = ECDSA, HashAlg = ''SHA512'', KeySize = 521\<rparr>\<rparr>"
  have C: "client_RequestNewCertificate e (w_db w) uid pw passphrase None =
      (case IssueCertificate e (w_db w) ?r of (db', Ok_cert a) \<Rightarrow> (db', Some a) | (db', _) \<Rightarrow> (db', None))"
    by (simp add: client_RequestNewCertificate_def GetCipherSuites_def CipherSuites_def)
  obtain db' a where c: "client_RequestNewCertificate e (w_db w) uid pw passphrase None = (db', Some a)"
      and w': "w' = cache_set (w\<lparr>w_db := db'\<rparr>) (cache_key uid) a (now + 60)"
    using assms(1) by (auto simp: New_def split: if_splits prod.splits option.splits)
  have "IssueCertificate e (w_db w) ?r = (db', Ok_cert a)"
    using c C by (cases "IssueCertificate e (w_db w) ?r") (auto split: response.splits)
  then show ?thesis using w' assms(2) by (simp add: cache_set_def Download_get_def cache_get_def)
qed

theorem New_then_Download_witness:
  "\<exists>a. Download_get 30 (fst (New sample_env 0 (sample_site\<lparr>w_db := s_db sample_sys\<rparr>) ''ab'' ''unique passphrase'' ''plain'')) ''ab'' = Some a"
proof -
  let ?w = "sample_site\<lparr>w_db := s_db sample_sys\<rparr>"
  let ?n = "New sample_env 0 ?w ''ab'' ''unique passphrase'' ''plain''"
  have s: "snd ?n = True" by code_simp
  have t: "(30 :: int) < 0 + 60" by simp
  show ?thesis using New_then_Download [OF pair_of_snd [OF s] t] by blast
qed

end
