(* ===== verification/JsValue.thy ===== *)
theory JsValue
  imports Prelude
begin

text \<open>
  JavaScript values and insertion-ordered objects.  A function value is a number whose meaning
  is given by the \<open>call\<close> argument of the operations that apply functions; a DOM node is a
  number as well.  An object is an association list in insertion order: \<open>obj_set\<close> keeps the
  position of a key that is already there and appends a new one, as property assignment does
  for the string keys of the libraries.  The locale \<open>object_map\<close> states the laws the
  clients rely on.
\<close>

datatype jsval =
    JUndef
  | JNull
  | JBool bool
  | JNum jsnum
  | JStr string
  | JArr "jsval list"
  | JObj "(string \<times> jsval) list"
  | JFun nat
  | JNode nat

datatype jserr = TypeError | Error string

type_synonym 'v obj = "(string \<times> 'v) list"

fun truthy :: "jsval \<Rightarrow> bool" where
  "truthy JUndef = False"
| "truthy JNull = False"
| "truthy (JBool b) = b"
| "truthy (JNum n) = (n \<noteq> NaN \<and> n \<noteq> Fin 0)"
| "truthy (JStr s) = (s \<noteq> [])"
| "truthy _ = True"

fun typeof :: "jsval \<Rightarrow> string" where
  "typeof JUndef = ''undefined''"
| "typeof JNull = ''object''"
| "typeof (JBool b) = ''boolean''"
| "typeof (JNum n) = ''number''"
| "typeof (JStr s) = ''string''"
| "typeof (JArr xs) = ''object''"
| "typeof (JObj kvs) = ''object''"
| "typeof (JFun f) = ''function''"
| "typeof (JNode n) = ''object''"

definition js_or :: "jsval \<Rightarrow> jsval \<Rightarrow> jsval" where
  \<comment> \<open>\<open>a || b\<close>, for an operand \<open>b\<close> without effects\<close>
  "js_or a b = (if truthy a then a else b)"

definition js_and :: "jsval \<Rightarrow> jsval \<Rightarrow> jsval" where
  "js_and a b = (if truthy a then b else a)"

fun js_length :: "jsval \<Rightarrow> jserr + jsval" where
  \<comment> \<open>\<open>v.length\<close>\<close>
  "js_length JUndef = Inl TypeError"
| "js_length JNull = Inl TypeError"
| "js_length (JStr s) = Inr (JNum (Fin (of_nat (length s))))"
| "js_length (JArr xs) = Inr (JNum (Fin (of_nat (length xs))))"
| "js_length (JObj kvs) = Inr (case map_of kvs ''length'' of Some v \<Rightarrow> v | None \<Rightarrow> JUndef)"
| "js_length _ = Inr JUndef"

definition strict_eq :: "jsval \<Rightarrow> jsval \<Rightarrow> bool" where
  \<comment> \<open>\<open>a === b\<close> on primitive values\<close>
  "strict_eq a b \<longleftrightarrow> a = b \<and> a \<noteq> JNum NaN"

lemma truthy_js_or [simp]: "truthy (js_or a b) \<longleftrightarrow> truthy a \<or> truthy b"
  by (simp add: js_or_def)

lemma truthy_js_and [simp]: "truthy (js_and a b) \<longleftrightarrow> truthy a \<and> truthy b"
  by (simp add: js_and_def)

lemma js_or_falsy [simp]: "\<not> truthy a \<Longrightarrow> js_or a b = b"
  and js_or_truthy [simp]: "truthy a \<Longrightarrow> js_or a b = a"
  by (simp_all add: js_or_def)

section \<open>Objects\<close>

abbreviation obj_get :: "'v obj \<Rightarrow> string \<Rightarrow> 'v option" where
  "obj_get \<equiv> map_of"

primrec obj_set :: "string \<Rightarrow> 'v \<Rightarrow> 'v obj \<Rightarrow> 'v obj" where
  "obj_set k v [] = [(k, v)]"
| "obj_set k v (p # ps) = (if fst p = k then (k, v) # ps else p # obj_set k v ps)"

definition obj_del :: "string \<Rightarrow> 'v obj \<Rightarrow> 'v obj" where
  \<comment> \<open>\<open>delete o[k]\<close>\<close>
  "obj_del k ps = filter (\<lambda>p. fst p \<noteq> k) ps"

definition obj_has :: "string \<Rightarrow> 'v obj \<Rightarrow> bool" where
  \<comment> \<open>\<open>k in o\<close>\<close>
  "obj_has k ps \<longleftrightarrow> map_of ps k \<noteq> None"

definition obj_keys :: "'v obj \<Rightarrow> string list" where
  \<comment> \<open>the order of \<open>for (k in o)\<close>\<close>
  "obj_keys ps = map fst ps"

definition obj_wf :: "'v obj \<Rightarrow> bool" where
  "obj_wf ps \<longleftrightarrow> distinct (map fst ps)"

fun obj_extend :: "'v obj \<Rightarrow> 'v obj \<Rightarrow> 'v obj" where
  \<comment> \<open>\<open>$.extend(target, source)\<close>, for sources without undefined values\<close>
  "obj_extend t [] = t"
| "obj_extend t (p # ps) = obj_extend (obj_set (fst p) (snd p) t) ps"

definition defined_entries :: "jsval obj \<Rightarrow> jsval obj" where
  \<comment> \<open>\<open>$.extend\<close> skips the entries whose value is undefined\<close>
  "defined_entries ps = filter (\<lambda>p. snd p \<noteq> JUndef) ps"

definition js_extend :: "jsval obj \<Rightarrow> jsval obj \<Rightarrow> jsval obj" where
  "js_extend t s = obj_extend t (defined_entries s)"

definition js_prop :: "jsval obj \<Rightarrow> string \<Rightarrow> jsval" where
  \<comment> \<open>\<open>o[k]\<close>: undefined where there is no such property\<close>
  "js_prop ps k = (case map_of ps k of None \<Rightarrow> JUndef | Some v \<Rightarrow> v)"

locale object_map =
  fixes get :: "'o \<Rightarrow> string \<Rightarrow> 'v option"
    and set_key :: "string \<Rightarrow> 'v \<Rightarrow> 'o \<Rightarrow> 'o"
    and del_key :: "string \<Rightarrow> 'o \<Rightarrow> 'o"
    and keys :: "'o \<Rightarrow> string list"
    and wf :: "'o \<Rightarrow> bool"
  assumes get_set: "get (set_key k v ob) k' = (if k' = k then Some v else get ob k')"
    and get_del: "get (del_key k ob) k' = (if k' = k then None else get ob k')"
    and wf_set: "wf ob \<Longrightarrow> wf (set_key k v ob)"
    and wf_del: "wf ob \<Longrightarrow> wf (del_key k ob)"
    and keys_get: "k \<in> set (keys ob) \<longleftrightarrow> get ob k \<noteq> None"
    and keys_set: "keys (set_key k v ob) = (if get ob k = None then keys ob @ [k] else keys ob)"
    and wf_keys: "wf ob \<Longrightarrow> distinct (keys ob)"
begin

lemma set_del_same: "get (set_key k v (del_key k ob)) k = Some v"
  by (simp add: get_set)

lemma del_set_same: "get (del_key k (set_key k v ob)) = get (del_key k ob)"
  by (rule ext) (simp add: get_set get_del)

lemma keys_del_set: "set (keys (del_key k (set_key k v ob))) = set (keys ob) - {k}"
  by (auto simp: keys_get get_set get_del split: if_splits)

lemma set_existing_keeps_order: "get ob k \<noteq> None \<Longrightarrow> keys (set_key k v ob) = keys ob"
  by (simp add: keys_set)

text \<open>Deleting a key and setting it again moves it to the end of the enumeration.\<close>

lemma reinsert_at_end: "wf ob \<Longrightarrow> last (keys (set_key k v (del_key k ob))) = k"
  by (simp add: keys_set get_del)

end

lemma map_of_obj_set [js_obj, simp]:
  "map_of (obj_set k v ps) k' = (if k' = k then Some v else map_of ps k')"
  by (induction ps) auto

lemma map_of_obj_del [js_obj, simp]:
  "map_of (obj_del k ps) k' = (if k' = k then None else map_of ps k')"
  by (induction ps) (auto simp: obj_del_def)

lemma keys_obj_set: "map fst (obj_set k v ps) = (if map_of ps k = None then map fst ps @ [k] else map fst ps)"
  by (induction ps) auto

lemma obj_wf_set [js_obj]: "obj_wf ps \<Longrightarrow> obj_wf (obj_set k v ps)"
  by (auto simp: obj_wf_def keys_obj_set map_of_eq_None_iff)

lemma obj_wf_del [js_obj]: "obj_wf ps \<Longrightarrow> obj_wf (obj_del k ps)"
  by (induction ps) (auto simp: obj_wf_def obj_del_def)

interpretation jobj: object_map map_of obj_set obj_del obj_keys obj_wf
proof unfold_locales
  fix ob :: "(string \<times> 'v) list" and k :: string
  show "k \<in> set (obj_keys ob) \<longleftrightarrow> map_of ob k \<noteq> None"
    by (simp add: obj_keys_def map_of_eq_None_iff)
qed (simp_all add: js_obj obj_keys_def keys_obj_set, simp add: obj_wf_def)

lemma obj_wf_extend [js_obj]: "obj_wf t \<Longrightarrow> obj_wf (obj_extend t s)"
  by (induction s arbitrary: t) (auto simp: obj_wf_set)

text \<open>The last source entry for a key wins over the target.\<close>

lemma map_of_obj_extend [js_obj]:
  "obj_wf s \<Longrightarrow> map_of (obj_extend t s) k = (case map_of s k of None \<Rightarrow> map_of t k | Some v \<Rightarrow> Some v)"
proof (induction s arbitrary: t)
  case Nil
  then show ?case by simp
next
  case (Cons p s)
  then have "obj_wf s" and new: "map_of s (fst p) = None"
    by (auto simp: obj_wf_def map_of_eq_None_iff)
  with Cons.IH [of "obj_set (fst p) (snd p) t"] show ?case
    by (auto split: option.splits)
qed

lemma obj_wf_defined: "obj_wf ps \<Longrightarrow> obj_wf (defined_entries ps)"
  by (induction ps) (auto simp: obj_wf_def defined_entries_def)

lemma map_of_defined:
  "obj_wf ps \<Longrightarrow> map_of (defined_entries ps) k = (if map_of ps k = Some JUndef then None else map_of ps k)"
  by (induction ps)
    (auto simp: obj_wf_def defined_entries_def map_of_eq_None_iff split: if_splits intro!: map_of_eq_None_iff [THEN iffD2])

lemma obj_has_iff: "obj_has k ps \<longleftrightarrow> k \<in> set (obj_keys ps)"
  by (simp add: obj_has_def obj_keys_def map_of_eq_None_iff)

end
