(* ===== verification/JsRegex.thy ===== *)
theory JsRegex
  imports Prelude
begin

text \<open>
  The regular expressions of the validation methods.  Only the answer of \<open>test\<close> matters to
  them, and whether a match exists does not depend on the order in which a backtracking engine
  looks for it, so an expression denotes a language and \<open>test\<close> is membership.  A look-ahead
  that scopes over the rest of the input is an intersection.  The matcher works by derivatives
  and is executable; \<open>matches_iff_lang\<close> proves it against the denotation, and the
  \<open>rx_lang\<close> collection rewrites membership in the shapes the methods use.
\<close>

named_theorems rx_lang \<open>membership in the languages of the common expression shapes\<close>

section \<open>Expressions and their languages\<close>

datatype rx =
    RZero
  | ROne
  | RCls "char \<Rightarrow> bool"
  | RSeq rx rx
  | RAlt rx rx
  | RStar rx
  | RAnd rx rx
  | RNot rx

inductive_set star :: "string set \<Rightarrow> string set" for L :: "string set" where
  star_nil: "[] \<in> star L"
| star_app: "u \<in> L \<Longrightarrow> v \<in> star L \<Longrightarrow> u @ v \<in> star L"

primrec lang :: "rx \<Rightarrow> string set" where
  "lang RZero = {}"
| "lang ROne = {[]}"
| "lang (RCls p) = {[c] | c. p c}"
| "lang (RSeq r s) = {u @ v | u v. u \<in> lang r \<and> v \<in> lang s}"
| "lang (RAlt r s) = lang r \<union> lang s"
| "lang (RStar r) = star (lang r)"
| "lang (RAnd r s) = lang r \<inter> lang s"
| "lang (RNot r) = - lang r"

section \<open>The matcher\<close>

primrec nullable :: "rx \<Rightarrow> bool" where
  "nullable RZero = False"
| "nullable ROne = True"
| "nullable (RCls p) = False"
| "nullable (RSeq r s) = (nullable r \<and> nullable s)"
| "nullable (RAlt r s) = (nullable r \<or> nullable s)"
| "nullable (RStar r) = True"
| "nullable (RAnd r s) = (nullable r \<and> nullable s)"
| "nullable (RNot r) = (\<not> nullable r)"

text \<open>Constructors that drop the neutral and the absorbing operand keep derivatives small.\<close>

fun mk_seq :: "rx \<Rightarrow> rx \<Rightarrow> rx" where
  "mk_seq RZero s = RZero"
| "mk_seq ROne s = s"
| "mk_seq r s = RSeq r s"

fun mk_alt :: "rx \<Rightarrow> rx \<Rightarrow> rx" where
  "mk_alt RZero s = s"
| "mk_alt r RZero = r"
| "mk_alt r s = RAlt r s"

primrec deriv :: "char \<Rightarrow> rx \<Rightarrow> rx" where
  "deriv c RZero = RZero"
| "deriv c ROne = RZero"
| "deriv c (RCls p) = (if p c then ROne else RZero)"
| "deriv c (RSeq r s) =
     (if nullable r then mk_alt (mk_seq (deriv c r) s) (deriv c s) else mk_seq (deriv c r) s)"
| "deriv c (RAlt r s) = mk_alt (deriv c r) (deriv c s)"
| "deriv c (RStar r) = mk_seq (deriv c r) (RStar r)"
| "deriv c (RAnd r s) = RAnd (deriv c r) (deriv c s)"
| "deriv c (RNot r) = RNot (deriv c r)"

fun matches :: "rx \<Rightarrow> string \<Rightarrow> bool" where
  "matches r [] = nullable r"
| "matches r (c # s) = matches (deriv c r) s"

lemma lang_mk_seq [simp]: "lang (mk_seq r s) = lang (RSeq r s)"
  by (cases "(r, s)" rule: mk_seq.cases) auto

lemma lang_mk_alt [simp]: "lang (mk_alt r s) = lang (RAlt r s)"
  by (cases "(r, s)" rule: mk_alt.cases) auto

lemma nullable_iff: "nullable r \<longleftrightarrow> [] \<in> lang r"
  by (induction r) (auto intro: star.intros)

lemma Cons_in_star_iff:
  "c # s \<in> star L \<longleftrightarrow> (\<exists>u v. s = u @ v \<and> c # u \<in> L \<and> v \<in> star L)"
proof
  assume "c # s \<in> star L"
  then show "\<exists>u v. s = u @ v \<and> c # u \<in> L \<and> v \<in> star L"
  proof (induction "c # s" rule: star.induct)
    case (star_app u v)
    then show ?case by (cases u) auto
  qed
next
  assume "\<exists>u v. s = u @ v \<and> c # u \<in> L \<and> v \<in> star L"
  then obtain u v where "s = u @ v" "c # u \<in> L" "v \<in> star L" by blast
  then have "(c # u) @ v \<in> star L" by (blast intro: star.star_app)
  then show "c # s \<in> star L" using \<open>s = u @ v\<close> by simp
qed

lemma Cons_in_seq_iff:
  "c # s \<in> lang (RSeq r t) \<longleftrightarrow>
   (\<exists>u v. s = u @ v \<and> c # u \<in> lang r \<and> v \<in> lang t) \<or> [] \<in> lang r \<and> c # s \<in> lang t"
  by (auto simp: Cons_eq_append_conv)

lemma lang_deriv: "s \<in> lang (deriv c r) \<longleftrightarrow> c # s \<in> lang r"
proof (induction r arbitrary: s)
  case (RSeq r1 r2)
  show ?case
    by (simp only: Cons_in_seq_iff deriv.simps)
      (auto simp: RSeq nullable_iff)
next
  case (RStar r)
  show ?case by (auto simp: RStar Cons_in_star_iff)
qed auto

theorem matches_iff_lang: "matches r s \<longleftrightarrow> s \<in> lang r"
  by (induction s arbitrary: r) (simp_all add: nullable_iff lang_deriv)

section \<open>Derived forms\<close>

definition RAny :: rx where "RAny = RCls (\<lambda>_. True)"

definition RDot :: rx where
  \<comment> \<open>\<open>.\<close>: anything but a line terminator\<close>
  "RDot = RCls (\<lambda>c. code_unit c \<noteq> 10 \<and> code_unit c \<noteq> 13)"

definition RChr :: "char \<Rightarrow> rx" where "RChr c = RCls (\<lambda>d. d = c)"

definition RSet :: "string \<Rightarrow> rx" where "RSet cs = RCls (\<lambda>d. List.member cs d)"

definition RRng :: "char \<Rightarrow> char \<Rightarrow> rx" where "RRng a b = RCls (in_range a b)"

abbreviation RDigit :: rx where "RDigit \<equiv> RCls is_digit"

abbreviation RSpace :: rx where "RSpace \<equiv> RCls is_space"

abbreviation RAll :: rx where "RAll \<equiv> RStar RAny"

primrec RLit :: "string \<Rightarrow> rx" where
  "RLit [] = ROne"
| "RLit (c # s) = RSeq (RChr c) (RLit s)"

definition ROpt :: "rx \<Rightarrow> rx" where "ROpt r = RAlt ROne r"

definition RPlus :: "rx \<Rightarrow> rx" where "RPlus r = RSeq r (RStar r)"

primrec RRep :: "nat \<Rightarrow> rx \<Rightarrow> rx" where
  \<comment> \<open>\<open>r{n}\<close>\<close>
  "RRep 0 r = ROne"
| "RRep (Suc n) r = RSeq r (RRep n r)"

primrec RUpto :: "nat \<Rightarrow> rx \<Rightarrow> rx" where
  \<comment> \<open>\<open>r{0,n}\<close>\<close>
  "RUpto 0 r = ROne"
| "RUpto (Suc n) r = RAlt ROne (RSeq r (RUpto n r))"

definition RRepRange :: "nat \<Rightarrow> nat \<Rightarrow> rx \<Rightarrow> rx" where
  \<comment> \<open>\<open>r{n,m}\<close>\<close>
  "RRepRange n m r = RSeq (RRep n r) (RUpto (m - n) r)"

primrec RAlts :: "rx list \<Rightarrow> rx" where
  "RAlts [] = RZero"
| "RAlts (r # rs) = RAlt r (RAlts rs)"

primrec RSeqs :: "rx list \<Rightarrow> rx" where
  "RSeqs [] = ROne"
| "RSeqs (r # rs) = RSeq r (RSeqs rs)"

text \<open>The flag \<open>i\<close>: a class accepts a character when it accepts one of its two case variants.\<close>

primrec case_insensitive :: "rx \<Rightarrow> rx" where
  "case_insensitive RZero = RZero"
| "case_insensitive ROne = ROne"
| "case_insensitive (RCls p) = RCls (\<lambda>c. p c \<or> p (up_char c) \<or> p (low_char c))"
| "case_insensitive (RSeq r s) = RSeq (case_insensitive r) (case_insensitive s)"
| "case_insensitive (RAlt r s) = RAlt (case_insensitive r) (case_insensitive s)"
| "case_insensitive (RStar r) = RStar (case_insensitive r)"
| "case_insensitive (RAnd r s) = RAnd (case_insensitive r) (case_insensitive s)"
| "case_insensitive (RNot r) = RNot (case_insensitive r)"

text \<open>\<open>test\<close> of an expression with both anchors, with one of them, and with none.\<close>

definition test_full :: "rx \<Rightarrow> string \<Rightarrow> bool" where
  "test_full r s = matches r s"

definition test_prefix :: "rx \<Rightarrow> string \<Rightarrow> bool" where
  "test_prefix r s = matches (RSeq r RAll) s"

definition test_suffix :: "rx \<Rightarrow> string \<Rightarrow> bool" where
  "test_suffix r s = matches (RSeq RAll r) s"

definition test_any :: "rx \<Rightarrow> string \<Rightarrow> bool" where
  "test_any r s = matches (RSeq RAll (RSeq r RAll)) s"

lemmas rx_derived = RAny_def RDot_def RChr_def RSet_def RRng_def ROpt_def RPlus_def RRepRange_def

lemma in_RAll [rx_lang]: "s \<in> lang RAll"
  by (induction s) (auto intro: star.intros simp: Cons_in_star_iff RAny_def)

lemma in_RCls [rx_lang]: "s \<in> lang (RCls p) \<longleftrightarrow> (\<exists>c. s = [c] \<and> p c)"
  by simp

lemma in_RLit [rx_lang]: "s \<in> lang (RLit w) \<longleftrightarrow> s = w"
  by (induction w arbitrary: s) (auto simp: RChr_def)

lemma in_star_RCls [rx_lang]: "s \<in> star (lang (RCls p)) \<longleftrightarrow> list_all p s"
  by (induction s) (auto simp: Cons_in_star_iff intro: star.intros)

lemma in_RPlus_RCls [rx_lang]: "s \<in> lang (RPlus (RCls p)) \<longleftrightarrow> s \<noteq> [] \<and> list_all p s"
proof (cases s)
  case Nil
  then show ?thesis by (simp add: RPlus_def)
next
  case (Cons c t)
  have "s \<in> lang (RPlus (RCls p)) \<longleftrightarrow> p c \<and> t \<in> star (lang (RCls p))"
    unfolding RPlus_def Cons Cons_in_seq_iff by auto
  then show ?thesis by (simp only: in_star_RCls Cons list.pred_inject) simp
qed

lemma in_RSeq_RCls [rx_lang]:
  "s \<in> lang (RSeq (RCls p) r) \<longleftrightarrow> (case s of [] \<Rightarrow> False | c # t \<Rightarrow> p c \<and> t \<in> lang r)"
proof (cases s)
  case (Cons c t)
  then show ?thesis by (simp only: Cons_in_seq_iff list.case) auto
qed auto

lemma in_RAlt [rx_lang]: "s \<in> lang (RAlt r t) \<longleftrightarrow> s \<in> lang r \<or> s \<in> lang t"
  and in_ROne [rx_lang]: "s \<in> lang ROne \<longleftrightarrow> s = []"
  and in_RSeq_ROne [rx_lang]: "s \<in> lang (RSeq ROne t) \<longleftrightarrow> s \<in> lang t"
  and in_RSeq_RAlt [rx_lang]: "s \<in> lang (RSeq (RAlt r r') t) \<longleftrightarrow> s \<in> lang (RSeq r t) \<or> s \<in> lang (RSeq r' t)"
  and in_RSeq_RSeq [rx_lang]: "s \<in> lang (RSeq (RSeq r r') t) \<longleftrightarrow> s \<in> lang (RSeq r (RSeq r' t))"
  by (auto simp: append_assoc [symmetric] simp del: append_assoc) (metis append_assoc)+

lemma in_RRep_RCls [rx_lang]: "s \<in> lang (RRep n (RCls p)) \<longleftrightarrow> length s = n \<and> list_all p s"
proof (induction n arbitrary: s)
  case 0
  then show ?case by auto
next
  case (Suc n)
  show ?case unfolding RRep.simps in_RSeq_RCls Suc by (cases s) auto
qed

lemma in_RUpto_RCls [rx_lang]: "s \<in> lang (RUpto n (RCls p)) \<longleftrightarrow> length s \<le> n \<and> list_all p s"
proof (induction n arbitrary: s)
  case 0
  then show ?case by auto
next
  case (Suc n)
  show ?case unfolding RUpto.simps lang.simps(5) Un_iff in_RSeq_RCls Suc by (cases s) auto
qed

lemma in_RSeq: "s \<in> lang (RSeq r t) \<longleftrightarrow> (\<exists>u v. s = u @ v \<and> u \<in> lang r \<and> v \<in> lang t)"
  by auto

lemma in_RRepRange_RCls [rx_lang]:
  assumes "n \<le> m"
  shows "s \<in> lang (RRepRange n m (RCls p)) \<longleftrightarrow> n \<le> length s \<and> length s \<le> m \<and> list_all p s"
proof
  assume "s \<in> lang (RRepRange n m (RCls p))"
  then show "n \<le> length s \<and> length s \<le> m \<and> list_all p s"
    using assms by (auto simp: RRepRange_def in_RRep_RCls in_RUpto_RCls simp del: lang.simps(3))
next
  assume *: "n \<le> length s \<and> length s \<le> m \<and> list_all p s"
  then have "take n s \<in> lang (RRep n (RCls p))" "drop n s \<in> lang (RUpto (m - n) (RCls p))"
    unfolding in_RRep_RCls in_RUpto_RCls by (auto simp: list_all_iff dest: in_set_takeD in_set_dropD)
  then show "s \<in> lang (RRepRange n m (RCls p))"
    unfolding RRepRange_def in_RSeq by (metis append_take_drop_id)
qed

text \<open>What the four forms of \<open>test\<close> decide.\<close>

lemma test_full_iff: "test_full r s \<longleftrightarrow> s \<in> lang r"
  by (simp add: test_full_def matches_iff_lang)

lemma test_prefix_iff: "test_prefix r s \<longleftrightarrow> (\<exists>u v. s = u @ v \<and> u \<in> lang r)"
  unfolding test_prefix_def matches_iff_lang in_RSeq using in_RAll by blast

lemma test_suffix_iff: "test_suffix r s \<longleftrightarrow> (\<exists>u v. s = u @ v \<and> v \<in> lang r)"
  unfolding test_suffix_def matches_iff_lang in_RSeq using in_RAll by blast

lemma test_any_iff: "test_any r s \<longleftrightarrow> (\<exists>u v w. s = u @ v @ w \<and> v \<in> lang r)"
  unfolding test_any_def matches_iff_lang in_RSeq using in_RAll by blast

lemma test_any_RCls: "test_any (RCls p) s \<longleftrightarrow> (\<exists>c \<in> set s. p c)"
proof
  assume "test_any (RCls p) s"
  then show "\<exists>c \<in> set s. p c" by (auto simp: test_any_iff)
next
  assume "\<exists>c \<in> set s. p c"
  then obtain c u v where "s = u @ c # v" "p c" by (metis split_list)
  then show "test_any (RCls p) s"
    unfolding test_any_iff by (intro exI [of _ u] exI [of _ "[c]"] exI [of _ v]) auto
qed

lemma test_any_RPlus: "test_any (RPlus (RCls p)) s \<longleftrightarrow> (\<exists>c \<in> set s. p c)"
proof
  assume "test_any (RPlus (RCls p)) s"
  then obtain u v w where "s = u @ v @ w" and "v \<noteq> []" and "list_all p v"
    unfolding test_any_iff in_RPlus_RCls by blast
  then show "\<exists>c \<in> set s. p c" by (cases v) auto
next
  assume "\<exists>c \<in> set s. p c"
  then obtain u c w where "s = u @ [c] @ w" "p c" by (metis append_Cons append_Nil split_list)
  moreover from \<open>p c\<close> have "[c] \<in> lang (RPlus (RCls p))" by (simp only: in_RPlus_RCls) simp
  ultimately show "test_any (RPlus (RCls p)) s" unfolding test_any_iff by blast
qed

end
