(* ===== verification/ValidateBase.thy ===== *)
theory ValidateBase
  imports JsValue JsRegex
begin

text \<open>
  The form elements as jquery.validate.js sees them and the parts of the validator that read
  them: element values, radio and checkbox groups, dependencies, the \<open>required\<close> method and
  the test for an optional field.  A context holds what \<open>this\<close> gives these functions: the
  named elements of the current form in document order, the ignore filter of the settings, the
  number of nodes a selector finds in the form and the meaning of function values.
\<close>

section \<open>Elements and the validator's view of the form\<close>

record elt =
  e_ref :: nat
  e_name :: string
  e_id :: string
  e_nodeName :: string
  e_type :: string
  e_attrs :: "string obj"
  e_data :: "jsval obj"
  e_val :: jsval
  e_text :: string
  e_checked :: bool
  e_selected :: nat
  e_badInput :: "bool option"
  e_title :: string

record vctx =
  c_form :: "elt list"
  c_ignore :: "elt \<Rightarrow> bool"
  c_select :: "string \<Rightarrow> nat"
  c_call :: "nat \<Rightarrow> elt \<Rightarrow> jsval"

definition has_attr :: "elt \<Rightarrow> string \<Rightarrow> bool" where
  "has_attr e a \<longleftrightarrow> obj_has a (e_attrs e)"

definition css_meta :: "char \<Rightarrow> bool" where
  "css_meta c \<longleftrightarrow> List.member (CHR 0x5C # CHR 0x27 # ''!\"#$%&()*+,./:;<=>?@[]^`{|}~'') c"

definition escapeCssMeta :: "string \<Rightarrow> string" where
  "escapeCssMeta s = concat (map (\<lambda>c. if css_meta c then [CHR 0x5C, c] else [c]) s)"

definition checkable :: "elt \<Rightarrow> bool" where
  "checkable e \<longleftrightarrow>
     test_any (case_insensitive (RAlt (RLit ''radio'') (RLit ''checkbox''))) (e_type e)"

definition findByName :: "vctx \<Rightarrow> string \<Rightarrow> elt list" where
  "findByName v name = filter (\<lambda>e. e_name e = name) (c_form v)"

definition validationTargetFor :: "vctx \<Rightarrow> elt \<Rightarrow> elt option" where
  \<comment> \<open>a radio button or checkbox stands for the first one of its group\<close>
  "validationTargetFor v e =
     (let es = (if checkable e then findByName v (e_name e) else [e])
      in case filter (\<lambda>x. \<not> c_ignore v x) es of [] \<Rightarrow> None | x # _ \<Rightarrow> Some x)"

fun objectLength :: "jsval obj \<Rightarrow> nat" where
  \<comment> \<open>entries that are neither undefined, null nor false\<close>
  "objectLength [] = 0"
| "objectLength (p # ps) =
     (if snd p \<noteq> JUndef \<and> snd p \<noteq> JNull \<and> snd p \<noteq> JBool False then Suc (objectLength ps)
      else objectLength ps)"

section \<open>Element values\<close>

definition file_name :: "string \<Rightarrow> string" where
  \<comment> \<open>the part of a file input's value that \<open>elementValue\<close> keeps\<close>
  "file_name v =
     (if take 12 v = ''C:'' @ [CHR 0x5C] @ ''fakepath'' @ [CHR 0x5C] then drop 12 v
      else if lastIndexOf v (CHR ''/'') \<ge> 0 then drop (nat (lastIndexOf v (CHR ''/'') + 1)) v
      else if lastIndexOf v (CHR 0x5C) \<ge> 0 then drop (nat (lastIndexOf v (CHR 0x5C) + 1)) v
      else v)"

definition val_of_set :: "elt list \<Rightarrow> jsval" where
  \<comment> \<open>jQuery's \<open>.val()\<close>: the value of the first element, undefined for the empty set\<close>
  "val_of_set es = (case es of [] \<Rightarrow> JUndef | e # _ \<Rightarrow> e_val e)"

definition elementValue :: "vctx \<Rightarrow> elt \<Rightarrow> jserr + jsval" where
  "elementValue v e =
     (if e_type e = ''radio'' \<or> e_type e = ''checkbox'' then
        Inr (val_of_set (filter e_checked (findByName v (e_name e))))
      else if e_type e = ''number'' \<and> e_badInput e \<noteq> None then
        Inr (if e_badInput e = Some True then JStr ''NaN'' else e_val e)
      else
        (let val = (if has_attr e ''contenteditable'' then JStr (e_text e) else e_val e)
         in if e_type e = ''file'' then
              (case val of JStr s \<Rightarrow> Inr (JStr (file_name s)) | _ \<Rightarrow> Inl TypeError)
            else (case val of
                    JStr s \<Rightarrow> Inr (JStr (filter (\<lambda>c. c \<noteq> CHR 0x0D) s))
                  | _ \<Rightarrow> Inr val)))"

definition getLength :: "vctx \<Rightarrow> jsval \<Rightarrow> elt \<Rightarrow> jserr + jsval" where
  "getLength v value e =
     (let node = toLowerCase (e_nodeName e) in
      if node = ''select'' then Inr (JNum (Fin (of_nat (e_selected e))))
      else if node = ''input'' \<and> checkable e then
        Inr (JNum (Fin (of_nat (length (filter e_checked (findByName v (e_name e)))))))
      else js_length value)"

section \<open>Dependencies, required and optional\<close>

fun depend :: "vctx \<Rightarrow> jsval \<Rightarrow> elt \<Rightarrow> jsval" where
  "depend v (JBool b) e = JBool b"
| "depend v (JStr sel) e = JBool (0 < c_select v sel)"
| "depend v (JFun f) e = c_call v f e"
| "depend v _ e = JBool True"

fun positive :: "jsval \<Rightarrow> bool" where
  \<comment> \<open>\<open>n > 0\<close> on a length\<close>
  "positive (JNum (Fin r)) = (0 < r)"
| "positive (JNum (Infty b)) = b"
| "positive _ = False"

definition required :: "vctx \<Rightarrow> jsval \<Rightarrow> elt \<Rightarrow> jsval \<Rightarrow> jserr + jsval" where
  "required v value e param =
     (if \<not> truthy (depend v param e) then Inr (JStr ''dependency-mismatch'')
      else if toLowerCase (e_nodeName e) = ''select'' then
        (if truthy (e_val e) then map_sum id (\<lambda>n. JBool (positive n)) (js_length (e_val e))
         else Inr (e_val e))
      else if checkable e then map_sum id (\<lambda>n. JBool (positive n)) (getLength v value e)
      else map_sum id (\<lambda>n. JBool (positive n)) (js_length value))"

definition optional :: "vctx \<Rightarrow> elt \<Rightarrow> jserr + jsval" where
  "optional v e =
     (case elementValue v e of
        Inl x \<Rightarrow> Inl x
      | Inr val \<Rightarrow>
        (case required v val e JUndef of
           Inl x \<Rightarrow> Inl x
         | Inr r \<Rightarrow> Inr (if truthy r then JBool False else JStr ''dependency-mismatch'')))"

definition unless_optional :: "vctx \<Rightarrow> elt \<Rightarrow> (unit \<Rightarrow> jserr + jsval) \<Rightarrow> jserr + jsval" where
  \<comment> \<open>\<open>this.optional(element) || check\<close>, the shape of most methods\<close>
  "unless_optional v e check =
     (case optional v e of
        Inl x \<Rightarrow> Inl x
      | Inr r \<Rightarrow> if truthy r then Inr r else check ())"

section \<open>Properties\<close>

lemma positive_length [simp]: "positive (JNum (Fin (of_nat n))) \<longleftrightarrow> 0 < n"
  by simp

text \<open>A text field is what the format methods are attached to: a value that is a string, and no
  special treatment by type or node.\<close>

definition text_field :: "elt \<Rightarrow> string \<Rightarrow> bool" where
  "text_field e s \<longleftrightarrow>
     e_val e = JStr s \<and> toLowerCase (e_nodeName e) = ''input'' \<and> \<not> checkable e
     \<and> e_type e = ''text'' \<and> \<not> has_attr e ''contenteditable''"

lemma elementValue_text:
  "text_field e s \<Longrightarrow> elementValue v e = Inr (JStr (filter (\<lambda>c. c \<noteq> CHR 0x0D) s))"
  by (simp add: text_field_def elementValue_def)

lemma optional_text:
  assumes "text_field e s"
  shows "optional v e =
    Inr (if filter (\<lambda>c. c \<noteq> CHR 0x0D) s = [] then JStr ''dependency-mismatch'' else JBool False)"
  using elementValue_text [OF assms, of v] assms
  by (simp add: optional_def required_def text_field_def)

lemma unless_optional_text:
  assumes "text_field e s"
  shows "unless_optional v e check =
    (if filter (\<lambda>c. c \<noteq> CHR 0x0D) s = [] then Inr (JStr ''dependency-mismatch'') else check ())"
  by (simp add: unless_optional_def optional_text [OF assms])

lemma radio_group_target:
  "checkable e \<Longrightarrow> validationTargetFor v e = Some t \<Longrightarrow> e_name t = e_name e \<and> t \<in> set (c_form v)"
  by (auto simp: validationTargetFor_def findByName_def Let_def split: list.splits
      dest!: filter_eq_ConsD)

lemma objectLength_le: "objectLength ps \<le> length ps"
  by (induction ps) auto

lemma objectLength_pos: "0 < objectLength ps \<longleftrightarrow>
  (\<exists>p \<in> set ps. snd p \<noteq> JUndef \<and> snd p \<noteq> JNull \<and> snd p \<noteq> JBool False)"
  by (induction ps) auto

fun unescape :: "string \<Rightarrow> string" where
  \<comment> \<open>how a selector engine reads an escaped name: a backslash stands for the character after it\<close>
  "unescape [] = []"
| "unescape [c] = [c]"
| "unescape (c # d # s) = (if c = CHR 0x5C then d # unescape s else c # unescape (d # s))"

lemma css_meta_backslash: "css_meta (CHR 0x5C)"
  by (simp add: css_meta_def)

lemma unescape_Cons: "c \<noteq> CHR 0x5C \<Longrightarrow> unescape (c # s) = c # unescape s"
  by (cases s) auto

lemma unescape_escapeCssMeta: "unescape (escapeCssMeta s) = s"
proof (induction s)
  case Nil
  then show ?case by (simp add: escapeCssMeta_def)
next
  case (Cons c s)
  show ?case
  proof (cases "css_meta c")
    case True
    with Cons show ?thesis by (simp add: escapeCssMeta_def)
  next
    case False
    then have "c \<noteq> CHR 0x5C" using css_meta_backslash by blast
    with Cons False show ?thesis by (simp add: escapeCssMeta_def unescape_Cons)
  qed
qed

section \<open>A sample field\<close>

text \<open>A plain text input and an empty form, used by the witnesses of the format methods.\<close>

definition sample_field :: "string \<Rightarrow> elt" where
  "sample_field s = \<lparr>e_ref = 0, e_name = ''f'', e_id = ''f'', e_nodeName = ''INPUT'', e_type = ''text'',
     e_attrs = [], e_data = [], e_val = JStr s, e_text = [], e_checked = False, e_selected = 0,
     e_badInput = None, e_title = []\<rparr>"

definition sample_ctx :: vctx where
  "sample_ctx = \<lparr>c_form = [], c_ignore = (\<lambda>_. False), c_select = (\<lambda>_. 0), c_call = (\<lambda>_ _. JUndef)\<rparr>"

lemma sample_text: "text_field (sample_field s) s"
  unfolding text_field_def sample_field_def by simp code_simp

lemma optional_sample:
  assumes "s \<noteq> []" "CHR 0x0D \<notin> set s"
  shows "optional v (sample_field s) = Inr (JBool False)"
proof -
  have "filter (\<lambda>c. c \<noteq> CHR 0x0D) s = s" using assms(2) by (auto simp: filter_id_conv)
  with assms(1) show ?thesis by (simp add: optional_text [OF sample_text])
qed

end
