(* ===== verification/Checksums.thy ===== *)
theory Checksums
  imports ValidateBase "HOL-Library.Word"
begin

text \<open>
  The check-digit methods of additional-methods.js: Dutch bank accounts, CIF, NIE and NIF, CPF,
  credit cards (Luhn), IBAN, NIP and VIN.  Each method is the translation of the function passed
  to \<open>addMethod\<close>; the loops are recursions over the characters in the order the code reads
  them.  The locale \<open>digit_checksum\<close> holds the error-detection argument the weighted sums
  share.
\<close>

unbundle bit_operations_syntax

section \<open>Shared parts\<close>

definition keep_digits :: "string \<Rightarrow> string" where
  \<comment> \<open>\<open>value.replace(/\D/g, "")\<close>\<close>
  "keep_digits s = filter is_digit s"

definition drop_spaces :: "string \<Rightarrow> string" where
  \<comment> \<open>\<open>value.replace(/ /g, "")\<close>\<close>
  "drop_spaces s = filter (\<lambda>c. c \<noteq> CHR '' '') s"

definition char_at_num :: "string \<Rightarrow> jsnum \<Rightarrow> string" where
  \<comment> \<open>\<open>s.charAt(n)\<close>: the argument is truncated to an integer and NaN counts as 0\<close>
  "char_at_num s n = (case n of
      NaN \<Rightarrow> charAt s 0
    | Infty _ \<Rightarrow> ''''
    | Fin r \<Rightarrow> if trunc r < 0 then '''' else charAt s (nat (trunc r)))"

section \<open>Dutch bank and giro accounts\<close>

definition bankaccountNL_format :: rx where
  "bankaccountNL_format =
     RAlt (RSeq (RRep 9 RDigit) RAll)
          (RSeq RAll (RSeq (RRep 3 (RSeq (RRep 2 RDigit) (RChr CHR '' ''))) (RRep 3 RDigit)))"

fun bankaccountNL_sum :: "nat \<Rightarrow> string \<Rightarrow> jsnum \<Rightarrow> jsnum" where
  \<comment> \<open>the loop over \<open>pos\<close>; the first argument is \<open>len\<close>, so the factor is the length of the
    rest; a string factor is converted to a number\<close>
  "bankaccountNL_sum len [] acc = acc"
| "bankaccountNL_sum len (c # cs) acc =
     bankaccountNL_sum (len - 1) cs (js_add acc (js_mul (num len) (to_number [c])))"

definition bankaccountNL_check :: "string \<Rightarrow> bool" where
  "bankaccountNL_check value =
     (if \<not> matches bankaccountNL_format value then False
      else let account = drop_spaces value
           in js_eq (js_mod (bankaccountNL_sum (length account) account (num 0)) (num 11)) (num 0))"

definition bankaccountNL :: "vctx \<Rightarrow> string \<Rightarrow> elt \<Rightarrow> jserr + jsval" where
  "bankaccountNL v value e =
     (case optional v e of
        Inl x \<Rightarrow> Inl x
      | Inr r \<Rightarrow> if truthy r then Inr (JBool True) else Inr (JBool (bankaccountNL_check value)))"

definition giroaccountNL :: "vctx \<Rightarrow> string \<Rightarrow> elt \<Rightarrow> jserr + jsval" where
  "giroaccountNL v value e =
     unless_optional v e (\<lambda>_. Inr (JBool (matches (RRepRange 1 7 RDigit) value)))"

definition bankorgiroaccountNL :: "vctx \<Rightarrow> string \<Rightarrow> elt \<Rightarrow> jserr + jsval" where
  "bankorgiroaccountNL v value e =
     unless_optional v e (\<lambda>_.
       (case bankaccountNL v value e of
          Inl x \<Rightarrow> Inl x
        | Inr r \<Rightarrow> if truthy r then Inr r else giroaccountNL v value e))"

section \<open>Spanish CIF, NIE and NIF\<close>

definition cif_format :: rx where
  "cif_format = case_insensitive
     (RSeq (RSet ''ABCDEFGHJKLMNPQRSUVW'')
        (RSeq (RRep 7 RDigit) (RCls (\<lambda>c. is_digit c \<or> in_range CHR ''A'' CHR ''J'' c))))"

fun cif_sums :: "nat \<Rightarrow> string \<Rightarrow> nat \<Rightarrow> nat \<Rightarrow> nat \<times> nat" where
  \<comment> \<open>index, remaining digits, \<open>even_sum\<close>, \<open>odd_sum\<close>; \<open>isOdd(i)\<close> is \<open>i % 2 === 0\<close>\<close>
  "cif_sums i [] even_sum odd_sum = (even_sum, odd_sum)"
| "cif_sums i (c # cs) even_sum odd_sum =
     (let n = digit_val c in
      if i mod 2 = 0
      then cif_sums (Suc i) cs even_sum (odd_sum + (if n * 2 < 10 then n * 2 else n * 2 - 9))
      else cif_sums (Suc i) cs (even_sum + n) odd_sum)"

definition cif_control_digit :: "nat \<Rightarrow> string" where
  \<comment> \<open>ten minus the last digit of the sum, 10 becoming 0\<close>
  "cif_control_digit all_sum =
     (let d = 10 - digit_val (last (nat_str all_sum)) in if d > 9 then ''0'' else nat_str d)"

definition cif_control_letter :: "string \<Rightarrow> string" where
  "cif_control_letter d = take 1 (drop (dec_val d) ''JABCDEFGHI'')"

definition cifES_check :: "string \<Rightarrow> bool" where
  "cifES_check value =
     (let letter = substring value 0 1; number = substring value 1 8; control = substring value 8 9 in
      if length value \<noteq> 9 \<or> \<not> matches cif_format value then False
      else let (even_sum, odd_sum) = cif_sums 0 number 0 0;
               control_digit = cif_control_digit (even_sum + odd_sum);
               control_letter = cif_control_letter control_digit
           in if test_any (RSet ''ABEH'') letter then control = control_digit
              else if test_any (RSet ''KPQS'') letter then control = control_letter
              else control = control_digit \<or> control = control_letter)"

definition cifES :: "vctx \<Rightarrow> string \<Rightarrow> elt \<Rightarrow> jserr + jsval" where
  "cifES v value e =
     (case optional v e of
        Inl x \<Rightarrow> Inl x
      | Inr r \<Rightarrow> if truthy r then Inr (JBool True) else Inr (JBool (cifES_check value)))"

definition nie_chars :: string where
  "nie_chars = ''TRWAGMYFPDXBNJZSQVHLCKET''"

definition nie_format :: rx where
  "nie_format = case_insensitive
     (RSeq (RSet ''MXYZ'') (RSeq (RRepRange 7 8 RDigit) (RSet nie_chars)))"

definition replace_first_char :: "char \<Rightarrow> char \<Rightarrow> string \<Rightarrow> string" where
  \<comment> \<open>\<open>replace(/^[a]/, b)\<close>\<close>
  "replace_first_char a b s = (case s of [] \<Rightarrow> [] | c # r \<Rightarrow> if c = a then b # r else s)"

definition nieES_check :: "string \<Rightarrow> bool" where
  "nieES_check value0 =
     (let letter = toUpperCase (drop (length value0 - 1) value0);
          value = toUpperCase value0 in
      if length value > 10 \<or> length value < 9 \<or> \<not> matches nie_format value then False
      else let w = replace_first_char CHR ''Z'' CHR ''2''
                     (replace_first_char CHR ''Y'' CHR ''1''
                       (replace_first_char CHR ''X'' CHR ''0'' value));
               number = (if length w = 9 then take 8 w else take 9 w)
           in char_at_num nie_chars (js_mod (parseInt10 number) (num 23)) = letter)"

definition nieES :: "vctx \<Rightarrow> string \<Rightarrow> elt \<Rightarrow> jserr + jsval" where
  "nieES v value e =
     (case optional v e of
        Inl x \<Rightarrow> Inl x
      | Inr r \<Rightarrow> if truthy r then Inr (JBool True) else Inr (JBool (nieES_check value)))"

definition is_upper_digit :: "char \<Rightarrow> bool" where
  "is_upper_digit c \<longleftrightarrow> is_upper c \<or> is_digit c"

definition nif_personal :: rx where
  "nif_personal = RSeq (RRep 8 RDigit) (RCls is_upper)"

definition nif_format :: rx where
  "nif_format =
     RAlt (RAlt (RSeq (RCls is_upper) (RSeq (RRep 7 RDigit) (RCls is_upper_digit)))
                (RSeq (RChr CHR ''T'') (RRep 8 (RCls is_upper_digit))))
          nif_personal"

definition nif_letters :: string where
  "nif_letters = ''TRWAGMYFPDXBNJZSQVHLCKE''"

definition nifES_check :: "string \<Rightarrow> bool" where
  "nifES_check value0 =
     (let value = toUpperCase value0 in
      if \<not> matches nif_format value then False
      else if matches nif_personal value then
        char_at_num nif_letters (js_mod (to_number (substring value 8 0)) (num 23)) = charAt value 8
      else if test_prefix (RSet ''KLM'') value then
        charAt value 8 = char_at_num nif_letters (js_mod (to_number (substring value 8 1)) (num 23))
      else False)"

definition nifES :: "vctx \<Rightarrow> string \<Rightarrow> elt \<Rightarrow> jserr + jsval" where
  "nifES v value e =
     (case optional v e of
        Inl x \<Rightarrow> Inl x
      | Inr r \<Rightarrow> if truthy r then Inr (JBool True) else Inr (JBool (nifES_check value)))"

section \<open>Brazilian CPF\<close>

definition cpf_special :: "char \<Rightarrow> bool" where
  "cpf_special c \<longleftrightarrow> List.member (CHR 0x5C # CHR 0x27 # ''~!@#$%^&*()_+=`{}[]-|:;<>,./? '') c"

definition cpf_checkResult :: "jsnum \<Rightarrow> jsnum \<Rightarrow> bool" where
  "cpf_checkResult acc cn =
     (let result = js_mod (js_mul acc (num 10)) (num 11);
          result' = (if js_eq result (num 10) \<or> js_eq result (num 11) then num 0 else result)
      in js_eq result' cn)"

fun cpf_sum :: "nat \<Rightarrow> string \<Rightarrow> jsnum \<Rightarrow> jsnum" where
  \<comment> \<open>the loop \<open>sum + parseInt(value.substring(i - 1, i), 10) * (top - i)\<close>; the first argument is
    \<open>top - i\<close>\<close>
  "cpf_sum w [] acc = acc"
| "cpf_sum w (c # cs) acc = cpf_sum (w - 1) cs (js_add acc (js_mul (parseInt10 [c]) (num w)))"

definition cpf_dump :: "string \<Rightarrow> bool" where
  "cpf_dump value \<longleftrightarrow> value = [] \<or> (\<exists>c \<in> set ''0123456789''. value = replicate 11 c)"

definition cpfBR_check :: "string \<Rightarrow> bool" where
  "cpfBR_check value0 =
     (let value = filter (\<lambda>c. \<not> cpf_special c) value0 in
      if length value \<noteq> 11 then False
      else let firstCN = parseInt10 (substring value 9 10);
               secondCN = parseInt10 (substring value 10 11)
           in if cpf_dump value then False
              else if cpf_checkResult (cpf_sum 10 (take 9 value) (num 0)) firstCN
                   then cpf_checkResult (cpf_sum 11 (take 10 value) (num 0)) secondCN
                   else False)"

definition cpfBR :: "vctx \<Rightarrow> string \<Rightarrow> elt \<Rightarrow> jserr + jsval" where
  "cpfBR v value e = Inr (JBool (cpfBR_check value))"

section \<open>Credit cards\<close>

fun luhn_loop :: "string \<Rightarrow> nat \<Rightarrow> bool \<Rightarrow> nat" where
  \<comment> \<open>the digits from the last to the first, \<open>nCheck\<close>, \<open>bEven\<close>\<close>
  "luhn_loop [] nCheck bEven = nCheck"
| "luhn_loop (cDigit # rest) nCheck bEven =
     (let nDigit = digit_val cDigit;
          n = (if bEven then (if nDigit * 2 > 9 then nDigit * 2 - 9 else nDigit * 2) else nDigit)
      in luhn_loop rest (nCheck + n) (\<not> bEven))"

definition creditcard_check :: "string \<Rightarrow> bool" where
  "creditcard_check value0 =
     (if test_any (RPlus (RCls (\<lambda>c. \<not> is_digit c \<and> c \<noteq> CHR '' '' \<and> c \<noteq> CHR ''-''))) value0
      then False
      else let value = keep_digits value0 in
           if length value < 13 \<or> length value > 19 then False
           else luhn_loop (rev value) 0 False mod 10 = 0)"

definition creditcard :: "vctx \<Rightarrow> string \<Rightarrow> elt \<Rightarrow> jserr + jsval" where
  "creditcard v value e =
     (case optional v e of
        Inl x \<Rightarrow> Inl x
      | Inr r \<Rightarrow> if truthy r then Inr (JStr ''dependency-mismatch'')
                 else Inr (JBool (creditcard_check value)))"

record card_types =
  mastercard :: bool
  visa :: bool
  amex :: bool
  dinersclub :: bool
  enroute :: bool
  discover :: bool
  jcb :: bool
  unknown_type :: bool
  all_types :: bool

definition valid_types :: "card_types \<Rightarrow> 32 word" where
  "valid_types p =
     (let t0 = (0x0000 :: 32 word);
          t1 = (if mastercard p then t0 OR 0x0001 else t0);
          t2 = (if visa p then t1 OR 0x0002 else t1);
          t3 = (if amex p then t2 OR 0x0004 else t2);
          t4 = (if dinersclub p then t3 OR 0x0008 else t3);
          t5 = (if enroute p then t4 OR 0x0010 else t4);
          t6 = (if discover p then t5 OR 0x0020 else t5);
          t7 = (if jcb p then t6 OR 0x0040 else t6);
          t8 = (if unknown_type p then t7 OR 0x0080 else t7)
      in if all_types p
         then 0x0001 OR 0x0002 OR 0x0004 OR 0x0008 OR 0x0010 OR 0x0020 OR 0x0040 OR 0x0080
         else t8)"

definition creditcardtypes_check :: "string \<Rightarrow> card_types \<Rightarrow> bool" where
  "creditcardtypes_check value0 param =
     (if test_any (RPlus (RCls (\<lambda>c. \<not> is_digit c \<and> c \<noteq> CHR ''-''))) value0 then False
      else let value = keep_digits value0; types = valid_types param;
               starts = (\<lambda>r. test_prefix r value) in
           if types AND 0x0001 \<noteq> 0 \<and> starts (RSeq (RChr CHR ''5'') (RSet ''12345''))
             then length value = 16
           else if types AND 0x0002 \<noteq> 0 \<and> starts (RChr CHR ''4'') then length value = 16
           else if types AND 0x0004 \<noteq> 0 \<and> starts (RSeq (RChr CHR ''3'') (RSet ''47''))
             then length value = 15
           else if types AND 0x0008 \<noteq> 0
             \<and> starts (RSeq (RChr CHR ''3'') (RAlt (RSeq (RChr CHR ''0'') (RSet ''012345'')) (RSet ''68'')))
             then length value = 14
           else if types AND 0x0010 \<noteq> 0
             \<and> starts (RSeq (RChr CHR ''2'') (RAlt (RLit ''014'') (RLit ''149'')))
             then length value = 15
           else if types AND 0x0020 \<noteq> 0 \<and> starts (RLit ''6011'') then length value = 16
           else if types AND 0x0040 \<noteq> 0 \<and> starts (RChr CHR ''3'') then length value = 16
           else if types AND 0x0040 \<noteq> 0 \<and> starts (RAlt (RLit ''2131'') (RLit ''1800''))
             then length value = 15
           else types AND 0x0080 \<noteq> 0)"

definition creditcardtypes :: "vctx \<Rightarrow> string \<Rightarrow> elt \<Rightarrow> card_types \<Rightarrow> jserr + jsval" where
  "creditcardtypes v value e param = Inr (JBool (creditcardtypes_check value param))"

section \<open>Polish NIP\<close>

fun nip_sum :: "nat list \<Rightarrow> string \<Rightarrow> nat \<Rightarrow> nat" where
  \<comment> \<open>\<open>intSum += arrSteps[i] * value[i]\<close> over the nine steps\<close>
  "nip_sum (w # ws) (c # cs) intSum = nip_sum ws cs (intSum + w * digit_val c)"
| "nip_sum _ _ intSum = intSum"

definition nip_steps :: "nat list" where
  "nip_steps = [6, 5, 7, 2, 3, 4, 5, 6, 7]"

definition nipPL_check :: "string \<Rightarrow> bool" where
  "nipPL_check value0 =
     (let value = keep_digits value0 in
      if length value \<noteq> 10 then False
      else let int2 = nip_sum nip_steps value 0 mod 11;
               intControlNr = (if int2 = 10 then 0 else int2)
           in intControlNr = digit_val (value ! 9))"

definition nipPL :: "vctx \<Rightarrow> string \<Rightarrow> elt \<Rightarrow> jserr + jsval" where
  "nipPL v value e = Inr (JBool (nipPL_check value))"

section \<open>Weighted sums that detect a wrong digit\<close>

fun weighted_total :: "(nat \<Rightarrow> nat \<Rightarrow> nat) \<Rightarrow> nat \<Rightarrow> nat list \<Rightarrow> nat" where
  \<comment> \<open>the sum of the contributions of the digits at the positions from \<open>i\<close> on\<close>
  "weighted_total f i [] = 0"
| "weighted_total f i (d # ds) = f i d + weighted_total f (Suc i) ds"

lemma weighted_total_append:
  "weighted_total f i (xs @ ys) = weighted_total f i xs + weighted_total f (i + length xs) ys"
  by (induction xs arbitrary: i) auto

locale digit_checksum =
  fixes contrib :: "nat \<Rightarrow> nat \<Rightarrow> nat"
    and modulus :: nat
    and position :: "nat \<Rightarrow> bool"
  assumes distinguishes:
    "position i \<Longrightarrow> d < 10 \<Longrightarrow> d' < 10 \<Longrightarrow>
       contrib i d mod modulus = contrib i d' mod modulus \<Longrightarrow> d = d'"
begin

text \<open>Replacing one digit changes the sum modulo the modulus.\<close>

lemma substitution_changes_total:
  assumes "position (length xs)" "d < 10" "d' < 10" "d \<noteq> d'"
  shows "weighted_total contrib 0 (xs @ d # ys) mod modulus
       \<noteq> weighted_total contrib 0 (xs @ d' # ys) mod modulus"
proof
  assume eq: "weighted_total contrib 0 (xs @ d # ys) mod modulus
            = weighted_total contrib 0 (xs @ d' # ys) mod modulus"
  let ?r = "weighted_total contrib 0 xs + weighted_total contrib (Suc (length xs)) ys"
  have "(contrib (length xs) d + ?r) mod modulus = (contrib (length xs) d' + ?r) mod modulus"
    using eq by (simp add: weighted_total_append algebra_simps)
  then have "contrib (length xs) d mod modulus = contrib (length xs) d' mod modulus"
    by (rule mod_add_cancel_nat)
  then show False using distinguishes assms by blast
qed

text \<open>The same for sums that count positions from the right end of the digits.\<close>

lemma substitution_changes_total_rev:
  assumes "position (length ys)" "d < 10" "d' < 10" "d \<noteq> d'"
  shows "weighted_total contrib 0 (rev (xs @ d # ys)) mod modulus
       \<noteq> weighted_total contrib 0 (rev (xs @ d' # ys)) mod modulus"
  using substitution_changes_total [of "rev ys" d d' "rev xs"] assms by simp

end

definition luhn_contrib :: "nat \<Rightarrow> nat \<Rightarrow> nat" where
  "luhn_contrib i d = (if even i then d else if d * 2 > 9 then d * 2 - 9 else d * 2)"

definition nl_contrib :: "nat \<Rightarrow> nat \<Rightarrow> nat" where
  "nl_contrib i d = Suc i * d"

definition nip_contrib :: "nat \<Rightarrow> nat \<Rightarrow> nat" where
  "nip_contrib i d = nip_steps ! i * d"

definition dec_contrib :: "nat \<Rightarrow> nat \<Rightarrow> nat" where
  "dec_contrib i d = d * 10 ^ i"

lemma less_10_cases: "(d :: nat) < 10 \<Longrightarrow> d \<in> {0, 1, 2, 3, 4, 5, 6, 7, 8, 9}"
  by auto

lemma less_10_mod: "d < 10 \<Longrightarrow> d' < 10 \<Longrightarrow> 10 \<le> m \<Longrightarrow> d mod m = d' mod m \<Longrightarrow> d = (d' :: nat)"
  by simp

lemma coprime_11: "0 < w \<Longrightarrow> w < 11 \<Longrightarrow> coprime w (11 :: nat)"
proof -
  have "\<forall>w \<in> set [1..<11]. coprime w (11 :: nat)" by code_simp
  then show "0 < w \<Longrightarrow> w < 11 \<Longrightarrow> coprime w (11 :: nat)" by simp
qed

lemma coprime_10: "coprime 10 (23 :: nat)" "coprime 10 (97 :: nat)"
  by code_simp+

interpretation luhn: digit_checksum luhn_contrib 10 "\<lambda>_. True"
proof
  fix i d d' :: nat
  assume "d < 10" "d' < 10" "luhn_contrib i d mod 10 = luhn_contrib i d' mod 10"
  then show "d = d'"
    by (cases "even i") (auto simp: luhn_contrib_def split: if_splits, presburger+)
qed

interpretation nl11: digit_checksum nl_contrib 11 "\<lambda>i. i < 10"
proof
  fix i d d' :: nat
  assume i: "i < 10" and d: "d < 10" "d' < 10" and eq: "nl_contrib i d mod 11 = nl_contrib i d' mod 11"
  have "coprime (Suc i) 11" using i by (simp add: coprime_11)
  then have "d mod 11 = d' mod 11"
    using eq mod_mult_cancel_nat [of d "Suc i" 11 d'] by (simp add: nl_contrib_def mult.commute)
  then show "d = d'" using d by simp
qed

interpretation nip11: digit_checksum nip_contrib 11 "\<lambda>i. i < 9"
proof
  fix i d d' :: nat
  assume i: "i < 9" and d: "d < 10" "d' < 10" and eq: "nip_contrib i d mod 11 = nip_contrib i d' mod 11"
  have "nip_steps ! i \<in> {2, 3, 4, 5, 6, 7}"
    using i by (auto simp: nip_steps_def less_Suc_eq numeral_eq_Suc)
  then have "coprime (nip_steps ! i) 11" by (auto intro!: coprime_11)
  then have "d mod 11 = d' mod 11"
    using eq mod_mult_cancel_nat [of d "nip_steps ! i" 11 d'] by (simp add: nip_contrib_def mult.commute)
  then show "d = d'" using d by simp
qed

lemma dec_contrib_cancel:
  assumes "coprime 10 m" "10 \<le> m" "d < 10" "d' < 10" "dec_contrib i d mod m = dec_contrib i d' mod m"
  shows "d = d'"
proof -
  have "d mod m = d' mod m"
    using mod_mult_cancel_nat [of d "10 ^ i" m d'] assms by (simp add: dec_contrib_def)
  then show ?thesis using assms less_10_mod by blast
qed

interpretation dec23: digit_checksum dec_contrib 23 "\<lambda>_. True"
  by unfold_locales (rule dec_contrib_cancel, auto simp: coprime_10)

interpretation dec97: digit_checksum dec_contrib 97 "\<lambda>_. True"
  by unfold_locales (rule dec_contrib_cancel, auto simp: coprime_10)

lemma weighted_total_dec_Suc: "weighted_total dec_contrib (Suc i) ds = 10 * weighted_total dec_contrib i ds"
  by (induction ds arbitrary: i) (auto simp: dec_contrib_def algebra_simps)

lemma dec_contrib_0 [simp]: "dec_contrib 0 d = d"
  by (simp add: dec_contrib_def)

lemma dec_val_total: "dec_val s = weighted_total dec_contrib 0 (rev (map digit_val s))"
  by (induction s rule: rev_induct) (simp_all add: weighted_total_dec_Suc)

section \<open>Credit cards: the Luhn sum\<close>

lemma luhn_loop_total:
  "luhn_loop cs n (odd i) = n + weighted_total luhn_contrib i (map digit_val cs)"
proof (induction cs arbitrary: n i)
  case (Cons c cs)
  have "luhn_loop (c # cs) n (odd i) = luhn_loop cs (n + luhn_contrib i (digit_val c)) (odd (Suc i))"
    by (simp add: luhn_contrib_def Let_def)
  then show ?case using Cons [of "n + luhn_contrib i (digit_val c)" "Suc i"] by simp
qed simp

lemma luhn_loop_rev: "luhn_loop (rev s) 0 False = weighted_total luhn_contrib 0 (rev (map digit_val s))"
  using luhn_loop_total [of "rev s" 0 0] by (simp add: rev_map)

lemma keep_digits_mid: "is_digit c \<Longrightarrow> keep_digits (a @ c # b) = keep_digits a @ c # keep_digits b"
  by (simp add: keep_digits_def)

lemma creditcard_check_luhn:
  "creditcard_check s \<longleftrightarrow>
     list_all (\<lambda>c. is_digit c \<or> c = CHR '' '' \<or> c = CHR ''-'') s
     \<and> 13 \<le> length (keep_digits s) \<and> length (keep_digits s) \<le> 19
     \<and> weighted_total luhn_contrib 0 (rev (map digit_val (keep_digits s))) mod 10 = 0"
  unfolding creditcard_check_def Let_def luhn_loop_rev test_any_RPlus by (auto simp: list_all_iff)

lemma creditcard_result:
  "creditcard v s e = Inr (JBool b) \<longleftrightarrow>
     (\<exists>r. optional v e = Inr r \<and> \<not> truthy r \<and> b = creditcard_check s)"
  by (auto simp: creditcard_def split: sum.splits)

text \<open>C12: A card number the creditcard method accepts is rejected once a single digit of it is
  mistyped: the Luhn sum distinguishes any two digits at any position.\<close>

theorem creditcard_detects_wrong_digit:
  assumes ok: "creditcard v (a @ c # b) e = Inr (JBool True)"
    and digits: "is_digit c" "is_digit c'" and diff: "c \<noteq> c'"
  shows "creditcard v (a @ c' # b) e = Inr (JBool False)"
proof -
  let ?k = "\<lambda>x. map digit_val (keep_digits a) @ digit_val x # map digit_val (keep_digits b)"
  have k: "map digit_val (keep_digits (a @ x # b)) = ?k x" if "is_digit x" for x
    using that by (simp add: keep_digits_mid)
  from ok obtain r where r: "optional v e = Inr r" "\<not> truthy r" and "creditcard_check (a @ c # b)"
    by (auto simp: creditcard_result)
  then have "weighted_total luhn_contrib 0 (rev (?k c)) mod 10 = 0"
    unfolding creditcard_check_luhn k [OF digits(1)] by blast
  moreover have "digit_val c \<noteq> digit_val c'" using digit_val_inj [OF digits] diff by blast
  ultimately have "weighted_total luhn_contrib 0 (rev (?k c')) mod 10 \<noteq> 0"
    using luhn.substitution_changes_total_rev digits [THEN digit_val_less] by metis
  then have "\<not> creditcard_check (a @ c' # b)"
    unfolding creditcard_check_luhn k [OF digits(2)] by blast
  with r show ?thesis by (simp add: creditcard_result)
qed

theorem creditcard_detects_wrong_digit_witness:
  "creditcard sample_ctx ''4111111111111111'' (sample_field ''4'') = Inr (JBool True)
   \<and> creditcard sample_ctx ''4111111111171111'' (sample_field ''4'') = Inr (JBool False)"
proof -
  have 1: "creditcard sample_ctx (''41111111111'' @ CHR ''1'' # ''1111'') (sample_field ''4'') = Inr (JBool True)"
    by code_simp
  have 2: "is_digit CHR ''1''" "is_digit CHR ''7''" "CHR ''1'' \<noteq> CHR ''7''" by code_simp+
  from 1 creditcard_detects_wrong_digit [OF 1 2] show ?thesis by simp
qed

section \<open>Dutch bank accounts: the eleven test\<close>

lemma bankaccountNL_sum_digits:
  "list_all is_digit s \<Longrightarrow>
   bankaccountNL_sum (length s) s (num a) = num (a + weighted_total nl_contrib 0 (rev (map digit_val s)))"
  by (induction s arbitrary: a) (simp_all add: js_num weighted_total_append nl_contrib_def)

lemma drop_spaces_digits: "list_all is_digit s \<Longrightarrow> drop_spaces s = s"
  by (auto simp: drop_spaces_def filter_id_conv list_all_iff char_class_defs)

lemma nine_digits_format:
  assumes "list_all is_digit s" "9 \<le> length s"
  shows "matches bankaccountNL_format s"
proof -
  have "take 9 s \<in> lang (RRep 9 RDigit)"
    using assms by (simp only: in_RRep_RCls) (auto simp: list_all_iff dest: in_set_takeD)
  then have "take 9 s @ drop 9 s \<in> lang (RSeq (RRep 9 RDigit) RAll)"
    using in_RAll unfolding in_RSeq by blast
  then show ?thesis unfolding matches_iff_lang bankaccountNL_format_def by simp
qed

lemma bankaccountNL_check_digits:
  assumes "list_all is_digit s" "9 \<le> length s"
  shows "bankaccountNL_check s \<longleftrightarrow> weighted_total nl_contrib 0 (rev (map digit_val s)) mod 11 = 0"
  using nine_digits_format [OF assms] assms(1)
  by (simp add: bankaccountNL_check_def drop_spaces_digits bankaccountNL_sum_digits js_num)

lemma swap_mod_11:
  assumes eq: "(x + i * c + j * d) mod 11 = (x + i * d + j * c) mod (11 :: nat)"
    and "i < j" "j \<le> 10" "c < 10" "d < 10"
  shows "c = d"
proof -
  have "int (x + i * c + j * d) mod 11 = int (x + i * d + j * c) mod 11"
    using eq by (metis of_nat_mod of_nat_numeral)
  then have "11 dvd (int j - int i) * (int d - int c)"
    by (simp add: mod_eq_dvd_iff algebra_simps)
  moreover have "coprime (int 11) (int (j - i))"
    unfolding coprime_int_iff using coprime_11 [of "j - i"] assms(2,3) by (simp add: coprime_commute)
  then have "coprime (11 :: int) (int j - int i)" using assms(2) by simp
  ultimately have "11 dvd int d - int c"
    by (simp add: coprime_dvd_mult_right_iff)
  then show ?thesis using assms(4,5) by presburger
qed

text \<open>On account numbers of nine digits the Dutch eleven test rejects every number that
  differs from a valid one by exchanging two different digits.\<close>

theorem bankaccountNL_detects_transposition:
  assumes valid: "bankaccountNL_check (a @ c # m @ d # b)"
    and digits: "list_all is_digit (a @ c # m @ d # b)"
    and nine: "length (a @ c # m @ d # b) = 9"
    and diff: "c \<noteq> d"
  shows "\<not> bankaccountNL_check (a @ d # m @ c # b)"
proof
  let ?i = "Suc (length b)" and ?j = "Suc (Suc (length b + length m))"
  let ?x = "weighted_total nl_contrib 0 (rev (map digit_val b))
          + weighted_total nl_contrib ?i (rev (map digit_val m))
          + weighted_total nl_contrib ?j (rev (map digit_val a))"
  have total: "weighted_total nl_contrib 0 (rev (map digit_val (a @ p # m @ q # b)))
      = ?x + ?i * digit_val q + ?j * digit_val p" for p q
    by (simp add: weighted_total_append nl_contrib_def)
  assume swapped: "bankaccountNL_check (a @ d # m @ c # b)"
  have digits': "list_all is_digit (a @ d # m @ c # b)" using digits by simp
  have "(?x + ?i * digit_val d + ?j * digit_val c) mod 11 = 0"
    using valid bankaccountNL_check_digits [OF digits] nine unfolding total by simp
  moreover have "(?x + ?i * digit_val c + ?j * digit_val d) mod 11 = 0"
    using swapped bankaccountNL_check_digits [OF digits'] nine unfolding total by simp
  ultimately have "(?x + ?i * digit_val d + ?j * digit_val c) mod 11
      = (?x + ?i * digit_val c + ?j * digit_val d) mod 11" by simp
  moreover have c: "is_digit c" and d: "is_digit d" using digits by simp_all
  moreover have "?i < ?j" "?j \<le> 10" using nine by simp_all
  ultimately have "digit_val d = digit_val c"
    using swap_mod_11 [of ?x ?i "digit_val d" ?j "digit_val c"] digit_val_less by blast
  then show False using digit_val_inj [OF d c] diff by blast
qed

theorem bankaccountNL_detects_transposition_witness:
  "bankaccountNL_check ''123456789'' \<and> \<not> bankaccountNL_check ''193456782''"
proof -
  have 1: "bankaccountNL_check (''1'' @ CHR ''2'' # ''345678'' @ CHR ''9'' # [])" by code_simp
  have 2: "list_all is_digit (''1'' @ CHR ''2'' # ''345678'' @ CHR ''9'' # [])" by code_simp
  from 1 bankaccountNL_detects_transposition [OF 1 2] show ?thesis by simp
qed

text \<open>The format test of the Dutch account is only anchored on one side of each alternative:
  a number of ten digits that passes the weighted sum is accepted although account numbers have
  nine digits.\<close>

theorem bankaccountNL_accepts_ten_digits:
  "\<exists>s. list_all is_digit s \<and> length s = 10 \<and> bankaccountNL_check s"
proof (intro exI conjI)
  show "list_all is_digit ''1000000001''" by code_simp
  show "length ''1000000001'' = 10" by simp
  show "bankaccountNL_check ''1000000001''" by code_simp
qed

section \<open>NIE and NIF: the letter modulo 23\<close>

lemma up_char_id: "is_upper c \<or> is_digit c \<Longrightarrow> up_char c = c"
  by (auto simp: up_char_def char_class_defs)

lemma toUpperCase_id: "list_all (\<lambda>c. is_upper c \<or> is_digit c) s \<Longrightarrow> toUpperCase s = s"
  by (induction s) (auto simp: toUpperCase_def up_char_id, auto simp: char_class_defs)

lemma case_insensitive_RRep [simp]: "case_insensitive (RRep n r) = RRep n (case_insensitive r)"
  and case_insensitive_RUpto [simp]: "case_insensitive (RUpto n r) = RUpto n (case_insensitive r)"
  by (induction n) simp_all

lemma case_insensitive_RRepRange [simp]:
  "case_insensitive (RRepRange n m r) = RRepRange n m (case_insensitive r)"
  by (simp add: RRepRange_def)

lemma parseInt10_upper: "is_upper c \<Longrightarrow> parseInt10 (c # s) = NaN"
  by (auto simp: parseInt10_def Let_def char_class_defs)

text \<open>An NIE that starts with M is accepted whatever its digits are, as soon as its last letter
  is T: the leading M is not replaced by a digit, so the number is NaN and the letter looked up is
  always the first one.\<close>

theorem nieES_ignores_digits_after_M:
  assumes "list_all is_digit ds" "length ds = 7 \<or> length ds = 8"
  shows "nieES_check (CHR ''M'' # ds @ ''T'')"
proof -
  let ?v = "CHR ''M'' # ds @ ''T''"
  have up: "toUpperCase ?v = ?v" "toUpperCase ''T'' = ''T''"
    using assms(1) by (auto intro!: toUpperCase_id simp: list_all_iff char_class_defs)
  have "ds \<in> lang (RRepRange 7 8 (RCls (\<lambda>c. is_digit c \<or> is_digit (up_char c) \<or> is_digit (low_char c))))"
    using assms by (subst in_RRepRange_RCls) (auto simp: list_all_iff)
  moreover have "''T'' \<in> lang (case_insensitive (RSet nie_chars))"
    by (simp add: RSet_def nie_chars_def)
  ultimately have "ds @ ''T'' \<in> lang (RSeq (case_insensitive (RRepRange 7 8 RDigit))
      (case_insensitive (RSet nie_chars)))"
    unfolding in_RSeq by auto
  then have "matches nie_format ?v"
    unfolding nie_format_def matches_iff_lang case_insensitive.simps RSet_def in_RSeq_RCls
    by (simp add: RSet_def)
  moreover have "is_upper CHR ''M''" by code_simp
  then have "parseInt10 (CHR ''M'' # x) = NaN" for x by (rule parseInt10_upper)
  ultimately show ?thesis
    using assms(2) unfolding nieES_check_def Let_def up
    by (auto simp: up replace_first_char_def char_at_num_def charAt_def nie_chars_def)
qed

theorem nieES_ignores_digits_after_M_witness:
  "nieES_check ''M0000000T'' \<and> nieES_check ''M7777777T''"
proof -
  have "list_all is_digit ''0000000''" "list_all is_digit ''7777777''" by code_simp+
  then show ?thesis
    using nieES_ignores_digits_after_M [of "''0000000''"] nieES_ignores_digits_after_M [of "''7777777''"]
    by simp
qed

lemma matches_nif_personal:
  assumes "list_all is_digit ds" "length ds = 8" "is_upper l"
  shows "matches nif_personal (ds @ [l])"
proof -
  have "ds \<in> lang (RRep 8 RDigit)" using assms by (simp only: in_RRep_RCls)
  moreover have "[l] \<in> lang (RCls is_upper)" using assms by simp
  ultimately show ?thesis unfolding nif_personal_def matches_iff_lang in_RSeq by blast
qed

lemma nifES_check_personal:
  assumes "list_all is_digit ds" "length ds = 8" "is_upper l"
  shows "nifES_check (ds @ [l]) \<longleftrightarrow> l = nif_letters ! (dec_val ds mod 23)"
proof -
  let ?v = "ds @ [l]"
  have up: "toUpperCase ?v = ?v"
    using assms by (auto intro!: toUpperCase_id simp: list_all_iff)
  have m: "matches nif_personal ?v" "matches nif_format ?v"
    using matches_nif_personal [OF assms] unfolding nif_format_def matches_iff_lang by simp_all
  have "substring ?v 8 0 = ds" using assms(2) by (simp add: substring_def)
  moreover have "to_number ds = num (dec_val ds)" using assms by (intro to_number_digits) auto
  moreover have "char_at_num nif_letters (num k) = [nif_letters ! k]" if "k < 23" for k
  proof -
    have "length nif_letters = 23" by (simp add: nif_letters_def)
    with that show ?thesis by (simp add: char_at_num_def num_def trunc_def charAt_def)
  qed
  moreover have "charAt ?v 8 = [l]" using assms(2) by (simp add: charAt_def nth_append)
  ultimately show ?thesis
    using m unfolding nifES_check_def Let_def up by (auto simp: js_num)
qed

text \<open>A personal NIF (eight digits and a letter) is rejected after any single digit of it is
  changed, because the letter determines the number modulo 23.\<close>

theorem nifES_detects_wrong_digit:
  assumes valid: "nifES_check (a @ c # b @ [l])"
    and digits: "list_all is_digit (a @ c # b)" "is_digit c'" and len: "length (a @ c # b) = 8"
    and letter: "is_upper l" and diff: "c \<noteq> c'"
  shows "\<not> nifES_check (a @ c' # b @ [l])"
proof
  assume other: "nifES_check (a @ c' # b @ [l])"
  have d': "list_all is_digit (a @ c' # b)" and l': "length (a @ c' # b) = 8"
    using digits len by simp_all
  have "nif_letters ! (dec_val (a @ c # b) mod 23) = nif_letters ! (dec_val (a @ c' # b) mod 23)"
    using nifES_check_personal [OF digits(1) len letter] nifES_check_personal [OF d' l' letter] valid other
    by simp
  moreover have "distinct nif_letters" "length nif_letters = 23" by (simp_all add: nif_letters_def)
  ultimately have "dec_val (a @ c # b) mod 23 = dec_val (a @ c' # b) mod 23"
    by (simp add: nth_eq_iff_index_eq)
  then have "digit_val c = digit_val c'"
    using dec23.substitution_changes_total_rev [where ys = "map digit_val b"
        and d = "digit_val c" and d' = "digit_val c'" and xs = "map digit_val a"]
      digits digit_val_less by (auto simp: dec_val_total)
  then show False using digit_val_inj digits diff by auto
qed

theorem nifES_detects_wrong_digit_witness:
  "nifES_check ''12345678Z'' \<and> \<not> nifES_check ''12395678Z''"
proof -
  have 1: "nifES_check (''123'' @ CHR ''4'' # ''5678'' @ [CHR ''Z''])" by code_simp
  have 2: "list_all is_digit (''123'' @ CHR ''4'' # ''5678'')" "is_digit CHR ''9''" "is_upper CHR ''Z''"
    by code_simp+
  from 1 nifES_detects_wrong_digit [OF 1 2(1,2) _ 2(3)] show ?thesis by simp
qed

section \<open>NIP and CPF\<close>

lemma nip_sum_total:
  assumes "length s = 10"
  shows "nip_sum nip_steps s 0 = weighted_total nip_contrib 0 (map digit_val (take 9 s))"
proof -
  have "nip_sum (drop i nip_steps) t acc
      = acc + weighted_total nip_contrib i (map digit_val (take (9 - i) t))"
    if "i \<le> 9" "length t = 10 - i" for i t acc
    using that
  proof (induction "9 - i" arbitrary: i t acc)
    case 0
    then have "i = 9" by simp
    then show ?case by (simp add: nip_steps_def)
  next
    case (Suc n)
    then obtain c u where t: "t = c # u" by (cases t) auto
    have "i < length nip_steps" using Suc by (simp add: nip_steps_def)
    then have "drop i nip_steps = nip_steps ! i # drop (Suc i) nip_steps" by (simp add: Cons_nth_drop_Suc)
    moreover have "9 - i = Suc (9 - Suc i)" using Suc by simp
    ultimately show ?case
      using Suc(1) [of "Suc i" u "acc + nip_steps ! i * digit_val c"] Suc t by (simp add: nip_contrib_def)
  qed
  from this [of 0 s 0] show ?thesis using assms by simp
qed

lemma nipPL_check_total:
  assumes "keep_digits s = s"
  shows "nipPL_check s \<longleftrightarrow> length s = 10 \<and>
    digit_val (s ! 9) = (let m = weighted_total nip_contrib 0 (map digit_val (take 9 s)) mod 11
                         in if m = 10 then 0 else m)"
  using nip_sum_total [of s] by (auto simp: nipPL_check_def assms Let_def)

text \<open>If two NIP numbers that differ in one of the first nine digits are both accepted, their
  control digit is 0: an undetected single error is only possible where the remainder 10 is folded
  onto 0.\<close>

theorem nipPL_single_digit_errors:
  assumes "nipPL_check (a @ c # b)" "nipPL_check (a @ c' # b)"
    and digits: "list_all is_digit (a @ c # b)" "is_digit c'"
    and pos: "length a < 9" and diff: "c \<noteq> c'"
  shows "last (a @ c # b) = CHR ''0''"
proof -
  let ?t = "\<lambda>x. map digit_val (take 9 (a @ x # b))"
  let ?m = "\<lambda>x. weighted_total nip_contrib 0 (?t x) mod 11"
  have keep: "keep_digits (a @ c # b) = a @ c # b" "keep_digits (a @ c' # b) = a @ c' # b"
    using digits by (auto simp: keep_digits_def filter_id_conv list_all_iff)
  note checks = assms(1,2) [unfolded nipPL_check_total [OF keep(1)] nipPL_check_total [OF keep(2)] Let_def]
  have len: "length (a @ c # b) = 10" using checks(1) by blast
  let ?d = "digit_val ((a @ c # b) ! 9)"
  have last: "last (a @ c # b) = (a @ c # b) ! 9" using len by (subst last_conv_nth) auto
  have same: "(a @ c' # b) ! 9 = (a @ c # b) ! 9" using pos len by (simp add: nth_append)
  have 1: "?d = (if ?m c = 10 then 0 else ?m c)" and 2: "?d = (if ?m c' = 10 then 0 else ?m c')"
    using checks unfolding same by blast+
  have split: "?t x = map digit_val a @ digit_val x # map digit_val (take (8 - length a) b)" for x
    using pos by (simp add: take_Cons' not_less_eq_eq diff_diff_left)
  have "digit_val c \<noteq> digit_val c'" using digit_val_inj digits diff by auto
  then have "?m c \<noteq> ?m c'"
    unfolding split using nip11.substitution_changes_total [of "map digit_val a"] pos digits digit_val_less
    by simp
  with 1 2 have "?d = 0" by (simp split: if_splits)
  moreover have "is_digit ((a @ c # b) ! 9)" using digits(1) len unfolding list_all_length by simp
  ultimately have "(a @ c # b) ! 9 = digit_char 0" by (metis digit_char_val)
  moreover have "digit_char 0 = CHR ''0''" by code_simp
  ultimately show ?thesis unfolding last by simp
qed

theorem nipPL_single_digit_errors_witness:
  "nipPL_check ''0000000000'' \<and> nipPL_check ''9000000000'' \<and> last ''0000000000'' = CHR ''0''"
proof -
  have 1: "nipPL_check ([] @ CHR ''0'' # ''000000000'')" "nipPL_check ([] @ CHR ''9'' # ''000000000'')"
    by code_simp+
  have 2: "list_all is_digit ([] @ CHR ''0'' # ''000000000'')" "is_digit CHR ''9''" by code_simp+
  from 1 nipPL_single_digit_errors [OF 1 2] show ?thesis by simp
qed

lemma cpf_sum_digits:
  "list_all is_digit s \<Longrightarrow>
   cpf_sum (Suc (length s)) s (num a) = num (a + (\<Sum>i<length s. (Suc (length s) - i) * digit_val (s ! i)))"
proof (induction s arbitrary: a)
  case Nil
  then show ?case by simp
next
  case (Cons c s)
  have "(\<Sum>i<length (c # s). (Suc (length (c # s)) - i) * digit_val ((c # s) ! i))
      = (Suc (Suc (length s))) * digit_val c + (\<Sum>i<length s. (Suc (length s) - i) * digit_val (s ! i))"
    unfolding length_Cons by (subst sum.lessThan_Suc_shift) simp
  then show ?case
    using Cons.IH [of "a + Suc (Suc (length s)) * digit_val c"] Cons.prems
    by (simp add: js_num mult.commute add.assoc del: mult_Suc mult_Suc_right sum.lessThan_Suc)
qed

definition cpf_control :: "string \<Rightarrow> nat" where
  \<comment> \<open>the control digit of the CPF rules: ten times the weighted sum of the digits, weights
    falling to 2, modulo 11, with 10 read as 0\<close>
  "cpf_control ds =
     (10 * (\<Sum>i<length ds. (Suc (length ds) - i) * digit_val (ds ! i))) mod 11 mod 10"

lemma cpf_checkResult_num:
  "cpf_checkResult (num a) (num d) \<longleftrightarrow> (10 * a) mod 11 mod 10 = d"
proof -
  have "(10 * a) mod 11 < 11" by simp
  then consider "(10 * a) mod 11 = 10" | "(10 * a) mod 11 < 10" by linarith
  then show ?thesis
    by cases (simp_all add: cpf_checkResult_def Let_def js_num mult.commute)
qed

text \<open>On eleven digits that are not all equal, the CPF method accepts exactly the numbers whose
  tenth and eleventh digit are the control digits of the nine and of the ten digits before them.\<close>

theorem cpfBR_check_iff_controls:
  assumes digits: "list_all is_digit s" and len: "length s = 11" and no_dump: "\<not> cpf_dump s"
  shows "cpfBR_check s \<longleftrightarrow>
    digit_val (s ! 9) = cpf_control (take 9 s) \<and> digit_val (s ! 10) = cpf_control (take 10 s)"
proof -
  have "\<not> cpf_special c" if "is_digit c" for c
    using that by (auto simp: cpf_special_def char_class_defs)
  then have keep: "filter (\<lambda>c. \<not> cpf_special c) s = s"
    using digits by (auto simp: filter_id_conv list_all_iff)
  have sub: "substring s 9 10 = [s ! 9]" "substring s 10 11 = [s ! 10]"
    using len substring_single [of 9 s] substring_single [of 10 s] by simp_all
  have nth: "is_digit (s ! 9)" "is_digit (s ! 10)" using digits len by (simp_all add: list_all_length)
  have tk: "list_all is_digit (take n s)" for n
    using digits by (auto simp: list_all_iff dest: in_set_takeD)
  have sums: "cpf_sum 10 (take 9 s) (num 0) = num (\<Sum>i<9. (10 - i) * digit_val (take 9 s ! i))"
    "cpf_sum 11 (take 10 s) (num 0) = num (\<Sum>i<10. (11 - i) * digit_val (take 10 s ! i))"
    using cpf_sum_digits [OF tk, of 9 0] cpf_sum_digits [OF tk, of 10 0] len by simp_all
  show ?thesis
    unfolding cpfBR_check_def keep Let_def sub sums parseInt10_digit [OF nth(1)] parseInt10_digit [OF nth(2)]
      cpf_checkResult_num cpf_control_def
    using len no_dump by auto
qed

theorem cpfBR_check_iff_controls_witness:
  "cpfBR_check ''11144477735'' \<and> cpf_control ''111444777'' = 3 \<and> cpf_control ''1114447773'' = 5"
proof -
  have 1: "list_all is_digit ''11144477735''" "length ''11144477735'' = 11" "\<not> cpf_dump ''11144477735''"
    by code_simp+
  have 2: "cpfBR_check ''11144477735''" by code_simp
  have 3: "digit_val CHR ''3'' = 3" "digit_val CHR ''5'' = 5" by code_simp+
  from 2 3 cpfBR_check_iff_controls [OF 1] show ?thesis by simp
qed

end
