(* ===== verification/JsRegExp.thy ===== *)
theory JsRegExp
  imports JsRegex
begin

text \<open>
  The \<open>RegExp\<close> constructor: a parser for the pattern syntax the validation library uses, so that
  the patterns of the methods stand in the model as they stand in the source and patterns built
  from parameters are covered, and the answer of \<open>test\<close> with anchors and word boundaries, which
  look at the characters around a position.  A backquote in a pattern stands for a backslash.
  The matcher works by derivatives; \<open>re_match_iff\<close> proves it against the meaning \<open>mat\<close>, and for
  patterns anchored on both sides \<open>re_test_anchored\<close> leads back to the languages of theory JsRegex.
\<close>

section \<open>Patterns\<close>

datatype cls_item = CRange nat nat | CDigit | CWord | CSpace | CNonSpace

datatype re =
    EEps
  | ECls bool "cls_item list" \<comment> \<open>the flag says whether the class is negated\<close>
  | ESeq re re
  | EAlt re re
  | EStar re
  | EBol
  | EEol
  | EWordB

fun item_match :: "cls_item \<Rightarrow> char \<Rightarrow> bool" where
  "item_match (CRange a b) c = (a \<le> code_unit c \<and> code_unit c \<le> b)"
| "item_match CDigit c = is_digit c"
| "item_match CWord c = is_word c"
| "item_match CSpace c = is_space c"
| "item_match CNonSpace c = (\<not> is_space c)"

definition cls_match :: "bool \<Rightarrow> bool \<Rightarrow> cls_item list \<Rightarrow> char \<Rightarrow> bool" where
  "cls_match ci neg items c =
     (neg \<noteq> list_ex (\<lambda>i. item_match i c \<or> (ci \<and> (item_match i (up_char c) \<or> item_match i (low_char c)))) items)"

section \<open>The matcher\<close>

definition word_opt :: "char option \<Rightarrow> bool" where
  "word_opt x = (case x of None \<Rightarrow> False | Some c \<Rightarrow> is_word c)"

text \<open>Whether a pattern matches the empty text between the characters \<open>p\<close> and \<open>n\<close>; None is the
  beginning or the end of the input.\<close>

primrec nul :: "char option \<Rightarrow> char option \<Rightarrow> re \<Rightarrow> bool" where
  "nul p n EEps = True"
| "nul p n (ECls neg items) = False"
| "nul p n (ESeq r t) = (nul p n r \<and> nul p n t)"
| "nul p n (EAlt r t) = (nul p n r \<or> nul p n t)"
| "nul p n (EStar r) = True"
| "nul p n EBol = (p = None)"
| "nul p n EEol = (n = None)"
| "nul p n EWordB = (word_opt p \<noteq> word_opt n)"

fun seq :: "re option \<Rightarrow> re \<Rightarrow> re option" where
  "seq None t = None"
| "seq (Some EEps) t = Some t"
| "seq (Some r) t = Some (ESeq r t)"

fun alt :: "re option \<Rightarrow> re option \<Rightarrow> re option" where
  "alt None y = y"
| "alt x None = x"
| "alt (Some r) (Some t) = Some (EAlt r t)"

primrec der :: "bool \<Rightarrow> char option \<Rightarrow> char \<Rightarrow> re \<Rightarrow> re option" where
  "der ci p c EEps = None"
| "der ci p c (ECls neg items) = (if cls_match ci neg items c then Some EEps else None)"
| "der ci p c (ESeq r t) =
     (if nul p (Some c) r then alt (seq (der ci p c r) t) (der ci p c t) else seq (der ci p c r) t)"
| "der ci p c (EAlt r t) = alt (der ci p c r) (der ci p c t)"
| "der ci p c (EStar r) = seq (der ci p c r) (EStar r)"
| "der ci p c EBol = None"
| "der ci p c EEol = None"
| "der ci p c EWordB = None"

fun re_match :: "bool \<Rightarrow> re option \<Rightarrow> char option \<Rightarrow> string \<Rightarrow> bool" where
  "re_match ci None p s = False"
| "re_match ci (Some r) p [] = nul p None r"
| "re_match ci (Some r) p (c # s) = re_match ci (der ci p c r) (Some c) s"

definition EAll :: re where "EAll = EStar (ECls True [])"

definition re_test :: "bool \<Rightarrow> re \<Rightarrow> string \<Rightarrow> bool" where
  \<comment> \<open>a match anywhere in the input\<close>
  "re_test ci r s = re_match ci (Some (ESeq EAll (ESeq r EAll))) None s"

section \<open>Meaning\<close>

definition nxt :: "string \<Rightarrow> char option \<Rightarrow> char option" where
  "nxt w n = (case w of [] \<Rightarrow> n | c # _ \<Rightarrow> Some c)"

definition prv :: "char option \<Rightarrow> string \<Rightarrow> char option" where
  "prv p v = (if v = [] then p else Some (last v))"

inductive mstar :: "(char option \<Rightarrow> string \<Rightarrow> char option \<Rightarrow> bool) \<Rightarrow> char option \<Rightarrow> string \<Rightarrow> char option \<Rightarrow> bool"
  for M where
  mstar_nil: "mstar M p [] n"
| mstar_app: "M p v (nxt w n) \<Longrightarrow> mstar M (prv p v) w n \<Longrightarrow> mstar M p (v @ w) n"

primrec mat :: "bool \<Rightarrow> re \<Rightarrow> char option \<Rightarrow> string \<Rightarrow> char option \<Rightarrow> bool" where
  "mat ci EEps = (\<lambda>p u n. u = [])"
| "mat ci (ECls neg items) = (\<lambda>p u n. \<exists>c. u = [c] \<and> cls_match ci neg items c)"
| "mat ci (ESeq r t) = (\<lambda>p u n. \<exists>v w. u = v @ w \<and> mat ci r p v (nxt w n) \<and> mat ci t (prv p v) w n)"
| "mat ci (EAlt r t) = (\<lambda>p u n. mat ci r p u n \<or> mat ci t p u n)"
| "mat ci (EStar r) = (\<lambda>p u n. mstar (mat ci r) p u n)"
| "mat ci EBol = (\<lambda>p u n. u = [] \<and> p = None)"
| "mat ci EEol = (\<lambda>p u n. u = [] \<and> n = None)"
| "mat ci EWordB = (\<lambda>p u n. u = [] \<and> word_opt p \<noteq> word_opt n)"

definition mat_opt :: "bool \<Rightarrow> re option \<Rightarrow> char option \<Rightarrow> string \<Rightarrow> char option \<Rightarrow> bool" where
  "mat_opt ci x p u n = (case x of None \<Rightarrow> False | Some r \<Rightarrow> mat ci r p u n)"

lemma nxt_simps [simp]: "nxt [] n = n" "nxt (c # w) n = Some c"
  by (simp_all add: nxt_def)

lemma prv_simps [simp]: "prv p [] = p" "prv p (c # v) = prv (Some c) v"
  by (simp_all add: prv_def)

lemma mat_opt_simps [simp]: "mat_opt ci None p u n = False" "mat_opt ci (Some r) p u n = mat ci r p u n"
  by (simp_all add: mat_opt_def)

lemma nul_iff: "nul p n r \<longleftrightarrow> mat ci r p [] n"
  by (induction r arbitrary: p n) (auto intro: mstar_nil)

lemma mat_seq: "mat_opt ci (seq x t) p u n \<longleftrightarrow>
  (\<exists>v w. u = v @ w \<and> mat_opt ci x p v (nxt w n) \<and> mat ci t (prv p v) w n)"
  by (cases "(x, t)" rule: seq.cases) auto

lemma mat_alt: "mat_opt ci (alt x y) p u n \<longleftrightarrow> mat_opt ci x p u n \<or> mat_opt ci y p u n"
  by (cases "(x, y)" rule: alt.cases) auto

lemma mstar_Cons: "mstar M p (c # s) n \<longleftrightarrow>
  (\<exists>v w. s = v @ w \<and> M p (c # v) (nxt w n) \<and> mstar M (prv (Some c) v) w n)"
proof
  assume "mstar M p (c # s) n"
  then show "\<exists>v w. s = v @ w \<and> M p (c # v) (nxt w n) \<and> mstar M (prv (Some c) v) w n"
  proof (induction p "c # s" n rule: mstar.induct)
    case (mstar_app p v w n)
    then show ?case by (cases v) auto
  qed
next
  assume "\<exists>v w. s = v @ w \<and> M p (c # v) (nxt w n) \<and> mstar M (prv (Some c) v) w n"
  then obtain v w where "s = v @ w" "M p (c # v) (nxt w n)" "mstar M (prv p (c # v)) w n" by auto
  then show "mstar M p (c # s) n" using mstar_app [of M p "c # v" w n] by simp
qed

lemma mat_ESeq_Cons: "mat ci (ESeq r t) p (c # s) n \<longleftrightarrow>
  mat ci r p [] (Some c) \<and> mat ci t p (c # s) n
  \<or> (\<exists>v w. s = v @ w \<and> mat ci r p (c # v) (nxt w n) \<and> mat ci t (prv (Some c) v) w n)"
    (is "?l \<longleftrightarrow> ?r")
proof
  show "?l \<Longrightarrow> ?r" by (auto simp: Cons_eq_append_conv)
  have "\<exists>v' w. c # s = v' @ w \<and> mat ci r p v' (nxt w n) \<and> mat ci t (prv p v') w n"
    if "s = v @ w" "mat ci r p (c # v) (nxt w n)" "mat ci t (prv (Some c) v) w n" for v w
    using that by (intro exI [of _ "c # v"] exI [of _ w]) simp
  then show "?r \<Longrightarrow> ?l" by (auto intro: exI [of _ "[]"])
qed

lemma der_iff: "mat_opt ci (der ci p c r) (Some c) s n \<longleftrightarrow> mat ci r p (c # s) n"
proof (induction r arbitrary: s n)
  case (ESeq r t)
  then show ?case by (simp only: der.simps mat_ESeq_Cons) (auto simp: mat_alt mat_seq nul_iff [of _ _ _ ci])
next
  case (EStar r)
  then show ?case by (simp add: mat_seq mstar_Cons)
qed (auto simp: mat_alt)

theorem re_match_iff: "re_match ci x p s \<longleftrightarrow> mat_opt ci x p s None"
proof (induction ci x p s rule: re_match.induct)
  case (2 ci r p)
  then show ?case by (simp add: nul_iff [of _ _ _ ci])
next
  case (3 ci r p c s)
  then show ?case by (simp add: der_iff)
qed simp

lemma mat_EAll: "mat ci EAll p u n"
proof -
  have "mstar (mat ci (ECls True [])) p u n"
    by (induction u arbitrary: p) (auto simp: mstar_Cons cls_match_def intro: mstar_nil)
  then show ?thesis by (simp add: EAll_def)
qed

theorem re_test_iff: "re_test ci r s \<longleftrightarrow> (\<exists>u v w. s = u @ v @ w \<and> mat ci r (prv None u) v (nxt w None))"
  unfolding re_test_def re_match_iff mat_opt_simps mat.simps using mat_EAll by (metis (no_types))

section \<open>Patterns without assertions\<close>

primrec plain :: "re \<Rightarrow> bool" where
  "plain EEps = True"
| "plain (ECls neg items) = True"
| "plain (ESeq r t) = (plain r \<and> plain t)"
| "plain (EAlt r t) = (plain r \<and> plain t)"
| "plain (EStar r) = plain r"
| "plain EBol = False"
| "plain EEol = False"
| "plain EWordB = False"

primrec to_rx :: "bool \<Rightarrow> re \<Rightarrow> rx" where
  "to_rx ci EEps = ROne"
| "to_rx ci (ECls neg items) = RCls (cls_match ci neg items)"
| "to_rx ci (ESeq r t) = RSeq (to_rx ci r) (to_rx ci t)"
| "to_rx ci (EAlt r t) = RAlt (to_rx ci r) (to_rx ci t)"
| "to_rx ci (EStar r) = RStar (to_rx ci r)"
| "to_rx ci EBol = RZero"
| "to_rx ci EEol = RZero"
| "to_rx ci EWordB = RZero"

lemma mat_plain: "plain r \<Longrightarrow> mat ci r p u n \<longleftrightarrow> u \<in> lang (to_rx ci r)"
proof (induction r arbitrary: p u n)
  case (EStar r)
  show ?case
  proof
    assume "mat ci (EStar r) p u n"
    then have "mstar (mat ci r) p u n" by simp
    then show "u \<in> lang (to_rx ci (EStar r))"
      by (induction p u n rule: mstar.induct) (use EStar in \<open>auto intro: star.intros\<close>)
  next
    assume "u \<in> lang (to_rx ci (EStar r))"
    then have "u \<in> star (lang (to_rx ci r))" by simp
    then have "mstar (mat ci r) p u n" for p
      by (induction u arbitrary: p rule: star.induct) (use EStar in \<open>auto intro: mstar.intros\<close>)
    then show "mat ci (EStar r) p u n" by simp
  qed
qed auto

text \<open>A pattern that ends in an end anchor.\<close>

fun ends_eol :: "re \<Rightarrow> bool" where
  "ends_eol (ESeq r t) = (plain r \<and> ends_eol t)"
| "ends_eol EEol = True"
| "ends_eol _ = False"

fun strip_eol :: "re \<Rightarrow> re" where
  "strip_eol (ESeq r t) = ESeq r (strip_eol t)"
| "strip_eol _ = EEps"

lemma mat_ends_eol: "ends_eol r \<Longrightarrow> mat ci r p u n \<longleftrightarrow> n = None \<and> u \<in> lang (to_rx ci (strip_eol r))"
proof (induction r arbitrary: p u n rule: ends_eol.induct)
  case (1 r t)
  then show ?case by (auto simp: mat_plain)
qed auto

theorem re_test_anchored: "ends_eol r \<Longrightarrow>
  re_test ci (ESeq EBol r) s \<longleftrightarrow> s \<in> lang (to_rx ci (strip_eol r))"
proof -
  assume r: "ends_eol r"
  have p: "prv None u = None \<longleftrightarrow> u = []" for u by (simp add: prv_def)
  have n: "nxt w None = None \<longleftrightarrow> w = []" for w by (cases w) auto
  show ?thesis unfolding re_test_iff using r by (auto simp: mat_ends_eol p n)
qed

section \<open>The pattern parser\<close>

primrec rep :: "nat \<Rightarrow> re \<Rightarrow> re" where
  "rep 0 r = EEps"
| "rep (Suc n) r = (if n = 0 then r else ESeq r (rep n r))"

primrec upto_rep :: "nat \<Rightarrow> re \<Rightarrow> re" where
  "upto_rep 0 r = EEps"
| "upto_rep (Suc n) r = EAlt EEps (if n = 0 then r else ESeq r (upto_rep n r))"

definition mk_rep :: "nat \<Rightarrow> nat \<Rightarrow> re \<Rightarrow> re" where
  "mk_rep n m r = (if m = n then rep n r else if n = 0 then upto_rep m r else ESeq (rep n r) (upto_rep (m - n) r))"

definition skip_lazy :: "string \<Rightarrow> string" where
  "skip_lazy s = (if take 1 s = ''?'' then tl s else s)"

definition braces :: "string \<Rightarrow> (nat \<times> nat option \<times> string) option" where
  \<comment> \<open>the inside of \<open>{n}\<close>, \<open>{n,}\<close> or \<open>{n,m}\<close>; anything else is literal text\<close>
  "braces s =
     (let a = takeWhile is_digit s; s1 = dropWhile is_digit s in
      if a = [] then None
      else if take 1 s1 = ''}'' then Some (dec_val a, Some (dec_val a), tl s1)
      else if take 1 s1 = '','' then
        (let b = takeWhile is_digit (tl s1); s2 = dropWhile is_digit (tl s1)
         in if take 1 s2 = ''}'' then Some (dec_val a, if b = [] then None else Some (dec_val b), tl s2) else None)
      else None)"

definition quant :: "re \<Rightarrow> string \<Rightarrow> re \<times> string" where
  "quant r s =
     (if take 1 s = ''*'' then (EStar r, skip_lazy (tl s))
      else if take 1 s = ''+'' then (ESeq r (EStar r), skip_lazy (tl s))
      else if take 1 s = ''?'' then (EAlt EEps r, skip_lazy (tl s))
      else if take 1 s = ''{'' then
        (case braces (tl s) of
           None \<Rightarrow> (r, s)
         | Some (n, Some m, s') \<Rightarrow> (mk_rep n m r, skip_lazy s')
         | Some (n, None, s') \<Rightarrow> (ESeq (rep n r) (EStar r), skip_lazy s'))
      else (r, s))"

definition lit :: "char \<Rightarrow> re" where
  "lit c = ECls False [CRange (code_unit c) (code_unit c)]"

definition hex_val :: "char \<Rightarrow> nat" where
  "hex_val c = (if is_digit c then digit_val c else code_unit (low_char c) - 87)"

definition hex4 :: "string \<Rightarrow> nat" where
  "hex4 s = foldl (\<lambda>a c. 16 * a + hex_val c) 0 (take 4 s)"

definition escape_item :: "string \<Rightarrow> (cls_item \<times> string) option" where
  \<comment> \<open>what follows a backslash\<close>
  "escape_item s =
     (if s = [] then None
      else if take 1 s = ''d'' then Some (CDigit, tl s)
      else if take 1 s = ''w'' then Some (CWord, tl s)
      else if take 1 s = ''s'' then Some (CSpace, tl s)
      else if take 1 s = ''S'' then Some (CNonSpace, tl s)
      else if take 1 s = ''u'' then Some (CRange (hex4 (tl s)) (hex4 (tl s)), drop 5 s)
      else Some (CRange (code_unit (hd s)) (code_unit (hd s)), tl s))"

definition cls_atom :: "string \<Rightarrow> (cls_item \<times> string) option" where
  "cls_atom s =
     (if s = [] then None
      else if hd s = CHR 0x5C then escape_item (tl s)
      else Some (CRange (code_unit (hd s)) (code_unit (hd s)), tl s))"

fun parse_items :: "nat \<Rightarrow> string \<Rightarrow> (cls_item list \<times> string) option" where
  "parse_items 0 s = None"
| "parse_items (Suc k) s =
     (if take 1 s = '']'' then Some ([], tl s)
      else case cls_atom s of
        None \<Rightarrow> None
      | Some (i, s1) \<Rightarrow>
          (if take 1 s1 = ''-'' \<and> take 1 (tl s1) \<noteq> '']'' then
             (case (i, cls_atom (tl s1)) of
                (CRange a b, Some (CRange a' b', s2)) \<Rightarrow>
                  (if a \<le> b' then map_option (apfst (Cons (CRange a b'))) (parse_items k s2) else None)
              | _ \<Rightarrow> map_option (apfst (Cons i)) (parse_items k s1))
           else map_option (apfst (Cons i)) (parse_items k s1)))"

definition mk_eseq :: "re \<Rightarrow> re \<Rightarrow> re" where
  "mk_eseq r t = (if t = EEps then r else ESeq r t)"

fun parse_alts :: "nat \<Rightarrow> string \<Rightarrow> (re \<times> string) option"
  and parse_seq :: "nat \<Rightarrow> string \<Rightarrow> (re \<times> string) option"
  and parse_atom :: "nat \<Rightarrow> string \<Rightarrow> (re \<times> string) option" where
  "parse_alts 0 s = None"
| "parse_alts (Suc k) s =
     (case parse_seq k s of
        None \<Rightarrow> None
      | Some (r, s1) \<Rightarrow>
          if take 1 s1 = ''|'' then map_option (apfst (EAlt r)) (parse_alts k (tl s1)) else Some (r, s1))"
| "parse_seq 0 s = None"
| "parse_seq (Suc k) s =
     (if s = [] \<or> take 1 s = ''|'' \<or> take 1 s = '')'' then Some (EEps, s)
      else case parse_atom k s of
        None \<Rightarrow> None
      | Some (r, s1) \<Rightarrow>
          (let (q, s2) = quant r s1 in map_option (apfst (mk_eseq q)) (parse_seq k s2)))"
| "parse_atom 0 s = None"
| "parse_atom (Suc k) s =
     (if take 1 s = ''('' then
        (let s0 = (if take 3 s = ''(?:'' then drop 3 s else tl s)
         in case parse_alts k s0 of
              None \<Rightarrow> None
            | Some (r, s1) \<Rightarrow> if take 1 s1 = '')'' then Some (r, tl s1) else None)
      else if take 2 s = ''[^'' then map_option (apfst (ECls True)) (parse_items (length s) (drop 2 s))
      else if take 1 s = ''['' then map_option (apfst (ECls False)) (parse_items (length s) (tl s))
      else if take 1 s = ''.'' then Some (ECls True [CRange 10 10, CRange 13 13], tl s)
      else if take 1 s = ''^'' then Some (EBol, tl s)
      else if take 1 s = ''$'' then Some (EEol, tl s)
      else if take 1 s = ''*'' \<or> take 1 s = ''+'' \<or> take 1 s = ''?'' then None
      else if take 2 s = [CHR 0x5C, CHR ''b''] then Some (EWordB, drop 2 s)
      else if take 1 s = [CHR 0x5C] then
        map_option (\<lambda>(i, s'). (ECls False [i], s')) (escape_item (tl s))
      else if s = [] then None
      else Some (lit (hd s), tl s))"

definition parse_re :: "string \<Rightarrow> re option" where
  \<comment> \<open>None is the \<open>SyntaxError\<close> of the constructor\<close>
  "parse_re src =
     (case parse_alts (3 * length src + 3) src of
        Some (r, []) \<Rightarrow> Some r
      | _ \<Rightarrow> None)"

definition bq :: "string \<Rightarrow> string" where
  \<comment> \<open>backquotes stand for backslashes\<close>
  "bq s = map (\<lambda>c. if c = CHR ''`'' then CHR 0x5C else c) s"

definition regexp_test :: "bool \<Rightarrow> string \<Rightarrow> string \<Rightarrow> bool option" where
  \<comment> \<open>\<open>new RegExp(src, flags).test(s)\<close>\<close>
  "regexp_test ci src s = map_option (\<lambda>r. re_test ci r s) (parse_re src)"

definition tests :: "bool \<Rightarrow> string \<Rightarrow> string \<Rightarrow> bool" where
  \<comment> \<open>\<open>/src/.test(s)\<close> for a pattern of the source\<close>
  "tests ci src s \<longleftrightarrow> regexp_test ci (bq src) s = Some True"

lemma tests_parsed: "parse_re (bq src) = Some r \<Longrightarrow> tests ci src s \<longleftrightarrow> re_test ci r s"
  by (simp add: tests_def regexp_test_def)

end
