(* ===== verification/Formats.thy ===== *)
theory Formats
  imports Checksums JsRegExp
begin

text \<open>
  The methods of additional-methods.js that test a value against a pattern, with the patterns of
  the source (a backquote for a backslash), those that build a pattern from their parameter, the
  word counting methods, the IBAN method and the vehicle identification number.  The answer of
  \<open>String.match\<close> is an array or null; only its truth is used by the validator, so the groups of
  the array are left out.
\<close>

section \<open>Pattern methods\<close>

definition match_result :: "bool \<Rightarrow> jsval" where
  "match_result b = (if b then JArr [] else JNull)"

definition drop_white :: "string \<Rightarrow> string" where
  \<comment> \<open>\<open>s.replace(/\s+/g, "")\<close>\<close>
  "drop_white s = filter (\<lambda>c. \<not> is_space c) s"

definition strip_phone :: "string \<Rightarrow> string" where
  \<comment> \<open>\<open>s.replace(/\(|\)|\s+|-/g, "")\<close>\<close>
  "strip_phone s = filter (\<lambda>c. \<not> is_space c \<and> c \<noteq> CHR ''('' \<and> c \<noteq> CHR '')'' \<and> c \<noteq> CHR ''-'') s"

definition alphanumeric_pattern :: string where
  \<open>alphanumeric_pattern = ''^`w+$''\<close>

definition alphanumeric :: "vctx \<Rightarrow> string \<Rightarrow> elt \<Rightarrow> jserr + jsval" where
  "alphanumeric v value e = unless_optional v e (\<lambda>_. Inr (JBool (tests True alphanumeric_pattern value)))"

definition dateFA_pattern :: string where
  \<open>dateFA_pattern = (''^[1-4]`d{3}`/((0?[1-6]`/((3[0-1])|([1-2][0-9])|(0?[1-9])))|((1[0-2]|(0?[7-9]))`/(30|([1-2][0-9]''
       @ '')|(0?[1-9]))))$'')\<close>

definition dateFA :: "vctx \<Rightarrow> string \<Rightarrow> elt \<Rightarrow> jserr + jsval" where
  "dateFA v value e = unless_optional v e (\<lambda>_. Inr (JBool (tests False dateFA_pattern value)))"

definition dateNL_pattern :: string where
  \<open>dateNL_pattern = ''^(0?[1-9]|[12]`d|3[01])[`.`/`-](0?[1-9]|1[012])[`.`/`-]([12]`d)?(`d`d)$''\<close>

definition dateNL :: "vctx \<Rightarrow> string \<Rightarrow> elt \<Rightarrow> jserr + jsval" where
  "dateNL v value e = unless_optional v e (\<lambda>_. Inr (JBool (tests False dateNL_pattern value)))"

definition integer_pattern :: string where
  \<open>integer_pattern = ''^-?`d+$''\<close>

definition integer :: "vctx \<Rightarrow> string \<Rightarrow> elt \<Rightarrow> jserr + jsval" where
  "integer v value e = unless_optional v e (\<lambda>_. Inr (JBool (tests False integer_pattern value)))"

definition ipv4_pattern :: string where
  \<open>ipv4_pattern = (''^(25[0-5]|2[0-4]`d|[01]?`d`d?)`.(25[0-5]|2[0-4]`d|[01]?`d`d?)`.(25[0-5]|2[0-4]`d|[01]?`d`d?)`.(''
       @ ''25[0-5]|2[0-4]`d|[01]?`d`d?)$'')\<close>

definition ipv4 :: "vctx \<Rightarrow> string \<Rightarrow> elt \<Rightarrow> jserr + jsval" where
  "ipv4 v value e = unless_optional v e (\<lambda>_. Inr (JBool (tests True ipv4_pattern value)))"

definition ipv6_pattern :: string where
  \<open>ipv6_pattern = (''^((([0-9A-Fa-f]{1,4}:){7}[0-9A-Fa-f]{1,4})|(([0-9A-Fa-f]{1,4}:){6}:[0-9A-Fa-f]{1,4})|(([0-9A-Fa''
       @ ''-f]{1,4}:){5}:([0-9A-Fa-f]{1,4}:)?[0-9A-Fa-f]{1,4})|(([0-9A-Fa-f]{1,4}:){4}:([0-9A-Fa-f]{1,4}:)''
       @ ''{0,2}[0-9A-Fa-f]{1,4})|(([0-9A-Fa-f]{1,4}:){3}:([0-9A-Fa-f]{1,4}:){0,3}[0-9A-Fa-f]{1,4})|(([0-9''
       @ ''A-Fa-f]{1,4}:){2}:([0-9A-Fa-f]{1,4}:){0,4}[0-9A-Fa-f]{1,4})|(([0-9A-Fa-f]{1,4}:){6}((`b((25[0-5''
       @ ''])|(1`d{2})|(2[0-4]`d)|(`d{1,2}))`b)`.){3}(`b((25[0-5])|(1`d{2})|(2[0-4]`d)|(`d{1,2}))`b))|(([0''
       @ ''-9A-Fa-f]{1,4}:){0,5}:((`b((25[0-5])|(1`d{2})|(2[0-4]`d)|(`d{1,2}))`b)`.){3}(`b((25[0-5])|(1`d{''
       @ ''2})|(2[0-4]`d)|(`d{1,2}))`b))|(::([0-9A-Fa-f]{1,4}:){0,5}((`b((25[0-5])|(1`d{2})|(2[0-4]`d)|(`d''
       @ ''{1,2}))`b)`.){3}(`b((25[0-5])|(1`d{2})|(2[0-4]`d)|(`d{1,2}))`b))|([0-9A-Fa-f]{1,4}::([0-9A-Fa-f''
       @ '']{1,4}:){0,5}[0-9A-Fa-f]{1,4})|(::([0-9A-Fa-f]{1,4}:){0,6}[0-9A-Fa-f]{1,4})|(([0-9A-Fa-f]{1,4}:''
       @ ''){1,7}:))$'')\<close>

definition ipv6 :: "vctx \<Rightarrow> string \<Rightarrow> elt \<Rightarrow> jserr + jsval" where
  "ipv6 v value e = unless_optional v e (\<lambda>_. Inr (JBool (tests True ipv6_pattern value)))"

definition lettersonly_pattern :: string where
  \<open>lettersonly_pattern = ''^[a-z]+$''\<close>

definition lettersonly :: "vctx \<Rightarrow> string \<Rightarrow> elt \<Rightarrow> jserr + jsval" where
  "lettersonly v value e = unless_optional v e (\<lambda>_. Inr (JBool (tests True lettersonly_pattern value)))"

definition letterswithbasicpunc_pattern :: string where
  \<open>letterswithbasicpunc_pattern = ''^[a-z`-.,()\'"`s]+$''\<close>

definition letterswithbasicpunc :: "vctx \<Rightarrow> string \<Rightarrow> elt \<Rightarrow> jserr + jsval" where
  "letterswithbasicpunc v value e = unless_optional v e (\<lambda>_. Inr (JBool (tests True letterswithbasicpunc_pattern value)))"

definition mobileNL_pattern :: string where
  \<open>mobileNL_pattern = ''^((`+|00(`s|`s?`-`s?)?)31(`s|`s?`-`s?)?(`(0`)[`-`s]?)?|0)6((`s|`s?`-`s?)?[0-9]){8}$''\<close>

definition mobileNL :: "vctx \<Rightarrow> string \<Rightarrow> elt \<Rightarrow> jserr + jsval" where
  "mobileNL v value e = unless_optional v e (\<lambda>_. Inr (JBool (tests False mobileNL_pattern value)))"

definition netmask_pattern :: string where
  \<open>netmask_pattern = (''^(254|252|248|240|224|192|128)`.0`.0`.0|255`.(254|252|248|240|224|192|128|0)`.0`.0|255`.255`.(2''
       @ ''54|252|248|240|224|192|128|0)`.0|255`.255`.255`.(254|252|248|240|224|192|128|0)'')\<close>

definition netmask :: "vctx \<Rightarrow> string \<Rightarrow> elt \<Rightarrow> jserr + jsval" where
  "netmask v value e = unless_optional v e (\<lambda>_. Inr (JBool (tests True netmask_pattern value)))"

definition nowhitespace_pattern :: string where
  \<open>nowhitespace_pattern = ''^`S+$''\<close>

definition nowhitespace :: "vctx \<Rightarrow> string \<Rightarrow> elt \<Rightarrow> jserr + jsval" where
  "nowhitespace v value e = unless_optional v e (\<lambda>_. Inr (JBool (tests True nowhitespace_pattern value)))"

definition phoneNL_pattern :: string where
  \<open>phoneNL_pattern = ''^((`+|00(`s|`s?`-`s?)?)31(`s|`s?`-`s?)?(`(0`)[`-`s]?)?|0)[1-9]((`s|`s?`-`s?)?[0-9]){8}$''\<close>

definition phoneNL :: "vctx \<Rightarrow> string \<Rightarrow> elt \<Rightarrow> jserr + jsval" where
  "phoneNL v value e = unless_optional v e (\<lambda>_. Inr (JBool (tests False phoneNL_pattern value)))"

definition postalcodeBR_pattern :: string where
  \<open>postalcodeBR_pattern = ''^`d{2}.`d{3}-`d{3}?$|^`d{5}-?`d{3}?$''\<close>

definition postalcodeBR :: "vctx \<Rightarrow> string \<Rightarrow> elt \<Rightarrow> jserr + jsval" where
  "postalcodeBR v value e = unless_optional v e (\<lambda>_. Inr (JBool (tests False postalcodeBR_pattern value)))"

definition postalCodeCA_pattern :: string where
  \<open>postalCodeCA_pattern = ''^[ABCEGHJKLMNPRSTVXY]`d[ABCEGHJKLMNPRSTVWXYZ] *`d[ABCEGHJKLMNPRSTVWXYZ]`d$''\<close>

definition postalCodeCA :: "vctx \<Rightarrow> string \<Rightarrow> elt \<Rightarrow> jserr + jsval" where
  "postalCodeCA v value e = unless_optional v e (\<lambda>_. Inr (JBool (tests True postalCodeCA_pattern value)))"

definition postalcodeIT_pattern :: string where
  \<open>postalcodeIT_pattern = ''^`d{5}$''\<close>

definition postalcodeIT :: "vctx \<Rightarrow> string \<Rightarrow> elt \<Rightarrow> jserr + jsval" where
  "postalcodeIT v value e = unless_optional v e (\<lambda>_. Inr (JBool (tests False postalcodeIT_pattern value)))"

definition postalcodeNL_pattern :: string where
  \<open>postalcodeNL_pattern = ''^[1-9][0-9]{3}`s?[a-zA-Z]{2}$''\<close>

definition postalcodeNL :: "vctx \<Rightarrow> string \<Rightarrow> elt \<Rightarrow> jserr + jsval" where
  "postalcodeNL v value e = unless_optional v e (\<lambda>_. Inr (JBool (tests False postalcodeNL_pattern value)))"

definition postcodeUK_pattern :: string where
  \<open>postcodeUK_pattern = (''^((([A-PR-UWYZ][0-9])|([A-PR-UWYZ][0-9][0-9])|([A-PR-UWYZ][A-HK-Y][0-9])|([A-PR-UWYZ][A-HK-Y][0''
       @ ''-9][0-9])|([A-PR-UWYZ][0-9][A-HJKSTUW])|([A-PR-UWYZ][A-HK-Y][0-9][ABEHMNPRVWXY]))`s?([0-9][ABD-''
       @ ''HJLNP-UW-Z]{2})|(GIR)`s?(0AA))$'')\<close>

definition postcodeUK :: "vctx \<Rightarrow> string \<Rightarrow> elt \<Rightarrow> jserr + jsval" where
  "postcodeUK v value e = unless_optional v e (\<lambda>_. Inr (JBool (tests True postcodeUK_pattern value)))"

definition time_pattern :: string where
  \<open>time_pattern = ''^([01]`d|2[0-3]|[0-9])(:[0-5]`d){1,2}$''\<close>

definition time :: "vctx \<Rightarrow> string \<Rightarrow> elt \<Rightarrow> jserr + jsval" where
  "time v value e = unless_optional v e (\<lambda>_. Inr (JBool (tests False time_pattern value)))"

definition time12h_pattern :: string where
  \<open>time12h_pattern = ''^((0?[1-9]|1[012])(:[0-5]`d){1,2}(` ?[AP]M))$''\<close>

definition time12h :: "vctx \<Rightarrow> string \<Rightarrow> elt \<Rightarrow> jserr + jsval" where
  "time12h v value e = unless_optional v e (\<lambda>_. Inr (JBool (tests True time12h_pattern value)))"

definition url2_pattern :: string where
  \<open>url2_pattern = (''^(https?|ftp):`/`/(((([a-z]|`d|-|`.|_|~|[`u00A0-`uD7FF`uF900-`uFDCF`uFDF0-`uFFEF])|(%[`da-f]{2}''
       @ '')|[!`$&\'`(`)`*`+,;=]|:)*@)?(((`d|[1-9]`d|1`d`d|2[0-4]`d|25[0-5])`.(`d|[1-9]`d|1`d`d|2[0-4]`d|2''
       @ ''5[0-5])`.(`d|[1-9]`d|1`d`d|2[0-4]`d|25[0-5])`.(`d|[1-9]`d|1`d`d|2[0-4]`d|25[0-5]))|((([a-z]|`d|''
       @ ''[`u00A0-`uD7FF`uF900-`uFDCF`uFDF0-`uFFEF])|(([a-z]|`d|[`u00A0-`uD7FF`uF900-`uFDCF`uFDF0-`uFFEF]''
       @ '')([a-z]|`d|-|`.|_|~|[`u00A0-`uD7FF`uF900-`uFDCF`uFDF0-`uFFEF])*([a-z]|`d|[`u00A0-`uD7FF`uF900-`''
       @ ''uFDCF`uFDF0-`uFFEF])))`.)*(([a-z]|[`u00A0-`uD7FF`uF900-`uFDCF`uFDF0-`uFFEF])|(([a-z]|[`u00A0-`u''
       @ ''D7FF`uF900-`uFDCF`uFDF0-`uFFEF])([a-z]|`d|-|`.|_|~|[`u00A0-`uD7FF`uF900-`uFDCF`uFDF0-`uFFEF])*(''
       @ ''[a-z]|[`u00A0-`uD7FF`uF900-`uFDCF`uFDF0-`uFFEF])))`.?)(:`d*)?)(`/((([a-z]|`d|-|`.|_|~|[`u00A0-`''
       @ ''uD7FF`uF900-`uFDCF`uFDF0-`uFFEF])|(%[`da-f]{2})|[!`$&\'`(`)`*`+,;=]|:|@)+(`/(([a-z]|`d|-|`.|_|~''
       @ ''|[`u00A0-`uD7FF`uF900-`uFDCF`uFDF0-`uFFEF])|(%[`da-f]{2})|[!`$&\'`(`)`*`+,;=]|:|@)*)*)?)?(`?(((''
       @ ''[a-z]|`d|-|`.|_|~|[`u00A0-`uD7FF`uF900-`uFDCF`uFDF0-`uFFEF])|(%[`da-f]{2})|[!`$&\'`(`)`*`+,;=]|''
       @ '':|@)|[`uE000-`uF8FF]|`/|`?)*)?(#((([a-z]|`d|-|`.|_|~|[`u00A0-`uD7FF`uF900-`uFDCF`uFDF0-`uFFEF])''
       @ ''|(%[`da-f]{2})|[!`$&\'`(`)`*`+,;=]|:|@)|`/|`?)*)?$'')\<close>

definition url2 :: "vctx \<Rightarrow> string \<Rightarrow> elt \<Rightarrow> jserr + jsval" where
  "url2 v value e = unless_optional v e (\<lambda>_. Inr (JBool (tests True url2_pattern value)))"

definition zipcodeUS_pattern :: string where
  \<open>zipcodeUS_pattern = ''^`d{5}(-`d{4})?$''\<close>

definition zipcodeUS :: "vctx \<Rightarrow> string \<Rightarrow> elt \<Rightarrow> jserr + jsval" where
  "zipcodeUS v value e = unless_optional v e (\<lambda>_. Inr (JBool (tests False zipcodeUS_pattern value)))"

definition ziprange_pattern :: string where
  \<open>ziprange_pattern = ''^90[2-5]`d`{2`}-`d{4}$''\<close>

definition ziprange :: "vctx \<Rightarrow> string \<Rightarrow> elt \<Rightarrow> jserr + jsval" where
  "ziprange v value e = unless_optional v e (\<lambda>_. Inr (JBool (tests False ziprange_pattern value)))"

definition bic_pattern :: string where
  \<open>bic_pattern = ''^([A-Z]{6}[A-Z2-9][A-NP-Z1-9])(X{3}|[A-WY-Z0-9][A-Z0-9]{2})?$''\<close>

definition bic :: "vctx \<Rightarrow> string \<Rightarrow> elt \<Rightarrow> jserr + jsval" where
  "bic v value e = unless_optional v e (\<lambda>_. Inr (JBool (tests False bic_pattern (toUpperCase value))))"

definition mobileUK_pattern :: string where
  \<open>mobileUK_pattern = ''^(?:(?:(?:00`s?|`+)44`s?|0)7(?:[1345789]`d{2}|624)`s?`d{3}`s?`d{3})$''\<close>

definition mobileUK :: "vctx \<Rightarrow> string \<Rightarrow> elt \<Rightarrow> jserr + jsval" where
  "mobileUK v phone e =
     (let phone_number = strip_phone phone in
      unless_optional v e (\<lambda>_.
        if length phone_number > 9 then Inr (match_result (tests False mobileUK_pattern phone_number)) else Inr (JBool False)))"

definition phonesUK_pattern :: string where
  \<open>phonesUK_pattern = ''^(?:(?:(?:00`s?|`+)44`s?|0)(?:1`d{8,9}|[23]`d{9}|7(?:[1345789]`d{8}|624`d{6})))$''\<close>

definition phonesUK :: "vctx \<Rightarrow> string \<Rightarrow> elt \<Rightarrow> jserr + jsval" where
  "phonesUK v phone e =
     (let phone_number = strip_phone phone in
      unless_optional v e (\<lambda>_.
        if length phone_number > 9 then Inr (match_result (tests False phonesUK_pattern phone_number)) else Inr (JBool False)))"

definition phoneUK_pattern :: string where
  \<open>phoneUK_pattern = (''^(?:(?:(?:00`s?|`+)44`s?)|(?:`(?0))(?:`d{2}`)?`s?`d{4}`s?`d{4}|`d{3}`)?`s?`d{3}`s?`d{3,4}|`d{4}''
       @ ''`)?`s?(?:`d{5}|`d{3}`s?`d{3})|`d{5}`)?`s?`d{4,5})$'')\<close>

definition phoneUK :: "vctx \<Rightarrow> string \<Rightarrow> elt \<Rightarrow> jserr + jsval" where
  "phoneUK v phone e =
     (let phone_number = strip_phone phone in
      unless_optional v e (\<lambda>_.
        if length phone_number > 9 then Inr (match_result (tests False phoneUK_pattern phone_number)) else Inr (JBool False)))"

definition phoneUS_pattern :: string where
  \<open>phoneUS_pattern = (''^(`+?1-?)?(`([2-9]([02-9]`d|1[02-9])`)|[2-9]([02-9]`d|1[02-9]))-?[2-9]([02-9]`d|1[02-9])-?`d{4}''
       @ ''$'')\<close>

definition phoneUS :: "vctx \<Rightarrow> string \<Rightarrow> elt \<Rightarrow> jserr + jsval" where
  "phoneUS v phone e =
     (let phone_number = drop_white phone in
      unless_optional v e (\<lambda>_.
        if length phone_number > 9 then Inr (match_result (tests False phoneUS_pattern phone_number)) else Inr (JBool False)))"

section \<open>Patterns built from parameters\<close>

definition syntax_check :: "bool option \<Rightarrow> (bool \<Rightarrow> jserr + jsval) \<Rightarrow> jserr + jsval" where
  \<comment> \<open>the RegExp constructor throws on a malformed pattern\<close>
  "syntax_check r k = (case r of None \<Rightarrow> Inl (Error ''SyntaxError'') | Some b \<Rightarrow> k b)"

definition regexp_special :: "char \<Rightarrow> bool" where
  "regexp_special c \<longleftrightarrow> List.member (CHR 0x5C # ''-[]/{}()+?.^$|'') c"

definition replace_chars :: "char \<Rightarrow> string \<Rightarrow> string \<Rightarrow> string" where
  "replace_chars c by_str s = concat (map (\<lambda>d. if d = c then by_str else [d]) s)"

fun replace_slash_star :: "string \<Rightarrow> string" where
  \<comment> \<open>\<open>s.replace(/\/\*/g, "/.*")\<close>\<close>
  "replace_slash_star (c # d # s) =
     (if c = CHR ''/'' \<and> d = CHR ''*'' then ''/.*'' @ replace_slash_star s else c # replace_slash_star (d # s))"
| "replace_slash_star s = s"

definition accept_types :: "string \<Rightarrow> string" where
  "accept_types typeParam =
     replace_slash_star (replace_chars CHR '','' ''|''
       (concat (map (\<lambda>c. if regexp_special c then [CHR 0x5C, c] else [c]) typeParam)))"

definition accept :: "vctx \<Rightarrow> elt \<Rightarrow> (string list) option \<Rightarrow> jsval \<Rightarrow> jserr + jsval" where
  \<comment> \<open>the third argument is the file list of the element: the type of each file\<close>
  "accept v e files param =
     (let typeParam = (case param of JStr p \<Rightarrow> drop_white p | _ \<Rightarrow> ''image/*'') in
      unless_optional v e (\<lambda>_.
        if obj_get (e_attrs e) ''type'' = Some ''file'' then
          (case files of
             None \<Rightarrow> Inr (JBool True)
           | Some [] \<Rightarrow> Inr (JBool True)
           | Some fs \<Rightarrow>
               (case parse_re (''.?('' @ accept_types typeParam @ '')$'') of
                  None \<Rightarrow> Inl (Error ''SyntaxError'')
                | Some r \<Rightarrow> Inr (JBool (list_all (\<lambda>f. re_test True r f) fs))))
        else Inr (JBool True)))"

definition extension :: "vctx \<Rightarrow> string \<Rightarrow> elt \<Rightarrow> jsval \<Rightarrow> jserr + jsval" where
  "extension v value e param =
     (let p = (case param of JStr p \<Rightarrow> replace_chars CHR '','' ''|'' p | _ \<Rightarrow> ''png|jpe?g|gif'') in
      unless_optional v e (\<lambda>_.
        syntax_check (regexp_test True (CHR 0x5C # ''.('' @ p @ '')$'') value) (\<lambda>b. Inr (match_result b))))"

definition currency_tail :: string where
  "currency_tail = (''([1-9]{1}[0-9]{0,2}(`,[0-9]{3})*(`.[0-9]{0,2})?|[1-9]{1}[0-9]{0,}(`.[0-9]{0,2})?|0(`.[0-9]'' @ ''{0,2})?|(`.[0-9]{1,2})?)$'')"

definition currency :: "vctx \<Rightarrow> string \<Rightarrow> elt \<Rightarrow> jsval \<Rightarrow> jserr + jsval" where
  \<comment> \<open>the parameter is a string or an array of the symbols and the flag\<close>
  "currency v value e param =
     (let symsoft = (case param of
          JStr p \<Rightarrow> Some (p, True)
        | JArr (JStr p # soft # _) \<Rightarrow> Some (p, truthy soft)
        | JArr [JStr p] \<Rightarrow> Some (p, False)
        | _ \<Rightarrow> None)
      in case symsoft of
        None \<Rightarrow> Inl TypeError
      | Some (symbol, soft) \<Rightarrow>
          (let symbol = filter (\<lambda>c. c \<noteq> CHR '','') symbol;
               symbol = (if soft then symbol @ '']'' else symbol @ '']?'');
               res = regexp_test False (''^['' @ symbol @ bq currency_tail) value
           in syntax_check res (\<lambda>b. unless_optional v e (\<lambda>_. Inr (JBool b)))))"

datatype pattern_param = PString string | PRegExp bool re

definition pattern :: "vctx \<Rightarrow> string \<Rightarrow> elt \<Rightarrow> pattern_param \<Rightarrow> jserr + jsval" where
  "pattern v value e param =
     (case optional v e of
        Inl x \<Rightarrow> Inl x
      | Inr r \<Rightarrow>
          if truthy r then Inr (JBool True)
          else (case param of
              PString p \<Rightarrow> syntax_check (regexp_test False (''^(?:'' @ p @ '')$'') value) (\<lambda>b. Inr (JBool b))
            | PRegExp ci p \<Rightarrow> Inr (JBool (re_test ci p value))))"

record state_options =
  caseSensitive :: "bool option"
  includeTerritories :: "bool option"
  includeMilitary :: "bool option"

definition state_pattern :: "bool \<Rightarrow> bool \<Rightarrow> string" where
  "state_pattern territories military =
     (if \<not> territories \<and> \<not> military then (''^(A[KLRZ]|C[AOT]|D[CE]|FL|GA|HI|I[ADLN]|K[SY]|LA|M[ADEINOST]|N[CDEHJMVY]|O[HKR]|PA|RI|S[CD'' @ '']|T[NX]|UT|V[AT]|W[AIVY])$'')
      else if territories \<and> military then (''^(A[AEKLPRSZ]|C[AOT]|D[CE]|FL|G[AU]|HI|I[ADLN]|K[SY]|LA|M[ADEINOPST]|N[CDEHJMVY]|O[HKR]|P['' @ ''AR]|RI|S[CD]|T[NX]|UT|V[AIT]|W[AIVY])$'')
      else if territories then (''^(A[KLRSZ]|C[AOT]|D[CE]|FL|G[AU]|HI|I[ADLN]|K[SY]|LA|M[ADEINOPST]|N[CDEHJMVY]|O[HKR]|P[AR]'' @ ''|RI|S[CD]|T[NX]|UT|V[AIT]|W[AIVY])$'')
      else (''^(A[AEKLPRZ]|C[AOT]|D[CE]|FL|GA|HI|I[ADLN]|K[SY]|LA|M[ADEINOST]|N[CDEHJMVY]|O[HKR]|PA|RI|S'' @ ''[CD]|T[NX]|UT|V[AT]|W[AIVY])$''))"

definition stateUS :: "vctx \<Rightarrow> string \<Rightarrow> elt \<Rightarrow> state_options option \<Rightarrow> jserr + jsval" where
  "stateUS v value e options =
     (let opt = (\<lambda>f. case options of None \<Rightarrow> False | Some os \<Rightarrow> (case f os of None \<Rightarrow> False | Some b \<Rightarrow> b))
      in unless_optional v e (\<lambda>_.
           Inr (JBool (tests (\<not> opt caseSensitive)
             (state_pattern (opt includeTerritories) (opt includeMilitary)) value))))"

definition strippedminlength :: "(string \<Rightarrow> string) \<Rightarrow> string \<Rightarrow> jsnum \<Rightarrow> jserr + jsval" where
  \<comment> \<open>the first argument is \<open>$(html).text()\<close>\<close>
  "strippedminlength html_text value param = Inr (JBool (js_le param (num (length (html_text value)))))"

section \<open>Word counts\<close>

definition tag_end :: "string \<Rightarrow> string option" where
  \<comment> \<open>after an opening angle bracket: the text behind the tag\<close>
  "tag_end s =
     (case s of [] \<Rightarrow> None
      | c # t \<Rightarrow>
          if code_unit c = 10 \<or> code_unit c = 13 then None
          else (let r = dropWhile (\<lambda>d. d \<noteq> CHR ''<'' \<and> d \<noteq> CHR ''>'') t
                in if take 1 r = ''>'' then Some (tl r) else None))"

lemma tag_end_length: "tag_end s = Some r \<Longrightarrow> length r < length s"
proof -
  assume a: "tag_end s = Some r"
  then obtain c t where s: "s = c # t" by (cases s) (auto simp: tag_end_def)
  have "length (dropWhile (\<lambda>d. d \<noteq> CHR ''<'' \<and> d \<noteq> CHR ''>'') t) \<le> length t" by (rule length_dropWhile_le)
  then show ?thesis using a unfolding s tag_end_def by (auto simp: Let_def split: if_splits)
qed

function strip_tags :: "string \<Rightarrow> string" where
  "strip_tags [] = []"
| "strip_tags (c # s) =
     (if c = CHR ''<'' then (case tag_end s of None \<Rightarrow> c # strip_tags s | Some r \<Rightarrow> '' '' @ strip_tags r)
      else c # strip_tags s)"
  by pat_completeness auto

termination by (relation "measure length") (auto dest: tag_end_length)

function strip_nbsp :: "string \<Rightarrow> string" where
  "strip_nbsp [] = []"
| "strip_nbsp (c # s) =
     (if toLowerCase (take 6 (c # s)) = ''&nbsp;'' \<or> take 6 (c # s) = ''&#160;'' then '' '' @ strip_nbsp (drop 5 s)
      else c # strip_nbsp s)"
  by pat_completeness auto

termination by (relation "measure length") auto

definition punctuation :: "char \<Rightarrow> bool" where
  "punctuation c \<longleftrightarrow> List.member (CHR 0x27 # CHR 0x22 # ''.(),;:!?%#$_+=/-'') c"

definition stripHtml :: "string \<Rightarrow> string" where
  "stripHtml value = filter (\<lambda>c. \<not> punctuation c) (strip_nbsp (strip_tags value))"

definition word_matches :: "string \<Rightarrow> string list" where
  \<comment> \<open>the matches of a maximal run of word characters, in order\<close>
  "word_matches s = filter (\<lambda>w. w \<noteq> []) (split_on (\<lambda>c. \<not> is_word c) s)"

definition words_length :: "string \<Rightarrow> jserr + nat" where
  \<comment> \<open>without a match \<open>String.match\<close> returns null, and its length throws\<close>
  "words_length s = (if word_matches s = [] then Inl TypeError else Inr (length (word_matches s)))"

definition maxWords :: "vctx \<Rightarrow> string \<Rightarrow> elt \<Rightarrow> jsnum \<Rightarrow> jserr + jsval" where
  "maxWords v value e params = unless_optional v e (\<lambda>_.
     (case words_length (stripHtml value) of Inl x \<Rightarrow> Inl x | Inr n \<Rightarrow> Inr (JBool (js_le (num n) params))))"

definition minWords :: "vctx \<Rightarrow> string \<Rightarrow> elt \<Rightarrow> jsnum \<Rightarrow> jserr + jsval" where
  "minWords v value e params = unless_optional v e (\<lambda>_.
     (case words_length (stripHtml value) of Inl x \<Rightarrow> Inl x | Inr n \<Rightarrow> Inr (JBool (js_le params (num n)))))"

definition rangeWords :: "vctx \<Rightarrow> string \<Rightarrow> elt \<Rightarrow> jsnum \<Rightarrow> jsnum \<Rightarrow> jserr + jsval" where
  "rangeWords v value e lo hi =
     (let valueStripped = stripHtml value in unless_optional v e (\<lambda>_.
       (case words_length valueStripped of
          Inl x \<Rightarrow> Inl x
        | Inr n \<Rightarrow> Inr (JBool (js_le lo (num n) \<and> js_le (num n) hi)))))"

section \<open>IBAN\<close>

definition bbancountrypatterns :: "(string \<times> string) list" where
  "bbancountrypatterns =
     [(''AL'', ''`d{8}[`dA-Z]{16}''), (''AD'', ''`d{8}[`dA-Z]{12}''), (''AT'', ''`d{16}''),
      (''AZ'', ''[`dA-Z]{4}`d{20}''), (''BE'', ''`d{12}''), (''BH'', ''[A-Z]{4}[`dA-Z]{14}''),
      (''BA'', ''`d{16}''), (''BR'', ''`d{23}[A-Z][`dA-Z]''), (''BG'', ''[A-Z]{4}`d{6}[`dA-Z]{8}''),
      (''CR'', ''`d{17}''), (''HR'', ''`d{17}''), (''CY'', ''`d{8}[`dA-Z]{16}''),
      (''CZ'', ''`d{20}''), (''DK'', ''`d{14}''), (''DO'', ''[A-Z]{4}`d{20}''),
      (''EE'', ''`d{16}''), (''FO'', ''`d{14}''), (''FI'', ''`d{14}''),
      (''FR'', ''`d{10}[`dA-Z]{11}`d{2}''), (''GE'', ''[`dA-Z]{2}`d{16}''), (''DE'', ''`d{18}''),
      (''GI'', ''[A-Z]{4}[`dA-Z]{15}''), (''GR'', ''`d{7}[`dA-Z]{16}''), (''GL'', ''`d{14}''),
      (''GT'', ''[`dA-Z]{4}[`dA-Z]{20}''), (''HU'', ''`d{24}''), (''IS'', ''`d{22}''),
      (''IE'', ''[`dA-Z]{4}`d{14}''), (''IL'', ''`d{19}''), (''IT'', ''[A-Z]`d{10}[`dA-Z]{12}''),
      (''KZ'', ''`d{3}[`dA-Z]{13}''), (''KW'', ''[A-Z]{4}[`dA-Z]{22}''), (''LV'', ''[A-Z]{4}[`dA-Z]{13}''),
      (''LB'', ''`d{4}[`dA-Z]{20}''), (''LI'', ''`d{5}[`dA-Z]{12}''), (''LT'', ''`d{16}''),
      (''LU'', ''`d{3}[`dA-Z]{13}''), (''MK'', ''`d{3}[`dA-Z]{10}`d{2}''), (''MT'', ''[A-Z]{4}`d{5}[`dA-Z]{18}''),
      (''MR'', ''`d{23}''), (''MU'', ''[A-Z]{4}`d{19}[A-Z]{3}''), (''MC'', ''`d{10}[`dA-Z]{11}`d{2}''),
      (''MD'', ''[`dA-Z]{2}`d{18}''), (''ME'', ''`d{18}''), (''NL'', ''[A-Z]{4}`d{10}''),
      (''NO'', ''`d{11}''), (''PK'', ''[`dA-Z]{4}`d{16}''), (''PS'', ''[`dA-Z]{4}`d{21}''),
      (''PL'', ''`d{24}''), (''PT'', ''`d{21}''), (''RO'', ''[A-Z]{4}[`dA-Z]{16}''),
      (''SM'', ''[A-Z]`d{10}[`dA-Z]{12}''), (''SA'', ''`d{2}[`dA-Z]{18}''), (''RS'', ''`d{18}''),
      (''SK'', ''`d{20}''), (''SI'', ''`d{15}''), (''ES'', ''`d{20}''),
      (''SE'', ''`d{20}''), (''CH'', ''`d{5}[`dA-Z]{12}''), (''TN'', ''`d{20}''),
      (''TR'', ''`d{5}[`dA-Z]{17}''), (''AE'', ''`d{3}`d{16}''), (''GB'', ''[A-Z]{4}`d{14}''),
      (''VG'', ''[`dA-Z]{4}`d{16}'')]"

definition alnum_table :: string where
  "alnum_table = ''0123456789ABCDEFGHIJKLMNOPQRSTUVWXYZ''"

definition int_str :: "int \<Rightarrow> string" where
  "int_str n = (if n < 0 then ''-'' @ nat_str (nat (- n)) else nat_str (nat n))"

fun iban_digits :: "bool \<Rightarrow> string \<Rightarrow> string" where
  \<comment> \<open>the conversion loop; a character outside the table adds the text -1\<close>
  "iban_digits leadingZeroes [] = []"
| "iban_digits leadingZeroes (c # s) =
     (let lz = (leadingZeroes \<and> c = CHR ''0'')
      in if lz then iban_digits lz s else int_str (indexOf alnum_table c) @ iban_digits lz s)"

definition num_text :: "jsnum \<Rightarrow> string" where
  \<comment> \<open>a remainder as text: an integer or NaN\<close>
  "num_text n = (case n of Fin r \<Rightarrow> int_str (trunc r) | _ \<Rightarrow> ''NaN'')"

fun iban_rest :: "jsnum option \<Rightarrow> string \<Rightarrow> jsnum option" where
  \<comment> \<open>None is the initial empty string of \<open>cRest\<close>\<close>
  "iban_rest cRest [] = cRest"
| "iban_rest cRest (c # s) =
     (let cOperator = (case cRest of None \<Rightarrow> [] | Some n \<Rightarrow> num_text n) @ [c]
      in iban_rest (Some (js_mod (to_number cOperator) (num 97))) s)"

definition iban_check :: "string \<Rightarrow> bool" where
  "iban_check iban =
     (if length iban < 5 then False
      else if (case map_of bbancountrypatterns (take 2 iban) of
                 None \<Rightarrow> False
               | Some bbanpattern \<Rightarrow> \<not> tests False (''^[A-Z]{2}`d{2}'' @ bbanpattern @ ''$'') iban) then False
      else iban_rest None (iban_digits True (drop 4 iban @ take 4 iban)) = Some (num 1))"

definition iban :: "vctx \<Rightarrow> string \<Rightarrow> elt \<Rightarrow> jserr + jsval" where
  "iban v value e =
     (case optional v e of
        Inl x \<Rightarrow> Inl x
      | Inr r \<Rightarrow> if truthy r then Inr (JBool True) else Inr (JBool (iban_check (toUpperCase (drop_spaces value)))))"

section \<open>Vehicle identification numbers\<close>

definition vin_LL :: string where "vin_LL = ''ABCDEFGHJKLMNPRSTUVWXYZ''"

definition vin_VL :: "nat list" where
  "vin_VL = [1, 2, 3, 4, 5, 6, 7, 8, 1, 2, 3, 4, 5, 7, 9, 2, 3, 4, 5, 6, 7, 8, 9]"

definition vin_FL :: "nat list" where
  "vin_FL = [8, 7, 6, 5, 4, 3, 2, 10, 0, 9, 8, 7, 6, 5, 4, 3, 2]"

definition js_isNaN :: "string \<Rightarrow> bool" where
  "js_isNaN s \<longleftrightarrow> to_number s = NaN"

definition vin_add :: "jsval \<Rightarrow> jsval \<Rightarrow> jsval" where
  \<comment> \<open>\<open>rs += d\<close>: a sum of numbers, or a concatenation as soon as one of them is a string\<close>
  "vin_add rs d =
     (case (rs, d) of
        (JNum a, JNum b) \<Rightarrow> JNum (js_add a b)
      | (JNum a, JStr b) \<Rightarrow> JStr (num_text a @ b)
      | (JStr a, JNum b) \<Rightarrow> JStr (a @ num_text b)
      | (JStr a, JStr b) \<Rightarrow> JStr (a @ b)
      | _ \<Rightarrow> rs)"

fun vin_loop :: "nat \<Rightarrow> string \<Rightarrow> jsval \<Rightarrow> string option \<Rightarrow> jsval \<times> string option" where
  \<comment> \<open>index, rest of the text, \<open>rs\<close>, \<open>cdv\<close> (None: undefined)\<close>
  "vin_loop i [] rs cdv = (rs, cdv)"
| "vin_loop i (c # v) rs cdv =
     (let f = vin_FL ! i;
          cdv1 = (if i = 8 then Some [c] else cdv)
      in if \<not> js_isNaN [c] then vin_loop (Suc i) v (vin_add rs (JNum (js_mul (to_number [c]) (num f)))) cdv1
         else (let n = indexOf vin_LL (up_char c) in
           if n < 0 then vin_loop (Suc i) v (vin_add rs (JStr [c])) cdv1
           else vin_loop (Suc i) v (vin_add rs (JNum (num (vin_VL ! nat n * f))))
                  (if (case cdv1 of None \<Rightarrow> True | Some s \<Rightarrow> js_isNaN s) \<and> n = 8 then Some ''J'' else cdv1)))"

definition vinUS :: "string \<Rightarrow> bool" where
  "vinUS v =
     (if length v \<noteq> 17 then False
      else (case vin_loop 0 v (JNum (num 0)) None of
        (rs, cdv) \<Rightarrow>
          (let cd = js_mod (case rs of JNum a \<Rightarrow> a | JStr s \<Rightarrow> to_number s | _ \<Rightarrow> NaN) (num 11)
           in strict_eq (if cd = num 10 then JStr ''X'' else JNum cd)
                (case cdv of None \<Rightarrow> JUndef | Some s \<Rightarrow> JStr s))))"

end
