(* ===== verification/FormatLaws.thy ===== *)
theory FormatLaws
  imports Formats
begin

text \<open>
  What the format methods of theory Formats decide: the addresses the IPv4 pattern accepts, the
  remainder the IBAN loop computes and the errors it detects, and the values some patterns can
  never accept.
\<close>

section \<open>IP addresses\<close>

lemma cls_range_digits: "y < 65 \<Longrightarrow> cls_match ci False [CRange x y] c \<longleftrightarrow> x \<le> code_unit c \<and> code_unit c \<le> y"
  by (auto simp: cls_match_def up_char_def low_char_def is_upper_def is_lower_def in_range_def code_unit_char_of
      split: if_splits) (auto simp: code_unit_def)

definition octet :: "string \<Rightarrow> bool" where
  "octet u \<longleftrightarrow> u \<noteq> [] \<and> length u \<le> 3 \<and> list_all is_digit u \<and> dec_val u \<le> 255"

definition octet_re :: re where
  "octet_re = EAlt
     (ESeq (ECls False [CRange 50 50]) (ESeq (ECls False [CRange 53 53]) (ECls False [CRange 48 53])))
     (EAlt (ESeq (ECls False [CRange 50 50]) (ESeq (ECls False [CRange 48 52]) (ECls False [CDigit])))
        (ESeq (EAlt EEps (ECls False [CRange 48 48, CRange 49 49]))
           (ESeq (ECls False [CDigit]) (EAlt EEps (ECls False [CDigit])))))"

lemma ipv4_parsed: "parse_re (bq ipv4_pattern) =
  Some (ESeq EBol (ESeq octet_re (ESeq (lit CHR ''.'') (ESeq octet_re (ESeq (lit CHR ''.'')
    (ESeq octet_re (ESeq (lit CHR ''.'') (ESeq octet_re EEol))))))))"
  by code_simp

lemma digit_code: "is_digit c \<longleftrightarrow> 48 \<le> code_unit c \<and> code_unit c \<le> 57"
  by (simp add: is_digit_def in_range_def) (simp add: code_unit_def)

lemma cls_digit: "cls_match ci False [CDigit] c \<longleftrightarrow> is_digit c"
proof -
  have "cls_match ci False [CDigit] c \<longleftrightarrow> cls_match ci False [CRange 48 57] c"
    by (simp only: cls_match_def list_ex_iff list.set bex_simps item_match.simps digit_code)
  then show ?thesis by (simp add: cls_range_digits digit_code)
qed

lemma cls_01: "cls_match ci False [CRange 48 48, CRange 49 49] c \<longleftrightarrow> code_unit c = 48 \<or> code_unit c = 49"
proof -
  have "cls_match ci False [CRange 48 48, CRange 49 49] c \<longleftrightarrow>
      cls_match ci False [CRange 48 48] c \<or> cls_match ci False [CRange 49 49] c"
    by (simp only: cls_match_def list_ex_iff list.set bex_simps) blast
  then show ?thesis by (simp add: cls_range_digits) linarith
qed

lemma dec_val_3: "dec_val [a, b] = 10 * digit_val a + digit_val b"
  "dec_val [a, b, c] = 100 * digit_val a + 10 * digit_val b + digit_val c"
  using dec_val_snoc [of "[a]" b] dec_val_snoc [of "[a, b]" c] by simp_all

lemma octet_lang: "u \<in> lang (to_rx ci octet_re) \<longleftrightarrow> octet u"
proof -
  have d: "digit_val c = code_unit c - 48" for c by (simp add: digit_val_def)
  note S = octet_re_def to_rx.simps rx_lang list.case list.inject
  consider "u = []" | a where "u = [a]" | a b where "u = [a, b]" | a b c where "u = [a, b, c]"
    | a b c c' v where "u = a # b # c # c' # v"
    by (metis (no_types) list.exhaust)
  then show ?thesis
  proof cases
    case 5
    then show ?thesis by (simp add: S octet_def del: lang.simps)
  qed (auto simp: S octet_def cls_range_digits cls_digit cls_01 digit_code dec_val_3 d simp del: lang.simps)
qed

lemma in_lit: "cls_match ci False [CRange (code_unit d) (code_unit d)] c \<longleftrightarrow> c = d" if "code_unit d < 65"
  using that by (auto simp: cls_range_digits code_unit_eq_iff)

lemma octet_no_dot: "octet u \<Longrightarrow> list_all (\<lambda>c. c \<noteq> CHR ''.'') u"
  by (auto simp: octet_def list_all_iff is_digit_def in_range_def code_unit_def)

lemma in_RSeq_dot: "s \<in> lang (RSeq (to_rx ci (lit CHR ''.'')) t) \<longleftrightarrow> (\<exists>v. s = CHR ''.'' # v \<and> v \<in> lang t)"
proof -
  have "code_unit CHR ''.'' < 65" by (simp add: code_unit_def)
  then show ?thesis by (cases s) (simp_all add: lit_def in_RSeq_RCls in_lit del: lang.simps)
qed

lemma in_octet_dot: "s \<in> lang (RSeq (to_rx ci octet_re) (RSeq (to_rx ci (lit CHR ''.'')) t)) \<longleftrightarrow>
  (\<exists>a v. octet a \<and> s = a @ CHR ''.'' # v \<and> v \<in> lang t)"
  unfolding in_RSeq [of s "to_rx ci octet_re"] in_RSeq_dot octet_lang by blast

lemma in_octet_end: "s \<in> lang (RSeq (to_rx ci octet_re) ROne) \<longleftrightarrow> octet s"
  unfolding in_RSeq [of s "to_rx ci octet_re"] octet_lang in_ROne by simp

text \<open>The IPv4 method accepts exactly the texts made of four numbers of one to three digits between 0
  and 255 separated by dots.\<close>

theorem ipv4_iff_octets:
  "tests True ipv4_pattern s \<longleftrightarrow>
     length (split_on (\<lambda>c. c = CHR ''.'') s) = 4 \<and> list_all octet (split_on (\<lambda>c. c = CHR ''.'') s)"
    (is "_ \<longleftrightarrow> length ?ps = 4 \<and> list_all octet ?ps")
proof -
  have plain: "plain octet_re" "plain (lit CHR ''.'')" by (simp_all add: octet_re_def lit_def)
  have "tests True ipv4_pattern s \<longleftrightarrow>
      (\<exists>a b c d. octet a \<and> octet b \<and> octet c \<and> octet d
         \<and> s = a @ CHR ''.'' # b @ CHR ''.'' # c @ CHR ''.'' # d)"
  proof -
    have e: "ends_eol (ESeq octet_re (ESeq (lit CHR ''.'') (ESeq octet_re (ESeq (lit CHR ''.'')
      (ESeq octet_re (ESeq (lit CHR ''.'') (ESeq octet_re EEol)))))))"
      using plain by simp
    show ?thesis
      unfolding tests_parsed [OF ipv4_parsed] re_test_anchored [OF e] strip_eol.simps to_rx.simps(1,3)
        in_octet_dot in_octet_end by blast
  qed
  also have "\<dots> \<longleftrightarrow> length ?ps = 4 \<and> list_all octet ?ps"
  proof
    assume "\<exists>a b c d. octet a \<and> octet b \<and> octet c \<and> octet d
         \<and> s = a @ CHR ''.'' # b @ CHR ''.'' # c @ CHR ''.'' # d"
    then obtain a b c d where *: "octet a" "octet b" "octet c" "octet d"
        "s = a @ CHR ''.'' # b @ CHR ''.'' # c @ CHR ''.'' # d" by blast
    then have "?ps = [a, b, c, d]" by (simp add: split_on_append split_on_no octet_no_dot)
    then show "length ?ps = 4 \<and> list_all octet ?ps" using * by simp
  next
    assume l: "length ?ps = 4 \<and> list_all octet ?ps"
    then obtain a b c d where ps: "?ps = [a, b, c, d]"
      by (auto simp: numeral_eq_Suc length_Suc_conv)
    then have "s = join_with ''.'' [a, b, c, d]" using join_split_on [of "CHR ''.''" s] by simp
    then show "\<exists>a b c d. octet a \<and> octet b \<and> octet c \<and> octet d
         \<and> s = a @ CHR ''.'' # b @ CHR ''.'' # c @ CHR ''.'' # d" using l ps by auto
  qed
  finally show ?thesis .
qed

section \<open>Vehicle identification numbers\<close>

lemma vin_loop_late: "8 < i \<Longrightarrow> snd (vin_loop i v rs cdv) = cdv \<or> snd (vin_loop i v rs cdv) = Some ''J''"
proof (induction i v rs cdv rule: vin_loop.induct)
  case (2 i c v rs cdv)
  then show ?case by (simp only: vin_loop.simps Let_def) (fastforce split: if_splits)
qed simp

lemma vin_loop_check_digit: "i \<le> 8 \<Longrightarrow> 8 < i + length v \<Longrightarrow>
  snd (vin_loop i v rs cdv) = Some [v ! (8 - i)] \<or> snd (vin_loop i v rs cdv) = Some ''J''"
proof (induction i v rs cdv rule: vin_loop.induct)
  case (2 i c v rs cdv)
  show ?case
  proof (cases "i = 8")
    case True
    then show ?thesis using vin_loop_late [of 9 v]
      by (simp only: vin_loop.simps Let_def) (fastforce split: if_splits)
  next
    case False
    then have "i < 8" "(c # v) ! (8 - i) = v ! (8 - Suc i)" using 2 by (auto simp: nth_Cons' )
    then show ?thesis using 2 False by (simp only: vin_loop.simps Let_def) (fastforce split: if_splits)
  qed
qed simp

text \<open>The method for vehicle identification numbers compares the computed check digit, a number, with
  the character of the text, a string; the two are only equal for the check character X, so no
  number with a digit at the check position is ever accepted.\<close>

theorem vinUS_only_X:
  assumes "vinUS v"
  shows "v ! 8 = CHR ''X''"
proof -
  obtain rs cdv where l: "vin_loop 0 v (JNum (num 0)) None = (rs, cdv)" and len: "length v = 17"
    using assms by (cases "vin_loop 0 v (JNum (num 0)) None") (auto simp: vinUS_def split: if_splits)
  have "cdv = Some ''X''"
    using assms l len by (auto simp: vinUS_def strict_eq_def Let_def split: if_splits option.splits)
  then show ?thesis using vin_loop_check_digit [of 0 v "JNum (num 0)" None] l len by auto
qed

theorem vinUS_only_X_witness: "vinUS ''1M8GDM9AXKP042788'' \<and> ''1M8GDM9AXKP042788'' ! 8 = CHR ''X''"
proof -
  have "vinUS ''1M8GDM9AXKP042788''" by code_simp
  then show ?thesis using vinUS_only_X [of "''1M8GDM9AXKP042788''"] by blast
qed

section \<open>The pattern of the ZIP range\<close>

lemma ziprange_parsed: "\<exists>r. parse_re (bq ziprange_pattern) = Some (ESeq EBol r) \<and> ends_eol r
    \<and> to_rx False (strip_eol r) = RSeq (to_rx False (lit CHR ''9'')) (RSeq (to_rx False (lit CHR ''0''))
        (RSeq (RCls (cls_match False False [CRange 50 53])) (RSeq (RCls (cls_match False False [CDigit]))
          (RSeq (to_rx False (lit CHR ''{'')) (RSeq (to_rx False (lit CHR ''2'')) (RSeq (to_rx False (lit CHR ''}''))
            (RSeq (to_rx False (lit CHR ''-'')) (RSeq (to_rx False (rep 4 (ECls False [CDigit]))) ROne))))))))"
proof -
  have "parse_re (bq ziprange_pattern) = Some (ESeq EBol (ESeq (lit CHR ''9'') (ESeq (lit CHR ''0'')
     (ESeq (ECls False [CRange 50 53]) (ESeq (ECls False [CDigit]) (ESeq (lit CHR ''{'') (ESeq (lit CHR ''2'')
     (ESeq (lit CHR ''}'') (ESeq (lit CHR ''-'') (ESeq (rep 4 (ECls False [CDigit])) EEol))))))))))"
    by code_simp
  moreover have "plain (rep 4 (ECls False [CDigit]))" by (simp add: numeral_eq_Suc)
  ultimately show ?thesis by (simp add: lit_def)
qed

text \<open>The pattern of the ZIP range escapes the braces of a repetition, so a value is accepted only when
  its fifth character is an opening brace: no ZIP code is.\<close>

theorem ziprange_rejects_zip_codes:
  assumes "tests False ziprange_pattern s"
  shows "s ! 4 = CHR ''{''"
proof -
  obtain r where p: "parse_re (bq ziprange_pattern) = Some (ESeq EBol r)" and e: "ends_eol r"
    and t: "to_rx False (strip_eol r) = RSeq (to_rx False (lit CHR ''9'')) (RSeq (to_rx False (lit CHR ''0''))
        (RSeq (RCls (cls_match False False [CRange 50 53])) (RSeq (RCls (cls_match False False [CDigit]))
          (RSeq (to_rx False (lit CHR ''{'')) (RSeq (to_rx False (lit CHR ''2'')) (RSeq (to_rx False (lit CHR ''}''))
            (RSeq (to_rx False (lit CHR ''-'')) (RSeq (to_rx False (rep 4 (ECls False [CDigit]))) ROne))))))))"
    using ziprange_parsed by blast
  have brace: "cls_match False False [CRange 123 123] c \<longleftrightarrow> c = CHR ''{''" for c
    using code_unit_eq_iff [of c "CHR ''{''"] by (auto simp: cls_match_def code_unit_def)
  have "s \<in> lang (to_rx False (strip_eol r))"
    using assms by (simp only: tests_parsed [OF p] re_test_anchored [OF e])
  then have "\<exists>a b c d t. s = a # b # c # d # CHR ''{'' # t"
    unfolding t lit_def to_rx.simps in_RSeq_RCls
    by (auto split: list.splits simp: brace code_unit_def)
  then show ?thesis by auto
qed

theorem ziprange_rejects_zip_codes_witness:
  "tests False ziprange_pattern ''9021{2}-1234'' \<and> ''9021{2}-1234'' ! 4 = CHR ''{''"
proof -
  have "tests False ziprange_pattern ''9021{2}-1234''" by code_simp
  then show ?thesis using ziprange_rejects_zip_codes [of "''9021{2}-1234''"] by blast
qed

section \<open>IBAN\<close>

lemma num_text_num: "num_text (num n) = nat_str n"
  by (simp add: num_text_def num_def int_str_def trunc_def)

lemma iban_rest_mod:
  "list_all is_digit s \<Longrightarrow> iban_rest (Some (num n)) s = Some (num (if s = [] then n else dec_val (nat_str n @ s) mod 97))"
proof (induction s arbitrary: n)
  case (Cons c s)
  have "to_number (nat_str n @ [c]) = num (10 * n + digit_val c)"
    using Cons.prems to_number_digits [of "nat_str n @ [c]"] nat_str_digits [of n] by simp
  then have step: "iban_rest (Some (num n)) (c # s) = iban_rest (Some (num ((10 * n + digit_val c) mod 97))) s"
    by (simp add: num_text_num js_num)
  have "dec_val (nat_str m @ s) = m * 10 ^ length s + dec_val s" for m by (simp add: dec_val_append)
  then have "dec_val (nat_str ((10 * n + digit_val c) mod 97) @ s) mod 97
      = ((10 * n + digit_val c) * 10 ^ length s + dec_val s) mod 97"
    by (metis mod_add_left_eq mod_mult_left_eq)
  also have "\<dots> = dec_val (nat_str n @ c # s) mod 97"
    using dec_val_append [of "nat_str n @ [c]" s] by simp
  finally show ?case using step Cons by simp
qed simp

lemma iban_rest_dec:
  assumes "list_all is_digit s" "s \<noteq> []"
  shows "iban_rest None s = Some (num (dec_val s mod 97))"
proof -
  obtain c t where s: "s = c # t" using assms(2) by (cases s) auto
  have "to_number [c] = num (digit_val c)" using assms(1) s by (simp add: js_num)
  then have "iban_rest None s = iban_rest (Some (num (digit_val c mod 97))) t"
    by (simp add: s js_num)
  moreover have d: "digit_val c < 10" using assms(1) s by (simp add: digit_val_less)
  ultimately show ?thesis
    using iban_rest_mod [of t "digit_val c"] assms(1) s dec_val_append [of "[c]" t] by (auto simp: dec_val_append)
qed

text \<open>Upper case letters and digits, and the number a text of them stands for: digits as they are, a
  letter as its two digit position in the table.\<close>

definition alnum :: "char \<Rightarrow> bool" where
  "alnum c \<longleftrightarrow> c \<in> set alnum_table"

definition conv :: "string \<Rightarrow> string" where
  "conv s = concat (map (\<lambda>c. int_str (indexOf alnum_table c)) s)"

lemma conv_simps [simp]: "conv [] = []" "conv (c # s) = int_str (indexOf alnum_table c) @ conv s"
    "conv (s @ t) = conv s @ conv t"
  by (simp_all add: conv_def)

lemma alnum_index: "alnum c \<Longrightarrow> int_str (indexOf alnum_table c) = nat_str (nat (indexOf alnum_table c))"
  by (rule indexOf_cases [of alnum_table c]) (auto simp: int_str_def alnum_def)

lemma conv_digits: "list_all alnum s \<Longrightarrow> list_all is_digit (conv s)"
  by (induction s) (auto simp: alnum_index nat_str_digits)

lemma index_digit: "is_digit c \<Longrightarrow> int_str (indexOf alnum_table c) = [c]"
proof -
  assume "is_digit c"
  have "list_all (\<lambda>d. int_str (indexOf alnum_table (digit_char d)) = [digit_char d]) [0..<10]" by code_simp
  then have "int_str (indexOf alnum_table (digit_char (digit_val c))) = [digit_char (digit_val c)]"
    using digit_val_less [OF \<open>is_digit c\<close>] by (simp add: list_all_iff)
  then show ?thesis using \<open>is_digit c\<close> by simp
qed

lemma index_zero: "int_str (indexOf alnum_table CHR ''0'') = ''0''"
  by code_simp

lemma iban_digits_False: "iban_digits False s = conv s"
  by (induction s) (simp_all add: Let_def)

lemma iban_digits_val: "list_all alnum s \<Longrightarrow> dec_val (iban_digits True s) = dec_val (conv s) \<and> list_all is_digit (iban_digits True s)"
proof (induction s)
  case (Cons c s)
  have "dec_val (''0'' @ conv s) = dec_val (conv s)"
    by (simp only: dec_val_append) (simp add: digit_val_def code_unit_def)
  then show ?case using Cons index_zero conv_digits [of "c # s"]
    by (simp add: Let_def iban_digits_False)
qed simp

definition iban_format :: "string \<Rightarrow> bool" where
  "iban_format s \<longleftrightarrow> (case map_of bbancountrypatterns (take 2 s) of None \<Rightarrow> True
     | Some p \<Rightarrow> tests False (''^[A-Z]{2}`d{2}'' @ p @ ''$'') s)"

lemma iban_check_mod:
  assumes "list_all alnum s" "5 \<le> length s"
  shows "iban_check s \<longleftrightarrow> iban_format s \<and> dec_val (conv (drop 4 s @ take 4 s)) mod 97 = 1"
proof -
  let ?r = "drop 4 s @ take 4 s"
  have "list_all alnum ?r" using assms(1) by (auto simp: list_all_iff dest: in_set_dropD in_set_takeD)
  then have v: "dec_val (iban_digits True ?r) = dec_val (conv ?r)" "list_all is_digit (iban_digits True ?r)"
    using iban_digits_val by blast+
  have "iban_rest None (iban_digits True ?r) = Some (num 1) \<longleftrightarrow> dec_val (conv ?r) mod 97 = 1"
  proof (cases "iban_digits True ?r = []")
    case True
    then have "dec_val (conv ?r) = 0" using v(1) by simp
    then show ?thesis using True by simp
  next
    case False
    then show ?thesis using iban_rest_dec [OF v(2)] v(1) by simp
  qed
  then show ?thesis using assms(2) by (simp add: iban_check_def iban_format_def split: option.splits)
qed

text \<open>C13: On upper case letters and digits the piecewise remainder of the IBAN method is the remainder of
  the whole number: an account is accepted exactly when it has the format of its country and the
  number obtained by moving the first four characters to the end and replacing letters by two
  digits is 1 modulo 97.\<close>

theorem iban_check_iff_mod97:
  assumes "list_all alnum s" "5 \<le> length s"
  shows "iban_check s \<longleftrightarrow> iban_format s \<and> dec_val (conv (drop 4 s @ take 4 s)) mod 97 = 1"
  using assms by (rule iban_check_mod)

theorem iban_check_iff_mod97_witness:
  "iban_check ''CH9300762011623852957'' \<and>
   dec_val (conv (drop 4 ''CH9300762011623852957'' @ take 4 ''CH9300762011623852957'')) mod 97 = 1"
proof -
  have a: "list_all alnum ''CH9300762011623852957''" by (simp add: alnum_def alnum_table_def)
  have b: "iban_check ''CH9300762011623852957''" by code_simp
  show ?thesis using iban_check_iff_mod97 [OF a] b by simp
qed

lemma rotate_substitution:
  "\<exists>x y. \<forall>d. drop 4 (a @ d # b) @ take 4 (a @ d # b) = x @ d # y"
proof (cases "length a < 4")
  case True
  then obtain k where k: "4 - length a = Suc k" by (metis Suc_diff_Suc)
  show ?thesis using True
    by (intro exI [of _ "drop k b @ a"] exI [of _ "take k b"]) (simp add: k)
next
  case False
  then show ?thesis
    by (intro exI [of _ "drop 4 a"] exI [of _ "b @ take 4 a"]) simp
qed

lemma digit_alnum: "is_digit c \<Longrightarrow> alnum c"
  using index_digit [of c] by (rule_tac indexOf_cases [of alnum_table c]) (auto simp: alnum_def int_str_def)

lemma dec_val_substitution:
  assumes "is_digit c" "is_digit c'" "c \<noteq> c'" "list_all is_digit x" "list_all is_digit y"
  shows "dec_val (x @ c # y) mod 97 \<noteq> dec_val (x @ c' # y) mod 97"
  using dec97.substitution_changes_total_rev [where ys = "map digit_val y"
      and d = "digit_val c" and d' = "digit_val c'" and xs = "map digit_val x"]
    assms digit_val_less digit_val_inj by (auto simp: dec_val_total)

text \<open>An accepted account number is rejected after one of its digits is replaced by another.\<close>

theorem iban_detects_wrong_digit:
  assumes s: "list_all alnum (a @ c # b)" "5 \<le> length (a @ c # b)"
    and c: "is_digit c" "is_digit c'" "c \<noteq> c'" and ok: "iban_check (a @ c # b)"
  shows "\<not> iban_check (a @ c' # b)"
proof -
  obtain x y where xy: "\<And>d. drop 4 (a @ d # b) @ take 4 (a @ d # b) = x @ d # y"
    using rotate_substitution by blast
  have s': "list_all alnum (a @ c' # b)" "5 \<le> length (a @ c' # b)" using s c digit_alnum by auto
  have "set (drop 4 (a @ c # b) @ take 4 (a @ c # b)) = set (a @ c # b)"
    by (metis Un_commute append_take_drop_id set_append)
  then have "list_all alnum (x @ c # y)" using s(1) xy [of c] by (simp only: list_all_iff)
  then have "list_all is_digit (conv x)" "list_all is_digit (conv y)" using conv_digits by auto
  then have "dec_val (conv (x @ c # y)) mod 97 \<noteq> dec_val (conv (x @ c' # y)) mod 97"
    using dec_val_substitution [OF c] by (simp add: index_digit c)
  then show ?thesis
    using ok iban_check_mod [OF s, unfolded xy] iban_check_mod [OF s', unfolded xy] by auto
qed

theorem iban_detects_wrong_digit_witness: "\<not> iban_check ''CH9300762011623852956''"
proof -
  have i: "iban_check (''CH930076201162385295'' @ CHR ''7'' # [])" by code_simp
  have a: "list_all alnum (''CH930076201162385295'' @ CHR ''7'' # [])" by (simp add: alnum_def alnum_table_def)
  have d: "is_digit CHR ''7''" "is_digit CHR ''6''" by code_simp+
  show ?thesis using iban_detects_wrong_digit [OF a _ d _ i] by simp
qed

section \<open>Word counts\<close>

text \<open>The word count methods throw on every field value in which nothing but tags, blanks and
  punctuation is left, instead of counting zero words.\<close>

theorem maxWords_throws_without_words:
  assumes "text_field e s" "filter (\<lambda>c. c \<noteq> CHR 0x0D) s \<noteq> []" "list_all (\<lambda>c. \<not> is_word c) (stripHtml value)"
  shows "maxWords v value e n = Inl TypeError \<and> minWords v value e n = Inl TypeError"
proof -
  have "word_matches u = []" if "list_all (\<lambda>c. \<not> is_word c) u" for u
    using that by (induction u) (auto simp: word_matches_def)
  then have "words_length (stripHtml value) = Inl TypeError" using assms(3) by (simp add: words_length_def)
  then show ?thesis using assms(2)
    by (simp add: maxWords_def minWords_def unless_optional_text [OF assms(1)])
qed

theorem maxWords_throws_without_words_witness:
  "maxWords sample_ctx ''!?'' (sample_field ''!?'') (num 5) = Inl TypeError"
proof -
  have "list_all (\<lambda>c. \<not> is_word c) (stripHtml ''!?'')" by code_simp
  then show ?thesis using maxWords_throws_without_words [OF sample_text [of "''!?''"]] by simp
qed

end
