(* ===== verification/Dates.thy ===== *)
theory Dates
  imports Formats
begin

text \<open>
  The Italian date method of additional-methods.js with the date arithmetic of the language it
  uses: \<open>Date.UTC\<close>, which counts days from the beginning of 1970, carries months and days over and
  moves the years 0 to 99 to the twentieth century, and the three getters that read year, month and
  day back.  The main result is that the method accepts exactly the dates of the calendar from the
  year 100 on.
\<close>

section \<open>Days and calendar dates\<close>

definition DayFromYear :: "int \<Rightarrow> int" where
  "DayFromYear y = 365 * (y - 1970) + (y - 1969) div 4 - (y - 1901) div 100 + (y - 1601) div 400"

definition leap :: "int \<Rightarrow> bool" where
  "leap y \<longleftrightarrow> (y mod 4 = 0 \<and> y mod 100 \<noteq> 0) \<or> y mod 400 = 0"

definition month_starts :: "bool \<Rightarrow> int list" where
  "month_starts l =
     (let k = (if l then 1 else 0)
      in [0, 31, 59 + k, 90 + k, 120 + k, 151 + k, 181 + k, 212 + k, 243 + k, 273 + k, 304 + k, 334 + k, 365 + k])"

definition MakeDay :: "int \<Rightarrow> int \<Rightarrow> int \<Rightarrow> int" where
  "MakeDay year month date =
     (let ym = year + month div 12; mn = month mod 12
      in DayFromYear ym + month_starts (leap ym) ! nat mn + date - 1)"

definition Date_UTC :: "int \<Rightarrow> int \<Rightarrow> int \<Rightarrow> int" where
  "Date_UTC year month date = MakeDay (if 0 \<le> year \<and> year \<le> 99 then 1900 + year else year) month date"

definition getUTCFullYear :: "int \<Rightarrow> int" where
  "getUTCFullYear t =
     (let y = 1970 + 400 * t div 146097
      in if DayFromYear (y + 2) \<le> t then y + 2 else if DayFromYear (y + 1) \<le> t then y + 1
         else if DayFromYear y \<le> t then y else if DayFromYear (y - 1) \<le> t then y - 1 else y - 2)"

definition day_within_year :: "int \<Rightarrow> int" where
  "day_within_year t = t - DayFromYear (getUTCFullYear t)"

definition getUTCMonth :: "int \<Rightarrow> int" where
  "getUTCMonth t =
     int (length (filter (\<lambda>s. s \<le> day_within_year t) (month_starts (leap (getUTCFullYear t))))) - 1"

definition getUTCDate :: "int \<Rightarrow> int" where
  "getUTCDate t = day_within_year t - month_starts (leap (getUTCFullYear t)) ! nat (getUTCMonth t) + 1"

section \<open>The method\<close>

definition dateITA_pattern :: string where
  "dateITA_pattern = ''^`d{1,2}`/`d{1,2}`/`d{4}$''"

definition int_of_num :: "jsnum \<Rightarrow> int" where
  "int_of_num n = (case n of Fin r \<Rightarrow> trunc r | _ \<Rightarrow> 0)"

definition dateITA_check :: "string \<Rightarrow> bool" where
  "dateITA_check value =
     (if tests False dateITA_pattern value then
        (let adata = split_on (\<lambda>c. c = CHR ''/'') value;
             gg = int_of_num (parseInt10 (adata ! 0));
             mm = int_of_num (parseInt10 (adata ! 1));
             aaaa = int_of_num (parseInt10 (adata ! 2));
             xdata = Date_UTC aaaa (mm - 1) gg
         in getUTCFullYear xdata = aaaa \<and> getUTCMonth xdata = mm - 1 \<and> getUTCDate xdata = gg)
      else False)"

definition dateITA :: "vctx \<Rightarrow> string \<Rightarrow> elt \<Rightarrow> jserr + jsval" where
  "dateITA v value e = (let check = dateITA_check value in unless_optional v e (\<lambda>_. Inr (JBool check)))"

section \<open>The getters invert the count\<close>

lemma div_bounds: "c * (a div c) \<le> a" "a < c * (a div c) + c" if "0 < c" for a c :: int
proof -
  have "0 \<le> a mod c" "a mod c < c" using that by simp_all
  then show "c * (a div c) \<le> a" "a < c * (a div c) + c" using mult_div_mod_eq [of c a] by linarith+
qed

lemma DayFromYear_bounds:
  "400 * DayFromYear y \<le> 146097 * (y - 1970) + 589" "146097 * (y - 1970) - 506 \<le> 400 * DayFromYear y"
  using div_bounds [of 4 "y - 1969"] div_bounds [of 100 "y - 1901"] div_bounds [of 400 "y - 1601"]
  by (simp_all add: DayFromYear_def)

lemma div_plus_1: "(a + 1) div c = a div c + (if (a + 1) mod c = 0 then 1 else 0)" if "0 < c" for a c :: int
proof -
  have a: "a = c * (a div c) + a mod c" and r: "0 \<le> a mod c" "a mod c < c" using that by simp_all
  show ?thesis
  proof (cases "a mod c + 1 = c")
    case True
    then have "a + 1 = c * (a div c + 1)" using a by (simp only: distrib_left)
    then have "(a + 1) div c = a div c + 1" "(a + 1) mod c = 0" using that by simp_all
    then show ?thesis by simp
  next
    case False
    then have l: "a mod c + 1 < c" using r by linarith
    have e: "a + 1 = c * (a div c) + (a mod c + 1)" using a by linarith
    have "(a + 1) div c = a div c"
      by (rule int_div_pos_eq [OF e]) (use l r in linarith)+
    moreover have "(a + 1) mod c = a mod c + 1" using l r that by (subst e) (simp only: mod_mult_self4 mod_pos_pos_trivial)
    ultimately show ?thesis using r by simp
  qed
qed

lemma mod_shift: "b mod c = 0 \<Longrightarrow> (y - b) mod c = y mod c" for y b c :: int
  by (metis diff_zero mod_diff_right_eq)

lemma DayFromYear_next: "DayFromYear (y + 1) = DayFromYear y + (if leap y then 366 else 365)"
proof -
  have a: "(y + 1 - 1969) div 4 = (y - 1969) div 4 + (if y mod 4 = 0 then 1 else 0)"
    using div_plus_1 [of 4 "y - 1969"] mod_shift [of 1968 4 y] by simp
  have b: "(y + 1 - 1901) div 100 = (y - 1901) div 100 + (if y mod 100 = 0 then 1 else 0)"
    using div_plus_1 [of 100 "y - 1901"] mod_shift [of 1900 100 y] by simp
  have c: "(y + 1 - 1601) div 400 = (y - 1601) div 400 + (if y mod 400 = 0 then 1 else 0)"
    using div_plus_1 [of 400 "y - 1601"] mod_shift [of 1600 400 y] by simp
  have d: "y mod 400 = 0 \<Longrightarrow> y mod 100 = 0" "y mod 100 = 0 \<Longrightarrow> y mod 4 = 0"
    using mod_mod_cancel [of 100 400 y] mod_mod_cancel [of 4 100 y] by simp_all
  show ?thesis unfolding DayFromYear_def a b c leap_def using d by auto
qed

lemma DayFromYear_mono: "y \<le> z \<Longrightarrow> DayFromYear y \<le> DayFromYear z"
proof (induction "nat (z - y)" arbitrary: z)
  case (Suc n)
  then have "DayFromYear y \<le> DayFromYear (z - 1)" by (intro Suc.hyps) auto
  then show ?case using DayFromYear_next [of "z - 1"] by (auto split: if_splits)
qed auto

lemma year_bounds: "DayFromYear (getUTCFullYear t) \<le> t" "t < DayFromYear (getUTCFullYear t + 1)"
proof -
  let ?y = "1970 + 400 * t div 146097"
  have q: "146097 * (400 * t div 146097) \<le> 400 * t" "400 * t < 146097 * (400 * t div 146097) + 146097"
    using div_bounds [of 146097 "400 * t"] by simp_all
  have lo: "DayFromYear (?y - 2) \<le> t" using DayFromYear_bounds(1) [of "?y - 2"] q by simp
  have hi: "t < DayFromYear (?y + 3)" using DayFromYear_bounds(2) [of "?y + 3"] q by simp
  show "DayFromYear (getUTCFullYear t) \<le> t" "t < DayFromYear (getUTCFullYear t + 1)"
    using lo hi by (auto simp: getUTCFullYear_def Let_def algebra_simps)
qed

lemma year_unique: "DayFromYear y \<le> t \<Longrightarrow> t < DayFromYear (y + 1) \<Longrightarrow> getUTCFullYear t = y"
  using year_bounds [of t] DayFromYear_mono [of "y + 1" "getUTCFullYear t"]
    DayFromYear_mono [of "getUTCFullYear t + 1" y] by linarith

definition days_in_month :: "int \<Rightarrow> int \<Rightarrow> int" where
  "days_in_month y m =
     (if m = 2 then (if leap y then 29 else 28) else if m \<in> {4, 6, 9, 11} then 30 else 31)"

lemma month_cases: "0 \<le> m \<Longrightarrow> m \<le> 11 \<Longrightarrow>
  m = 0 \<or> m = 1 \<or> m = 2 \<or> m = 3 \<or> m = 4 \<or> m = 5 \<or> m = 6 \<or> m = 7 \<or> m = 8 \<or> m = 9 \<or> m = 10 \<or> m = (11 :: int)"
  by presburger

lemma month_starts_simps:
  "month_starts l ! 0 = 0" "month_starts l ! Suc 0 = 31" "month_starts l ! 2 = (if l then 60 else 59)"
  "month_starts l ! 3 = (if l then 91 else 90)" "month_starts l ! 4 = (if l then 121 else 120)"
  "month_starts l ! 5 = (if l then 152 else 151)" "month_starts l ! 6 = (if l then 182 else 181)"
  "month_starts l ! 7 = (if l then 213 else 212)" "month_starts l ! 8 = (if l then 244 else 243)"
  "month_starts l ! 9 = (if l then 274 else 273)" "month_starts l ! 10 = (if l then 305 else 304)"
  "month_starts l ! 11 = (if l then 335 else 334)" "month_starts l ! 12 = (if l then 366 else 365)"
  by (simp_all add: month_starts_def)

lemma month_start_bounds: "0 \<le> m \<Longrightarrow> m \<le> 11 \<Longrightarrow>
  month_starts (leap y) ! nat (m + 1) = month_starts (leap y) ! nat m + days_in_month y (m + 1)
  \<and> 0 \<le> month_starts (leap y) ! nat m \<and> month_starts (leap y) ! nat (m + 1) \<le> (if leap y then 366 else 365)"
  by (cases "leap y"; drule (1) month_cases; elim disjE; simp add: month_starts_simps days_in_month_def)

text \<open>The number of month starts up to a day of the year finds its month.\<close>

lemma filter_starts:
  assumes "0 \<le> m" "m \<le> 11" "month_starts l ! nat m \<le> r" "r < month_starts l ! nat (m + 1)"
  shows "length (filter (\<lambda>s. s \<le> r) (month_starts l)) = nat m + 1"
  using month_cases [OF assms(1,2)] assms(3,4)
  by (cases l; elim disjE; simp add: month_starts_simps; simp add: month_starts_def)

lemma month_exists:
  assumes "0 \<le> r" "r < (if l then 366 else 365)"
  shows "\<exists>m. 0 \<le> m \<and> m \<le> 11 \<and> month_starts l ! nat m \<le> r \<and> r < month_starts l ! nat (m + 1)"
proof -
  have "\<exists>k \<le> 11. month_starts l ! k \<le> r \<and> r < month_starts l ! Suc k"
  proof (rule ccontr)
    assume "\<not> ?thesis"
    then have step: "k \<le> 11 \<Longrightarrow> month_starts l ! k \<le> r \<Longrightarrow> month_starts l ! Suc k \<le> r" for k by force
    have "k \<le> 12 \<Longrightarrow> month_starts l ! k \<le> r" for k
      by (induction k) (use assms step in \<open>auto simp: month_starts_simps\<close>)
    from this [of 12] show False using assms by (simp add: month_starts_simps)
  qed
  then obtain k where "k \<le> 11" "month_starts l ! k \<le> r" "r < month_starts l ! Suc k" by blast
  then show ?thesis by (intro exI [of _ "int k"]) (simp add: nat_add_distrib)
qed

lemma getters_MakeDay:
  assumes "0 \<le> m" "m \<le> 11" "1 \<le> d" "d \<le> days_in_month y (m + 1)"
  shows "getUTCFullYear (MakeDay y m d) = y \<and> getUTCMonth (MakeDay y m d) = m \<and> getUTCDate (MakeDay y m d) = d"
proof -
  let ?s = "month_starts (leap y) ! nat m" and ?t = "MakeDay y m d"
  have t: "?t = DayFromYear y + ?s + d - 1" using assms by (simp add: MakeDay_def)
  note s = month_start_bounds [OF assms(1,2), of y]
  have y: "getUTCFullYear ?t = y"
    using assms s DayFromYear_next [of y] by (intro year_unique) (auto simp: t)
  then have r: "day_within_year ?t = ?s + d - 1" by (simp add: day_within_year_def t)
  have "length (filter (\<lambda>x. x \<le> ?s + d - 1) (month_starts (leap y))) = nat m + 1"
    using assms s by (intro filter_starts) auto
  then have "getUTCMonth ?t = m" using assms(1) by (simp add: getUTCMonth_def r y)
  then show ?thesis using y r by (simp add: getUTCDate_def)
qed

lemma getters_valid:
  "0 \<le> getUTCMonth t \<and> getUTCMonth t \<le> 11 \<and> 1 \<le> getUTCDate t
   \<and> getUTCDate t \<le> days_in_month (getUTCFullYear t) (getUTCMonth t + 1)"
proof -
  let ?y = "getUTCFullYear t" and ?r = "day_within_year t"
  have r: "0 \<le> ?r" "?r < (if leap ?y then 366 else 365)"
    using year_bounds [of t] DayFromYear_next [of ?y] by (auto simp: day_within_year_def)
  obtain m where m: "0 \<le> m" "m \<le> 11" "month_starts (leap ?y) ! nat m \<le> ?r" "?r < month_starts (leap ?y) ! nat (m + 1)"
    using month_exists [OF r] by blast
  then have "getUTCMonth t = m" using filter_starts [OF m] by (simp add: getUTCMonth_def)
  then show ?thesis using m month_start_bounds [OF m(1,2), of ?y] by (simp add: getUTCDate_def)
qed

section \<open>Which texts are accepted\<close>

definition calendar_date :: "nat \<Rightarrow> nat \<Rightarrow> nat \<Rightarrow> bool" where
  "calendar_date y m d \<longleftrightarrow> 1 \<le> m \<and> m \<le> 12 \<and> 1 \<le> d \<and> int d \<le> days_in_month (int y) (int m)"

lemma Date_UTC_getters:
  "getUTCFullYear (Date_UTC (int y) (int m - 1) (int d)) = int y
   \<and> getUTCMonth (Date_UTC (int y) (int m - 1) (int d)) = int m - 1
   \<and> getUTCDate (Date_UTC (int y) (int m - 1) (int d)) = int d
   \<longleftrightarrow> 100 \<le> y \<and> calendar_date y m d" (is "?g \<longleftrightarrow> _") if "m < 100" "d < 100"
proof
  assume g: ?g
  let ?t = "Date_UTC (int y) (int m - 1) (int d)"
  have c: "calendar_date y m d" using g getters_valid [of ?t] by (auto simp: calendar_date_def)
  moreover have "100 \<le> y"
  proof (rule ccontr)
    assume "\<not> 100 \<le> y"
    then have "?t = DayFromYear (1900 + int y) + month_starts (leap (1900 + int y)) ! nat (int m - 1) + int d - 1"
      using c by (simp add: Date_UTC_def MakeDay_def calendar_date_def Let_def)
    then have "DayFromYear (1900 + int y) \<le> ?t"
      using c month_start_bounds [of "int m - 1" "1900 + int y"] by (auto simp: calendar_date_def)
    then have "1900 + int y \<le> getUTCFullYear ?t"
      using year_bounds(2) [of ?t] DayFromYear_mono [of "getUTCFullYear ?t + 1" "1900 + int y"] by linarith
    then show False using g by simp
  qed
  ultimately show "100 \<le> y \<and> calendar_date y m d" by simp
next
  assume "100 \<le> y \<and> calendar_date y m d"
  then show ?g using getters_MakeDay [of "int m - 1" "int d" "int y"]
    by (simp add: Date_UTC_def calendar_date_def)
qed

lemma dateITA_parsed: "parse_re (bq dateITA_pattern) = Some (ESeq EBol
  (ESeq (mk_rep 1 2 (ECls False [CDigit])) (ESeq (lit CHR ''/'') (ESeq (mk_rep 1 2 (ECls False [CDigit]))
    (ESeq (lit CHR ''/'') (ESeq (rep 4 (ECls False [CDigit])) EEol))))))"
  by code_simp

lemma rx_rep: "to_rx ci (rep (Suc n) r) = (if n = 0 then to_rx ci r else RSeq (to_rx ci r) (to_rx ci (rep n r)))"
  by simp

lemma digits_12: "u \<in> lang (to_rx False (mk_rep 1 2 (ECls False [CDigit]))) \<longleftrightarrow>
  list_all is_digit u \<and> (length u = 1 \<or> length u = 2)"
proof -
  have c: "cls_match False False [CDigit] = is_digit" by (auto simp: cls_match_def fun_eq_iff)
  have "mk_rep 1 2 (ECls False [CDigit]) = ESeq (ECls False [CDigit]) (EAlt EEps (ECls False [CDigit]))"
    by (simp add: mk_rep_def)
  note m = this
  consider "u = []" | a where "u = [a]" | a b where "u = [a, b]" | a b c v where "u = a # b # c # v"
    by (metis (no_types) list.exhaust)
  then show ?thesis unfolding m by cases (simp_all add: c rx_lang del: lang.simps)
qed

lemma digits_4: "u \<in> lang (to_rx False (rep 4 (ECls False [CDigit]))) \<longleftrightarrow> list_all is_digit u \<and> length u = 4"
proof -
  have c: "cls_match False False [CDigit] = is_digit" by (auto simp: cls_match_def fun_eq_iff)
  have "to_rx False (rep 4 (ECls False [CDigit])) =
      RSeq RDigit (RSeq RDigit (RSeq RDigit RDigit))"
    by (simp add: numeral_eq_Suc c)
  note m = this
  consider "u = []" | a where "u = [a]" | a b where "u = [a, b]" | a b c where "u = [a, b, c]"
    | a b c d where "u = [a, b, c, d]" | a b c d e v where "u = a # b # c # d # e # v"
    by (metis (no_types) list.exhaust)
  then show ?thesis unfolding m by cases (simp_all add: rx_lang del: lang.simps)
qed

lemma in_RSeq_slash: "s \<in> lang (RSeq (to_rx False (lit CHR ''/'')) t) \<longleftrightarrow> (\<exists>v. s = CHR ''/'' # v \<and> v \<in> lang t)"
proof -
  have "cls_match False False [CRange (code_unit CHR ''/'') (code_unit CHR ''/'')] c \<longleftrightarrow> c = CHR ''/''" for c
    using code_unit_eq_iff [of c "CHR ''/''"] by (auto simp: cls_match_def)
  then show ?thesis by (cases s) (simp_all add: lit_def in_RSeq_RCls del: lang.simps)
qed

lemma dateITA_format: "tests False dateITA_pattern s \<longleftrightarrow> (\<exists>g m y. s = g @ CHR ''/'' # m @ CHR ''/'' # y
   \<and> list_all is_digit (g @ m @ y) \<and> (length g = 1 \<or> length g = 2) \<and> (length m = 1 \<or> length m = 2) \<and> length y = 4)"
proof -
  have "plain (mk_rep 1 2 (ECls False [CDigit]))" "plain (rep 4 (ECls False [CDigit]))"
    by (simp_all add: mk_rep_def numeral_eq_Suc)
  then have e: "ends_eol (ESeq (mk_rep 1 2 (ECls False [CDigit])) (ESeq (lit CHR ''/'')
      (ESeq (mk_rep 1 2 (ECls False [CDigit])) (ESeq (lit CHR ''/'') (ESeq (rep 4 (ECls False [CDigit])) EEol)))))"
    by (simp add: lit_def)
  have seq: "u \<in> lang (RSeq (to_rx False (mk_rep 1 2 (ECls False [CDigit]))) (RSeq (to_rx False (lit CHR ''/'')) t)) \<longleftrightarrow>
      (\<exists>a v. list_all is_digit a \<and> (length a = 1 \<or> length a = 2) \<and> u = a @ CHR ''/'' # v \<and> v \<in> lang t)" for u t
    unfolding in_RSeq [of u "to_rx False (mk_rep 1 2 (ECls False [CDigit]))"] in_RSeq_slash digits_12 by blast
  have last: "u \<in> lang (RSeq (to_rx False (rep 4 (ECls False [CDigit]))) ROne) \<longleftrightarrow> list_all is_digit u \<and> length u = 4" for u
    unfolding in_RSeq [of u] in_ROne digits_4 by simp
  show ?thesis
    unfolding tests_parsed [OF dateITA_parsed] re_test_anchored [OF e] strip_eol.simps to_rx.simps(1,3) seq last
    by (simp only: list_all_append) blast
qed

text \<open>C14: The Italian date method accepts exactly the texts day/month/year with one or two, one or two and
  four digits that name a day of the calendar in the year 100 or later: earlier years are moved to
  the twentieth century and then differ from what was written.\<close>

theorem dateITA_iff_calendar:
  "dateITA_check s \<longleftrightarrow> (\<exists>g m y. s = g @ CHR ''/'' # m @ CHR ''/'' # y \<and> list_all is_digit (g @ m @ y)
     \<and> (length g = 1 \<or> length g = 2) \<and> (length m = 1 \<or> length m = 2) \<and> length y = 4
     \<and> 100 \<le> dec_val y \<and> calendar_date (dec_val y) (dec_val m) (dec_val g))"
proof -
  have parts: "split_on (\<lambda>c. c = CHR ''/'') (g @ CHR ''/'' # m @ CHR ''/'' # y) = [g, m, y]"
    if "list_all is_digit (g @ m @ y)" for g m y
  proof -
    have "list_all (\<lambda>c. c \<noteq> CHR ''/'') u" if "list_all is_digit u" for u
      using that by (auto simp: list_all_iff is_digit_def in_range_def code_unit_def)
    then show ?thesis using that by (simp add: split_on_append split_on_no)
  qed
  have val: "int_of_num (parseInt10 u) = int (dec_val u)" if "list_all is_digit u" "u \<noteq> []" for u
    using parseInt10_digits [OF that] by (simp add: int_of_num_def num_def trunc_def)
  have bound: "dec_val u < 100" if u: "list_all is_digit u" "length u = 1 \<or> length u = 2" for u
  proof -
    consider a where "u = [a]" | a b where "u = [a, b]"
      using u(2) by (cases u rule: list.exhaust; cases "tl u") auto
    then show ?thesis
    proof cases
      case 1
      then show ?thesis using u(1) digit_val_less [of a] by simp
    next
      case 2
      then show ?thesis using u(1) digit_val_less [of a] digit_val_less [of b] dec_val_snoc [of "[a]" b] by simp
    qed
  qed
  have check: "dateITA_check (g @ CHR ''/'' # m @ CHR ''/'' # y) \<longleftrightarrow>
      100 \<le> dec_val y \<and> calendar_date (dec_val y) (dec_val m) (dec_val g)"
    if f: "list_all is_digit (g @ m @ y)" "length g = 1 \<or> length g = 2" "length m = 1 \<or> length m = 2" "length y = 4" for g m y
  proof -
    have "g \<noteq> []" "m \<noteq> []" "y \<noteq> []" using f by auto
    moreover have "tests False dateITA_pattern (g @ CHR ''/'' # m @ CHR ''/'' # y)" using f dateITA_format by blast
    ultimately show ?thesis
      using f Date_UTC_getters [of "dec_val m" "dec_val g" "dec_val y"] bound [of m] bound [of g]
      by (simp add: dateITA_check_def parts val Let_def)
  qed
  show ?thesis
  proof
    assume d: "dateITA_check s"
    then have "tests False dateITA_pattern s" by (simp add: dateITA_check_def split: if_splits)
    then show "\<exists>g m y. s = g @ CHR ''/'' # m @ CHR ''/'' # y \<and> list_all is_digit (g @ m @ y)
     \<and> (length g = 1 \<or> length g = 2) \<and> (length m = 1 \<or> length m = 2) \<and> length y = 4
     \<and> 100 \<le> dec_val y \<and> calendar_date (dec_val y) (dec_val m) (dec_val g)"
      unfolding dateITA_format using check d by blast
  qed (use check in blast)
qed

end
