(* ===== verification/ValidateRules.thy ===== *)
theory ValidateRules
  imports ValidateBase JsRegExp
begin

text \<open>
  Where the rules of a form element come from in jquery.validate.js: its classes, its attributes,
  its data attributes and the settings, the normalisation of what is found there, the order in
  which the rules are finally enumerated, the commands that add and remove rules, the registration
  of methods and the formatting of messages.
\<close>

section \<open>Conversions\<close>

definition decimals_of :: "rat \<Rightarrow> string" where
  \<comment> \<open>at most twenty digits after the decimal point\<close>
  "decimals_of r =
     (let go = (\<lambda>p. let x = fst p * 10 in (x - of_int (trunc x), snd p @ [digit_char (nat (trunc x))]));
          steps = fold (\<lambda>_ p. if fst p = 0 then p else go p) [0..<20] (r, [])
      in snd steps)"

definition js_num_string :: "jsnum \<Rightarrow> string" where
  "js_num_string n =
     (case n of
        NaN \<Rightarrow> ''NaN''
      | Infty b \<Rightarrow> (if b then ''Infinity'' else ''-Infinity'')
      | Fin r \<Rightarrow>
          (let a = \<bar>r\<bar>; i = nat_str (nat (trunc a)); f = a - of_int (trunc a)
           in (if r < 0 then ''-'' else []) @ i @ (if f = 0 then [] else ''.'' @ decimals_of f)))"

fun js_String :: "jsval \<Rightarrow> string" where
  "js_String JUndef = ''undefined''"
| "js_String JNull = ''null''"
| "js_String (JBool b) = (if b then ''true'' else ''false'')"
| "js_String (JNum n) = js_num_string n"
| "js_String (JStr s) = s"
| "js_String (JArr xs) =
     join_with '','' (map (\<lambda>x. if x = JUndef \<or> x = JNull then [] else js_String x) xs)"
| "js_String _ = ''[object Object]''"

fun js_Number :: "jsval \<Rightarrow> jsnum" where
  "js_Number JUndef = NaN"
| "js_Number JNull = Fin 0"
| "js_Number (JBool b) = (if b then Fin 1 else Fin 0)"
| "js_Number (JNum n) = n"
| "js_Number (JStr s) = to_number s"
| "js_Number (JArr xs) = to_number (js_String (JArr xs))"
| "js_Number _ = NaN"

fun prop_of :: "jsval \<Rightarrow> string \<Rightarrow> jserr + jsval" where
  \<comment> \<open>\<open>v.name\<close> for the property names used here, which only plain objects have\<close>
  "prop_of JUndef k = Inl TypeError"
| "prop_of JNull k = Inl TypeError"
| "prop_of (JObj kvs) k = Inr (js_prop kvs k)"
| "prop_of _ k = Inr JUndef"

definition capitalized :: "string \<Rightarrow> string" where
  \<comment> \<open>\<open>m.charAt(0).toUpperCase() + m.substring(1).toLowerCase()\<close>\<close>
  "capitalized m = toUpperCase (take 1 m) @ toLowerCase (drop 1 m)"

section \<open>Sources of rules\<close>

definition normalizeRule :: "jsval \<Rightarrow> jsval" where
  "normalizeRule data =
     (case data of
        JStr s \<Rightarrow> JObj (fold (\<lambda>w rs. obj_set w (JBool True) rs) (split_on is_space s) [])
      | _ \<Rightarrow> data)"

definition classRuleSettings :: "jsval obj obj" where
  "classRuleSettings =
     [(''required'', [(''required'', JBool True)]), (''email'', [(''email'', JBool True)]),
      (''url'', [(''url'', JBool True)]), (''date'', [(''date'', JBool True)]),
      (''dateISO'', [(''dateISO'', JBool True)]), (''number'', [(''number'', JBool True)]),
      (''digits'', [(''digits'', JBool True)]), (''creditcard'', [(''creditcard'', JBool True)])]"

datatype class_arg = ClassName string "jsval obj" | ClassMap "jsval obj obj"

definition addClassRules :: "class_arg \<Rightarrow> jsval obj obj \<Rightarrow> jsval obj obj" where
  "addClassRules a crs =
     (case a of ClassName n rules \<Rightarrow> obj_set n rules crs | ClassMap m \<Rightarrow> obj_extend crs m)"

definition classRules :: "jsval obj obj \<Rightarrow> elt \<Rightarrow> jsval obj" where
  "classRules crs e =
     (case obj_get (e_attrs e) ''class'' of
        None \<Rightarrow> []
      | Some classes \<Rightarrow>
          if classes = [] then []
          else fold (\<lambda>c rules. case map_of crs c of None \<Rightarrow> rules | Some rs \<Rightarrow> js_extend rules rs)
                 (split_on (\<lambda>c. c = CHR '' '') classes) [])"

definition normalizeAttributeRule :: "jsval obj \<Rightarrow> string option \<Rightarrow> string \<Rightarrow> jsval \<Rightarrow> jsval obj" where
  "normalizeAttributeRule rules type method value =
     (let value1 =
        (if tests False ''min|max|step'' method
            \<and> (case type of None \<Rightarrow> True | Some t \<Rightarrow> tests False ''number|range|text'' t)
         then (if js_Number value = NaN then JUndef else JNum (js_Number value)) else value)
      in if truthy value1 \<or> value1 = JNum (Fin 0) then obj_set method value1 rules
         else if type = Some method \<and> type \<noteq> Some ''range'' then obj_set method (JBool True) rules
         else rules)"

definition attribute_value :: "elt \<Rightarrow> string \<Rightarrow> jsval" where
  "attribute_value e method =
     (if method = ''required'' then JBool (obj_has method (e_attrs e))
      else (case obj_get (e_attrs e) method of None \<Rightarrow> JUndef | Some s \<Rightarrow> JStr s))"

definition attributeRules :: "string list \<Rightarrow> elt \<Rightarrow> jsval obj" where
  \<comment> \<open>the first argument is the enumeration of the registered methods\<close>
  "attributeRules methods e =
     (let type = obj_get (e_attrs e) ''type'';
          rules = fold (\<lambda>m rs. normalizeAttributeRule rs type m (attribute_value e m)) methods []
      in if truthy (js_prop rules ''maxlength'')
            \<and> tests False ''-1|2147483647|524288'' (js_String (js_prop rules ''maxlength''))
         then obj_del ''maxlength'' rules else rules)"

definition dataRules :: "string list \<Rightarrow> elt \<Rightarrow> jsval obj" where
  "dataRules methods e =
     fold (\<lambda>m rs. normalizeAttributeRule rs (obj_get (e_attrs e) ''type'') m
             (js_prop (e_data e) (''rule'' @ capitalized m))) methods []"

definition staticRules :: "jsval obj \<Rightarrow> elt \<Rightarrow> jsval obj" where
  \<comment> \<open>the first argument is \<open>settings.rules\<close> of the validator of the form\<close>
  "staticRules srules e =
     (case normalizeRule (js_prop srules (e_name e)) of JObj kvs \<Rightarrow> kvs | _ \<Rightarrow> [])"

section \<open>Normalisation\<close>

definition rule_depends :: "vctx \<Rightarrow> elt \<Rightarrow> jsval \<Rightarrow> bool" where
  "rule_depends v e dep =
     (case dep of
        JStr sel \<Rightarrow> 0 < c_select v sel
      | JFun f \<Rightarrow> truthy (c_call v f e)
      | _ \<Rightarrow> True)"

definition dependency_one :: "vctx \<Rightarrow> elt \<Rightarrow> jsval \<Rightarrow> jserr + (jsval option \<times> bool)" where
  \<comment> \<open>what becomes of one rule: its value, or None when it is deleted; the flag says that the error
    state of the element was reset\<close>
  "dependency_one v e val =
     (if val = JBool False then Inr (None, False)
      else case prop_of val ''param'' of
        Inl x \<Rightarrow> Inl x
      | Inr param \<Rightarrow>
          (case prop_of val ''depends'' of
             Inl x \<Rightarrow> Inl x
           | Inr dep \<Rightarrow>
               if truthy param \<or> truthy dep then
                 (if rule_depends v e dep then Inr (Some (if param \<noteq> JUndef then param else JBool True), False)
                  else Inr (None, True))
               else Inr (Some val, False)))"

fun dependency_pass :: "vctx \<Rightarrow> elt \<Rightarrow> jsval obj \<Rightarrow> jserr + (jsval obj \<times> bool)" where
  "dependency_pass v e [] = Inr ([], False)"
| "dependency_pass v e (p # rest) =
     (case dependency_one v e (snd p) of
        Inl x \<Rightarrow> Inl x
      | Inr (val, b) \<Rightarrow>
          (case dependency_pass v e rest of
             Inl x \<Rightarrow> Inl x
           | Inr (rs, b') \<Rightarrow> Inr ((case val of None \<Rightarrow> rs | Some w \<Rightarrow> (fst p, w) # rs), b \<or> b')))"

definition eval_params :: "vctx \<Rightarrow> elt \<Rightarrow> jsval obj \<Rightarrow> jsval obj" where
  "eval_params v e rules =
     map (\<lambda>p. (fst p, case snd p of
                 JFun f \<Rightarrow> if fst p \<noteq> ''normalizer'' then c_call v f e else JFun f
               | x \<Rightarrow> x)) rules"

definition clean_length :: "string \<Rightarrow> jsval obj \<Rightarrow> jsval obj" where
  "clean_length k rules =
     (if truthy (js_prop rules k) then obj_set k (JNum (js_Number (js_prop rules k))) rules else rules)"

definition split_parts :: "string \<Rightarrow> string list" where
  \<comment> \<open>\<open>s.split(/[\s,]+/)\<close>: runs of separators count once\<close>
  "split_parts s =
     (let parts = split_on (\<lambda>c. is_space c \<or> c = CHR '','') s
      in take 1 parts @ filter (\<lambda>w. w \<noteq> []) (butlast (tl parts))
         @ (if tl parts = [] then [] else [last parts]))"

definition nth_arg :: "jsval list \<Rightarrow> nat \<Rightarrow> jsval" where
  "nth_arg xs i = (if i < length xs then xs ! i else JUndef)"

definition clean_range :: "string \<Rightarrow> jsval obj \<Rightarrow> jsval obj" where
  "clean_range k rules =
     (let val = js_prop rules k in
      if truthy val then
        (case val of
           JArr xs \<Rightarrow> obj_set k (JArr [JNum (js_Number (nth_arg xs 0)), JNum (js_Number (nth_arg xs 1))]) rules
         | JStr s \<Rightarrow>
             (let parts = map JStr (split_parts (filter (\<lambda>c. c \<noteq> CHR ''['' \<and> c \<noteq> CHR '']'') s))
              in obj_set k (JArr [JNum (js_Number (nth_arg parts 0)), JNum (js_Number (nth_arg parts 1))]) rules)
         | _ \<Rightarrow> rules)
      else rules)"

definition nullish :: "jsval \<Rightarrow> bool" where
  "nullish x \<longleftrightarrow> x = JUndef \<or> x = JNull"

definition create_range :: "string \<Rightarrow> string \<Rightarrow> string \<Rightarrow> jsval obj \<Rightarrow> jsval obj" where
  "create_range lo hi target rules =
     (if \<not> nullish (js_prop rules lo) \<and> \<not> nullish (js_prop rules hi)
      then obj_del hi (obj_del lo (obj_set target (JArr [js_prop rules lo, js_prop rules hi]) rules))
      else rules)"

definition normalizeRules :: "vctx \<Rightarrow> bool \<Rightarrow> jsval obj \<Rightarrow> elt \<Rightarrow> jserr + (jsval obj \<times> bool)" where
  "normalizeRules v autoCreateRanges rules e =
     (case dependency_pass v e rules of
        Inl x \<Rightarrow> Inl x
      | Inr (rs, b) \<Rightarrow>
          (let r1 = eval_params v e rs;
               r2 = clean_length ''maxlength'' (clean_length ''minlength'' r1);
               r3 = clean_range ''range'' (clean_range ''rangelength'' r2);
               r4 = (if autoCreateRanges
                     then create_range ''minlength'' ''maxlength'' ''rangelength'' (create_range ''min'' ''max'' ''range'' r3)
                     else r3)
           in Inr (r4, b)))"

definition required_first :: "jsval obj \<Rightarrow> jsval obj" where
  "required_first data =
     (if truthy (js_prop data ''required'')
      then js_extend [(''required'', js_prop data ''required'')] (obj_del ''required'' data) else data)"

definition remote_last :: "jsval obj \<Rightarrow> jsval obj" where
  "remote_last data =
     (if truthy (js_prop data ''remote'')
      then js_extend (obj_del ''remote'' data) [(''remote'', js_prop data ''remote'')] else data)"

record vlib =
  l_methods :: "string list"
  l_classRules :: "jsval obj obj"
  l_autoCreateRanges :: bool
  l_messages :: "jsval obj"

definition rules :: "vlib \<Rightarrow> vctx \<Rightarrow> jsval obj \<Rightarrow> elt \<Rightarrow> jserr + (jsval obj \<times> bool)" where
  "rules L v srules e =
     (case normalizeRules v (l_autoCreateRanges L)
             (js_extend (js_extend (js_extend (js_extend [] (classRules (l_classRules L) e))
                (attributeRules (l_methods L) e)) (dataRules (l_methods L) e)) (staticRules srules e)) e of
        Inl x \<Rightarrow> Inl x
      | Inr (data, b) \<Rightarrow> Inr (remote_last (required_first data), b))"

section \<open>The commands of rules\<close>

definition rules_add :: "jsval obj \<Rightarrow> jsval obj \<Rightarrow> elt \<Rightarrow> jsval \<Rightarrow> jsval obj \<times> jsval obj" where
  \<comment> \<open>\<open>settings.rules\<close> and \<open>settings.messages\<close> after \<open>rules("add", argument)\<close>\<close>
  "rules_add srules messages e argument =
     (let arg = (case normalizeRule argument of JObj kvs \<Rightarrow> kvs | _ \<Rightarrow> []);
          existing = obj_del ''messages'' (js_extend (staticRules srules e) arg);
          given = (case argument of JObj kvs \<Rightarrow> js_prop kvs ''messages'' | _ \<Rightarrow> JUndef);
          old = (case js_prop messages (e_name e) of JObj kvs \<Rightarrow> kvs | _ \<Rightarrow> [])
      in (obj_set (e_name e) (JObj existing) srules,
          if truthy given
          then obj_set (e_name e) (JObj (js_extend old (case given of JObj kvs \<Rightarrow> kvs | _ \<Rightarrow> []))) messages
          else messages))"

definition rules_remove :: "jsval obj \<Rightarrow> elt \<Rightarrow> string option \<Rightarrow> jsval obj \<times> jsval obj" where
  \<comment> \<open>\<open>settings.rules\<close> after \<open>rules("remove", argument)\<close>, and the rules returned; the object in the
    settings is the one the methods are deleted from, unless the settings hold a string\<close>
  "rules_remove srules e argument =
     (let existing = staticRules srules e in
      case argument of
        None \<Rightarrow> (obj_del (e_name e) srules, existing)
      | Some arg \<Rightarrow>
          if arg = [] then (obj_del (e_name e) srules, existing)
          else (let methods = split_on is_space arg;
                    filtered = fold (\<lambda>m fe. (obj_set m (js_prop (snd fe) m) (fst fe), obj_del m (snd fe)))
                                 methods ([], existing)
                in (case js_prop srules (e_name e) of
                      JObj _ \<Rightarrow> obj_set (e_name e) (JObj (snd filtered)) srules
                    | _ \<Rightarrow> srules,
                    fst filtered)))"

definition addMethod :: "string \<Rightarrow> nat \<Rightarrow> jsval \<Rightarrow> vlib \<Rightarrow> vlib" where
  \<comment> \<open>name, number of formal parameters of the method, message\<close>
  "addMethod name arity message L =
     (let L1 = L\<lparr>l_methods := (if List.member (l_methods L) name then l_methods L else l_methods L @ [name]),
                 l_messages := obj_set name (if message \<noteq> JUndef then message else js_prop (l_messages L) name)
                                 (l_messages L)\<rparr>
      in if arity < 3
         then L1\<lparr>l_classRules := addClassRules (ClassName name
                (case normalizeRule (JStr name) of JObj kvs \<Rightarrow> kvs | _ \<Rightarrow> [])) (l_classRules L1)\<rparr>
         else L1)"

section \<open>Message formatting\<close>

function replace_all :: "string \<Rightarrow> string \<Rightarrow> string \<Rightarrow> string" where
  \<comment> \<open>every occurrence of a nonempty pattern, from the left\<close>
  "replace_all pat by_text [] = []"
| "replace_all pat by_text (c # s) =
     (if pat \<noteq> [] \<and> take (length pat) (c # s) = pat
      then by_text @ replace_all pat by_text (drop (length pat) (c # s))
      else c # replace_all pat by_text s)"
  by pat_completeness auto

termination by (relation "measure (\<lambda>(_, _, s). length s)") (auto simp: neq_Nil_conv)

definition placeholder :: "nat \<Rightarrow> string" where
  "placeholder i = ''{'' @ nat_str i @ ''}''"

fun format_from :: "nat \<Rightarrow> string \<Rightarrow> string list \<Rightarrow> string" where
  "format_from i source [] = source"
| "format_from i source (n # ns) = format_from (Suc i) (replace_all (placeholder i) n source) ns"

definition format :: "string \<Rightarrow> jsval list \<Rightarrow> string" where
  \<comment> \<open>\<open>$.validator.format(source, p1, .., pn)\<close>\<close>
  "format source params =
     (case params of
        [] \<Rightarrow> source
      | JUndef # _ \<Rightarrow> source
      | [JArr xs] \<Rightarrow> format_from 0 source (map js_String xs)
      | JArr xs # _ \<Rightarrow> format_from 0 source (map js_String xs)
      | ps \<Rightarrow> format_from 0 source (map js_String ps))"

section \<open>Laws\<close>

lemma obj_wf_fold: "(\<And>x rs. obj_wf rs \<Longrightarrow> obj_wf (f x rs)) \<Longrightarrow> obj_wf rs \<Longrightarrow> obj_wf (fold f xs rs)"
  by (induction xs arbitrary: rs) auto

lemma obj_wf_js_extend: "obj_wf t \<Longrightarrow> obj_wf (js_extend t s)"
  by (simp add: js_extend_def obj_wf_extend)

lemma obj_wf_Nil [simp]: "obj_wf []"
  by (simp add: obj_wf_def)

lemma dependency_pass_keys: "dependency_pass v e rs = Inr (rs', b) \<Longrightarrow> set (map fst rs') \<subseteq> set (map fst rs) \<and> (obj_wf rs \<longrightarrow> obj_wf rs')"
proof (induction rs arbitrary: rs' b)
  case (Cons p rs)
  from Cons.prems obtain val b1 rs1 b2 where o: "dependency_one v e (snd p) = Inr (val, b1)"
      and d: "dependency_pass v e rs = Inr (rs1, b2)"
      and rs': "rs' = (case val of None \<Rightarrow> rs1 | Some w \<Rightarrow> (fst p, w) # rs1)"
    by (auto split: sum.splits prod.splits)
  from Cons.IH [OF d] show ?case unfolding rs' by (cases val) (auto simp: obj_wf_def)
qed simp

lemma obj_wf_eval: "obj_wf rs \<Longrightarrow> obj_wf (eval_params v e rs)"
  by (simp add: obj_wf_def eval_params_def comp_def)

lemma obj_wf_clean: "obj_wf rs \<Longrightarrow> obj_wf (clean_length k rs)" "obj_wf rs \<Longrightarrow> obj_wf (clean_range k rs)"
    "obj_wf rs \<Longrightarrow> obj_wf (create_range a b c rs)"
  by (auto simp: clean_length_def clean_range_def create_range_def Let_def obj_wf_set obj_wf_del split: jsval.splits)

lemma obj_wf_normalizeRules: "obj_wf rs \<Longrightarrow> normalizeRules v a rs e = Inr (rs', b) \<Longrightarrow> obj_wf rs'"
  by (auto simp: normalizeRules_def Let_def obj_wf_clean obj_wf_eval dest: dependency_pass_keys split: sum.splits)

lemma obj_wf_rules_source: "obj_wf (js_extend (js_extend (js_extend (js_extend [] a) b) c) d)"
  by (simp add: obj_wf_js_extend)

lemma hd_obj_extend: "t \<noteq> [] \<Longrightarrow> obj_extend t s \<noteq> [] \<and> fst (hd (obj_extend t s)) = fst (hd t)"
proof (induction s arbitrary: t)
  case (Cons p s)
  then have "obj_set (fst p) (snd p) t \<noteq> []" "fst (hd (obj_set (fst p) (snd p) t)) = fst (hd t)"
    by (cases t; simp)+
  then show ?case using Cons.IH [of "obj_set (fst p) (snd p) t"] by simp
qed simp

lemma obj_set_new: "map_of t k = None \<Longrightarrow> obj_set k v t = t @ [(k, v)]"
  by (induction t) (auto split: if_splits)

lemma obj_del_hd: "t \<noteq> [] \<Longrightarrow> fst (hd t) \<noteq> k \<Longrightarrow> obj_del k t \<noteq> [] \<and> hd (obj_del k t) = hd t"
  by (cases t) (auto simp: obj_del_def)

lemma truthy_not_undef: "truthy x \<Longrightarrow> x \<noteq> JUndef"
  by auto

lemma remote_last_eq: "truthy (js_prop data ''remote'') \<Longrightarrow>
  remote_last data = obj_del ''remote'' data @ [(''remote'', js_prop data ''remote'')]"
  by (auto simp: remote_last_def js_extend_def defined_entries_def obj_set_new)

text \<open>The rules of an element are enumerated with required first and remote last, whatever source
  they come from, and no rule occurs twice.\<close>

theorem rules_order:
  assumes "rules L v srules e = Inr (data, b)"
  shows "distinct (map fst data)
    \<and> (truthy (js_prop data ''required'') \<longrightarrow> fst (hd data) = ''required'')
    \<and> (truthy (js_prop data ''remote'') \<longrightarrow> fst (last data) = ''remote'')"
proof -
  obtain d where n: "normalizeRules v (l_autoCreateRanges L)
      (js_extend (js_extend (js_extend (js_extend [] (classRules (l_classRules L) e))
         (attributeRules (l_methods L) e)) (dataRules (l_methods L) e)) (staticRules srules e)) e = Inr (d, b)"
      and data: "data = remote_last (required_first d)"
    using assms by (auto simp: rules_def split: sum.splits)
  have d: "obj_wf d" using obj_wf_normalizeRules [OF obj_wf_rules_source n] .
  let ?r = "required_first d"
  have "obj_wf [(''required'', js_prop d ''required'')]" by (simp add: obj_wf_def)
  then have r: "obj_wf ?r" using d by (simp add: required_first_def obj_wf_js_extend)
  have wf: "obj_wf data"
    using r by (auto simp: data remote_last_def obj_wf_js_extend obj_wf_del)
  have head: "?r \<noteq> [] \<and> fst (hd ?r) = ''required''" if "truthy (js_prop ?r ''required'')"
  proof (cases "truthy (js_prop d ''required'')")
    case True
    then show ?thesis
      using hd_obj_extend [of "[(''required'', js_prop d ''required'')]"] by (simp add: required_first_def js_extend_def)
  next
    case False
    then show ?thesis using that by (simp add: required_first_def)
  qed
  show ?thesis
  proof (cases "truthy (js_prop ?r ''remote'')")
    case True
    note eq = remote_last_eq [OF True]
    have q: "js_prop data ''required'' = js_prop ?r ''required''"
      by (simp add: data eq js_prop_def map_add_Some_iff split: option.splits)
    have "fst (hd data) = ''required''" if "truthy (js_prop data ''required'')"
    proof -
      have h: "?r \<noteq> []" "fst (hd ?r) = ''required''" using head that by (simp_all add: q)
      then have "obj_del ''remote'' ?r \<noteq> [] \<and> hd (obj_del ''remote'' ?r) = hd ?r" by (intro obj_del_hd) simp_all
      then show ?thesis using h(2) by (simp add: data eq)
    qed
    moreover have "fst (last data) = ''remote''" by (simp add: data eq)
    ultimately show ?thesis using wf by (simp add: obj_wf_def)
  next
    case False
    then have "data = ?r" by (simp add: data remote_last_def)
    then show ?thesis using wf head False by (simp add: obj_wf_def)
  qed
qed

definition sample_lib :: vlib where
  "sample_lib = \<lparr>l_methods = [''required'', ''email''], l_classRules = classRuleSettings, l_autoCreateRanges = False, l_messages = []\<rparr>"

definition sample_static :: "jsval obj" where
  "sample_static = [(''f'', JObj [(''remote'', JStr ''/check''), (''email'', JBool True), (''required'', JBool True)])]"

theorem rules_order_witness:
  "let res = rules sample_lib sample_ctx sample_static (sample_field ''x'')
   in res = Inr ([(''required'', JBool True), (''email'', JBool True), (''remote'', JStr ''/check'')], False)
      \<and> fst (hd (fst (projr res))) = ''required''"
proof -
  let ?d = "[(''required'', JBool True), (''email'', JBool True), (''remote'', JStr ''/check'')]"
  have r: "rules sample_lib sample_ctx sample_static (sample_field ''x'') = Inr (?d, False)" by code_simp
  have "truthy (js_prop ?d ''required'')" by (simp add: js_prop_def)
  then have "fst (hd ?d) = ''required''" using rules_order [OF r] by blast
  with r show ?thesis by (simp add: Let_def)
qed

subsection \<open>Formatting\<close>

datatype segment = Text string | Ref nat

fun seg_source :: "segment \<Rightarrow> string" where
  "seg_source (Text t) = t"
| "seg_source (Ref i) = placeholder i"

fun seg_value :: "nat \<Rightarrow> string list \<Rightarrow> segment \<Rightarrow> string" where
  \<comment> \<open>after the parameters from index 0 up to the given one are inserted\<close>
  "seg_value k ps (Text t) = t"
| "seg_value k ps (Ref i) = (if i < k \<and> i < length ps then ps ! i else placeholder i)"

lemma replace_all_text: "CHR ''{'' \<notin> set t \<Longrightarrow> replace_all (placeholder i) r (t @ s) = t @ replace_all (placeholder i) r s"
  by (induction t) (auto simp: placeholder_def)

lemma replace_all_hit: "replace_all (placeholder i) r (placeholder i @ s) = r @ replace_all (placeholder i) r s"
  by (simp add: placeholder_def)

lemma placeholder_prefix: "take (length (placeholder i)) (placeholder j @ s) = placeholder i \<Longrightarrow> i = j"
proof -
  assume a: "take (length (placeholder i)) (placeholder j @ s) = placeholder i"
  have no: "CHR ''}'' \<notin> set (nat_str n)" for n
    using nat_str_digits [of n] by (auto simp: list_all_iff is_digit_def in_range_def code_unit_def)
  have "placeholder j @ s = placeholder i @ drop (length (placeholder i)) (placeholder j @ s)"
    using a by (metis append_take_drop_id)
  then have "nat_str j @ CHR ''}'' # s = nat_str i @ CHR ''}'' # drop (length (placeholder i)) (placeholder j @ s)"
    by (simp add: placeholder_def)
  moreover have "takeWhile (\<lambda>d. d \<noteq> CHR ''}'') (nat_str n @ CHR ''}'' # u) = nat_str n" for n u
    using no [of n] by (subst takeWhile_append2) auto
  ultimately have "nat_str j = nat_str i" by metis
  then show "i = j" by (simp add: nat_str_inject)
qed

lemma replace_all_miss:
  assumes "i \<noteq> j"
  shows "replace_all (placeholder i) r (placeholder j @ s) = placeholder j @ replace_all (placeholder i) r s"
proof -
  have "take (length (placeholder i)) (placeholder j @ s) \<noteq> placeholder i" using placeholder_prefix assms by blast
  moreover have "CHR ''{'' \<notin> set (nat_str j @ ''}'')"
    using nat_str_digits [of j] by (auto simp: list_all_iff is_digit_def in_range_def code_unit_def)
  ultimately show ?thesis
    using replace_all_text [of "nat_str j @ ''}''" i r s] by (simp add: placeholder_def)
qed

lemma replace_all_segments:
  assumes "\<forall>g \<in> set gs. \<forall>t. g = Text t \<longrightarrow> CHR ''{'' \<notin> set t" "\<forall>p \<in> set ps. CHR ''{'' \<notin> set p" "k < length ps"
  shows "replace_all (placeholder k) (ps ! k) (concat (map (seg_value k ps) gs)) = concat (map (seg_value (Suc k) ps) gs)"
  using assms(1)
proof (induction gs)
  case (Cons g gs)
  show ?case
  proof (cases g)
    case (Text t)
    then show ?thesis using Cons by (simp add: replace_all_text)
  next
    case (Ref i)
    consider "i < k" | "i = k" | "k < i" by linarith
    then show ?thesis
    proof cases
      case 1
      then have "CHR ''{'' \<notin> set (ps ! i)" using assms(2,3) by auto
      then show ?thesis using Ref Cons 1 assms(3) by (simp add: replace_all_text)
    next
      case 2
      then show ?thesis using Ref Cons assms(3) by (simp add: replace_all_hit)
    next
      case 3
      then show ?thesis using Ref Cons by (simp add: replace_all_miss)
    qed
  qed
qed simp

lemma format_from_segments:
  assumes "\<forall>g \<in> set gs. \<forall>t. g = Text t \<longrightarrow> CHR ''{'' \<notin> set t" "\<forall>p \<in> set ps. CHR ''{'' \<notin> set p"
  shows "k \<le> length ps \<Longrightarrow> format_from k (concat (map (seg_value k ps) gs)) (drop k ps) = concat (map (seg_value (length ps) ps) gs)"
proof (induction "length ps - k" arbitrary: k)
  case (Suc n)
  then have k: "k < length ps" by simp
  then have "drop k ps = ps ! k # drop (Suc k) ps" by (simp add: Cons_nth_drop_Suc)
  then show ?case using Suc.hyps(1) [of "Suc k"] Suc.hyps(2) k replace_all_segments [OF assms k] by simp
qed simp

text \<open>Formatting a message inserts the parameters in one simultaneous substitution: when neither the
  text between the placeholders nor a parameter contains an opening brace, every placeholder of a
  given parameter is replaced by it and the rest is unchanged.\<close>

theorem format_substitutes:
  assumes "\<forall>g \<in> set gs. \<forall>t. g = Text t \<longrightarrow> CHR ''{'' \<notin> set t"
    and "\<forall>p \<in> set (p0 # ps). CHR ''{'' \<notin> set p"
  shows "format (concat (map seg_source gs)) (map JStr (p0 # ps))
    = concat (map (seg_value (length (p0 # ps)) (p0 # ps)) gs)"
proof -
  have s: "seg_value 0 qs = seg_source" for qs
  proof
    show "seg_value 0 qs g = seg_source g" for g by (cases g) auto
  qed
  have "format src (map JStr (p0 # ps)) = format_from 0 src (p0 # ps)" for src
    by (cases ps) (simp_all add: format_def comp_def)
  then show ?thesis using format_from_segments [OF assms, of 0] by (simp add: s)
qed

theorem format_substitutes_witness:
  "format ''between {0} and {1}.'' [JStr ''2'', JStr ''7''] = ''between 2 and 7.''"
proof -
  let ?gs = "[Text ''between '', Ref 0, Text '' and '', Ref 1, Text ''.'']"
  have n: "nat_str 0 = ''0''" "nat_str 1 = ''1''" by code_simp+
  have src: "concat (map seg_source ?gs) = ''between {0} and {1}.''" by (simp add: placeholder_def n [simplified])
  have v: "concat (map (seg_value (length [''2'', ''7'']) [''2'', ''7'']) ?gs) = ''between 2 and 7.''" by simp
  have "\<forall>g \<in> set ?gs. \<forall>t. g = Text t \<longrightarrow> CHR ''{'' \<notin> set t" "\<forall>p \<in> set [''2'', ''7'']. CHR ''{'' \<notin> set p"
    by auto
  from format_substitutes [OF this] show ?thesis unfolding src v by simp
qed

end
