(* ===== verification/RuleTypes.thy ===== *)
theory RuleTypes
  imports ValidateRules
begin

text \<open>
  The types of the parameters that reach the methods: after normalisation the lengths are numbers and
  the ranges are pairs, whatever the page, the attributes and the dependencies gave.
\<close>

definition number_or_falsy :: "jsval \<Rightarrow> bool" where
  "number_or_falsy v \<longleftrightarrow> \<not> truthy v \<or> (\<exists>n. v = JNum n)"

definition pair_or_plain :: "(jsval \<Rightarrow> bool) \<Rightarrow> jsval \<Rightarrow> bool" where
  \<comment> \<open>no text, and an array only with two items that satisfy \<open>P\<close>\<close>
  "pair_or_plain P v \<longleftrightarrow> (case v of JStr s \<Rightarrow> s = [] | JArr xs \<Rightarrow> (\<exists>a b. xs = [a, b] \<and> P a \<and> P b) | _ \<Rightarrow> True)"

lemma js_prop_set: "js_prop (obj_set k v r) k' = (if k' = k then v else js_prop r k')"
  by (simp add: js_prop_def)

lemma js_prop_del: "js_prop (obj_del k r) k' = (if k' = k then JUndef else js_prop r k')"
  by (simp add: js_prop_def)

lemma clean_length_prop:
  "js_prop (clean_length k r) k' = (if k' = k \<and> truthy (js_prop r k) then JNum (js_Number (js_prop r k)) else js_prop r k')"
  by (simp add: clean_length_def js_prop_set)

lemma clean_range_other: "k' \<noteq> k \<Longrightarrow> js_prop (clean_range k r) k' = js_prop r k'"
  by (simp add: clean_range_def Let_def js_prop_set split: jsval.split)

lemma clean_range_same: "(\<And>n. P (JNum n)) \<Longrightarrow> pair_or_plain P (js_prop (clean_range k r) k)"
  by (auto simp: clean_range_def Let_def js_prop_set pair_or_plain_def split: jsval.split)


definition typed_sample :: "jserr + (jsval obj \<times> bool)" where
  "typed_sample = normalizeRules sample_ctx True [(''minlength'', JStr ''3''), (''range'', JStr ''[2, 5]'')] (sample_field ''x'')"


end
