(* ===== verification/ValidateMethods.thy ===== *)
theory ValidateMethods
  imports ValidateRules Formats
begin

text \<open>
  The built-in methods of jquery.validate.js: patterns, lengths, comparisons, the step method and
  the equality of two fields.  The remote method changes the state of the validator and is in
  theory Validator.  Numbers are exact, so the step method is free of rounding here.
\<close>

section \<open>Pattern methods\<close>

definition email_pattern :: string where
  \<comment> \<open>the backquote of the character class is written as its code\<close>
  \<open>email_pattern = (''^[a-zA-Z0-9.!#$%&\'*+`/=?^_`u0060{|}~-]+@[a-zA-Z0-9](?:[a-zA-Z0-9-]{0,61}[a-zA-Z0-9])?(?:`.[a-z''
       @ ''A-Z0-9](?:[a-zA-Z0-9-]{0,61}[a-zA-Z0-9])?)*$'')\<close>

definition email :: "vctx \<Rightarrow> string \<Rightarrow> elt \<Rightarrow> jserr + jsval" where
  "email v value e = unless_optional v e (\<lambda>_. Inr (JBool (tests False email_pattern value)))"

definition rx_of :: "string \<Rightarrow> rx" where
  "rx_of src = (case parse_re (bq src) of None \<Rightarrow> RZero | Some r \<Rightarrow> to_rx True r)"

definition url_host_tail :: rx where
  \<open>url_host_tail = rx_of ''(?::`d{2,5})?(?:[/?#]`S*)?''\<close>

definition url_bad_hosts :: rx where
  \<comment> \<open>the three negative look-aheads: private and local addresses\<close>
  \<open>url_bad_hosts = RAlt (rx_of ''(?:10|127)(?:`.`d{1,3}){3}'')
     (RAlt (rx_of ''(?:169`.254|192`.168)(?:`.`d{1,3}){2}'')
       (rx_of ''172`.(?:1[6-9]|2`d|3[0-1])(?:`.`d{1,3}){2}''))\<close>

definition url_rx :: rx where
  \<comment> \<open>a look-ahead constrains all that follows, so it is an intersection with the rest of the pattern\<close>
  \<open>url_rx =
     RSeq (rx_of ''(?:(?:(?:https?|ftp):)?`/`/)(?:`S+(?::`S*)?@)?'')
       (RAlt
         (RAnd (RNot (RSeq url_bad_hosts RAll))
           (RSeq (rx_of (''(?:[1-9]`d?|1`d`d|2[01]`d|22[0-3])(?:`.(?:1?`d{1,2}|2[0-4]`d|25[0-5])){2}(?:`.(?:[1-9]`d?|1`d`d''
       @ ''|2[0-4]`d|25[0-4]))'')) url_host_tail))
         (RSeq (rx_of (''(?:(?:[a-z`u00a1-`uffff0-9]-*)*[a-z`u00a1-`uffff0-9]+)(?:`.(?:[a-z`u00a1-`uffff0-9]-*)*[a-z`u00''
       @ ''a1-`uffff0-9]+)*(?:`.(?:[a-z`u00a1-`uffff]{2,})).?'')) url_host_tail))\<close>

definition url :: "vctx \<Rightarrow> string \<Rightarrow> elt \<Rightarrow> jserr + jsval" where
  "url v value e = unless_optional v e (\<lambda>_. Inr (JBool (test_full url_rx value)))"

definition date :: "(string \<Rightarrow> string) \<Rightarrow> vctx \<Rightarrow> string \<Rightarrow> elt \<Rightarrow> jserr + jsval" where
  \<comment> \<open>the first argument is \<open>new Date(value).toString()\<close> of the engine\<close>
  "date date_string v value e = unless_optional v e (\<lambda>_. Inr (JBool (\<not> tests False ''Invalid|NaN'' (date_string value))))"

definition dateISO_pattern :: string where
  \<open>dateISO_pattern = ''^`d{4}[`/`-](0?[1-9]|1[012])[`/`-](0?[1-9]|[12][0-9]|3[01])$''\<close>

definition dateISO :: "vctx \<Rightarrow> string \<Rightarrow> elt \<Rightarrow> jserr + jsval" where
  "dateISO v value e = unless_optional v e (\<lambda>_. Inr (JBool (tests False dateISO_pattern value)))"

definition number_pattern :: string where
  \<open>number_pattern = ''^(?:-?`d+|-?`d{1,3}(?:,`d{3})+)?(?:`.`d+)?$''\<close>

definition number :: "vctx \<Rightarrow> string \<Rightarrow> elt \<Rightarrow> jserr + jsval" where
  "number v value e = unless_optional v e (\<lambda>_. Inr (JBool (tests False number_pattern value)))"

definition digits :: "vctx \<Rightarrow> string \<Rightarrow> elt \<Rightarrow> jserr + jsval" where
  \<open>digits v value e = unless_optional v e (\<lambda>_. Inr (JBool (tests False ''^`d+$'' value)))\<close>

section \<open>Lengths and comparisons\<close>

fun str_le :: "string \<Rightarrow> string \<Rightarrow> bool" where
  \<comment> \<open>the order of strings by code units\<close>
  "str_le [] t = True"
| "str_le (c # s) [] = False"
| "str_le (c # s) (d # t) = (if c = d then str_le s t else code_unit c < code_unit d)"

definition js_ge :: "jsval \<Rightarrow> jsval \<Rightarrow> bool" where
  \<comment> \<open>\<open>a >= b\<close>: two strings are compared as strings, everything else as numbers\<close>
  "js_ge a b =
     (case (a, b) of
        (JStr s, JStr t) \<Rightarrow> str_le t s
      | _ \<Rightarrow> js_le (js_Number b) (js_Number a))"

definition value_length :: "vctx \<Rightarrow> jsval \<Rightarrow> elt \<Rightarrow> jserr + jsval" where
  "value_length v value e =
     (case value of JArr xs \<Rightarrow> Inr (JNum (num (length xs))) | _ \<Rightarrow> getLength v value e)"

definition minlength :: "vctx \<Rightarrow> jsval \<Rightarrow> elt \<Rightarrow> jsval \<Rightarrow> jserr + jsval" where
  "minlength v value e param =
     (case value_length v value e of
        Inl x \<Rightarrow> Inl x
      | Inr len \<Rightarrow> unless_optional v e (\<lambda>_. Inr (JBool (js_ge len param))))"

definition maxlength :: "vctx \<Rightarrow> jsval \<Rightarrow> elt \<Rightarrow> jsval \<Rightarrow> jserr + jsval" where
  "maxlength v value e param =
     (case value_length v value e of
        Inl x \<Rightarrow> Inl x
      | Inr len \<Rightarrow> unless_optional v e (\<lambda>_. Inr (JBool (js_ge param len))))"

definition pair_param :: "jsval \<Rightarrow> (jsval \<times> jsval \<Rightarrow> bool) \<Rightarrow> jserr + jsval" where
  \<comment> \<open>the first two elements of an array parameter; indexing null or undefined throws\<close>
  "pair_param param k =
     (case param of
        JArr xs \<Rightarrow> Inr (JBool (k (nth_arg xs 0, nth_arg xs 1)))
      | JUndef \<Rightarrow> Inl TypeError
      | JNull \<Rightarrow> Inl TypeError
      | JStr s \<Rightarrow> Inr (JBool (k (if s = [] then JUndef else JStr (take 1 s),
                               if length s < 2 then JUndef else JStr (take 1 (drop 1 s)))))
      | _ \<Rightarrow> Inr (JBool (k (JUndef, JUndef))))"

definition rangelength :: "vctx \<Rightarrow> jsval \<Rightarrow> elt \<Rightarrow> jsval \<Rightarrow> jserr + jsval" where
  "rangelength v value e param =
     (case value_length v value e of
        Inl x \<Rightarrow> Inl x
      | Inr len \<Rightarrow> unless_optional v e (\<lambda>_. pair_param param (\<lambda>(lo, hi). js_ge len lo \<and> js_ge hi len)))"

definition min_method :: "vctx \<Rightarrow> jsval \<Rightarrow> elt \<Rightarrow> jsval \<Rightarrow> jserr + jsval" where
  "min_method v value e param = unless_optional v e (\<lambda>_. Inr (JBool (js_ge value param)))"

definition max_method :: "vctx \<Rightarrow> jsval \<Rightarrow> elt \<Rightarrow> jsval \<Rightarrow> jserr + jsval" where
  "max_method v value e param = unless_optional v e (\<lambda>_. Inr (JBool (js_ge param value)))"

definition range_method :: "vctx \<Rightarrow> jsval \<Rightarrow> elt \<Rightarrow> jsval \<Rightarrow> jserr + jsval" where
  "range_method v value e param =
     unless_optional v e (\<lambda>_. pair_param param (\<lambda>(lo, hi). js_ge value lo \<and> js_ge hi value))"

section \<open>Step\<close>

definition decimalPlaces :: "jsval \<Rightarrow> nat" where
  \<comment> \<open>the digits behind the last dot, when there is nothing else behind it\<close>
  "decimalPlaces x =
     (let s = js_String x; tail = rev (takeWhile is_digit (rev s)); rest = rev (dropWhile is_digit (rev s))
      in if rest \<noteq> [] \<and> last rest = CHR ''.'' then length tail else 0)"

definition js_round :: "jsnum \<Rightarrow> jsnum" where
  "js_round n = (case n of Fin r \<Rightarrow> Fin (of_int \<lfloor>r + 1 / 2\<rfloor>) | _ \<Rightarrow> n)"

definition toInt :: "nat \<Rightarrow> jsval \<Rightarrow> jsnum" where
  "toInt decimals x = js_round (js_mul (js_Number x) (num (10 ^ decimals)))"

definition step :: "vctx \<Rightarrow> jsval \<Rightarrow> elt \<Rightarrow> jsval \<Rightarrow> jserr + jsval" where
  "step v value e param =
     (let type = obj_get (e_attrs e) ''type'';
          type_text = (case type of None \<Rightarrow> ''undefined'' | Some t \<Rightarrow> t)
      in case regexp_test False ([CHR 0x5C, CHR ''b''] @ type_text @ [CHR 0x5C, CHR ''b'']) ''text,number,range'' of
           None \<Rightarrow> Inl (Error ''SyntaxError'')
         | Some supported \<Rightarrow>
             if (case type of None \<Rightarrow> False | Some t \<Rightarrow> t \<noteq> []) \<and> \<not> supported
             then Inl (Error (''Step attribute on input type '' @ type_text @ '' is not supported.''))
             else (let decimals = decimalPlaces param;
                       valid = (\<not> (decimalPlaces value > decimals
                                  \<or> js_mod (toInt decimals value) (toInt decimals param) \<noteq> Fin 0))
                   in unless_optional v e (\<lambda>_. Inr (JBool valid))))"

section \<open>Two fields\<close>

definition equalTo :: "bool \<Rightarrow> nat list \<Rightarrow> elt list \<Rightarrow> jsval \<Rightarrow> nat list \<times> jsval" where
  \<comment> \<open>whether the settings have an \<open>onfocusout\<close> handler, the elements whose blur event is bound, the
    elements the parameter selects; the new bindings and the answer\<close>
  "equalTo onfocusout bound target value =
     (let fresh = filter (\<lambda>t. \<not> List.member bound (e_ref t)) target
      in (if onfocusout \<and> fresh \<noteq> [] then bound @ map e_ref fresh else bound,
          JBool (strict_eq value (val_of_set target))))"

definition notEqualTo :: "vctx \<Rightarrow> elt \<Rightarrow> bool \<Rightarrow> nat list \<Rightarrow> elt list \<Rightarrow> jsval \<Rightarrow> jserr + (nat list \<times> jsval)" where
  "notEqualTo v e onfocusout bound target value =
     (case optional v e of
        Inl x \<Rightarrow> Inl x
      | Inr r \<Rightarrow>
          if truthy r then Inr (bound, r)
          else (case equalTo onfocusout bound target value of (b, x) \<Rightarrow> Inr (b, JBool (\<not> truthy x))))"

section \<open>Selectors\<close>

definition blank_pseudo :: "elt \<Rightarrow> bool" where
  "blank_pseudo a \<longleftrightarrow> trim (js_String (e_val a)) = []"

definition filled_pseudo :: "elt \<Rightarrow> bool" where
  "filled_pseudo a \<longleftrightarrow> e_val a \<noteq> JNull \<and> trim (js_String (e_val a)) \<noteq> []"

definition unchecked_pseudo :: "elt \<Rightarrow> bool" where
  "unchecked_pseudo a \<longleftrightarrow> \<not> e_checked a"

section \<open>Laws\<close>

text \<open>The order used by the comparisons of two strings is a linear order.\<close>

lemma str_le_refl: "str_le s s"
  by (induction s) auto

lemma str_le_linear: "str_le s t \<or> str_le t s"
proof (induction s t rule: str_le.induct)
  case (3 c s d t)
  then show ?case using code_unit_eq_iff [of c d] by auto
qed simp_all

lemma str_le_trans: "str_le s t \<Longrightarrow> str_le t u \<Longrightarrow> str_le s u"
proof (induction s t arbitrary: u rule: str_le.induct)
  case (3 c s d t)
  then show ?case by (cases u) (auto split: if_splits dest: order.strict_trans)
qed auto

lemma str_le_antisym: "str_le s t \<Longrightarrow> str_le t s \<Longrightarrow> s = t"
proof (induction s t rule: str_le.induct)
  case (2 c s)
  then show ?case by simp
qed (auto split: if_splits, metis str_le.simps(2) neq_Nil_conv)

end
