(* ===== verification/Validator.thy ===== *)
theory Validator
  imports ValidateMethods
begin

text \<open>
  The validator object of jquery.validate.js: its state as a record, the check of one element and of
  the whole form, messages, error labels, the remote method with its pending requests, the submit
  handler and the event handlers.  The table of methods is an argument of the operations that call
  methods; a method may change the state, as the remote method does.  The document is reduced to what
  the validator reads and writes: the elements of the form, the error labels, the classes and two
  accessibility attributes of the elements.  Functions given by the page (normalizers, message
  functions, the submit handler) and the query string of a value are arguments.  Left out are the
  settings wrapper, errorContainer, errorLabelContainer and errorPlacement, which only move nodes.
\<close>

section \<open>State\<close>

record label_node =
  n_ref :: nat
  n_id :: string
  n_tag :: string
  n_for :: "string option"
  n_within :: "string list" \<comment> \<open>what the labels around the node are for\<close>
  n_html :: string
  n_classes :: "string list"
  n_visible :: bool

record settings =
  s_errorClass :: string
  s_validClass :: string
  s_pendingClass :: string
  s_errorElement :: string
  s_ignoreTitle :: bool
  s_focusCleanup :: bool
  s_focusInvalid :: bool
  s_debug :: bool
  s_onsubmit :: bool
  s_onfocusout :: bool
  s_highlight :: bool
  s_unhighlight :: bool
  s_normalizer :: "nat option"
  s_submitHandler :: "nat option"
  s_success :: "string option"

definition defaults :: settings where
  "defaults = \<lparr>s_errorClass = ''error'', s_validClass = ''valid'', s_pendingClass = ''pending'',
     s_errorElement = ''label'', s_ignoreTitle = False, s_focusCleanup = False, s_focusInvalid = True,
     s_debug = False, s_onsubmit = True, s_onfocusout = True, s_highlight = True, s_unhighlight = True,
     s_normalizer = None, s_submitHandler = None, s_success = None\<rparr>"

record err =
  er_message :: jsval
  er_element :: elt
  er_method :: "string option"

record prev =
  pv_old :: "string option"
  pv_valid :: bool
  pv_message :: jsval
  pv_original :: jsval

record request =
  rq_port :: string
  rq_elt :: elt
  rq_method :: string
  rq_value :: jsval

datatype event = InvalidForm | NativeSubmit | Handled nat | FocusOn nat | HiddenInput string | HiddenRemoved

record vst =
  v_ctx :: vctx
  v_lib :: vlib
  v_set :: settings
  v_rules :: "jsval obj"
  v_messages :: "jsval obj"
  v_groups :: "string obj"
  v_submitted :: "jsval obj"
  v_invalid :: "jsval obj"
  v_errorMap :: "jsval obj"
  v_errorList :: "err list"
  v_successList :: "elt list"
  v_currentElements :: "elt list"
  v_pending :: "jsval obj"
  v_pendingRequest :: int
  v_formSubmitted :: bool
  v_cancelSubmit :: bool
  v_submitButton :: "elt option"
  v_lastActive :: "elt option"
  v_previous :: "(nat \<times> prev) list"
  v_requests :: "request list"
  v_labels :: "label_node list"
  v_toShow :: "nat list"
  v_toHide :: "nat list"
  v_class :: "(nat \<times> string list) list"
  v_describedby :: "(nat \<times> string) list"
  v_ariaInvalid :: "(nat \<times> bool) list"
  v_bound :: "nat list"
  v_events :: "event list"

record host =
  h_normalize :: "nat \<Rightarrow> elt \<Rightarrow> jsval \<Rightarrow> jsval"
  h_message :: "nat \<Rightarrow> jsval \<Rightarrow> elt \<Rightarrow> jsval"
  h_param :: "jsval \<Rightarrow> string"
  h_submit :: "nat \<Rightarrow> jsval"
  h_within :: "elt \<Rightarrow> string list"
  h_date :: "string \<Rightarrow> string"
  h_targets :: "vctx \<Rightarrow> jsval \<Rightarrow> elt list"

type_synonym vmethod = "vst \<Rightarrow> jsval \<Rightarrow> elt \<Rightarrow> jsval \<Rightarrow> vst \<times> (jserr + jsval)"

type_synonym vmethods = "string \<Rightarrow> vmethod option"

definition put :: "nat \<Rightarrow> 'b \<Rightarrow> (nat \<times> 'b) list \<Rightarrow> (nat \<times> 'b) list" where
  "put k x m = (k, x) # filter (\<lambda>p. fst p \<noteq> k) m"

definition classes_of :: "vst \<Rightarrow> elt \<Rightarrow> string list" where
  "classes_of st e = (case map_of (v_class st) (e_ref e) of None \<Rightarrow> [] | Some cs \<Rightarrow> cs)"

definition addClass :: "string \<Rightarrow> elt \<Rightarrow> vst \<Rightarrow> vst" where
  "addClass c e st =
     st\<lparr>v_class := put (e_ref e) (if List.member (classes_of st e) c \<or> c = [] then classes_of st e
                                 else classes_of st e @ [c]) (v_class st)\<rparr>"

definition removeClass :: "string \<Rightarrow> elt \<Rightarrow> vst \<Rightarrow> vst" where
  "removeClass c e st = st\<lparr>v_class := put (e_ref e) (filter (\<lambda>x. x \<noteq> c) (classes_of st e)) (v_class st)\<rparr>"

section \<open>Construction\<close>

definition resetInternals :: "vst \<Rightarrow> vst" where
  "resetInternals st = st\<lparr>v_successList := [], v_errorList := [], v_errorMap := [], v_toShow := [], v_toHide := []\<rparr>"

definition reset :: "vst \<Rightarrow> vst" where
  "reset st = (resetInternals st)\<lparr>v_currentElements := []\<rparr>"

definition init_groups :: "jsval obj \<Rightarrow> string obj" where
  "init_groups gs =
     fold (\<lambda>p acc. fold (\<lambda>name a. obj_set name (fst p) a)
             (case snd p of JStr s \<Rightarrow> split_on is_space s | JArr xs \<Rightarrow> map js_String xs | _ \<Rightarrow> []) acc) gs []"

definition init :: "jsval obj \<Rightarrow> vst \<Rightarrow> vst" where
  \<comment> \<open>the first argument is \<open>settings.groups\<close>\<close>
  "init gs st =
     (reset (st\<lparr>v_submitted := [], v_pendingRequest := 0, v_pending := [], v_invalid := []\<rparr>))
       \<lparr>v_groups := init_groups gs, v_rules := map (\<lambda>p. (fst p, normalizeRule (snd p))) (v_rules st)\<rparr>"

section \<open>Labels\<close>

definition errors :: "vst \<Rightarrow> label_node list" where
  "errors st =
     filter (\<lambda>n. n_tag n = s_errorElement (v_set st)
        \<and> list_all (\<lambda>c. List.member (n_classes n) c) (split_on (\<lambda>c. c = CHR '' '') (s_errorClass (v_set st)))) (v_labels st)"

definition idOrName :: "vst \<Rightarrow> elt \<Rightarrow> string" where
  "idOrName st e =
     (case map_of (v_groups st) (e_name e) of
        Some g \<Rightarrow> if g \<noteq> [] then g else if checkable e then e_name e else if e_id e \<noteq> [] then e_id e else e_name e
      | None \<Rightarrow> if checkable e then e_name e else if e_id e \<noteq> [] then e_id e else e_name e)"

definition errorsFor :: "vst \<Rightarrow> elt \<Rightarrow> label_node list" where
  "errorsFor st e =
     (let name = idOrName st e;
          ids = (case map_of (v_describedby st) (e_ref e) of
                   None \<Rightarrow> [] | Some d \<Rightarrow> filter (\<lambda>w. w \<noteq> []) (split_on is_space d))
      in filter (\<lambda>n. (n_tag n = ''label'' \<and> n_for n = Some name) \<or> List.member (n_within n) name
                   \<or> List.member ids (n_id n)) (errors st))"

definition on_labels :: "nat list \<Rightarrow> (label_node \<Rightarrow> label_node) \<Rightarrow> vst \<Rightarrow> vst" where
  "on_labels refs f st = st\<lparr>v_labels := map (\<lambda>n. if List.member refs (n_ref n) then f n else n) (v_labels st)\<rparr>"

definition hideThese :: "nat list \<Rightarrow> vst \<Rightarrow> vst" where
  "hideThese refs st = on_labels refs (\<lambda>n. n\<lparr>n_html := [], n_visible := False\<rparr>) st"

definition hideErrors :: "vst \<Rightarrow> vst" where
  "hideErrors st = hideThese (v_toHide st) st"

definition refs_union :: "nat list \<Rightarrow> nat list \<Rightarrow> nat list" where
  "refs_union a b = a @ filter (\<lambda>x. \<not> List.member a x) b"

definition highlight :: "elt \<Rightarrow> vst \<Rightarrow> vst" where
  "highlight e st =
     fold (\<lambda>x s. removeClass (s_validClass (v_set st)) x (addClass (s_errorClass (v_set st)) x s))
       (if e_type e = ''radio'' then findByName (v_ctx st) (e_name e) else [e]) st"

definition unhighlight :: "string \<Rightarrow> elt \<Rightarrow> vst \<Rightarrow> vst" where
  \<comment> \<open>the first argument is the class of valid elements that is added\<close>
  "unhighlight validClass e st =
     fold (\<lambda>x s. addClass validClass x (removeClass (s_errorClass (v_set st)) x s))
       (if e_type e = ''radio'' then findByName (v_ctx st) (e_name e) else [e]) st"

definition describe :: "host \<Rightarrow> elt \<Rightarrow> label_node \<Rightarrow> vst \<Rightarrow> vst" where
  \<comment> \<open>the part of showLabel that links an error element that is not a label\<close>
  "describe h e n st =
     (if List.member (h_within h e) (idOrName st e) then st
      else (let errorID = n_id n;
                old = map_of (v_describedby st) (e_ref e);
                new = (case old of
                    None \<Rightarrow> errorID
                  | Some d \<Rightarrow>
                      if d = [] then errorID
                      else if regexp_test False ([CHR 0x5C, CHR ''b''] @ escapeCssMeta errorID @ [CHR 0x5C, CHR ''b'']) d = Some True
                      then d else d @ '' '' @ errorID);
                st1 = st\<lparr>v_describedby := put (e_ref e) new (v_describedby st)\<rparr>
            in case map_of (v_groups st) (e_name e) of
                 None \<Rightarrow> st1
               | Some grp \<Rightarrow>
                   fold (\<lambda>x s. s\<lparr>v_describedby := put (e_ref x) errorID (v_describedby s)\<rparr>)
                     (filter (\<lambda>x. map_of (v_groups st) (e_name x) = Some grp) (c_form (v_ctx st))) st1))"

definition showLabel :: "host \<Rightarrow> elt \<Rightarrow> jsval \<Rightarrow> vst \<Rightarrow> vst" where
  \<comment> \<open>the message is undefined for an element of the success list\<close>
  "showLabel h e message st =
     (let found = errorsFor st e;
          st1 = (if found \<noteq> [] then
              on_labels (map n_ref found)
                (\<lambda>n. n\<lparr>n_classes := filter (\<lambda>c. c \<noteq> s_validClass (v_set st)) (n_classes n),
                       n_html := (if message = JUndef then n_html n else js_String message)\<rparr>) st
            else
              (let n = \<lparr>n_ref = length (v_labels st), n_id = idOrName st e @ ''-error'', n_tag = s_errorElement (v_set st),
                        n_for = (if s_errorElement (v_set st) = ''label'' then Some (idOrName st e) else None),
                        n_within = h_within h e,
                        n_html = (if truthy message then js_String message else []),
                        n_classes = split_on (\<lambda>c. c = CHR '' '') (s_errorClass (v_set st)), n_visible = True\<rparr>;
                   st' = st\<lparr>v_labels := v_labels st @ [n]\<rparr>
               in if s_errorElement (v_set st) = ''label'' then st' else describe h e n st'));
          refs = (if found \<noteq> [] then map n_ref found else [length (v_labels st)]);
          st2 = (case s_success (v_set st) of
                   None \<Rightarrow> st1
                 | Some cls \<Rightarrow>
                     if truthy message then st1
                     else on_labels refs (\<lambda>n. n\<lparr>n_html := [], n_classes := n_classes n @ [cls]\<rparr>) st1)
      in st2\<lparr>v_toShow := refs_union (v_toShow st2) refs\<rparr>)"

definition invalidElements :: "vst \<Rightarrow> elt list" where
  "invalidElements st = map er_element (v_errorList st)"

definition validElements :: "vst \<Rightarrow> elt list" where
  "validElements st =
     filter (\<lambda>e. \<not> List.member (map e_ref (invalidElements st)) (e_ref e)) (v_currentElements st)"

definition defaultShowErrors :: "host \<Rightarrow> vst \<Rightarrow> vst" where
  "defaultShowErrors h st =
     (let st1 = fold (\<lambda>er s. showLabel h (er_element er) (er_message er)
                        (if s_highlight (v_set st) then highlight (er_element er) s else s)) (v_errorList st) st;
          st2 = (if s_success (v_set st) \<noteq> None
                 then fold (\<lambda>e s. showLabel h e JUndef s) (v_successList st1) st1 else st1);
          st3 = (if s_unhighlight (v_set st)
                 then fold (unhighlight (s_validClass (v_set st))) (validElements st2) st2 else st2);
          st4 = st3\<lparr>v_toHide := filter (\<lambda>x. \<not> List.member (v_toShow st3) x) (v_toHide st3)\<rparr>
      in on_labels (v_toShow st4) (\<lambda>n. n\<lparr>n_visible := True\<rparr>) (hideErrors st4))"

definition showErrors :: "host \<Rightarrow> (jsval obj) option \<Rightarrow> vst \<Rightarrow> vst" where
  "showErrors h errs st =
     (let st1 = (case errs of
          None \<Rightarrow> st
        | Some es \<Rightarrow>
            (let em = js_extend (v_errorMap st) es
             in st\<lparr>v_errorMap := em,
                   v_errorList := concat (map (\<lambda>p. case findByName (v_ctx st) (fst p) of
                        [] \<Rightarrow> [] | x # _ \<Rightarrow> [\<lparr>er_message = snd p, er_element = x, er_method = None\<rparr>]) em),
                   v_successList := filter (\<lambda>e. \<not> obj_has (e_name e) es) (v_successList st)\<rparr>))
      in defaultShowErrors h st1)"

section \<open>Messages\<close>

definition message_sources :: "string list" where
  \<comment> \<open>the arguments of the calls of format in the table of messages\<close>
  "message_sources =
     [''Please enter no more than {0} characters.'', ''Please enter at least {0} characters.'',
      ''Please enter a value between {0} and {1} characters long.'', ''Please enter a value between {0} and {1}.'',
      ''Please enter a value less than or equal to {0}.'', ''Please enter a value greater than or equal to {0}.'',
      ''Please enter a multiple of {0}.'']"

definition default_messages :: "jsval obj" where
  "default_messages =
     [(''required'', JStr ''This field is required.''), (''remote'', JStr ''Please fix this field.''),
      (''email'', JStr ''Please enter a valid email address.''), (''url'', JStr ''Please enter a valid URL.''),
      (''date'', JStr ''Please enter a valid date.''), (''dateISO'', JStr ''Please enter a valid date (ISO).''),
      (''number'', JStr ''Please enter a valid number.''), (''digits'', JStr ''Please enter only digits.''),
      (''equalTo'', JStr ''Please enter the same value again.''),
      (''maxlength'', JFun 0), (''minlength'', JFun 1), (''rangelength'', JFun 2), (''range'', JFun 3),
      (''max'', JFun 4), (''min'', JFun 5), (''step'', JFun 6)]"

definition library_message :: "nat \<Rightarrow> jsval \<Rightarrow> elt \<Rightarrow> jsval" where
  \<comment> \<open>the function format returns for one argument, called with the parameters and the element\<close>
  "library_message k parameters e = JStr (format (message_sources ! k) [parameters, JObj []])"

definition customMessage :: "vst \<Rightarrow> string \<Rightarrow> string \<Rightarrow> jsval" where
  "customMessage st name method =
     (case js_prop (v_messages st) name of
        JStr s \<Rightarrow> JStr s
      | JObj kvs \<Rightarrow> js_prop kvs method
      | m \<Rightarrow> if truthy m then JUndef else m)"

definition customDataMessage :: "elt \<Rightarrow> string \<Rightarrow> jsval" where
  "customDataMessage e method =
     js_or (js_prop (e_data e) (''msg'' @ capitalized method)) (js_prop (e_data e) ''msg'')"

fun findDefined :: "jsval list \<Rightarrow> jsval" where
  "findDefined [] = JUndef"
| "findDefined (x # xs) = (if x \<noteq> JUndef then x else findDefined xs)"

function strip_dollar :: "string \<Rightarrow> string" where
  \<comment> \<open>\<open>message.replace(/\$?\{(\d+)\}/g, "{$1}")\<close>\<close>
  "strip_dollar [] = []"
| "strip_dollar (c # s) =
     (if c = CHR ''$'' \<and> take 1 s = ''{'' \<and> takeWhile is_digit (tl s) \<noteq> [] \<and> take 1 (dropWhile is_digit (tl s)) = ''}''
      then strip_dollar s else c # strip_dollar s)"
  by pat_completeness auto

termination by (relation "measure length") auto

definition defaultMessage :: "host \<Rightarrow> vst \<Rightarrow> elt \<Rightarrow> string \<Rightarrow> jsval \<Rightarrow> jsval" where
  "defaultMessage h st e method parameters =
     (let message = findDefined
            [customMessage st (e_name e) method, customDataMessage e method,
             if \<not> s_ignoreTitle (v_set st) \<and> e_title e \<noteq> [] then JStr (e_title e) else JUndef,
             js_prop (l_messages (v_lib st)) method,
             JStr (''<strong>Warning: No message defined for '' @ e_name e @ ''</strong>'')]
      in case message of
           JFun f \<Rightarrow> h_message h f parameters e
         | JStr m \<Rightarrow> if tests False ''`$?`{(`d+)`}'' m then JStr (format (strip_dollar m) [parameters]) else JStr m
         | m \<Rightarrow> m)"

definition formatAndAdd :: "host \<Rightarrow> elt \<Rightarrow> string \<Rightarrow> jsval \<Rightarrow> vst \<Rightarrow> vst" where
  "formatAndAdd h e method parameters st =
     (let message = defaultMessage h st e method parameters
      in st\<lparr>v_errorList := v_errorList st @ [\<lparr>er_message = message, er_element = e, er_method = Some method\<rparr>],
            v_errorMap := obj_set (e_name e) message (v_errorMap st),
            v_submitted := obj_set (e_name e) message (v_submitted st)\<rparr>)"

section \<open>Checking\<close>

definition resetElements :: "elt list \<Rightarrow> vst \<Rightarrow> vst" where
  "resetElements es st =
     (if s_unhighlight (v_set st) then
        fold (\<lambda>e s. fold (removeClass (s_validClass (v_set s))) (findByName (v_ctx s) (e_name e)) (unhighlight [] e s)) es st
      else fold (\<lambda>e s. removeClass (s_validClass (v_set s)) e (removeClass (s_errorClass (v_set s)) e s)) es st)"

definition element_rules :: "vst \<Rightarrow> elt \<Rightarrow> vst \<times> (jserr + jsval obj)" where
  \<comment> \<open>\<open>$(element).rules()\<close>; an unmet dependency resets the element\<close>
  "element_rules st e =
     (case rules (v_lib st) (v_ctx st) (v_rules st) e of
        Inl x \<Rightarrow> (st, Inl x)
      | Inr (rs, b) \<Rightarrow> ((if b then resetElements [e] st else st), Inr rs))"

datatype check_result = CPending | CFail | CDone bool

fun check_rules ::
  "host \<Rightarrow> vmethods \<Rightarrow> bool \<Rightarrow> elt \<Rightarrow> jsval \<Rightarrow> jsval obj \<Rightarrow> bool \<Rightarrow> vst \<Rightarrow> vst \<times> (jserr + check_result)" where
  \<comment> \<open>the loop over the rules; the flags: a single rule, the value of \<open>dependencyMismatch\<close> so far\<close>
  "check_rules h ms single e val [] dm st = (st, Inr (CDone dm))"
| "check_rules h ms single e val (p # rest) dm st =
     (case ms (fst p) of
        None \<Rightarrow> (st, Inl TypeError)
      | Some f \<Rightarrow>
          (case f st val e (snd p) of
             (st1, Inl x) \<Rightarrow> (st1, Inl x)
           | (st1, Inr result) \<Rightarrow>
               if result = JStr ''dependency-mismatch'' \<and> single then check_rules h ms single e val rest True st1
               else if result = JStr ''pending'' then
                 (st1\<lparr>v_toHide := filter (\<lambda>r. \<not> List.member (map n_ref (errorsFor st1 e)) r) (v_toHide st1)\<rparr>, Inr CPending)
               else if \<not> truthy result then (formatAndAdd h e (fst p) (snd p) st1, Inr CFail)
               else check_rules h ms single e val rest False st1))"

definition normalize_value :: "host \<Rightarrow> vst \<Rightarrow> jsval obj \<Rightarrow> elt \<Rightarrow> jsval \<Rightarrow> jserr + (jsval \<times> jsval obj)" where
  "normalize_value h st rs e val =
     (let normalizer = (case js_prop rs ''normalizer'' of JFun f \<Rightarrow> Some f | _ \<Rightarrow> s_normalizer (v_set st))
      in case normalizer of
           None \<Rightarrow> Inr (val, rs)
         | Some f \<Rightarrow>
             (case h_normalize h f e val of
                JStr s \<Rightarrow> Inr (JStr s, obj_del ''normalizer'' rs)
              | _ \<Rightarrow> Inl TypeError))"

definition check :: "host \<Rightarrow> vmethods \<Rightarrow> elt \<Rightarrow> vst \<Rightarrow> vst \<times> (jserr + jsval)" where
  "check h ms e0 st =
     (case validationTargetFor (v_ctx st) e0 of
        None \<Rightarrow> (st, Inl TypeError)
      | Some e \<Rightarrow>
          (case element_rules st e of
             (st1, Inl x) \<Rightarrow> (st1, Inl x)
           | (st1, Inr rs) \<Rightarrow>
               (case elementValue (v_ctx st) e of
                  Inl x \<Rightarrow> (st1, Inl x)
                | Inr val0 \<Rightarrow>
                    (case normalize_value h st1 rs e val0 of
                       Inl x \<Rightarrow> (st1, Inl x)
                     | Inr (val, rs1) \<Rightarrow>
                         (case check_rules h ms (length rs = 1) e val rs1 False st1 of
                            (st2, Inl x) \<Rightarrow> (st2, Inl x)
                          | (st2, Inr CPending) \<Rightarrow> (st2, Inr JUndef)
                          | (st2, Inr CFail) \<Rightarrow> (st2, Inr (JBool False))
                          | (st2, Inr (CDone dm)) \<Rightarrow>
                              if dm then (st2, Inr JUndef)
                              else ((if 0 < objectLength rs1 then st2\<lparr>v_successList := v_successList st2 @ [e]\<rparr> else st2),
                                    Inr (JBool True)))))))"

section \<open>The form\<close>

definition validatable :: "vst \<Rightarrow> elt \<Rightarrow> bool" where
  "validatable st e \<longleftrightarrow>
     (List.member [''input'', ''select'', ''textarea''] (toLowerCase (e_nodeName e)) \<or> has_attr e ''contenteditable'')
     \<and> \<not> List.member [''submit'', ''reset'', ''image''] (e_type e) \<and> \<not> has_attr e ''disabled''
     \<and> \<not> c_ignore (v_ctx st) e"

fun elements_loop :: "elt list \<Rightarrow> string list \<Rightarrow> vst \<Rightarrow> vst \<times> (jserr + elt list)" where
  \<comment> \<open>the filter function, with the names of \<open>rulesCache\<close>\<close>
  "elements_loop [] seen st = (st, Inr [])"
| "elements_loop (e # es) seen st =
     (if List.member seen (e_name e) then elements_loop es seen st
      else case element_rules st e of
        (st1, Inl x) \<Rightarrow> (st1, Inl x)
      | (st1, Inr rs) \<Rightarrow>
          if objectLength rs = 0 then elements_loop es seen st1
          else (case elements_loop es (e_name e # seen) st1 of
                  (st2, Inl x) \<Rightarrow> (st2, Inl x)
                | (st2, Inr xs) \<Rightarrow> (st2, Inr (e # xs))))"

definition elements :: "vst \<Rightarrow> vst \<times> (jserr + elt list)" where
  "elements st = elements_loop (filter (validatable st) (c_form (v_ctx st))) [] st"

definition valid :: "vst \<Rightarrow> bool" where
  "valid st \<longleftrightarrow> length (v_errorList st) = 0"

definition prepareForm :: "vst \<Rightarrow> vst" where
  "prepareForm st = (reset st)\<lparr>v_toHide := map n_ref (errors st)\<rparr>"

definition prepareElement :: "elt \<Rightarrow> vst \<Rightarrow> vst" where
  "prepareElement e st = (reset st)\<lparr>v_toHide := map n_ref (errorsFor st e)\<rparr>"

fun check_all :: "host \<Rightarrow> vmethods \<Rightarrow> elt list \<Rightarrow> vst \<Rightarrow> vst \<times> (jserr + unit)" where
  "check_all h ms [] st = (st, Inr ())"
| "check_all h ms (e # es) st =
     (case check h ms e st of
        (st1, Inl x) \<Rightarrow> (st1, Inl x)
      | (st1, Inr _) \<Rightarrow> check_all h ms es st1)"

definition checkForm :: "host \<Rightarrow> vmethods \<Rightarrow> vst \<Rightarrow> vst \<times> (jserr + bool)" where
  "checkForm h ms st =
     (case elements (prepareForm st) of
        (st1, Inl x) \<Rightarrow> (st1, Inl x)
      | (st1, Inr es) \<Rightarrow>
          (case check_all h ms es (st1\<lparr>v_currentElements := es\<rparr>) of
             (st2, Inl x) \<Rightarrow> (st2, Inl x)
           | (st2, Inr _) \<Rightarrow> (st2, Inr (valid st2))))"

definition form :: "host \<Rightarrow> vmethods \<Rightarrow> vst \<Rightarrow> vst \<times> (jserr + bool)" where
  "form h ms st =
     (case checkForm h ms st of
        (st1, Inl x) \<Rightarrow> (st1, Inl x)
      | (st1, Inr _) \<Rightarrow>
          (let st2 = st1\<lparr>v_submitted := js_extend (v_submitted st1) (v_errorMap st1),
                         v_invalid := js_extend [] (v_errorMap st1)\<rparr>;
               st3 = (if valid st2 then st2 else st2\<lparr>v_events := v_events st2 @ [InvalidForm]\<rparr>);
               st4 = showErrors h None st3
           in (st4, Inr (valid st4))))"

section \<open>One element\<close>

definition numberOfInvalids :: "vst \<Rightarrow> nat" where
  "numberOfInvalids st = objectLength (v_invalid st)"

fun check_group :: "host \<Rightarrow> vmethods \<Rightarrow> string \<Rightarrow> string \<Rightarrow> string obj \<Rightarrow> bool \<Rightarrow> vst \<Rightarrow> vst \<times> (jserr + bool)" where
  \<comment> \<open>the other elements of the grp that are already invalid\<close>
  "check_group h ms grp own [] result st = (st, Inr result)"
| "check_group h ms grp own ((name, g) # gs) result st =
     (if g = grp \<and> name \<noteq> own then
        (case findByName (v_ctx st) name of
           [] \<Rightarrow> (st, Inl TypeError)
         | x # _ \<Rightarrow>
             (case validationTargetFor (v_ctx st) x of
                None \<Rightarrow> check_group h ms grp own gs result st
              | Some c \<Rightarrow>
                  if obj_has (e_name c) (v_invalid st) then
                    (case check h ms c (st\<lparr>v_currentElements := v_currentElements st @ [c]\<rparr>) of
                       (st1, Inl err) \<Rightarrow> (st1, Inl err)
                     | (st1, Inr r) \<Rightarrow> check_group h ms grp own gs (truthy r \<and> result) st1)
                  else check_group h ms grp own gs result st))
      else check_group h ms grp own gs result st)"

definition element :: "host \<Rightarrow> vmethods \<Rightarrow> elt \<Rightarrow> vst \<Rightarrow> vst \<times> (jserr + bool)" where
  "element h ms e st =
     (case validationTargetFor (v_ctx st) e of
        None \<Rightarrow> (st\<lparr>v_invalid := obj_del (e_name e) (v_invalid st)\<rparr>, Inr True)
      | Some ce \<Rightarrow>
          (let st1 = (prepareElement ce st)\<lparr>v_currentElements := [ce]\<rparr> in
           case (case map_of (v_groups st1) (e_name ce) of
                   None \<Rightarrow> (st1, Inr True)
                 | Some grp \<Rightarrow>
                     if grp = [] then (st1, Inr True)
                     else check_group h ms grp (e_name ce) (v_groups st1) True st1) of
             (st2, Inl x) \<Rightarrow> (st2, Inl x)
           | (st2, Inr result) \<Rightarrow>
               (case check h ms ce st2 of
                  (st3, Inl x) \<Rightarrow> (st3, Inl x)
                | (st3, Inr r) \<Rightarrow>
                    (let rs = (r \<noteq> JBool False);
                         st4 = st3\<lparr>v_invalid := obj_set (e_name ce) (JBool (\<not> rs)) (v_invalid st3)\<rparr>;
                         st5 = showErrors h None st4
                     in (st5\<lparr>v_ariaInvalid := put (e_ref e) (\<not> rs) (v_ariaInvalid st5)\<rparr>, Inr (result \<and> rs))))))"

section \<open>Remote validation\<close>

definition startRequest :: "elt \<Rightarrow> vst \<Rightarrow> vst" where
  "startRequest e st =
     (if truthy (js_prop (v_pending st) (e_name e)) then st
      else (addClass (s_pendingClass (v_set st)) e st)
             \<lparr>v_pendingRequest := v_pendingRequest st + 1, v_pending := obj_set (e_name e) (JBool True) (v_pending st)\<rparr>)"

definition previousValue :: "host \<Rightarrow> vst \<Rightarrow> elt \<Rightarrow> string \<Rightarrow> prev" where
  "previousValue h st e method =
     (case map_of (v_previous st) (e_ref e) of
        Some p \<Rightarrow> p
      | None \<Rightarrow> \<lparr>pv_old = None, pv_valid = True, pv_message = defaultMessage h st e method JUndef, pv_original = JUndef\<rparr>)"

definition ajax_abort :: "request \<Rightarrow> vst \<Rightarrow> vst" where
  \<comment> \<open>the prefilter: a new request on a port aborts the one before, whose callback then never runs\<close>
  "ajax_abort rq st = st\<lparr>v_requests := filter (\<lambda>q. rq_port q \<noteq> rq_port rq) (v_requests st) @ [rq]\<rparr>"

definition messages_for :: "vst \<Rightarrow> string \<Rightarrow> jsval obj" where
  "messages_for st name = (case js_prop (v_messages st) name of JObj kvs \<Rightarrow> kvs | _ \<Rightarrow> [])"

definition remote :: "host \<Rightarrow> vst \<Rightarrow> jsval \<Rightarrow> elt \<Rightarrow> jsval \<Rightarrow> vst \<times> (jserr + jsval)" where
  "remote h st value e param =
     (case optional (v_ctx st) e of
        Inl x \<Rightarrow> (st, Inl x)
      | Inr r \<Rightarrow>
          if truthy r then (st, Inr (JStr ''dependency-mismatch''))
          else
            (let method = ''remote'';
                 p0 = previousValue h st e method;
                 ms0 = messages_for st (e_name e);
                 p1 = p0\<lparr>pv_original := js_or (pv_original p0) (js_prop ms0 method)\<rparr>;
                 st1 = st\<lparr>v_messages := obj_set (e_name e) (JObj (obj_set method (pv_message p1) ms0)) (v_messages st)\<rparr>;
                 pdata = (case param of JObj kvs \<Rightarrow> (case js_prop kvs ''data'' of JObj d \<Rightarrow> d | _ \<Rightarrow> []) | _ \<Rightarrow> []);
                 optionDataString = h_param h (JObj (js_extend [(''data'', value)] pdata))
             in if pv_old p1 = Some optionDataString
                then (st1\<lparr>v_previous := put (e_ref e) p1 (v_previous st)\<rparr>, Inr (JBool (pv_valid p1)))
                else
                  (let p2 = p1\<lparr>pv_old := Some optionDataString\<rparr>;
                       st2 = startRequest e (st1\<lparr>v_previous := put (e_ref e) p2 (v_previous st)\<rparr>);
                       rq = \<lparr>rq_port = ''validate'' @ e_name e, rq_elt = e, rq_method = method, rq_value = value\<rparr>
                   in (ajax_abort rq st2, Inr (JStr ''pending'')))))"

section \<open>The table of methods\<close>

definition text_method :: "(vctx \<Rightarrow> string \<Rightarrow> elt \<Rightarrow> jserr + jsval) \<Rightarrow> vmethod" where
  "text_method f st value e param = (st, f (v_ctx st) (js_String value) e)"

definition param_method :: "(vctx \<Rightarrow> jsval \<Rightarrow> elt \<Rightarrow> jsval \<Rightarrow> jserr + jsval) \<Rightarrow> vmethod" where
  "param_method f st value e param = (st, f (v_ctx st) value e param)"

definition equalTo_method :: "host \<Rightarrow> vmethod" where
  "equalTo_method h st value e param =
     (case equalTo (s_onfocusout (v_set st)) (v_bound st) (h_targets h (v_ctx st) param) value of
        (b, r) \<Rightarrow> (st\<lparr>v_bound := b\<rparr>, Inr r))"

definition local_methods :: "host \<Rightarrow> (string \<times> vmethod) list" where
  "local_methods h =
     [(''required'', param_method required), (''email'', text_method email), (''url'', text_method url),
      (''date'', text_method (date (h_date h))), (''dateISO'', text_method dateISO), (''number'', text_method number),
      (''digits'', text_method digits), (''minlength'', param_method minlength), (''maxlength'', param_method maxlength),
      (''rangelength'', param_method rangelength), (''min'', param_method min_method), (''max'', param_method max_method),
      (''range'', param_method range_method), (''step'', param_method step)]"

definition methods :: "host \<Rightarrow> (string \<times> vmethod) list" where
  \<comment> \<open>in the order of the source\<close>
  "methods h = local_methods h @ [(''equalTo'', equalTo_method h), (''remote'', remote h)]"

section \<open>Submitting\<close>

definition handle :: "host \<Rightarrow> vst \<Rightarrow> vst \<times> jsval" where
  \<comment> \<open>a hidden input stands in for the submit button that a scripted submit leaves out\<close>
  "handle h st =
     (let hidden = (case v_submitButton st of
            None \<Rightarrow> []
          | Some b \<Rightarrow> if s_submitHandler (v_set st) \<noteq> None \<or> v_formSubmitted st then [HiddenInput (e_name b)] else [])
      in case s_submitHandler (v_set st) of
           Some f \<Rightarrow> (st\<lparr>v_events := v_events st @ hidden @ [Handled f] @ (if hidden \<noteq> [] then [HiddenRemoved] else [])\<rparr>,
                      if h_submit h f \<noteq> JUndef then h_submit h f else JBool False)
         | None \<Rightarrow> (st\<lparr>v_events := v_events st @ hidden\<rparr>, JBool True))"

definition findLastActive :: "vst \<Rightarrow> elt option" where
  "findLastActive st =
     (case v_lastActive st of
        None \<Rightarrow> None
      | Some la \<Rightarrow>
          if length (filter (\<lambda>er. e_name (er_element er) = e_name la) (v_errorList st)) = 1 then Some la else None)"

definition onfocusin :: "elt \<Rightarrow> vst \<Rightarrow> vst" where
  "onfocusin e st =
     (let st1 = st\<lparr>v_lastActive := Some e\<rparr> in
      if s_focusCleanup (v_set st1) then
        (let st2 = (if s_unhighlight (v_set st1) then unhighlight (s_validClass (v_set st1)) e st1 else st1)
         in hideThese (map n_ref (errorsFor st2 e)) st2)
      else st1)"

definition focusInvalid :: "vst \<Rightarrow> vst" where
  "focusInvalid st =
     (if s_focusInvalid (v_set st) then
        (case (case findLastActive st of
                 Some e \<Rightarrow> Some e
               | None \<Rightarrow> (case v_errorList st of [] \<Rightarrow> None | er # _ \<Rightarrow> Some (er_element er))) of
           None \<Rightarrow> st
         | Some e \<Rightarrow>
             if c_ignore (v_ctx st) e then st
             else onfocusin e (st\<lparr>v_events := v_events st @ [FocusOn (e_ref e)]\<rparr>))
      else st)"

definition on_submit :: "host \<Rightarrow> vmethods \<Rightarrow> vst \<Rightarrow> vst \<times> (jserr + jsval)" where
  \<comment> \<open>the submit handler of the form; an answer false keeps the browser from submitting\<close>
  "on_submit h ms st =
     (if v_cancelSubmit st then
        (case handle h (st\<lparr>v_cancelSubmit := False\<rparr>) of (st1, r) \<Rightarrow> (st1, Inr r))
      else case form h ms st of
        (st1, Inl x) \<Rightarrow> (st1, Inl x)
      | (st1, Inr ok) \<Rightarrow>
          if ok then
            (if v_pendingRequest st1 \<noteq> 0 then (st1\<lparr>v_formSubmitted := True\<rparr>, Inr (JBool False))
             else (case handle h st1 of (st2, r) \<Rightarrow> (st2, Inr r)))
          else (focusInvalid st1, Inr (JBool False)))"

definition submit :: "host \<Rightarrow> vmethods \<Rightarrow> vst \<Rightarrow> vst \<times> (jserr + unit)" where
  \<comment> \<open>the submit event: the handler, then the browser unless the handler returned false or, with the
    debug setting, prevented it\<close>
  "submit h ms st =
     (case on_submit h ms st of
        (st1, Inl x) \<Rightarrow> (st1, Inl x)
      | (st1, Inr r) \<Rightarrow>
          (if r = JBool False \<or> s_debug (v_set st1) then st1 else st1\<lparr>v_events := v_events st1 @ [NativeSubmit]\<rparr>, Inr ()))"

definition stopRequest :: "host \<Rightarrow> vmethods \<Rightarrow> elt \<Rightarrow> bool \<Rightarrow> vst \<Rightarrow> vst \<times> (jserr + unit)" where
  "stopRequest h ms e ok st =
     (let n = v_pendingRequest st - 1;
          st1 = removeClass (s_pendingClass (v_set st)) e
                  (st\<lparr>v_pendingRequest := (if n < 0 then 0 else n), v_pending := obj_del (e_name e) (v_pending st)\<rparr>)
      in if ok \<and> v_pendingRequest st1 = 0 \<and> v_formSubmitted st1 then
           (case form h ms st1 of
              (st2, Inl x) \<Rightarrow> (st2, Inl x)
            | (st2, Inr good) \<Rightarrow>
                if good then
                  (case submit h ms st2 of
                     (st3, Inl x) \<Rightarrow> (st3, Inl x)
                   | (st3, Inr _) \<Rightarrow> (st3\<lparr>v_formSubmitted := False\<rparr>, Inr ()))
                else (st2, Inr ()))
         else if \<not> ok \<and> v_pendingRequest st1 = 0 \<and> v_formSubmitted st1 then
           (st1\<lparr>v_events := v_events st1 @ [InvalidForm], v_formSubmitted := False\<rparr>, Inr ())
         else (st1, Inr ()))"

definition remote_success :: "host \<Rightarrow> vmethods \<Rightarrow> request \<Rightarrow> jsval \<Rightarrow> vst \<Rightarrow> vst \<times> (jserr + unit)" where
  \<comment> \<open>the callback of a request that was not aborted\<close>
  "remote_success h ms rq response st =
     (let e = rq_elt rq; method = rq_method rq;
          ok = (response = JBool True \<or> response = JStr ''true'');
          p = previousValue h st e method;
          st1 = st\<lparr>v_requests := filter (\<lambda>q. rq_port q \<noteq> rq_port rq) (v_requests st),
                   v_messages := obj_set (e_name e)
                     (JObj (obj_set method (pv_original p) (messages_for st (e_name e)))) (v_messages st)\<rparr>;
          st2 = (if ok then
                   (let s = resetInternals st1;
                        s = s\<lparr>v_toHide := map n_ref (errorsFor s e), v_successList := [e],
                              v_invalid := obj_set (e_name e) (JBool False) (v_invalid s)\<rparr>
                    in showErrors h None s)
                 else
                   (let message = (if truthy response then response else defaultMessage h st1 e method (rq_value rq))
                    in showErrors h (Some [(e_name e, message)])
                         (st1\<lparr>v_invalid := obj_set (e_name e) (JBool True) (v_invalid st1)\<rparr>)));
          message = (if ok then pv_message p else if truthy response then response
                     else defaultMessage h st1 e method (rq_value rq));
          st3 = st2\<lparr>v_previous := put (e_ref e) (p\<lparr>pv_message := message, pv_valid := ok\<rparr>) (v_previous st2)\<rparr>
      in stopRequest h ms e ok st3)"

section \<open>Event handlers\<close>

definition onfocusout :: "host \<Rightarrow> vmethods \<Rightarrow> elt \<Rightarrow> vst \<Rightarrow> vst \<times> (jserr + unit)" where
  "onfocusout h ms e st =
     (if checkable e then (st, Inr ())
      else if obj_has (e_name e) (v_submitted st) then map_prod id (map_sum id (\<lambda>_. ())) (element h ms e st)
      else (case optional (v_ctx st) e of
              Inl x \<Rightarrow> (st, Inl x)
            | Inr r \<Rightarrow> if truthy r then (st, Inr ()) else map_prod id (map_sum id (\<lambda>_. ())) (element h ms e st)))"

definition excludedKeys :: "nat list" where
  "excludedKeys = [16, 17, 18, 20, 35, 36, 37, 38, 39, 40, 45, 144, 225]"

definition onkeyup :: "host \<Rightarrow> vmethods \<Rightarrow> elt \<Rightarrow> nat \<Rightarrow> vst \<Rightarrow> vst \<times> (jserr + unit)" where
  "onkeyup h ms e key st =
     (case (if key = 9 then elementValue (v_ctx st) e else Inr JUndef) of
        Inl x \<Rightarrow> (st, Inl x)
      | Inr val \<Rightarrow>
          if key = 9 \<and> val = JStr [] \<or> List.member excludedKeys key then (st, Inr ())
          else if obj_has (e_name e) (v_submitted st) \<or> obj_has (e_name e) (v_invalid st)
          then map_prod id (map_sum id (\<lambda>_. ())) (element h ms e st)
          else (st, Inr ()))"

definition onclick :: "host \<Rightarrow> vmethods \<Rightarrow> elt \<Rightarrow> elt \<Rightarrow> vst \<Rightarrow> vst \<times> (jserr + unit)" where
  \<comment> \<open>the element and its parent node\<close>
  "onclick h ms e parent st =
     (if obj_has (e_name e) (v_submitted st) then map_prod id (map_sum id (\<lambda>_. ())) (element h ms e st)
      else if obj_has (e_name parent) (v_submitted st) then map_prod id (map_sum id (\<lambda>_. ())) (element h ms parent st)
      else (st, Inr ()))"

definition valid_plugin :: "host \<Rightarrow> vmethods \<Rightarrow> elt list \<Rightarrow> vst \<Rightarrow> vst \<times> (jserr + bool)" where
  \<comment> \<open>\<open>$(elements).valid()\<close> on elements of the form\<close>
  "valid_plugin h ms es st =
     (let step = (\<lambda>e acc. case acc of
          (s, Inl x) \<Rightarrow> (s, Inl x)
        | (s, Inr (ok, errs)) \<Rightarrow>
            (case element h ms e s of
               (s1, Inl x) \<Rightarrow> (s1, Inl x)
             | (s1, Inr good) \<Rightarrow>
                 (s1, Inr (good \<and> ok, if good \<and> ok then errs else errs @ v_errorList s1))))
      in case fold step es (st, Inr (True, [])) of
           (s, Inl x) \<Rightarrow> (s, Inl x)
         | (s, Inr (ok, errs)) \<Rightarrow> (s\<lparr>v_errorList := errs\<rparr>, Inr ok))"

datatype ui_event = FocusIn | FocusOut | KeyUp nat | Click elt

definition delegate :: "host \<Rightarrow> vmethods \<Rightarrow> elt \<Rightarrow> ui_event \<Rightarrow> vst \<Rightarrow> vst \<times> (jserr + unit)" where
  "delegate h ms e ev st =
     (if c_ignore (v_ctx st) e then (st, Inr ())
      else case ev of
        FocusIn \<Rightarrow> (onfocusin e st, Inr ())
      | FocusOut \<Rightarrow> if s_onfocusout (v_set st) then onfocusout h ms e st else (st, Inr ())
      | KeyUp key \<Rightarrow> onkeyup h ms e key st
      | Click parent \<Rightarrow> onclick h ms e parent st)"

definition click_submit :: "elt \<Rightarrow> vst \<Rightarrow> vst" where
  "click_submit button st =
     (let st1 = st\<lparr>v_submitButton := Some button\<rparr>
      in if List.member (split_on (\<lambda>c. c = CHR '' '') (case obj_get (e_attrs button) ''class'' of None \<Rightarrow> [] | Some c \<Rightarrow> c)) ''cancel''
            \<or> has_attr button ''formnovalidate''
         then st1\<lparr>v_cancelSubmit := True\<rparr> else st1)"

definition resetForm :: "vst \<Rightarrow> vst \<times> (jserr + unit)" where
  "resetForm st =
     (let st1 = hideErrors (prepareForm (st\<lparr>v_invalid := [], v_submitted := []\<rparr>)) in
      case elements st1 of
        (st2, Inl x) \<Rightarrow> (st2, Inl x)
      | (st2, Inr es) \<Rightarrow>
          (resetElements es (st2\<lparr>v_previous := filter (\<lambda>p. \<not> List.member (map e_ref es) (fst p)) (v_previous st2),
                                 v_ariaInvalid := filter (\<lambda>p. \<not> List.member (map e_ref es) (fst p)) (v_ariaInvalid st2)\<rparr>),
           Inr ()))"

end
