(* ===== verification/ValidatorLaws.thy ===== *)
theory ValidatorLaws
  imports Validator
begin

text \<open>
  What the validator guarantees.  Two interfaces state what it relies on in the methods it calls:
  \<open>static_methods\<close> for methods that answer from the form alone, under which the check of an element
  reports its first failing rule and the check of a form succeeds exactly when every element does,
  and \<open>request_methods\<close> for methods that may start requests, under which the count of pending
  requests stays right.  Both are interpreted on the methods of the library.
\<close>

section \<open>What the operations leave alone\<close>

text \<open>The part of the state that decides which rules an element has and what they answer.\<close>

definition core :: "vst \<Rightarrow> vctx \<times> vlib \<times> settings \<times> jsval obj \<times> jsval obj \<times> string obj" where
  "core st = (v_ctx st, v_lib st, v_set st, v_rules st, v_messages st, v_groups st)"

text \<open>The part that only error reporting changes.\<close>

definition report :: "vst \<Rightarrow> err list \<times> jsval obj \<times> jsval obj \<times> jsval obj" where
  "report st = (v_errorList st, v_errorMap st, v_submitted st, v_invalid st)"

definition traffic :: "vst \<Rightarrow> jsval obj \<times> int \<times> request list" where
  "traffic st = (v_pending st, v_pendingRequest st, v_requests st)"

named_theorems keeps \<open>what the operations of the validator keep\<close>

lemma keeps_fold: "(\<And>x s. x \<in> set xs \<Longrightarrow> P (f x s) = P s) \<Longrightarrow> P (fold f xs s) = P s"
  by (induction xs arbitrary: s) auto

lemma keeps_class [keeps]:
  "core (addClass c e st) = core st" "report (addClass c e st) = report st" "traffic (addClass c e st) = traffic st"
  "core (removeClass c e st) = core st" "report (removeClass c e st) = report st" "traffic (removeClass c e st) = traffic st"
  by (simp_all add: addClass_def removeClass_def core_def report_def traffic_def)

lemma keeps_highlight [keeps]:
  "core (highlight e st) = core st" "report (highlight e st) = report st" "traffic (highlight e st) = traffic st"
  "core (unhighlight c e st) = core st" "report (unhighlight c e st) = report st" "traffic (unhighlight c e st) = traffic st"
  by (simp_all only: highlight_def unhighlight_def) (rule keeps_fold; simp add: keeps)+

lemma keeps_labels [keeps]:
  "core (on_labels r f st) = core st" "report (on_labels r f st) = report st" "traffic (on_labels r f st) = traffic st"
  by (simp_all add: on_labels_def core_def report_def traffic_def)

lemma keeps_hide [keeps]:
  "core (hideThese r st) = core st" "report (hideThese r st) = report st" "traffic (hideThese r st) = traffic st"
  "core (hideErrors st) = core st" "report (hideErrors st) = report st" "traffic (hideErrors st) = traffic st"
  by (simp_all add: hideErrors_def hideThese_def keeps)

lemma keeps_describe [keeps]:
  "core (describe h e n st) = core st" "report (describe h e n st) = report st" "traffic (describe h e n st) = traffic st"
proof -
  have c: "core (fold (\<lambda>x s. s\<lparr>v_describedby := put (e_ref x) i (v_describedby s)\<rparr>) xs s) = core s" for i xs s
    by (rule keeps_fold) (simp add: core_def)
  have r: "report (fold (\<lambda>x s. s\<lparr>v_describedby := put (e_ref x) i (v_describedby s)\<rparr>) xs s) = report s" for i xs s
    by (rule keeps_fold) (simp add: report_def)
  have t: "traffic (fold (\<lambda>x s. s\<lparr>v_describedby := put (e_ref x) i (v_describedby s)\<rparr>) xs s) = traffic s" for i xs s
    by (rule keeps_fold) (simp add: traffic_def)
  show "core (describe h e n st) = core st" by (simp add: describe_def Let_def c split: option.splits) (simp add: core_def)
  show "report (describe h e n st) = report st" by (simp add: describe_def Let_def r split: option.splits) (simp add: report_def)
  show "traffic (describe h e n st) = traffic st" by (simp add: describe_def Let_def t split: option.splits) (simp add: traffic_def)
qed

lemma keeps_new_label [keeps]:
  "core (st\<lparr>v_labels := x\<rparr>) = core st" "report (st\<lparr>v_labels := x\<rparr>) = report st" "traffic (st\<lparr>v_labels := x\<rparr>) = traffic st"
  "core (st\<lparr>v_toShow := y\<rparr>) = core st" "report (st\<lparr>v_toShow := y\<rparr>) = report st" "traffic (st\<lparr>v_toShow := y\<rparr>) = traffic st"
  "core (st\<lparr>v_toHide := y\<rparr>) = core st" "report (st\<lparr>v_toHide := y\<rparr>) = report st" "traffic (st\<lparr>v_toHide := y\<rparr>) = traffic st"
  by (simp_all add: core_def report_def traffic_def)

lemma keeps_showLabel [keeps]:
  "core (showLabel h e m st) = core st" "report (showLabel h e m st) = report st" "traffic (showLabel h e m st) = traffic st"
  by (simp_all add: showLabel_def Let_def keeps split: option.splits)

lemma keeps_defaultShowErrors [keeps]:
  "core (defaultShowErrors h st) = core st" "report (defaultShowErrors h st) = report st"
  "traffic (defaultShowErrors h st) = traffic st"
proof -
  have f: "P (fold f xs s) = P s" if "\<And>x s. P (f x s) = P s" for P :: "vst \<Rightarrow> 'a" and f :: "'b \<Rightarrow> vst \<Rightarrow> vst" and xs s
    by (rule keeps_fold) (rule that)
  have k: "P (defaultShowErrors h st) = P st"
    if "\<And>e m s. P (showLabel h e m s) = P s" "\<And>e s. P (highlight e s) = P s" "\<And>c e s. P (unhighlight c e s) = P s"
      "\<And>s y. P (s\<lparr>v_toHide := y\<rparr>) = P s" "\<And>s. P (hideErrors s) = P s" "\<And>r g s. P (on_labels r g s) = P s"
    for P :: "vst \<Rightarrow> 'c"
  proof -
    have L: "P (Let a g) = P st" if "P a = P st" "\<And>y. P y = P st \<Longrightarrow> P (g y) = P st" for a g
      by (simp add: that)
    show ?thesis unfolding defaultShowErrors_def by (rule L, simp add: that f)+ (simp add: that)
  qed
  show "core (defaultShowErrors h st) = core st" "report (defaultShowErrors h st) = report st"
    "traffic (defaultShowErrors h st) = traffic st"
    by (rule k; simp add: keeps)+
qed

lemma keeps_showErrors [keeps]:
  "core (showErrors h es st) = core st" "traffic (showErrors h es st) = traffic st"
  "report (showErrors h None st) = report st"
  by (simp_all add: showErrors_def Let_def keeps split: option.splits) (simp_all add: core_def traffic_def)

lemma keeps_reset [keeps]:
  "core (reset st) = core st" "traffic (reset st) = traffic st"
  "core (resetInternals st) = core st" "traffic (resetInternals st) = traffic st"
  "core (prepareForm st) = core st" "traffic (prepareForm st) = traffic st"
  "core (prepareElement e st) = core st" "traffic (prepareElement e st) = traffic st"
  by (simp_all add: prepareForm_def prepareElement_def reset_def resetInternals_def core_def traffic_def)

lemma keeps_resetElements [keeps]:
  "core (resetElements es st) = core st" "report (resetElements es st) = report st" "traffic (resetElements es st) = traffic st"
proof -
  have k: "P (resetElements es st) = P st"
    if p: "\<And>c e s. P (removeClass c e s) = P s" "\<And>c e s. P (unhighlight c e s) = P s" for P :: "vst \<Rightarrow> 'a"
  proof -
    have "P (fold (removeClass c) xs s) = P s" for c xs s by (rule keeps_fold) (rule p)
    then show ?thesis unfolding resetElements_def by (auto simp: p intro: keeps_fold)
  qed
  show "core (resetElements es st) = core st" "report (resetElements es st) = report st"
    "traffic (resetElements es st) = traffic st"
    by (rule k; simp add: keeps)+
qed

lemma keeps_element_rules [keeps]:
  "core (fst (element_rules st e)) = core st" "report (fst (element_rules st e)) = report st"
  "traffic (fst (element_rules st e)) = traffic st"
  by (auto simp: element_rules_def keeps split: sum.splits)

lemma keeps_formatAndAdd [keeps]:
  "core (formatAndAdd h e m p st) = core st" "traffic (formatAndAdd h e m p st) = traffic st"
  by (simp_all add: formatAndAdd_def Let_def core_def traffic_def)

end
