(* ===== verification/ValidatorForm.thy ===== *)
theory ValidatorForm
  imports ValidatorLaws
begin

text \<open>
  What the check of a form reports when its methods answer from the form alone.  The interface
  \<open>static_methods\<close> states that; the verdict on an element is then a function of the rules, the
  value and the methods, and the lemmas of the locale show that the check of an element, of a list
  of elements and of the form compute it.  The locale is interpreted on the methods of the library
  that need no server.
\<close>

section \<open>The elements of the form\<close>

lemma keeps_elements_loop:
  "core (fst (elements_loop xs seen st)) = core st \<and> report (fst (elements_loop xs seen st)) = report st
   \<and> traffic (fst (elements_loop xs seen st)) = traffic st"
proof (induction xs arbitrary: seen st)
  case (Cons x xs)
  obtain s r where e: "element_rules st x = (s, r)" by force
  then have "core s = core st" "report s = report st" "traffic s = traffic st"
    using keeps_element_rules [of st x] by simp_all
  then show ?case using Cons [of seen st] Cons [of seen s] Cons [of "e_name x # seen" s] e
    by (auto split: sum.splits prod.splits)
qed simp

lemma keeps_elements [keeps]:
  "core (fst (elements st)) = core st" "report (fst (elements st)) = report st" "traffic (fst (elements st)) = traffic st"
  by (simp_all add: elements_def keeps_elements_loop)

section \<open>The verdict on an element\<close>

fun first_failing :: "(string \<Rightarrow> jsval \<Rightarrow> jserr + jsval) \<Rightarrow> jsval obj \<Rightarrow> jserr + (string \<times> jsval) option" where
  "first_failing g [] = Inr None"
| "first_failing g (p # rest) =
     (case g (fst p) (snd p) of
        Inl x \<Rightarrow> Inl x
      | Inr r \<Rightarrow> if truthy r then first_failing g rest else Inr (Some p))"

type_synonym static_meth = "string \<Rightarrow> (vctx \<Rightarrow> jsval \<Rightarrow> elt \<Rightarrow> jsval \<Rightarrow> jserr + jsval) option"

definition answer :: "static_meth \<Rightarrow> vctx \<Rightarrow> jsval \<Rightarrow> elt \<Rightarrow> string \<Rightarrow> jsval \<Rightarrow> jserr + jsval" where
  "answer meth v val e m p = (case meth m of None \<Rightarrow> Inl TypeError | Some f \<Rightarrow> f v val e p)"

definition verdict :: "host \<Rightarrow> static_meth \<Rightarrow> vst \<Rightarrow> elt \<Rightarrow> jserr + (elt \<times> (string \<times> jsval) option)" where
  "verdict h meth st e0 =
     (case validationTargetFor (v_ctx st) e0 of
        None \<Rightarrow> Inl TypeError
      | Some e \<Rightarrow>
          (case rules (v_lib st) (v_ctx st) (v_rules st) e of
             Inl x \<Rightarrow> Inl x
           | Inr (rs, b) \<Rightarrow>
               (case elementValue (v_ctx st) e of
                  Inl x \<Rightarrow> Inl x
                | Inr val0 \<Rightarrow>
                    (case normalize_value h st rs e val0 of
                       Inl x \<Rightarrow> Inl x
                     | Inr (val, rs1) \<Rightarrow> map_sum id (\<lambda>f. (e, f)) (first_failing (answer meth (v_ctx st) val e) rs1)))))"

definition passes :: "host \<Rightarrow> static_meth \<Rightarrow> vst \<Rightarrow> elt \<Rightarrow> bool" where
  "passes h meth st e \<longleftrightarrow> (case verdict h meth st e of Inr (t, None) \<Rightarrow> True | _ \<Rightarrow> False)"

definition fault :: "host \<Rightarrow> static_meth \<Rightarrow> vst \<Rightarrow> elt \<Rightarrow> (elt \<times> string) list" where
  "fault h meth st e = (case verdict h meth st e of Inr (t, Some p) \<Rightarrow> [(t, fst p)] | _ \<Rightarrow> [])"

definition reported :: "vst \<Rightarrow> (elt \<times> string) list" where
  "reported st = map (\<lambda>er. (er_element er, the (er_method er))) (v_errorList st)"

lemma core_eqD:
  assumes "core s = core st"
  shows "v_ctx s = v_ctx st" "v_lib s = v_lib st" "v_set s = v_set st" "v_rules s = v_rules st"
  using assms by (simp_all add: core_def)

lemma normalize_value_core: "core s = core st \<Longrightarrow> normalize_value h s = normalize_value h st"
  unfolding normalize_value_def fun_eq_iff using core_eqD(3) [of s st] by presburger

lemma verdict_core: "core s = core st \<Longrightarrow> verdict h meth s = verdict h meth st"
  unfolding verdict_def fun_eq_iff using core_eqD [of s st] normalize_value_core [of s st h] by presburger

lemma faults_none: "(\<And>e. e \<in> set es \<Longrightarrow> \<exists>r. verdict h meth st e = Inr r) \<Longrightarrow>
    (concat (map (fault h meth st) es) = []) = list_all (passes h meth st) es"
proof (induction es)
  case (Cons e es)
  from Cons.prems [of e] obtain t f where "verdict h meth st e = Inr (t, f)" by auto
  then have "(fault h meth st e = []) = passes h meth st e" by (cases f) (simp_all add: fault_def passes_def)
  with Cons show ?case by simp
qed simp

section \<open>Methods that answer from the form alone\<close>

locale static_methods =
  fixes ms :: vmethods and meth :: static_meth
  assumes answers: "ms m = None \<longleftrightarrow> meth m = None"
    and static: "ms m = Some f \<Longrightarrow> meth m = Some g \<Longrightarrow> f st val e p = (st, g (v_ctx st) val e p)"
    and no_request: "meth m = Some g \<Longrightarrow> g v val e p \<noteq> Inr (JStr ''pending'')"
begin

lemma check_rules_static:
  "case first_failing (answer meth (v_ctx st) val e) rs of
     Inl x \<Rightarrow> check_rules h ms single e val rs dm st = (st, Inl x)
   | Inr None \<Rightarrow> (\<exists>b. check_rules h ms single e val rs dm st = (st, Inr (CDone b)))
   | Inr (Some p) \<Rightarrow> check_rules h ms single e val rs dm st = (formatAndAdd h e (fst p) (snd p) st, Inr CFail)"
proof (induction rs arbitrary: dm)
  case (Cons p rs)
  show ?case
  proof (cases "ms (fst p)")
    case None
    then have "meth (fst p) = None" using answers by simp
    with None show ?thesis by (simp add: answer_def)
  next
    case (Some f)
    then obtain g where g: "meth (fst p) = Some g" using answers [of "fst p"] by (cases "meth (fst p)") auto
    have f: "f st val e (snd p) = (st, g (v_ctx st) val e (snd p))" by (rule static [OF Some g])
    have a: "answer meth (v_ctx st) val e (fst p) (snd p) = g (v_ctx st) val e (snd p)" using g by (simp add: answer_def)
    show ?thesis
    proof (cases "g (v_ctx st) val e (snd p)")
      case (Inr r)
      then have "r \<noteq> JStr ''pending''" using no_request [OF g, of "v_ctx st" val e "snd p"] by auto
      then have "check_rules h ms single e val (p # rs) dm st =
          (if truthy r then check_rules h ms single e val rs (r = JStr ''dependency-mismatch'' \<and> single) st
           else (formatAndAdd h e (fst p) (snd p) st, Inr CFail))"
        using Some f Inr by (cases "r = JStr ''dependency-mismatch'' \<and> single") auto
      moreover have "first_failing (answer meth (v_ctx st) val e) (p # rs)
          = (if truthy r then first_failing (answer meth (v_ctx st) val e) rs else Inr (Some p))"
        using a Inr by simp
      ultimately show ?thesis using Cons.IH by (cases "truthy r") (simp_all only: if_True if_False sum.case option.case)
    qed (use Some f a in simp)
  qed
qed simp

lemma check_static:
  assumes "verdict h meth st e0 = Inr (t, f)"
  shows "\<exists>st' r. check h ms e0 st = (st', Inr r) \<and> core st' = core st \<and> reported st' = reported st @ fault h meth st e0"
proof -
  from assms obtain rs b val0 val rs1 where t: "validationTargetFor (v_ctx st) e0 = Some t"
    and rs: "rules (v_lib st) (v_ctx st) (v_rules st) t = Inr (rs, b)" and v0: "elementValue (v_ctx st) t = Inr val0"
    and nv: "normalize_value h st rs t val0 = Inr (val, rs1)" and ff: "first_failing (answer meth (v_ctx st) val t) rs1 = Inr f"
    by (auto simp: verdict_def map_sum_def split: option.splits sum.splits prod.splits)
  define st1 where "st1 = (if b then resetElements [t] st else st)"
  have c: "core st1 = core st" and r: "report st1 = report st" by (simp_all add: st1_def keeps)
  then have ctx: "v_ctx st1 = v_ctx st" and nv1: "normalize_value h st1 = normalize_value h st"
    by (simp add: core_def) (rule normalize_value_core [OF c])
  have er: "element_rules st t = (st1, Inr rs)" by (simp add: element_rules_def rs st1_def)
  note cr = check_rules_static [where st = st1 and val = val and e = t and rs = rs1 and h = h and single = "length rs = 1" and dm = False]
  have rep: "reported st1 = reported st" using r by (simp add: reported_def report_def)
  show ?thesis
  proof (cases f)
    case None
    from cr ff ctx None obtain dm where "check_rules h ms (length rs = 1) t val rs1 False st1 = (st1, Inr (CDone dm))" by auto
    then show ?thesis using None assms c rep
      by (simp add: check_def t er v0 nv nv1 fault_def) (simp add: core_def reported_def)
  next
    case (Some p)
    then have "check_rules h ms (length rs = 1) t val rs1 False st1 = (formatAndAdd h t (fst p) (snd p) st1, Inr CFail)"
      using cr ff ctx by simp
    then show ?thesis using Some assms c rep
      by (simp add: check_def t er v0 nv nv1 fault_def keeps) (simp add: reported_def formatAndAdd_def Let_def)
  qed
qed

lemma check_all_static:
  assumes "\<And>e. e \<in> set es \<Longrightarrow> \<exists>r. verdict h meth st e = Inr r"
  shows "\<exists>st'. check_all h ms es st = (st', Inr ()) \<and> core st' = core st
    \<and> reported st' = reported st @ concat (map (fault h meth st) es)"
  using assms
proof (induction es arbitrary: st)
  case (Cons e es)
  from Cons.prems [of e] obtain t f where "verdict h meth st e = Inr (t, f)" by auto
  from check_static [OF this] obtain st1 r where c: "check h ms e st = (st1, Inr r)" "core st1 = core st"
    "reported st1 = reported st @ fault h meth st e" by blast
  note v = verdict_core [OF c(2), of h meth]
  then have fe: "fault h meth st1 = fault h meth st" by (simp add: fault_def fun_eq_iff)
  have "\<And>e. e \<in> set es \<Longrightarrow> \<exists>r. verdict h meth st1 e = Inr r" using Cons.prems v by simp
  from Cons.IH [OF this] c fe show ?case by auto
qed simp

lemma form_static:
  assumes el: "elements (prepareForm st) = (s1, Inr es)" and ok: "\<And>e. e \<in> set es \<Longrightarrow> \<exists>r. verdict h meth st e = Inr r"
  shows "\<exists>st'. form h ms st = (st', Inr (list_all (passes h meth st) es)) \<and> core st' = core st
    \<and> reported st' = concat (map (fault h meth st) es)"
proof -
  have k: "core (fst (elements s)) = core s \<and> reported (fst (elements s)) = reported s" for s
    using keeps_elements(1,2) [of s] by (simp add: reported_def report_def)
  define s2 where "s2 = s1\<lparr>v_currentElements := es\<rparr>"
  have c2: "core s2 = core st" using k [of "prepareForm st"] el by (simp add: s2_def keeps core_def)
       (simp add: core_def prepareForm_def reset_def resetInternals_def)
  have r2: "reported s2 = []" using k [of "prepareForm st"] el
    by (simp add: s2_def reported_def prepareForm_def reset_def resetInternals_def)
  have v: "verdict h meth s2 = verdict h meth st" by (rule verdict_core [OF c2])
  then have fe: "fault h meth s2 = fault h meth st" by (simp add: fault_def fun_eq_iff)
  obtain s3 where ca: "check_all h ms es s2 = (s3, Inr ())" "core s3 = core st" "reported s3 = concat (map (fault h meth st) es)"
    using check_all_static [of es h s2] ok r2 c2 by (auto simp: v fe)
  then have val: "valid s3 = list_all (passes h meth st) es"
    using faults_none [of es h meth st] ok by (metis length_0_conv map_is_Nil_conv reported_def valid_def)
  define s4 where "s4 = s3\<lparr>v_submitted := js_extend (v_submitted s3) (v_errorMap s3), v_invalid := js_extend [] (v_errorMap s3),
    v_events := (if valid s3 then v_events s3 else v_events s3 @ [InvalidForm])\<rparr>"
  have "form h ms st = (showErrors h None s4, Inr (valid (showErrors h None s4)))"
    using el ca(1) by (simp add: form_def checkForm_def s2_def s4_def Let_def valid_def)
  moreover have "core (showErrors h None s4) = core st" using ca(2) by (simp add: keeps s4_def) (simp add: core_def)
  moreover have "v_errorList (showErrors h None s4) = v_errorList s3"
    using keeps_showErrors(3) [of h s4] by (simp add: report_def s4_def)
  ultimately show ?thesis using val ca(3) by (simp add: valid_def reported_def)
qed

end

section \<open>The methods of the library\<close>

definition text_answer :: "(vctx \<Rightarrow> string \<Rightarrow> elt \<Rightarrow> jserr + jsval) \<Rightarrow> vctx \<Rightarrow> jsval \<Rightarrow> elt \<Rightarrow> jsval \<Rightarrow> jserr + jsval" where
  "text_answer f v val e p = f v (js_String val) e"

definition local_answers :: "host \<Rightarrow> (string \<times> (vctx \<Rightarrow> jsval \<Rightarrow> elt \<Rightarrow> jsval \<Rightarrow> jserr + jsval)) list" where
  "local_answers h =
     [(''required'', required), (''email'', text_answer email), (''url'', text_answer url),
      (''date'', text_answer (date (h_date h))), (''dateISO'', text_answer dateISO), (''number'', text_answer number),
      (''digits'', text_answer digits), (''minlength'', minlength), (''maxlength'', maxlength),
      (''rangelength'', rangelength), (''min'', min_method), (''max'', max_method),
      (''range'', range_method), (''step'', step)]"

lemma local_methods_eq: "local_methods h = map (\<lambda>p. (fst p, param_method (snd p))) (local_answers h)"
proof -
  have "text_method f = param_method (text_answer f)" for f
    by (simp add: fun_eq_iff text_method_def param_method_def text_answer_def)
  then show ?thesis by (simp add: local_methods_def local_answers_def)
qed

lemma map_of_local: "map_of (local_methods h) m = map_option param_method (map_of (local_answers h) m)"
proof -
  have "map_of (map (\<lambda>p. (fst p, param_method (snd p))) xs) m = map_option param_method (map_of xs m)" for xs
    by (induction xs) auto
  then show ?thesis by (simp only: local_methods_eq)
qed

definition final :: "jserr + jsval \<Rightarrow> bool" where
  "final r \<longleftrightarrow> r \<noteq> Inr (JStr ''pending'')"

lemma final_simps [simp]: "final (Inl x)" "final (Inr (JBool b))" "final (Inr (JStr ''dependency-mismatch''))"
  by (simp_all add: final_def)

lemma final_unless_optional: "final (k ()) \<Longrightarrow> final (unless_optional v e k)"
  by (auto simp: unless_optional_def optional_def split: sum.splits if_splits)

lemma final_required: "final (required v val e p)"
proof -
  have "final (map_sum id (\<lambda>n. JBool (positive n)) x)" for x :: "jserr + jsval" by (cases x) simp_all
  moreover have "final (Inr w)" if "\<not> truthy w" for w using that by (auto simp: final_def)
  ultimately show ?thesis by (simp add: required_def)
qed

lemma final_pair: "final (pair_param p k)"
  by (simp add: pair_param_def split: jsval.splits)

lemma final_step: "final (step v val e p)"
  unfolding step_def Let_def by (auto intro!: final_unless_optional split: option.splits)

lemma final_local: "map_of (local_answers h) m = Some g \<Longrightarrow> final (g v val e p)"
  by (auto simp: local_answers_def text_answer_def email_def url_def date_def dateISO_def number_def digits_def minlength_def maxlength_def
      rangelength_def min_method_def max_method_def range_method_def final_required final_step
      intro!: final_unless_optional final_pair split: if_splits sum.splits)

interpretation local: static_methods "map_of (local_methods h)" "map_of (local_answers h)" for h
proof
  show "(map_of (local_methods h) m = None) = (map_of (local_answers h) m = None)" for m by (simp add: map_of_local)
  show "f st val e p = (st, g (v_ctx st) val e p)"
    if "map_of (local_methods h) m = Some f" "map_of (local_answers h) m = Some g" for m f g st val e p
    using that by (auto simp: map_of_local param_method_def)
  show "g v val e p \<noteq> Inr (JStr ''pending'')" if "map_of (local_answers h) m = Some g" for m g v val e p
    using final_local [OF that] by (simp add: final_def)
qed

text \<open>C17: Validating a form whose rules need no server returns, and it reports for every element to check
  exactly the first rule that fails, in the order of the elements; it answers true exactly when
  every element passes all its rules.\<close>

theorem form_reports_first_failures:
  assumes "elements (prepareForm st) = (s1, Inr es)"
    and "\<And>e. e \<in> set es \<Longrightarrow> \<exists>r. verdict h (map_of (local_answers h)) st e = Inr r"
  shows "\<exists>st'. form h (map_of (local_methods h)) st = (st', Inr (list_all (passes h (map_of (local_answers h)) st) es))
    \<and> reported st' = concat (map (fault h (map_of (local_answers h)) st) es)"
  using local.form_static [OF assms] by blast

definition sample_host :: host where
  "sample_host = \<lparr>h_normalize = (\<lambda>_ _ x. x), h_message = library_message,
     h_param = (\<lambda>v. case v of JObj kvs \<Rightarrow> concat (map (\<lambda>p. fst p @ ''='' @ js_String (snd p)) kvs) | _ \<Rightarrow> []), h_submit = (\<lambda>_. JUndef),
     h_within = (\<lambda>_. []), h_date = id, h_targets = (\<lambda>_ _. [])\<rparr>"

definition sample_vst :: "elt list \<Rightarrow> jsval obj \<Rightarrow> vst" where
  "sample_vst es rs = \<lparr>v_ctx = sample_ctx\<lparr>c_form := es\<rparr>, v_lib = sample_lib\<lparr>l_methods := []\<rparr>, v_set = defaults, v_rules = rs, v_messages = [],
     v_groups = [], v_submitted = [], v_invalid = [], v_errorMap = [], v_errorList = [], v_successList = [],
     v_currentElements = [], v_pending = [], v_pendingRequest = 0, v_formSubmitted = False, v_cancelSubmit = False,
     v_submitButton = None, v_lastActive = None, v_previous = [], v_requests = [], v_labels = [], v_toShow = [],
     v_toHide = [], v_class = [], v_describedby = [], v_ariaInvalid = [], v_bound = [], v_events = []\<rparr>"

definition two_fields :: vst where
  "two_fields = sample_vst [sample_field [], (sample_field ''12a'')\<lparr>e_ref := 1, e_name := ''g''\<rparr>]
     [(''f'', JObj [(''required'', JBool True)]), (''g'', JObj [(''required'', JBool True), (''digits'', JBool True)])]"

theorem form_reports_first_failures_witness:
  "\<exists>st'. form sample_host (map_of (local_methods sample_host)) two_fields = (st', Inr False)
    \<and> map snd (reported st') = [''required'', ''digits'']"
proof -
  let ?es = "c_form (v_ctx two_fields)" and ?m = "map_of (local_answers sample_host)"
  have "snd (elements (prepareForm two_fields)) = Inr ?es" by code_simp
  then have e: "elements (prepareForm two_fields) = (fst (elements (prepareForm two_fields)), Inr ?es)" by (rule pair_of_snd)
  have v: "list_all (\<lambda>e. case verdict sample_host ?m two_fields e of Inl x \<Rightarrow> False | Inr r \<Rightarrow> True) ?es" by code_simp
  have f: "map snd (concat (map (fault sample_host ?m two_fields) ?es)) = [''required'', ''digits'']" by code_simp
  have p: "list_all (passes sample_host ?m two_fields) ?es = False" by code_simp
  have "\<exists>r. verdict sample_host ?m two_fields x = Inr r" if "x \<in> set ?es" for x
    using v that by (cases "verdict sample_host ?m two_fields x") (auto simp: list_all_iff)
  from form_reports_first_failures [OF e this] show ?thesis using f p by metis
qed

end
