(* ===== verification/ValidatorRemote.thy ===== *)
theory ValidatorRemote
  imports ValidatorForm
begin

text \<open>
  Remote validation.  The interface \<open>request_methods\<close> states what a method may do to the requests
  under way; under it every operation of the validator keeps the count of pending requests right.
  It is interpreted on all methods of the library, the remote method included.  The events a form
  reacts to are the steps of a transition system, and the invariant holds in every reachable state.
\<close>

section \<open>Requests under way\<close>

definition pending_ok :: "jsval obj \<times> int \<times> request list \<Rightarrow> bool" where
  "pending_ok t \<longleftrightarrow>
     (case t of (P, n, R) \<Rightarrow>
        obj_wf P \<and> n = int (length P) \<and> list_all (\<lambda>p. snd p = JBool True) P \<and> distinct (map rq_port R)
        \<and> list_all (\<lambda>q. rq_port q = ''validate'' @ e_name (rq_elt q) \<and> obj_has (e_name (rq_elt q)) P) R)"

lemma length_obj_del: "obj_wf ps \<Longrightarrow> obj_has k ps \<Longrightarrow> Suc (length (obj_del k ps)) = length ps"
proof (induction ps)
  case (Cons p ps)
  show ?case
  proof (cases "fst p = k")
    case True
    with Cons.prems(1) have "k \<notin> fst ` set ps" by (auto simp: obj_wf_def)
    then have "filter (\<lambda>p. fst p \<noteq> k) ps = ps" by (auto simp: filter_id_conv)
    with True show ?thesis by (simp add: obj_del_def)
  qed (use Cons in \<open>auto simp: obj_wf_def obj_has_def obj_del_def\<close>)
qed (simp add: obj_has_def)

lemma startRequest_pending:
  assumes "pending_ok (traffic st)"
  shows "pending_ok (traffic (startRequest e st)) \<and> obj_has (e_name e) (v_pending (startRequest e st))
    \<and> v_requests (startRequest e st) = v_requests st"
proof (cases "obj_has (e_name e) (v_pending st)")
  case True
  with assms have "truthy (js_prop (v_pending st) (e_name e))"
    by (auto simp: pending_ok_def traffic_def obj_has_def js_prop_def list_all_iff split: option.splits dest!: map_of_SomeD)
  with assms True show ?thesis by (simp add: startRequest_def)
next
  case False
  then have u: "js_prop (v_pending st) (e_name e) = JUndef" by (simp add: js_prop_def obj_has_def split: option.splits)
  from False have l: "obj_set (e_name e) (JBool True) (v_pending st) = v_pending st @ [(e_name e, JBool True)]"
    by (simp add: obj_set_new obj_has_def)
  show ?thesis using assms u False
    by (auto simp: startRequest_def pending_ok_def traffic_def l obj_has_def obj_wf_def list_all_iff addClass_def)
qed

text \<open>Going from one state to another keeps the requests right and forgets none.\<close>

definition grows :: "vst \<Rightarrow> vst \<Rightarrow> bool" where
  "grows st st' \<longleftrightarrow> (pending_ok (traffic st) \<longrightarrow> pending_ok (traffic st')) \<and> v_pendingRequest st \<le> v_pendingRequest st'"

lemma grows_refl: "traffic st' = traffic st \<Longrightarrow> grows st st'"
  by (simp add: grows_def) (simp add: traffic_def)

lemma grows_trans [trans]: "grows a b \<Longrightarrow> grows b c \<Longrightarrow> grows a c"
  by (auto simp: grows_def)

lemma grows_cong: "grows st s \<Longrightarrow> traffic s' = traffic s \<Longrightarrow> grows st s'"
  using grows_trans grows_refl by blast

lemma abort_pending:
  assumes "pending_ok (traffic st)" "obj_has (e_name (rq_elt rq)) (v_pending st)" "rq_port rq = ''validate'' @ e_name (rq_elt rq)"
  shows "pending_ok (traffic (ajax_abort rq st))"
  using assms
  by (auto simp: ajax_abort_def pending_ok_def traffic_def list_all_iff distinct_map_filter)

lemma remote_grows: "grows st (fst (remote h st val e p))"
proof -
  have s: "grows s (ajax_abort \<lparr>rq_port = ''validate'' @ e_name e, rq_elt = e, rq_method = m, rq_value = w\<rparr> (startRequest e s))" for s m w
  proof -
    have "v_pendingRequest s \<le> v_pendingRequest (startRequest e s)" by (simp add: startRequest_def)
    moreover have "v_pendingRequest (ajax_abort q z) = v_pendingRequest z" for q z by (simp add: ajax_abort_def)
    ultimately show ?thesis using startRequest_pending [of s e] by (simp add: grows_def abort_pending)
  qed
  have r: "grows st (st\<lparr>v_messages := x, v_previous := y\<rparr>)" for x y by (rule grows_refl) (simp add: traffic_def)
  show ?thesis
    unfolding remote_def Let_def
    by (auto simp del: append.simps intro: grows_refl [OF refl] r grows_trans [OF r s] split: sum.splits)
qed

lemma keeps_onfocusin [keeps]: "traffic (onfocusin e st) = traffic st"
proof -
  have "traffic (s\<lparr>v_lastActive := x\<rparr>) = traffic s" for s x by (simp add: traffic_def)
  then show ?thesis by (simp add: onfocusin_def Let_def keeps)
qed

lemma keeps_focusInvalid [keeps]: "traffic (focusInvalid st) = traffic st"
proof -
  have "traffic (s\<lparr>v_events := x\<rparr>) = traffic s" for s x by (simp add: traffic_def)
  then show ?thesis by (simp add: focusInvalid_def keeps split: option.split)
qed

section \<open>Methods that may start requests\<close>

locale request_methods =
  fixes ms :: vmethods
  assumes method_grows: "ms m = Some f \<Longrightarrow> grows st (fst (f st val e p))"
begin

lemma check_rules_grows: "grows st (fst (check_rules h ms single e val rs dm st))"
proof (induction rs arbitrary: dm st)
  case (Cons p rs)
  show ?case
  proof (cases "ms (fst p)")
    case (Some f)
    obtain st1 r where f: "f st val e (snd p) = (st1, r)" by force
    have g: "grows st st1" using method_grows [OF Some, of st val e "snd p"] f by simp
    note ih = grows_trans [OF g Cons.IH]
    show ?thesis using Some f g ih
      by (auto simp: keeps intro: grows_cong split: sum.splits)
  qed (simp add: grows_refl)
qed (simp add: grows_refl)

lemma check_grows: "grows st (fst (check h ms e st))"
proof -
  have e: "grows st s1" if "element_rules st t = (s1, r)" for t s1 r
    using keeps_element_rules(3) [of st t] that by (simp add: grows_refl)
  have c: "grows st s2" if "element_rules st t = (s1, r)" "check_rules h ms b t val rs False s1 = (s2, q)" for t s1 r b val rs s2 q
    using grows_trans [OF e [OF that(1)] check_rules_grows [of s1 h b t val rs False]] that(2) by simp
  have d: "grows st (s2\<lparr>v_successList := y\<rparr>)"
    if "element_rules st t = (s1, r)" "check_rules h ms b t val rs False s1 = (s2, q)" for t s1 r b val rs s2 q y
    using c [OF that] by (rule grows_cong) (simp add: traffic_def)
  show ?thesis
    unfolding check_def
    by (auto split: option.splits prod.splits sum.splits check_result.splits intro: grows_refl [OF refl] e c d)
qed

lemma check_all_grows: "grows st (fst (check_all h ms es st))"
proof (induction es arbitrary: st)
  case (Cons e es)
  obtain st1 r where c: "check h ms e st = (st1, r)" by force
  then have "grows st st1" using check_grows [of st h e] by simp
  then show ?case using c Cons.IH [of st1] by (cases r) (auto intro: grows_trans)
qed (simp add: grows_refl)

lemma form_grows: "grows st (fst (form h ms st))"
proof -
  obtain s1 r1 where el: "elements (prepareForm st) = (s1, r1)" by force
  then have g1: "traffic s1 = traffic st" using keeps_elements(3) [of "prepareForm st"] by (simp add: keeps)
  show ?thesis
  proof (cases r1)
    case (Inr es)
    obtain s2 r2 where ca: "check_all h ms es (s1\<lparr>v_currentElements := es\<rparr>) = (s2, r2)" by force
    have g2: "grows st s2"
      using grows_trans [OF grows_refl check_all_grows [of "s1\<lparr>v_currentElements := es\<rparr>" h es]] ca g1 by (simp add: traffic_def)
    have u: "traffic (s2\<lparr>v_submitted := x, v_invalid := y\<rparr>) = traffic s2" "traffic (s2\<lparr>v_submitted := x, v_invalid := y, v_events := z\<rparr>) = traffic s2"
      for x y z by (simp_all add: traffic_def)
    show ?thesis using el Inr ca g2
      by (cases r2) (auto simp: form_def checkForm_def Let_def keeps u intro!: grows_cong [OF g2])
  qed (use el g1 in \<open>simp add: form_def checkForm_def grows_refl\<close>)
qed

lemma check_group_grows: "grows st (fst (check_group h ms grp own gs result st))"
proof (induction gs arbitrary: result st)
  case (Cons p gs)
  obtain name g where p: "p = (name, g)" by force
  have n: "grows s (fst (check h ms c (s\<lparr>v_currentElements := x\<rparr>)))" for s c x
    by (rule grows_trans [OF grows_refl check_grows]) (simp add: traffic_def)
  have c: "grows s s'" if "check h ms c (s\<lparr>v_currentElements := x\<rparr>) = (s', r)" for s c x s' r
    using n [of s c x] that by simp
  show ?case
    by (auto simp: p Cons.IH intro: grows_refl [OF refl] c grows_trans [OF c Cons.IH] split: list.splits option.splits prod.splits sum.splits)
qed (simp add: grows_refl)

lemma element_grows: "grows st (fst (element h ms e st))"
proof (cases "validationTargetFor (v_ctx st) e")
  case (Some ce)
  define s1 where "s1 = (prepareElement ce st)\<lparr>v_currentElements := [ce]\<rparr>"
  have g1: "traffic s1 = traffic st" using keeps_reset(8) [of ce st] by (simp add: s1_def traffic_def)
  define q where "q = (case map_of (v_groups s1) (e_name ce) of None \<Rightarrow> (s1, Inr True)
      | Some grp \<Rightarrow> if grp = [] then (s1, Inr True) else check_group h ms grp (e_name ce) (v_groups s1) True s1)"
  have "grows s1 (fst q)" unfolding q_def using grows_refl [OF refl, of s1] check_group_grows [of s1] by (simp split: option.split)
  then have g2: "grows st (fst q)" using grows_trans [OF grows_refl [OF g1]] by blast
  obtain s2 r2 where q: "q = (s2, r2)" by force
  obtain s3 r3 where c: "check h ms ce s2 = (s3, r3)" by force
  have g3: "grows st s3" using grows_trans [OF g2 check_grows [of "fst q" h ce]] c by (simp add: q)
  have u: "traffic ((showErrors h None (s3\<lparr>v_invalid := x\<rparr>))\<lparr>v_ariaInvalid := y\<rparr>) = traffic s3" for x y
    using keeps_showErrors(2) [of h None "s3\<lparr>v_invalid := x\<rparr>"] by (simp add: traffic_def)
  have "fst (element h ms e st) = (case r2 of Inl x \<Rightarrow> s2 | Inr result \<Rightarrow>
      (case r3 of Inl x \<Rightarrow> s3
       | Inr r \<Rightarrow> let s5 = showErrors h None (s3\<lparr>v_invalid := obj_set (e_name ce) (JBool (r = JBool False)) (v_invalid s3)\<rparr>)
                  in s5\<lparr>v_ariaInvalid := put (e_ref e) (r = JBool False) (v_ariaInvalid s5)\<rparr>))"
    unfolding element_def Some Let_def s1_def [symmetric] option.case q_def [symmetric] q using c by (simp split: sum.splits)
  then show ?thesis using g2 g3 q by (auto simp: Let_def intro!: grows_cong [OF g3 u] split: sum.splits)
qed (simp add: element_def grows_refl traffic_def)

lemma on_submit_grows: "grows st (fst (on_submit h ms st))"
proof -
  have h: "traffic (fst (handle h s)) = traffic s" for s by (simp add: handle_def traffic_def Let_def split: option.splits)
  have hs: "grows st s'" if "grows st s" "handle h s = (s', r)" for s s' r
    using h [of s] that by (auto intro: grows_cong)
  have f: "grows st s" if "form h ms st = (s, r)" for s r using form_grows [of st h] that by simp
  have fs: "grows st (s\<lparr>v_formSubmitted := b\<rparr>)" if "form h ms st = (s, r)" for s r b
    by (rule grows_cong [OF f [OF that]]) (simp add: traffic_def)
  have fi: "grows st (focusInvalid s)" if "form h ms st = (s, r)" for s r
    by (rule grows_cong [OF f [OF that]]) (rule keeps)
  have c: "grows st (st\<lparr>v_cancelSubmit := b\<rparr>)" for b by (rule grows_refl) (simp add: traffic_def)
  show ?thesis unfolding on_submit_def
    by (auto split: sum.splits prod.splits intro: f fs fi hs [OF c] hs [OF f])
qed

lemma submit_grows: "grows st (fst (submit h ms st))"
proof -
  have g: "grows st s" if "on_submit h ms st = (s, r)" for s r using on_submit_grows [of st h] that by simp
  show ?thesis unfolding submit_def
    by (auto split: sum.splits prod.splits intro: g grows_cong [OF g] simp: traffic_def)
qed

text \<open>The answer to a request takes it off the books.\<close>

lemma stop_pending:
  assumes "pending_ok (P, n, R)" "q \<in> set R"
  shows "pending_ok (obj_del (e_name (rq_elt q)) P, (if n - 1 < 0 then 0 else n - 1), filter (\<lambda>r. rq_port r \<noteq> rq_port q) R)"
proof -
  from assms have h: "obj_has (e_name (rq_elt q)) P" and p: "rq_port q = ''validate'' @ e_name (rq_elt q)" and wf: "obj_wf P"
    by (auto simp: pending_ok_def list_all_iff)
  have "int (length (obj_del (e_name (rq_elt q)) P)) = n - 1"
    using length_obj_del [OF wf h] assms(1) by (simp add: pending_ok_def)
  moreover have "list_all (\<lambda>p. snd p = JBool True) (obj_del (e_name (rq_elt q)) P)"
    using assms(1) by (auto simp: pending_ok_def list_all_iff obj_del_def)
  moreover have "list_all (\<lambda>r. rq_port r = ''validate'' @ e_name (rq_elt r) \<and> obj_has (e_name (rq_elt r)) (obj_del (e_name (rq_elt q)) P))
      (filter (\<lambda>r. rq_port r \<noteq> rq_port q) R)"
    using assms(1) p by (auto simp: pending_ok_def list_all_iff obj_has_def)
  moreover have "P \<noteq> []" using h by (auto simp: obj_has_def)
  ultimately show ?thesis using assms(1) obj_wf_del [OF wf]
    by (simp add: pending_ok_def distinct_map_filter)
qed

lemma stopRequest_pending:
  assumes ok: "pending_ok (v_pending st, v_pendingRequest st, R)" and q: "q \<in> set R" "e_name e = e_name (rq_elt q)"
    and R: "v_requests st = filter (\<lambda>r. rq_port r \<noteq> rq_port q) R"
  shows "pending_ok (traffic (fst (stopRequest h ms e good st)))"
proof -
  define s1 where "s1 = removeClass (s_pendingClass (v_set st)) e
      (st\<lparr>v_pendingRequest := (if v_pendingRequest st - 1 < 0 then 0 else v_pendingRequest st - 1), v_pending := obj_del (e_name e) (v_pending st)\<rparr>)"
  have t1: "traffic s1 = (obj_del (e_name (rq_elt q)) (v_pending st), (if v_pendingRequest st - 1 < 0 then 0 else v_pendingRequest st - 1), v_requests st)"
    by (simp add: s1_def keeps) (simp add: traffic_def q(2))
  have p1: "pending_ok (traffic s1)" unfolding t1 R by (rule stop_pending [OF ok q(1)])
  have f: "grows s1 s2" if "form h ms s1 = (s2, r)" for s2 r using form_grows [of s1 h] that by simp
  have s: "grows s1 s3" if "form h ms s1 = (s2, r)" "submit h ms s2 = (s3, r')" for s2 r s3 r'
    using grows_trans [OF f [OF that(1)] submit_grows [of s2 h]] that(2) by simp
  have u: "grows s1 (s3\<lparr>v_formSubmitted := b\<rparr>)" if "grows s1 s3" for s3 b
    by (rule grows_cong [OF that]) (simp add: traffic_def)
  have w: "grows s1 (s1\<lparr>v_events := x, v_formSubmitted := b\<rparr>)" for x b by (rule grows_refl) (simp add: traffic_def)
  have "grows s1 (fst (stopRequest h ms e good st))"
    unfolding stopRequest_def Let_def s1_def [symmetric]
    by (auto split: sum.splits prod.splits intro: f s u [OF s] w grows_refl [OF refl])
  then show ?thesis using p1 by (simp add: grows_def)
qed

lemma remote_success_pending:
  assumes ok: "pending_ok (traffic st)" and q: "q \<in> set (v_requests st)"
  shows "pending_ok (traffic (fst (remote_success h ms q response st)))"
proof -
  have e: "traffic (showErrors h es s) = traffic s" for es s by (rule keeps)
  have u: "traffic (s\<lparr>v_toHide := a\<rparr>) = traffic s" "traffic (s\<lparr>v_successList := b\<rparr>) = traffic s" "traffic (s\<lparr>v_invalid := c\<rparr>) = traffic s"
    "traffic (s\<lparr>v_previous := d\<rparr>) = traffic s" "traffic (resetInternals s) = traffic s"
    "traffic (s\<lparr>v_requests := r, v_messages := m\<rparr>) = (v_pending s, v_pendingRequest s, r)" for s a b c d r m
    by (simp_all add: traffic_def resetInternals_def)
  have "\<exists>s3 good. fst (remote_success h ms q response st) = fst (stopRequest h ms (rq_elt q) good s3)
      \<and> traffic s3 = (v_pending st, v_pendingRequest st, filter (\<lambda>r. rq_port r \<noteq> rq_port q) (v_requests st))"
    unfolding remote_success_def Let_def by (intro exI conjI, rule refl) (simp add: e u)
  then obtain s3 good where s: "fst (remote_success h ms q response st) = fst (stopRequest h ms (rq_elt q) good s3)"
    and t: "traffic s3 = (v_pending st, v_pendingRequest st, filter (\<lambda>r. rq_port r \<noteq> rq_port q) (v_requests st))" by blast
  from t have t3: "v_pending s3 = v_pending st" "v_pendingRequest s3 = v_pendingRequest st"
    "v_requests s3 = filter (\<lambda>r. rq_port r \<noteq> rq_port q) (v_requests st)" by (simp_all add: traffic_def)
  show ?thesis unfolding s
    by (rule stopRequest_pending [where q = q and R = "v_requests st"]) (use ok q t3 in \<open>simp_all add: traffic_def\<close>)
qed

lemma delegate_grows: "grows st (fst (delegate h ms e ev st))"
proof -
  have el: "grows st (fst (map_prod id (map_sum id (\<lambda>_. ())) (element h ms x st)))" for x
    using element_grows [of st h x] by (simp add: fst_map_prod)
  have "grows st (onfocusin e st)" by (rule grows_refl) (rule keeps)
  then show ?thesis
    using el grows_refl [OF refl, of st]
    by (cases ev) (auto simp: delegate_def onfocusout_def onkeyup_def onclick_def split: sum.splits)
qed

end

section \<open>The form as a transition system\<close>

inductive vstep :: "host \<Rightarrow> vmethods \<Rightarrow> vst \<Rightarrow> vst \<Rightarrow> bool" for h ms where
  ui: "vstep h ms st (fst (delegate h ms e ev st))"
| button: "vstep h ms st (click_submit b st)"
| send: "vstep h ms st (fst (submit h ms st))"
| validate_form: "vstep h ms st (fst (form h ms st))"
| answered: "q \<in> set (v_requests st) \<Longrightarrow> vstep h ms st (fst (remote_success h ms q response st))"
| failed: "q \<in> set (v_requests st) \<Longrightarrow> vstep h ms st (st\<lparr>v_requests := filter (\<lambda>r. rq_port r \<noteq> rq_port q) (v_requests st)\<rparr>)"
| reset_form: "vstep h ms st (fst (resetForm st))"
| edit: "vstep h ms st (st\<lparr>v_ctx := v\<rparr>)"

inductive_cases vstepE: "vstep h ms st st'"

lemma resetForm_traffic: "traffic (fst (resetForm st)) = traffic st"
proof -
  have u: "traffic (s\<lparr>v_invalid := x, v_submitted := y\<rparr>) = traffic s" "traffic (s\<lparr>v_previous := z, v_ariaInvalid := w\<rparr>) = traffic s"
    for s x y z w by (simp_all add: traffic_def)
  obtain s2 r where e: "elements (hideErrors (prepareForm (st\<lparr>v_invalid := [], v_submitted := []\<rparr>))) = (s2, r)" by force
  then have "traffic s2 = traffic st"
    using keeps_elements(3) [of "hideErrors (prepareForm (st\<lparr>v_invalid := [], v_submitted := []\<rparr>))"] by (simp add: keeps u)
  then show ?thesis using e by (cases r) (simp_all add: resetForm_def Let_def keeps u)
qed

context request_methods
begin

lemma vstep_pending:
  assumes "pending_ok (traffic st)" "vstep h ms st st'"
  shows "pending_ok (traffic st')"
  using assms(2)
proof cases
  case (answered q response)
  with assms(1) show ?thesis by (simp add: remote_success_pending)
next
  case (failed q)
  with assms(1) show ?thesis by (auto simp: pending_ok_def traffic_def list_all_iff distinct_map_filter)
qed (use assms(1) delegate_grows [of st h] submit_grows [of st h] form_grows [of st h] resetForm_traffic [of st]
     in \<open>auto simp: grows_def click_submit_def Let_def traffic_def\<close>)

end

lemma methods_grow: "map_of (methods h) m = Some f \<Longrightarrow> grows st (fst (f st val e p))"
proof -
  assume "map_of (methods h) m = Some f"
  then consider "map_of (local_methods h) m = Some f" | "f = equalTo_method h" | "f = remote h"
    by (auto simp: methods_def map_add_def split: option.splits if_splits)
  then show ?thesis
  proof cases
    case 1
    then show ?thesis by (auto simp: map_of_local param_method_def intro: grows_refl)
  next
    case 2
    then show ?thesis by (auto simp: equalTo_method_def traffic_def split: prod.splits intro!: grows_refl)
  qed (simp add: remote_grows)
qed

interpretation lib: request_methods "map_of (methods h)" for h
  by unfold_locales (rule methods_grow)

definition fresh :: "vst \<Rightarrow> bool" where
  \<comment> \<open>a validator after init: nothing is pending and no request is under way\<close>
  "fresh st \<longleftrightarrow> v_pending st = [] \<and> v_pendingRequest st = 0 \<and> v_requests st = []"

interpretation form_system: inductive_invariant fresh "vstep h (map_of (methods h))" "\<lambda>st. pending_ok (traffic st)" for h
proof
  show "fresh s \<Longrightarrow> pending_ok (traffic s)" for s by (simp add: fresh_def pending_ok_def traffic_def obj_wf_def)
  show "pending_ok (traffic s) \<Longrightarrow> vstep h (map_of (methods h)) s s' \<Longrightarrow> pending_ok (traffic s')" for s s'
    by (rule lib.vstep_pending)
qed

section \<open>What the invariant gives\<close>

text \<open>C16: In every state a form can reach, through any sequence of input events, submits, answers and
  failures of requests, resets and edits, the counter of pending requests is the number of names
  that are marked pending, and every request under way belongs to a marked name and has a port of
  its own.\<close>

theorem pending_requests_counted:
  assumes "reach fresh (vstep h (map_of (methods h))) st"
  shows "v_pendingRequest st = int (length (v_pending st)) \<and> distinct (obj_keys (v_pending st))
    \<and> (\<forall>q \<in> set (v_requests st). obj_has (e_name (rq_elt q)) (v_pending st))
    \<and> distinct (map rq_port (v_requests st))"
  using form_system.inv_reach [OF assms] by (simp add: pending_ok_def traffic_def list_all_iff obj_wf_def obj_keys_def)

text \<open>C15: The submit handler lets a submit through, without a cancelling button, only when the form has
  no errors and no answer of a server is awaited.\<close>

theorem submit_only_when_settled:
  assumes r: "reach fresh (vstep h (map_of (methods h))) st" and c: "\<not> v_cancelSubmit st"
    and s: "on_submit h (map_of (methods h)) st = (st', Inr reply)" and go: "reply \<noteq> JBool False"
  shows "v_errorList st' = [] \<and> v_pending st' = [] \<and> v_requests st' = []"
proof -
  obtain s1 ok where f: "form h (map_of (methods h)) st = (s1, Inr ok)" and ok: "ok" and n: "v_pendingRequest s1 = 0"
      and hd: "handle h s1 = (st', reply)"
    using s c go by (auto simp: on_submit_def split: prod.splits sum.splits if_splits)
  have "pending_ok (traffic s1)"
    using form_system.inv_reach [OF reach.reach_step [OF r vstep.validate_form]] f by (metis fst_conv)
  moreover have "v_pending st' = v_pending s1" "v_requests st' = v_requests s1" "v_errorList st' = v_errorList s1"
    using hd by (auto simp: handle_def Let_def split: option.splits)
  moreover have "v_errorList s1 = []" using f ok by (auto simp: form_def Let_def valid_def split: prod.splits sum.splits)
  ultimately show ?thesis using n by (cases "v_requests s1") (auto simp: pending_ok_def traffic_def obj_has_def)
qed

text \<open>A request that fails is never taken off the books: after it the submit handler, without a
  cancelling button, refuses every submit it answers.\<close>

theorem failed_request_blocks_submit:
  assumes r: "reach fresh (vstep h (map_of (methods h))) st" and q: "q \<in> set (v_requests st)" and c: "\<not> v_cancelSubmit st"
    and s: "on_submit h (map_of (methods h)) (st\<lparr>v_requests := filter (\<lambda>x. rq_port x \<noteq> rq_port q) (v_requests st)\<rparr>) = (st', Inr reply)"
  shows "reply = JBool False"
proof -
  let ?s = "st\<lparr>v_requests := filter (\<lambda>x. rq_port x \<noteq> rq_port q) (v_requests st)\<rparr>"
  have "0 < v_pendingRequest ?s"
    using form_system.inv_reach [OF r] q by (cases "v_pending st") (auto simp: pending_ok_def traffic_def list_all_iff obj_has_def)
  moreover have "v_pendingRequest ?s \<le> v_pendingRequest (fst (form h (map_of (methods h)) ?s))"
    using lib.form_grows [where st = ?s] unfolding grows_def by blast
  ultimately have "v_pendingRequest (fst (form h (map_of (methods h)) ?s)) \<noteq> 0" by linarith
  then show ?thesis using s c by (auto simp: on_submit_def split: prod.splits sum.splits if_splits)
qed


section \<open>A form with a remote rule\<close>

definition remote_form :: vst where
  "remote_form = sample_vst [sample_field ''joe''] [(''f'', JObj [(''remote'', JStr ''/check'')])]"

abbreviation (input) "sample_methods \<equiv> map_of (methods sample_host)"

definition waiting_form :: vst where
  \<comment> \<open>after the first submit of the form\<close>
  "waiting_form = fst (submit sample_host sample_methods remote_form)"

lemma remote_form_reach: "reach fresh (vstep sample_host sample_methods) remote_form"
  by (rule reach_init) code_simp

lemma waiting_form_reach: "reach fresh (vstep sample_host sample_methods) waiting_form"
  unfolding waiting_form_def by (rule reach_step [OF remote_form_reach vstep.send])

definition summary :: "vst \<Rightarrow> int \<times> jsval obj \<times> nat \<times> bool \<times> bool \<times> bool \<times> bool" where
  "summary st = (v_pendingRequest st, v_pending st, length (v_requests st), v_formSubmitted st, v_cancelSubmit st,
     s_submitHandler (v_set st) = None, s_debug (v_set st))"

lemma waiting_form_summary: "summary waiting_form = (1, [(''f'', JBool True)], 1, True, False, True, False)"
  by code_simp

lemma waiting_form_pending:
  "v_pendingRequest waiting_form = 1" "v_pending waiting_form = [(''f'', JBool True)]" "length (v_requests waiting_form) = 1"
  "v_formSubmitted waiting_form" "\<not> v_cancelSubmit waiting_form"
  using waiting_form_summary by (simp_all add: summary_def)

theorem pending_requests_counted_witness:
  "v_pendingRequest waiting_form = 1 \<and> list_all (\<lambda>q. obj_has (e_name (rq_elt q)) (v_pending waiting_form)) (v_requests waiting_form)"
  using pending_requests_counted [OF waiting_form_reach] by (simp add: waiting_form_pending list_all_iff)

theorem submit_only_when_settled_witness:
  "\<exists>st'. on_submit sample_host sample_methods (sample_vst [sample_field ''joe''] []) = (st', Inr (JBool True)) \<and> v_errorList st' = []"
proof -
  let ?f = "sample_vst [sample_field ''joe''] []"
  have r: "reach fresh (vstep sample_host sample_methods) ?f" by (rule reach_init) code_simp
  have c: "\<not> v_cancelSubmit ?f" by code_simp
  have "snd (on_submit sample_host sample_methods ?f) = Inr (JBool True)" by code_simp
  then have s: "on_submit sample_host sample_methods ?f = (fst (on_submit sample_host sample_methods ?f), Inr (JBool True))"
    by (rule pair_of_snd)
  from submit_only_when_settled [OF r c s] s show ?thesis by blast
qed

theorem failed_request_blocks_submit_witness:
  "\<exists>q st'. v_requests waiting_form = [q] \<and> on_submit sample_host sample_methods (waiting_form\<lparr>v_requests := []\<rparr>) = (st', Inr (JBool False))"
proof -
  obtain q where q: "v_requests waiting_form = [q]" using waiting_form_pending(3) by (cases "v_requests waiting_form") auto
  let ?s = "waiting_form\<lparr>v_requests := filter (\<lambda>x. rq_port x \<noteq> rq_port q) (v_requests waiting_form)\<rparr>"
  have e: "?s = waiting_form\<lparr>v_requests := []\<rparr>" using q by simp
  have "case snd (on_submit sample_host sample_methods (waiting_form\<lparr>v_requests := []\<rparr>)) of Inl x \<Rightarrow> False | Inr r \<Rightarrow> True"
    by code_simp
  then obtain r where "snd (on_submit sample_host sample_methods ?s) = Inr r" unfolding e by (auto split: sum.splits)
  then have s: "on_submit sample_host sample_methods ?s = (fst (on_submit sample_host sample_methods ?s), Inr r)" by (rule pair_of_snd)
  have "r = JBool False"
    by (rule failed_request_blocks_submit [OF waiting_form_reach _ waiting_form_pending(5) s]) (simp add: q)
  then show ?thesis using s q unfolding e by blast
qed

definition answered_form :: vst where
  \<comment> \<open>the state in which the callback of the answer calls \<open>stopRequest\<close>\<close>
  "answered_form = waiting_form\<lparr>v_requests := [], v_previous := map (\<lambda>p. (fst p, (snd p)\<lparr>pv_valid := True\<rparr>)) (v_previous waiting_form)\<rparr>"

definition form_result :: "vst \<Rightarrow> (jserr + bool) \<times> int \<times> jsval obj \<times> nat \<times> bool \<times> bool \<times> bool \<times> bool" where
  "form_result st = (let q = form sample_host sample_methods st in (snd q, summary (fst q)))"

definition stopped_form :: vst where
  "stopped_form = removeClass (s_pendingClass (v_set answered_form)) (sample_field ''joe'')
    (answered_form\<lparr>v_pendingRequest := 0, v_pending := obj_del (e_name (sample_field ''joe'')) (v_pending answered_form)\<rparr>)"

lemma answered_form_results:
  "form_result stopped_form = (Inr True, 0, [], 0, True, False, True, False)
   \<and> form_result (fst (form sample_host sample_methods stopped_form)) = (Inr True, 0, [], 0, True, False, True, False)"
  by code_simp


end
