(* ===== verification/JqCore.thy ===== *)
theory JqCore
  imports JsValue
begin

text \<open>
  Core utilities of jQuery: the words of a string, the kind of a value, merging of objects with
  extend, and the functions over collections.  Objects are values here: two references to one object
  are two equal values, so the guard of extend against an object that contains its target has
  nothing to guard.  The host objects window and DOM nodes have no properties in the model; extending
  one of them gives no result.
\<close>

section \<open>Words\<close>

definition html_white :: "char \<Rightarrow> bool" where
  "html_white c \<longleftrightarrow> List.member [CHR 0x20, CHR 0x09, CHR 0x0D, CHR 0x0A, CHR 0x0C] c"

definition html_words :: "string \<Rightarrow> string list" where
  \<comment> \<open>the matches of rnothtmlwhite\<close>
  "html_words s = filter (\<lambda>w. w \<noteq> []) (split_on html_white s)"

definition word_ok :: "string \<Rightarrow> bool" where
  "word_ok w \<longleftrightarrow> w \<noteq> [] \<and> list_all (\<lambda>c. \<not> html_white c) w"

lemma html_white_space: "html_white CHR '' ''"
  by code_simp

lemma word_ok_space: "word_ok w \<Longrightarrow> CHR '' '' \<notin> set w"
  using html_white_space by (auto simp: word_ok_def list_all_iff)

lemma html_words_ok: "w \<in> set (html_words s) \<Longrightarrow> word_ok w"
  using split_on_no_sep [of html_white s] by (auto simp: html_words_def word_ok_def list_all_iff)

lemma html_words_Nil [simp]: "html_words [] = []"
  by (simp add: html_words_def)

lemma html_words_white: "html_white c \<Longrightarrow> html_words (c # s) = html_words s"
  by (simp add: html_words_def)

lemma html_words_word: "word_ok w \<Longrightarrow> html_white c \<Longrightarrow> html_words (w @ c # s) = w # html_words s"
  by (simp add: html_words_def word_ok_def split_on_append)

lemma html_words_single: "word_ok w \<Longrightarrow> html_words w = [w]"
  by (simp add: html_words_def word_ok_def split_on_no)

lemma html_words_join: "list_all word_ok ws \<Longrightarrow> html_words (join_with '' '' ws) = ws"
  by (induction "'' ''" ws rule: join_with.induct) (simp_all add: html_words_single html_words_word html_white_space)

section \<open>Kinds of values\<close>

definition no_value :: "jsval \<Rightarrow> bool" where
  "no_value v \<longleftrightarrow> v = JUndef \<or> v = JNull"

fun toType :: "jsval \<Rightarrow> string" where
  "toType JNull = ''null''"
| "toType (JArr xs) = ''array''"
| "toType v = typeof v"

fun entries_of :: "jsval \<Rightarrow> jsval obj" where
  \<comment> \<open>what \<open>for (name in v)\<close> enumerates\<close>
  "entries_of (JObj kvs) = kvs"
| "entries_of (JArr xs) = zip (map nat_str [0..<length xs]) xs"
| "entries_of (JStr s) = zip (map nat_str [0..<length s]) (map (\<lambda>c. JStr [c]) s)"
| "entries_of v = []"

definition isEmptyObject :: "jsval \<Rightarrow> bool" where
  "isEmptyObject v \<longleftrightarrow> entries_of v = []"

fun isPlainObject :: "jsval \<Rightarrow> bool" where
  "isPlainObject (JObj kvs) = True"
| "isPlainObject v = False"

fun is_array :: "jsval \<Rightarrow> bool" where
  "is_array (JArr xs) = True"
| "is_array v = False"

definition has_index :: "jsnum \<Rightarrow> jsval obj \<Rightarrow> bool" where
  \<comment> \<open>\<open>( length - 1 ) in obj\<close>, for a whole length; no object of the libraries has a fraction as a key\<close>
  "has_index n kvs \<longleftrightarrow> (case n of Fin q \<Rightarrow> q \<in> \<int> \<and> obj_has (nat_str (nat \<lfloor>q\<rfloor> - 1)) kvs | _ \<Rightarrow> False)"

fun isArrayLike :: "(nat \<Rightarrow> jsval list option) \<Rightarrow> jsval \<Rightarrow> jserr + bool" where
  \<comment> \<open>\<open>host\<close> gives the items of a DOM object that is a collection, such as a form\<close>
  "isArrayLike host (JArr xs) = Inr True"
| "isArrayLike host (JObj kvs) = Inr (case js_prop kvs ''length'' of
      JNum n \<Rightarrow> n = Fin 0 \<or> \<not> js_le n (Fin 0) \<and> n \<noteq> NaN \<and> has_index n kvs | _ \<Rightarrow> False)"
| "isArrayLike host (JNode n) = Inr (host n \<noteq> None)"
| "isArrayLike host v = (if truthy v \<and> typeof v \<noteq> ''function'' then Inl TypeError else Inr False)"

section \<open>Merging objects\<close>

definition array_index :: "string \<Rightarrow> nat option" where
  "array_index k = (if k \<noteq> [] \<and> nat_str (dec_val k) = k then Some (dec_val k) else None)"

definition set_index :: "nat \<Rightarrow> jsval \<Rightarrow> jsval list \<Rightarrow> jsval list" where
  \<comment> \<open>an index beyond the end leaves holes, which read as undefined\<close>
  "set_index i v xs = (if i < length xs then xs[i := v] else xs @ replicate (i - length xs) JUndef @ [v])"

fun get_prop :: "string \<Rightarrow> jsval \<Rightarrow> jsval" where
  "get_prop k (JObj kvs) = js_prop kvs k"
| "get_prop k (JArr xs) = (case array_index k of Some i \<Rightarrow> if i < length xs then xs ! i else JUndef | None \<Rightarrow> JUndef)"
| "get_prop k v = JUndef"

fun put_prop :: "string \<Rightarrow> jsval \<Rightarrow> jsval \<Rightarrow> jsval option" where
  \<comment> \<open>None: the property is outside the model\<close>
  "put_prop k v (JObj kvs) = Some (JObj (obj_set k v kvs))"
| "put_prop k v (JArr xs) = map_option (\<lambda>i. JArr (set_index i v xs)) (array_index k)"
| "put_prop k v t = None"

fun clone_for :: "jsval \<Rightarrow> jsval \<Rightarrow> jsval" where
  \<comment> \<open>the object that a plain object or array of the source is merged into\<close>
  "clone_for src (JArr ys) = (if is_array src then src else JArr [])"
| "clone_for src v = (if isPlainObject src then src else JObj [])"

lemma entries_size: "size_list (\<lambda>p. size (snd p)) (zip ks xs) \<le> size_list size xs"
  by (induction ks xs rule: list_induct2') auto

lemma entries_size_obj: "size_list (\<lambda>p. size (snd p)) kvs \<le> size_list (size_prod (\<lambda>_. 0) size) kvs"
  by (induction kvs) (auto simp: size_prod_def split: prod.splits)

function extend_one :: "bool \<Rightarrow> jsval \<Rightarrow> jsval obj \<Rightarrow> jsval option" where
  "extend_one deep t [] = Some t"
| "extend_one deep t (p # s) =
     (case (if deep \<and> (isPlainObject (snd p) \<or> is_array (snd p)) then
              (case extend_one deep (clone_for (get_prop (fst p) t) (snd p)) (entries_of (snd p)) of
                 None \<Rightarrow> None
               | Some c \<Rightarrow> put_prop (fst p) c t)
            else if snd p \<noteq> JUndef then put_prop (fst p) (snd p) t
            else Some t) of
        None \<Rightarrow> None
      | Some t' \<Rightarrow> extend_one deep t' s)"
  by pat_completeness auto

termination
proof (relation "measure (\<lambda>(d, t, s). size_list (\<lambda>p. size (snd p)) s)")
  fix deep t and p :: "string \<times> jsval" and s
  assume "deep \<and> (isPlainObject (snd p) \<or> is_array (snd p))"
  then show "((deep, clone_for (get_prop (fst p) t) (snd p), entries_of (snd p)), (deep, t, p # s))
    \<in> measure (\<lambda>(d, t, s). size_list (\<lambda>p. size (snd p)) s)"
    by (cases "snd p") (auto simp: less_Suc_eq_le intro!: le_SucI trans_le_add1 entries_size entries_size_obj)
qed auto

fun host_value :: "jsval \<Rightarrow> bool" where
  "host_value (JFun f) = True"
| "host_value (JNode n) = True"
| "host_value v = False"

fun extend_all :: "bool \<Rightarrow> jsval \<Rightarrow> jsval list \<Rightarrow> jsval option" where
  \<comment> \<open>the sources from left to right; the properties of functions and DOM nodes are outside the model\<close>
  "extend_all deep t [] = Some t"
| "extend_all deep t (v # vs) =
     (if no_value v then extend_all deep t vs
      else if host_value v then None
      else (case extend_one deep t (entries_of v) of None \<Rightarrow> None | Some t' \<Rightarrow> extend_all deep t' vs))"

definition argument :: "jsval list \<Rightarrow> nat \<Rightarrow> jsval" where
  "argument args i = (if i < length args then args ! i else JUndef)"

definition extend :: "jsval \<Rightarrow> jsval list \<Rightarrow> jsval option" where
  "extend this args =
     (let target = js_or (argument args 0) (JObj []);
          deep = (typeof target = ''boolean'');
          target1 = (if deep then js_or (argument args 1) (JObj []) else target);
          i = (if deep then 2 else 1);
          target2 = (if typeof target1 \<noteq> ''object'' \<and> typeof target1 \<noteq> ''function'' then JObj [] else target1)
      in if i = length args then extend_all deep this (drop (i - 1) args) else extend_all deep target2 (drop i args))"

text \<open>A flat extension of one object by another is the merge of association lists that the models of
  the validation library use.\<close>

lemma extend_one_flat: "extend_one False (JObj t) s = Some (JObj (js_extend t s))"
  by (induction s arbitrary: t) (auto simp: js_extend_def defined_entries_def)

lemma extend_flat: "extend this [JObj t, JObj s] = Some (JObj (js_extend t s))"
  by (simp add: extend_def argument_def no_value_def extend_one_flat js_or_def)

text \<open>The flag false is not a flag: the merge then goes into a new object, whatever the targets.\<close>

lemma extend_false: "extend this (JBool False # JObj t # []) = Some (JObj (js_extend [] t))"
  by (simp add: extend_def argument_def no_value_def extend_one_flat js_or_def)

subsection \<open>Deep merges\<close>

definition container :: "jsval \<Rightarrow> bool" where
  "container v \<longleftrightarrow> isPlainObject v \<or> is_array v"

fun wf_val :: "jsval \<Rightarrow> bool" where
  "wf_val (JObj kvs) = (obj_wf kvs \<and> (\<forall>p \<in> set kvs. wf_val (snd p)))"
| "wf_val (JArr xs) = (\<forall>x \<in> set xs. wf_val x)"
| "wf_val v = True"

primrec get_path :: "string list \<Rightarrow> jsval \<Rightarrow> jsval" where
  "get_path [] v = v"
| "get_path (k # ks) v = get_path ks (get_prop k v)"

lemma array_index_nat_str [simp]: "array_index (nat_str i) = Some i"
  by (simp add: array_index_def)

lemma array_index_iff: "array_index k = Some i \<longleftrightarrow> k = nat_str i"
  by (metis array_index_def array_index_nat_str option.distinct(1) option.inject)

lemma nth_set_index: "(if j < length (set_index i v xs) then set_index i v xs ! j else JUndef) =
    (if j = i then v else if j < length xs then xs ! j else JUndef)"
  by (auto simp: set_index_def nth_append nth_list_update)

lemma get_put: "put_prop k v t = Some t' \<Longrightarrow> get_prop k' t' = (if k' = k then v else get_prop k' t)"
  by (cases t) (auto simp: js_prop_def array_index_iff nth_set_index nat_str_inject split: option.splits)

definition merged :: "bool \<Rightarrow> jsval \<Rightarrow> jsval \<Rightarrow> jsval option" where
  \<comment> \<open>what becomes of a property with the old value \<open>w\<close> that a source gives as \<open>v\<close>\<close>
  "merged deep w v =
     (if deep \<and> container v then extend_one deep (clone_for w v) (entries_of v) else if v = JUndef then Some w else Some v)"

lemma extend_one_prop:
  assumes "extend_one deep t s = Some t'" "distinct (map fst s)"
  shows "(map_of s k = None \<longrightarrow> get_prop k t' = get_prop k t)
    \<and> (\<forall>v. map_of s k = Some v \<longrightarrow> merged deep (get_prop k t) v = Some (get_prop k t'))"
  using assms
proof (induction s arbitrary: t)
  case (Cons p s)
  let ?m = "merged deep (get_prop (fst p) t) (snd p)"
  obtain t1 where t1: "extend_one deep t1 s = Some t'"
    and p: "(snd p = JUndef \<and> t1 = t) \<or> (\<exists>c. ?m = Some c \<and> put_prop (fst p) c t = Some t1)"
    using Cons.prems(1) by (auto simp: merged_def container_def split: if_splits option.splits)
  have g: "?m = Some (get_prop (fst p) t1)" "\<And>k. k \<noteq> fst p \<Longrightarrow> get_prop k t1 = get_prop k t"
    using p by (auto simp: get_put merged_def container_def)
  have "map_of s (fst p) = None" using Cons.prems(2) by (simp add: map_of_eq_None_iff)
  with Cons.IH [OF t1] Cons.prems(2) g show ?case by auto
qed simp

lemma obj_wf_entries: "wf_val v \<Longrightarrow> distinct (map fst (entries_of v))"
proof (cases v)
  case (JStr s)
  then show ?thesis by (auto simp: distinct_conv_nth nat_str_inject)
next
  case (JArr xs)
  then show ?thesis by (auto simp: distinct_conv_nth nat_str_inject)
qed (auto simp: obj_wf_def)

lemma get_prop_entries:
  assumes "container v" "wf_val v"
  shows "get_prop k v = js_prop (entries_of v) k" "map_of (entries_of v) k = Some w \<Longrightarrow> wf_val w"
proof -
  have z: "map_of (zip (map nat_str [0..<length xs]) xs) (nat_str i) = (if i < length xs then Some (xs ! i) else None)" for xs :: "jsval list" and i
  proof (cases "i < length xs")
    case True
    have "distinct (map nat_str [0..<length xs])" by (auto simp: distinct_conv_nth nat_str_inject)
    then show ?thesis using True map_of_zip_nth [of "map nat_str [0..<length xs]" xs i] by simp
  next
    case False
    then show ?thesis by (auto simp: map_of_eq_None_iff nat_str_inject dest!: set_zip_leftD)
  qed
  show "get_prop k v = js_prop (entries_of v) k"
  proof (cases v)
    case (JArr xs)
    show ?thesis
    proof (cases "array_index k")
      case None
      then have "k \<notin> set (map nat_str [0..<length xs])" by (auto simp: array_index_def)
      then have "map_of (entries_of v) k = None" using JArr by (auto simp: map_of_eq_None_iff dest!: set_zip_leftD)
      then have "js_prop (entries_of v) k = JUndef" by (simp only: js_prop_def option.case)
      then show ?thesis using None JArr by simp
    qed (use JArr z in \<open>simp add: js_prop_def array_index_iff\<close>)
  qed (use assms in \<open>auto simp: container_def\<close>)
  show "wf_val w" if "map_of (entries_of v) k = Some w"
    using assms that by (cases v) (auto simp: container_def dest!: map_of_SomeD set_zip_rightD)
qed

lemma deep_paths:
  assumes "extend_one True t (entries_of v) = Some t'" "container v" "wf_val v"
    "get_path ks v = w" "w \<noteq> JUndef" "\<not> container w"
  shows "get_path ks t' = w"
  using assms
proof (induction ks arbitrary: v t t')
  case (Cons k ks)
  have nil: "get_path ks JUndef = JUndef" by (induction ks) simp_all
  obtain u where u: "map_of (entries_of v) k = Some u" "get_prop k v = u"
    using get_prop_entries(1) [OF Cons.prems(2,3), of k] Cons.prems(4,5) nil
    by (cases "map_of (entries_of v) k") (auto simp: js_prop_def)
  have m: "merged True (get_prop k t) u = Some (get_prop k t')"
    using extend_one_prop [OF Cons.prems(1) obj_wf_entries [OF Cons.prems(3)]] u(1) by blast
  show ?case
  proof (cases "container u")
    case True
    then show ?thesis
      using Cons.IH [of _ u "get_prop k t'"] m get_prop_entries(2) [OF Cons.prems(2,3) u(1)] Cons.prems(4-6) u(2)
      by (simp add: merged_def)
  next
    case False
    have "get_path ks u = w" "u \<noteq> JUndef" using Cons.prems(4,5) u(2) nil by auto
    moreover have "get_prop k t' = u" using m False \<open>u \<noteq> JUndef\<close> by (simp add: merged_def)
    ultimately show ?thesis by simp
  qed
qed simp

text \<open>The target keeps what the source does not mention.\<close>

lemma extend_keeps:
  assumes "extend_one deep t (entries_of v) = Some t'" "wf_val v" "map_of (entries_of v) k = None"
  shows "get_prop k t' = get_prop k t"
  using extend_one_prop [OF assms(1) obj_wf_entries [OF assms(2)]] assms(3) by blast

text \<open>After a deep merge, the target has every value that the source has at the end of a path through
  its objects and arrays.\<close>

theorem extend_deep_leaves:
  assumes "extend this [JBool True, t, v] = Some t'" "truthy t" "container v" "wf_val v"
    and "get_path ks v = w" "w \<noteq> JUndef" "\<not> container w"
  shows "get_path ks t' = w"
proof -
  have "\<exists>t2. extend_one True t2 (entries_of v) = Some t'"
    using assms(1-3) by (cases v) (auto simp: extend_def argument_def js_or_def no_value_def Let_def container_def split: if_splits option.splits)
  then show ?thesis using deep_paths assms(3-) by blast
qed

theorem extend_deep_leaves_witness:
  "\<exists>t'. extend JUndef [JBool True, JObj [(''a'', JObj [(''x'', JNull)])], JObj [(''a'', JObj [(''l'', JArr [JNull, JStr ''v''])])]] = Some t'
     \<and> get_path [''a'', ''l'', ''1''] t' = JStr ''v'' \<and> get_path [''a'', ''x''] t' = JNull"
proof -
  let ?e = "extend JUndef [JBool True, JObj [(''a'', JObj [(''x'', JNull)])], JObj [(''a'', JObj [(''l'', JArr [JNull, JStr ''v''])])]]"
  have e: "?e = Some (JObj [(''a'', JObj [(''x'', JNull), (''l'', JArr [JNull, JStr ''v''])])])" by code_simp
  have "get_path [''a'', ''l'', ''1''] (the ?e) = JStr ''v''" unfolding e option.sel
    by (rule extend_deep_leaves [OF e]) (simp_all add: container_def obj_wf_def js_prop_def array_index_iff, code_simp+)
  with e show ?thesis by (simp add: js_prop_def)
qed

section \<open>Collections\<close>

fun each_from :: "nat \<Rightarrow> (nat \<Rightarrow> 'a \<Rightarrow> 's \<Rightarrow> bool \<times> 's) \<Rightarrow> 'a list \<Rightarrow> 's \<Rightarrow> 's" where
  \<comment> \<open>the callback answers whether it returned false; it does not change the collection\<close>
  "each_from i f [] s = s"
| "each_from i f (x # xs) s = (case f i x s of (stop, s') \<Rightarrow> if stop then s' else each_from (Suc i) f xs s')"

definition each_array :: "(nat \<Rightarrow> 'a \<Rightarrow> 's \<Rightarrow> bool \<times> 's) \<Rightarrow> 'a list \<Rightarrow> 's \<Rightarrow> 's" where
  "each_array = each_from 0"

fun each_object :: "(string \<Rightarrow> 'v \<Rightarrow> 's \<Rightarrow> bool \<times> 's) \<Rightarrow> 'v obj \<Rightarrow> 's \<Rightarrow> 's" where
  "each_object f [] s = s"
| "each_object f (p # ps) s = (case f (fst p) (snd p) s of (stop, s') \<Rightarrow> if stop then s' else each_object f ps s')"

fun grep_from :: "nat \<Rightarrow> ('a \<Rightarrow> nat \<Rightarrow> bool) \<Rightarrow> bool \<Rightarrow> 'a list \<Rightarrow> 'a list" where
  "grep_from i f expect [] = []"
| "grep_from i f expect (x # xs) = (if (\<not> f x i) \<noteq> expect then x # grep_from (Suc i) f expect xs else grep_from (Suc i) f expect xs)"

definition grep :: "'a list \<Rightarrow> ('a \<Rightarrow> nat \<Rightarrow> bool) \<Rightarrow> bool \<Rightarrow> 'a list" where
  "grep elems f invert = grep_from 0 f (\<not> invert) elems"

definition map_values :: "(nat \<Rightarrow> jsval \<Rightarrow> jsval) \<Rightarrow> jsval list \<Rightarrow> jsval list" where
  \<comment> \<open>the values of the callback, without null and undefined\<close>
  "map_values f xs = filter (\<lambda>v. \<not> no_value v) (map (\<lambda>(i, x). f i x) (enumerate 0 xs))"

definition jq_map :: "(nat \<Rightarrow> jsval \<Rightarrow> jsval) \<Rightarrow> jsval list \<Rightarrow> jsval list" where
  \<comment> \<open>arrays among the values are flattened by one level\<close>
  "jq_map f xs = concat (map (\<lambda>v. case v of JArr ys \<Rightarrow> ys | _ \<Rightarrow> [v]) (map_values f xs))"

definition merge :: "'a list \<Rightarrow> 'a list \<Rightarrow> 'a list" where
  "merge xs ys = fold (\<lambda>y acc. acc @ [y]) ys xs"

definition items_of :: "(nat \<Rightarrow> jsval list option) \<Rightarrow> jsval \<Rightarrow> jsval list" where
  \<comment> \<open>the indexed items of an array-like object\<close>
  "items_of host v =
     (case v of
        JArr xs \<Rightarrow> xs
      | JObj kvs \<Rightarrow> (case js_prop kvs ''length'' of JNum (Fin q) \<Rightarrow> map (\<lambda>i. js_prop kvs (nat_str i)) [0..<nat \<lfloor>q\<rfloor>] | _ \<Rightarrow> [])
      | JNode n \<Rightarrow> (case host n of Some xs \<Rightarrow> xs | None \<Rightarrow> [])
      | _ \<Rightarrow> [])"

definition makeArray :: "(nat \<Rightarrow> jsval list option) \<Rightarrow> jsval \<Rightarrow> jsval list \<Rightarrow> jsval list" where
  \<comment> \<open>a string is array-like as an object, but is added as one item\<close>
  "makeArray host v results =
     (if no_value v then results
      else if typeof v = ''string'' then merge results [v]
      else if isArrayLike host v = Inr True then merge results (items_of host v)
      else results @ [v])"

lemma merge_append: "merge xs ys = xs @ ys"
  by (induction ys arbitrary: xs) (simp_all add: merge_def)

lemma each_stops: "each_from i (\<lambda>j x s. (x = c, s @ [x])) xs s = s @ takeWhile (\<lambda>x. x \<noteq> c) xs @ take 1 (dropWhile (\<lambda>x. x \<noteq> c) xs)"
  by (induction xs arbitrary: i s) auto

text \<open>The two senses of grep share out the items.\<close>

lemma grep_from_filter: "grep_from i (\<lambda>x _. p x) b xs = filter (\<lambda>x. p x = b) xs"
  by (induction xs arbitrary: i) auto

lemma grep_senses: "grep xs (\<lambda>x _. p x) False = filter p xs" "grep xs (\<lambda>x _. p x) True = filter (\<lambda>x. \<not> p x) xs"
  by (simp_all add: grep_def grep_from_filter)

end
