(* ===== verification/JqClasses.thy ===== *)
theory JqClasses
  imports JqCore
begin

text \<open>
  The class attribute of elements: addClass, removeClass, toggleClass and hasClass of jQuery, which
  work on the text of the attribute by searching for a name between spaces.  The attribute stands for
  the list of its words; the main theorem says that the operations on the text are the operations on
  that list.  Functions of the page that compute the names are arguments, without effects of their own.
\<close>

section \<open>Operations\<close>

record cnode =
  n_type :: nat \<comment> \<open>nodeType; nodes of type 1 have attributes\<close>
  n_class :: "string option"
  n_saved :: "string option" \<comment> \<open>the private data \<open>__className__\<close>\<close>

datatype cvalue = CStr string | CArr "string list" | CBool bool | CUndef | CFn "nat \<Rightarrow> string \<Rightarrow> cvalue"

definition getClass :: "cnode \<Rightarrow> string" where
  "getClass n = (if n_type n = 1 then (case n_class n of None \<Rightarrow> [] | Some s \<Rightarrow> s) else [])"

definition stripAndCollapse :: "string \<Rightarrow> string" where
  "stripAndCollapse s = join_with '' '' (html_words s)"

fun classesToArray :: "cvalue \<Rightarrow> string list" where
  "classesToArray (CArr cs) = cs"
| "classesToArray (CStr s) = html_words s"
| "classesToArray _ = []"

fun find_str :: "string \<Rightarrow> string \<Rightarrow> nat option" where
  \<comment> \<open>indexOf\<close>
  "find_str p [] = (if p = [] then Some 0 else None)"
| "find_str p (c # s) = (if take (length p) (c # s) = p then Some 0 else map_option Suc (find_str p s))"

definition replace_first :: "string \<Rightarrow> string \<Rightarrow> string \<Rightarrow> string" where
  \<comment> \<open>replace with a text as pattern\<close>
  "replace_first p r s = (case find_str p s of None \<Rightarrow> s | Some i \<Rightarrow> take i s @ r @ drop (i + length p) s)"

definition spaced :: "string \<Rightarrow> string" where
  "spaced c = '' '' @ c @ '' ''"

definition add_name :: "string \<Rightarrow> string \<Rightarrow> string" where
  "add_name c cur = (if find_str (spaced c) cur = None then cur @ c @ '' '' else cur)"

lemma find_str_bound: "find_str p s = Some i \<Longrightarrow> i + length p \<le> length s"
proof (induction s arbitrary: i)
  case (Cons c s)
  show ?case
  proof (cases "take (length p) (c # s) = p")
    case True
    then have "length p \<le> length (c # s)" by (metis length_take min.cobounded1)
    with True Cons.prems show ?thesis by simp
  qed (use Cons in auto)
qed (simp split: if_splits)

function remove_name :: "string \<Rightarrow> string \<Rightarrow> string" where
  \<comment> \<open>every occurrence of the name\<close>
  "remove_name c cur =
     (if find_str (spaced c) cur = None then cur else remove_name c (replace_first (spaced c) '' '' cur))"
  by pat_completeness auto

termination
proof (relation "measure (\<lambda>(c, cur). length cur)")
  fix c cur :: string
  assume "find_str (spaced c) cur \<noteq> None"
  then obtain i where i: "find_str (spaced c) cur = Some i" by blast
  with find_str_bound [OF i] show "((c, replace_first (spaced c) '' '' cur), (c, cur)) \<in> measure (\<lambda>(c, cur). length cur)"
    by (simp add: replace_first_def spaced_def)
qed simp

declare remove_name.simps [simp del]

definition update_class :: "(string list \<Rightarrow> string \<Rightarrow> string) \<Rightarrow> string list \<Rightarrow> cnode \<Rightarrow> cnode" where
  \<comment> \<open>the common frame of addClass and removeClass; an empty name ends the loop over the names\<close>
  "update_class f cs n =
     (if cs = [] \<or> n_type n \<noteq> 1 then n
      else (let curValue = getClass n;
                cur = '' '' @ stripAndCollapse curValue @ '' '';
                finalValue = stripAndCollapse (f (takeWhile (\<lambda>c. c \<noteq> []) cs) cur)
            in if curValue \<noteq> finalValue then n\<lparr>n_class := Some finalValue\<rparr> else n))"

primrec addClass_one :: "cvalue \<Rightarrow> nat \<Rightarrow> cnode \<Rightarrow> cnode" where
  "addClass_one (CStr s) i n = update_class (fold add_name) (classesToArray (CStr s)) n"
| "addClass_one (CArr cs) i n = update_class (fold add_name) cs n"
| "addClass_one (CBool b) i n = n"
| "addClass_one CUndef i n = n"
| "addClass_one (CFn f) i n = (\<lambda>j c. addClass_one (f j c)) i (getClass n) 0 n"

primrec removeClass_one :: "cvalue \<Rightarrow> nat \<Rightarrow> cnode \<Rightarrow> cnode" where
  "removeClass_one (CStr s) i n = update_class (fold remove_name) (classesToArray (CStr s)) n"
| "removeClass_one (CArr cs) i n = update_class (fold remove_name) cs n"
| "removeClass_one (CBool b) i n = n"
| "removeClass_one CUndef i n = n"
| "removeClass_one (CFn f) i n = (\<lambda>j c. removeClass_one (f j c)) i (getClass n) 0 n"

definition addClass :: "cvalue \<Rightarrow> cnode list \<Rightarrow> cnode list" where
  "addClass v ns = map (\<lambda>(i, n). addClass_one v i n) (enumerate 0 ns)"

definition removeClass :: "cvalue option \<Rightarrow> cnode list \<Rightarrow> cnode list" where
  "removeClass v ns =
     (case v of
        None \<Rightarrow> map (\<lambda>n. if n_type n = 1 then n\<lparr>n_class := Some []\<rparr> else n) ns
      | Some v \<Rightarrow> map (\<lambda>(i, n). removeClass_one v i n) (enumerate 0 ns))"

definition hasClass :: "string \<Rightarrow> cnode list \<Rightarrow> bool" where
  "hasClass c ns \<longleftrightarrow>
     list_ex (\<lambda>n. n_type n = 1 \<and> find_str (spaced c) ('' '' @ stripAndCollapse (getClass n) @ '' '') \<noteq> None) ns"

definition toggle_name :: "string \<Rightarrow> cnode \<Rightarrow> cnode" where
  "toggle_name c n = (if hasClass c [n] then removeClass_one (CStr c) 0 n else addClass_one (CStr c) 0 n)"

definition toggle_all :: "bool \<Rightarrow> cnode \<Rightarrow> cnode" where
  \<comment> \<open>the whole attribute; the flag says that the value was false\<close>
  "toggle_all is_false n =
     (let className = getClass n;
          n1 = (if className \<noteq> [] then n\<lparr>n_saved := Some className\<rparr> else n)
      in if n_type n = 1 then
           n1\<lparr>n_class := Some (if className \<noteq> [] \<or> is_false then [] else case n_saved n1 of None \<Rightarrow> [] | Some s \<Rightarrow> s)\<rparr>
         else n1)"

definition toggle_names :: "bool option \<Rightarrow> cvalue \<Rightarrow> nat \<Rightarrow> cnode \<Rightarrow> cnode" where
  "toggle_names st v i n =
     (case st of
        Some True \<Rightarrow> addClass_one v i n
      | Some False \<Rightarrow> removeClass_one v i n
      | None \<Rightarrow> fold toggle_name (takeWhile (\<lambda>c. c \<noteq> []) (classesToArray v)) n)"

primrec toggleClass_one :: "cvalue \<Rightarrow> bool option \<Rightarrow> nat \<Rightarrow> cnode \<Rightarrow> cnode" where
  \<comment> \<open>a function gets the state as a third argument, which does not change during the call\<close>
  "toggleClass_one (CStr s) st i n = toggle_names st (CStr s) i n"
| "toggleClass_one (CArr cs) st i n = toggle_names st (CArr cs) i n"
| "toggleClass_one (CBool b) st i n = toggle_all (\<not> b) n"
| "toggleClass_one CUndef st i n = toggle_all False n"
| "toggleClass_one (CFn f) st i n = (\<lambda>j c. toggleClass_one (f j c)) i (getClass n) st 0 n"

definition toggleClass :: "cvalue \<Rightarrow> bool option \<Rightarrow> cnode list \<Rightarrow> cnode list" where
  "toggleClass v st ns = map (\<lambda>(i, n). toggleClass_one v st i n) (enumerate 0 ns)"

section \<open>The text and its words\<close>

definition names_of :: "cnode \<Rightarrow> string list" where
  "names_of n = html_words (getClass n)"

fun text_of :: "string list \<Rightarrow> string" where
  \<comment> \<open>names with a space before each and one at the end\<close>
  "text_of [] = '' ''"
| "text_of (w # ws) = '' '' @ w @ text_of ws"

lemma find_skip: "CHR '' '' \<notin> set u \<Longrightarrow> find_str (CHR '' '' # p) (u @ r) = map_option ((+) (length u)) (find_str (CHR '' '' # p) r)"
  by (induction u) (cases "find_str (CHR '' '' # p) r"; auto)+

lemma text_of_start: "\<exists>r. text_of ws = CHR '' '' # r"
  by (cases ws) auto

lemma spaced_prefix:
  assumes "word_ok c" "word_ok w"
  shows "take (length (spaced c)) ('' '' @ w @ CHR '' '' # r) = spaced c \<longleftrightarrow> w = c"
proof
  assume "take (length (spaced c)) ('' '' @ w @ CHR '' '' # r) = spaced c"
  then obtain r' where "w @ CHR '' '' # r = c @ CHR '' '' # r'"
    by (metis append.assoc append_Cons append_Nil append_take_drop_id list.inject spaced_def)
  moreover have "takeWhile (\<lambda>x. x \<noteq> CHR '' '') (v @ CHR '' '' # y) = v" if "word_ok v" for v y
    using word_ok_space [OF that] by (simp add: takeWhile_append2 takeWhile_tail) (metis takeWhile_eq_all_conv)
  ultimately show "w = c" using assms by metis
qed (simp add: spaced_def)

lemma find_text_of:
  assumes "word_ok c" "list_all word_ok ws"
  shows "find_str (spaced c) (text_of ws) \<noteq> None \<longleftrightarrow> c \<in> set ws"
    "replace_first (spaced c) '' '' (text_of ws) = text_of (remove1 c ws)"
proof -
  have "(find_str (spaced c) (text_of ws) \<noteq> None \<longleftrightarrow> c \<in> set ws)
    \<and> replace_first (spaced c) '' '' (text_of ws) = text_of (remove1 c ws)"
    using assms(2)
  proof (induction ws)
    case Nil
    have "length (spaced c) \<ge> 3" using assms(1) by (cases c) (auto simp: spaced_def word_ok_def)
    then have "find_str (spaced c) '' '' = None" by (auto simp: spaced_def)
    then show ?case by (simp add: replace_first_def)
  next
    case (Cons w ws)
    obtain r where r: "text_of ws = CHR '' '' # r" using text_of_start by blast
    let ?s = "text_of (w # ws)"
    note pre = spaced_prefix [of c w r, OF assms(1)] 
    show ?case
    proof (cases "w = c")
      case True
      then have "find_str (spaced c) ?s = Some 0" using pre Cons.prems r by simp
      then show ?thesis using True r by (simp add: replace_first_def spaced_def)
    next
      case False
      then have "take (length (spaced c)) ?s \<noteq> spaced c" using pre Cons.prems r by simp
      then have f: "find_str (spaced c) ?s = map_option (\<lambda>i. Suc (length w + i)) (find_str (spaced c) (text_of ws))"
        using find_skip [of w "c @ '' ''" "text_of ws"] Cons.prems word_ok_space [of w]
        by (simp add: spaced_def option.map_comp o_def)
      then have "replace_first (spaced c) '' '' ?s = '' '' @ w @ replace_first (spaced c) '' '' (text_of ws)"
        by (auto simp: replace_first_def split: option.splits)
      with f False Cons show ?thesis by auto
    qed
  qed
  then show "find_str (spaced c) (text_of ws) \<noteq> None \<longleftrightarrow> c \<in> set ws"
    "replace_first (spaced c) '' '' (text_of ws) = text_of (remove1 c ws)" by simp_all
qed

text \<open>Adding to a text, which may start with one more space, and removing from it.\<close>

lemma find_extra_space: "word_ok c \<Longrightarrow> find_str (spaced c) (CHR '' '' # text_of ws) = map_option Suc (find_str (spaced c) (text_of ws))"
  using text_of_start [of ws] by (cases c) (auto simp: spaced_def word_ok_def html_white_space)

lemma text_of_snoc: "text_of (ws @ [c]) = text_of ws @ c @ '' ''"
  by (induction ws) simp_all

lemma html_words_text_of: "list_all word_ok ws \<Longrightarrow> html_words (text_of ws) = ws"
proof (induction ws)
  case (Cons w ws)
  obtain r where "text_of ws = CHR '' '' # r" using text_of_start by blast
  with Cons show ?case by (simp add: html_words_white html_words_word html_white_space)
qed (simp add: html_words_white html_white_space)

definition stands_for :: "string list \<Rightarrow> string \<Rightarrow> bool" where
  "stands_for ws s \<longleftrightarrow> list_all word_ok ws \<and> (s = text_of ws \<or> s = CHR '' '' # text_of ws)"

lemma html_words_stands: "stands_for ws s \<Longrightarrow> html_words s = ws"
  by (auto simp: stands_for_def html_words_text_of html_words_white html_white_space)

lemma stands_for_start: "stands_for (html_words s) ('' '' @ stripAndCollapse s @ '' '')"
proof -
  have "list_all word_ok (html_words s)" by (auto simp: list_all_iff html_words_ok)
  moreover have "ws \<noteq> [] \<Longrightarrow> '' '' @ join_with '' '' ws @ '' '' = text_of ws" for ws
    by (induction "'' ''" ws rule: join_with.induct) simp_all
  ultimately show ?thesis by (cases "html_words s = []") (auto simp: stands_for_def stripAndCollapse_def)
qed

lemma find_stands: "stands_for ws s \<Longrightarrow> word_ok c \<Longrightarrow> find_str (spaced c) s \<noteq> None \<longleftrightarrow> c \<in> set ws"
  using find_text_of(1) [of c ws] by (auto simp: stands_for_def find_extra_space simp del: find_str.simps)

definition insert_name :: "string \<Rightarrow> string list \<Rightarrow> string list" where
  "insert_name c ws = (if List.member ws c then ws else ws @ [c])"

lemma stands_add: "stands_for ws s \<Longrightarrow> word_ok c \<Longrightarrow> stands_for (insert_name c ws) (add_name c s)"
  using find_stands [of ws s c] by (auto simp: stands_for_def add_name_def insert_name_def text_of_snoc simp del: find_str.simps)

lemma filter_remove1: "filter (\<lambda>x. x \<noteq> c) (remove1 c ws) = filter (\<lambda>x. x \<noteq> c) ws"
  by (induction ws) auto

lemma stands_remove: "stands_for ws s \<Longrightarrow> word_ok c \<Longrightarrow> stands_for (filter (\<lambda>x. x \<noteq> c) ws) (remove_name c s)"
proof (induction c s arbitrary: ws rule: remove_name.induct)
  case (1 c s)
  show ?case
  proof (cases "c \<in> set ws")
    case True
    have f: "find_str (spaced c) s \<noteq> None" using find_stands 1(2,3) True by blast
    have "list_all word_ok (remove1 c ws)" using 1(2) by (auto simp: stands_for_def list_all_iff dest: notin_set_remove1)
    moreover have "replace_first (spaced c) '' '' (CHR '' '' # text_of ws) = CHR '' '' # replace_first (spaced c) '' '' (text_of ws)"
      using find_extra_space [OF 1(3)] by (auto simp: replace_first_def split: option.splits)
    ultimately have "stands_for (remove1 c ws) (replace_first (spaced c) '' '' s)"
      using 1(2,3) find_text_of(2) by (auto simp: stands_for_def)
    with 1(1) f 1(3) have "stands_for (filter (\<lambda>x. x \<noteq> c) (remove1 c ws)) (remove_name c (replace_first (spaced c) '' '' s))" by blast
    then show ?thesis by (simp add: f filter_remove1 remove_name.simps [of c s] del: not_None_eq)
  next
    case False
    then have "find_str (spaced c) s = None" using find_stands 1(2,3) by blast
    moreover have "filter (\<lambda>x. x \<noteq> c) ws = ws" using False by (auto simp: filter_id_conv)
    ultimately show ?thesis using 1(2) by (simp add: remove_name.simps [of c s])
  qed
qed

section \<open>Operations on the list of names\<close>

lemma stands_update:
  assumes "\<And>ws s. stands_for ws s \<Longrightarrow> stands_for (g ws) (f (takeWhile (\<lambda>c. c \<noteq> []) cs) s)" "n_type n = 1" "cs = [] \<Longrightarrow> g (names_of n) = names_of n"
  shows "names_of (update_class f cs n) = g (names_of n)"
proof -
  let ?s = "f (takeWhile (\<lambda>c. c \<noteq> []) cs) ('' '' @ stripAndCollapse (getClass n) @ '' '')"
  have s: "stands_for (g (names_of n)) ?s" using assms(1) stands_for_start unfolding names_of_def by blast
  then have "html_words (stripAndCollapse ?s) = g (names_of n)"
    using html_words_stands [OF s] by (simp add: stripAndCollapse_def stands_for_def html_words_join)
  then show ?thesis using assms(2,3) by (auto simp: update_class_def Let_def names_of_def getClass_def)
qed

lemma takeWhile_words: "list_all word_ok cs \<Longrightarrow> takeWhile (\<lambda>c. c \<noteq> []) cs = cs"
  by (auto simp: list_all_iff word_ok_def)

lemma stands_fold_add: "stands_for ws s \<Longrightarrow> list_all word_ok cs \<Longrightarrow> stands_for (fold insert_name cs ws) (fold add_name cs s)"
  by (induction cs arbitrary: ws s) (auto intro: stands_add)

lemma stands_fold_remove:
  "stands_for ws s \<Longrightarrow> list_all word_ok cs \<Longrightarrow> stands_for (filter (\<lambda>x. x \<notin> set cs) ws) (fold remove_name cs s)"
proof (induction cs arbitrary: ws s)
  case (Cons c cs)
  then have "stands_for (filter (\<lambda>x. x \<notin> set cs) (filter (\<lambda>x. x \<noteq> c) ws)) (fold remove_name cs (remove_name c s))"
    by (intro Cons.IH stands_remove) auto
  moreover have "filter (\<lambda>x. x \<notin> set cs) (filter (\<lambda>x. x \<noteq> c) ws) = filter (\<lambda>x. x \<notin> set (c # cs)) ws" by (simp add: conj_commute)
  ultimately show ?case by simp
qed simp

fun names_ok :: "cvalue \<Rightarrow> bool" where
  "names_ok (CArr cs) = list_all word_ok cs"
| "names_ok (CFn f) = False"
| "names_ok v = True"

lemma names_add: "n_type n = 1 \<Longrightarrow> names_ok v \<Longrightarrow> names_of (addClass_one v i n) = fold insert_name (classesToArray v) (names_of n)"
  by (cases v) (auto simp: takeWhile_words list_all_iff html_words_ok intro!: stands_update stands_fold_add)

lemma names_remove: "n_type n = 1 \<Longrightarrow> names_ok v \<Longrightarrow> names_of (removeClass_one v i n) = filter (\<lambda>x. x \<notin> set (classesToArray v)) (names_of n)"
  by (cases v) (auto simp: takeWhile_words list_all_iff html_words_ok intro!: stands_update stands_fold_remove)

lemma names_has: "word_ok c \<Longrightarrow> hasClass c ns \<longleftrightarrow> (\<exists>n \<in> set ns. n_type n = 1 \<and> c \<in> set (names_of n))"
  using find_stands [OF stands_for_start] by (auto simp: hasClass_def list_ex_iff names_of_def simp del: find_str.simps)

lemma type_update: "n_type (update_class f cs n) = n_type n"
  by (simp add: update_class_def Let_def)

lemma type_add [simp]: "n_type (addClass_one v i n) = n_type n"
proof (induction v arbitrary: i n)
  case (CFn f)
  show ?case using CFn [of "f i" "f i (getClass n)" 0 n] by simp
qed (simp_all add: type_update)

lemma type_remove [simp]: "n_type (removeClass_one v i n) = n_type n"
proof (induction v arbitrary: i n)
  case (CFn f)
  show ?case using CFn [of "f i" "f i (getClass n)" 0 n] by simp
qed (simp_all add: type_update)

definition flip_name :: "string \<Rightarrow> string list \<Rightarrow> string list" where
  "flip_name c ws = (if List.member ws c then filter (\<lambda>x. x \<noteq> c) ws else ws @ [c])"

lemma names_toggle: "n_type n = 1 \<Longrightarrow> word_ok c \<Longrightarrow> names_of (toggle_name c n) = flip_name c (names_of n)"
  by (simp add: toggle_name_def names_has names_add names_remove flip_name_def insert_name_def html_words_single
      del: addClass_one.simps removeClass_one.simps)

text \<open>C22: The operations on the text of the class attribute are operations on the list of its names: a
  name is added at the end unless it is there, every occurrence is removed, and the search between
  spaces finds exactly the names.\<close>

theorem class_text_refines_names:
  assumes "n_type n = 1" "names_ok v" "word_ok c"
  shows "names_of (addClass_one v i n) = fold insert_name (classesToArray v) (names_of n)
    \<and> names_of (removeClass_one v i n) = filter (\<lambda>x. x \<notin> set (classesToArray v)) (names_of n)
    \<and> (hasClass c [n] \<longleftrightarrow> c \<in> set (names_of n))
    \<and> names_of (toggle_name c n) = flip_name c (names_of n)"
  using assms by (simp add: names_add names_remove names_has names_toggle)

definition sample_node :: cnode where
  "sample_node = \<lparr>n_type = 1, n_class = Some ''  btn  active'', n_saved = None\<rparr>"

theorem class_text_refines_names_witness:
  "names_of (addClass_one (CStr ''active wide'') 0 sample_node) = [''btn'', ''active'', ''wide'']
   \<and> hasClass ''btn'' [sample_node] \<and> \<not> hasClass ''act'' [sample_node]"
proof -
  have n: "names_of sample_node = [''btn'', ''active'']" by code_simp
  have c: "classesToArray (CStr ''active wide'') = [''active'', ''wide'']" by code_simp
  have w: "word_ok ''btn''" "word_ok ''act''" "names_ok (CStr ''active wide'')" "n_type sample_node = 1" by code_simp+
  from class_text_refines_names [OF w(4,3,1), of 0] class_text_refines_names [OF w(4,3,2)] show ?thesis
    unfolding n c by (simp add: insert_name_def)
qed

section \<open>What clients rely on\<close>

locale class_names =
  fixes names :: "'n \<Rightarrow> string list"
    and add_to :: "string \<Rightarrow> 'n \<Rightarrow> 'n"
    and remove_from :: "string \<Rightarrow> 'n \<Rightarrow> 'n"
    and ok :: "'n \<Rightarrow> bool"
  assumes ok_add: "ok n \<Longrightarrow> ok (add_to c n)"
    and ok_remove: "ok n \<Longrightarrow> ok (remove_from c n)"
    and names_after_add: "ok n \<Longrightarrow> word_ok c \<Longrightarrow> names (add_to c n) = insert_name c (names n)"
    and names_after_remove: "ok n \<Longrightarrow> word_ok c \<Longrightarrow> names (remove_from c n) = filter (\<lambda>x. x \<noteq> c) (names n)"
begin

lemma add_twice: "ok n \<Longrightarrow> word_ok c \<Longrightarrow> names (add_to c (add_to c n)) = names (add_to c n)"
  by (simp add: ok_add names_after_add insert_name_def)

lemma remove_added: "ok n \<Longrightarrow> word_ok c \<Longrightarrow> c \<notin> set (names n) \<Longrightarrow> names (remove_from c (add_to c n)) = names n"
  by (auto simp: ok_add names_after_add names_after_remove insert_name_def filter_id_conv)

lemma exchange: "ok n \<Longrightarrow> word_ok c \<Longrightarrow> word_ok d \<Longrightarrow> set (names (add_to d (remove_from c n))) = insert d (set (names n) - {c})"
  by (auto simp: ok_remove names_after_add names_after_remove insert_name_def)

lemma distinct_add: "ok n \<Longrightarrow> word_ok c \<Longrightarrow> distinct (names n) \<Longrightarrow> distinct (names (add_to c n))"
  by (simp add: names_after_add insert_name_def)

end

interpretation jq_class: class_names names_of "\<lambda>c. addClass_one (CStr c) 0" "\<lambda>c. removeClass_one (CStr c) 0" "\<lambda>n. n_type n = 1"
proof unfold_locales
  fix n :: cnode and c
  assume n: "n_type n = 1" and c: "word_ok c"
  show "names_of (addClass_one (CStr c) 0 n) = insert_name c (names_of n)"
    using names_add [OF n, of "CStr c"] c by (simp add: html_words_single del: addClass_one.simps)
  show "names_of (removeClass_one (CStr c) 0 n) = filter (\<lambda>x. x \<noteq> c) (names_of n)"
    using names_remove [OF n, of "CStr c"] c by (simp add: html_words_single del: removeClass_one.simps)
qed (simp_all del: addClass_one.simps removeClass_one.simps)

text \<open>Toggling a name twice gives the same set of names, possibly in another order; toggling the whole
  attribute twice brings the text back.\<close>

lemma toggle_twice:
  assumes "n_type n = 1" "word_ok c"
  shows "set (names_of (toggle_name c (toggle_name c n))) = set (names_of n)"
proof -
  have "n_type (toggle_name c n) = 1" using assms(1) by (simp add: toggle_name_def del: addClass_one.simps removeClass_one.simps)
  with assms show ?thesis by (auto simp: names_toggle flip_name_def)
qed

lemma toggle_all_twice:
  "n_type n = 1 \<Longrightarrow> getClass n \<noteq> [] \<Longrightarrow> getClass (toggle_all False (toggle_all False n)) = getClass n"
  by (simp add: toggle_all_def getClass_def Let_def)

end
