(* ===== verification/ClassLaws.thy ===== *)
theory ClassLaws
  imports Validator JqClasses
begin

text \<open>
  The validator keeps the classes of an element as a list of names.  Its operations obey the laws that
  the class attribute obeys under jQuery, so the list is a faithful picture of the attribute.
\<close>

lemma classes_addClass:
  "word_ok c \<Longrightarrow> classes_of (Validator.addClass c e st) e = insert_name c (classes_of st e)"
  by (simp add: Validator.addClass_def classes_of_def put_def insert_name_def word_ok_def)

lemma classes_removeClass:
  "classes_of (Validator.removeClass c e st) e = filter (\<lambda>x. x \<noteq> c) (classes_of st e)"
  by (simp add: Validator.removeClass_def classes_of_def put_def)

interpretation validator_class: class_names "\<lambda>st. classes_of st e" "\<lambda>c. Validator.addClass c e" "\<lambda>c. Validator.removeClass c e" "\<lambda>_. True" for e
  by unfold_locales (simp_all add: classes_addClass classes_removeClass)

text \<open>Both exchange the class of valid fields for the class of errors in the same way.\<close>

lemma error_class_exchange:
  assumes "word_ok v" "word_ok x" "n_type n = 1" "set (classes_of st e) = set (names_of n)"
  shows "set (classes_of (Validator.addClass x e (Validator.removeClass v e st)) e)
    = set (names_of (addClass_one (CStr x) 0 (removeClass_one (CStr v) 0 n)))"
  using validator_class.exchange [where e = e and n = st and c = v and d = x] jq_class.exchange [of n v x] assms
  by (simp del: addClass_one.simps removeClass_one.simps)

end
