(* ===== verification/Unobtrusive.thy ===== *)
theory Unobtrusive
  imports ValidatorForm
begin

text \<open>
  jquery.validate.unobtrusive.js: the adapters that turn the data-val attributes the server writes
  into rules and messages, the parsing of elements and of the document, and the callbacks that
  place messages in their containers.  An adapter is a record with a function from the options of
  an element to new options; a call that throws keeps what was stored before it, as the objects of
  the source are shared.  A document is the list of its forms, each with its inputs, the
  information parsed so far, the settings its validator was created with and its containers.
  The value of an element in a rule is its node; the functions that collect the additional fields
  of a remote rule are numbered by their position and given meaning by \<open>additional_field\<close>.  Exec of
  a regular expression and JSON parsing are arguments.
\<close>

section \<open>Names and values\<close>

definition splitAndTrim :: "string \<Rightarrow> string list" where
  "splitAndTrim value = map trim (split_on (\<lambda>c. c = CHR '','') (trim value))"

definition attribute_meta :: "char \<Rightarrow> bool" where
  "attribute_meta c \<longleftrightarrow> List.member (CHR 0x27 # CHR 0x5C # ''!\"#$%&()*+,./:;<=>?@[]^`{|}~'') c"

definition escapeAttributeValue :: "string \<Rightarrow> string" where
  "escapeAttributeValue value = concat (map (\<lambda>c. if attribute_meta c then [CHR 0x5C, c] else [c]) value)"

definition getModelPrefix :: "string \<Rightarrow> string" where
  "getModelPrefix fieldName = take (nat (lastIndexOf fieldName (CHR ''.'') + 1)) fieldName"

definition appendModelPrefix :: "string \<Rightarrow> string \<Rightarrow> string" where
  \<comment> \<open>for prefixes without dollar signs, which \<open>replace\<close> would expand\<close>
  "appendModelPrefix value prefix = (if take 2 value = ''*.'' then prefix @ drop 2 value else value)"

section \<open>Adapters\<close>

record voptions =
  o_element :: elt
  o_form :: "elt list"
  o_message :: string
  o_params :: "jsval obj"
  o_rules :: "jsval obj"
  o_messages :: "jsval obj"

record adapter =
  a_name :: string
  a_params :: "string list"
  a_adapt :: "voptions \<Rightarrow> voptions \<times> jserr option"

definition setValidationValues :: "string \<Rightarrow> jsval \<Rightarrow> voptions \<Rightarrow> voptions" where
  "setValidationValues ruleName value opts =
     (let o1 = opts\<lparr>o_rules := obj_set ruleName value (o_rules opts)\<rparr>
      in if o_message opts \<noteq> [] then o1\<lparr>o_messages := obj_set ruleName (JStr (o_message opts)) (o_messages o1)\<rparr> else o1)"

definition key_of :: "string option \<Rightarrow> string" where
  \<comment> \<open>an argument that was left out, as a property name\<close>
  "key_of k = (case k of None \<Rightarrow> ''undefined'' | Some s \<Rightarrow> s)"

definition or_default :: "string option \<Rightarrow> string \<Rightarrow> string" where
  "or_default k d = (case k of None \<Rightarrow> d | Some s \<Rightarrow> if s = [] then d else s)"

definition add :: "string \<Rightarrow> string list \<Rightarrow> (voptions \<Rightarrow> voptions \<times> jserr option) \<Rightarrow> adapter list \<Rightarrow> adapter list" where
  "add adapterName params f adapters = adapters @ [\<lparr>a_name = adapterName, a_params = params, a_adapt = f\<rparr>]"

definition addBool :: "string \<Rightarrow> string option \<Rightarrow> adapter list \<Rightarrow> adapter list" where
  "addBool adapterName ruleName =
     add adapterName [] (\<lambda>opts. (setValidationValues (or_default ruleName adapterName) (JBool True) opts, None))"

definition adapt_min_max :: "string option \<Rightarrow> string option \<Rightarrow> string option \<Rightarrow> voptions \<Rightarrow> voptions" where
  "adapt_min_max minRuleName maxRuleName minMaxRuleName opts =
     (let lo = js_prop (o_params opts) ''min''; hi = js_prop (o_params opts) ''max'' in
      if truthy lo \<and> truthy hi then setValidationValues (key_of minMaxRuleName) (JArr [lo, hi]) opts
      else if truthy lo then setValidationValues (key_of minRuleName) lo opts
      else if truthy hi then setValidationValues (key_of maxRuleName) hi opts
      else opts)"

definition addMinMax ::
  "string \<Rightarrow> string option \<Rightarrow> string option \<Rightarrow> string option \<Rightarrow> string option \<Rightarrow> string option \<Rightarrow> adapter list \<Rightarrow> adapter list" where
  "addMinMax adapterName minRuleName maxRuleName minMaxRuleName minAttribute maxAttribute =
     add adapterName [or_default minAttribute ''min'', or_default maxAttribute ''max'']
       (\<lambda>opts. (adapt_min_max minRuleName maxRuleName minMaxRuleName opts, None))"

definition addSingleVal :: "string \<Rightarrow> string option \<Rightarrow> string option \<Rightarrow> adapter list \<Rightarrow> adapter list" where
  "addSingleVal adapterName attribute ruleName =
     add adapterName [or_default attribute ''val'']
       (\<lambda>opts. (setValidationValues (or_default ruleName adapterName) (js_prop (o_params opts) (key_of attribute)) opts, None))"

definition named_input :: "elt list \<Rightarrow> string \<Rightarrow> elt list" where
  \<comment> \<open>\<open>$(form).find(":input").filter("[name='...']")\<close>\<close>
  "named_input inputs name = filter (\<lambda>e. e_name e = unescape (escapeAttributeValue name)) inputs"

definition adapt_equalto :: "voptions \<Rightarrow> voptions \<times> jserr option" where
  "adapt_equalto opts =
     (case js_prop (o_params opts) ''other'' of
        JStr other \<Rightarrow>
          (let fullOtherName = appendModelPrefix other (getModelPrefix (e_name (o_element opts)))
           in (setValidationValues ''equalTo''
                 (case named_input (o_form opts) fullOtherName of [] \<Rightarrow> JUndef | e # _ \<Rightarrow> JNode (e_ref e)) opts, None))
      | _ \<Rightarrow> (opts, Some TypeError))"

definition adapt_required :: "voptions \<Rightarrow> voptions \<times> jserr option" where
  "adapt_required opts =
     (if toUpperCase (e_nodeName (o_element opts)) \<noteq> ''INPUT'' \<or> toUpperCase (e_type (o_element opts)) \<noteq> ''CHECKBOX''
      then (setValidationValues ''required'' (JBool True) opts, None) else (opts, None))"

definition additional_field :: "(elt \<Rightarrow> bool) \<Rightarrow> elt list \<Rightarrow> string \<Rightarrow> jsval" where
  \<comment> \<open>the functions in the data of a remote rule; the first argument is \<open>:hidden\<close>\<close>
  "additional_field is_hidden inputs paramName =
     (let field = named_input inputs paramName in
      if list_ex (\<lambda>e. e_type e = ''checkbox'') field then
        js_or (js_or (val_of_set (filter e_checked field)) (val_of_set (filter is_hidden field))) (JStr [])
      else if list_ex (\<lambda>e. e_type e = ''radio'') field then js_or (val_of_set (filter e_checked field)) (JStr [])
      else val_of_set field)"

definition remote_fields :: "voptions \<Rightarrow> string list" where
  "remote_fields opts =
     (let prefix = getModelPrefix (e_name (o_element opts));
          fields = (case js_prop (o_params opts) ''additionalfields'' of
                      JStr s \<Rightarrow> if s = [] then e_name (o_element opts) else s
                    | _ \<Rightarrow> e_name (o_element opts))
      in map (\<lambda>fieldName. appendModelPrefix fieldName prefix) (splitAndTrim fields))"

definition adapt_remote :: "voptions \<Rightarrow> voptions \<times> jserr option" where
  "adapt_remote opts =
     (let names = remote_fields opts;
          dt = fold (\<lambda>(name, i) d. obj_set name (JFun i) d) (zip names [0..<length names]) [];
          value = JObj [(''url'', js_prop (o_params opts) ''url''),
                        (''type'', js_or (js_prop (o_params opts) ''type'') (JStr ''GET'')), (''data'', JObj dt)]
      in (setValidationValues ''remote'' value opts, None))"

definition set_if :: "string \<Rightarrow> string \<Rightarrow> voptions \<Rightarrow> voptions" where
  "set_if param rule opts =
     (if truthy (js_prop (o_params opts) param) then setValidationValues rule (js_prop (o_params opts) param) opts else opts)"

definition adapt_password :: "voptions \<Rightarrow> voptions \<times> jserr option" where
  "adapt_password opts = (set_if ''regex'' ''regex'' (set_if ''nonalphamin'' ''nonalphamin'' (set_if ''min'' ''minlength'' opts)), None)"

definition adapt_fileextensions :: "voptions \<Rightarrow> voptions \<times> jserr option" where
  "adapt_fileextensions opts = (setValidationValues ''extension'' (js_prop (o_params opts) ''extensions'') opts, None)"

definition extension_adapters :: "bool \<Rightarrow> adapter list" where
  \<comment> \<open>the flag says whether there is an extension method\<close>
  "extension_adapters has_extension =
     (if has_extension
      then addSingleVal ''extension'' (Some ''extension'') None (addSingleVal ''accept'' (Some ''mimtype'') None [])
      else addSingleVal ''extension'' (Some ''extension'') (Some ''accept'') [])"

definition bool_adapters :: "adapter list \<Rightarrow> adapter list" where
  "bool_adapters = fold (\<lambda>n. addBool n None) [''creditcard'', ''date'', ''digits'', ''email'', ''number'', ''url'']"

definition min_max_adapters :: "adapter list \<Rightarrow> adapter list" where
  "min_max_adapters a =
     addMinMax ''maxlength'' (Some ''minlength'') (Some ''maxlength'') None None None
       (addMinMax ''minlength'' (Some ''minlength'') None None None None
         (addMinMax ''range'' (Some ''min'') (Some ''max'') (Some ''range'') None None
           (addMinMax ''length'' (Some ''minlength'') (Some ''maxlength'') (Some ''rangelength'') None None a)))"

definition adapters :: "bool \<Rightarrow> adapter list" where
  "adapters has_extension =
     add ''fileextensions'' [''extensions''] adapt_fileextensions
       (add ''password'' [''min'', ''nonalphamin'', ''regex''] adapt_password
         (add ''remote'' [''url'', ''type'', ''additionalfields''] adapt_remote
           (add ''required'' [] adapt_required
             (add ''equalto'' [''other''] adapt_equalto
               (min_max_adapters (bool_adapters (addSingleVal ''regex'' (Some ''pattern'') None
                 (extension_adapters has_extension))))))))"

section \<open>Methods\<close>

definition dummy_method :: "jsval \<Rightarrow> elt \<Rightarrow> jsval \<Rightarrow> jserr + jsval" where
  "dummy_method value e params = Inr (JBool True)"

definition regex :: "(string \<Rightarrow> string \<Rightarrow> jserr + (nat \<times> string) option) \<Rightarrow> vctx \<Rightarrow> string \<Rightarrow> elt \<Rightarrow> string \<Rightarrow> jserr + jsval" where
  \<comment> \<open>the first argument is \<open>new RegExp(params).exec(value)\<close>: index and text of the match\<close>
  "regex exec v value e params =
     (case optional v e of
        Inl x \<Rightarrow> Inl x
      | Inr r \<Rightarrow>
          if truthy r then Inr (JBool True)
          else (case exec params value of
                  Inl x \<Rightarrow> Inl x
                | Inr None \<Rightarrow> Inr JNull
                | Inr (Some (i, m)) \<Rightarrow> Inr (JBool (i = 0 \<and> length m = length value))))"

definition nonalphamin :: "string \<Rightarrow> jsval \<Rightarrow> jsval" where
  "nonalphamin value n =
     (if truthy n then
        (let ms = filter (\<lambda>c. \<not> is_word c) value
         in if ms = [] then JNull else JBool (js_le (js_Number n) (num (length ms))))
      else JUndef)"

section \<open>Parsing\<close>

record vinfo =
  i_errorClass :: string
  i_errorElement :: string
  i_rules :: "jsval obj"
  i_messages :: "jsval obj"

record container =
  m_for :: "string option"
  m_replace :: "string option"
  m_summary :: bool
  m_list :: "string list option" \<comment> \<open>the items of the list of a summary\<close>
  m_classes :: "string list"
  m_labels :: "nat list" \<comment> \<open>the error labels inside\<close>

record uform =
  u_inputs :: "elt list"
  u_info :: "vinfo option"
  u_validator :: "vinfo option"
  u_containers :: "container list"
  u_data :: "(nat \<times> nat list) list" \<comment> \<open>the containers stored with an error label\<close>
  u_hidden :: "nat list"
  u_resetting :: bool

definition validationInfo :: "string option \<Rightarrow> string option \<Rightarrow> uform \<Rightarrow> uform \<times> vinfo" where
  \<comment> \<open>the first arguments are the errorClass and errorElement of the options of the page\<close>
  "validationInfo errorClass errorElement f =
     (case u_info f of
        Some i \<Rightarrow> (f, i)
      | None \<Rightarrow>
          (let i = \<lparr>i_errorClass = or_default errorClass ''input-validation-error'',
                    i_errorElement = or_default errorElement ''span'', i_rules = [], i_messages = []\<rparr>
           in (f\<lparr>u_info := Some i\<rparr>, i)))"

definition attachValidation :: "uform \<Rightarrow> uform" where
  \<comment> \<open>\<open>validate\<close> returns the validator the form already has\<close>
  "attachValidation f = (case u_validator f of None \<Rightarrow> f\<lparr>u_validator := u_info f\<rparr> | Some v \<Rightarrow> f)"

definition attr_value :: "elt \<Rightarrow> string \<Rightarrow> jsval" where
  "attr_value e a = (case obj_get (e_attrs e) a of None \<Rightarrow> JUndef | Some s \<Rightarrow> JStr s)"

fun run_adapters :: "adapter list \<Rightarrow> elt \<Rightarrow> elt list \<Rightarrow> jsval obj \<times> jsval obj \<Rightarrow> (jsval obj \<times> jsval obj) \<times> jserr option" where
  "run_adapters [] e inputs rm = (rm, None)"
| "run_adapters (a # as) e inputs (rls, messages) =
     (let prefix = ''data-val-'' @ a_name a in
      case obj_get (e_attrs e) prefix of
        None \<Rightarrow> run_adapters as e inputs (rls, messages)
      | Some message \<Rightarrow>
          (let params = fold (\<lambda>p acc. obj_set p (attr_value e (prefix @ ''-'' @ p)) acc) (a_params a) []
           in case a_adapt a \<lparr>o_element = e, o_form = inputs, o_message = message, o_params = params,
                              o_rules = rls, o_messages = messages\<rparr> of
                (opts, Some x) \<Rightarrow> ((o_rules opts, o_messages opts), Some x)
              | (opts, None) \<Rightarrow> run_adapters as e inputs (o_rules opts, o_messages opts)))"

definition parseElement :: "adapter list \<Rightarrow> string option \<Rightarrow> string option \<Rightarrow> elt \<Rightarrow> bool \<Rightarrow> uform \<Rightarrow> uform \<times> jserr option" where
  \<comment> \<open>for an element of the form; an element outside of a form is skipped\<close>
  "parseElement ads ec ee e skipAttach f =
     (case validationInfo ec ee f of
        (f1, i) \<Rightarrow>
          (case run_adapters ads e (u_inputs f) ([], []) of
             ((rls, messages), err) \<Rightarrow>
               (let rls1 = (if err = None then obj_set ''__dummy__'' (JBool True) rls else rls);
                    i1 = i\<lparr>i_rules := obj_set (e_name e) (JObj rls1) (i_rules i),
                           i_messages := obj_set (e_name e) (JObj messages) (i_messages i)\<rparr>;
                    f2 = f1\<lparr>u_info := Some i1\<rparr>
                in (if err = None \<and> \<not> skipAttach then attachValidation f2 else f2, err))))"

definition data_val :: "elt \<Rightarrow> bool" where
  "data_val e \<longleftrightarrow> obj_get (e_attrs e) ''data-val'' = Some ''true''"

fun parse_elements :: "adapter list \<Rightarrow> string option \<Rightarrow> string option \<Rightarrow> elt list \<Rightarrow> uform \<Rightarrow> uform \<times> jserr option" where
  "parse_elements ads ec ee [] f = (f, None)"
| "parse_elements ads ec ee (e # es) f =
     (case parseElement ads ec ee e True f of
        (f1, Some x) \<Rightarrow> (f1, Some x)
      | (f1, None) \<Rightarrow> parse_elements ads ec ee es f1)"

fun parse_forms :: "adapter list \<Rightarrow> string option \<Rightarrow> string option \<Rightarrow> uform list \<Rightarrow> uform list \<times> jserr option" where
  "parse_forms ads ec ee [] = ([], None)"
| "parse_forms ads ec ee (f # fs) =
     (case parse_elements ads ec ee (filter data_val (u_inputs f)) f of
        (f1, Some x) \<Rightarrow> (f1 # fs, Some x)
      | (f1, None) \<Rightarrow> (case parse_forms ads ec ee fs of (fs1, x) \<Rightarrow> (f1 # fs1, x)))"

definition parse :: "adapter list \<Rightarrow> string option \<Rightarrow> string option \<Rightarrow> uform list \<Rightarrow> uform list \<times> jserr option" where
  \<comment> \<open>\<open>parse(document)\<close>\<close>
  "parse ads ec ee fs =
     (case parse_forms ads ec ee fs of
        (fs1, Some x) \<Rightarrow> (fs1, Some x)
      | (fs1, None) \<Rightarrow>
          (map (\<lambda>f. if list_ex data_val (u_inputs f) then attachValidation (fst (validationInfo ec ee f)) else f) fs1, None))"

section \<open>Messages in their containers\<close>

definition upd_containers :: "nat list \<Rightarrow> (container \<Rightarrow> container) \<Rightarrow> uform \<Rightarrow> uform" where
  "upd_containers ix g f =
     f\<lparr>u_containers := map (\<lambda>(i, c). if List.member ix i then g c else c) (zip [0..<length (u_containers f)] (u_containers f))\<rparr>"

definition swap_class :: "string \<Rightarrow> string \<Rightarrow> container \<Rightarrow> container" where
  \<comment> \<open>remove the first class, add the second\<close>
  "swap_class old new c =
     (let cs = filter (\<lambda>x. x \<noteq> old) (m_classes c)
      in c\<lparr>m_classes := (if List.member cs new then cs else cs @ [new])\<rparr>)"

definition containers_for :: "string \<Rightarrow> uform \<Rightarrow> nat list" where
  "containers_for name f =
     filter (\<lambda>i. m_for (u_containers f ! i) = Some (unescape (escapeAttributeValue name))) [0..<length (u_containers f)]"

definition replace_attr :: "nat list \<Rightarrow> uform \<Rightarrow> string option" where
  "replace_attr ix f = (case ix of [] \<Rightarrow> None | i # _ \<Rightarrow> m_replace (u_containers f ! i))"

definition onError :: "(string \<Rightarrow> jserr + jsval) \<Rightarrow> nat \<Rightarrow> string \<Rightarrow> uform \<Rightarrow> uform \<times> jserr option" where
  \<comment> \<open>JSON parsing, the error label, the name of the input\<close>
  "onError parseJSON err name f =
     (let ix = containers_for name f in
      case (case replace_attr ix f of
              None \<Rightarrow> Inr False
            | Some s \<Rightarrow> if s = [] then Inr False else map_sum id (\<lambda>v. v \<noteq> JBool False) (parseJSON s)) of
        Inl x \<Rightarrow> (f, Some x)
      | Inr replace \<Rightarrow>
          (let f1 = upd_containers ix (swap_class ''field-validation-valid'' ''field-validation-error'') f;
               f2 = f1\<lparr>u_data := put err ix (u_data f1)\<rparr>
           in (if replace then upd_containers ix (\<lambda>c. c\<lparr>m_labels := [err]\<rparr>) f2 else f2\<lparr>u_hidden := err # u_hidden f2\<rparr>, None)))"

definition onErrors :: "string list \<Rightarrow> uform \<Rightarrow> uform" where
  \<comment> \<open>the messages of the errors of the validator; the lists of all summaries are filled when there is one\<close>
  "onErrors messages f =
     (let summaries = filter (\<lambda>i. m_summary (u_containers f ! i)) [0..<length (u_containers f)] in
      if list_ex (\<lambda>i. m_list (u_containers f ! i) \<noteq> None) summaries \<and> messages \<noteq> [] then
        upd_containers summaries (\<lambda>c. (swap_class ''validation-summary-valid'' ''validation-summary-errors'' c)
          \<lparr>m_list := map_option (\<lambda>_. messages) (m_list c)\<rparr>) f
      else f)"

definition onSuccess :: "(string \<Rightarrow> jserr + jsval) \<Rightarrow> nat \<Rightarrow> uform \<Rightarrow> uform \<times> jserr option" where
  "onSuccess parseJSON err f =
     (case map_of (u_data f) err of
        None \<Rightarrow> (f, None)
      | Some ix \<Rightarrow>
          (case (case replace_attr ix f of
                   None \<Rightarrow> Inr False
                 | Some s \<Rightarrow> if s = [] then Inr False else map_sum id truthy (parseJSON s)) of
             Inl x \<Rightarrow> (f, Some x)
           | Inr replace \<Rightarrow>
               (let f1 = upd_containers ix (swap_class ''field-validation-error'' ''field-validation-valid'') f;
                    f2 = f1\<lparr>u_data := filter (\<lambda>p. fst p \<noteq> err) (u_data f1)\<rparr>
                in (if replace then upd_containers ix (\<lambda>c. c\<lparr>m_labels := []\<rparr>) f2 else f2, None))))"

definition onReset :: "(uform \<Rightarrow> uform \<times> jserr option) \<Rightarrow> uform \<Rightarrow> uform \<times> jserr option" where
  \<comment> \<open>the first argument is \<open>resetForm\<close> of the validator, which may raise the event again\<close>
  "onReset reset_validator f =
     (if u_resetting f then (f, None)
      else case reset_validator (f\<lparr>u_resetting := True\<rparr>) of
        (f1, Some x) \<Rightarrow> (f1\<lparr>u_resetting := False\<rparr>, Some x)
      | (f1, None) \<Rightarrow>
          (let all = [0..<length (u_containers f1)];
               summaries = filter (\<lambda>i. List.member (m_classes (u_containers f1 ! i)) ''validation-summary-errors'') all;
               fields = filter (\<lambda>i. List.member (m_classes (u_containers f1 ! i)) ''field-validation-error'') all;
               inside = concat (map (\<lambda>i. m_labels (u_containers f1 ! i)) fields);
               f2 = upd_containers summaries (swap_class ''validation-summary-errors'' ''validation-summary-valid'') f1;
               f3 = upd_containers fields (swap_class ''field-validation-error'' ''field-validation-valid'') f2
           in (f3\<lparr>u_resetting := False, u_data := filter (\<lambda>p. \<not> List.member inside (fst p)) (u_data f3)\<rparr>, None)))"

section \<open>Laws\<close>

lemma unescape_escapeAttributeValue [simp]: "unescape (escapeAttributeValue s) = s"
proof (induction s)
  case (Cons c s)
  have "attribute_meta (CHR 0x5C)" by (simp add: attribute_meta_def)
  then have "\<not> attribute_meta c \<Longrightarrow> c \<noteq> CHR 0x5C" by blast
  with Cons show ?case by (simp add: escapeAttributeValue_def unescape_Cons)
qed (simp add: escapeAttributeValue_def)

lemma map_of_setValidationValues:
  "map_of (o_rules (setValidationValues r v opts)) k = (if k = r then Some v else map_of (o_rules opts) k)"
  "map_of (o_messages (setValidationValues r v opts)) k =
     (if k = r \<and> o_message opts \<noteq> [] then Some (JStr (o_message opts)) else map_of (o_messages opts) k)"
  by (simp_all add: setValidationValues_def Let_def)

definition spares :: "string \<Rightarrow> adapter \<Rightarrow> bool" where
  \<comment> \<open>an adapter that leaves the rule and the message of a name alone\<close>
  "spares k a \<longleftrightarrow> (\<forall>opts. map_of (o_rules (fst (a_adapt a opts))) k = map_of (o_rules opts) k
     \<and> map_of (o_messages (fst (a_adapt a opts))) k = map_of (o_messages opts) k)"

lemma run_adapters_spares:
  "list_all (spares k) as \<Longrightarrow> run_adapters as e inputs rm = (rm', err) \<Longrightarrow>
     map_of (fst rm') k = map_of (fst rm) k \<and> map_of (snd rm') k = map_of (snd rm) k"
proof (induction as e inputs rm rule: run_adapters.induct)
  case (2 a as e inputs rls msgs)
  show ?case
  proof (cases "obj_get (e_attrs e) (''data-val-'' @ a_name a)")
    case None
    with 2 show ?thesis by (simp add: Let_def)
  next
    case (Some m)
    let ?o = "\<lparr>o_element = e, o_form = inputs, o_message = m,
      o_params = fold (\<lambda>p acc. obj_set p (attr_value e ((''data-val-'' @ a_name a) @ ''-'' @ p)) acc) (a_params a) [], o_rules = rls, o_messages = msgs\<rparr>"
    obtain opts x where a: "a_adapt a ?o = (opts, x)" by force
    have s: "map_of (o_rules opts) k = map_of rls k" "map_of (o_messages opts) k = map_of msgs k"
      using 2(3) a by (auto simp: spares_def dest!: spec [of _ ?o])
    show ?thesis
    proof (cases x)
      case None
      then show ?thesis using 2(2) [OF refl Some refl a [symmetric]] 2(3,4) Some a s by (simp add: Let_def)
    next
      case (Some y)
      then show ?thesis using 2(4) \<open>obj_get _ _ = Some m\<close> a s by (auto simp: Let_def)
    qed
  qed
qed simp

lemma run_adapters_append:
  "run_adapters (as @ bs) e inputs rm =
     (case run_adapters as e inputs rm of (rm', Some x) \<Rightarrow> (rm', Some x) | (rm', None) \<Rightarrow> run_adapters bs e inputs rm')"
proof (induction as e inputs rm rule: run_adapters.induct)
  case (2 a as e inputs rls msgs)
  then show ?case by (auto simp: Let_def split: option.splits prod.splits)
qed simp

lemmas adapter_defs = adapters_def add_def addBool_def addMinMax_def addSingleVal_def bool_adapters_def min_max_adapters_def extension_adapters_def

lemma adapters_split:
  "\<exists>pre post. adapters x = pre @ \<lparr>a_name = ''required'', a_params = [], a_adapt = adapt_required\<rparr> # post
     \<and> list_all (spares ''required'') post"
proof -
  have "adapters x = min_max_adapters (bool_adapters (addSingleVal ''regex'' (Some ''pattern'') None (extension_adapters x)))
      @ [\<lparr>a_name = ''equalto'', a_params = [''other''], a_adapt = adapt_equalto\<rparr>]
      @ \<lparr>a_name = ''required'', a_params = [], a_adapt = adapt_required\<rparr>
      # [\<lparr>a_name = ''remote'', a_params = [''url'', ''type'', ''additionalfields''], a_adapt = adapt_remote\<rparr>,
         \<lparr>a_name = ''password'', a_params = [''min'', ''nonalphamin'', ''regex''], a_adapt = adapt_password\<rparr>,
         \<lparr>a_name = ''fileextensions'', a_params = [''extensions''], a_adapt = adapt_fileextensions\<rparr>]"
    by (simp add: adapters_def add_def)
  moreover have "spares ''required'' \<lparr>a_name = ''remote'', a_params = ps, a_adapt = adapt_remote\<rparr>" for ps
    by (simp add: spares_def adapt_remote_def Let_def map_of_setValidationValues)
  moreover have "spares ''required'' \<lparr>a_name = ''password'', a_params = ps, a_adapt = adapt_password\<rparr>" for ps
    by (simp add: spares_def adapt_password_def set_if_def map_of_setValidationValues)
  moreover have "spares ''required'' \<lparr>a_name = ''fileextensions'', a_params = ps, a_adapt = adapt_fileextensions\<rparr>" for ps
    by (simp add: spares_def adapt_fileextensions_def map_of_setValidationValues)
  ultimately show ?thesis by (intro exI conjI) (simp_all only: append.assoc [symmetric], simp)
qed

lemma run_adapters_required:
  assumes r: "run_adapters (adapters x) e inputs rm = (rm', None)"
    and msg: "obj_get (e_attrs e) ''data-val-required'' = Some msg" "msg \<noteq> []"
    and e: "toUpperCase (e_type e) \<noteq> ''CHECKBOX''"
  shows "map_of (fst rm') ''required'' = Some (JBool True) \<and> map_of (snd rm') ''required'' = Some (JStr msg)"
proof -
  obtain pre post where ads: "adapters x = pre @ \<lparr>a_name = ''required'', a_params = [], a_adapt = adapt_required\<rparr> # post"
    and sp: "list_all (spares ''required'') post" using adapters_split by blast
  let ?rq = "\<lparr>a_name = ''required'', a_params = [], a_adapt = adapt_required\<rparr>"
  from r obtain rls msgs where p: "run_adapters (?rq # post) e inputs (rls, msgs) = (rm', None)"
    unfolding ads run_adapters_append by (auto split: prod.splits option.splits)
  let ?o = "\<lparr>o_element = e, o_form = inputs, o_message = msg, o_params = [], o_rules = rls, o_messages = msgs\<rparr>"
  have q: "run_adapters post e inputs (o_rules (setValidationValues ''required'' (JBool True) ?o),
      o_messages (setValidationValues ''required'' (JBool True) ?o)) = (rm', None)"
    using p msg e by (simp add: adapt_required_def Let_def)
  from run_adapters_spares [OF sp q] msg show ?thesis by (simp add: map_of_setValidationValues)
qed

definition wf_adapter :: "adapter \<Rightarrow> bool" where
  "wf_adapter a \<longleftrightarrow> (\<forall>opts. obj_wf (o_rules opts) \<longrightarrow> obj_wf (o_rules (fst (a_adapt a opts))))"

lemma run_adapters_wf:
  "list_all wf_adapter as \<Longrightarrow> obj_wf (fst rm) \<Longrightarrow> obj_wf (fst (fst (run_adapters as e inputs rm)))"
proof (induction as e inputs rm rule: run_adapters.induct)
  case (2 a as e inputs rls msgs)
  show ?case
  proof (cases "obj_get (e_attrs e) (''data-val-'' @ a_name a)")
    case (Some m)
    let ?o = "\<lparr>o_element = e, o_form = inputs, o_message = m,
      o_params = fold (\<lambda>p acc. obj_set p (attr_value e ((''data-val-'' @ a_name a) @ ''-'' @ p)) acc) (a_params a) [], o_rules = rls, o_messages = msgs\<rparr>"
    obtain opts x where a: "a_adapt a ?o = (opts, x)" by force
    have "obj_wf (o_rules opts)" using 2(3,4) a by (auto simp: wf_adapter_def dest!: spec [of _ ?o])
    then show ?thesis using 2(2) [OF refl Some refl a [symmetric]] 2(3) Some a by (cases x) (auto simp: Let_def)
  qed (use 2 in \<open>simp add: Let_def\<close>)
qed simp

lemma setValidationValues_wf: "obj_wf (o_rules opts) \<Longrightarrow> obj_wf (o_rules (setValidationValues r v opts))"
  by (simp add: setValidationValues_def Let_def obj_wf_set)

lemma adapters_wf: "list_all wf_adapter (adapters x)"
  by (simp add: adapter_defs wf_adapter_def setValidationValues_wf adapt_min_max_def adapt_equalto_def adapt_required_def
      adapt_remote_def adapt_password_def set_if_def adapt_fileextensions_def Let_def split: jsval.splits)

text \<open>A rule with the value true that the settings give an element survives normalisation.\<close>

lemma dependency_pass_true:
  "dependency_pass v e rs = Inr (rs', b) \<Longrightarrow> obj_wf rs \<Longrightarrow> map_of rs k = Some (JBool True) \<Longrightarrow> map_of rs' k = Some (JBool True)"
proof (induction rs arbitrary: rs' b)
  case (Cons p rs)
  from Cons.prems(1) obtain val b1 rs1 b2 where o: "dependency_one v e (snd p) = Inr (val, b1)"
      and d: "dependency_pass v e rs = Inr (rs1, b2)"
      and rs': "rs' = (case val of None \<Rightarrow> rs1 | Some w \<Rightarrow> (fst p, w) # rs1)"
    by (auto split: sum.splits prod.splits)
  show ?case
  proof (cases "fst p = k")
    case True
    then have "snd p = JBool True" using Cons.prems(3) by simp
    with o have "val = Some (JBool True)" by (simp add: dependency_one_def)
    with True show ?thesis by (simp add: rs')
  next
    case False
    with Cons.prems have "map_of rs k = Some (JBool True)" "obj_wf rs" by (auto simp: obj_wf_def)
    with Cons.IH [OF d] False show ?thesis by (auto simp: rs' split: option.splits)
  qed
qed simp

lemma map_of_js_extend: "obj_wf s \<Longrightarrow> map_of s k = Some v \<Longrightarrow> v \<noteq> JUndef \<Longrightarrow> map_of (js_extend t s) k = Some v"
  by (simp add: js_extend_def map_of_obj_extend obj_wf_defined map_of_defined)

lemma map_of_eval_true: "map_of rs k = Some (JBool True) \<Longrightarrow> map_of (eval_params v e rs) k = Some (JBool True)"
  by (induction rs) (auto simp: eval_params_def)

lemma map_of_clean: "k \<noteq> j \<Longrightarrow> map_of (clean_length j rs) k = map_of rs k" "k \<noteq> j \<Longrightarrow> map_of (clean_range j rs) k = map_of rs k"
  "k \<notin> {lo, hi, tgt} \<Longrightarrow> map_of (create_range lo hi tgt rs) k = map_of rs k"
  by (simp_all add: clean_length_def clean_range_def create_range_def Let_def split: jsval.splits)

lemma obj_extend_head: "fst p \<notin> fst ` set s \<Longrightarrow> obj_extend (p # t) s = p # obj_extend t s"
  by (induction s arbitrary: t) auto

lemma required_rule_kept:
  assumes r: "rules L v srules e = Inr (rs, b)" and s: "js_prop srules (e_name e) = JObj kvs"
    and wf: "obj_wf kvs" and k: "map_of kvs ''required'' = Some (JBool True)"
  shows "\<exists>rest. rs = (''required'', JBool True) # rest"
proof -
  let ?all = "js_extend (js_extend (js_extend (js_extend [] (classRules (l_classRules L) e))
                (attributeRules (l_methods L) e)) (dataRules (l_methods L) e)) (staticRules srules e)"
  have st: "staticRules srules e = kvs" using s by (simp add: staticRules_def normalizeRule_def)
  have "map_of ?all ''required'' = Some (JBool True)" "obj_wf ?all"
    by (simp_all add: st map_of_js_extend wf k obj_wf_js_extend)
  moreover obtain data where n: "normalizeRules v (l_autoCreateRanges L) ?all e = Inr (data, b)" and rs: "rs = remote_last (required_first data)"
    using r by (auto simp: rules_def split: sum.splits)
  ultimately have d: "map_of data ''required'' = Some (JBool True)"
    by (auto simp: normalizeRules_def Let_def map_of_clean intro!: map_of_eval_true dest!: dependency_pass_true split: sum.splits prod.splits)
  then have "required_first data = (''required'', JBool True) # obj_extend [] (defined_entries (obj_del ''required'' data))"
    by (auto simp: required_first_def js_prop_def js_extend_def defined_entries_def obj_del_def intro!: obj_extend_head)
  then show ?thesis
    by (simp add: rs remote_last_def js_extend_def obj_del_def defined_entries_def)
qed


definition sample_uform :: "elt list \<Rightarrow> uform" where
  "sample_uform es = \<lparr>u_inputs = es, u_info = None, u_validator = None, u_containers = [], u_data = [], u_hidden = [], u_resetting = False\<rparr>"

definition required_input :: elt where
  "required_input = (sample_field [])\<lparr>e_attrs := [(''data-val'', ''true''), (''data-val-required'', ''Say your name.'')]\<rparr>"

definition parsed_sample :: uform where
  "parsed_sample = fst (parseElement (adapters False) None None required_input False (sample_uform [required_input]))"

definition sample_info :: vinfo where
  "sample_info = \<lparr>i_errorClass = ''input-validation-error'', i_errorElement = ''span'',
     i_rules = [(''f'', JObj [(''required'', JBool True), (''__dummy__'', JBool True)])],
     i_messages = [(''f'', JObj [(''required'', JStr ''Say your name.'')])]\<rparr>"


text \<open>One input breaks the validation of the whole page: when an input with a data-val-equalto attribute
  has no data-val-equalto-other attribute, parsing the document throws, and no form that had no
  validator gets one.\<close>

theorem equalto_without_other_stops_parse:
  assumes f: "f \<in> set fs" and e: "e \<in> set (u_inputs f)" "data_val e" "obj_get (e_attrs e) ''data-val-equalto'' = Some m"
      "obj_get (e_attrs e) ''data-val-equalto-other'' = None"
    and fresh: "\<And>g. g \<in> set fs \<Longrightarrow> u_validator g = None"
  shows "\<exists>err. snd (parse (adapters x) ec ee fs) = Some err \<and> (\<forall>g \<in> set (fst (parse (adapters x) ec ee fs)). u_validator g = None)"
proof -
  have ads: "adapters x = min_max_adapters (bool_adapters (addSingleVal ''regex'' (Some ''pattern'') None (extension_adapters x)))
      @ \<lparr>a_name = ''equalto'', a_params = [''other''], a_adapt = adapt_equalto\<rparr> # post" if
      "post = [\<lparr>a_name = ''required'', a_params = [], a_adapt = adapt_required\<rparr>,
         \<lparr>a_name = ''remote'', a_params = [''url'', ''type'', ''additionalfields''], a_adapt = adapt_remote\<rparr>,
         \<lparr>a_name = ''password'', a_params = [''min'', ''nonalphamin'', ''regex''], a_adapt = adapt_password\<rparr>,
         \<lparr>a_name = ''fileextensions'', a_params = [''extensions''], a_adapt = adapt_fileextensions\<rparr>]" for post
    by (simp add: that adapters_def add_def)
  have thr: "\<exists>err. snd (run_adapters (adapters x) e inputs rm) = Some err" for inputs rm
  proof -
    have o: "js_prop (fold (\<lambda>p acc. obj_set p (attr_value e (''data-val-equalto'' @ ''-'' @ p)) acc) [''other''] []) ''other'' = JUndef"
      using e(4) by (simp add: js_prop_def attr_value_def)
    obtain pre post where "adapters x = pre @ \<lparr>a_name = ''equalto'', a_params = [''other''], a_adapt = adapt_equalto\<rparr> # post"
      using ads by blast
    then show ?thesis using e(3,4) o
      by (auto simp: run_adapters_append adapt_equalto_def Let_def js_prop_def attr_value_def split: prod.splits option.splits)
  qed
  have none: "u_validator (fst (parse_elements (adapters x) ec ee es g)) = u_validator g" for es g
    by (induction es arbitrary: g) (auto simp: parseElement_def validationInfo_def Let_def split: prod.splits option.splits)
  have throws: "\<exists>err. snd (parse_elements (adapters x) ec ee es g) = Some err" if "e \<in> set es" for es g
    using that
  proof (induction es arbitrary: g)
    case (Cons y es)
    obtain g1 r where p: "parseElement (adapters x) ec ee y True g = (g1, r)" by force
    have "\<exists>err. r = Some err" if "y = e" using p thr [of "u_inputs g" "([], [])"] that
      by (auto simp: parseElement_def Let_def split: prod.splits)
    then show ?case using Cons p by (cases r) auto
  qed simp
  have "(\<exists>err. snd (parse_forms (adapters x) ec ee gs) = Some err) \<and> (\<forall>g \<in> set (fst (parse_forms (adapters x) ec ee gs)). u_validator g = None)"
    if "f \<in> set gs" "\<And>g. g \<in> set gs \<Longrightarrow> u_validator g = None" for gs
    using that
  proof (induction gs)
    case (Cons g gs)
    obtain g1 r where p: "parse_elements (adapters x) ec ee (filter data_val (u_inputs g)) g = (g1, r)" by force
    have v: "u_validator g1 = None" using none [of "filter data_val (u_inputs g)" g] p Cons.prems(2) [of g] by simp
    show ?case
    proof (cases r)
      case (Some err)
      with p v Cons.prems(2) show ?thesis by auto
    next
      case None
      then have "g \<noteq> f" using throws [of "filter data_val (u_inputs f)" f] e p by auto
      then have "f \<in> set gs" using Cons.prems(1) by simp
      with Cons.IH Cons.prems(2) p None v show ?thesis by (auto split: prod.splits)
    qed
  qed simp
  from this [OF f fresh] show ?thesis by (auto simp: parse_def split: prod.splits option.splits)
qed

definition broken_input :: elt where
  "broken_input = (sample_field [])\<lparr>e_attrs := [(''data-val'', ''true''), (''data-val-equalto'', ''Not the same.'')]\<rparr>"

theorem equalto_without_other_stops_parse_witness:
  "\<exists>err. snd (parse (adapters False) None None [sample_uform [broken_input], sample_uform [required_input]]) = Some err"
proof -
  have v: "u_validator g = None" if "g \<in> set [sample_uform [broken_input], sample_uform [required_input]]" for g
    using that by (auto simp: sample_uform_def)
  have "sample_uform [broken_input] \<in> set [sample_uform [broken_input], sample_uform [required_input]]"
    "broken_input \<in> set (u_inputs (sample_uform [broken_input]))" "data_val broken_input"
    "obj_get (e_attrs broken_input) ''data-val-equalto'' = Some ''Not the same.''"
    "obj_get (e_attrs broken_input) ''data-val-equalto-other'' = None"
    by (simp_all add: sample_uform_def data_val_def broken_input_def)
  from equalto_without_other_stops_parse [OF this v] show ?thesis by blast
qed

text \<open>A form that has a validator keeps the rules it was created with: parsing the document again, with
  whatever inputs were added, changes no validator.\<close>

theorem parse_again_keeps_validator:
  assumes "parse ads ec ee fs = (fs', None)" "i < length fs" "u_validator (fs ! i) = Some v"
  shows "length fs' = length fs \<and> u_validator (fs' ! i) = Some v"
proof -
  have none: "u_validator (fst (parse_elements ads ec ee es g)) = u_validator g" for es g
    by (induction es arbitrary: g) (auto simp: parseElement_def validationInfo_def Let_def split: prod.splits option.splits)
  have pf: "map u_validator (fst (parse_forms ads ec ee gs)) = map u_validator gs" for gs
  proof (induction gs)
    case (Cons g gs)
    then show ?case using none [of "filter data_val (u_inputs g)" g] by (auto split: prod.splits option.splits)
  qed simp
  obtain gs where gs: "parse_forms ads ec ee fs = (gs, None)"
    and fs': "fs' = map (\<lambda>f. if list_ex data_val (u_inputs f) then attachValidation (fst (validationInfo ec ee f)) else f) gs"
    using assms(1) by (auto simp: parse_def split: prod.splits option.splits)
  have m: "map u_validator gs = map u_validator fs" using pf [of fs] gs by simp
  then have l: "length gs = length fs" by (rule map_eq_imp_length_eq)
  have "u_validator (gs ! i) = Some v" using m assms(2,3) l by (metis nth_map)
  moreover have "u_validator (fst (validationInfo ec ee g)) = u_validator g" for g
    by (simp add: validationInfo_def Let_def split: option.splits)
  ultimately show ?thesis using assms(2) l by (simp add: fs' attachValidation_def)
qed

theorem parse_again_keeps_validator_witness:
  "u_validator (fst (parse (adapters False) None None [parsed_sample\<lparr>u_inputs := []\<rparr>]) ! 0) = u_validator parsed_sample"
proof -
  let ?f = "parsed_sample\<lparr>u_inputs := []\<rparr>"
  have p: "snd (parse (adapters False) None None [?f]) = None" by code_simp
  have v: "u_validator ([?f] ! 0) = Some sample_info" by code_simp
  have "u_validator parsed_sample = Some sample_info" by code_simp
  with parse_again_keeps_validator [OF pair_of_snd [OF p] _ v] show ?thesis by simp
qed

text \<open>An adapter registered with the default attribute of addSingleVal never passes the value of that
  attribute on: whatever the element says, the rule it stores has the value undefined.\<close>

theorem addSingleVal_default_reads_nothing:
  assumes "obj_get (e_attrs e) (''data-val-'' @ name) = Some m"
  shows "map_of (fst (fst (run_adapters (addSingleVal name None None []) e inputs ([], [])))) name = Some JUndef"
  using assms by (simp add: addSingleVal_def add_def or_default_def key_of_def Let_def map_of_setValidationValues js_prop_def)

theorem addSingleVal_default_reads_nothing_witness:
  "map_of (fst (fst (run_adapters (addSingleVal ''multipleof'' None None [])
     ((sample_field [])\<lparr>e_attrs := [(''data-val-multipleof'', ''m''), (''data-val-multipleof-val'', ''5'')]\<rparr>) [] ([], [])))) ''multipleof'' = Some JUndef"
  by (rule addSingleVal_default_reads_nothing) simp

lemma upd_containers_nth:
  "i < length (u_containers f) \<Longrightarrow> u_containers (upd_containers ix g f) ! i =
     (if i \<in> set ix then g (u_containers f ! i) else u_containers f ! i)"
  by (simp add: upd_containers_def)

lemma length_upd_containers [simp]: "length (u_containers (upd_containers ix g f)) = length (u_containers f)"
  by (simp add: upd_containers_def)

lemma swap_class_classes: "old \<noteq> new \<Longrightarrow> new \<in> set (m_classes (swap_class old new c)) \<and> old \<notin> set (m_classes (swap_class old new c))"
  by (simp add: swap_class_def Let_def)

text \<open>Placing an error and then its success brings the containers of the field back: every container of
  the field has the class of valid fields and not that of errors, and the label is forgotten.\<close>

theorem error_then_success:
  assumes err: "onError parseJSON err name f = (f1, None)" and ok: "onSuccess parseJSON err f1 = (f2, None)"
    and i: "i < length (u_containers f)" "m_for (u_containers f ! i) = Some name"
  shows "''field-validation-valid'' \<in> set (m_classes (u_containers f2 ! i))
    \<and> ''field-validation-error'' \<notin> set (m_classes (u_containers f2 ! i)) \<and> map_of (u_data f2) err = None"
proof -
  let ?ix = "containers_for name f"
  have ix: "i \<in> set ?ix" using i by (simp add: containers_for_def)
  have d1: "map_of (u_data f1) err = Some ?ix" and l1: "length (u_containers f1) = length (u_containers f)"
    using err by (auto simp: onError_def Let_def put_def upd_containers_def split: sum.splits option.splits if_splits)
  define s where "s = upd_containers ?ix (swap_class ''field-validation-error'' ''field-validation-valid'') f1"
  have c: "m_classes (u_containers f2 ! i) = m_classes (u_containers s ! i)" and d2: "map_of (u_data f2) err = None"
    using ok d1 ix i l1
    by (auto simp: onSuccess_def s_def Let_def upd_containers_def map_of_eq_None_iff split: sum.splits option.splits if_splits)
  have "u_containers s ! i = swap_class ''field-validation-error'' ''field-validation-valid'' (u_containers f1 ! i)"
    using ix i l1 by (simp add: s_def upd_containers_nth)
  then show ?thesis using c d2 swap_class_classes [of "''field-validation-error''" "''field-validation-valid''"] by simp
qed

definition sample_container :: container where
  "sample_container = \<lparr>m_for = Some ''f'', m_replace = Some ''true'', m_summary = False, m_list = None,
     m_classes = [''field-validation-valid''], m_labels = []\<rparr>"

theorem error_then_success_witness:
  "\<exists>f1 f2. onError (\<lambda>_. Inr (JBool True)) 7 ''f'' ((sample_uform [])\<lparr>u_containers := [sample_container]\<rparr>) = (f1, None)
     \<and> ''field-validation-error'' \<in> set (m_classes (u_containers f1 ! 0))
     \<and> onSuccess (\<lambda>_. Inr (JBool True)) 7 f1 = (f2, None) \<and> ''field-validation-valid'' \<in> set (m_classes (u_containers f2 ! 0))"
proof -
  let ?f = "(sample_uform [])\<lparr>u_containers := [sample_container]\<rparr>" and ?j = "\<lambda>_ :: string. Inr (JBool True) :: jserr + jsval"
  let ?f1 = "fst (onError ?j 7 ''f'' ?f)"
  have e: "snd (onError ?j 7 ''f'' ?f) = None" by code_simp
  have s: "snd (onSuccess ?j 7 ?f1) = None" by code_simp
  have m: "''field-validation-error'' \<in> set (m_classes (u_containers ?f1 ! 0))" by code_simp
  have "''field-validation-valid'' \<in> set (m_classes (u_containers (fst (onSuccess ?j 7 ?f1)) ! 0))"
    using error_then_success [OF pair_of_snd [OF e] pair_of_snd [OF s], of 0] by (simp add: sample_container_def sample_uform_def)
  with e s m show ?thesis by (metis pair_of_snd)
qed

end
