(* ===== verification/JqCallbacks.thy ===== *)
theory JqCallbacks
  imports JqCore
begin

text \<open>
  Callback lists of jQuery (jQuery.Callbacks).  Callback lists live in a store, since a deferred
  object ties six of them together; running code is a stack of frames.  The operations of a list
  return the new store and the frames they push; \<open>istep\<close> is one step of the loops of fire.  Code of
  the page is unknown: while a frame of it is on top it may perform any operation it has access to,
  in any order, or return.  The step relation \<open>cstep\<close> has all these behaviours, so what holds in
  every reachable configuration holds for every page.
\<close>

section \<open>Callback lists\<close>

datatype cargs = Args jsval "jsval list" \<comment> \<open>context and arguments\<close>

datatype cb = CUser nat | CState string | CDisable nat | CLock nat | CFire nat

record cblist =
  k_once :: bool
  k_memory :: bool
  k_unique :: bool
  k_stopOnFalse :: bool
  k_firing :: bool
  k_mem :: "cargs option" \<comment> \<open>None stands for the falsy values of memory\<close>
  k_fired :: bool
  k_locked :: bool
  k_list :: "cb list option" \<comment> \<open>None is the empty string that marks a disabled list\<close>
  k_queue :: "cargs list"
  k_firingIndex :: int

definition createOptions :: "string \<Rightarrow> string list" where
  \<comment> \<open>the flags that are set\<close>
  "createOptions s = html_words s"

definition Callbacks :: "string \<Rightarrow> cblist" where
  "Callbacks s =
     (let flags = createOptions s in
      \<lparr>k_once = List.member flags ''once'', k_memory = List.member flags ''memory'', k_unique = List.member flags ''unique'',
       k_stopOnFalse = List.member flags ''stopOnFalse'', k_firing = False, k_mem = None, k_fired = False, k_locked = False,
       k_list = Some [], k_queue = [], k_firingIndex = -1\<rparr>)"

record hp =
  h_lists :: "nat \<Rightarrow> cblist"
  h_state :: string
  h_log :: "(nat \<times> cargs \<times> nat) list" \<comment> \<open>the calls of page code: list, arguments, callback\<close>

datatype frame = Outer nat | Inner nat | User nat nat

type_synonym config = "frame list \<times> hp"

definition upd :: "nat \<Rightarrow> (cblist \<Rightarrow> cblist) \<Rightarrow> hp \<Rightarrow> hp" where
  "upd r g s = s\<lparr>h_lists := (h_lists s)(r := g (h_lists s r))\<rparr>"

definition entries :: "cblist \<Rightarrow> cb list" where
  "entries k = (case k_list k of None \<Rightarrow> [] | Some l \<Rightarrow> l)"

definition start_fire :: "cblist \<Rightarrow> cblist" where
  "start_fire k = k\<lparr>k_locked := (k_locked k \<or> k_once k), k_fired := True, k_firing := True\<rparr>"

definition has :: "cb \<Rightarrow> cblist \<Rightarrow> bool" where
  "has f k \<longleftrightarrow> List.member (entries k) f"

definition add_all :: "bool \<Rightarrow> cb list \<Rightarrow> cb list \<Rightarrow> cb list" where
  \<comment> \<open>the flag is the option unique\<close>
  "add_all unique fs l = fold (\<lambda>f acc. if unique \<and> List.member acc f then acc else acc @ [f]) fs l"

definition add_list :: "cb list \<Rightarrow> cblist \<Rightarrow> cblist \<times> bool" where
  \<comment> \<open>the flag says that the list fires after the addition\<close>
  "add_list fs k =
     (case k_list k of
        None \<Rightarrow> (k, False)
      | Some l \<Rightarrow>
          (let refire = (k_mem k \<noteq> None \<and> \<not> k_firing k);
               k1 = (if refire then k\<lparr>k_firingIndex := int (length l) - 1, k_queue := k_queue k @ [the (k_mem k)]\<rparr> else k);
               k2 = k1\<lparr>k_list := Some (add_all (k_unique k) fs l)\<rparr>
           in (if refire then start_fire k2 else k2, refire)))"

function remove_at :: "cb \<Rightarrow> nat \<Rightarrow> cb list \<Rightarrow> int \<Rightarrow> cb list \<times> int" where
  \<comment> \<open>the loop that removes a callback from an index on and moves the firing index\<close>
  "remove_at f i l fi =
     (if i < length l then
        (if l ! i = f then remove_at f i (take i l @ drop (Suc i) l) (if int i \<le> fi then fi - 1 else fi)
         else remove_at f (Suc i) l fi)
      else (l, fi))"
  by pat_completeness auto

termination
  by (relation "measure (\<lambda>(f, i, l, fi). length l - i)") auto

declare remove_at.simps [simp del]

definition remove_list :: "cb list \<Rightarrow> cblist \<Rightarrow> cblist" where
  "remove_list fs k =
     (case k_list k of
        None \<Rightarrow> k
      | Some l \<Rightarrow>
          (let (l', fi) = fold (\<lambda>f (l, fi). remove_at f 0 l fi) fs (l, k_firingIndex k)
           in k\<lparr>k_list := Some l', k_firingIndex := fi\<rparr>))"

definition empty_list :: "cblist \<Rightarrow> cblist" where
  "empty_list k = (if k_list k = None then k else k\<lparr>k_list := Some []\<rparr>)"

definition disable :: "cblist \<Rightarrow> cblist" where
  "disable k = k\<lparr>k_locked := True, k_queue := [], k_list := None, k_mem := None\<rparr>"

definition disabled :: "cblist \<Rightarrow> bool" where
  "disabled k \<longleftrightarrow> k_list k = None"

definition lock :: "cblist \<Rightarrow> cblist" where
  "lock k =
     (let k1 = k\<lparr>k_locked := True, k_queue := []\<rparr>
      in if k_mem k = None \<and> \<not> k_firing k then k1\<lparr>k_list := None, k_mem := None\<rparr> else k1)"

definition fireWith :: "cargs \<Rightarrow> cblist \<Rightarrow> cblist \<times> bool" where
  "fireWith a k =
     (if k_locked k then (k, False)
      else (let k1 = k\<lparr>k_queue := k_queue k @ [a]\<rparr>
            in if k_firing k then (k1, False) else (start_fire k1, True)))"

definition end_fire :: "cblist \<Rightarrow> cblist" where
  \<comment> \<open>the end of fire, after its loops\<close>
  "end_fire k =
     (let k1 = k\<lparr>k_mem := (if k_memory k then k_mem k else None), k_firing := False\<rparr>
      in if k_locked k1 then k1\<lparr>k_list := (if k_mem k1 \<noteq> None then Some [] else None)\<rparr> else k1)"

section \<open>Operations and steps\<close>

datatype cop = OAdd nat "cb list" | ORemove nat "cb list" | OEmpty nat | ODisable nat | OLock nat | OFire nat cargs

fun do_op :: "cop \<Rightarrow> hp \<Rightarrow> frame list \<times> hp" where
  "do_op (OAdd r fs) s = (let (k, b) = add_list fs (h_lists s r) in (if b then [Outer r] else [], upd r (\<lambda>_. k) s))"
| "do_op (ORemove r fs) s = ([], upd r (remove_list fs) s)"
| "do_op (OEmpty r) s = ([], upd r empty_list s)"
| "do_op (ODisable r) s = ([], upd r disable s)"
| "do_op (OLock r) s = ([], upd r lock s)"
| "do_op (OFire r a) s = (let (k, b) = fireWith a (h_lists s r) in (if b then [Outer r] else [], upd r (\<lambda>_. k) s))"

fun call :: "nat \<Rightarrow> cargs \<Rightarrow> cb \<Rightarrow> hp \<Rightarrow> frame list \<times> hp" where
  \<comment> \<open>a callback of list \<open>r\<close> is called\<close>
  "call r a (CUser u) s = ([User r u], s\<lparr>h_log := h_log s @ [(r, a, u)]\<rparr>)"
| "call r a (CState st) s = ([], s\<lparr>h_state := st\<rparr>)"
| "call r a (CDisable q) s = do_op (ODisable q) s"
| "call r a (CLock q) s = do_op (OLock q) s"
| "call r a (CFire q) s = do_op (OFire q a) s"

definition no_args :: cargs where "no_args = Args JUndef []"

fun istep :: "frame \<Rightarrow> hp \<Rightarrow> frame list \<times> hp" where
  \<comment> \<open>a step of the two loops; the frames replace the one on top\<close>
  "istep (Outer r) s =
     (let k = h_lists s r in
      case k_queue k of
        [] \<Rightarrow> ([], upd r end_fire s)
      | a # q \<Rightarrow> ([Inner r, Outer r], upd r (\<lambda>_. k\<lparr>k_mem := Some a, k_queue := q\<rparr>) s))"
| "istep (Inner r) s =
     (let k = h_lists s r; i = k_firingIndex k + 1 in
      if i < int (length (entries k)) then
        (case call r (case k_mem k of None \<Rightarrow> no_args | Some a \<Rightarrow> a) (entries k ! nat i)
                (upd r (\<lambda>_. k\<lparr>k_firingIndex := i\<rparr>) s) of
           (fs, s') \<Rightarrow> (fs @ [Inner r], s'))
      else ([], upd r (\<lambda>_. k\<lparr>k_firingIndex := -1\<rparr>) s))"
| "istep (User r u) s = ([], s)"

definition stops :: "nat \<Rightarrow> hp \<Rightarrow> bool" where
  "stops r s \<longleftrightarrow> k_stopOnFalse (h_lists s r)"

definition stop_firing :: "cblist \<Rightarrow> cblist" where
  \<comment> \<open>a callback returned false: the index jumps to the end, the inner loop ends and the data is forgotten\<close>
  "stop_firing k = k\<lparr>k_firingIndex := -1, k_mem := None\<rparr>"

inductive cstep :: "(cop \<Rightarrow> bool) \<Rightarrow> config \<Rightarrow> config \<Rightarrow> bool" for allowed where
  idle: "allowed p \<Longrightarrow> do_op p s = (fs, s') \<Longrightarrow> cstep allowed ([], s) (fs, s')"
| page: "allowed p \<Longrightarrow> do_op p s = (fs, s') \<Longrightarrow> cstep allowed (User r u # K, s) (fs @ User r u # K, s')"
| return: "cstep allowed (User r u # K, s) (K, s)"
| return_false: "stops r s \<Longrightarrow> cstep allowed (User r u # Inner r # K, s) (K, upd r stop_firing s)"
| throw: "K2 = [] \<or> (\<exists>q v. hd K2 = User q v) \<Longrightarrow> cstep allowed (User r u # K1 @ K2, s) (K2, s)"
| outer: "istep (Outer r) s = (fs, s') \<Longrightarrow> cstep allowed (Outer r # K, s) (fs @ K, s')"
| inner: "istep (Inner r) s = (fs, s') \<Longrightarrow> cstep allowed (Inner r # K, s) (fs @ K, s')"

inductive_cases cstepE: "cstep allowed c c'"

section \<open>The stack\<close>

fun wfK :: "frame list \<Rightarrow> bool" where
  "wfK [] = True"
| "wfK (Outer r # K) = wfK K"
| "wfK (Inner r # K) = (take 1 K = [Outer r] \<and> wfK K)"
| "wfK (User r u # K) = (take 1 K = [Inner r] \<and> wfK K)"

lemma wfK_drop: "wfK (K1 @ K2) \<Longrightarrow> wfK K2"
  by (induction K1 rule: wfK.induct) auto

lemma wfK_Inner: "wfK K \<Longrightarrow> Inner r \<in> set K \<Longrightarrow> Outer r \<in> set K"
proof (induction K rule: wfK.induct)
  case (3 q K)
  then show ?case by (cases K) auto
qed auto

lemma do_op_frames: "do_op p s = (fs, s') \<Longrightarrow> fs = [] \<or> (\<exists>r. fs = [Outer r])"
  by (cases p) (auto simp: Let_def split: prod.splits if_splits)

lemma call_frames: "call r a f s = (fs, s') \<Longrightarrow> fs = [] \<or> (\<exists>q. fs = [Outer q]) \<or> (\<exists>u. fs = [User r u])"
  by (cases f) (auto dest: do_op_frames simp: Let_def split: prod.splits if_splits)

lemma cstep_wfK: "cstep allowed c c' \<Longrightarrow> wfK (fst c) \<Longrightarrow> wfK (fst c')"
proof (induction rule: cstep.induct)
  case (outer r s fs s' K)
  then show ?case by (auto simp: Let_def split: list.splits)
next
  case (inner r s fs s' K)
  then show ?case by (auto simp: Let_def split: if_splits prod.splits dest!: call_frames)
qed (auto dest: do_op_frames wfK_drop)

section \<open>Lists that fire once\<close>

definition logged :: "nat \<Rightarrow> hp \<Rightarrow> cargs set" where
  "logged r s = (\<lambda>e. fst (snd e)) ` {e \<in> set (h_log s). fst e = r}"

definition one_value :: "cargs \<Rightarrow> cblist \<Rightarrow> bool" where
  \<comment> \<open>a list with the option once that has fired, or will, with this value only\<close>
  "one_value A k \<longleftrightarrow> k_once k \<and> - 1 \<le> k_firingIndex k \<and> (k_fired k \<longrightarrow> k_locked k)
     \<and> (\<not> k_fired k \<longrightarrow> k_mem k = None \<and> k_queue k = [] \<and> \<not> k_firing k)
     \<and> set (k_queue k) \<subseteq> {A} \<and> set_option (k_mem k) \<subseteq> {A}"

definition ready :: "cblist \<Rightarrow> bool" where
  "ready k \<longleftrightarrow> k_mem k \<noteq> None \<or> k_list k = None"

definition once_inv :: "nat \<Rightarrow> config \<Rightarrow> bool" where
  "once_inv r c \<longleftrightarrow> (case c of (K, s) \<Rightarrow>
     (let k = h_lists s r in
      (\<exists>A. one_value A k \<and> logged r s \<subseteq> {A})
      \<and> (\<not> k_fired k \<longrightarrow> logged r s = {} \<and> Outer r \<notin> set K)
      \<and> count_list K (Outer r) \<le> 1 \<and> (Outer r \<in> set K \<longrightarrow> k_firing k) \<and> (Inner r \<in> set K \<longrightarrow> ready k)))"

lemma h_lists_upd [simp]: "h_lists (upd q g s) r = (if r = q then g (h_lists s q) else h_lists s r)"
  "h_log (upd q g s) = h_log s" "h_state (upd q g s) = h_state s"
  by (simp_all add: upd_def)

lemma logged_upd [simp]: "logged r (upd q g s) = logged r s"
  by (simp add: logged_def)

lemma logged_state [simp]: "logged r (s\<lparr>h_state := x\<rparr>) = logged r s"
  by (simp add: logged_def)

lemma logged_log: "logged r (s\<lparr>h_log := h_log s @ [(q, a, u)]\<rparr>) = (if q = r then insert a (logged r s) else logged r s)"
proof -
  have "{e \<in> set (h_log s @ [(q, a, u)]). fst e = r} = {e \<in> set (h_log s). fst e = r} \<union> (if q = r then {(q, a, u)} else {})" by auto
  then show ?thesis by (simp add: logged_def)
qed

lemmas list_defs = remove_list_def empty_list_def disable_def lock_def start_fire_def end_fire_def stop_firing_def

lemma k_list_add: "k_list (fst (add_list fs k)) = map_option (add_all (k_unique k) fs) (k_list k)"
  by (simp add: add_list_def Let_def start_fire_def split: option.split)

text \<open>Operations that do not start to fire.\<close>

definition calm :: "(cblist \<Rightarrow> cblist) \<Rightarrow> bool" where
  "calm g \<longleftrightarrow> (\<forall>A k. one_value A k \<longrightarrow> one_value A (g k)) \<and> (\<forall>k. k_fired (g k) = k_fired k)
     \<and> (\<forall>k. k_firing (g k) = k_firing k) \<and> (\<forall>k. ready k \<longrightarrow> ready (g k))"

lemma remove_at_index: "- 1 \<le> fi \<Longrightarrow> - 1 \<le> snd (remove_at f i l fi)"
proof (induction f i l fi rule: remove_at.induct)
  case (1 f i l fi)
  show ?case
    by (subst remove_at.simps) (use 1 in auto)
qed

lemma remove_list_index: "- 1 \<le> k_firingIndex k \<Longrightarrow> - 1 \<le> k_firingIndex (remove_list fs k)"
proof -
  have "- 1 \<le> snd x \<Longrightarrow> - 1 \<le> snd (fold (\<lambda>f (l, fi). remove_at f 0 l fi) fs x)" for x
    by (induction fs arbitrary: x) (auto simp: case_prod_unfold remove_at_index)
  from this [of "(the (k_list k), k_firingIndex k)"] show "- 1 \<le> k_firingIndex k \<Longrightarrow> ?thesis"
    by (auto simp: remove_list_def Let_def case_prod_unfold split: option.splits)
qed

lemma remove_list_same:
  "k_once (remove_list fs k) = k_once k" "k_fired (remove_list fs k) = k_fired k" "k_firing (remove_list fs k) = k_firing k"
  "k_locked (remove_list fs k) = k_locked k" "k_mem (remove_list fs k) = k_mem k" "k_queue (remove_list fs k) = k_queue k"
  "k_list (remove_list fs k) = None \<longleftrightarrow> k_list k = None"
  by (simp_all add: remove_list_def Let_def case_prod_unfold split: option.splits)

lemma calm_ops: "calm (remove_list fs)" "calm empty_list" "calm disable" "calm lock"
  by (simp add: calm_def one_value_def ready_def remove_list_same remove_list_index)
     (auto simp: calm_def one_value_def ready_def list_defs Let_def)

lemma once_invI:
  assumes "one_value A (h_lists s r)" "logged r s \<subseteq> {A}" "\<not> k_fired (h_lists s r) \<longrightarrow> logged r s = {} \<and> Outer r \<notin> set K"
    "count_list K (Outer r) \<le> 1" "Outer r \<in> set K \<longrightarrow> k_firing (h_lists s r)" "Inner r \<in> set K \<longrightarrow> ready (h_lists s r)"
  shows "once_inv r (K, s)"
  using assms unfolding once_inv_def by (simp add: Let_def) blast

lemma once_invE:
  assumes "once_inv r (K, s)"
  obtains A where "one_value A (h_lists s r)" "logged r s \<subseteq> {A}" "\<not> k_fired (h_lists s r) \<longrightarrow> logged r s = {} \<and> Outer r \<notin> set K"
    "count_list K (Outer r) \<le> 1" "Outer r \<in> set K \<longrightarrow> k_firing (h_lists s r)" "Inner r \<in> set K \<longrightarrow> ready (h_lists s r)"
  using assms unfolding once_inv_def by (simp add: Let_def) blast

lemma once_calm: "once_inv r (K, s) \<Longrightarrow> calm g \<Longrightarrow> once_inv r (K, upd q g s)"
  by (cases "q = r"; erule once_invE, rule once_invI; simp add: calm_def)

lemma fires_frame:
  assumes i: "once_inv r (K, s)" and w: "wfK K" and idle: "\<not> k_firing (h_lists s r)"
    and k: "one_value A k" "logged r s \<subseteq> {A}" "k_fired k" "k_firing k"
  shows "once_inv r (Outer r # K, upd r (\<lambda>_. k) s)"
proof -
  have o: "Outer r \<notin> set K" using i idle by (auto simp: once_inv_def Let_def)
  then have "count_list K (Outer r) = 0" "Inner r \<notin> set K" using wfK_Inner [OF w] by (auto simp: count_notin)
  then show ?thesis using k by (intro once_invI [of A]) simp_all
qed

lemma add_once:
  assumes i: "once_inv r (K, s)" and w: "wfK K"
  shows "once_inv r (fst (do_op (OAdd q fs) s) @ K, snd (do_op (OAdd q fs) s))"
proof -
  let ?k = "h_lists s q"
  show ?thesis
  proof (cases "q = r \<and> snd (add_list fs ?k)")
    case True
    obtain A where A: "one_value A ?k" "logged r s \<subseteq> {A}" using i True by (auto simp: once_inv_def Let_def)
    have idle: "\<not> k_firing ?k" and mem: "k_mem ?k = Some A"
      using True A(1) by (auto simp: add_list_def Let_def one_value_def split: option.splits)
    then have "one_value A (fst (add_list fs ?k))" "k_fired (fst (add_list fs ?k))" "k_firing (fst (add_list fs ?k))"
      using True A(1) by (auto simp: add_list_def Let_def one_value_def start_fire_def split: option.splits)
    with fires_frame [OF i w _ _ A(2), of "fst (add_list fs ?k)"] True idle show ?thesis by (auto simp: Let_def case_prod_unfold)
  next
    case False
    define k where "k = fst (add_list fs ?k)"
    have "once_inv r (K, upd q (\<lambda>_. k) s)"
    proof (cases "q = r")
      case True
      with False have "one_value A k \<longleftrightarrow> one_value A ?k" "k_fired k = k_fired ?k" "k_firing k = k_firing ?k" "ready k = ready ?k" for A
        by (auto simp: k_def add_list_def Let_def one_value_def ready_def split: option.splits if_splits)
      then show ?thesis using i True by (simp add: once_inv_def Let_def)
    qed (use i in \<open>simp add: once_inv_def Let_def\<close>)
    with False show ?thesis by (auto simp: Let_def k_def case_prod_unfold once_inv_def)
  qed
qed

lemma fire_once:
  assumes i: "once_inv r (K, s)" and w: "wfK K"
  shows "once_inv r (fst (do_op (OFire q a) s) @ K, snd (do_op (OFire q a) s))"
proof -
  let ?k = "h_lists s q"
  show ?thesis
  proof (cases "q = r")
    case True
    show ?thesis
    proof (cases "k_locked ?k")
      case False
      then have "\<not> k_fired ?k" "k_once ?k" "- 1 \<le> k_firingIndex ?k" "k_queue ?k = []" "\<not> k_firing ?k" "k_mem ?k = None" "logged r s = {}"
        using i True by (auto simp: once_inv_def Let_def one_value_def)
      then have "one_value a (fst (fireWith a ?k)) \<and> snd (fireWith a ?k) \<and> k_fired (fst (fireWith a ?k)) \<and> k_firing (fst (fireWith a ?k))"
        using False by (simp add: fireWith_def one_value_def start_fire_def Let_def)
      with fires_frame [OF i w, of a "fst (fireWith a ?k)"] True \<open>logged r s = {}\<close> \<open>\<not> k_firing ?k\<close> show ?thesis
        by (simp add: Let_def case_prod_unfold)
    qed (use i True in \<open>simp add: fireWith_def once_inv_def Let_def\<close>)
  qed (use i in \<open>simp add: once_inv_def Let_def case_prod_unfold\<close>)
qed

lemma do_op_once:
  assumes "once_inv r (K, s)" "wfK K" "do_op p s = (fs, s')"
  shows "once_inv r (fs @ K, s')"
proof (cases p)
  case (OAdd q l)
  then show ?thesis using add_once [OF assms(1,2), of q l] assms(3) by (metis fst_conv snd_conv)
next
  case (OFire q a)
  then show ?thesis using fire_once [OF assms(1,2), of q a] assms(3) by (metis fst_conv snd_conv)
qed (use once_calm [OF assms(1)] calm_ops assms(3) in auto)

lemma call_once:
  assumes i: "once_inv r (K, s)" and w: "wfK K" and c: "call q a f s = (fs, s')"
    and a: "\<And>A. q = r \<Longrightarrow> one_value A (h_lists s r) \<Longrightarrow> logged r s \<subseteq> {A} \<Longrightarrow> k_fired (h_lists s r) \<and> (a = A \<or> f \<notin> range CUser)"
  shows "once_inv r (fs @ K, s')"
proof (cases f)
  case (CUser u)
  with c have s': "s' = s\<lparr>h_log := h_log s @ [(q, a, u)]\<rparr>" and fs: "fs = [User q u]" by auto
  obtain A where A: "one_value A (h_lists s r)" "logged r s \<subseteq> {A}" "\<not> k_fired (h_lists s r) \<longrightarrow> logged r s = {} \<and> Outer r \<notin> set K"
    "count_list K (Outer r) \<le> 1" "Outer r \<in> set K \<longrightarrow> k_firing (h_lists s r)" "Inner r \<in> set K \<longrightarrow> ready (h_lists s r)"
    by (rule once_invE [OF i])
  show ?thesis unfolding fs s'
    by (rule once_invI [of A]) (use A a [OF _ A(1,2)] CUser in \<open>auto simp: logged_log\<close>)
next
  case (CState st)
  with c i show ?thesis by (auto simp: once_inv_def Let_def)
next
  case (CDisable x)
  with c have "do_op (ODisable x) s = (fs, s')" by simp
  then show ?thesis by (rule do_op_once [OF i w])
next
  case (CLock x)
  with c have "do_op (OLock x) s = (fs, s')" by simp
  then show ?thesis by (rule do_op_once [OF i w])
next
  case (CFire x)
  with c have "do_op (OFire x a) s = (fs, s')" by simp
  then show ?thesis by (rule do_op_once [OF i w])
qed

lemma inner_once:
  assumes i: "once_inv r (Inner q # K, s)" and w: "wfK (Inner q # K)" and st: "istep (Inner q) s = (fs, s')"
  shows "once_inv r (fs @ K, s')"
proof -
  let ?k = "h_lists s q"
  have sub: "once_inv r (Inner q # K, upd q (\<lambda>_. ?k\<lparr>k_firingIndex := j\<rparr>) s)" if "- 1 \<le> j" for j
    using once_calm [OF i, of "\<lambda>k. k\<lparr>k_firingIndex := j\<rparr>" q] that by (simp add: calm_def one_value_def ready_def upd_def)
  show ?thesis
  proof (cases "k_firingIndex ?k + 1 < int (length (entries ?k))")
    case False
    then have "fs = []" "s' = upd q (\<lambda>_. ?k\<lparr>k_firingIndex := -1\<rparr>) s" using st by (auto simp: Let_def)
    then show ?thesis using sub [of "-1"] by (auto simp: once_inv_def Let_def)
  next
    case True
    define s1 where "s1 = upd q (\<lambda>_. ?k\<lparr>k_firingIndex := k_firingIndex ?k + 1\<rparr>) s"
    define a where "a = (case k_mem ?k of None \<Rightarrow> no_args | Some a \<Rightarrow> a)"
    let ?f = "entries ?k ! nat (k_firingIndex ?k + 1)"
    obtain fs1 where c: "call q a ?f s1 = (fs1, s')" and fs: "fs = fs1 @ [Inner q]"
      using st True by (auto simp: Let_def s1_def a_def split: prod.splits)
    have idx: "- 1 \<le> k_firingIndex ?k" if "q = r" using i that by (auto simp: once_inv_def one_value_def Let_def)
    have "k_fired (h_lists s1 r) \<and> (a = A \<or> ?f \<notin> range CUser)"
      if "q = r" and A: "one_value A (h_lists s1 r)" "logged r s1 \<subseteq> {A}" for A
    proof -
      have o: "Outer r \<in> set K" using w that(1) by (cases K) auto
      have "ready ?k" "k_fired ?k" using i o that(1) by (auto simp: once_inv_def Let_def)
      moreover have "k_list ?k \<noteq> None" using True idx [OF that(1)] by (cases "k_list ?k") (auto simp: entries_def)
      ultimately have "k_mem ?k \<noteq> None" by (simp add: ready_def)
      then have "a = A" using A(1) that(1) by (auto simp: a_def s1_def one_value_def)
      then show ?thesis using \<open>k_fired ?k\<close> that(1) by (simp add: s1_def)
    qed
    moreover have "once_inv r (Inner q # K, s1)"
    proof (cases "q = r")
      case True
      with idx show ?thesis unfolding s1_def by (intro sub) simp
    qed (use i in \<open>simp add: s1_def once_inv_def Let_def\<close>)
    ultimately show ?thesis unfolding fs using call_once [OF _ w c] by simp
  qed
qed

lemma outer_once:
  assumes i: "once_inv r (Outer q # K, s)" and w: "wfK K" and st: "istep (Outer q) s = (fs, s')"
  shows "once_inv r (fs @ K, s')"
proof (cases "q = r")
  case False
  then show ?thesis using i st by (auto simp: once_inv_def Let_def split: list.splits)
next
  case True
  let ?k = "h_lists s r"
  obtain A where A: "one_value A ?k" "logged r s \<subseteq> {A}" "k_firing ?k" "k_fired ?k" "count_list (Outer r # K) (Outer r) \<le> 1"
    using i True by (auto simp: once_inv_def Let_def)
  then have o: "Outer r \<notin> set K" by (simp add: count_list_0_iff)
  then have n: "Inner r \<notin> set K" using wfK_Inner [OF w] by blast
  show ?thesis
  proof (cases "k_queue ?k")
    case Nil
    have "one_value A (end_fire ?k)" using A(1,4) by (auto simp: one_value_def end_fire_def Let_def)
    moreover have "k_fired (end_fire ?k)" using A(4) by (simp add: end_fire_def Let_def)
    moreover have "fs = []" "s' = upd r end_fire s" using st True Nil by auto
    moreover have "count_list K (Outer r) = 0" using o by (rule count_notin)
    ultimately show ?thesis using A(2) o n by (intro once_invI [of A]) simp_all
  next
    case (Cons a q')
    then have "one_value A (?k\<lparr>k_mem := Some a, k_queue := q'\<rparr>)" using A(1) by (auto simp: one_value_def)
    then show ?thesis using st True Cons A o n by (auto simp: Let_def ready_def intro!: once_invI [of A])
  qed
qed

lemma cstep_once:
  assumes "cstep allowed c c'" "once_inv r c" "wfK (fst c)"
  shows "once_inv r c'"
  using assms
proof (induction rule: cstep.induct)
  case (idle p s fs s')
  then show ?case using do_op_once [of r "[]" s p fs s'] by simp
next
  case (page p s fs s' q u K)
  then show ?case using do_op_once [of r "User q u # K" s p fs s'] by simp
next
  case (return q u K s)
  then show ?case by (auto simp: once_inv_def Let_def)
next
  case (return_false q s u K)
  have i: "once_inv r (K, s)" using return_false.prems(1) by (auto simp: once_inv_def Let_def split: if_splits)
  show ?case
  proof (cases "q = r")
    case True
    obtain K' where K: "K = Outer r # K'" and w: "wfK K'" using return_false.prems(2) True by (cases K) auto
    have "Outer r \<notin> set K'" using i K by (auto simp: once_inv_def Let_def count_list_0_iff)
    then have "Inner r \<notin> set K" using wfK_Inner [OF w] K by auto
    then show ?thesis using i True by (auto simp: once_inv_def Let_def one_value_def stop_firing_def)
  qed (use i in \<open>simp add: once_inv_def Let_def\<close>)
next
  case (throw K2 q u K1 s)
  then show ?case by (auto simp: once_inv_def Let_def)
next
  case (outer q s fs s' K)
  then show ?case using outer_once by auto
next
  case (inner q s fs s' K)
  then show ?case using inner_once by simp
qed

definition new_list :: "nat \<Rightarrow> config \<Rightarrow> bool" where
  "new_list r c \<longleftrightarrow> fst c = [] \<and> h_log (snd c) = []
     \<and> (\<exists>flags. List.member (createOptions flags) ''once'' \<and> h_lists (snd c) r = Callbacks flags)"

interpretation once_list: inductive_invariant "new_list r" "cstep allowed" "\<lambda>c. once_inv r c \<and> wfK (fst c)" for r allowed
proof
  show "once_inv r c \<and> wfK (fst c)" if "new_list r c" for c
    using that by (cases c) (auto simp: new_list_def once_inv_def Let_def one_value_def Callbacks_def logged_def)
  show "once_inv r c' \<and> wfK (fst c')" if "once_inv r c \<and> wfK (fst c)" "cstep allowed c c'" for c c'
    using that by (auto intro: cstep_once cstep_wfK)
qed

text \<open>A list created with the option once calls its callbacks with one value only: whatever the page does,
  from callbacks or between them, all calls of callbacks of the list have the same context and
  arguments.\<close>

theorem once_list_one_value:
  assumes "reach (new_list r) (cstep allowed) (K, s)" "(r, a, u) \<in> set (h_log s)" "(r, b, v) \<in> set (h_log s)"
  shows "a = b"
proof -
  obtain A where "logged r s \<subseteq> {A}" using once_list.inv_reach [OF assms(1)] by (auto simp: once_inv_def Let_def)
  moreover have "a \<in> logged r s" "b \<in> logged r s" using assms(2,3) by (force simp: logged_def)+
  ultimately show ?thesis by blast
qed

definition once_store :: hp where
  "once_store = \<lparr>h_lists = (\<lambda>_. Callbacks ''once memory''), h_state = ''pending'', h_log = []\<rparr>"

section \<open>Runs of callbacks that only return\<close>

fun run :: "nat \<Rightarrow> config \<Rightarrow> config" where
  "run 0 c = c"
| "run (Suc n) ([], s) = ([], s)"
| "run (Suc n) (f # K, s) = (case istep f s of (fs, s') \<Rightarrow> run n (fs @ K, s'))"

lemma run_code [code]:
  "run n c = (if n = 0 then c else case c of
     ([], s) \<Rightarrow> ([], s)
   | (f # K, s) \<Rightarrow> (case istep f s of (fs, s') \<Rightarrow> run (n - 1) (fs @ K, s')))"
  by (cases "(n, c)" rule: run.cases) auto

lemma run_reach: "reach ini (cstep allowed) c \<Longrightarrow> reach ini (cstep allowed) (run n c)"
proof (induction n c rule: run.induct)
  case (3 n f K s)
  obtain fs s' where i: "istep f s = (fs, s')" by force
  have "cstep allowed (f # K, s) (fs @ K, s')"
    using i cstep.return [of allowed] by (cases f) (auto intro: cstep.outer cstep.inner simp del: istep.simps(1,2))
  with 3(2) have "reach ini (cstep allowed) (fs @ K, s')" by (rule reach_step)
  from 3(1) [OF i [symmetric] this] i show ?case by simp
qed simp_all

lemma upd_upd [simp]: "upd r f (upd r g s) = upd r (f \<circ> g) s"
  by (simp add: upd_def)

lemma upd_log: "upd r f (s\<lparr>h_log := l\<rparr>) = (upd r f s)\<lparr>h_log := l\<rparr>"
  by (simp add: upd_def)

lemma run_inner:
  assumes "k_list (h_lists s r) = Some (map CUser (us1 @ us2))" "k_firingIndex (h_lists s r) = int (length us1) - 1" "k_mem (h_lists s r) = Some a"
  shows "run (2 * length us2 + 1 + m) (Inner r # K, s) =
    run m (K, (upd r (\<lambda>k. k\<lparr>k_firingIndex := -1\<rparr>) s)\<lparr>h_log := h_log s @ map (\<lambda>u. (r, a, u)) us2\<rparr>)"
  using assms
proof (induction us2 arbitrary: us1 s)
  case Nil
  then show ?case by (simp add: entries_def Let_def upd_def)
next
  case (Cons u us2)
  let ?s1 = "(upd r (\<lambda>k. k\<lparr>k_firingIndex := int (length us1)\<rparr>) s)\<lparr>h_log := h_log s @ [(r, a, u)]\<rparr>"
  have "run (2 * length (u # us2) + 1 + m) (Inner r # K, s) = run (2 * length us2 + 1 + m) (Inner r # K, ?s1)"
    using Cons.prems by (simp add: entries_def Let_def nth_append upd_def eval_nat_numeral)
  also have "\<dots> = run m (K, (upd r (\<lambda>k. k\<lparr>k_firingIndex := -1\<rparr>) ?s1)\<lparr>h_log := h_log ?s1 @ map (\<lambda>u. (r, a, u)) us2\<rparr>)"
    by (rule Cons.IH [of ?s1 "us1 @ [u]"]) (use Cons.prems in simp_all)
  finally show ?case by (simp add: upd_log comp_def)
qed

lemma run_outer:
  assumes "k_list (h_lists s r) = Some (map CUser (us1 @ us2))" "k_firingIndex (h_lists s r) = int (length us1) - 1" "k_queue (h_lists s r) = [a]"
  shows "\<exists>s'. run (2 * length us2 + 3) (Outer r # K, s) = (K, s') \<and> h_log s' = h_log s @ map (\<lambda>u. (r, a, u)) us2
    \<and> h_lists s' = (h_lists s)(r := end_fire ((h_lists s r)\<lparr>k_mem := Some a, k_queue := [], k_firingIndex := -1\<rparr>))"
proof -
  let ?s1 = "upd r (\<lambda>k. k\<lparr>k_mem := Some a, k_queue := []\<rparr>) s"
  let ?s2 = "(upd r (\<lambda>k. k\<lparr>k_firingIndex := -1\<rparr>) ?s1)\<lparr>h_log := h_log ?s1 @ map (\<lambda>u. (r, a, u)) us2\<rparr>"
  have "run (2 * length us2 + 3) (Outer r # K, s) = run (2 * length us2 + 1 + 1) (Inner r # Outer r # K, ?s1)"
    using assms by (simp add: Let_def upd_def eval_nat_numeral)
  also have "\<dots> = run 1 (Outer r # K, ?s2)"
    by (rule run_inner) (use assms in simp_all)
  also have "\<dots> = (K, upd r end_fire ?s2)" by (simp add: upd_def)
  finally show ?thesis by (simp add: upd_def)
qed

text \<open>C21: Firing an idle list ends: with callbacks that only return, \<open>2 n + 3\<close> steps for \<open>n\<close> callbacks empty the
  stack again, and the calls are those of the callbacks of the list, in their order, each once,
  with the value that was fired.\<close>

theorem fire_calls_in_order:
  assumes "k_list (h_lists s r) = Some (map CUser us)" "\<not> k_locked (h_lists s r)" "\<not> k_firing (h_lists s r)"
    and "k_queue (h_lists s r) = []" "k_firingIndex (h_lists s r) = -1"
  shows "\<exists>s'. run (2 * length us + 3) (do_op (OFire r a) s) = ([], s') \<and> h_log s' = h_log s @ map (\<lambda>u. (r, a, u)) us"
proof -
  let ?s1 = "upd r (\<lambda>k. start_fire (k\<lparr>k_queue := [a]\<rparr>)) s"
  have "do_op (OFire r a) s = ([Outer r], ?s1)" using assms by (simp add: fireWith_def Let_def upd_def)
  then show ?thesis using run_outer [of ?s1 r "[]" us a "[]"] assms by (auto simp: start_fire_def)
qed

text \<open>A list with the option memory that has fired calls a callback added later at once, with the last
  value that was fired, and calls no other callback.\<close>

theorem late_callback_called:
  assumes "k_list (h_lists s r) = Some (map CUser us)" "k_mem (h_lists s r) = Some a" "\<not> k_firing (h_lists s r)"
    and "k_queue (h_lists s r) = []" "\<not> k_unique (h_lists s r)"
  shows "\<exists>s'. run 5 (do_op (OAdd r [CUser u]) s) = ([], s') \<and> h_log s' = h_log s @ [(r, a, u)]"
proof -
  let ?s1 = "upd r (\<lambda>k. start_fire (k\<lparr>k_firingIndex := int (length us) - 1, k_queue := [a], k_list := Some (map CUser (us @ [u]))\<rparr>)) s"
  have "do_op (OAdd r [CUser u]) s = ([Outer r], ?s1)"
    using assms by (simp add: add_list_def add_all_def Let_def upd_def)
  then show ?thesis using run_outer [of ?s1 r us "[u]" a "[]"] by (auto simp: start_fire_def)
qed

lemma once_store_simps:
  "h_lists once_store r = \<lparr>k_once = True, k_memory = True, k_unique = False, k_stopOnFalse = False, k_firing = False, k_mem = None,
     k_fired = False, k_locked = False, k_list = Some [], k_queue = [], k_firingIndex = -1\<rparr>" "h_log once_store = []"
proof -
  have "createOptions ''once memory'' = [''once'', ''memory'']" by code_simp
  then show "h_lists once_store r = \<lparr>k_once = True, k_memory = True, k_unique = False, k_stopOnFalse = False, k_firing = False, k_mem = None,
     k_fired = False, k_locked = False, k_list = Some [], k_queue = [], k_firingIndex = -1\<rparr>"
    by (simp add: once_store_def Callbacks_def Let_def)
qed (simp add: once_store_def)

lemma once_store_new: "new_list r ([], once_store)"
proof -
  have "List.member (createOptions ''once memory'') ''once''" by code_simp
  then show ?thesis unfolding new_list_def by (auto simp: once_store_def intro!: exI [of _ "''once memory''"])
qed

definition two_callbacks :: hp where
  "two_callbacks = snd (do_op (OAdd 7 [CUser 1, CUser 2]) once_store)"

lemma two_callbacks_simps:
  "h_lists two_callbacks 7 = (h_lists once_store 7)\<lparr>k_list := Some (map CUser [1, 2])\<rparr>" "h_log two_callbacks = []"
  "do_op (OAdd 7 [CUser 1, CUser 2]) once_store = ([], two_callbacks)"
  by (simp_all add: two_callbacks_def add_list_def add_all_def once_store_simps Let_def)

theorem fire_calls_in_order_witness:
  "\<exists>s'. run 7 (do_op (OFire 7 (Args JNull [])) two_callbacks) = ([], s') \<and> h_log s' = [(7, Args JNull [], 1), (7, Args JNull [], 2)]"
  using fire_calls_in_order [of two_callbacks 7 "[1, 2]" "Args JNull []"] by (simp add: two_callbacks_simps once_store_simps)

theorem once_list_one_value_witness:
  "\<exists>K s a b. reach (new_list 7) (cstep (\<lambda>_. True)) (K, s) \<and> (7, a, 1) \<in> set (h_log s) \<and> (7, b, 2) \<in> set (h_log s) \<and> a = b"
proof -
  let ?a = "Args JNull [JStr ''x'']" and ?s1 = "upd 7 (\<lambda>k. start_fire (k\<lparr>k_queue := [Args JNull [JStr ''x'']]\<rparr>)) two_callbacks"
  have "reach (new_list 7) (cstep (\<lambda>_. True)) ([], once_store)" using once_store_new by (rule reach_init)
  moreover have "cstep (\<lambda>_. True) ([], once_store) ([], two_callbacks)" by (rule cstep.idle [OF _ two_callbacks_simps(3)]) simp
  ultimately have "reach (new_list 7) (cstep (\<lambda>_. True)) ([], two_callbacks)" by (rule reach_step)
  moreover have "do_op (OFire 7 ?a) two_callbacks = ([Outer 7], ?s1)"
    by (simp add: two_callbacks_simps once_store_simps fireWith_def Let_def upd_def)
  ultimately have r0: "reach (new_list 7) (cstep (\<lambda>_. True)) ([Outer 7], ?s1)" by (blast intro: reach_step cstep.idle)
  obtain s' where s': "run 7 ([Outer 7], ?s1) = ([], s')" and l: "h_log s' = [(7, ?a, 1), (7, ?a, 2)]"
    using run_outer [of ?s1 7 "[]" "[1, 2]" ?a "[]"] by (auto simp: two_callbacks_simps once_store_simps start_fire_def)
  have r: "reach (new_list 7) (cstep (\<lambda>_. True)) ([], s')" using run_reach [OF r0, of 7] by (simp only: s')
  have "(7, ?a, 1) \<in> set (h_log s')" "(7, ?a, 2) \<in> set (h_log s')" by (simp_all add: l)
  with once_list_one_value [OF r this] r show ?thesis by blast
qed

theorem late_callback_called_witness:
  "\<exists>s'. run 5 (do_op (OAdd 7 [CUser 3]) (upd 7 (\<lambda>k. k\<lparr>k_mem := Some (Args JNull []), k_fired := True, k_locked := True, k_list := Some []\<rparr>) once_store)) = ([], s')
     \<and> h_log s' = [(7, Args JNull [], 3)]"
  using late_callback_called [of "upd 7 (\<lambda>k. k\<lparr>k_mem := Some (Args JNull []), k_fired := True, k_locked := True, k_list := Some []\<rparr>) once_store"
      7 "[]" "Args JNull []" 3] by (simp add: once_store_simps)

end
