(* ===== verification/JqDeferred.thy ===== *)
theory JqDeferred
  imports JqCallbacks
begin

text \<open>
  The deferred object of jQuery: six callback lists that disable and lock each other.  The lists 0, 1
  and 2 hold the callbacks for progress, success and failure, the lists 3, 4 and 5 the handlers of
  then for the same events.  The page may add callbacks and fire the first three lists; it has no
  other access.  In every reachable configuration the object is pending, in the middle of its first
  steps, or settled for good.
\<close>

section \<open>Construction\<close>

definition own_callbacks :: "nat \<Rightarrow> cb list" where
  "own_callbacks i =
     (if i = 1 then [CState ''resolved'', CDisable 2, CDisable 5, CLock 0, CLock 3]
      else if i = 2 then [CState ''rejected'', CDisable 1, CDisable 4, CLock 0, CLock 3] else [])
     @ (if i < 3 then [CFire (i + 3)] else [])"

definition deferred_lists :: "nat \<Rightarrow> cblist" where
  "deferred_lists i = (if i = 0 \<or> i = 3 then Callbacks ''memory'' else Callbacks ''once memory'')"

definition Deferred :: hp where
  "Deferred = fold (\<lambda>i s. snd (do_op (OAdd i (own_callbacks i)) s)) [0, 1, 2]
     \<lparr>h_lists = deferred_lists, h_state = ''pending'', h_log = []\<rparr>"

definition resolveWith :: "cargs \<Rightarrow> cop" where "resolveWith = OFire 1"

definition rejectWith :: "cargs \<Rightarrow> cop" where "rejectWith = OFire 2"

definition notifyWith :: "cargs \<Rightarrow> cop" where "notifyWith = OFire 0"

definition progress :: "nat list \<Rightarrow> cop" where "progress us = OAdd 0 (map CUser us)"

definition done_with :: "nat list \<Rightarrow> cop" where "done_with us = OAdd 1 (map CUser us)"

definition fail :: "nat list \<Rightarrow> cop" where "fail us = OAdd 2 (map CUser us)"

definition then_handler :: "nat \<Rightarrow> nat \<Rightarrow> cop" where
  \<comment> \<open>the handlers then adds: progress, fulfilled, rejected\<close>
  "then_handler i u = OAdd (i + 3) [CUser u]"

fun page_op :: "cop \<Rightarrow> bool" where
  "page_op (OAdd r fs) = (r < 6 \<and> list_all (\<lambda>f. case f of CUser u \<Rightarrow> True | _ \<Rightarrow> False) fs)"
| "page_op (OFire r a) = (r < 3)"
| "page_op _ = False"

section \<open>The phases\<close>

definition state_name :: "nat \<Rightarrow> string" where
  "state_name a = (if a = 1 then ''resolved'' else ''rejected'')"

definition unfired :: "nat \<Rightarrow> hp \<Rightarrow> bool" where
  "unfired r s \<longleftrightarrow> (let k = h_lists s r in
     k_once k \<and> \<not> k_fired k \<and> \<not> k_locked k \<and> \<not> k_firing k \<and> \<not> k_unique k \<and> k_mem k = None \<and> k_queue k = [] \<and> k_firingIndex k = -1
     \<and> (\<exists>us. k_list k = Some (own_callbacks r @ map CUser us)))"

definition dead :: "nat \<Rightarrow> hp \<Rightarrow> bool" where
  "dead r s \<longleftrightarrow> (let k = h_lists s r in k_locked k \<and> \<not> k_firing k \<and> k_mem k = None \<and> k_queue k = [] \<and> k_list k = None)"

fun frame_list :: "frame \<Rightarrow> nat" where
  "frame_list (Outer r) = r"
| "frame_list (Inner r) = r"
| "frame_list (User r u) = r"

definition allowed_cb :: "nat \<Rightarrow> cb set" where
  "allowed_cb r = set (own_callbacks r) \<union> range CUser"

definition typed :: "hp \<Rightarrow> bool" where
  "typed s \<longleftrightarrow> (\<forall>r. (\<forall>f \<in> set (entries (h_lists s r)). f \<in> allowed_cb r) \<and> -1 \<le> k_firingIndex (h_lists s r))"

definition only_lists :: "nat set \<Rightarrow> config \<Rightarrow> bool" where
  "only_lists R c \<longleftrightarrow> (\<forall>f \<in> set (fst c). frame_list f \<in> R) \<and> (\<forall>e \<in> set (h_log (snd c)). fst e \<in> R)"

definition pending_phase :: "config \<Rightarrow> bool" where
  "pending_phase c \<longleftrightarrow> only_lists {0, 3} c \<and> unfired 1 (snd c) \<and> unfired 2 (snd c) \<and> unfired 4 (snd c) \<and> unfired 5 (snd c)
     \<and> h_state (snd c) = ''pending''"

definition settled_phase :: "nat \<Rightarrow> config \<Rightarrow> bool" where
  "settled_phase a c \<longleftrightarrow> only_lists (- {3 - a, 6 - a}) c \<and> dead (3 - a) (snd c) \<and> dead (6 - a) (snd c) \<and> h_state (snd c) = state_name a"

definition settling :: "nat \<Rightarrow> nat \<Rightarrow> config \<Rightarrow> bool" where
  \<comment> \<open>the steps before page code can run again\<close>
  "settling a i c \<longleftrightarrow> (case c of (K, s) \<Rightarrow>
     (\<exists>K' us. only_lists {0, 3} (K', s) \<and> k_list (h_lists s a) = Some (own_callbacks a @ map CUser us)
        \<and> k_firingIndex (h_lists s a) = (if i < 2 then -1 else int i - 2)
        \<and> (if i = 0 then K = Outer a # K' \<and> length (k_queue (h_lists s a)) = 1 else K = Inner a # Outer a # K')
        \<and> (i < 3 \<longrightarrow> unfired (3 - a) s) \<and> (i = 3 \<longrightarrow> dead (3 - a) s) \<and> unfired (6 - a) s
        \<and> (2 \<le> i \<longrightarrow> h_state s = state_name a)))"

definition deferred_inv :: "config \<Rightarrow> bool" where
  "deferred_inv c \<longleftrightarrow> typed (snd c) \<and>
     (pending_phase c \<or> (\<exists>a \<in> {1, 2}. (\<exists>i < 4. settling a i c) \<or> settled_phase a c))"

section \<open>Steps\<close>

fun op_list :: "cop \<Rightarrow> nat" where
  "op_list (OAdd r fs) = r"
| "op_list (ORemove r fs) = r"
| "op_list (OEmpty r) = r"
| "op_list (ODisable r) = r"
| "op_list (OLock r) = r"
| "op_list (OFire r a) = r"

lemma do_op_local:
  assumes "do_op p s = (fs, s')"
  shows "r \<noteq> op_list p \<Longrightarrow> h_lists s' r = h_lists s r" "h_log s' = h_log s" "h_state s' = h_state s" "\<forall>f \<in> set fs. frame_list f = op_list p"
  using assms by (cases p; auto simp: Let_def split: prod.splits if_splits)+

lemma dead_op:
  assumes "do_op p s = (fs, s')" "dead r s"
  shows "dead r s'" "op_list p = r \<Longrightarrow> fs = []"
proof -
  show "dead r s'"
  proof (cases "op_list p = r")
    case True
    then show ?thesis using assms
      by (cases p) (auto simp: dead_def Let_def add_list_def remove_list_def empty_list_def disable_def lock_def fireWith_def)
  qed (use do_op_local(1) [OF assms(1), of r] assms(2) in \<open>auto simp: dead_def\<close>)
  show "fs = []" if "op_list p = r" using that assms
    by (cases p) (auto simp: dead_def Let_def add_list_def fireWith_def)
qed

lemma entries_add_all: "set (add_all b fs l) \<subseteq> set l \<union> set fs"
proof (induction fs arbitrary: l)
  case (Cons f fs)
  have "add_all b (f # fs) l = add_all b fs (if b \<and> List.member l f then l else l @ [f])" by (simp add: add_all_def)
  with Cons [of "if b \<and> List.member l f then l else l @ [f]"] show ?case by (auto split: if_splits)
qed (simp add: add_all_def)

lemma typed_upd:
  "typed s \<Longrightarrow> set (entries (g (h_lists s r))) \<subseteq> allowed_cb r \<Longrightarrow> -1 \<le> k_firingIndex (g (h_lists s r)) \<Longrightarrow> typed (upd r g s)"
  by (auto simp: typed_def)

lemma typedD: "typed s \<Longrightarrow> set (entries (h_lists s r)) \<subseteq> allowed_cb r" "typed s \<Longrightarrow> -1 \<le> k_firingIndex (h_lists s r)"
  by (auto simp: typed_def)

lemma typed_page:
  assumes "do_op p s = (fs, s')" "typed s" "page_op p \<or> (\<exists>r a. p \<in> {ODisable r, OLock r, OFire r a})"
  shows "typed s'"
proof (cases p)
  case (OAdd r gs)
  let ?k = "h_lists s r"
  have g: "set gs \<subseteq> range CUser" using OAdd assms(3) by (auto simp: list_all_iff split: cb.splits)
  have "set (entries (fst (add_list gs ?k))) \<subseteq> set (entries ?k) \<union> set gs"
    using entries_add_all [of "k_unique ?k" gs] by (cases "k_list ?k") (simp_all add: entries_def k_list_add)
  then have "set (entries (fst (add_list gs ?k))) \<subseteq> allowed_cb r"
    using typedD(1) [OF assms(2), of r] g by (auto simp: allowed_cb_def)
  moreover have "-1 \<le> k_firingIndex (fst (add_list gs ?k))"
    using typedD(2) [OF assms(2), of r] by (simp add: add_list_def Let_def start_fire_def split: option.split)
  ultimately show ?thesis using assms(1,2) OAdd by (auto simp: Let_def case_prod_unfold intro: typed_upd)
next
  case (OFire r a)
  let ?k = "h_lists s r"
  have "entries (fst (fireWith a ?k)) = entries ?k" "k_firingIndex (fst (fireWith a ?k)) = k_firingIndex ?k"
    by (simp_all add: fireWith_def entries_def start_fire_def Let_def)
  then have "typed (upd r (\<lambda>_. fst (fireWith a ?k)) s)" using typedD [OF assms(2), of r] by (intro typed_upd [OF assms(2)]) simp_all
  then show ?thesis using assms(1) OFire by (auto simp: Let_def case_prod_unfold)
next
  case (ODisable r)
  then show ?thesis using assms(1,2) typedD [OF assms(2), of r] by (auto simp: disable_def entries_def intro!: typed_upd)
next
  case (OLock r)
  have "set (entries (lock k)) \<subseteq> set (entries k)" "k_firingIndex (lock k) = k_firingIndex k" for k
    by (auto simp: lock_def entries_def Let_def)
  then show ?thesis using assms(1,2) OLock typedD [OF assms(2), of r] by (auto intro!: typed_upd)
qed (use assms in auto)

lemma unfired_other: "do_op p s = (fs, s') \<Longrightarrow> op_list p \<noteq> r \<Longrightarrow> unfired r s \<Longrightarrow> unfired r s'"
  by (simp add: unfired_def do_op_local(1))

lemma unfired_add:
  assumes "do_op (OAdd r gs) s = (fs, s')" "unfired r s" "page_op (OAdd r gs)"
  shows "unfired r s' \<and> fs = []"
proof -
  obtain us where us: "k_list (h_lists s r) = Some (own_callbacks r @ map CUser us)" using assms(2) by (auto simp: unfired_def Let_def)
  obtain vs where vs: "gs = map CUser vs"
  proof (rule that)
    show "gs = map CUser (map (\<lambda>f. case f of CUser u \<Rightarrow> u | _ \<Rightarrow> 0) gs)"
      using assms(3) by (simp add: list_all_iff) (rule map_idI [symmetric], auto split: cb.splits)
  qed
  have "add_all False gs l = l @ gs" for l
    by (induction gs arbitrary: l) (simp_all add: add_all_def)
  then show ?thesis using assms(1,2) us vs
    by (auto simp: unfired_def Let_def add_list_def intro!: exI [of _ "us @ vs"])
qed

lemma unfired_fire:
  assumes "do_op (OFire r a) s = (fs, s')" "unfired r s"
  shows "fs = [Outer r] \<and> k_queue (h_lists s' r) = [a] \<and> k_firingIndex (h_lists s' r) = -1
    \<and> (\<exists>us. k_list (h_lists s' r) = Some (own_callbacks r @ map CUser us))"
  using assms by (auto simp: unfired_def fireWith_def start_fire_def Let_def)

text \<open>While the object is pending, only the progress lists are active.\<close>

lemma pending_op:
  assumes p: "do_op p s = (fs, s')" "page_op p" and ph: "pending_phase (K, s)"
  shows "pending_phase (fs @ K, s') \<or> (\<exists>a \<in> {1, 2}. settling a 0 (fs @ K, s'))"
proof -
  have l: "h_log s' = h_log s" "h_state s' = h_state s" "\<forall>f \<in> set fs. frame_list f = op_list p" using do_op_local [OF p(1)] by simp_all
  show ?thesis
  proof (cases p)
    case (OAdd r gs)
    have u: "unfired x s'" if "x \<in> {1, 2, 4, 5}" for x
    proof (cases "x = r")
      case True
      then show ?thesis using unfired_add [of r gs s fs s'] p OAdd ph that by (auto simp: pending_phase_def)
    next
      case False
      then show ?thesis using unfired_other [OF p(1), of x] OAdd ph that by (auto simp: pending_phase_def)
    qed
    have "fs = [] \<or> r \<in> {0, 3}"
    proof (cases "r \<in> {1, 2, 4, 5}")
      case True
      then show ?thesis using unfired_add [of r gs s fs s'] p OAdd ph by (auto simp: pending_phase_def)
    next
      case False
      then show ?thesis using p(2) OAdd by auto
    qed
    then show ?thesis using u l ph OAdd by (auto simp: pending_phase_def only_lists_def)
  next
    case (OFire r a)
    show ?thesis
    proof (cases "r = 0")
      case True
      then show ?thesis using unfired_other [OF p(1)] l ph OFire by (auto simp: pending_phase_def only_lists_def)
    next
      case False
      then have r: "r \<in> {1, 2}" using p(2) OFire by auto
      have ur: "unfired r s" "unfired (3 - r) s" "unfired (6 - r) s" using r ph by (auto simp: pending_phase_def)
      have "unfired (3 - r) s'" "unfired (6 - r) s'"
        using r ur OFire unfired_other [OF p(1), of "3 - r"] unfired_other [OF p(1), of "6 - r"] by auto
      moreover note unfired_fire [of r a s fs s'] p(1) OFire ur(1)
      ultimately have "settling r 0 (fs @ K, s')"
        using ph l by (auto simp: settling_def pending_phase_def only_lists_def)
      then show ?thesis using r by blast
    qed
  qed (use p in auto)
qed

lemma call_local:
  assumes "call q a f s = (fs, s')" "f \<in> allowed_cb q" "q \<in> {0, 3}"
  shows "h_state s' = h_state s \<and> (\<forall>r. r \<notin> {0, 3} \<longrightarrow> h_lists s' r = h_lists s r)
    \<and> (\<forall>f \<in> set fs. frame_list f \<in> {0, 3}) \<and> (\<forall>e \<in> set (h_log s'). e \<in> set (h_log s) \<or> fst e \<in> {0, 3})"
proof (cases f)
  case (CFire r)
  then have "r = 3" using assms(2,3) by (auto simp: allowed_cb_def own_callbacks_def)
  then show ?thesis using assms(1) CFire do_op_local [of "OFire 3 a" s fs s'] by auto
qed (use assms in \<open>auto simp: allowed_cb_def own_callbacks_def\<close>)

lemma typed_call:
  assumes "call q a f s = (fs, s')" "typed s"
  shows "typed s'"
proof (cases f)
  case (CDisable r)
  then show ?thesis using typed_page [of "ODisable r" s fs s'] assms by auto
next
  case (CLock r)
  then show ?thesis using typed_page [of "OLock r" s fs s'] assms by auto
next
  case (CFire r)
  then show ?thesis using typed_page [of "OFire r a" s fs s'] assms by auto
qed (use assms in \<open>auto simp: typed_def\<close>)

lemma entries_simps [simp]:
  "entries (k\<lparr>k_firingIndex := i\<rparr>) = entries k" "entries (k\<lparr>k_mem := m, k_queue := q\<rparr>) = entries k" "entries (stop_firing k) = entries k"
  by (simp_all add: entries_def stop_firing_def)

lemma typed_istep:
  assumes "istep f s = (fs, s')" "typed s"
  shows "typed s'"
proof (cases f)
  case (Outer r)
  have "set (entries (end_fire k)) \<subseteq> set (entries k)" "k_firingIndex (end_fire k) = k_firingIndex k" for k
    by (auto simp: end_fire_def entries_def Let_def)
  then show ?thesis using assms Outer typedD [OF assms(2), of r]
    by (auto simp: Let_def intro!: typed_upd split: list.splits)
next
  case (Inner r)
  have t: "typed (upd r (\<lambda>_. (h_lists s r)\<lparr>k_firingIndex := i\<rparr>) s)" if "-1 \<le> i" for i
    using assms(2) typedD(1) [OF assms(2), of r] that by (auto intro!: typed_upd)
  have "-1 \<le> k_firingIndex (h_lists s r) + 1" using typedD(2) [OF assms(2), of r] by simp
  then show ?thesis using assms(1) Inner t [of "-1"] t [of "k_firingIndex (h_lists s r) + 1"]
    by (auto simp: Let_def dest: typed_call split: if_splits prod.splits)
qed (use assms in auto)

lemma cstep_typed:
  assumes "cstep page_op c c'" "typed (snd c)"
  shows "typed (snd c')"
  using assms
proof (induction rule: cstep.induct)
  case (return_false r s u K)
  then have "typed s" by simp
  then show ?case using typedD(1) [of s r] by (auto simp: stop_firing_def entries_def intro!: typed_upd)
qed (auto intro: typed_page typed_istep simp del: istep.simps)

lemma unfired_same: "unfired r s \<Longrightarrow> h_lists s' r = h_lists s r \<Longrightarrow> unfired r s'"
  by (simp add: unfired_def)

lemma pending_keep:
  assumes "pending_phase (K, s)" "\<And>r. r \<notin> {0, 3} \<Longrightarrow> h_lists s' r = h_lists s r" "h_state s' = h_state s"
    "\<forall>f \<in> set K'. frame_list f \<in> {0, 3}" "\<forall>e \<in> set (h_log s'). e \<in> set (h_log s) \<or> fst e \<in> {0, 3}"
  shows "pending_phase (K', s')"
proof -
  have "unfired r s'" if r: "r \<in> {1, 2, 4, 5}" for r
  proof (rule unfired_same)
    show "unfired r s" using assms(1) r by (auto simp: pending_phase_def)
    show "h_lists s' r = h_lists s r" by (rule assms(2)) (use r in auto)
  qed
  from this [of 1] this [of 2] this [of 4] this [of 5]
  have "unfired 1 s'" "unfired 2 s'" "unfired 4 s'" "unfired 5 s'" by simp_all
  moreover have "only_lists {0, 3} (K', s')" using assms(1,4,5) by (auto simp: pending_phase_def only_lists_def)
  ultimately show ?thesis using assms(1,3) by (simp add: pending_phase_def)
qed

lemma pending_istep:
  assumes ph: "pending_phase (f # K, s)" and st: "istep f s = (fs, s')" and ty: "typed s"
  shows "pending_phase (fs @ K, s')"
proof -
  have f: "frame_list f \<in> {0, 3}" and K: "\<forall>f \<in> set K. frame_list f \<in> {0, 3}" using ph by (auto simp: pending_phase_def only_lists_def)
  show ?thesis
  proof (cases f)
    case (Outer r)
    then show ?thesis using st f K by (intro pending_keep [OF ph]) (auto simp: Let_def split: list.splits)
  next
    case (Inner r)
    let ?k = "h_lists s r" and ?i = "k_firingIndex (h_lists s r) + 1"
    show ?thesis
    proof (cases "?i < int (length (entries ?k))")
      case True
      let ?s1 = "upd r (\<lambda>_. ?k\<lparr>k_firingIndex := ?i\<rparr>) s"
      obtain fs1 where c: "call r (case k_mem ?k of None \<Rightarrow> no_args | Some a \<Rightarrow> a) (entries ?k ! nat ?i) ?s1 = (fs1, s')"
        and fs: "fs = fs1 @ [Inner r]"
        using st Inner True by (auto simp: Let_def split: prod.splits)
      have "nat ?i < length (entries ?k)" using True typedD(2) [OF ty, of r] by linarith
      then have "entries ?k ! nat ?i \<in> allowed_cb r" using typedD(1) [OF ty, of r] nth_mem by blast
      from call_local [OF c this] f Inner K show ?thesis
        by (intro pending_keep [OF ph]) (auto simp: fs)
    next
      case False
      then show ?thesis using st Inner f K by (intro pending_keep [OF ph]) (auto simp: Let_def)
    qed
  qed (use st ph K in \<open>auto simp: pending_phase_def only_lists_def\<close>)
qed

text \<open>The first steps after resolve or reject run without page code in between.\<close>

lemma settlingI:
  assumes "only_lists {0, 3} (K', s)" "k_list (h_lists s a) = Some (own_callbacks a @ map CUser us)"
    "k_firingIndex (h_lists s a) = (if i < 2 then -1 else int i - 2)"
    "if i = 0 then K = Outer a # K' \<and> length (k_queue (h_lists s a)) = 1 else K = Inner a # Outer a # K'"
    "i < 3 \<longrightarrow> unfired (3 - a) s" "i = 3 \<longrightarrow> dead (3 - a) s" "unfired (6 - a) s" "2 \<le> i \<longrightarrow> h_state s = state_name a"
  shows "settling a i (K, s)"
  unfolding settling_def prod.case using assms by blast

lemma settlingE:
  assumes "settling a i (K, s)"
  obtains K' us where "only_lists {0, 3} (K', s)" "k_list (h_lists s a) = Some (own_callbacks a @ map CUser us)"
    "k_firingIndex (h_lists s a) = (if i < 2 then -1 else int i - 2)"
    "if i = 0 then K = Outer a # K' \<and> length (k_queue (h_lists s a)) = 1 else K = Inner a # Outer a # K'"
    "i < 3 \<longrightarrow> unfired (3 - a) s" "i = 3 \<longrightarrow> dead (3 - a) s" "unfired (6 - a) s" "2 \<le> i \<longrightarrow> h_state s = state_name a"
  using assms unfolding settling_def prod.case by blast

lemma settling_frame:
  "settling a i (K, s) \<Longrightarrow> i < 4 \<Longrightarrow> \<exists>K'. K = (if i = 0 then [Outer a] else [Inner a, Outer a]) @ K'"
  by (auto simp: settling_def split: if_splits)

lemma settling_outer:
  assumes a: "a \<in> {1, 2}" and s: "settling a 0 (Outer a # K, s)" and st: "istep (Outer a) s = (fs, s')"
  shows "settling a 1 (fs @ K, s')"
proof -
  obtain us where us: "k_list (h_lists s a) = Some (own_callbacks a @ map CUser us)" "k_firingIndex (h_lists s a) = -1"
      "length (k_queue (h_lists s a)) = 1" "only_lists {0, 3} (K, s)" "unfired (3 - a) s" "unfired (6 - a) s"
    using s by (rule settlingE) simp
  then obtain x where "k_queue (h_lists s a) = [x]" by (cases "k_queue (h_lists s a)") auto
  with st have f: "fs = [Inner a, Outer a]" "s' = upd a (\<lambda>_. (h_lists s a)\<lparr>k_mem := Some x, k_queue := []\<rparr>) s" by (auto simp: Let_def)
  have "h_lists s' (3 - a) = h_lists s (3 - a)" "h_lists s' (6 - a) = h_lists s (6 - a)" using a f by auto
  with us have "unfired (3 - a) s'" "unfired (6 - a) s'" by (auto intro: unfired_same)
  then show ?thesis using us f by (intro settlingI [of K]) (simp_all add: only_lists_def)
qed

lemma settling_inner_call:
  assumes "settling a i (Inner a # K, s)" "1 \<le> i" "i < 4" "a \<in> {1, 2}" "istep (Inner a) s = (fs, s')"
  shows "\<exists>x fs1. call a x (own_callbacks a ! (i - 1)) (upd a (\<lambda>k. k\<lparr>k_firingIndex := int i - 1\<rparr>) s) = (fs1, s') \<and> fs = fs1 @ [Inner a]"
proof -
  let ?k = "h_lists s a"
  obtain us where us: "k_list ?k = Some (own_callbacks a @ map CUser us)" "k_firingIndex ?k + 1 = int i - 1"
    using assms(1,2) by (auto elim!: settlingE split: if_splits)
  have l: "length (own_callbacks a) = 6" using assms(4) by (auto simp: own_callbacks_def)
  then have "nat (int i - 1) < length (own_callbacks a)" using assms(3) by simp
  then have "entries ?k ! nat (int i - 1) = own_callbacks a ! (i - 1)" "int i - 1 < int (length (entries ?k))"
    using assms(2) us(1) l by (auto simp: entries_def nth_append nat_diff_distrib)
  then show ?thesis using assms(5) us(2) by (auto simp: Let_def upd_def split: prod.splits)
qed

lemma dead_disable: "\<not> k_firing (h_lists s r) \<Longrightarrow> dead r (upd r disable s)"
  by (simp add: dead_def disable_def Let_def)

lemma dead_same: "dead r s \<Longrightarrow> h_lists s' r = h_lists s r \<Longrightarrow> dead r s'"
  by (simp add: dead_def)

lemma settling_inner:
  assumes a: "a \<in> {1, 2}" and i: "1 \<le> i" "i < 4" and s: "settling a i (Inner a # K, s)" and st: "istep (Inner a) s = (fs, s')"
  shows "(i < 3 \<and> settling a (i + 1) (fs @ K, s')) \<or> (i = 3 \<and> settled_phase a (fs @ K, s'))"
proof -
  let ?u = "upd a (\<lambda>k. k\<lparr>k_firingIndex := int i - 1\<rparr>) s"
  obtain x fs1 where c: "call a x (own_callbacks a ! (i - 1)) ?u = (fs1, s')" and fs: "fs = fs1 @ [Inner a]"
    using settling_inner_call [OF s i a st] by blast
  obtain K' us where us: "k_list (h_lists s a) = Some (own_callbacks a @ map CUser us)" "K = Outer a # K'" "only_lists {0, 3} (K', s)"
      "i < 3 \<longrightarrow> unfired (3 - a) s" "i = 3 \<longrightarrow> dead (3 - a) s" "unfired (6 - a) s" "2 \<le> i \<longrightarrow> h_state s = state_name a"
    using s i(1) by (rule_tac settlingE [OF s]) (simp split: if_splits)
  have ne: "a \<noteq> 3 - a" "a \<noteq> 6 - a" "3 - a \<noteq> 6 - a" using a by auto
  consider "i = 1" | "i = 2" | "i = 3" using i by linarith
  then show ?thesis
  proof cases
    case 1
    then have "fs1 = []" "s' = ?u\<lparr>h_state := state_name a\<rparr>" using c a by (auto simp: own_callbacks_def state_name_def)
    moreover have "unfired (3 - a) s'" "unfired (6 - a) s'" using us(4,6) 1 ne calculation by (auto intro!: unfired_same [where s = s])
    ultimately have "settling a 2 (fs @ K, s')" using us 1 fs by (intro settlingI [of K']) (simp_all add: only_lists_def)
    then show ?thesis using 1 by (simp add: numeral_2_eq_2)
  next
    case 2
    then have s': "fs1 = []" "s' = upd (3 - a) disable ?u" using c a by (auto simp: own_callbacks_def)
    have "\<not> k_firing (h_lists ?u (3 - a))" using us(4) 2 a by (auto simp: unfired_def Let_def)
    then have "dead (3 - a) s'" unfolding s' by (rule dead_disable)
    moreover have "unfired (6 - a) s'" using us(6) by (rule unfired_same) (use ne s' in simp)
    ultimately have "settling a 3 (fs @ K, s')" using us 2 ne fs s' by (intro settlingI [of K']) (simp_all add: only_lists_def)
    then show ?thesis using 2 by simp
  next
    case 3
    then have s': "fs1 = []" "s' = upd (6 - a) disable ?u" using c a by (auto simp: own_callbacks_def)
    have "\<not> k_firing (h_lists ?u (6 - a))" using us(6) a by (auto simp: unfired_def Let_def)
    then have "dead (6 - a) s'" unfolding s' by (rule dead_disable)
    moreover have "dead (3 - a) s'" by (rule dead_same [of _ s]) (use us(5) 3 ne s' in simp_all)
    moreover have "only_lists (- {3 - a, 6 - a}) (fs @ K, s')" using us(2,3) fs s' a by (auto simp: only_lists_def)
    ultimately show ?thesis using us(7) 3 s' by (simp add: settled_phase_def)
  qed
qed

text \<open>A settled object stays settled.\<close>

lemma settled_op:
  assumes "settled_phase a (K, s)" "do_op p s = (fs, s')"
  shows "settled_phase a (fs @ K, s')"
proof -
  have d: "dead (3 - a) s" "dead (6 - a) s" using assms(1) by (simp_all add: settled_phase_def)
  have "\<forall>f \<in> set fs. frame_list f \<in> - {3 - a, 6 - a}"
    using dead_op(2) [OF assms(2) d(1)] dead_op(2) [OF assms(2) d(2)] do_op_local(4) [OF assms(2)] by auto
  then show ?thesis using assms(1) dead_op(1) [OF assms(2)] d do_op_local(2,3) [OF assms(2)]
    by (auto simp: settled_phase_def only_lists_def)
qed

lemma settled_call:
  assumes a: "a \<in> {1, 2}" and s: "settled_phase a (K, s)" and c: "call q x f s = (fs, s')" and q: "q \<notin> {3 - a, 6 - a}" "f \<in> allowed_cb q"
  shows "settled_phase a (fs @ K, s')"
proof (cases f)
  case (CUser u)
  then show ?thesis using s c q(1) by (auto simp: settled_phase_def only_lists_def dead_def)
next
  case (CState st)
  then have "st = state_name a" using a q by (auto simp: allowed_cb_def own_callbacks_def state_name_def split: if_splits)
  then show ?thesis using s c CState by (auto simp: settled_phase_def only_lists_def dead_def)
next
  case (CDisable r)
  then show ?thesis using settled_op [OF s, of "ODisable r"] c by simp
next
  case (CLock r)
  then show ?thesis using settled_op [OF s, of "OLock r"] c by simp
next
  case (CFire r)
  then show ?thesis using settled_op [OF s, of "OFire r x"] c by simp
qed

lemma settled_upd:
  assumes "settled_phase a (f # K, s)" "r \<notin> {3 - a, 6 - a}" "\<forall>g \<in> set fs. frame_list g = r"
  shows "settled_phase a (fs @ K, upd r h s)"
proof -
  have "dead (3 - a) (upd r h s)" "dead (6 - a) (upd r h s)"
    using assms(1,2) by (auto simp: settled_phase_def intro!: dead_same [where s = s])
  then show ?thesis using assms by (auto simp: settled_phase_def only_lists_def)
qed

lemma settled_istep:
  assumes a: "a \<in> {1, 2}" and s: "settled_phase a (f # K, s)" and st: "istep f s = (fs, s')" and ty: "typed s"
  shows "settled_phase a (fs @ K, s')"
proof -
  have f: "frame_list f \<notin> {3 - a, 6 - a}" using s by (simp add: settled_phase_def only_lists_def)
  show ?thesis
  proof (cases f)
    case (Outer r)
    with f have r: "r \<notin> {3 - a, 6 - a}" by simp
    show ?thesis
    proof (cases "k_queue (h_lists s r)")
      case Nil
      then show ?thesis using st Outer settled_upd [OF s r, of "[]" end_fire] by simp
    next
      case (Cons x q)
      then show ?thesis using st Outer settled_upd [OF s r, of "[Inner r, Outer r]" "\<lambda>_. (h_lists s r)\<lparr>k_mem := Some x, k_queue := q\<rparr>"]
        by (auto simp: Let_def)
    qed
  next
    case (Inner r)
    let ?k = "h_lists s r" and ?i = "k_firingIndex (h_lists s r) + 1"
    let ?s1 = "upd r (\<lambda>_. ?k\<lparr>k_firingIndex := ?i\<rparr>) s"
    show ?thesis
    proof (cases "?i < int (length (entries ?k))")
      case True
      obtain x fs1 where c: "call r x (entries ?k ! nat ?i) ?s1 = (fs1, s')" and fs: "fs = fs1 @ [Inner r]"
        using st Inner True by (auto simp: Let_def split: prod.splits)
      have "nat ?i < length (entries ?k)" using True typedD(2) [OF ty, of r] by linarith
      then have "entries ?k ! nat ?i \<in> allowed_cb r" using typedD(1) [OF ty, of r] nth_mem by blast
      moreover have "settled_phase a (Inner r # K, ?s1)"
        using settled_upd [OF s, of r "[Inner r]" "\<lambda>_. ?k\<lparr>k_firingIndex := ?i\<rparr>"] f Inner by simp
      ultimately show ?thesis using settled_call [OF a _ c] f Inner fs by simp
    next
      case False
      then show ?thesis using st Inner settled_upd [OF s, of r "[]"] f by (auto simp: Let_def)
    qed
  qed (use st s in \<open>auto simp: settled_phase_def only_lists_def\<close>)
qed

lemma phase_drop:
  assumes "set K' \<subseteq> set K"
  shows "pending_phase (K, s) \<Longrightarrow> pending_phase (K', s)" "settled_phase a (K, s) \<Longrightarrow> settled_phase a (K', s)"
  using assms by (auto simp: pending_phase_def settled_phase_def only_lists_def)

lemma deferred_step:
  assumes c: "cstep page_op c c'" and i: "deferred_inv c"
  shows "deferred_inv c'"
proof -
  have ty: "typed (snd c)" using i by (simp add: deferred_inv_def)
  have ty': "typed (snd c')" by (rule cstep_typed [OF c ty])
  consider (p) "pending_phase c" | (m) a i where "a \<in> {1, 2}" "i < 4" "settling a i c" | (d) a where "a \<in> {1, 2}" "settled_phase a c"
    using i by (auto simp: deferred_inv_def)
  then have "pending_phase c' \<or> (\<exists>a \<in> {1, 2}. (\<exists>i < 4. settling a i c') \<or> settled_phase a c')"
  proof cases
    case p
    from c p ty show ?thesis
    proof (induction rule: cstep.induct)
      case (idle q s fs s')
      then show ?case using pending_op [of q s fs s' "[]"] by auto
    next
      case (page q s fs s' r u K)
      then show ?case using pending_op [of q s fs s' "User r u # K"] by auto
    next
      case (return r u K s)
      then show ?case using phase_drop(1) [of K "User r u # K" s] by auto
    next
      case (return_false r s u K)
      have "pending_phase (K, upd r stop_firing s)"
        by (rule pending_keep [OF return_false.prems(1)]) (use return_false.prems(1) in \<open>auto simp: pending_phase_def only_lists_def\<close>)
      then show ?case by blast
    next
      case (throw K2 r u K1 s)
      then show ?case using phase_drop(1) [of K2 "User r u # K1 @ K2" s] by auto
    next
      case (outer r s fs s' K)
      then show ?case using pending_istep [of "Outer r" K s fs s'] by auto
    next
      case (inner r s fs s' K)
      then show ?case using pending_istep [of "Inner r" K s fs s'] by auto
    qed
  next
    case (m a j)
    obtain K s where cc: "c = (K, s)" by force
    obtain K' where K: "K = (if j = 0 then [Outer a] else [Inner a, Outer a]) @ K'"
      using settling_frame [of a j K s] m cc by blast
    show ?thesis
    proof (cases "j = 0")
      case True
      then obtain fs s' where st: "istep (Outer a) s = (fs, s')" "c' = (fs @ K', s')" using c cc K by (auto elim: cstepE)
      then have "settling a 1 c'" using settling_outer [OF m(1) _ st(1), of K'] m(3) cc K True by simp
      moreover have "(1 :: nat) < 4" by simp
      ultimately show ?thesis using m(1) by blast
    next
      case False
      then obtain fs s' where st: "istep (Inner a) s = (fs, s')" "c' = (fs @ Outer a # K', s')" using c cc K by (auto elim: cstepE)
      have "(j < 3 \<and> settling a (j + 1) c') \<or> (j = 3 \<and> settled_phase a c')"
        using settling_inner [OF m(1) _ m(2) _ st(1), of "Outer a # K'"] m(3) cc K False st(2) by simp
      then show ?thesis
      proof
        assume "j < 3 \<and> settling a (j + 1) c'"
        then have "j + 1 < 4 \<and> settling a (j + 1) c'" by simp
        then show ?thesis using m(1) by blast
      qed (use m(1) in blast)
    qed
  next
    case (d a)
    have "settled_phase a c'" using c d(2) ty
    proof (induction rule: cstep.induct)
      case (idle q s fs s')
      then show ?case using settled_op [of a "[]" s q fs s'] by simp
    next
      case (page q s fs s' r u K)
      then show ?case using settled_op [of a "User r u # K" s q fs s'] by simp
    next
      case (return r u K s)
      then show ?case using phase_drop(2) [of K "User r u # K"] by auto
    next
      case (return_false r s u K)
      have "r \<notin> {3 - a, 6 - a}" using return_false.prems(1) by (simp add: settled_phase_def only_lists_def)
      from settled_upd [OF return_false.prems(1) this, of "[Inner r]" stop_firing]
      show ?case using phase_drop(2) [of K "Inner r # Inner r # K" a "upd r stop_firing s"] by auto
    next
      case (throw K2 r u K1 s)
      then show ?case using phase_drop(2) [of K2 "User r u # K1 @ K2"] by auto
    next
      case (outer r s fs s' K)
      then show ?case using settled_istep [OF d(1), of "Outer r" K s fs s'] by simp
    next
      case (inner r s fs s' K)
      then show ?case using settled_istep [OF d(1), of "Inner r" K s fs s'] by simp
    qed
    then show ?thesis using d(1) by blast
  qed
  with ty' show ?thesis by (simp add: deferred_inv_def)
qed

interpretation deferred: inductive_invariant "\<lambda>c. c = ([], Deferred)" "cstep page_op" deferred_inv
proof
  have op: "createOptions ''memory'' = [''memory'']" "createOptions ''once memory'' = [''once'', ''memory'']" by code_simp+
  have l: "h_lists Deferred r = (deferred_lists r)\<lparr>k_list := Some (own_callbacks r)\<rparr>" for r
    by (simp add: Deferred_def deferred_lists_def add_list_def add_all_def own_callbacks_def Callbacks_def op Let_def)
  show "deferred_inv s" if "s = ([], Deferred)" for s
  proof -
    have "h_log Deferred = []" "h_state Deferred = ''pending''" by (simp_all add: Deferred_def Let_def case_prod_unfold)
    then show ?thesis using l that
      by (simp add: deferred_inv_def typed_def pending_phase_def only_lists_def unfired_def allowed_cb_def entries_def
          deferred_lists_def Callbacks_def op Let_def)
  qed
qed (rule deferred_step)

text \<open>C20: A deferred object settles at most once: whatever the page does, if a callback for success or a
  handler for it was ever called, none for failure is, and the other way round; and the state is
  resolved or rejected accordingly.\<close>

theorem deferred_settles_once:
  assumes "reach (\<lambda>c. c = ([], Deferred)) (cstep page_op) (K, s)"
  shows "((\<exists>x u. (1, x, u) \<in> set (h_log s) \<or> (4, x, u) \<in> set (h_log s)) \<longrightarrow>
      h_state s = ''resolved'' \<and> (\<forall>x u. (2, x, u) \<notin> set (h_log s) \<and> (5, x, u) \<notin> set (h_log s)))
    \<and> ((\<exists>x u. (2, x, u) \<in> set (h_log s) \<or> (5, x, u) \<in> set (h_log s)) \<longrightarrow> h_state s = ''rejected'')"
proof -
  have log: "(r, x, u) \<notin> set (h_log s)" if "only_lists R (K', s)" "r \<notin> R" for r x u R K'
    using that by (auto simp: only_lists_def)
  from deferred.inv_reach [OF assms] consider (p) "pending_phase (K, s)"
    | (m) a i where "a \<in> {1, 2}" "settling a i (K, s)" | (d) a where "a \<in> {1, 2}" "settled_phase a (K, s)"
    by (auto simp: deferred_inv_def)
  then show ?thesis
  proof cases
    case p
    then have "only_lists {0, 3} (K, s)" by (simp add: pending_phase_def)
    from log [OF this] show ?thesis by simp
  next
    case m
    then obtain K' where "only_lists {0, 3} (K', s)" by (auto elim: settlingE)
    from log [OF this] show ?thesis by simp
  next
    case d
    then have o: "only_lists (- {3 - a, 6 - a}) (K, s)" and "h_state s = state_name a" by (simp_all add: settled_phase_def)
    with d(1) log [OF o] show ?thesis by (auto simp: state_name_def)
  qed
qed

definition run_op :: "cop \<Rightarrow> config \<Rightarrow> config" where
  \<comment> \<open>an operation of the page while no code runs, and all that follows from it\<close>
  "run_op p c = run 30 (do_op p (snd c))"

lemma run_op_reach:
  assumes "reach ini (cstep page_op) ([], s)" "page_op p" "fst (run_op p ([], s)) = []"
  shows "reach ini (cstep page_op) ([], snd (run_op p ([], s)))"
proof -
  obtain fs s' where p: "do_op p s = (fs, s')" by force
  have "cstep page_op ([], s) (fs, s')" using assms(2) p by (rule cstep.idle)
  with assms(1) have "reach ini (cstep page_op) (fs, s')" by (rule reach_step)
  then have "reach ini (cstep page_op) (run 30 (fs, s'))" by (rule run_reach)
  then show ?thesis using assms(3) p by (simp add: run_op_def) (metis prod.collapse)
qed

definition settled_sample :: hp where
  "settled_sample = snd (run_op (resolveWith (Args JNull [JStr ''ok''])) ([], snd (run_op (done_with [9]) ([], Deferred))))"

lemma settled_sample_facts:
  "fst (run_op (done_with [9]) ([], Deferred)) = []
   \<and> fst (run_op (resolveWith (Args JNull [JStr ''ok''])) ([], snd (run_op (done_with [9]) ([], Deferred)))) = []
   \<and> h_log settled_sample = [(1, Args JNull [JStr ''ok''], 9)]"
  by code_simp

theorem deferred_settles_once_witness:
  "h_log settled_sample = [(1, Args JNull [JStr ''ok''], 9)] \<and> h_state settled_sample = ''resolved''"
proof -
  let ?I = "\<lambda>c. c = ([] :: frame list, Deferred)"
  have r0: "reach ?I (cstep page_op) ([], Deferred)" by (rule reach_init) simp
  have "page_op (done_with [9])" "page_op (resolveWith x)" for x by (simp_all add: done_with_def resolveWith_def)
  then have "reach ?I (cstep page_op) ([], snd (run_op (done_with [9]) ([], Deferred)))"
    using run_op_reach [OF r0] settled_sample_facts by blast
  then have "reach ?I (cstep page_op) ([], settled_sample)" unfolding settled_sample_def
    using run_op_reach settled_sample_facts \<open>\<And>x. page_op (resolveWith x)\<close> by blast
  from deferred_settles_once [OF this] settled_sample_facts show ?thesis by auto
qed

end
