(* ===== verification/JqAjax.thy ===== *)
theory JqAjax
  imports JqCore
begin

text \<open>
  The core of the requests of jQuery: the registries of prefilters and transports, the choice among
  the responses of a transport, the chain of conversions to the expected data type, and the completion
  of a request.  Prefilters, converters and regular expressions of the page are arguments.  Objects
  used as maps have no entries inherited from their prototype in the model.
\<close>

section \<open>Prefilters and transports\<close>

type_synonym registry = "nat list obj"

definition registered :: "registry \<Rightarrow> string \<Rightarrow> nat list" where
  "registered st k = (case map_of st k of None \<Rightarrow> [] | Some fs \<Rightarrow> fs)"

definition register_one :: "nat \<Rightarrow> string \<Rightarrow> registry \<Rightarrow> registry" where
  "register_one f dataType st =
     (if take 1 dataType = ''+'' then
        (let d = (if drop 1 dataType = [] then ''*'' else drop 1 dataType) in obj_set d (f # registered st d) st)
      else obj_set dataType (registered st dataType @ [f]) st)"

definition addToPrefiltersOrTransports :: "string option \<Rightarrow> jsval \<Rightarrow> registry \<Rightarrow> registry" where
  "addToPrefiltersOrTransports expr func st =
     (case func of
        JFun f \<Rightarrow> fold (register_one f) (html_words (toLowerCase (case expr of None \<Rightarrow> ''*'' | Some e \<Rightarrow> e))) st
      | _ \<Rightarrow> st)"

text \<open>A prefilter may change the options; their data types are the first part of its state.\<close>

type_synonym 's factory = "nat \<Rightarrow> string list \<times> 's \<Rightarrow> (string list \<times> 's) \<times> jsval"

function inspect :: "registry \<Rightarrow> 's factory \<Rightarrow> bool \<Rightarrow> nat list \<Rightarrow> string list \<Rightarrow> string list \<times> 's \<Rightarrow> string list \<times> (string list \<times> 's) \<times> jsval" where
  \<comment> \<open>the loop over the functions of one data type; the result has the types seen, the state and the transport selected\<close>
  "inspect st call seeking [] seen o1 = (seen, o1, JUndef)"
| "inspect st call seeking (f # fs) seen o1 =
     (case call f o1 of (o2, v) \<Rightarrow>
        (case v of
           JStr d \<Rightarrow>
             (if \<not> seeking \<and> d \<notin> set seen then
                (case inspect st call seeking (registered st d) (d # seen) (d # fst o2, snd o2) of (seen', o3, _) \<Rightarrow> (seen', o3, JUndef))
              else if seeking \<and> d \<noteq> [] then (seen, o2, v)
              else inspect st call seeking fs seen o2)
         | _ \<Rightarrow>
             if seeking \<and> truthy v then (seen, o2, v) else inspect st call seeking fs seen o2))"
  by pat_completeness auto

termination
proof (relation "(\<lambda>(st, call, seeking, fs, seen, o1). card (fst ` set st - set seen)) <*mlex*> measure (\<lambda>(st, call, seeking, fs, seen, o1). length fs)")
  show "wf ((\<lambda>(st, call, seeking, fs, seen, o1). card (fst ` set st - set seen)) <*mlex*> measure (\<lambda>(st, call, seeking, fs, seen, o1). length fs))"
    by (simp add: wf_mlex)
next
  fix st :: registry and call seeking f fs seen o1 o2 v x5 and d :: string and o3
  assume "\<not> seeking \<and> d \<notin> set seen"
  then have d: "d \<notin> set seen" by simp
  show "((st, call, seeking, registered st d, d # seen, o3), (st, call, seeking, f # fs, seen, o1))
    \<in> (\<lambda>(st, call, seeking, fs, seen, o1). card (fst ` set st - set seen)) <*mlex*> measure (\<lambda>(st, call, seeking, fs, seen, o1). length fs)"
  proof (cases "d \<in> fst ` set st")
    case True
    then have "card (fst ` set st - set (d # seen)) < card (fst ` set st - set seen)"
      using d by (intro psubset_card_mono) auto
    then show ?thesis by (simp add: mlex_less)
  next
    case False
    then have "registered st d = []" by (simp add: registered_def map_of_eq_None_iff [THEN iffD2])
    moreover have "fst ` set st - set (d # seen) = fst ` set st - set seen" using False by auto
    ultimately show ?thesis by (simp add: mlex_prod_def)
  qed
qed (auto simp: mlex_prod_def)

definition first_type :: "string list \<Rightarrow> string" where
  "first_type ts = (case ts of [] \<Rightarrow> ''undefined'' | t # _ \<Rightarrow> t)"

definition inspectPrefiltersOrTransports :: "registry \<Rightarrow> 's factory \<Rightarrow> bool \<Rightarrow> string list \<times> 's \<Rightarrow> (string list \<times> 's) \<times> jsval" where
  "inspectPrefiltersOrTransports st call seeking o1 =
     (let t = first_type (fst o1) in
      case inspect st call seeking (registered st t) [t] o1 of
        (seen, o2, v) \<Rightarrow>
          (if truthy v \<or> ''*'' \<in> set seen then (o2, v)
           else (case inspect st call seeking (registered st ''*'') (''*'' # seen) o2 of (_, o3, w) \<Rightarrow> (o3, w))))"

section \<open>Choice of the response\<close>

datatype conv = Equiv | Convert nat | Absent \<comment> \<open>true, a function, a falsy entry\<close>

record asettings =
  a_contents :: "(string \<times> (string \<Rightarrow> bool) option) list" \<comment> \<open>types with the tests of their content types\<close>
  a_mimeType :: string
  a_converters :: "conv obj"
  a_responseFields :: "string obj"
  a_dataFilter :: "nat option"
  a_dataType :: jsval
  a_throws :: bool

definition conv_at :: "conv obj \<Rightarrow> string \<Rightarrow> conv" where
  "conv_at cs k = (case map_of cs k of None \<Rightarrow> Absent | Some c \<Rightarrow> c)"

definition two :: "string \<Rightarrow> string \<Rightarrow> string" where
  "two a b = a @ '' '' @ b"

definition content_type :: "asettings \<Rightarrow> string option \<Rightarrow> string list \<Rightarrow> string" where
  \<comment> \<open>ct; the empty text stands for every falsy value\<close>
  "content_type s header ts =
     (if take 1 ts = [''*''] then (if a_mimeType s \<noteq> [] then a_mimeType s else case header of None \<Rightarrow> [] | Some h \<Rightarrow> h) else [])"

definition known_type :: "asettings \<Rightarrow> string \<Rightarrow> string list" where
  \<comment> \<open>the first type whose test accepts the content type, as a list\<close>
  "known_type s ct =
     (if ct = [] then [] else map fst (take 1 (filter (\<lambda>p. case snd p of None \<Rightarrow> False | Some test \<Rightarrow> test ct) (a_contents s))))"

definition first_or :: "'a \<Rightarrow> 'a list \<Rightarrow> 'a" where
  "first_or d xs = (case xs of [] \<Rightarrow> d | x # _ \<Rightarrow> x)"

definition pick_type :: "asettings \<Rightarrow> string list \<Rightarrow> jsval obj \<Rightarrow> string" where
  \<comment> \<open>finalDataType; the empty text stands for undefined\<close>
  "pick_type s ts responses =
     (if ts \<noteq> [] \<and> obj_has (hd ts) responses then hd ts
      else (let fits = (\<lambda>t. take 1 ts \<in> {[], [[]]} \<or> conv_at (a_converters s) (two t (hd ts)) \<noteq> Absent);
                final = first_or [] (filter fits (obj_keys responses))
            in if final \<noteq> [] then final
               else if filter fits (obj_keys responses) = [] then first_or [] (filter (\<lambda>t. t \<noteq> []) (obj_keys responses))
               else first_or [] (filter (\<lambda>t. t \<noteq> []) (takeWhile (\<lambda>t. \<not> fits t) (obj_keys responses)))))"

definition ajaxHandleResponses :: "asettings \<Rightarrow> string option \<Rightarrow> string list \<Rightarrow> jsval obj \<Rightarrow> string list \<times> jsval" where
  \<comment> \<open>the data types afterwards, and the response\<close>
  "ajaxHandleResponses s header dataTypes responses =
     (let ct = content_type s header dataTypes;
          ts = known_type s ct @ dropWhile (\<lambda>t. t = ''*'') dataTypes;
          final = pick_type s ts responses
      in if final = [] then (ts, JUndef)
         else (if take 1 ts = [final] then ts else final # ts, js_prop responses final))"

section \<open>Conversions\<close>

record around =
  r_prev :: string \<comment> \<open>empty before the first round\<close>
  r_current :: string
  r_queue :: "string list"
  r_response :: jsval
  r_xhr :: "jsval obj" \<comment> \<open>the fields set on jqXHR\<close>

datatype aresult = Success jsval | ParserError jserr | NoConversion string string | Threw jserr

definition lower_converters :: "asettings \<Rightarrow> string list \<Rightarrow> conv obj" where
  \<comment> \<open>the copy with lowercase keys, made when there is a second data type\<close>
  "lower_converters s ts =
     (if 1 < length ts \<and> ts ! 1 \<noteq> [] then fold (\<lambda>p. obj_set (toLowerCase (fst p)) (snd p)) (a_converters s) [] else [])"

definition converter :: "conv obj \<Rightarrow> string \<Rightarrow> string \<Rightarrow> conv" where
  \<comment> \<open>the direct converter\<close>
  "converter cs a b = (if conv_at cs (two a b) \<noteq> Absent then conv_at cs (two a b) else conv_at cs (two ''*'' b))"

fun seek_pair :: "conv obj \<Rightarrow> conv obj \<Rightarrow> string \<Rightarrow> string \<Rightarrow> conv \<times> string \<times> string list" where
  \<comment> \<open>the converter to use, the type to convert to, and what to put in front of the queue\<close>
  "seek_pair cs [] prev current = (Absent, current, [])"
| "seek_pair cs (p # ps) prev current =
     (let tmp = split_on (\<lambda>c. c = CHR '' '') (fst p) in
      if 1 < length tmp \<and> tmp ! 1 = current then
        (let c = converter cs prev (tmp ! 0) in
         if c = Absent then seek_pair cs ps prev current
         else if c = Equiv then (snd p, current, [])
         else if snd p \<noteq> Equiv then (c, tmp ! 0, [tmp ! 1])
         else (c, current, []))
      else seek_pair cs ps prev current)"

definition choose_converter :: "conv obj \<Rightarrow> string \<Rightarrow> string \<Rightarrow> conv \<times> string \<times> string list" where
  "choose_converter cs prev current =
     (if converter cs prev current \<noteq> Absent then (converter cs prev current, current, []) else seek_pair cs cs prev current)"

definition pop :: "string list \<Rightarrow> string \<times> string list" where
  \<comment> \<open>shift; the empty text for undefined\<close>
  "pop ts = (case ts of [] \<Rightarrow> ([], []) | t # ts' \<Rightarrow> (t, ts'))"

definition apply_filter :: "(nat \<Rightarrow> jsval \<Rightarrow> jsval \<Rightarrow> jserr + jsval) \<Rightarrow> asettings \<Rightarrow> bool \<Rightarrow> around \<Rightarrow> jserr + jsval" where
  "apply_filter call s isSuccess x =
     (case a_dataFilter s of
        Some f \<Rightarrow> if r_prev x = [] \<and> isSuccess then call f (r_response x) (a_dataType s) else Inr (r_response x)
      | None \<Rightarrow> Inr (r_response x))"

definition convert_round ::
  "(nat \<Rightarrow> jsval \<Rightarrow> jsval \<Rightarrow> jserr + jsval) \<Rightarrow> asettings \<Rightarrow> conv obj \<Rightarrow> bool \<Rightarrow> around \<Rightarrow> (aresult \<times> jsval obj) + around" where
  \<comment> \<open>a round of the loop, or its result\<close>
  "convert_round call s cs isSuccess x =
     (if r_current x = [] then Inl (Success (r_response x), r_xhr x)
      else (let xhr = (case map_of (a_responseFields s) (r_current x) of
                         None \<Rightarrow> r_xhr x
                       | Some field \<Rightarrow> if field = [] then r_xhr x else obj_set field (r_response x) (r_xhr x))
            in case apply_filter call s isSuccess x of
                 Inl e \<Rightarrow> Inl (Threw e, xhr)
               | Inr response \<Rightarrow>
                   (let prev = r_current x; next = pop (r_queue x); current = fst next;
                        go = \<lparr>r_prev = prev, r_current = current, r_queue = snd next, r_response = response, r_xhr = xhr\<rparr>
                    in if current = [] then Inr go
                       else if current = ''*'' then Inr (go\<lparr>r_current := prev\<rparr>)
                       else if prev = ''*'' \<or> prev = current then Inr go
                       else (case choose_converter cs prev current of
                               (Equiv, target, extra) \<Rightarrow> Inr (go\<lparr>r_current := target, r_queue := extra @ snd next\<rparr>)
                             | (Convert f, target, extra) \<Rightarrow>
                                 (case call f response JUndef of
                                    Inl e \<Rightarrow> Inl (if a_throws s then Threw e else ParserError e, xhr)
                                  | Inr response' \<Rightarrow> Inr (go\<lparr>r_current := target, r_queue := extra @ snd next, r_response := response'\<rparr>))
                             | (Absent, target, extra) \<Rightarrow> Inl (NoConversion prev target, xhr)))))"

partial_function (option) rounds :: "('x \<Rightarrow> 'r + 'x) \<Rightarrow> 'x \<Rightarrow> 'r option" where
  "rounds f x = (case f x of Inl r \<Rightarrow> Some r | Inr y \<Rightarrow> rounds f y)"

declare rounds.simps [code]

definition ajaxConvert ::
  "(nat \<Rightarrow> jsval \<Rightarrow> jsval \<Rightarrow> jserr + jsval) \<Rightarrow> asettings \<Rightarrow> string list \<Rightarrow> jsval \<Rightarrow> bool \<Rightarrow> jsval obj \<Rightarrow> (aresult \<times> jsval obj) option" where
  \<comment> \<open>None: the loop does not end\<close>
  "ajaxConvert call s dataTypes response isSuccess xhr =
     rounds (convert_round call s (lower_converters s dataTypes) isSuccess)
       \<lparr>r_prev = [], r_current = fst (pop dataTypes), r_queue = snd (pop dataTypes), r_response = response, r_xhr = xhr\<rparr>"

section \<open>Registration and choice\<close>

lemma registered_set: "registered (obj_set k fs st) k' = (if k' = k then fs else registered st k')"
  by (simp add: registered_def)

lemma register_plain: "take 1 t \<noteq> ''+'' \<Longrightarrow> registered (register_one f t st) k = (if k = t then registered st t @ [f] else registered st k)"
  by (simp add: register_one_def registered_set)

lemma register_plus: "t \<noteq> [] \<Longrightarrow> registered (register_one f (CHR ''+'' # t) st) k = (if k = t then f # registered st t else registered st k)"
  by (simp add: register_one_def registered_set Let_def)

lemma first_or_in: "xs \<noteq> [] \<Longrightarrow> first_or d xs \<in> set xs"
  by (cases xs) (auto simp: first_or_def)

lemma first_or_filter: "first_or d (filter P xs) = d \<or> first_or d (filter P xs) \<in> set xs"
  by (induction xs) (auto simp: first_or_def)

lemma pick_type_key:
  assumes "responses \<noteq> []" "[] \<notin> set (obj_keys responses)" "\<not> obj_has [] responses"
  shows "obj_has (pick_type s ts responses) responses"
proof (cases "ts \<noteq> [] \<and> obj_has (hd ts) responses")
  case True
  then show ?thesis by (simp add: pick_type_def)
next
  case False
  define fits where "fits = (\<lambda>t. take 1 ts \<in> {[], [[]]} \<or> conv_at (a_converters s) (two t (hd ts)) \<noteq> Absent)"
  have keys: "obj_keys responses \<noteq> []" using assms(1) by (simp add: obj_keys_def)
  have "filter (\<lambda>t. t \<noteq> []) (obj_keys responses) = obj_keys responses"
    using assms(2) by (metis (mono_tags, lifting) filter_True)
  note keys = keys this
  let ?K = "obj_keys responses"
  have p: "pick_type s ts responses = (let final = first_or [] (filter fits ?K) in if final \<noteq> [] then final
      else if filter fits ?K = [] then first_or [] (filter (\<lambda>t. t \<noteq> []) ?K)
      else first_or [] (filter (\<lambda>t. t \<noteq> []) (takeWhile (\<lambda>t. \<not> fits t) ?K)))"
    unfolding pick_type_def Let_def fits_def if_not_P [OF False] ..
  show ?thesis
  proof (cases "filter fits ?K = []")
    case True
    then have "pick_type s ts responses = first_or [] ?K" using p keys by (simp add: first_or_def)
    then show ?thesis using first_or_in [OF keys(1)] by (simp add: obj_has_iff)
  next
    case ne: False
    then have f: "first_or [] (filter fits ?K) \<in> set ?K" using first_or_in [of "filter fits ?K"] by auto
    then have "first_or [] (filter fits ?K) \<noteq> []" using assms(2) by metis
    then have "pick_type s ts responses = first_or [] (filter fits ?K)" using p by simp
    then show ?thesis using f by (simp add: obj_has_iff)
  qed
qed

text \<open>When the transport gives responses, one of them is returned, and its type is the first data type.\<close>

lemma ajaxHandleResponses_answers:
  assumes "responses \<noteq> []" "[] \<notin> set (obj_keys responses)"
    and r: "ajaxHandleResponses s header ts responses = (ts', v)"
  shows "ts' \<noteq> [] \<and> map_of responses (hd ts') = Some v"
proof -
  have n: "\<not> obj_has [] responses" using assms(2) by (simp add: obj_has_iff)
  define us where "us = known_type s (content_type s header ts) @ dropWhile (\<lambda>t. t = ''*'') ts"
  have k: "obj_has (pick_type s us responses) responses" by (rule pick_type_key [OF assms(1,2) n])
  with n have "pick_type s us responses \<noteq> []" by metis
  with r have "ts' = (if take 1 us = [pick_type s us responses] then us else pick_type s us responses # us)"
    and "v = js_prop responses (pick_type s us responses)"
    by (auto simp: ajaxHandleResponses_def us_def [symmetric] Let_def split: if_splits)
  with k show ?thesis by (cases us) (auto simp: obj_has_def js_prop_def split: if_splits)
qed

section \<open>Conversions end\<close>

definition pair_key :: "string \<Rightarrow> bool" where
  \<comment> \<open>two words with one space\<close>
  "pair_key k \<longleftrightarrow> (case split_on (\<lambda>c. c = CHR '' '') k of [a, b] \<Rightarrow> True | _ \<Rightarrow> False)"

definition converters_ok :: "conv obj \<Rightarrow> bool" where
  "converters_ok cs \<longleftrightarrow> list_all (\<lambda>p. pair_key (fst p) \<and> snd p \<noteq> Absent) cs"

lemma pair_key_two: "pair_key k \<Longrightarrow> k = two (split_on (\<lambda>c. c = CHR '' '') k ! 0) (split_on (\<lambda>c. c = CHR '' '') k ! 1)"
  using join_split_on [of "CHR '' ''" k] by (auto simp: pair_key_def two_def split: list.splits)

lemma low_char_space: "low_char c = CHR '' '' \<longleftrightarrow> c = CHR '' ''"
proof -
  have s: "code_unit CHR '' '' = 32" "code_unit CHR ''A'' = 65" "code_unit CHR ''Z'' = 90" by code_simp+
  let ?u = "code_unit c"
  have "char_of (?u + 32) = CHR '' '' \<Longrightarrow> 65 \<le> ?u \<Longrightarrow> ?u \<le> 222 \<Longrightarrow> False"
    using code_unit_char_of [of "?u + 32"] s(1) by simp
  moreover have "c = CHR '' '' \<Longrightarrow> ?u = 32" using s(1) by simp
  ultimately show ?thesis by (auto simp: low_char_def is_upper_def in_range_def s)
qed

lemma pair_key_lower: "pair_key k \<Longrightarrow> pair_key (toLowerCase k)"
proof -
  have "split_on (\<lambda>c. c = CHR '' '') (toLowerCase k) = map toLowerCase (split_on (\<lambda>c. c = CHR '' '') k)"
    by (induction k) (auto simp: toLowerCase_def low_char_space split: list.splits)
  then show "pair_key k \<Longrightarrow> pair_key (toLowerCase k)" by (auto simp: pair_key_def split: list.splits)
qed

lemma converters_ok_set: "converters_ok cs \<Longrightarrow> pair_key k \<Longrightarrow> c \<noteq> Absent \<Longrightarrow> converters_ok (obj_set k c cs)"
  by (induction cs) (auto simp: converters_ok_def)

lemma lower_fold_ok:
  "converters_ok cs \<Longrightarrow> converters_ok acc \<Longrightarrow> obj_wf acc \<Longrightarrow>
    converters_ok (fold (\<lambda>p. obj_set (toLowerCase (fst p)) (snd p)) cs acc) \<and> obj_wf (fold (\<lambda>p. obj_set (toLowerCase (fst p)) (snd p)) cs acc)"
proof (induction cs arbitrary: acc)
  case (Cons p cs)
  have p: "pair_key (fst p)" "snd p \<noteq> Absent" and cs: "converters_ok cs"
    using Cons.prems(1) by (simp_all add: converters_ok_def)
  show ?case
    using Cons.IH [OF cs converters_ok_set [OF Cons.prems(2) pair_key_lower [OF p(1)] p(2)] obj_wf_set [OF Cons.prems(3)]] by simp
qed simp

lemma lower_converters_ok: "converters_ok (a_converters s) \<Longrightarrow> converters_ok (lower_converters s ts) \<and> obj_wf (lower_converters s ts)"
  using lower_fold_ok [of "a_converters s" "[]"] by (simp add: lower_converters_def converters_ok_def obj_wf_def)

text \<open>A pair of converters leaves a step with a direct converter behind.\<close>

lemma seek_pair_extra:
  assumes "seek_pair cs ps prev current = (c, target, extra)" "converters_ok ps"
  shows "(extra = [] \<and> target = current) \<or> (extra = [current] \<and> (\<exists>p \<in> set ps. fst p = two target current))"
  using assms
proof (induction ps)
  case (Cons p ps)
  let ?w = "split_on (\<lambda>c. c = CHR '' '') (fst p)"
  have k: "fst p = two (?w ! 0) (?w ! 1)" using Cons.prems(2) by (intro pair_key_two) (simp add: converters_ok_def)
  have ps: "converters_ok ps" using Cons.prems(2) by (simp add: converters_ok_def)
  show ?case
  proof (cases "1 < length ?w \<and> ?w ! 1 = current \<and> converter cs prev (?w ! 0) \<noteq> Absent")
    case True
    then show ?thesis using Cons.prems(1) k by (auto simp: Let_def split: if_splits)
  next
    case False
    then have "seek_pair cs ps prev current = (c, target, extra)" using Cons.prems(1) by (auto simp: Let_def split: if_splits)
    from Cons.IH [OF this ps] show ?thesis by auto
  qed
qed simp

definition direct :: "conv obj \<Rightarrow> around \<Rightarrow> bool" where
  "direct cs x \<longleftrightarrow> (\<exists>b q. r_queue x = b # q \<and> converter cs (r_current x) b \<noteq> Absent)"

definition work :: "conv obj \<Rightarrow> around \<Rightarrow> nat" where
  "work cs x = (if r_current x = [] then 0 else 2 * length (r_queue x) + (if direct cs x then 1 else 2))"

lemma converter_of_key: "converters_ok cs \<Longrightarrow> obj_wf cs \<Longrightarrow> p \<in> set cs \<Longrightarrow> fst p = two a b \<Longrightarrow> converter cs a b \<noteq> Absent"
  by (cases p) (auto simp: converter_def conv_at_def converters_ok_def list_all_iff obj_wf_def dest: map_of_is_SomeI)

lemma choose_work:
  assumes "choose_converter cs prev current = (c, target, extra)" "converters_ok cs" "obj_wf cs"
    and "\<not> direct cs \<lparr>r_prev = p0, r_current = prev, r_queue = current # q, r_response = v0, r_xhr = h0\<rparr> \<or> extra = []"
  shows "work cs \<lparr>r_prev = prev, r_current = target, r_queue = extra @ q, r_response = v, r_xhr = h\<rparr>
    < 2 * length q + 2 + (if extra = [] then 1 else 2)"
proof (cases "extra = []")
  case False
  then have "seek_pair cs cs prev current = (c, target, extra)" using assms(1) by (auto simp: choose_converter_def split: if_splits)
  from seek_pair_extra [OF this assms(2)] False obtain p where "extra = [current]" "p \<in> set cs" "fst p = two target current" by auto
  with converter_of_key [OF assms(2,3)] show ?thesis by (simp add: work_def direct_def)
qed (simp add: work_def)

lemma round_work:
  assumes "convert_round call s cs isSuccess x = Inr y" "converters_ok cs" "obj_wf cs"
  shows "work cs y < work cs x"
proof -
  obtain p0 prev q0 v0 h0 where x: "x = \<lparr>r_prev = p0, r_current = prev, r_queue = q0, r_response = v0, r_xhr = h0\<rparr>" by (cases x)
  have c: "prev \<noteq> []" using assms(1) x by (auto simp: convert_round_def)
  show ?thesis
  proof (cases q0)
    case Nil
    then have "r_current y = []" using assms(1) x c by (auto simp: convert_round_def pop_def Let_def split: sum.splits option.splits if_splits)
    then show ?thesis using x c by (simp add: work_def)
  next
    case (Cons current q)
    obtain ch target extra where ch: "choose_converter cs prev current = (ch, target, extra)" by (metis prod.exhaust)
    have "r_queue y = q \<or> (r_prev y = prev \<and> r_current y = target \<and> r_queue y = extra @ q)"
      using assms(1) x c Cons ch by (auto simp: convert_round_def pop_def Let_def split: sum.splits option.splits if_splits conv.splits)
    moreover have d: "extra \<noteq> [] \<Longrightarrow> \<not> direct cs x" using ch x Cons by (auto simp: direct_def choose_converter_def split: if_splits)
    moreover have "work cs y < 2 * length q + 2 + (if extra = [] then 1 else 2)" if "r_prev y = prev" "r_current y = target" "r_queue y = extra @ q"
      using choose_work [OF ch assms(2,3), of p0 q v0 h0 "r_response y" "r_xhr y"] d x Cons that by (cases y) auto
    moreover have "work cs y \<le> 2 * length q + 2" if "r_queue y = q" using that by (simp add: work_def)
    moreover have "work cs x = 2 * length q + (if direct cs x then 3 else 4)" using x c Cons by (simp add: work_def)
    ultimately show ?thesis by (cases "extra = []") (auto split: if_splits)
  qed
qed

lemma rounds_end:
  assumes "converters_ok cs" "obj_wf cs"
  shows "\<exists>r. rounds (convert_round call s cs isSuccess) x = Some r"
proof (induction x rule: measure_induct_rule [of "work cs"])
  case (less x)
  show ?case
  proof (cases "convert_round call s cs isSuccess x")
    case (Inl r)
    then show ?thesis by (subst rounds.simps) simp
  next
    case (Inr y)
    with less [OF round_work [OF Inr assms]] show ?thesis by (subst rounds.simps) simp
  qed
qed

text \<open>The conversion of a response ends when every converter is a function or the mark of an
  equivalence and every key has two words.\<close>

theorem ajaxConvert_ends:
  assumes "converters_ok (a_converters s)"
  shows "\<exists>r. ajaxConvert call s dataTypes response isSuccess xhr = Some r"
  using lower_converters_ok [OF assms] unfolding ajaxConvert_def by (blast intro: rounds_end)

definition word_test :: "string \<Rightarrow> bool \<Rightarrow> string \<Rightarrow> bool" where
  \<comment> \<open>a word after a boundary, and before one when the flag is set\<close>
  "word_test w whole s =
     list_ex (\<lambda>i. take (length w) (drop i s) = w \<and> (i = 0 \<or> \<not> is_word (s ! (i - 1)))
       \<and> (\<not> whole \<or> i + length w = length s \<or> \<not> is_word (s ! (i + length w)))) [0..<length s]"

definition ajax_settings :: asettings where
  \<comment> \<open>the defaults; converter 0 is String, 1 is JSON.parse and 2 is parseXML\<close>
  "ajax_settings =
     \<lparr>a_contents = [(''xml'', Some (word_test ''xml'' True)), (''html'', Some (word_test ''html'' False)), (''json'', Some (word_test ''json'' True))],
      a_mimeType = [],
      a_converters = [(''* text'', Convert 0), (''text html'', Equiv), (''text json'', Convert 1), (''text xml'', Convert 2)],
      a_responseFields = [(''xml'', ''responseXML''), (''text'', ''responseText''), (''json'', ''responseJSON'')],
      a_dataFilter = None, a_dataType = JUndef, a_throws = False\<rparr>"

lemma rounds_Inl: "f x = Inl r \<Longrightarrow> rounds f x = Some r" and rounds_Inr: "f x = Inr y \<Longrightarrow> rounds f x = rounds f y"
  by (subst rounds.simps, simp)+

theorem ajaxConvert_ends_witness:
  "\<exists>r. ajaxConvert (\<lambda>f v _. Inr (JArr [v])) ajax_settings [''text'', ''json''] (JStr ''1'') True [] = Some r"
  by (rule ajaxConvert_ends) code_simp

text \<open>A key of three words can keep the conversion busy for ever.\<close>

definition endless_settings :: asettings where
  "endless_settings = ajax_settings\<lparr>a_converters := [(''* a'', Convert 0), (''a b c'', Convert 0)]\<rparr>"

definition busy :: around where
  "busy = \<lparr>r_prev = ''a'', r_current = ''a'', r_queue = [''b''], r_response = JNull, r_xhr = []\<rparr>"

lemma busy_again:
  "convert_round (\<lambda>f v _. Inr v) endless_settings (lower_converters endless_settings [''a'', ''b'']) True busy = Inr busy"
  by code_simp

section \<open>The request object\<close>

datatype jevent =
    Resolved jsval jsval
  | Rejected jsval jsval
  | StatusCallbacks "nat list"
  | Completed jsval
  | Global string jsval
  | TransportAbort string

record jrequest =
  j_completed :: "bool option" \<comment> \<open>undefined, false after sending, true at the end\<close>
  j_transport :: bool
  j_timer :: bool
  j_responseHeaders :: string
  j_readyState :: nat
  j_status :: int
  j_statusText :: jsval \<comment> \<open>before it is turned into a text\<close>
  j_strAbort :: string
  j_statusCode :: "nat list obj"
  j_requestHeaders :: "string obj"
  j_requestHeadersNames :: "string obj"
  j_fields :: "jsval obj" \<comment> \<open>responseText and the like\<close>
  j_settings :: asettings
  j_dataTypes :: "string list"
  j_ifModified :: bool
  j_type :: string
  j_cacheURL :: string
  j_fireGlobals :: bool
  j_active :: int \<comment> \<open>jQuery.active\<close>
  j_lastModified :: "string obj"
  j_etag :: "string obj"
  j_events :: "jevent list"

definition emit :: "jevent list \<Rightarrow> jrequest \<Rightarrow> jrequest" where
  "emit es r = r\<lparr>j_events := j_events r @ es\<rparr>"

definition header_of_line :: "string \<Rightarrow> (string \<times> string) list" where
  "header_of_line l =
     (case dropWhile (\<lambda>c. c \<noteq> CHR '':'') l of
        [] \<Rightarrow> []
      | _ # v \<Rightarrow> [(toLowerCase (takeWhile (\<lambda>c. c \<noteq> CHR '':'') l), dropWhile (\<lambda>c. c = CHR '' '' \<or> c = CHR 0x09) v)])"

definition parse_headers :: "string \<Rightarrow> string obj" where
  \<comment> \<open>the matches of rheaders, line by line\<close>
  "parse_headers s =
     fold (\<lambda>p. obj_set (fst p) (snd p)) (concat (map header_of_line (split_on (\<lambda>c. c = CHR 0x0D \<or> c = CHR 0x0A) s))) []"

definition getResponseHeader :: "string \<Rightarrow> jrequest \<Rightarrow> string option" where
  "getResponseHeader key r =
     (if j_completed r = Some True then map_of (parse_headers (j_responseHeaders r)) (toLowerCase key) else None)"

definition getAllResponseHeaders :: "jrequest \<Rightarrow> string option" where
  "getAllResponseHeaders r = (if j_completed r = Some True then Some (j_responseHeaders r) else None)"

definition setRequestHeader :: "string \<Rightarrow> string \<Rightarrow> jrequest \<Rightarrow> jrequest" where
  "setRequestHeader name v r =
     (if j_completed r = None then
        (let name' = (case map_of (j_requestHeadersNames r) (toLowerCase name) of
                        Some n \<Rightarrow> if n \<noteq> [] then n else name | None \<Rightarrow> name)
         in r\<lparr>j_requestHeadersNames := obj_set (toLowerCase name) name' (j_requestHeadersNames r),
              j_requestHeaders := obj_set name' v (j_requestHeaders r)\<rparr>)
      else r)"

definition overrideMimeType :: "string \<Rightarrow> jrequest \<Rightarrow> jrequest" where
  "overrideMimeType t r = (if j_completed r = None then r\<lparr>j_settings := (j_settings r)\<lparr>a_mimeType := t\<rparr>\<rparr> else r)"

definition callbacks_for :: "string \<Rightarrow> nat list obj \<Rightarrow> nat list" where
  "callbacks_for code m = (case map_of m code of None \<Rightarrow> [] | Some us \<Rightarrow> us)"

definition int_text :: "int \<Rightarrow> string" where
  "int_text i = (if i < 0 then CHR ''-'' # nat_str (nat (- i)) else nat_str (nat i))"

definition statusCode :: "nat list obj \<Rightarrow> jrequest \<Rightarrow> jrequest" where
  \<comment> \<open>new callbacks go behind the old ones of the same code; after the end they run at once\<close>
  "statusCode m r =
     (if j_completed r = Some True then emit [StatusCallbacks (callbacks_for (int_text (j_status r)) m)] r
      else r\<lparr>j_statusCode := fold (\<lambda>p sc. obj_set (fst p) (callbacks_for (fst p) sc @ snd p) sc) m (j_statusCode r)\<rparr>)"

fun error_value :: "aresult \<Rightarrow> jsval" where
  "error_value (ParserError (Error m)) = JObj [(''message'', JStr m)]"
| "error_value (ParserError TypeError) = JObj [(''message'', JStr ''TypeError'')]"
| "error_value (NoConversion a b) = JStr (''No conversion from '' @ a @ '' to '' @ b)"
| "error_value _ = JUndef"

definition is_success :: "int \<Rightarrow> bool" where
  "is_success status \<longleftrightarrow> 200 \<le> status \<and> status < 300 \<or> status = 304"

definition remember :: "string \<Rightarrow> string \<Rightarrow> string obj \<Rightarrow> jrequest \<Rightarrow> string obj" where
  "remember header key m r = (case getResponseHeader header r of Some v \<Rightarrow> if v \<noteq> [] then obj_set key v m else m | None \<Rightarrow> m)"

definition note_modified :: "jrequest \<Rightarrow> jrequest" where
  "note_modified r =
     (if j_ifModified r then
        r\<lparr>j_lastModified := remember ''Last-Modified'' (j_cacheURL r) (j_lastModified r) r,
          j_etag := remember ''etag'' (j_cacheURL r) (j_etag r) r\<rparr>
      else r)"

definition outcome :: "jrequest \<Rightarrow> int \<Rightarrow> jsval \<Rightarrow> aresult \<Rightarrow> bool \<times> jsval \<times> jsval \<times> jsval \<times> int" where
  \<comment> \<open>isSuccess, success, statusText, error and status at the end\<close>
  "outcome r status native result =
     (if is_success status then
        (if status = 204 \<or> j_type r = ''HEAD'' then (True, JUndef, JStr ''nocontent'', JUndef, status)
         else if status = 304 then (True, JUndef, JStr ''notmodified'', JUndef, status)
         else (case result of
                 Success v \<Rightarrow> (True, v, JStr ''success'', JUndef, status)
               | _ \<Rightarrow> (False, JUndef, JStr ''parsererror'', error_value result, status)))
      else if status \<noteq> 0 \<or> \<not> truthy native then (False, JUndef, JStr ''error'', native, max 0 status)
      else (False, JUndef, native, native, status))"

definition settle :: "int \<Rightarrow> jsval \<Rightarrow> aresult \<Rightarrow> jrequest \<Rightarrow> jrequest" where
  "settle status native result r =
     (case outcome r status native result of
        (ok, success, text, err, status') \<Rightarrow>
          (let r1 = (if is_success status then note_modified r else r)\<lparr>j_status := status', j_statusText := js_or native text\<rparr>;
               r2 = emit [if ok then Resolved success text else Rejected text err] r1;
               r3 = (statusCode (j_statusCode r2) r2)\<lparr>j_statusCode := []\<rparr>;
               r4 = (if j_fireGlobals r3 then emit [if ok then Global ''ajaxSuccess'' success else Global ''ajaxError'' err] r3 else r3);
               r5 = emit [Completed text] r4
           in if j_fireGlobals r5 then
                (let r6 = (emit [Global ''ajaxComplete'' JUndef] r5)\<lparr>j_active := j_active r5 - 1\<rparr>
                 in if j_active r6 = 0 then emit [Global ''ajaxStop'' JUndef] r6 else r6)
              else r5))"

type_synonym call_fn = "nat \<Rightarrow> jsval \<Rightarrow> jsval \<Rightarrow> jserr + jsval"

definition begin_done :: "int \<Rightarrow> jsval obj option \<Rightarrow> string \<Rightarrow> jrequest \<Rightarrow> jrequest \<times> jsval" where
  \<comment> \<open>the start of done: the request is marked, and the response chosen\<close>
  "begin_done status responses headers r =
     (let r1 = r\<lparr>j_completed := Some True, j_timer := False, j_transport := False, j_responseHeaders := headers,
                 j_readyState := (if 0 < status then 4 else 0)\<rparr>
      in case responses of
           None \<Rightarrow> (r1, JUndef)
         | Some rs \<Rightarrow>
             (case ajaxHandleResponses (j_settings r) (getResponseHeader ''Content-Type'' r1) (j_dataTypes r) rs of
                (ts, v) \<Rightarrow> (r1\<lparr>j_dataTypes := ts\<rparr>, v)))"

definition done_request :: "call_fn \<Rightarrow> int \<Rightarrow> jsval \<Rightarrow> jsval obj option \<Rightarrow> string \<Rightarrow> jrequest \<Rightarrow> (jrequest \<times> jserr option) option" where
  \<comment> \<open>None: the conversion does not end; the error is one that leaves the function\<close>
  "done_request call status native responses headers r =
     (if j_completed r = Some True then Some (r, None)
      else (case begin_done status responses headers r of
              (r2, response) \<Rightarrow>
                (case ajaxConvert call (j_settings r2) (j_dataTypes r2) response (is_success status) (j_fields r2) of
                   None \<Rightarrow> None
                 | Some (Threw e, fs) \<Rightarrow> Some (r2\<lparr>j_fields := fs\<rparr>, Some e)
                 | Some (result, fs) \<Rightarrow> Some (settle status native result (r2\<lparr>j_fields := fs\<rparr>), None))))"

definition abort :: "call_fn \<Rightarrow> string \<Rightarrow> jrequest \<Rightarrow> (jrequest \<times> jserr option) option" where
  "abort call statusText r =
     (let finalText = (if statusText \<noteq> [] then statusText else j_strAbort r)
      in done_request call 0 (JStr finalText) None [] (if j_transport r then emit [TransportAbort finalText] r else r))"

definition send_request ::
  "call_fn \<Rightarrow> bool \<Rightarrow> bool \<Rightarrow> (jrequest \<Rightarrow> jrequest) \<Rightarrow> (jrequest \<Rightarrow> jrequest \<times> jsval option) \<Rightarrow> jrequest \<Rightarrow> (jrequest \<times> jsval option) option" where
  \<comment> \<open>\<open>chosen\<close>: a transport was found; \<open>timed\<close>: the request is asynchronous with a timeout; the handlers of
    the event ajaxSend and the transport are functions on the request, the transport may throw\<close>
  "send_request call chosen timed on_send transport r =
     (let r0 = r\<lparr>j_strAbort := ''abort'', j_transport := chosen\<rparr>
      in if \<not> chosen then map_option (\<lambda>(r', e). (r', map_option (\<lambda>_. JUndef) e)) (done_request call (-1) (JStr ''No Transport'') None [] r0)
         else (let r1 = r0\<lparr>j_readyState := 1\<rparr>;
                   r2 = (if j_fireGlobals r1 then on_send (emit [Global ''ajaxSend'' JUndef] r1) else r1)
               in if j_completed r2 = Some True then Some (r2, None)
                  else (case transport (r2\<lparr>j_timer := timed, j_completed := Some False\<rparr>) of
                          (r3, None) \<Rightarrow> Some (r3, None)
                        | (r3, Some e) \<Rightarrow>
                            if j_completed r3 = Some True then Some (r3, Some e)
                            else map_option (\<lambda>(r', e'). (r', map_option (\<lambda>_. JUndef) e')) (done_request call (-1) e None [] r3))))"

section \<open>Requests end once\<close>

inductive jstep :: "call_fn \<Rightarrow> jrequest \<Rightarrow> jrequest \<Rightarrow> bool" for call where
  finish: "done_request call status native responses headers r = Some (r', e) \<Longrightarrow> jstep call r r'"
| cancel: "abort call st r = Some (r', e) \<Longrightarrow> jstep call r r'"
| header: "jstep call r (setRequestHeader name v r)"
| mime: "jstep call r (overrideMimeType t r)"
| code: "jstep call r (statusCode m r)"
| sent: "j_completed r = None \<Longrightarrow> jstep call r (r\<lparr>j_completed := Some False\<rparr>)"

fun settles :: "jevent \<Rightarrow> bool" where
  "settles (Resolved v t) = True"
| "settles (Rejected t v) = True"
| "settles _ = False"

fun completes :: "jevent \<Rightarrow> bool" where
  "completes (Completed t) = True"
| "completes _ = False"

definition settled_ok :: "jrequest \<Rightarrow> bool" where
  "settled_ok r \<longleftrightarrow> length (filter settles (j_events r)) \<le> 1
     \<and> length (filter completes (j_events r)) = length (filter settles (j_events r))
     \<and> (j_completed r \<noteq> Some True \<longrightarrow> filter settles (j_events r) = [])"

lemma emit_simps [simp]:
  "j_events (emit es r) = j_events r @ es" "j_completed (emit es r) = j_completed r" "j_fireGlobals (emit es r) = j_fireGlobals r"
  "j_statusCode (emit es r) = j_statusCode r" "j_status (emit es r) = j_status r" "j_active (emit es r) = j_active r"
  by (simp_all add: emit_def)

lemma note_modified_simps [simp]:
  "j_events (note_modified r) = j_events r" "j_completed (note_modified r) = j_completed r" "j_fireGlobals (note_modified r) = j_fireGlobals r"
  "j_statusCode (note_modified r) = j_statusCode r" "j_active (note_modified r) = j_active r"
  by (simp_all add: note_modified_def)

lemma settle_completed [simp]: "j_completed (settle status native result r) = j_completed r"
  by (cases "outcome r status native result") (simp add: settle_def Let_def statusCode_def)

lemma settle_events:
  assumes "j_completed r = Some True" "outcome r status native result = (ok, success, text, err, status')"
  shows "j_events (settle status native result r) = j_events r
    @ [if ok then Resolved success text else Rejected text err, StatusCallbacks (callbacks_for (int_text status') (j_statusCode r))]
    @ (if j_fireGlobals r then [if ok then Global ''ajaxSuccess'' success else Global ''ajaxError'' err] else [])
    @ Completed text # (if j_fireGlobals r then Global ''ajaxComplete'' JUndef # (if j_active r = 1 then [Global ''ajaxStop'' JUndef] else []) else [])"
  using assms by (simp add: settle_def Let_def statusCode_def)

lemma settle_once:
  assumes "j_completed r = Some True"
  shows "length (filter settles (j_events (settle status native result r))) = Suc (length (filter settles (j_events r)))
    \<and> length (filter completes (j_events (settle status native result r))) = Suc (length (filter completes (j_events r)))"
  by (cases "outcome r status native result") (simp add: settle_events [OF assms])

lemma begin_done_simps:
  assumes "begin_done status responses headers r = (r2, v)"
  shows "j_completed r2 = Some True" "j_events r2 = j_events r" "j_settings r2 = j_settings r" "j_type r2 = j_type r"
    "j_fireGlobals r2 = j_fireGlobals r" "j_active r2 = j_active r" "j_statusCode r2 = j_statusCode r"
  using assms by (auto simp: begin_done_def Let_def split: option.splits prod.splits)

lemma done_cases:
  assumes "done_request call status native responses headers r = Some (r', e)" "j_completed r \<noteq> Some True"
  obtains r2 v result fs where "begin_done status responses headers r = (r2, v)"
    "ajaxConvert call (j_settings r2) (j_dataTypes r2) v (is_success status) (j_fields r2) = Some (result, fs)"
    "case result of Threw x \<Rightarrow> r' = r2\<lparr>j_fields := fs\<rparr> \<and> e = Some x
       | _ \<Rightarrow> r' = settle status native result (r2\<lparr>j_fields := fs\<rparr>) \<and> e = None"
proof -
  obtain r2 v where b: "begin_done status responses headers r = (r2, v)" by force
  with assms obtain result fs where
    "ajaxConvert call (j_settings r2) (j_dataTypes r2) v (is_success status) (j_fields r2) = Some (result, fs)"
    by (auto simp: done_request_def split: option.splits)
  with assms b show thesis by (intro that [OF b]) (auto simp: done_request_def split: aresult.splits)
qed

lemma done_ok:
  assumes d: "done_request call status native responses headers r = Some (r', e)" and ok: "settled_ok r"
  shows "settled_ok r'"
proof (cases "j_completed r = Some True")
  case False
  from d False obtain r2 v result fs where b: "begin_done status responses headers r = (r2, v)"
    and c: "case result of Threw x \<Rightarrow> r' = r2\<lparr>j_fields := fs\<rparr> \<and> e = Some x
       | _ \<Rightarrow> r' = settle status native result (r2\<lparr>j_fields := fs\<rparr>) \<and> e = None"
    by (rule done_cases)
  note s = settle_once [of "r2\<lparr>j_fields := fs\<rparr>" status native result]
  show ?thesis using c s ok False begin_done_simps [OF b] by (auto simp: settled_ok_def split: aresult.splits)
qed (use d ok in \<open>auto simp: done_request_def\<close>)

lemma jstep_ok: "jstep call r r' \<Longrightarrow> settled_ok r \<Longrightarrow> settled_ok r'"
proof (induction rule: jstep.induct)
  case (cancel st r r' e)
  let ?a = "if j_transport r then emit [TransportAbort (if st \<noteq> [] then st else j_strAbort r)] r else r"
  have "settled_ok ?a" using cancel(2) by (simp add: settled_ok_def)
  then show ?case using cancel(1) by (auto simp: abort_def Let_def intro: done_ok split: if_splits)
next
  case (finish status native responses headers r r' e)
  then show ?case by (rule done_ok)
qed (auto simp: settled_ok_def setRequestHeader_def overrideMimeType_def statusCode_def Let_def)

definition new_request :: "jrequest \<Rightarrow> bool" where
  "new_request r \<longleftrightarrow> j_completed r = None \<and> j_events r = []"

interpretation request: inductive_invariant new_request "jstep call" settled_ok for call
  by unfold_locales (simp add: new_request_def settled_ok_def, rule jstep_ok)

text \<open>However done, abort and the other operations of a request follow each other, its promise is
  resolved or rejected at most once, and the complete callbacks run exactly as often.\<close>

theorem request_settles_once:
  assumes "reach new_request (jstep call) r"
  shows "length (filter settles (j_events r)) \<le> 1 \<and> length (filter completes (j_events r)) = length (filter settles (j_events r))"
  using request.inv_reach [OF assms] by (simp add: settled_ok_def)

text \<open>A request is resolved exactly for a successful status with no content, without modification or
  with a response that converts; otherwise it is rejected, and the status is never negative.\<close>

theorem done_resolves_iff:
  assumes d: "done_request call status native responses headers r = Some (r', None)" and n: "new_request r"
    and b: "begin_done status responses headers r = (r2, v)"
  shows "((\<exists>s t. Resolved s t \<in> set (j_events r')) \<longleftrightarrow>
      is_success status \<and> (status \<in> {204, 304} \<or> j_type r = ''HEAD''
        \<or> (\<exists>x fs. ajaxConvert call (j_settings r2) (j_dataTypes r2) v True (j_fields r2) = Some (Success x, fs))))
    \<and> 0 \<le> j_status r'"
proof -
  have "j_completed r \<noteq> Some True" using n by (simp add: new_request_def)
  with d obtain r3 w result fs where b3: "begin_done status responses headers r = (r3, w)"
    and c3: "ajaxConvert call (j_settings r3) (j_dataTypes r3) w (is_success status) (j_fields r3) = Some (result, fs)"
    and k3: "case result of Threw x \<Rightarrow> r' = r3\<lparr>j_fields := fs\<rparr> \<and> None = Some x
       | _ \<Rightarrow> r' = settle status native result (r3\<lparr>j_fields := fs\<rparr>) \<and> None = (None :: jserr option)"
    by (rule done_cases)
  from b b3 have w: "r3 = r2" "w = v" by simp_all
  note c = c3 [unfolded w]
  from k3 [unfolded w]
  have r': "r' = settle status native result (r2\<lparr>j_fields := fs\<rparr>)" and nt: "\<And>x. result \<noteq> Threw x"
    by (auto split: aresult.splits)
  let ?r = "r2\<lparr>j_fields := fs\<rparr>"
  obtain ok success tx err status' where o: "outcome ?r status native result = (ok, success, tx, err, status')"
    by (cases "outcome ?r status native result") auto
  have e: "j_events r2 = []" "j_type r2 = j_type r" using begin_done_simps [OF b] n by (simp_all add: new_request_def)
  have "(\<exists>s t. Resolved s t \<in> set (j_events r')) \<longleftrightarrow> ok"
    using settle_events [OF _ o] begin_done_simps(1) [OF b] e by (auto simp: r')
  moreover have "ok \<longleftrightarrow> is_success status \<and> (status \<in> {204, 304} \<or> j_type r = ''HEAD'' \<or> (\<exists>x. result = Success x))"
    using o e(2) by (auto simp: outcome_def split: if_splits aresult.splits)
  moreover have "0 \<le> status'" using o by (auto simp: outcome_def is_success_def split: if_splits aresult.splits)
  moreover have "j_status r' = status'" using o by (simp add: r' settle_def Let_def statusCode_def)
  ultimately show ?thesis using c by auto
qed

definition sample_request :: jrequest where
  "sample_request =
     \<lparr>j_completed = None, j_transport = True, j_timer = False, j_responseHeaders = [], j_readyState = 1, j_status = 0,
      j_statusText = JUndef, j_strAbort = ''abort'', j_statusCode = [], j_requestHeaders = [], j_requestHeadersNames = [],
      j_fields = [], j_settings = ajax_settings, j_dataTypes = [''json''], j_ifModified = False, j_type = ''GET'',
      j_cacheURL = [], j_fireGlobals = True, j_active = 1, j_lastModified = [], j_etag = [], j_events = []\<rparr>"

definition answered_request :: "jrequest option" where
  "answered_request = map_option fst
     (done_request (\<lambda>f v _. Inr (JArr [v])) 200 (JStr ''OK'') (Some [(''text'', JStr ''1'')]) ''Content-Type: text/plain'' sample_request)"

lemma answered_request_events:
  "answered_request \<noteq> None \<and> map_option j_events answered_request =
     Some [Resolved (JArr [JStr ''1'']) (JStr ''success''), StatusCallbacks [], Global ''ajaxSuccess'' (JArr [JStr ''1'']),
           Completed (JStr ''success''), Global ''ajaxComplete'' JUndef, Global ''ajaxStop'' JUndef]"
  by code_simp

definition sample_done :: "(jrequest \<times> jserr option) option" where
  "sample_done = done_request (\<lambda>f v _. Inr (JArr [v])) 200 (JStr ''OK'') (Some [(''text'', JStr ''1'')]) ''Content-Type: text/plain'' sample_request"

definition sample_begin :: "jrequest \<times> jsval" where
  "sample_begin = begin_done 200 (Some [(''text'', JStr ''1'')]) ''Content-Type: text/plain'' sample_request"

lemma sample_done_facts: "case sample_done of Some (r, e) \<Rightarrow> e = None | None \<Rightarrow> False" "new_request sample_request"
  "map_option fst (ajaxConvert (\<lambda>f v _. Inr (JArr [v])) (j_settings (fst sample_begin)) (j_dataTypes (fst sample_begin)) (snd sample_begin) True
     (j_fields (fst sample_begin))) = Some (Success (JArr [JStr ''1'']))"
  by code_simp+

theorem done_resolves_iff_witness:
  "\<exists>r'. sample_done = Some (r', None) \<and> (\<exists>s t. Resolved s t \<in> set (j_events r')) \<and> 0 \<le> j_status r'"
proof -
  obtain r' where d: "sample_done = Some (r', None)" using sample_done_facts(1) by (auto split: option.splits prod.splits)
  obtain r2 v where b: "sample_begin = (r2, v)" by force
  have "\<exists>x fs. ajaxConvert (\<lambda>f v _. Inr (JArr [v])) (j_settings r2) (j_dataTypes r2) v True (j_fields r2) = Some (Success x, fs)"
    using sample_done_facts(3) unfolding b fst_conv snd_conv by auto
  moreover have "is_success 200" by code_simp
  ultimately show ?thesis
    using done_resolves_iff [OF d [unfolded sample_done_def] sample_done_facts(2) b [unfolded sample_begin_def]] d by auto
qed

theorem request_settles_once_witness:
  "\<exists>r. reach new_request (jstep (\<lambda>f v _. Inr (JArr [v]))) r \<and> j_completed r = Some True \<and> length (filter settles (j_events r)) \<le> 1"
proof -
  let ?c = "\<lambda>f v _ :: jsval. Inr (JArr [v]) :: jserr + jsval"
  obtain r' where d: "sample_done = Some (r', None)" using sample_done_facts(1) by (auto split: option.splits prod.splits)
  have "reach new_request (jstep ?c) sample_request" using sample_done_facts(2) by (rule reach_init)
  then have r: "reach new_request (jstep ?c) r'" by (rule reach_step) (rule jstep.finish [OF d [unfolded sample_done_def]])
  have "map_option (\<lambda>p. j_completed (fst p)) sample_done = Some (Some True)" by code_simp
  then have "j_completed r' = Some True" unfolding d by simp
  with request_settles_once [OF r] r show ?thesis by blast
qed

text \<open>A data filter that throws leaves the request marked as complete, without an answer for anyone: the
  promise stays pending, and the number of active requests is not decreased.\<close>

lemma throwing_filter_never_settles:
  assumes d: "done_request call status native responses headers r = Some (r', Some e)" and n: "new_request r"
  shows "j_completed r' = Some True \<and> j_events r' = [] \<and> j_active r' = j_active r"
proof -
  have "j_completed r \<noteq> Some True" using n by (simp add: new_request_def)
  with d obtain r2 v result fs where b: "begin_done status responses headers r = (r2, v)"
    and c: "case result of Threw x \<Rightarrow> r' = r2\<lparr>j_fields := fs\<rparr> \<and> Some e = Some x
       | _ \<Rightarrow> r' = settle status native result (r2\<lparr>j_fields := fs\<rparr>) \<and> Some e = None"
    by (rule done_cases)
  with begin_done_simps [OF b] n show ?thesis by (auto simp: new_request_def split: aresult.splits)
qed

end
