(* ===== verification/JqEvents.thy ===== *)
theory JqEvents
  imports JqCore JsRegExp "HOL-Library.Sublist" "HOL-Library.List_Lexorder" "HOL-Library.Char_ord"
begin

text \<open>
  The events of jQuery: binding and removing handlers (on, one, off), the queues of an element with
  delegated handlers in front, the choice of the handlers for an event, dispatch, and trigger along
  the path to the document.  Code of the page is an argument of dispatch; it may change everything,
  the queues included, stop the event, or throw.  Selectors are matched by an argument as well.  Names
  of namespaces are taken as literal text, as names without pattern characters are.
\<close>

section \<open>Queues\<close>

datatype efn = Plain nat | Once nat \<comment> \<open>a function of the page; the wrapper that one makes of it\<close>

fun fn_of :: "efn \<Rightarrow> nat" where
  "fn_of (Plain f) = f"
| "fn_of (Once f) = f"

record handleObj =
  o_type :: string
  o_origType :: string
  o_data :: jsval
  o_handler :: efn
  o_guid :: nat
  o_selector :: string \<comment> \<open>empty where there is none\<close>
  o_needsContext :: bool
  o_namespace :: string

record hqueue =
  q_list :: "handleObj list"
  q_count :: nat \<comment> \<open>delegateCount\<close>

definition new_queue :: hqueue where
  "new_queue = \<lparr>q_list = [], q_count = 0\<rparr>"

definition insert_handler :: "handleObj \<Rightarrow> hqueue \<Rightarrow> hqueue" where
  \<comment> \<open>delegates in front\<close>
  "insert_handler h q =
     (if o_selector h \<noteq> [] then \<lparr>q_list = take (q_count q) (q_list q) @ h # drop (q_count q) (q_list q), q_count = Suc (q_count q)\<rparr>
      else q\<lparr>q_list := q_list q @ [h]\<rparr>)"

fun remove_matching :: "(handleObj \<Rightarrow> bool) \<Rightarrow> nat \<Rightarrow> hqueue \<Rightarrow> hqueue" where
  \<comment> \<open>the loop from the end\<close>
  "remove_matching P 0 q = q"
| "remove_matching P (Suc j) q =
     (let h = q_list q ! j in
      if P h then
        remove_matching P j \<lparr>q_list = take j (q_list q) @ drop (Suc j) (q_list q),
                             q_count = (if o_selector h \<noteq> [] then q_count q - 1 else q_count q)\<rparr>
      else remove_matching P j q)"

section \<open>Types and namespaces\<close>

definition type_part :: "string \<Rightarrow> string" where
  "type_part t = takeWhile (\<lambda>c. c \<noteq> CHR ''.'') t"

definition namespace_part :: "string \<Rightarrow> string" where
  \<comment> \<open>the second group of rtypenamespace, empty for undefined\<close>
  "namespace_part t = drop 1 (dropWhile (\<lambda>c. c \<noteq> CHR ''.'') t)"

definition namespaces_of :: "string \<Rightarrow> string list" where
  "namespaces_of t = sort (split_on (\<lambda>c. c = CHR ''.'') (namespace_part t))"

fun lits :: "string \<Rightarrow> re \<Rightarrow> re" where
  "lits [] r = r"
| "lits (c # s) r = ESeq (lit c) (lits s r)"

definition any_dot :: re where
  \<comment> \<open>\<open>(?:.*\.|)\<close>\<close>
  "any_dot = EAlt (ESeq (EStar (ECls True [CRange 10 10, CRange 13 13])) (lit CHR ''.'')) EEps"

fun ns_tail :: "string list \<Rightarrow> re" where
  "ns_tail [] = EAlt (lit CHR ''.'') EEol"
| "ns_tail [n] = lits n (EAlt (lit CHR ''.'') EEol)"
| "ns_tail (n # m # ns) = lits n (ESeq (lit CHR ''.'') (ESeq any_dot (ns_tail (m # ns))))"

definition ns_regex :: "string list \<Rightarrow> re" where
  \<comment> \<open>the pattern made of the sorted namespaces of a type\<close>
  "ns_regex ns = ESeq (EAlt EBol (lit CHR ''.'')) (ns_tail ns)"

lemma ns_regex_text: "parse_re (bq ''(^|`.)a1`.(?:.*`.|)b`.(?:.*`.|)c(`.|$)'') = Some (ns_regex [''a1'', ''b'', ''c''])"
  by code_simp

record special =
  p_delegateType :: string
  p_bindType :: string
  p_setup :: bool \<comment> \<open>there is a setup hook that does not answer false\<close>
  p_teardown :: bool
  p_noBubble :: bool

definition no_special :: special where
  "no_special = \<lparr>p_delegateType = [], p_bindType = [], p_setup = False, p_teardown = False, p_noBubble = False\<rparr>"

definition hover_types :: "string obj" where
  "hover_types = [(''mouseenter'', ''mouseover''), (''mouseleave'', ''mouseout''), (''pointerenter'', ''pointerover''), (''pointerleave'', ''pointerout'')]"

definition jq_special :: "string \<Rightarrow> special" where
  "jq_special t =
     (if t = ''load'' then no_special\<lparr>p_noBubble := True\<rparr>
      else if t = ''focus'' then no_special\<lparr>p_delegateType := ''focusin''\<rparr>
      else if t = ''blur'' then no_special\<lparr>p_delegateType := ''focusout''\<rparr>
      else (case map_of hover_types t of Some fix \<Rightarrow> no_special\<lparr>p_delegateType := fix, p_bindType := fix\<rparr> | None \<Rightarrow> no_special))"

definition bound_type :: "(string \<Rightarrow> special) \<Rightarrow> string \<Rightarrow> string \<Rightarrow> string" where
  \<comment> \<open>the type a handler is kept under\<close>
  "bound_type sp selector t =
     (let u = (if selector \<noteq> [] then p_delegateType (sp t) else p_bindType (sp t)) in if u \<noteq> [] then u else t)"

section \<open>Binding\<close>

record dom =
  t_path :: "nat \<Rightarrow> nat list" \<comment> \<open>a node and its ancestors, the document last\<close>
  t_nodeType :: "nat \<Rightarrow> nat"
  t_disabled :: "nat \<Rightarrow> bool"
  t_accepts :: "nat \<Rightarrow> bool" \<comment> \<open>the node can have data\<close>
  t_matches :: "bool \<Rightarrow> string \<Rightarrow> nat \<Rightarrow> nat \<Rightarrow> bool" \<comment> \<open>context flag, selector, root, node\<close>
  t_selector :: "string \<Rightarrow> bool" \<comment> \<open>the selector is valid\<close>
  t_context :: "string \<Rightarrow> bool" \<comment> \<open>it needs its context\<close>
  t_document :: nat
  t_window :: nat
  t_trigger :: "string \<Rightarrow> nat \<Rightarrow> bool" \<comment> \<open>the trigger hook of the type calls the native method\<close>
  t_default :: "string \<Rightarrow> nat \<Rightarrow> bool" \<comment> \<open>there is a default hook of the type that does not answer false\<close>

record evsys =
  y_events :: "nat \<Rightarrow> hqueue obj option"
  y_handle :: "nat \<Rightarrow> bool"
  y_listeners :: "(nat \<times> string) list"
  y_guid :: nat
  y_guids :: "nat \<Rightarrow> nat option"
  y_triggered :: "string option"
  y_log :: "(nat \<times> handleObj) list" \<comment> \<open>the handlers run so far, with their elements\<close>

definition ensure_guid :: "efn \<Rightarrow> evsys \<Rightarrow> evsys \<times> nat" where
  "ensure_guid f s =
     (case y_guids s (fn_of f) of
        Some g \<Rightarrow> (s, g)
      | None \<Rightarrow> (s\<lparr>y_guids := (y_guids s)(fn_of f := Some (y_guid s)), y_guid := Suc (y_guid s)\<rparr>, y_guid s))"

definition queue_at :: "hqueue obj \<Rightarrow> string \<Rightarrow> hqueue" where
  "queue_at evs t = (case map_of evs t of None \<Rightarrow> new_queue | Some q \<Rightarrow> q)"

definition add_word :: "(string \<Rightarrow> special) \<Rightarrow> dom \<Rightarrow> nat \<Rightarrow> efn \<Rightarrow> nat \<Rightarrow> jsval \<Rightarrow> string \<Rightarrow> handleObj option \<Rightarrow> string \<Rightarrow> evsys \<Rightarrow> evsys" where
  \<comment> \<open>a round of the loop of add, for one word of the types\<close>
  "add_word sp T elem f guid data selector given t s =
     (if type_part t = [] then s
      else (let ty = bound_type sp selector (type_part t);
                h = (case given of
                       Some h \<Rightarrow> h
                     | None \<Rightarrow> \<lparr>o_type = ty, o_origType = type_part t, o_data = data, o_handler = f, o_guid = guid, o_selector = selector,
                               o_needsContext = (selector \<noteq> [] \<and> t_context T selector), o_namespace = join_with ''.'' (namespaces_of t)\<rparr>);
                evs = (case y_events s elem of None \<Rightarrow> [] | Some e \<Rightarrow> e);
                new = (map_of evs ty = None);
                s1 = (if new \<and> \<not> p_setup (sp ty) \<and> \<not> List.member (y_listeners s) (elem, ty)
                      then s\<lparr>y_listeners := y_listeners s @ [(elem, ty)]\<rparr> else s)
            in s1\<lparr>y_events := (y_events s1)(elem := Some (obj_set ty (insert_handler h (queue_at evs ty)) evs))\<rparr>))"

definition with_data :: "nat \<Rightarrow> evsys \<Rightarrow> evsys" where
  \<comment> \<open>the private data of a node, made on the first use\<close>
  "with_data elem s =
     s\<lparr>y_events := (y_events s)(elem := Some (case y_events s elem of None \<Rightarrow> [] | Some e \<Rightarrow> e)), y_handle := (y_handle s)(elem := True)\<rparr>"

definition event_add ::
  "(string \<Rightarrow> special) \<Rightarrow> dom \<Rightarrow> nat \<Rightarrow> string \<Rightarrow> efn \<Rightarrow> jsval \<Rightarrow> string \<Rightarrow> handleObj option \<Rightarrow> evsys \<Rightarrow> evsys \<times> jserr option" where
  \<comment> \<open>for nodes that cannot have data the private data are a fresh object: the listener is attached, the handlers are lost\<close>
  "event_add sp T elem types f data selector given s =
     (let f1 = (case given of Some h \<Rightarrow> o_handler h | None \<Rightarrow> f);
          selector1 = (case given of Some h \<Rightarrow> o_selector h | None \<Rightarrow> selector)
      in if selector1 \<noteq> [] \<and> \<not> t_selector T selector1 then (s, Some (Error ''Syntax error, unrecognized expression''))
         else (case ensure_guid f1 s of
                 (s1, g) \<Rightarrow>
                   (let s2 = fold (add_word sp T elem f1 g data selector1 given)
                               (rev (if html_words types = [] then [[]] else html_words types)) (with_data elem s1)
                    in (if t_accepts T elem then s2
                        else s2\<lparr>y_events := (y_events s2)(elem := None), y_handle := (y_handle s2)(elem := False)\<rparr>, None))))"

section \<open>Unbinding\<close>

definition to_remove :: "evsys \<Rightarrow> bool \<Rightarrow> string \<Rightarrow> efn option \<Rightarrow> string \<Rightarrow> handleObj \<Rightarrow> bool" where
  "to_remove s mapped t f selector h \<longleftrightarrow>
     (mapped \<or> type_part t = o_origType h)
     \<and> (case f of None \<Rightarrow> True | Some g \<Rightarrow> y_guids s (fn_of g) = Some (o_guid h))
     \<and> (namespace_part t = [] \<or> re_test False (ns_regex (namespaces_of t)) (o_namespace h))
     \<and> (selector = [] \<or> selector = o_selector h \<or> selector = ''**'' \<and> o_selector h \<noteq> [])"

definition remove_word :: "(string \<Rightarrow> special) \<Rightarrow> nat \<Rightarrow> efn option \<Rightarrow> string \<Rightarrow> bool \<Rightarrow> string \<Rightarrow> evsys \<Rightarrow> evsys" where
  \<comment> \<open>a round of the loop of remove, for a word with a type\<close>
  "remove_word sp elem f selector mapped t s =
     (case y_events s elem of
        None \<Rightarrow> s
      | Some evs \<Rightarrow>
          (let ty = bound_type sp selector (type_part t);
               q = queue_at evs ty;
               q' = remove_matching (to_remove s mapped t f selector) (length (q_list q)) q
           in if q_list q \<noteq> [] \<and> q_list q' = [] then
                s\<lparr>y_events := (y_events s)(elem := Some (obj_del ty evs)),
                  y_listeners := (if p_teardown (sp ty) then y_listeners s else filter (\<lambda>l. l \<noteq> (elem, ty)) (y_listeners s))\<rparr>
              else if map_of evs ty = None then s
              else s\<lparr>y_events := (y_events s)(elem := Some (obj_set ty q' evs))\<rparr>))"

definition drop_unused :: "nat \<Rightarrow> evsys \<Rightarrow> evsys" where
  \<comment> \<open>the data of the element go when no handlers are left\<close>
  "drop_unused elem s =
     (if y_events s elem = Some [] then s\<lparr>y_events := (y_events s)(elem := None), y_handle := (y_handle s)(elem := False)\<rparr> else s)"

definition remove_any :: "(string \<Rightarrow> special) \<Rightarrow> nat \<Rightarrow> efn option \<Rightarrow> string \<Rightarrow> string \<Rightarrow> evsys \<Rightarrow> evsys" where
  \<comment> \<open>a word without a type stands for all types of the element\<close>
  "remove_any sp elem f selector t s =
     (if type_part t \<noteq> [] then remove_word sp elem f selector False t s
      else fold (\<lambda>k s'. drop_unused elem (remove_word sp elem f selector True (k @ t) s'))
             (case y_events s elem of None \<Rightarrow> [] | Some evs \<Rightarrow> obj_keys evs) s)"

definition event_remove :: "(string \<Rightarrow> special) \<Rightarrow> nat \<Rightarrow> string \<Rightarrow> efn option \<Rightarrow> string \<Rightarrow> evsys \<Rightarrow> evsys" where
  "event_remove sp elem types f selector s =
     (if y_events s elem = None then s
      else drop_unused elem (fold (remove_any sp elem f selector) (rev (if html_words types = [] then [[]] else html_words types)) s))"

section \<open>Dispatch\<close>

record evt =
  v_type :: string
  v_target :: nat
  v_related :: "nat option"
  v_button :: nat
  v_namespace :: string
  v_rnamespace :: "re option"
  v_stopped :: bool
  v_immediate :: bool
  v_prevented :: bool
  v_result :: jsval
  v_data :: jsval
  v_handleObj :: "handleObj option"
  v_currentTarget :: nat
  v_delegateTarget :: nat
  v_isTrigger :: nat

type_synonym page = "nat \<Rightarrow> nat \<Rightarrow> evt \<Rightarrow> evsys \<Rightarrow> evsys \<times> evt \<times> (jserr + jsval)"

definition preventDefault :: "evt \<Rightarrow> evt" where "preventDefault e = e\<lparr>v_prevented := True\<rparr>"

definition stopPropagation :: "evt \<Rightarrow> evt" where "stopPropagation e = e\<lparr>v_stopped := True\<rparr>"

definition stopImmediatePropagation :: "evt \<Rightarrow> evt" where
  "stopImmediatePropagation e = stopPropagation (e\<lparr>v_immediate := True\<rparr>)"

definition off_event :: "(string \<Rightarrow> special) \<Rightarrow> evt \<Rightarrow> evsys \<Rightarrow> evsys" where
  "off_event sp e s =
     (case v_handleObj e of
        None \<Rightarrow> s
      | Some h \<Rightarrow> event_remove sp (v_delegateTarget e) (if o_namespace h \<noteq> [] then o_origType h @ ''.'' @ o_namespace h else o_origType h)
                    (Some (o_handler h)) (o_selector h) s)"

definition call_handler :: "page \<Rightarrow> (string \<Rightarrow> special) \<Rightarrow> nat \<Rightarrow> handleObj \<Rightarrow> evt \<Rightarrow> evsys \<Rightarrow> evsys \<times> evt \<times> (jserr + jsval)" where
  \<comment> \<open>the wrapper of one unbinds itself first\<close>
  "call_handler page sp elem h e s =
     (let s1 = s\<lparr>y_log := y_log s @ [(elem, h)]\<rparr>
      in case o_handler h of
           Plain f \<Rightarrow> page f elem e s1
         | Once f \<Rightarrow> page f elem e (off_event sp e s1))"

definition outside :: "dom \<Rightarrow> nat \<Rightarrow> evt \<Rightarrow> bool" where
  \<comment> \<open>the pointer came from, or goes to, a node outside of the element\<close>
  "outside T elem e \<longleftrightarrow> (case v_related e of None \<Rightarrow> True | Some r \<Rightarrow> elem \<notin> set (t_path T r))"

definition invoke :: "page \<Rightarrow> (string \<Rightarrow> special) \<Rightarrow> dom \<Rightarrow> nat \<Rightarrow> handleObj \<Rightarrow> evt \<Rightarrow> evsys \<Rightarrow> evsys \<times> evt \<times> (jserr + jsval)" where
  "invoke page sp T elem h e s =
     (case map_of hover_types (o_origType h) of
        None \<Rightarrow> call_handler page sp elem h e s
      | Some fix \<Rightarrow>
          if outside T elem e then
            (case call_handler page sp elem h (e\<lparr>v_type := o_origType h\<rparr>) s of
               (s', e', Inl x) \<Rightarrow> (s', e', Inl x)
             | (s', e', Inr v) \<Rightarrow> (s', e'\<lparr>v_type := fix\<rparr>, Inr v))
          else (s, e, Inr JUndef))"

definition after_handler :: "jsval \<Rightarrow> evt \<Rightarrow> evt" where
  \<comment> \<open>what the answer of a handler does to the event\<close>
  "after_handler v e =
     (if v = JUndef then e
      else if v = JBool False then stopPropagation (preventDefault (e\<lparr>v_result := v\<rparr>))
      else e\<lparr>v_result := v\<rparr>)"

definition ns_fits :: "evt \<Rightarrow> handleObj \<Rightarrow> bool" where
  "ns_fits e h \<longleftrightarrow> (case v_rnamespace e of None \<Rightarrow> True | Some r \<Rightarrow> re_test False r (o_namespace h))"

fun run_handlers :: "page \<Rightarrow> (string \<Rightarrow> special) \<Rightarrow> dom \<Rightarrow> nat \<Rightarrow> handleObj list \<Rightarrow> evt \<Rightarrow> evsys \<Rightarrow> evsys \<times> evt \<times> jserr option" where
  "run_handlers page sp T elem [] e s = (s, e, None)"
| "run_handlers page sp T elem (h # hs) e s =
     (if v_immediate e then (s, e, None)
      else if ns_fits e h then
        (case invoke page sp T elem h (e\<lparr>v_handleObj := Some h, v_data := o_data h\<rparr>) s of
           (s', e', Inl x) \<Rightarrow> (s', e', Some x)
         | (s', e', Inr v) \<Rightarrow> run_handlers page sp T elem hs (after_handler v e') s')
      else run_handlers page sp T elem hs e s)"

fun run_queue :: "page \<Rightarrow> (string \<Rightarrow> special) \<Rightarrow> dom \<Rightarrow> (nat \<times> handleObj list) list \<Rightarrow> evt \<Rightarrow> evsys \<Rightarrow> evsys \<times> evt \<times> jserr option" where
  "run_queue page sp T [] e s = (s, e, None)"
| "run_queue page sp T (m # ms) e s =
     (if v_stopped e then (s, e, None)
      else (case run_handlers page sp T (fst m) (snd m) (e\<lparr>v_currentTarget := fst m\<rparr>) s of
              (s', e', Some x) \<Rightarrow> (s', e', Some x)
            | (s', e', None) \<Rightarrow> run_queue page sp T ms e' s'))"

definition delegated :: "dom \<Rightarrow> nat \<Rightarrow> hqueue \<Rightarrow> nat \<Rightarrow> handleObj list" where
  "delegated T this q cur =
     filter (\<lambda>h. t_matches T (o_needsContext h) (o_selector h @ '' '') this cur) (take (q_count q) (q_list q))"

definition handlers_for :: "dom \<Rightarrow> nat \<Rightarrow> evt \<Rightarrow> hqueue \<Rightarrow> (nat \<times> handleObj list) list" where
  "handlers_for T this e q =
     (if 0 < q_count q \<and> t_nodeType T (v_target e) \<noteq> 0 \<and> \<not> (v_type e = ''click'' \<and> 1 \<le> v_button e)
      then filter (\<lambda>m. snd m \<noteq> [])
             (map (\<lambda>cur. (cur, delegated T this q cur))
                (filter (\<lambda>cur. t_nodeType T cur = 1 \<and> \<not> (v_type e = ''click'' \<and> t_disabled T cur))
                   (takeWhile (\<lambda>n. n \<noteq> this) (t_path T (v_target e)))))
      else [])
     @ (if q_count q < length (q_list q) then [(this, drop (q_count q) (q_list q))] else [])"

definition dispatch :: "page \<Rightarrow> (string \<Rightarrow> special) \<Rightarrow> dom \<Rightarrow> nat \<Rightarrow> evt \<Rightarrow> evsys \<Rightarrow> evsys \<times> evt \<times> jserr option" where
  "dispatch page sp T elem e s =
     (let q = queue_at (case y_events s elem of None \<Rightarrow> [] | Some evs \<Rightarrow> evs) (v_type e);
          e1 = e\<lparr>v_delegateTarget := elem\<rparr>
      in run_queue page sp T (handlers_for T elem e1 q) e1 s)"

section \<open>Trigger\<close>

record native =
  w_type :: string
  w_target :: nat
  w_related :: "nat option"
  w_button :: nat
  w_defaultPrevented :: "bool option"
  w_returnFalse :: bool \<comment> \<open>returnValue is false\<close>

definition blank_event :: "string \<Rightarrow> nat \<Rightarrow> evt" where
  "blank_event t target =
     \<lparr>v_type = t, v_target = target, v_related = None, v_button = 0, v_namespace = [], v_rnamespace = None, v_stopped = False,
      v_immediate = False, v_prevented = False, v_result = JUndef, v_data = JUndef, v_handleObj = None, v_currentTarget = target,
      v_delegateTarget = target, v_isTrigger = 0\<rparr>"

definition jq_event :: "dom \<Rightarrow> native \<Rightarrow> evt" where
  \<comment> \<open>the event object for a native event; a text node is replaced by its parent\<close>
  "jq_event T w =
     (blank_event (w_type w) (if t_nodeType T (w_target w) = 3 then t_path T (w_target w) ! 1 else w_target w))
       \<lparr>v_related := w_related w, v_button := w_button w,
        v_prevented := (case w_defaultPrevented w of Some b \<Rightarrow> b | None \<Rightarrow> w_returnFalse w)\<rparr>"

definition focus_morph :: "string \<Rightarrow> bool" where
  "focus_morph t \<longleftrightarrow> t = ''focusinfocus'' \<or> t = ''focusoutblur''"

definition event_path :: "(string \<Rightarrow> special) \<Rightarrow> dom \<Rightarrow> nat \<Rightarrow> string \<Rightarrow> bool \<Rightarrow> nat list" where
  \<comment> \<open>the element, its ancestors and the window; with focus the element comes twice, for focusin as well\<close>
  "event_path sp T elem t onlyHandlers =
     (if onlyHandlers \<or> p_noBubble (sp t) \<or> elem = t_window T then [elem]
      else (let bubble = (if p_delegateType (sp t) \<noteq> [] then p_delegateType (sp t) else t);
                above = (if focus_morph (bubble @ t) then t_path T elem else tl (t_path T elem))
            in elem # above @ (if last (elem # above) = t_document T then [t_window T] else [])))"

definition has_handlers :: "evsys \<Rightarrow> nat \<Rightarrow> string \<Rightarrow> bool" where
  "has_handlers s elem t \<longleftrightarrow> (case y_events s elem of None \<Rightarrow> False | Some evs \<Rightarrow> obj_has t evs) \<and> y_handle s elem"

type_synonym native_fn = "string \<Rightarrow> nat \<Rightarrow> evt \<Rightarrow> evsys \<Rightarrow> (evsys \<times> evt \<times> jsval) option"

definition fire_at :: "page \<Rightarrow> native_fn \<Rightarrow> (string \<Rightarrow> special) \<Rightarrow> dom \<Rightarrow> string \<Rightarrow> nat \<Rightarrow> evt \<Rightarrow> evsys \<Rightarrow> evsys \<times> evt \<times> jserr option" where
  \<comment> \<open>the handlers of jQuery at a node, unless the type is being triggered already, then its attribute on + ty\<close>
  "fire_at page on_attr sp T ty cur e s =
     (case (if has_handlers s cur (v_type e) \<and> y_triggered s \<noteq> Some (v_type e) then dispatch page sp T cur e s else (s, e, None)) of
        (s1, e1, Some x) \<Rightarrow> (s1, e1, Some x)
      | (s1, e1, None) \<Rightarrow>
          (if CHR '':'' \<in> set ty \<or> \<not> t_accepts T cur then (s1, e1, None)
           else (case on_attr ty cur e1 s1 of
                   None \<Rightarrow> (s1, e1, None)
                 | Some (s2, e2, v) \<Rightarrow>
                     (s2, if v = JBool False then preventDefault (e2\<lparr>v_result := v\<rparr>) else e2\<lparr>v_result := v\<rparr>, None))))"

fun fire_path :: "page \<Rightarrow> native_fn \<Rightarrow> (string \<Rightarrow> special) \<Rightarrow> dom \<Rightarrow> string \<Rightarrow> string \<Rightarrow> string \<Rightarrow> nat list \<Rightarrow> evt \<Rightarrow> evsys \<Rightarrow> evsys \<times> evt \<times> jserr option" where
  \<comment> \<open>the type at the first node, and the type at the others\<close>
  "fire_path page on_attr sp T ty t bubble [] e s = (s, e, None)"
| "fire_path page on_attr sp T ty t bubble (cur # cs) e s =
     (if v_stopped e then (s, e, None)
      else (case fire_at page on_attr sp T ty cur (e\<lparr>v_type := t\<rparr>) s of
              (s1, e1, Some x) \<Rightarrow> (s1, e1, Some x)
            | (s1, e1, None) \<Rightarrow> fire_path page on_attr sp T ty bubble bubble cs e1 s1))"

definition trigger_names :: "string \<Rightarrow> string list \<Rightarrow> string \<times> string list" where
  \<comment> \<open>type and namespaces, from a type with namespaces or from the event\<close>
  "trigger_names t names =
     (if CHR ''.'' \<in> set t then (hd (split_on (\<lambda>c. c = CHR ''.'') t), sort (tl (split_on (\<lambda>c. c = CHR ''.'') t))) else (t, names))"

definition prepare_event :: "nat \<Rightarrow> string \<Rightarrow> string list \<Rightarrow> bool \<Rightarrow> evt option \<Rightarrow> evt" where
  \<comment> \<open>a new event, or the one given, with its flags and namespaces\<close>
  "prepare_event elem t names onlyHandlers given =
     (let e = (case given of None \<Rightarrow> blank_event t elem | Some e \<Rightarrow> e);
          ns = join_with ''.'' names
      in e\<lparr>v_isTrigger := (if onlyHandlers then 2 else 3), v_namespace := ns,
           v_rnamespace := (if ns = [] then None else Some (ns_regex names)), v_result := JUndef\<rparr>)"

definition default_action :: "(nat \<Rightarrow> string \<Rightarrow> evsys \<Rightarrow> evsys option) \<Rightarrow> dom \<Rightarrow> nat \<Rightarrow> string \<Rightarrow> evsys \<Rightarrow> evsys" where
  \<comment> \<open>the method of the element with the name of the type, during which the type does not trigger again\<close>
  "default_action act T elem t s =
     (if t_default T t elem \<or> \<not> t_accepts T elem \<or> CHR '':'' \<in> set t \<or> elem = t_window T then s
      else (case act elem t (s\<lparr>y_triggered := Some t\<rparr>) of None \<Rightarrow> s | Some s' \<Rightarrow> s'\<lparr>y_triggered := None\<rparr>))"

definition trigger_event ::
  "page \<Rightarrow> native_fn \<Rightarrow> (nat \<Rightarrow> string \<Rightarrow> evsys \<Rightarrow> evsys option) \<Rightarrow> (string \<Rightarrow> special) \<Rightarrow> dom \<Rightarrow> nat \<Rightarrow> string \<Rightarrow> evt option \<Rightarrow> bool \<Rightarrow> evsys
    \<Rightarrow> evsys \<times> evt option \<times> jserr option" where
  \<comment> \<open>the event in the result is the one whose result is returned; None where trigger returns without one\<close>
  "trigger_event page on_attr act sp T elem tp given onlyHandlers s =
     (let t0 = (case given of None \<Rightarrow> tp | Some e \<Rightarrow> v_type e);
          names0 = (case given of None \<Rightarrow> [] | Some e \<Rightarrow> split_on (\<lambda>c. c = CHR ''.'') (v_namespace e));
          t = fst (trigger_names t0 names0)
      in if t_nodeType T elem = 3 \<or> t_nodeType T elem = 8
            \<or> focus_morph (t0 @ (case y_triggered s of None \<Rightarrow> ''undefined'' | Some u \<Rightarrow> u)) then (s, None, None)
         else (let e = prepare_event elem t (snd (trigger_names t0 names0)) onlyHandlers given
               in if \<not> onlyHandlers \<and> t_trigger T t elem
                  then (case act elem t s of None \<Rightarrow> s | Some s' \<Rightarrow> s', None, None)
                  else (let first = (if p_bindType (sp t) \<noteq> [] then p_bindType (sp t) else t);
                            bubble = (if p_delegateType (sp t) \<noteq> [] then p_delegateType (sp t) else t)
                        in case fire_path page on_attr sp T t first bubble (event_path sp T elem t onlyHandlers) e s of
                             (s1, e1, Some x) \<Rightarrow> (s1, Some e1, Some x)
                           | (s1, e1, None) \<Rightarrow>
                               (let e2 = e1\<lparr>v_type := t\<rparr>
                                in if onlyHandlers \<or> v_prevented e2 then (s1, Some e2, None)
                                   else (default_action act T elem t s1, Some e2, None)))))"

section \<open>The methods on, one and off\<close>

definition on_args :: "jsval \<Rightarrow> jsval \<Rightarrow> jsval \<Rightarrow> jsval \<times> jsval \<times> jsval" where
  \<comment> \<open>selector, data and function as they are meant\<close>
  "on_args selector data fn =
     (if no_value data \<and> no_value fn then (JUndef, JUndef, selector)
      else if no_value fn then
        (if typeof selector = ''string'' then (selector, JUndef, data) else (JUndef, selector, data))
      else (selector, data, fn))"

definition text_or_empty :: "jsval \<Rightarrow> string" where
  "text_or_empty v = (case v of JStr t \<Rightarrow> t | _ \<Rightarrow> [])"

definition handler_fn :: "jsval \<Rightarrow> nat option" where
  \<comment> \<open>handlers are functions, or false for returnFalse, which has the number 0\<close>
  "handler_fn v = (case v of JBool False \<Rightarrow> Some 0 | JFun f \<Rightarrow> Some (Suc f) | _ \<Rightarrow> None)"

fun add_each :: "(string \<Rightarrow> special) \<Rightarrow> dom \<Rightarrow> nat list \<Rightarrow> string \<Rightarrow> efn \<Rightarrow> jsval \<Rightarrow> string \<Rightarrow> evsys \<Rightarrow> evsys \<times> jserr option" where
  "add_each sp T [] types f data selector s = (s, None)"
| "add_each sp T (n # ns) types f data selector s =
     (case event_add sp T n types f data selector None s of
        (s', Some x) \<Rightarrow> (s', Some x)
      | (s', None) \<Rightarrow> add_each sp T ns types f data selector s')"

definition on_event :: "(string \<Rightarrow> special) \<Rightarrow> dom \<Rightarrow> nat list \<Rightarrow> string \<Rightarrow> jsval \<Rightarrow> jsval \<Rightarrow> jsval \<Rightarrow> bool \<Rightarrow> evsys \<Rightarrow> evsys \<times> jserr option" where
  "on_event sp T elems types selector data fn one s =
     (case on_args selector data fn of
        (selector', data', fn') \<Rightarrow>
          (case handler_fn fn' of
             None \<Rightarrow> (s, None)
           | Some f \<Rightarrow>
               if one then add_each sp T elems types (Once f) data' (text_or_empty selector') (fst (ensure_guid (Plain f) s))
               else add_each sp T elems types (Plain f) data' (text_or_empty selector') s))"

fun on_map :: "(string \<Rightarrow> special) \<Rightarrow> dom \<Rightarrow> nat list \<Rightarrow> jsval obj \<Rightarrow> jsval \<Rightarrow> jsval \<Rightarrow> bool \<Rightarrow> evsys \<Rightarrow> evsys \<times> jserr option" where
  \<comment> \<open>types given as an object\<close>
  "on_map sp T elems [] selector data one s = (s, None)"
| "on_map sp T elems (p # ps) selector data one s =
     (let data' = (if typeof selector \<noteq> ''string'' then js_or data selector else data);
          selector' = (if typeof selector \<noteq> ''string'' then JUndef else selector)
      in case on_event sp T elems (fst p) selector' data' (snd p) one s of
           (s', Some x) \<Rightarrow> (s', Some x)
         | (s', None) \<Rightarrow> on_map sp T elems ps selector' data' one s')"

definition off_types :: "(string \<Rightarrow> special) \<Rightarrow> nat list \<Rightarrow> string \<Rightarrow> jsval \<Rightarrow> jsval \<Rightarrow> evsys \<Rightarrow> evsys" where
  "off_types sp elems types selector fn s =
     (let swap = (selector = JBool False \<or> typeof selector = ''function'');
          fn' = (if swap then selector else fn);
          selector' = (if swap then JUndef else selector)
      in fold (\<lambda>n. event_remove sp n types (map_option Plain (handler_fn fn')) (text_or_empty selector')) elems s)"

definition cloneCopyEvent :: "(string \<Rightarrow> special) \<Rightarrow> dom \<Rightarrow> nat \<Rightarrow> nat \<Rightarrow> evsys \<Rightarrow> evsys \<times> jserr option" where
  \<comment> \<open>the events of one element bound to a copy of it; the other data are left out\<close>
  "cloneCopyEvent sp T src dest s =
     (if t_nodeType T dest \<noteq> 1 then (s, None)
      else (case y_events s src of
              None \<Rightarrow> (s, None)
            | Some evs \<Rightarrow>
                fold (\<lambda>(t, h) (s', x). if x = None then event_add sp T dest t (o_handler h) JUndef [] (Some h) s' else (s', x))
                  (concat (map (\<lambda>p. map (\<lambda>h. (fst p, h)) (q_list (snd p))) evs))
                  (s\<lparr>y_events := (y_events s)(dest := Some []), y_handle := (y_handle s)(dest := False)\<rparr>, None)))"

end
