(* ===== verification/EventLaws.thy ===== *)
theory EventLaws
  imports JqEvents
begin

text \<open>
  What holds of the events of jQuery: the pattern of namespaces decides whether the names of an event
  are among the names of a handler; the queues of all elements keep their delegated handlers in front;
  removing is filtering; dispatch runs exactly the handlers that were chosen before the first of them.
\<close>

section \<open>Namespaces\<close>

definition dotless :: "string \<Rightarrow> bool" where
  "dotless n \<longleftrightarrow> list_all (\<lambda>c. c \<noteq> CHR ''.'' \<and> c \<noteq> CHR 0x0A \<and> c \<noteq> CHR 0x0D) n"

abbreviation dotted :: "string list \<Rightarrow> string" where
  "dotted \<equiv> join_with ''.''"

lemma code_unit_range: "code_unit a \<le> code_unit c \<and> code_unit c \<le> code_unit a \<longleftrightarrow> c = a"
  using code_unit_eq_iff by force

lemma mat_lit [simp]: "mat False (lit a) p u n \<longleftrightarrow> u = [a]"
  by (auto simp: lit_def cls_match_def code_unit_range)

lemma mat_lits [simp]: "mat False (lits w r) p u n \<longleftrightarrow> (\<exists>v. u = w @ v \<and> mat False r (prv p w) v n)"
  by (induction w arbitrary: p u) auto

lemma mat_dots: "mat False any_dot p u n \<longleftrightarrow> u = [] \<or> (\<exists>v. u = v @ ''.'' \<and> list_all (\<lambda>c. c \<noteq> CHR 0x0A \<and> c \<noteq> CHR 0x0D) v)"
proof -
  have c: "cls_match False True [CRange 10 10, CRange 13 13] c \<longleftrightarrow> c \<noteq> CHR 0x0A \<and> c \<noteq> CHR 0x0D" for c
    using code_unit_range [of "CHR 0x0A" c] code_unit_range [of "CHR 0x0D" c]
    by (auto simp: cls_match_def code_unit_def)
  have "mstar (mat False (ECls True [CRange 10 10, CRange 13 13])) p v n \<longleftrightarrow> list_all (\<lambda>c. c \<noteq> CHR 0x0A \<and> c \<noteq> CHR 0x0D) v" for p v n
    by (induction v arbitrary: p) (auto simp: mstar_Cons c intro: mstar_nil)
  then show ?thesis by (auto simp: any_dot_def)
qed

text \<open>The part of the pattern from the first name on does not look behind.\<close>

fun tail_fits :: "string list \<Rightarrow> string \<Rightarrow> bool" where
  \<comment> \<open>the names from the start of a text, as the pattern finds them\<close>
  "tail_fits [] s = False"
| "tail_fits [n] s = (\<exists>r. s = n @ r \<and> (r = [] \<or> hd r = CHR ''.''))"
| "tail_fits (n # m # ns) s = (\<exists>r. s = n @ CHR ''.'' # r \<and>
     (tail_fits (m # ns) r \<or> (\<exists>x y. r = x @ CHR ''.'' # y \<and> list_all (\<lambda>c. c \<noteq> CHR 0x0A \<and> c \<noteq> CHR 0x0D) x \<and> tail_fits (m # ns) y)))"

lemma mat_ESeq_iff: "mat False (ESeq (lit a) r) p u n \<longleftrightarrow> (\<exists>v. u = a # v \<and> mat False r (Some a) v n)"
  by auto

lemma mat_ns_step: "mat False (ns_tail (n # m # ns)) p v N \<longleftrightarrow>
  (\<exists>a b. v = n @ CHR ''.'' # a @ b \<and> mat False any_dot (Some CHR ''.'') a (nxt b N) \<and> mat False (ns_tail (m # ns)) (prv (Some CHR ''.'') a) b N)"
  unfolding ns_tail.simps(3) mat_lits mat_ESeq_iff mat.simps(3) [of _ any_dot] by blast

lemma mat_ns_tail: "ns \<noteq> [] \<Longrightarrow> (\<exists>v w. s = v @ w \<and> mat False (ns_tail ns) p v (nxt w None)) \<longleftrightarrow> tail_fits ns s"
proof (induction ns s arbitrary: p rule: tail_fits.induct)
  case (2 n s)
  show ?case
  proof
    assume "\<exists>v w. s = v @ w \<and> mat False (ns_tail [n]) p v (nxt w None)"
    then obtain v w where "s = v @ w" "mat False (ns_tail [n]) p v (nxt w None)" by blast
    then show "tail_fits [n] s" by (cases w) auto
  next
    assume "tail_fits [n] s"
    then obtain r where r: "s = n @ r" "r = [] \<or> hd r = CHR ''.''" by auto
    show "\<exists>v w. s = v @ w \<and> mat False (ns_tail [n]) p v (nxt w None)"
    proof (cases r)
      case Nil
      then show ?thesis using r by (intro exI [of _ n] exI [of _ "[]"]) simp
    next
      case (Cons c r')
      then show ?thesis using r by (intro exI [of _ "n @ ''.''"] exI [of _ r']) simp
    qed
  qed
next
  case (3 n m ns s)
  let ?T = "ns_tail (m # ns)"
  have ih: "(\<exists>v w. r = v @ w \<and> mat False ?T q v (nxt w None)) \<longleftrightarrow> tail_fits (m # ns) r" for r q
    using 3 by (cases "r = s") auto
  show ?case
  proof
    assume "\<exists>v w. s = v @ w \<and> mat False (ns_tail (n # m # ns)) p v (nxt w None)"
    then obtain a b w q N where s: "s = n @ CHR ''.'' # a @ b @ w" and a: "mat False any_dot (Some CHR ''.'') a N"
      and b: "mat False ?T q b (nxt w None)" unfolding mat_ns_step by force
    have t: "tail_fits (m # ns) (b @ w)" using b ih [of "b @ w" q] by blast
    show "tail_fits (n # m # ns) s" using a t s by (auto simp: mat_dots)
  next
    assume "tail_fits (n # m # ns) s"
    then obtain r where s: "s = n @ CHR ''.'' # r" and r: "tail_fits (m # ns) r \<or>
      (\<exists>x y. r = x @ CHR ''.'' # y \<and> list_all (\<lambda>c. c \<noteq> CHR 0x0A \<and> c \<noteq> CHR 0x0D) x \<and> tail_fits (m # ns) y)" by auto
    then obtain a y where ay: "r = a @ y" "tail_fits (m # ns) y" and a: "\<And>p n. mat False any_dot p a n"
    proof -
      from r consider "tail_fits (m # ns) r" | x y where "r = x @ CHR ''.'' # y" "list_all (\<lambda>c. c \<noteq> CHR 0x0A \<and> c \<noteq> CHR 0x0D) x" "tail_fits (m # ns) y" by blast
      then show thesis
      proof cases
        case 1
        then show ?thesis using that [of "[]" r] by (simp add: mat_dots)
      next
        case (2 x y)
        then show ?thesis using that [of "x @ ''.''" y] by (simp add: mat_dots)
      qed
    qed
    obtain b w where yb: "y = b @ w" and "mat False ?T (prv (Some CHR ''.'') a) b (nxt w None)"
      using ih [of y "prv (Some CHR ''.'') a"] ay(2) by blast
    with a have "mat False (ns_tail (n # m # ns)) p (n @ CHR ''.'' # a @ b) (nxt w None)" unfolding mat_ns_step by blast
    moreover have "s = (n @ CHR ''.'' # a @ b) @ w" using s ay(1) yb by simp
    ultimately show "\<exists>v w. s = v @ w \<and> mat False (ns_tail (n # m # ns)) p v (nxt w None)" by blast
  qed
qed simp

lemma mat_ns_regex: "mat False (ns_regex ns) q v N \<longleftrightarrow>
  (q = None \<and> mat False (ns_tail ns) q v N) \<or> (\<exists>v'. v = CHR ''.'' # v' \<and> mat False (ns_tail ns) (Some CHR ''.'') v' N)"
proof -
  have "mat False (ns_regex ns) q v N \<longleftrightarrow>
    (\<exists>x w. v = x @ w \<and> (x = [] \<and> q = None \<or> x = ''.'') \<and> mat False (ns_tail ns) (prv q x) w N)"
    unfolding ns_regex_def mat.simps mat_lit by blast
  also have "\<dots> \<longleftrightarrow> (q = None \<and> mat False (ns_tail ns) q v N) \<or> (\<exists>v'. v = CHR ''.'' # v' \<and> mat False (ns_tail ns) (Some CHR ''.'') v' N)"
  proof
    assume "(q = None \<and> mat False (ns_tail ns) q v N) \<or> (\<exists>v'. v = CHR ''.'' # v' \<and> mat False (ns_tail ns) (Some CHR ''.'') v' N)"
    then consider "q = None" "mat False (ns_tail ns) q v N" | v' where "v = CHR ''.'' # v'" "mat False (ns_tail ns) (Some CHR ''.'') v' N" by blast
    then show "\<exists>x w. v = x @ w \<and> (x = [] \<and> q = None \<or> x = ''.'') \<and> mat False (ns_tail ns) (prv q x) w N"
    proof cases
      case 1
      then show ?thesis by (intro exI [of _ "[]"] exI [of _ v]) simp
    next
      case (2 v')
      then show ?thesis by (intro exI [of _ "''.''"] exI [of _ v']) (simp add: prv_def)
    qed
  qed (auto simp: prv_def)
  finally show ?thesis .
qed

lemma re_test_ns:
  assumes n: "ns \<noteq> []"
  shows "re_test False (ns_regex ns) s \<longleftrightarrow> tail_fits ns s \<or> (\<exists>x y. s = x @ CHR ''.'' # y \<and> tail_fits ns y)"
proof
  assume "re_test False (ns_regex ns) s"
  then obtain u v w where s: "s = u @ v @ w" and m: "mat False (ns_regex ns) (prv None u) v (nxt w None)" unfolding re_test_iff by blast
  from m consider "u = []" "mat False (ns_tail ns) None v (nxt w None)" | v' where "v = CHR ''.'' # v'" "mat False (ns_tail ns) (Some CHR ''.'') v' (nxt w None)"
    unfolding mat_ns_regex by (auto simp: prv_def split: if_splits)
  then show "tail_fits ns s \<or> (\<exists>x y. s = x @ CHR ''.'' # y \<and> tail_fits ns y)"
  proof cases
    case 1
    then have "tail_fits ns s" using s mat_ns_tail [OF n, of s None] by auto
    then show ?thesis ..
  next
    case (2 v')
    then have "tail_fits ns (v' @ w)" using mat_ns_tail [OF n, of "v' @ w" "Some CHR ''.''"] by blast
    then show ?thesis using s 2(1) by auto
  qed
next
  assume "tail_fits ns s \<or> (\<exists>x y. s = x @ CHR ''.'' # y \<and> tail_fits ns y)"
  then show "re_test False (ns_regex ns) s"
  proof (elim disjE exE conjE)
    assume "tail_fits ns s"
    then obtain v w where "s = v @ w" "mat False (ns_tail ns) None v (nxt w None)" using mat_ns_tail [OF n, of s None] by blast
    then show ?thesis unfolding re_test_iff mat_ns_regex by (intro exI [of _ "[]"] exI [of _ v] exI [of _ w]) simp
  next
    fix x y assume s: "s = x @ CHR ''.'' # y" and "tail_fits ns y"
    then obtain v w where "y = v @ w" "mat False (ns_tail ns) (Some CHR ''.'') v (nxt w None)"
      using mat_ns_tail [OF n, of y "Some CHR ''.''"] by blast
    with s show ?thesis unfolding re_test_iff mat_ns_regex
      by (intro exI [of _ x] exI [of _ "CHR ''.'' # v"] exI [of _ w]) simp
  qed
qed

lemma dotless_split:
  assumes "dotless n" "dotless h" "n @ r = h @ r'" "r = [] \<or> hd r = CHR ''.''" "r' = [] \<or> hd r' = CHR ''.''"
  shows "n = h \<and> r = r'"
proof -
  have t: "takeWhile (\<lambda>c. c \<noteq> CHR ''.'') (x @ y) = x" if "dotless x" "y = [] \<or> hd y = CHR ''.''" for x y
    using that by (cases y) (auto simp: dotless_def list_all_iff takeWhile_append2 takeWhile_eq_all_conv [THEN iffD2])
  have "n = h" using t [OF assms(1,4)] t [OF assms(2,5)] assms(3) by metis
  with assms(3) show ?thesis by simp
qed

lemma dotted_Cons: "dotted (h # hs) = h @ (if hs = [] then [] else CHR ''.'' # dotted hs)"
  by (cases hs) simp_all

lemma after_dot: 
  assumes "list_all dotless hs" "dotted hs = x @ CHR ''.'' # y"
  shows "\<exists>us vs. hs = us @ vs \<and> us \<noteq> [] \<and> vs \<noteq> [] \<and> y = dotted vs"
  using assms
proof (induction hs arbitrary: x)
  case (Cons h hs)
  have h: "dotless h" using Cons.prems(1) by simp
  have hs: "hs \<noteq> []" using Cons.prems h by (cases hs) (auto simp: dotless_def list_all_iff)
  then have e: "h @ CHR ''.'' # dotted hs = x @ CHR ''.'' # y" using Cons.prems(2) by (simp add: dotted_Cons)
  show ?case
  proof (cases "dotless x")
    case True
    with dotless_split [OF h True e] have "y = dotted hs" by simp
    with hs show ?thesis by (intro exI [of _ "[h]"] exI [of _ hs]) simp
  next
    case False
    have "\<exists>x'. dotted hs = x' @ CHR ''.'' # y"
    proof (cases "length x \<le> length h")
      case True
      then have "x = take (length x) h" using e by (metis append_eq_append_conv_if append_take_drop_id)
      then have "dotless x" using h unfolding dotless_def by (metis append_take_drop_id list_all_append)
      with False show ?thesis by simp
    next
      case gt: False
      then obtain z where "x = h @ z" "z \<noteq> []" using e by (metis append_eq_append_conv2 append_Nil2 le_refl nat_le_linear length_append le_add1)
      with e show ?thesis by (cases z) auto
    qed
    then obtain x' where "dotted hs = x' @ CHR ''.'' # y" by blast
    from Cons.IH [OF _ this] Cons.prems(1) obtain us vs where "hs = us @ vs" "vs \<noteq> []" "y = dotted vs" by auto
    then show ?thesis by (intro exI [of _ "h # us"] exI [of _ vs]) simp
  qed
qed simp

definition ns_name :: "string \<Rightarrow> bool" where
  "ns_name n \<longleftrightarrow> n \<noteq> [] \<and> dotless n"

lemma subseq_Cons_iff: "subseq (m # ns) hs \<longleftrightarrow> (\<exists>us vs. hs = us @ m # vs \<and> subseq ns vs)"
proof
  assume "subseq (m # ns) hs"
  from list_emb_ConsD [OF this] show "\<exists>us vs. hs = us @ m # vs \<and> subseq ns vs" by blast
next
  assume "\<exists>us vs. hs = us @ m # vs \<and> subseq ns vs"
  then show "subseq (m # ns) hs" by (auto intro: list_emb_append2)
qed

lemma dotted_no_newline:
  assumes "list_all dotless hs" "dotted hs = x @ y"
  shows "list_all (\<lambda>c. c \<noteq> CHR 0x0A \<and> c \<noteq> CHR 0x0D) x"
proof -
  have "list_all (\<lambda>c. c \<noteq> CHR 0x0A \<and> c \<noteq> CHR 0x0D) (dotted hs)"
    using assms(1)
  proof (induction hs)
    case (Cons h hs)
    then have "list_all (\<lambda>c. c \<noteq> CHR 0x0A \<and> c \<noteq> CHR 0x0D) h" by (auto simp: dotless_def list_all_iff)
    with Cons show ?case unfolding dotted_Cons by simp
  qed simp
  with assms(2) show ?thesis by simp
qed

lemma dotted_before: "us \<noteq> [] \<Longrightarrow> vs \<noteq> [] \<Longrightarrow> dotted (us @ vs) = dotted us @ CHR ''.'' # dotted vs"
proof (induction us)
  case (Cons u us)
  then show ?case unfolding append_Cons dotted_Cons by simp
qed simp

lemma dotted_prefix:
  assumes "dotless h" "dotless n"
  shows "dotted (h # hs) = n @ r \<and> (r = [] \<or> hd r = CHR ''.'') \<longleftrightarrow> h = n \<and> r = (if hs = [] then [] else CHR ''.'' # dotted hs)"
  using dotless_split [OF assms, of "if hs = [] then [] else CHR ''.'' # dotted hs" r] unfolding dotted_Cons [of h hs] by auto

lemma tail_fits_dotted:
  assumes "list_all ns_name (n # ns)" "list_all ns_name hs"
  shows "tail_fits (n # ns) (dotted hs) \<longleftrightarrow> hs \<noteq> [] \<and> hd hs = n \<and> subseq ns (tl hs)"
  using assms
proof (induction ns arbitrary: n hs)
  case Nil
  then have n: "n \<noteq> []" "dotless n" by (auto simp: ns_name_def)
  show ?case
  proof (cases hs)
    case (Cons h hs')
    then have h: "dotless h" using Nil by (simp add: ns_name_def)
    show ?thesis unfolding tail_fits.simps Cons dotted_prefix [OF h n(2)] by simp
  qed (use n in auto)
next
  case (Cons m ns)
  then have n: "n \<noteq> []" "dotless n" and mns: "list_all ns_name (m # ns)" by (simp_all add: ns_name_def [of n])
  show ?case
  proof (cases hs)
    case (Cons h hs')
    then have h: "dotless h" and hs': "list_all ns_name hs'" using Cons.prems by (simp_all add: ns_name_def [of h])
    have dl: "list_all dotless hs'" using hs' by (auto simp: list_all_iff ns_name_def)
    have ih: "tail_fits (m # ns) (dotted vs) \<longleftrightarrow> vs \<noteq> [] \<and> hd vs = m \<and> subseq ns (tl vs)" if "list_all ns_name vs" for vs
      using Cons.IH [OF mns that] .
    have "tail_fits (n # m # ns) (dotted hs) \<longleftrightarrow> h = n \<and> hs' \<noteq> [] \<and>
        (tail_fits (m # ns) (dotted hs') \<or> (\<exists>x y. dotted hs' = x @ CHR ''.'' # y \<and> tail_fits (m # ns) y))"
    proof -
      have "(\<exists>r. dotted hs = n @ CHR ''.'' # r \<and> Q r) \<longleftrightarrow> h = n \<and> hs' \<noteq> [] \<and> Q (dotted hs')" for Q
      proof -
        have "dotted hs = n @ CHR ''.'' # r \<longleftrightarrow> h = n \<and> hs' \<noteq> [] \<and> r = dotted hs'" for r
          using dotted_prefix [OF h n(2), of hs' "CHR ''.'' # r"] unfolding Cons by (cases "hs' = []") simp_all
        then show ?thesis by simp
      qed
      moreover have "(\<exists>x y. dotted hs' = x @ CHR ''.'' # y \<and> list_all (\<lambda>c. c \<noteq> CHR 0x0A \<and> c \<noteq> CHR 0x0D) x \<and> tail_fits (m # ns) y)
          \<longleftrightarrow> (\<exists>x y. dotted hs' = x @ CHR ''.'' # y \<and> tail_fits (m # ns) y)"
        using dotted_no_newline [OF dl] by blast
      ultimately show ?thesis unfolding tail_fits.simps(3) by presburger
    qed
    also have "\<dots> \<longleftrightarrow> h = n \<and> subseq (m # ns) hs'"
    proof -
      have "tail_fits (m # ns) (dotted hs') \<or> (\<exists>x y. dotted hs' = x @ CHR ''.'' # y \<and> tail_fits (m # ns) y)
            \<longleftrightarrow> subseq (m # ns) hs'" (is "?l \<longleftrightarrow> _")
      proof
        assume ?l
        then obtain us vs where v: "hs' = us @ vs" "tail_fits (m # ns) (dotted vs)"
          using after_dot [OF dl] by (metis append_Nil)
        then have "vs \<noteq> [] \<and> hd vs = m \<and> subseq ns (tl vs)" using ih [of vs] hs' by simp
        then show "subseq (m # ns) hs'" using v(1) unfolding subseq_Cons_iff by (metis list.collapse)
      next
        assume "subseq (m # ns) hs'"
        then obtain us vs where v: "hs' = us @ m # vs" "subseq ns vs" unfolding subseq_Cons_iff by blast
        then have t: "tail_fits (m # ns) (dotted (m # vs))" using ih [of "m # vs"] hs' by simp
        show ?l
        proof (cases us)
          case Nil
          then show ?thesis using t v by simp
        next
          case (Cons a us')
          then show ?thesis using t v dotted_before [of us "m # vs"] by auto
        qed
      qed
      then show ?thesis by auto
    qed
    finally show ?thesis using Cons by auto
  qed (use n in auto)
qed

lemma ns_regex_subseq:
  assumes "ns \<noteq> []" "list_all ns_name ns" "list_all ns_name hs"
  shows "re_test False (ns_regex ns) (dotted hs) \<longleftrightarrow> subseq ns hs"
proof -
  obtain m ms where ns: "ns = m # ms" using assms(1) by (cases ns) auto
  have dl: "list_all dotless hs" using assms(3) by (auto simp: list_all_iff ns_name_def)
  note tf = tail_fits_dotted [OF assms(2) [unfolded ns]]
  show ?thesis
  proof
    assume "re_test False (ns_regex ns) (dotted hs)"
    then obtain us vs where v: "hs = us @ vs" "tail_fits ns (dotted vs)"
      using after_dot [OF dl] unfolding re_test_ns [OF assms(1)] by (metis append_Nil)
    then have "vs \<noteq> [] \<and> hd vs = m \<and> subseq ms (tl vs)" using tf [of vs] assms(3) ns by simp
    then show "subseq ns hs" using v(1) unfolding ns subseq_Cons_iff by (metis list.collapse)
  next
    assume "subseq ns hs"
    then obtain us vs where v: "hs = us @ m # vs" "subseq ms vs" unfolding ns subseq_Cons_iff by blast
    then have t: "tail_fits ns (dotted (m # vs))" using tf [of "m # vs"] assms(3) ns by simp
    show "re_test False (ns_regex ns) (dotted hs)"
    proof (cases us)
      case Nil
      then show ?thesis using t v unfolding re_test_ns [OF assms(1)] by simp
    next
      case (Cons a us')
      then show ?thesis using t v dotted_before [of us "m # vs"] unfolding re_test_ns [OF assms(1)] by auto
    qed
  qed
qed

section \<open>Queues\<close>

definition queue_ok :: "hqueue \<Rightarrow> bool" where
  \<comment> \<open>the delegated handlers stand in front, and are counted\<close>
  "queue_ok q \<longleftrightarrow> q_count q \<le> length (q_list q) \<and> list_all (\<lambda>h. o_selector h \<noteq> []) (take (q_count q) (q_list q))
     \<and> list_all (\<lambda>h. o_selector h = []) (drop (q_count q) (q_list q))"

lemma queue_ok_iff: "queue_ok q \<longleftrightarrow> (\<exists>ds bs. q = \<lparr>q_list = ds @ bs, q_count = length ds\<rparr> \<and>
    list_all (\<lambda>h. o_selector h \<noteq> []) ds \<and> list_all (\<lambda>h. o_selector h = []) bs)"
proof
  assume "queue_ok q"
  then show "\<exists>ds bs. q = \<lparr>q_list = ds @ bs, q_count = length ds\<rparr> \<and> list_all (\<lambda>h. o_selector h \<noteq> []) ds \<and> list_all (\<lambda>h. o_selector h = []) bs"
    by (intro exI [of _ "take (q_count q) (q_list q)"] exI [of _ "drop (q_count q) (q_list q)"]) (simp add: queue_ok_def)
qed (auto simp: queue_ok_def)

lemma queue_ok_new [simp]: "queue_ok new_queue"
  by (simp add: queue_ok_def new_queue_def)

lemma queue_ok_insert [simp]: "queue_ok q \<Longrightarrow> queue_ok (insert_handler h q)"
  by (auto simp: queue_ok_def insert_handler_def)

lemma set_insert_handler [simp]: "set (q_list (insert_handler h q)) = insert h (set (q_list q))"
proof -
  have "set (q_list q) = set (take (q_count q) (q_list q)) \<union> set (drop (q_count q) (q_list q))"
    by (metis append_take_drop_id set_append)
  then show ?thesis by (auto simp: insert_handler_def)
qed

lemma insert_handler_nonempty [simp]: "q_list (insert_handler h q) \<noteq> []"
  by (simp add: insert_handler_def)

lemma remove_matching_list: "j \<le> length (q_list q) \<Longrightarrow>
  q_list (remove_matching P j q) = filter (\<lambda>h. \<not> P h) (take j (q_list q)) @ drop j (q_list q)"
  by (induction P j q rule: remove_matching.induct) (auto simp: take_Suc_conv_app_nth Cons_nth_drop_Suc)

lemma remove_matching_filter [simp]: "q_list (remove_matching P (length (q_list q)) q) = filter (\<lambda>h. \<not> P h) (q_list q)"
  by (simp add: remove_matching_list)

lemma queue_ok_delete:
  assumes "queue_ok q" "j < length (q_list q)"
  shows "queue_ok \<lparr>q_list = take j (q_list q) @ drop (Suc j) (q_list q),
                   q_count = (if o_selector (q_list q ! j) \<noteq> [] then q_count q - 1 else q_count q)\<rparr>"
proof -
  obtain ds bs where q: "q = \<lparr>q_list = ds @ bs, q_count = length ds\<rparr>"
    and a: "list_all (\<lambda>h. o_selector h \<noteq> []) ds" "list_all (\<lambda>h. o_selector h = []) bs"
    using assms(1) unfolding queue_ok_iff by blast
  show ?thesis
  proof (cases "j < length ds")
    case True
    then have "o_selector (ds ! j) \<noteq> []" using a by (simp add: list_all_length)
    then show ?thesis using True q a unfolding queue_ok_iff
      by (intro exI [of _ "take j ds @ drop (Suc j) ds"] exI [of _ bs])
        (auto simp: nth_append list_all_iff dest: in_set_takeD in_set_dropD)
  next
    case False
    then have "o_selector (bs ! (j - length ds)) = []" using a assms(2) q by (simp add: list_all_length)
    then show ?thesis using False q a unfolding queue_ok_iff
      by (intro exI [of _ ds] exI [of _ "take (j - length ds) bs @ drop (Suc j - length ds) bs"])
        (auto simp: nth_append list_all_iff dest: in_set_takeD in_set_dropD)
  qed
qed

lemma queue_ok_remove: "queue_ok q \<Longrightarrow> j \<le> length (q_list q) \<Longrightarrow> queue_ok (remove_matching P j q)"
proof (induction P j q rule: remove_matching.induct)
  case (2 P j q)
  then show ?case using queue_ok_delete [of q j] by (simp add: Let_def)
qed simp

section \<open>The handlers of a page\<close>

definition known :: "evsys \<Rightarrow> handleObj \<Rightarrow> bool" where
  "known s h \<longleftrightarrow> y_guids s (fn_of (o_handler h)) = Some (o_guid h)"

definition entry_ok :: "(string \<Rightarrow> special) \<Rightarrow> evsys \<Rightarrow> nat \<Rightarrow> string \<Rightarrow> hqueue \<Rightarrow> bool" where
  \<comment> \<open>a queue is in order, not empty, fed by a listener of the node, and its handlers have the numbers of their functions\<close>
  "entry_ok sp s n ty q \<longleftrightarrow> queue_ok q \<and> q_list q \<noteq> [] \<and> (p_setup (sp ty) \<or> (n, ty) \<in> set (y_listeners s)) \<and> list_all (known s) (q_list q)"

definition guids_ok :: "evsys \<Rightarrow> bool" where
  "guids_ok s \<longleftrightarrow> (\<forall>f g. y_guids s f = Some g \<longrightarrow> g < y_guid s) \<and> inj_on (y_guids s) (dom (y_guids s))"

definition events_ok :: "(string \<Rightarrow> special) \<Rightarrow> evsys \<Rightarrow> bool" where
  "events_ok sp s \<longleftrightarrow> guids_ok s \<and> (\<forall>n evs. y_events s n = Some evs \<longrightarrow> obj_wf evs \<and>
     (\<forall>ty q. map_of evs ty = Some q \<longrightarrow> entry_ok sp s n ty q))"

definition ev_init :: "evsys \<Rightarrow> bool" where
  "ev_init s \<longleftrightarrow> (\<forall>n. y_events s n = None) \<and> (\<forall>f. y_guids s f = None)"

inductive ev_step :: "(string \<Rightarrow> special) \<Rightarrow> dom \<Rightarrow> evsys \<Rightarrow> evsys \<Rightarrow> bool" for sp T where
  bind: "ev_step sp T s (fst (event_add sp T n types f data selector None s))"
| unbind: "ev_step sp T s (event_remove sp n types f selector s)"
| copy: "ev_step sp T s (fst (cloneCopyEvent sp T src dest s))"
| numbered: "ev_step sp T s (fst (ensure_guid f s))"
| noted: "ev_step sp T s (s\<lparr>y_log := l, y_triggered := t\<rparr>)"

lemma events_okD: "events_ok sp s \<Longrightarrow> y_events s n = Some evs \<Longrightarrow> map_of evs ty = Some q \<Longrightarrow> entry_ok sp s n ty q"
  by (auto simp: events_ok_def)

lemma events_ok_wf: "events_ok sp s \<Longrightarrow> y_events s n = Some evs \<Longrightarrow> obj_wf evs"
  by (auto simp: events_ok_def)

lemma obj_wf_small [simp]: "obj_wf []" "obj_wf [p]"
  by (simp_all add: obj_wf_def)

lemma guids_ok_ensure: "guids_ok s \<Longrightarrow> guids_ok (fst (ensure_guid f s))"
  by (force simp: guids_ok_def ensure_guid_def inj_on_def dom_def less_Suc_eq split: option.splits)

lemma ensure_guid_known: "y_guids (fst (ensure_guid f s)) (fn_of f) = Some (snd (ensure_guid f s))"
  by (simp add: ensure_guid_def split: option.splits)

lemma ensure_guid_keeps: "y_guids s g = Some n \<Longrightarrow> y_guids (fst (ensure_guid f s)) g = Some n"
  by (auto simp: ensure_guid_def split: option.splits)

lemma ensure_guid_frame [simp]:
  "y_events (fst (ensure_guid f s)) = y_events s" "y_listeners (fst (ensure_guid f s)) = y_listeners s"
  "y_handle (fst (ensure_guid f s)) = y_handle s" "y_log (fst (ensure_guid f s)) = y_log s"
  by (simp_all add: ensure_guid_def split: option.splits)

lemma events_ok_ensure:
  assumes "events_ok sp s"
  shows "events_ok sp (fst (ensure_guid f s))"
proof -
  have "known (fst (ensure_guid f s)) h" if "known s h" for h
    using that ensure_guid_keeps unfolding known_def by blast
  then show ?thesis using assms guids_ok_ensure [of s f]
    by (auto simp: events_ok_def entry_ok_def list_all_iff)
qed

definition good_args :: "evsys \<Rightarrow> efn \<Rightarrow> nat \<Rightarrow> handleObj option \<Rightarrow> bool" where
  "good_args s f guid given \<longleftrightarrow> (case given of None \<Rightarrow> y_guids s (fn_of f) = Some guid | Some h \<Rightarrow> known s h)"

lemma add_word_frame [simp]: "y_guids (add_word sp T elem f guid data selector given t s) = y_guids s"
  "y_guid (add_word sp T elem f guid data selector given t s) = y_guid s"
  by (simp_all add: add_word_def Let_def)

lemma good_args_add [simp]: "good_args (add_word sp T elem f guid data selector given t s) f' guid' given' = good_args s f' guid' given'"
  by (simp add: good_args_def known_def split: option.splits)

lemma entry_ok_queue_at: "events_ok sp s \<Longrightarrow> y_events s elem = Some evs \<Longrightarrow> queue_ok (queue_at evs ty) \<and> list_all (known s) (q_list (queue_at evs ty))"
  by (auto simp: queue_at_def new_queue_def entry_ok_def dest: events_okD split: option.splits)
    (simp_all add: queue_ok_def)

lemma add_word_ok:
  assumes "events_ok sp s" "good_args s f guid given"
  shows "events_ok sp (add_word sp T elem f guid data selector given t s)"
proof (cases "type_part t = []")
  case False
  define ty where "ty = bound_type sp selector (type_part t)"
  define evs where "evs = (case y_events s elem of None \<Rightarrow> [] | Some e \<Rightarrow> e)"
  let ?s' = "add_word sp T elem f guid data selector given t s"
  obtain h L where s': "?s' = s\<lparr>y_listeners := L, y_events := (y_events s)(elem := Some (obj_set ty (insert_handler h (queue_at evs ty)) evs))\<rparr>"
    and h: "known s h" and L: "set (y_listeners s) \<subseteq> set L" "map_of evs ty = None \<Longrightarrow> p_setup (sp ty) \<or> (elem, ty) \<in> set L"
  proof -
    define h where "h = (case given of Some h \<Rightarrow> h
         | None \<Rightarrow> \<lparr>o_type = ty, o_origType = type_part t, o_data = data, o_handler = f, o_guid = guid, o_selector = selector,
               o_needsContext = (selector \<noteq> [] \<and> t_context T selector), o_namespace = join_with ''.'' (namespaces_of t)\<rparr>)"
    define L where "L = (if map_of evs ty = None \<and> \<not> p_setup (sp ty) \<and> \<not> List.member (y_listeners s) (elem, ty)
       then y_listeners s @ [(elem, ty)] else y_listeners s)"
    have "known s h" using assms(2) by (auto simp: h_def good_args_def known_def split: option.splits)
    moreover have "?s' = s\<lparr>y_listeners := L, y_events := (y_events s)(elem := Some (obj_set ty (insert_handler h (queue_at evs ty)) evs))\<rparr>"
      using False by (simp add: add_word_def Let_def h_def L_def ty_def [symmetric] evs_def [symmetric])
    ultimately show thesis by (intro that [of h L]) (auto simp: L_def)
  qed
  have q: "queue_ok (queue_at evs ty) \<and> list_all (known s) (q_list (queue_at evs ty))"
  proof (cases "y_events s elem")
    case None
    then show ?thesis by (simp add: evs_def queue_at_def new_queue_def queue_ok_def)
  next
    case (Some e)
    then show ?thesis using entry_ok_queue_at [OF assms(1) Some] by (simp add: evs_def)
  qed
  have kn: "known ?s' = known s" by (simp add: fun_eq_iff known_def)
  have "entry_ok sp ?s' n k r" if "y_events ?s' n = Some es" "map_of es k = Some r" for n es k r
  proof (cases "n = elem \<and> k = ty")
    case True
    then have "es = obj_set ty (insert_handler h (queue_at evs ty)) evs" using that(1) unfolding s' by simp
    then have "r = insert_handler h (queue_at evs ty)" using that(2) True by simp
    moreover have "p_setup (sp ty) \<or> (elem, ty) \<in> set L"
    proof (cases "map_of evs ty")
      case (Some r')
      then show ?thesis using assms(1) L(1)
        by (cases "y_events s elem") (auto simp: evs_def entry_ok_def dest!: events_okD)
    qed (use L in simp)
    ultimately show ?thesis using True q h kn s' by (simp add: entry_ok_def list_all_iff)
  next
    case False
    then have "entry_ok sp s n k r" using that(2) that(1) [unfolded s', symmetric] assms(1)
      by (auto simp: evs_def split: if_splits option.splits dest: events_okD [OF _ sym] events_okD)
    then show ?thesis using kn L(1) s' by (auto simp: entry_ok_def)
  qed
  moreover have "obj_wf es" if "y_events ?s' n = Some es" for n es
    using that(1) [unfolded s', symmetric] events_ok_wf [OF assms(1)]
    by (auto simp: evs_def split: if_splits option.splits intro: obj_wf_set)
  ultimately show ?thesis using assms(1) by (simp add: events_ok_def guids_ok_def)
qed (use assms in \<open>simp add: add_word_def\<close>)

lemma fold_add_word_ok:
  "events_ok sp s \<Longrightarrow> good_args s f guid given \<Longrightarrow> events_ok sp (fold (add_word sp T elem f guid data selector given) ts s)"
  by (induction ts arbitrary: s) (simp_all add: add_word_ok)

lemma with_data_ok: "events_ok sp s \<Longrightarrow> events_ok sp (with_data elem s)"
  by (auto simp: events_ok_def with_data_def entry_ok_def guids_ok_def known_def list_all_iff split: if_splits option.splits)

lemma fold_add_word_frame [simp]: "y_guids (fold (add_word sp T elem f guid data selector given) ts s) = y_guids s"
  "y_guid (fold (add_word sp T elem f guid data selector given) ts s) = y_guid s"
  by (induction ts arbitrary: s) simp_all

lemma drop_data_ok: "events_ok sp s \<Longrightarrow> events_ok sp (s\<lparr>y_events := (y_events s)(elem := None), y_handle := H\<rparr>)"
  by (auto simp: events_ok_def entry_ok_def guids_ok_def known_def list_all_iff split: if_splits)

lemma event_add_cases:
  obtains x where "event_add sp T elem types f data selector given s = (s, Some x)"
  | s' s'' where "s' = with_data elem (fst (ensure_guid (case given of Some h \<Rightarrow> o_handler h | None \<Rightarrow> f) s))"
     "s'' = fold (add_word sp T elem (case given of Some h \<Rightarrow> o_handler h | None \<Rightarrow> f)
         (snd (ensure_guid (case given of Some h \<Rightarrow> o_handler h | None \<Rightarrow> f) s)) data
         (case given of Some h \<Rightarrow> o_selector h | None \<Rightarrow> selector) given) (rev (if html_words types = [] then [[]] else html_words types)) s'"
     "event_add sp T elem types f data selector given s =
        (if t_accepts T elem then s'' else s''\<lparr>y_events := (y_events s'')(elem := None), y_handle := (y_handle s'')(elem := False)\<rparr>, None)"
proof (cases "(case given of Some h \<Rightarrow> o_selector h | None \<Rightarrow> selector) \<noteq> [] \<and>
    \<not> t_selector T (case given of Some h \<Rightarrow> o_selector h | None \<Rightarrow> selector)")
  case True
  then show ?thesis by (intro that(1)) (simp add: event_add_def Let_def)
next
  case False
  then show ?thesis by (intro that(2) [OF refl refl]) (simp only: event_add_def Let_def case_prod_beta if_False)
qed

lemma event_add_ok:
  assumes "events_ok sp s" "case given of None \<Rightarrow> True | Some h \<Rightarrow> known s h"
  shows "events_ok sp (fst (event_add sp T elem types f data selector given s))"
proof (cases rule: event_add_cases [of sp T elem types f data selector given s])
  case (2 s' s'')
  let ?f = "case given of Some h \<Rightarrow> o_handler h | None \<Rightarrow> f"
  have "good_args s' ?f (snd (ensure_guid ?f s)) given"
    using assms(2) ensure_guid_known [of ?f s] ensure_guid_keeps [of s _ _ ?f] unfolding 2(1)
    by (auto simp: good_args_def known_def with_data_def split: option.splits)
  then have "events_ok sp s''" unfolding 2(2) using assms(1) by (intro fold_add_word_ok) (simp_all add: 2(1) with_data_ok events_ok_ensure)
  then show ?thesis using drop_data_ok unfolding 2(3) by simp
qed (use assms in simp)

lemma remove_word_ok:
  assumes "events_ok sp s"
  shows "events_ok sp (remove_word sp elem f selector mapped t s)"
proof (cases "y_events s elem")
  case (Some evs)
  define ty where "ty = bound_type sp selector (type_part t)"
  define q where "q = queue_at evs ty"
  define q' where "q' = remove_matching (to_remove s mapped t f selector) (length (q_list q)) q"
  let ?s' = "remove_word sp elem f selector mapped t s"
  have r: "?s' = (if q_list q \<noteq> [] \<and> q_list q' = [] then
       s\<lparr>y_events := (y_events s)(elem := Some (obj_del ty evs)),
         y_listeners := (if p_teardown (sp ty) then y_listeners s else filter (\<lambda>l. l \<noteq> (elem, ty)) (y_listeners s))\<rparr>
     else if map_of evs ty = None then s else s\<lparr>y_events := (y_events s)(elem := Some (obj_set ty q' evs))\<rparr>)"
    unfolding remove_word_def Some by (simp add: Let_def ty_def q_def q'_def)
  have q: "queue_ok q" "list_all (known s) (q_list q)" using entry_ok_queue_at [OF assms Some] by (simp_all add: q_def)
  have q': "queue_ok q'" "list_all (known s) (q_list q')"
    using q by (auto simp: q'_def queue_ok_remove list_all_iff)
  consider "q_list q \<noteq> []" "q_list q' = []" | "map_of evs ty = None" "?s' = s" | r where "map_of evs ty = Some r" "q_list q = [] \<or> q_list q' \<noteq> []"
    using r by (cases "map_of evs ty") (auto simp: q_def queue_at_def new_queue_def)
  then show ?thesis
  proof cases
    case 1
    then show ?thesis using r assms Some
      by (auto simp: events_ok_def entry_ok_def guids_ok_def known_def list_all_iff obj_wf_set obj_wf_del split: if_splits)
  next
    case 3
    then have "entry_ok sp s elem ty r" "q = r" using events_okD [OF assms Some] by (simp_all add: q_def queue_at_def)
    with 3 have ne: "q_list q' \<noteq> []" and l: "p_setup (sp ty) \<or> (elem, ty) \<in> set (y_listeners s)" by (auto simp: entry_ok_def)
    then have "?s' = s\<lparr>y_events := (y_events s)(elem := Some (obj_set ty q' evs))\<rparr>" using r 3(1) by simp
    then show ?thesis using assms Some q' ne l
      by (auto simp: events_ok_def entry_ok_def guids_ok_def known_def list_all_iff obj_wf_set obj_wf_del split: if_splits)
  qed (use assms in simp)
qed (use assms in \<open>simp add: remove_word_def\<close>)

lemma drop_unused_ok: "events_ok sp s \<Longrightarrow> events_ok sp (drop_unused elem s)"
  using drop_data_ok by (simp add: drop_unused_def)

lemma fold_ok: "(\<And>x s. P s \<Longrightarrow> P (g x s)) \<Longrightarrow> P s \<Longrightarrow> P (fold g xs s)"
  by (induction xs arbitrary: s) auto

lemma event_remove_ok:
  assumes "events_ok sp s"
  shows "events_ok sp (event_remove sp elem types f selector s)"
proof -
  have "events_ok sp (remove_any sp elem f selector t s)" if "events_ok sp s" for t s
    using that by (auto simp: remove_any_def intro!: remove_word_ok drop_unused_ok fold_ok [of "events_ok sp"])
  then show ?thesis using assms by (auto simp: event_remove_def intro!: drop_unused_ok fold_ok [of "events_ok sp"])
qed

lemma event_add_keeps_known: "known s h \<Longrightarrow> known (fst (event_add sp T elem types f data selector given s)) h"
proof (cases rule: event_add_cases [of sp T elem types f data selector given s])
  case (2 s' s'')
  assume "known s h"
  then have "known s' h" unfolding 2(1) using ensure_guid_keeps by (simp add: known_def with_data_def)
  then have "known s'' h" by (simp add: 2(2) known_def)
  then show ?thesis by (simp add: 2(3) known_def)
qed simp

lemma cloneCopyEvent_ok:
  assumes "events_ok sp s"
  shows "events_ok sp (fst (cloneCopyEvent sp T src dest s))"
proof (cases "t_nodeType T dest \<noteq> 1 \<or> y_events s src = None")
  case False
  then obtain evs where evs: "y_events s src = Some evs" "t_nodeType T dest = 1" by auto
  define hs where "hs = concat (map (\<lambda>p. map (\<lambda>h. (fst p, h)) (q_list (snd p))) evs)"
  have kn: "known s (snd x)" if "x \<in> set hs" for x
  proof -
    from that have "\<exists>p\<in>set evs. snd x \<in> set (q_list (snd p))" by (auto simp: hs_def intro!: bexI)
    then obtain p where x: "p \<in> set evs" "snd x \<in> set (q_list (snd p))" by blast
    then have "map_of evs (fst p) = Some (snd p)" using events_ok_wf [OF assms evs(1)] by (auto simp: obj_wf_def)
    then show ?thesis using x(2) events_okD [OF assms evs(1)] by (auto simp: entry_ok_def list_all_iff)
  qed
  let ?g = "\<lambda>(t, h) (s', x). if x = None then event_add sp T dest t (o_handler h) JUndef [] (Some h) s' else (s', x)"
  have "events_ok sp (fst (fold ?g xs r))" if "list_all (\<lambda>x. known (fst r) (snd x)) xs" "events_ok sp (fst r)" for xs r
    using that
  proof (induction xs arbitrary: r)
    case (Cons x xs)
    obtain t h where x: "x = (t, h)" by (cases x)
    obtain s1 b where r: "r = (s1, b)" by (cases r)
    have "events_ok sp (fst (?g x r))" using Cons.prems event_add_ok [of sp s1 "Some h"] by (simp add: x r)
    moreover have "list_all (\<lambda>y. known (fst (?g x r)) (snd y)) xs"
      using Cons.prems event_add_keeps_known by (auto simp: x r list_all_iff)
    ultimately show ?case using Cons.IH by simp
  qed simp
  moreover have "events_ok sp (s\<lparr>y_events := (y_events s)(dest := Some []), y_handle := (y_handle s)(dest := False)\<rparr>)"
    using assms by (auto simp: events_ok_def entry_ok_def guids_ok_def known_def list_all_iff split: if_splits)
  ultimately have "events_ok sp (fst (fold ?g hs (s\<lparr>y_events := (y_events s)(dest := Some []), y_handle := (y_handle s)(dest := False)\<rparr>, None)))"
    using kn by (simp add: list_all_iff known_def)
  then show ?thesis using evs unfolding hs_def by (simp add: cloneCopyEvent_def)
qed (use assms in \<open>auto simp: cloneCopyEvent_def\<close>)

lemma ev_step_ok:
  assumes "events_ok sp s" "ev_step sp T s s'"
  shows "events_ok sp s'"
  using assms(2)
proof cases
  case (noted l t)
  then show ?thesis using assms(1) by (simp add: events_ok_def entry_ok_def guids_ok_def known_def [abs_def] list_all_iff)
qed (simp_all add: assms(1) event_add_ok event_remove_ok cloneCopyEvent_ok events_ok_ensure)

interpretation handlers: inductive_invariant ev_init "ev_step sp T" "events_ok sp" for sp T
proof unfold_locales
  show "events_ok sp s" if "ev_init s" for s
    using that by (auto simp: ev_init_def events_ok_def guids_ok_def dom_def)
qed (rule ev_step_ok)

section \<open>Dispatch\<close>

definition page_steps :: "(string \<Rightarrow> special) \<Rightarrow> dom \<Rightarrow> page \<Rightarrow> bool" where
  \<comment> \<open>the functions of the page reach the events through the operations of the library\<close>
  "page_steps sp T page \<longleftrightarrow> (\<forall>f elem e s. (ev_step sp T)\<^sup>*\<^sup>* s (fst (page f elem e s)))"

lemma noted_steps: "(ev_step sp T)\<^sup>*\<^sup>* (s\<lparr>y_log := l\<rparr>) s' \<Longrightarrow> (ev_step sp T)\<^sup>*\<^sup>* s s'"
  using converse_rtranclp_into_rtranclp [of "ev_step sp T" s "s\<lparr>y_log := l\<rparr>" s'] ev_step.noted [of sp T s "y_triggered s" l] by simp

lemma call_handler_steps: "page_steps sp T page \<Longrightarrow> (ev_step sp T)\<^sup>*\<^sup>* s (fst (call_handler page sp elem h e s))"
proof -
  assume p: "page_steps sp T page"
  have "(ev_step sp T)\<^sup>*\<^sup>* r (fst (page f elem e (off_event sp e r)))" for f r
  proof -
    have "(ev_step sp T)\<^sup>*\<^sup>* r (off_event sp e r)"
      by (auto simp: off_event_def intro: r_into_rtranclp ev_step.unbind split: option.splits)
    with p show ?thesis unfolding page_steps_def by (meson rtranclp_trans)
  qed
  moreover have "(ev_step sp T)\<^sup>*\<^sup>* r (fst (page f elem e r))" for f r using p unfolding page_steps_def by blast
  ultimately show ?thesis by (intro noted_steps [where s = s and l = "y_log s @ [(elem, h)]"]) (cases "o_handler h"; simp add: call_handler_def)
qed

lemma invoke_steps: "page_steps sp T page \<Longrightarrow> (ev_step sp T)\<^sup>*\<^sup>* s (fst (invoke page sp T elem h e s))"
proof -
  assume "page_steps sp T page"
  then have c: "(ev_step sp T)\<^sup>*\<^sup>* s (fst (call_handler page sp elem h e s))" for e by (rule call_handler_steps)
  have "fst (invoke page sp T elem h e s) \<in> {s, fst (call_handler page sp elem h e s), fst (call_handler page sp elem h (e\<lparr>v_type := o_origType h\<rparr>) s)}"
    by (simp add: invoke_def split: option.split prod.split sum.split)
  then show ?thesis using c by auto
qed

lemma run_handlers_steps: "page_steps sp T page \<Longrightarrow> (ev_step sp T)\<^sup>*\<^sup>* s (fst (run_handlers page sp T elem hs e s))"
proof (induction hs arbitrary: e s)
  case (Cons h hs)
  obtain s' e' v where i: "invoke page sp T elem h (e\<lparr>v_handleObj := Some h, v_data := o_data h\<rparr>) s = (s', e', v)" by (metis prod_cases3)
  have "(ev_step sp T)\<^sup>*\<^sup>* s s'" using invoke_steps [OF Cons.prems] i by (metis fst_conv)
  then show ?case using Cons by (auto simp: i split: sum.splits intro: rtranclp_trans)
qed simp

lemma run_queue_steps: "page_steps sp T page \<Longrightarrow> (ev_step sp T)\<^sup>*\<^sup>* s (fst (run_queue page sp T ms e s))"
proof (induction ms arbitrary: e s)
  case (Cons m ms)
  obtain s' e' v where i: "run_handlers page sp T (fst m) (snd m) (e\<lparr>v_currentTarget := fst m\<rparr>) s = (s', e', v)" by (metis prod_cases3)
  have "(ev_step sp T)\<^sup>*\<^sup>* s s'" using run_handlers_steps [OF Cons.prems] i by (metis fst_conv)
  then show ?case using Cons by (auto simp: i split: option.splits intro: rtranclp_trans)
qed simp

lemma dispatch_steps: "page_steps sp T page \<Longrightarrow> (ev_step sp T)\<^sup>*\<^sup>* s (fst (dispatch page sp T elem e s))"
  unfolding dispatch_def Let_def by (rule run_queue_steps)

text \<open>Whatever handlers bind and unbind while events are dispatched, the delegated handlers of every
  element stay in front of the others and are counted, no empty queue is kept, every queue has the listener
  that feeds it, a handler carries the number of its function, and no two functions share a number.\<close>

theorem handlers_in_order:
  assumes "reach ev_init (ev_step sp T) s" "page_steps sp T page"
    and "s' = fst (dispatch page sp T elem e s)" "y_events s' n = Some evs" "map_of evs ty = Some q"
  shows "queue_ok q \<and> q_list q \<noteq> [] \<and> (p_setup (sp ty) \<or> (n, ty) \<in> set (y_listeners s')) \<and> list_all (known s') (q_list q)
    \<and> inj_on (y_guids s') (dom (y_guids s'))"
proof -
  have "events_ok sp s'" using handlers.inv_steps [OF dispatch_steps [OF assms(2)] handlers.inv_reach [OF assms(1)]] assms(3) by simp
  then have "entry_ok sp s' n ty q" "guids_ok s'" using assms(4,5) by (auto simp: events_ok_def)
  then show ?thesis by (simp add: entry_ok_def guids_ok_def)
qed

text \<open>Which handlers run: those chosen for the event when dispatch starts, whatever the handlers do
  to the queues, up to the first node where one of them answers false.\<close>

definition answers :: "(nat \<Rightarrow> nat \<Rightarrow> jsval) \<Rightarrow> page \<Rightarrow> bool" where
  \<comment> \<open>the functions answer as given; they may bind and unbind, and do not dispatch events themselves\<close>
  "answers a page \<longleftrightarrow> (\<forall>f n e s. snd (page f n e s) = (e, Inr (a f n)) \<and> y_log (fst (page f n e s)) = y_log s)"

definition runs :: "dom \<Rightarrow> evt \<Rightarrow> nat \<Rightarrow> handleObj \<Rightarrow> bool" where
  "runs T e n h \<longleftrightarrow> ns_fits e h \<and> (map_of hover_types (o_origType h) = None \<or> outside T n e)"

definition calls :: "dom \<Rightarrow> evt \<Rightarrow> nat \<times> handleObj list \<Rightarrow> (nat \<times> handleObj) list" where
  "calls T e m = map (Pair (fst m)) (filter (runs T e (fst m)) (snd m))"

definition says_false :: "(nat \<Rightarrow> nat \<Rightarrow> jsval) \<Rightarrow> nat \<times> handleObj \<Rightarrow> bool" where
  "says_false a c \<longleftrightarrow> a (fn_of (o_handler (snd c))) (fst c) = JBool False"

fun up_to :: "('a \<Rightarrow> bool) \<Rightarrow> 'a list \<Rightarrow> 'a list" where
  \<comment> \<open>a list to its first member with a property, inclusive\<close>
  "up_to P [] = []"
| "up_to P (x # xs) = x # (if P x then [] else up_to P xs)"

definition same_event :: "evt \<Rightarrow> evt \<Rightarrow> bool" where
  "same_event e e' \<longleftrightarrow> v_rnamespace e' = v_rnamespace e \<and> v_related e' = v_related e \<and> v_immediate e' = v_immediate e"

lemma same_event_runs: "same_event e e' \<Longrightarrow> runs T e' = runs T e"
  by (simp add: same_event_def runs_def ns_fits_def outside_def fun_eq_iff)

lemma same_event_calls: "same_event e e' \<Longrightarrow> calls T e' = calls T e"
  by (rule ext) (simp add: calls_def same_event_runs)

lemma log_drop_unused [simp]: "y_log (drop_unused n s) = y_log s"
  by (simp add: drop_unused_def)

lemma log_remove_word [simp]: "y_log (remove_word sp n f sel m t s) = y_log s"
  by (simp add: remove_word_def Let_def split: option.splits)

lemma log_fold: "(\<And>x s. y_log (g x s) = y_log s) \<Longrightarrow> y_log (fold g xs s) = y_log s"
  by (induction xs arbitrary: s) auto

lemma log_event_remove [simp]: "y_log (event_remove sp n t f sel s) = y_log s"
proof -
  have "y_log (remove_any sp n f sel t s) = y_log s" for t s
    by (simp add: remove_any_def log_fold)
  then show ?thesis by (simp add: event_remove_def log_fold)
qed

lemma log_off_event [simp]: "y_log (off_event sp e s) = y_log s"
  by (simp add: off_event_def split: option.splits)

lemma call_handler_answers:
  assumes "answers a page"
  shows "\<exists>s'. call_handler page sp n h e s = (s', e, Inr (a (fn_of (o_handler h)) n)) \<and> y_log s' = y_log s @ [(n, h)]"
proof -
  have "\<exists>s'. page f n e r = (s', e, Inr (a f n)) \<and> y_log s' = y_log r" for f r
    using assms unfolding answers_def by (metis prod.collapse)
  then show ?thesis
    by (cases "o_handler h") (force simp: call_handler_def)+
qed

lemma invoke_answers:
  assumes "answers a page"
  shows "\<exists>s' t. invoke page sp T n h e s =
     (s', e\<lparr>v_type := t\<rparr>, Inr (if map_of hover_types (o_origType h) = None \<or> outside T n e then a (fn_of (o_handler h)) n else JUndef))
     \<and> y_log s' = y_log s @ (if map_of hover_types (o_origType h) = None \<or> outside T n e then [(n, h)] else [])"
proof (cases "map_of hover_types (o_origType h)")
  case None
  then show ?thesis using call_handler_answers [OF assms, of sp n h e s] by (force simp: invoke_def intro: exI [of _ "v_type e"])
next
  case (Some ft)
  show ?thesis
  proof (cases "outside T n e")
    case True
    then show ?thesis using Some call_handler_answers [OF assms, of sp n h "e\<lparr>v_type := o_origType h\<rparr>" s]
      by (force simp: invoke_def)
  qed (use Some in \<open>force simp: invoke_def intro: exI [of _ "v_type e"]\<close>)
qed

lemma run_handlers_answers:
  assumes "answers a page" "\<not> v_immediate e"
  shows "\<exists>s' e'. run_handlers page sp T n hs e s = (s', e', None) \<and> y_log s' = y_log s @ calls T e (n, hs) \<and> same_event e e'
     \<and> (v_stopped e' \<longleftrightarrow> v_stopped e \<or> list_ex (says_false a) (calls T e (n, hs)))
     \<and> (v_prevented e' \<longleftrightarrow> v_prevented e \<or> list_ex (says_false a) (calls T e (n, hs)))"
  using assms(2)
proof (induction hs arbitrary: e s)
  case (Cons h hs)
  show ?case
  proof (cases "ns_fits e h")
    case False
    then show ?thesis using Cons by (simp add: calls_def runs_def)
  next
    case True
    let ?e = "e\<lparr>v_handleObj := Some h, v_data := o_data h\<rparr>"
    let ?v = "if runs T e n h then a (fn_of (o_handler h)) n else JUndef"
    have r: "(map_of hover_types (o_origType h) = None \<or> outside T n ?e) = runs T e n h" using True by (simp add: runs_def outside_def)
    obtain s1 t where i: "invoke page sp T n h ?e s = (s1, ?e\<lparr>v_type := t\<rparr>, Inr ?v)"
      and l: "y_log s1 = y_log s @ (if runs T e n h then [(n, h)] else [])"
      using invoke_answers [OF assms(1), of sp T n h ?e s] unfolding r by blast
    let ?e1 = "after_handler ?v (?e\<lparr>v_type := t\<rparr>)"
    have e1: "same_event e ?e1" "\<not> v_immediate ?e1" "v_stopped ?e1 \<longleftrightarrow> v_stopped e \<or> ?v = JBool False"
      "v_prevented ?e1 \<longleftrightarrow> v_prevented e \<or> ?v = JBool False"
      using Cons.prems by (simp_all add: same_event_def after_handler_def stopPropagation_def preventDefault_def)
    have c: "calls T ?e1 m = calls T e m" for m using same_event_calls [OF e1(1)] by simp
    have m: "list_ex (says_false a) (calls T e (n, h # hs)) \<longleftrightarrow> ?v = JBool False \<or> list_ex (says_false a) (calls T e (n, hs))"
      by (simp add: calls_def says_false_def)
    have "calls T e (n, h # hs) = (if runs T e n h then [(n, h)] else []) @ calls T e (n, hs)" by (simp add: calls_def)
    moreover obtain s' e' where "run_handlers page sp T n hs ?e1 s1 = (s', e', None)" "y_log s' = y_log s1 @ calls T e (n, hs)" "same_event ?e1 e'"
      "v_stopped e' \<longleftrightarrow> v_stopped ?e1 \<or> list_ex (says_false a) (calls T e (n, hs))"
      "v_prevented e' \<longleftrightarrow> v_prevented ?e1 \<or> list_ex (says_false a) (calls T e (n, hs))"
      using Cons.IH [OF e1(2), of s1] unfolding c by blast
    moreover have "run_handlers page sp T n (h # hs) e s = run_handlers page sp T n hs ?e1 s1" using True Cons.prems by (simp add: i)
    ultimately show ?thesis using e1 l m by (intro exI [of _ s'] exI [of _ e']) (auto simp: same_event_def)
  qed
qed (simp add: calls_def same_event_def)

lemma run_queue_answers:
  assumes "answers a page" "\<not> v_immediate e" "\<not> v_stopped e"
  shows "\<exists>s' e'. run_queue page sp T ms e s = (s', e', None)
     \<and> y_log s' = y_log s @ concat (map (calls T e) (up_to (\<lambda>m. list_ex (says_false a) (calls T e m)) ms))
     \<and> (v_prevented e' \<longleftrightarrow> v_prevented e \<or> list_ex (\<lambda>m. list_ex (says_false a) (calls T e m)) ms)"
  using assms(2,3)
proof (induction ms arbitrary: e s)
  case (Cons m ms)
  let ?e = "e\<lparr>v_currentTarget := fst m\<rparr>"
  have ce: "calls T ?e = calls T e" by (rule same_event_calls) (simp add: same_event_def)
  obtain s1 e1 where i: "run_handlers page sp T (fst m) (snd m) ?e s = (s1, e1, None)"
    and l: "y_log s1 = y_log s @ calls T e m" and e1: "same_event ?e e1"
    and st: "v_stopped e1 \<longleftrightarrow> list_ex (says_false a) (calls T e m)"
    and pr: "v_prevented e1 \<longleftrightarrow> v_prevented e \<or> list_ex (says_false a) (calls T e m)"
    using run_handlers_answers [OF assms(1), of ?e sp T "fst m" "snd m" s] Cons.prems unfolding ce by auto
  have c1: "calls T e1 = calls T e" using same_event_calls [OF e1] ce by simp
  show ?case
  proof (cases "v_stopped e1")
    case True
    then have "run_queue page sp T (m # ms) e s = (s1, e1, None)" using Cons.prems i by (cases ms) simp_all
    then show ?thesis using True l st pr by (intro exI [of _ s1] exI [of _ e1]) simp
  next
    case False
    then obtain s' e' where "run_queue page sp T ms e1 s1 = (s', e', None)"
      "y_log s' = y_log s1 @ concat (map (calls T e) (up_to (\<lambda>m. list_ex (says_false a) (calls T e m)) ms))"
      "v_prevented e' \<longleftrightarrow> v_prevented e1 \<or> list_ex (\<lambda>m. list_ex (says_false a) (calls T e m)) ms"
      using Cons.IH [of e1 s1] Cons.prems e1 unfolding c1 by (auto simp: same_event_def)
    then show ?thesis using False Cons.prems i l st pr by (intro exI [of _ s'] exI [of _ e']) simp
  qed
qed simp

definition queue_of :: "evsys \<Rightarrow> nat \<Rightarrow> string \<Rightarrow> hqueue" where
  "queue_of s elem t = queue_at (case y_events s elem of None \<Rightarrow> [] | Some evs \<Rightarrow> evs) t"

definition expected_calls :: "(nat \<Rightarrow> nat \<Rightarrow> jsval) \<Rightarrow> dom \<Rightarrow> nat \<Rightarrow> evt \<Rightarrow> hqueue \<Rightarrow> (nat \<times> handleObj) list" where
  \<comment> \<open>node by node, to the first node where a handler answers false\<close>
  "expected_calls a T elem e q = concat (up_to (list_ex (says_false a)) (map (calls T e) (handlers_for T elem e q)))"

lemma up_to_map: "up_to P (map f xs) = map f (up_to (\<lambda>x. P (f x)) xs)"
  by (induction xs) simp_all


section \<open>Binding and unbinding\<close>

definition name_ok :: "string \<Rightarrow> bool" where
  "name_ok n \<longleftrightarrow> word_ok n \<and> CHR ''.'' \<notin> set n"

lemma name_ok_ns: "name_ok n \<Longrightarrow> ns_name n"
  by (auto simp: name_ok_def word_ok_def ns_name_def dotless_def html_white_def list_all_iff)

lemma list_all_name_ok_ns: "list_all name_ok ns \<Longrightarrow> list_all ns_name ns"
  by (auto simp: list_all_iff name_ok_ns)

definition type_word :: "string \<Rightarrow> string list \<Rightarrow> string" where
  "type_word t ns = (if ns = [] then t else t @ ''.'' @ dotted ns)"

lemma type_part_word: "name_ok t \<Longrightarrow> type_part (type_word t ns) = t"
proof -
  assume "name_ok t"
  then have "\<And>c. c \<in> set t \<Longrightarrow> c \<noteq> CHR ''.''" by (auto simp: name_ok_def)
  then show ?thesis by (simp add: type_part_def type_word_def takeWhile_append2 takeWhile_eq_all_conv)
qed

lemma namespace_part_word: "name_ok t \<Longrightarrow> namespace_part (type_word t ns) = dotted ns"
proof -
  assume "name_ok t"
  then have "\<And>c. c \<in> set t \<Longrightarrow> c \<noteq> CHR ''.''" by (auto simp: name_ok_def)
  then have d: "dropWhile (\<lambda>c. c \<noteq> CHR ''.'') t = []" "dropWhile (\<lambda>c. c \<noteq> CHR ''.'') (t @ r) = dropWhile (\<lambda>c. c \<noteq> CHR ''.'') r" for r
    by (simp, rule dropWhile_append2) blast
  show ?thesis unfolding namespace_part_def type_word_def by (cases "ns = []") (simp_all only: if_True if_False simp_thms d, simp_all)
qed

lemma namespaces_of_word: "name_ok t \<Longrightarrow> list_all name_ok ns \<Longrightarrow> sorted ns \<Longrightarrow> ns \<noteq> [] \<Longrightarrow> namespaces_of (type_word t ns) = ns"
  by (simp add: namespaces_of_def namespace_part_word split_on_join list_all_iff name_ok_def sorted_sort_id)

lemma dotted_chars: "c \<in> set (dotted ns) \<Longrightarrow> c = CHR ''.'' \<or> (\<exists>n\<in>set ns. c \<in> set n)"
  by (induction "''.''" ns rule: join_with.induct) auto

lemma html_words_type: 
  assumes "name_ok t" "list_all name_ok ns"
  shows "html_words (type_word t ns) = [type_word t ns]"
proof -
  have "\<not> html_white c" if "c \<in> set (type_word t ns)" for c
    using that assms dotted_chars [of c ns] by (fastforce simp: type_word_def name_ok_def word_ok_def list_all_iff html_white_def split: if_splits)
  moreover have "type_word t ns \<noteq> []" using assms by (auto simp: type_word_def name_ok_def word_ok_def)
  ultimately have "list_all word_ok [type_word t ns]" by (simp add: word_ok_def list_all_iff)
  from html_words_join [OF this] show ?thesis by simp
qed

lemma to_remove_self:
  assumes "name_ok (o_origType h)" "o_namespace h = dotted ns" "list_all name_ok ns" "sorted ns"
    and "y_guids s (fn_of f) = Some (o_guid h)"
  shows "to_remove s m (type_word (o_origType h) ns) (Some f) (o_selector h) h"
proof -
  have "dotted ns = [] \<or> re_test False (ns_regex (namespaces_of (type_word (o_origType h) ns))) (dotted ns)"
    using ns_regex_subseq [OF _ list_all_name_ok_ns list_all_name_ok_ns, of ns ns] assms
    by (cases "ns = []") (simp_all add: namespaces_of_word)
  then show ?thesis using assms by (simp add: to_remove_def type_part_word namespace_part_word)
qed

lemma queue_of_drop_unused [simp]: "queue_of (drop_unused n s) = queue_of s"
  by (auto simp: queue_of_def drop_unused_def queue_at_def fun_eq_iff)

lemma remove_all_nil [simp]: "q_list q = [] \<Longrightarrow> remove_matching P 0 q = q"
  by simp

lemma queue_of_remove_word:
  "q_list (queue_of (remove_word sp n f sel m t s) k ty) =
     (if k = n \<and> ty = bound_type sp sel (type_part t) then filter (\<lambda>h. \<not> to_remove s m t f sel h) (q_list (queue_of s k ty))
      else q_list (queue_of s k ty))"
proof (cases "y_events s n")
  case None
  then show ?thesis by (simp add: remove_word_def queue_of_def queue_at_def new_queue_def)
next
  case (Some evs)
  let ?k = "bound_type sp sel (type_part t)"
  let ?q = "queue_at evs ?k"
  let ?q' = "remove_matching (to_remove s m t f sel) (length (q_list ?q)) ?q"
  have q: "queue_of s n k' = queue_at evs k'" for k' using Some by (simp add: queue_of_def)
  consider "q_list ?q \<noteq> []" "q_list ?q' = []" | "q_list ?q = [] \<or> q_list ?q' \<noteq> []" "map_of evs ?k = None"
    | "q_list ?q = [] \<or> q_list ?q' \<noteq> []" "map_of evs ?k \<noteq> None" by blast
  then show ?thesis
  proof cases
    case 1
    then show ?thesis using Some remove_matching_filter [of "to_remove s m t f sel" ?q] unfolding remove_word_def q
      by (auto simp: Let_def queue_of_def queue_at_def new_queue_def simp del: remove_matching_filter)
  next
    case 2
    then have "remove_word sp n f sel m t s = s" using Some by (auto simp: remove_word_def Let_def simp del: remove_matching_filter)
    moreover have "q_list ?q = []" using 2(2) by (simp add: queue_at_def new_queue_def)
    ultimately show ?thesis by (simp add: q)
  next
    case 3
    then have "remove_word sp n f sel m t s = s\<lparr>y_events := (y_events s)(n := Some (obj_set ?k ?q' evs))\<rparr>"
      using Some by (auto simp: remove_word_def Let_def simp del: remove_matching_filter)
    then show ?thesis using Some by (auto simp: queue_of_def queue_at_def)
  qed
qed

lemma event_remove_word:
  assumes "html_words t = [t]" "type_part t \<noteq> []"
  shows "queue_of (event_remove sp n t f sel s) = queue_of (remove_word sp n f sel False t s)"
proof (cases "y_events s n")
  case None
  then show ?thesis by (simp add: event_remove_def remove_word_def)
qed (use assms in \<open>simp add: event_remove_def remove_any_def\<close>)

text \<open>A handler bound with one is no longer bound when its function is called.\<close>

theorem one_unbinds_before_call:
  assumes "o_handler h = Once f" "known s h" "v_handleObj e = Some h"
    and "name_ok (o_origType h)" "list_all name_ok ns" "sorted ns" "o_namespace h = dotted ns"
  shows "\<exists>s'. call_handler page sp n h e s = page f n e s'
    \<and> h \<notin> set (q_list (queue_of s' (v_delegateTarget e) (bound_type sp (o_selector h) (o_origType h))))"
proof -
  let ?s = "s\<lparr>y_log := y_log s @ [(n, h)]\<rparr>"
  let ?t = "type_word (o_origType h) ns"
  have nil: "dotted ns = [] \<longleftrightarrow> ns = []"
    using assms(5) by (cases ns) (auto simp: dotted_Cons name_ok_def word_ok_def)
  then have o: "off_event sp e ?s = event_remove sp (v_delegateTarget e) ?t (Some (Once f)) (o_selector h) ?s"
    using assms(1,3,7) by (simp add: off_event_def type_word_def)
  have "to_remove ?s False ?t (Some (Once f)) (o_selector h) h"
    using to_remove_self [OF assms(4,7,5,6), of ?s "Once f" False] assms(1,2) by (simp add: known_def)
  moreover have "type_part ?t = o_origType h" "o_origType h \<noteq> []" using assms(4) type_part_word by (auto simp: name_ok_def word_ok_def)
  ultimately have "h \<notin> set (q_list (queue_of (off_event sp e ?s) (v_delegateTarget e) (bound_type sp (o_selector h) (o_origType h))))"
    unfolding o using html_words_type [OF assms(4,5)] by (simp add: event_remove_word queue_of_remove_word)
  then show ?thesis using assms(1) by (intro exI [of _ "off_event sp e ?s"]) (simp add: call_handler_def)
qed

lemma queue_ok_unique: "queue_ok q \<Longrightarrow> queue_ok r \<Longrightarrow> q_list q = q_list r \<Longrightarrow> q = r"
proof -
  have c: "q_count q = length (takeWhile (\<lambda>h. o_selector h \<noteq> []) (q_list q))" if "queue_ok q" for q
    using that unfolding queue_ok_iff
    by (elim exE conjE; rename_tac ds bs; case_tac bs) (auto simp: list_all_iff takeWhile_append2 takeWhile_eq_all_conv [THEN iffD2])
  assume "queue_ok q" "queue_ok r" "q_list q = q_list r"
  with c [of q] c [of r] show ?thesis by (cases q; cases r) simp
qed

lemma queue_ok_of: "events_ok sp s \<Longrightarrow> queue_ok (queue_of s n ty) \<and> list_all (known s) (q_list (queue_of s n ty))"
  by (cases "y_events s n") (auto simp: queue_of_def dest: entry_ok_queue_at, simp_all add: queue_at_def queue_ok_def new_queue_def)

definition new_handler :: "(string \<Rightarrow> special) \<Rightarrow> dom \<Rightarrow> efn \<Rightarrow> nat \<Rightarrow> jsval \<Rightarrow> string \<Rightarrow> string \<Rightarrow> string list \<Rightarrow> handleObj" where
  \<comment> \<open>the entry that binding makes for a type with sorted namespaces\<close>
  "new_handler sp T f guid data sel ty ns =
     \<lparr>o_type = bound_type sp sel ty, o_origType = ty, o_data = data, o_handler = f, o_guid = guid, o_selector = sel,
      o_needsContext = (sel \<noteq> [] \<and> t_context T sel), o_namespace = dotted ns\<rparr>"

lemma queue_of_with_data [simp]: "queue_of (with_data n s) = queue_of s"
  by (auto simp: queue_of_def with_data_def fun_eq_iff)

lemma queue_of_ensure_guid [simp]: "queue_of (fst (ensure_guid f s)) = queue_of s"
  by (simp add: queue_of_def [abs_def])

lemma namespace_text: "name_ok ty \<Longrightarrow> list_all name_ok ns \<Longrightarrow> sorted ns \<Longrightarrow> dotted (namespaces_of (type_word ty ns)) = dotted ns"
  by (cases "ns = []") (simp_all add: namespaces_of_word, simp add: namespaces_of_def namespace_part_word)

lemma queue_of_put:
  assumes "y_events r n = Some evs"
  shows "queue_of (r\<lparr>y_listeners := L, y_events := (y_events r)(n := Some (obj_set ty (g (queue_at evs ty)) evs))\<rparr>) =
    (\<lambda>k u. if k = n \<and> u = ty then g (queue_of r k u) else queue_of r k u)"
  using assms by (intro ext) (auto simp: queue_of_def queue_at_def)

lemma queue_of_event_add:
  assumes "t_accepts T n" "sel = [] \<or> t_selector T sel" "name_ok ty" "list_all name_ok ns" "sorted ns"
  shows "\<exists>s'. event_add sp T n (type_word ty ns) f data sel None s = (s', None) \<and> y_guids s' = y_guids (fst (ensure_guid f s))
     \<and> queue_of s' = (\<lambda>k u. if k = n \<and> u = bound_type sp sel ty
          then insert_handler (new_handler sp T f (snd (ensure_guid f s)) data sel ty ns) (queue_of s k u) else queue_of s k u)"
proof -
  let ?g = "snd (ensure_guid f s)"
  let ?s = "with_data n (fst (ensure_guid f s))"
  let ?s' = "add_word sp T n f ?g data sel None (type_word ty ns) ?s"
  have e: "event_add sp T n (type_word ty ns) f data sel None s = (?s', None)"
    using assms(1,2) html_words_type [OF assms(3,4)] by (auto simp: event_add_def Let_def case_prod_beta)
  have t: "type_part (type_word ty ns) = ty" "ty \<noteq> []" using type_part_word assms(3) by (auto simp: name_ok_def word_ok_def)
  obtain L evs where s': "?s' = ?s\<lparr>y_listeners := L, y_events := (y_events ?s)(n := Some (obj_set (bound_type sp sel ty)
       (insert_handler (new_handler sp T f ?g data sel ty ns) (queue_at evs (bound_type sp sel ty))) evs))\<rparr>" "y_events ?s n = Some evs"
  proof -
    obtain evs where evs: "y_events ?s n = Some evs" by (simp add: with_data_def)
    define L where "L = (if map_of evs (bound_type sp sel ty) = None \<and> \<not> p_setup (sp (bound_type sp sel ty)) \<and> \<not> List.member (y_listeners ?s) (n, bound_type sp sel ty)
       then y_listeners ?s @ [(n, bound_type sp sel ty)] else y_listeners ?s)"
    show thesis
      by (rule that [of evs L])
        (use evs t namespace_text [OF assms(3-5)] in \<open>simp_all add: add_word_def Let_def L_def new_handler_def\<close>)
  qed
  have "queue_of ?s' = (\<lambda>k u. if k = n \<and> u = bound_type sp sel ty
          then insert_handler (new_handler sp T f ?g data sel ty ns) (queue_of ?s k u) else queue_of ?s k u)"
    unfolding s'(1) by (rule queue_of_put [OF s'(2)])
  then have "queue_of ?s' = (\<lambda>k u. if k = n \<and> u = bound_type sp sel ty
          then insert_handler (new_handler sp T f ?g data sel ty ns) (queue_of s k u) else queue_of s k u)"
    unfolding queue_of_with_data queue_of_ensure_guid .
  moreover have "y_guids ?s' = y_guids (fst (ensure_guid f s))" by (simp add: with_data_def)
  ultimately show ?thesis using e by blast
qed

text \<open>Binding a new function and unbinding it with the same type, namespaces and selector leaves every
  queue as it was, although binding put the handler in.\<close>

theorem on_then_off:
  assumes "reach ev_init (ev_step sp T) s" "t_accepts T n" "sel = [] \<or> t_selector T sel" "y_guids s (fn_of f) = None"
    and "name_ok ty" "list_all name_ok ns" "sorted ns"
    and "event_add sp T n (type_word ty ns) f data sel None s = (s1, x)"
  shows "queue_of (event_remove sp n (type_word ty ns) (Some f) sel s1) = queue_of s
    \<and> (\<exists>h\<in>set (q_list (queue_of s1 n (bound_type sp sel ty))). o_handler h = f)"
proof -
  let ?g = "y_guid s" and ?k = "bound_type sp sel ty"
  let ?h = "new_handler sp T f ?g data sel ty ns"
  let ?s2 = "event_remove sp n (type_word ty ns) (Some f) sel s1"
  have ok: "events_ok sp s" using handlers.inv_reach [OF assms(1)] .
  have g: "snd (ensure_guid f s) = ?g" "y_guids (fst (ensure_guid f s)) = (y_guids s)(fn_of f := Some ?g)"
    using assms(4) by (simp_all add: ensure_guid_def)
  have q1: "queue_of s1 = (\<lambda>k u. if k = n \<and> u = ?k then insert_handler ?h (queue_of s k u) else queue_of s k u)"
    and g1: "y_guids s1 = (y_guids s)(fn_of f := Some ?g)"
    using queue_of_event_add [OF assms(2,3,5-7), of sp f data s] assms(8) unfolding g by auto
  have ok1: "events_ok sp s1" using event_add_ok [OF ok, of None T n "type_word ty ns" f data sel] assms(8) by simp
  have t: "type_part (type_word ty ns) = ty" "ty \<noteq> []" using type_part_word assms(5) by (auto simp: name_ok_def word_ok_def)
  let ?r = "to_remove s1 False (type_word ty ns) (Some f) sel"
  have self: "?r ?h" using to_remove_self [of ?h ns s1 f False] assms(5-7) g1 by (simp add: new_handler_def)
  have old: "\<not> ?r h" if "h \<in> set (q_list (queue_of s k u))" for h k u
  proof -
    have "known s h" using queue_ok_of [OF ok, of k u] that by (simp add: list_all_iff)
    then have "o_guid h < ?g" using ok by (auto simp: known_def events_ok_def guids_ok_def)
    then show ?thesis by (simp add: to_remove_def g1)
  qed
  have q2: "q_list (queue_of ?s2 k u) = (if k = n \<and> u = ?k then filter (\<lambda>h. \<not> ?r h) (q_list (queue_of s1 k u)) else q_list (queue_of s1 k u))" for k u
    using html_words_type [OF assms(5,6)] t by (simp add: event_remove_word queue_of_remove_word)
  have f: "filter (\<lambda>h. \<not> ?r h) (q_list (insert_handler ?h q)) = q_list q" if "\<And>h. h \<in> set (q_list q) \<Longrightarrow> \<not> ?r h" for q
  proof -
    have "filter (\<lambda>h. \<not> ?r h) (take i (q_list q)) = take i (q_list q)" "filter (\<lambda>h. \<not> ?r h) (drop i (q_list q)) = drop i (q_list q)" for i
      using that by (auto simp: filter_id_conv dest: in_set_takeD in_set_dropD)
    then show ?thesis using self that by (simp add: insert_handler_def)
  qed
  have "q_list (queue_of ?s2 k u) = q_list (queue_of s k u)" for k u
    using f [of "queue_of s n ?k"] old by (simp add: q2 q1)
  then have "queue_of ?s2 k u = queue_of s k u" for k u
    using queue_ok_unique queue_ok_of [OF ok] queue_ok_of [OF event_remove_ok [OF ok1]] by blast
  moreover have "?h \<in> set (q_list (queue_of s1 n ?k))" "o_handler ?h = f" by (simp_all add: q1, simp add: new_handler_def)
  ultimately show ?thesis by blast
qed

section \<open>Namespaces of a triggered event\<close>

lemma sorted_subset_subseq: 
  fixes ns :: "'a :: linorder list"
  shows "sorted hs \<Longrightarrow> sorted ns \<Longrightarrow> distinct ns \<Longrightarrow> set ns \<subseteq> set hs \<Longrightarrow> subseq ns hs"
proof (induction hs arbitrary: ns)
  case (Cons h hs)
  show ?case
  proof (cases ns)
    case (Cons m ms)
    show ?thesis
    proof (cases "m = h")
      case True
      then have "set ms \<subseteq> set hs" using Cons Cons.prems by auto
      then show ?thesis using True Cons Cons.IH [of ms] Cons.prems by simp
    next
      case False
      then have "h < m" using Cons Cons.prems by force
      then have "set ns \<subseteq> set hs" using Cons Cons.prems by force
      then show ?thesis using Cons.IH [of ns] Cons.prems by (simp add: list_emb_Cons)
    qed
  qed simp
qed simp

text \<open>An event triggered with namespaces reaches exactly the handlers that were bound with all of them.\<close>

theorem namespaces_subset:
  assumes "sorted ns" "distinct ns" "ns \<noteq> []" "list_all ns_name ns" "sorted hs" "list_all ns_name hs"
    and "v_rnamespace e = Some (ns_regex ns)" "o_namespace h = dotted hs"
  shows "ns_fits e h \<longleftrightarrow> set ns \<subseteq> set hs"
  using ns_regex_subseq [OF assms(3,4,6)] sorted_subset_subseq [OF assms(5,1,2)] assms(7,8)
  by (auto simp: ns_fits_def dest: list_emb_set)

text \<open>A namespace named twice is not found twice, although the sets agree.\<close>

lemma repeated_namespace_misses: "\<not> re_test False (ns_regex (namespaces_of ''click.a.a'')) ''a''"
proof -
  have "namespaces_of ''click.a.a'' = [''a'', ''a'']" by code_simp
  then show ?thesis using ns_regex_subseq [of "[''a'', ''a'']" "[''a'']"] by (simp add: ns_name_def dotless_def)
qed

section \<open>Examples\<close>

definition small_dom :: dom where
  \<comment> \<open>a window 0, a document 1, its body 2, a button 3 in it\<close>
  "small_dom = \<lparr>t_path = (\<lambda>n. if n = 3 then [3, 2, 1] else if n = 2 then [2, 1] else [n]),
     t_nodeType = (\<lambda>n. if n = 0 then 0 else if n = 1 then 9 else 1), t_disabled = (\<lambda>_. False), t_accepts = (\<lambda>_. True),
     t_matches = (\<lambda>_ sel _ n. sel = ''button '' \<and> n = 3), t_selector = (\<lambda>sel. sel = ''button''), t_context = (\<lambda>_. False),
     t_document = 1, t_window = 0, t_trigger = (\<lambda>_ _. False), t_default = (\<lambda>_ _. False)\<rparr>"

definition no_events :: evsys where
  "no_events = \<lparr>y_events = (\<lambda>_. None), y_handle = (\<lambda>_. False), y_listeners = [], y_guid = 1, y_guids = (\<lambda>_. None), y_triggered = None, y_log = []\<rparr>"

definition two_handlers :: evsys where
  \<comment> \<open>function 1 for clicks in the button, function 2 for all clicks in the body\<close>
  "two_handlers = fst (event_add jq_special small_dom 2 ''click.a'' (Plain 2) JUndef [] None
      (fst (event_add jq_special small_dom 2 ''click.a.b'' (Once 1) JUndef ''button'' None no_events)))"

definition stop_page :: page where
  \<comment> \<open>function 1 answers false, the others nothing\<close>
  "stop_page f n e s = (s, e, Inr (if f = 1 then JBool False else JUndef))"

definition bind_page :: page where
  \<comment> \<open>every function binds function 7\<close>
  "bind_page f n e s = (fst (event_add jq_special small_dom n ''click'' (Plain 7) JUndef [] None s), e, Inr JUndef)"

lemma reach_none: "reach ev_init (ev_step jq_special small_dom) no_events"
  by (rule reach_init) (simp add: ev_init_def no_events_def)

lemma reach_two: "reach ev_init (ev_step jq_special small_dom) two_handlers"
  unfolding two_handlers_def by (rule reach_step, rule reach_step, rule reach_none, rule ev_step.bind, rule ev_step.bind)

theorem handlers_in_order_witness:
  "(let s' = fst (dispatch bind_page jq_special small_dom 2 (blank_event ''click'' 3) two_handlers)
    in map_option (\<lambda>evs. map_option (\<lambda>q. map (\<lambda>h. fn_of (o_handler h)) (q_list q)) (map_of evs ''click'')) (y_events s' 2) = Some (Some [2, 7])
       \<and> (2, ''click'') \<in> set (y_listeners s'))"
proof -
  let ?s' = "fst (dispatch bind_page jq_special small_dom 2 (blank_event ''click'' 3) two_handlers)"
  have p: "page_steps jq_special small_dom bind_page"
    by (auto simp: page_steps_def bind_page_def intro: r_into_rtranclp ev_step.bind)
  have c: "map_option (\<lambda>evs. map_option (\<lambda>q. map (\<lambda>h. fn_of (o_handler h)) (q_list q)) (map_of evs ''click'')) (y_events ?s' 2) = Some (Some [2, 7])"
    by code_simp
  then obtain evs q where q: "y_events ?s' 2 = Some evs" "map_of evs ''click'' = Some q" by auto
  show ?thesis using handlers_in_order [OF reach_two p refl q] c by (simp add: jq_special_def hover_types_def no_special_def)
qed


theorem namespaces_subset_witness:
  "ns_fits (blank_event ''click'' 3\<lparr>v_rnamespace := Some (ns_regex [''a'', ''c''])\<rparr>) (new_handler jq_special small_dom (Plain 2) 1 JUndef [] ''click'' [''a'', ''b'', ''c''])
   \<and> \<not> ns_fits (blank_event ''click'' 3\<lparr>v_rnamespace := Some (ns_regex [''a'', ''c''])\<rparr>) (new_handler jq_special small_dom (Plain 2) 1 JUndef [] ''click'' [''b'', ''c''])"
proof -
  have n: "list_all ns_name [''a'', ''b'', ''c'']" "list_all ns_name [''a'', ''c'']" "list_all ns_name [''b'', ''c'']" by (simp_all add: ns_name_def dotless_def)
  have s: "sorted [''a'', ''b'', ''c'']" "sorted [''a'', ''c'']" "sorted [''b'', ''c'']" by code_simp+
  show ?thesis
    using namespaces_subset [OF s(2) _ _ n(2) s(1) n(1)] namespaces_subset [OF s(2) _ _ n(2) s(3) n(3)]
    by (simp add: new_handler_def)
qed

theorem one_unbinds_before_call_witness:
  "\<exists>s'. call_handler stop_page jq_special 3 (new_handler jq_special small_dom (Once 1) 1 JUndef ''button'' ''click'' [''a'', ''b''])
          (blank_event ''click'' 3\<lparr>v_delegateTarget := 2, v_handleObj := Some (new_handler jq_special small_dom (Once 1) 1 JUndef ''button'' ''click'' [''a'', ''b''])\<rparr>)
          two_handlers = stop_page 1 3 (blank_event ''click'' 3\<lparr>v_delegateTarget := 2, v_handleObj := Some (new_handler jq_special small_dom (Once 1) 1 JUndef ''button'' ''click'' [''a'', ''b''])\<rparr>) s'
      \<and> new_handler jq_special small_dom (Once 1) 1 JUndef ''button'' ''click'' [''a'', ''b''] \<in> set (q_list (queue_of two_handlers 2 ''click''))
      \<and> new_handler jq_special small_dom (Once 1) 1 JUndef ''button'' ''click'' [''a'', ''b''] \<notin> set (q_list (queue_of s' 2 ''click''))"
proof -
  let ?h = "new_handler jq_special small_dom (Once 1) 1 JUndef ''button'' ''click'' [''a'', ''b'']"
  have "known two_handlers ?h" unfolding known_def by code_simp
  moreover have "sorted [''a'', ''b'']" by code_simp
  moreover have "?h \<in> set (q_list (queue_of two_handlers 2 ''click''))" by code_simp
  moreover have "bound_type jq_special ''button'' ''click'' = ''click''" by code_simp
  ultimately show ?thesis
    using one_unbinds_before_call [of ?h 1 two_handlers "blank_event ''click'' 3\<lparr>v_delegateTarget := 2, v_handleObj := Some ?h\<rparr>" "[''a'', ''b'']" stop_page jq_special 3]
    by (auto simp: new_handler_def name_ok_def word_ok_def html_white_def)
qed

theorem on_then_off_witness:
  "queue_of (event_remove jq_special 2 ''click.a'' (Some (Plain 5)) []
      (fst (event_add jq_special small_dom 2 ''click.a'' (Plain 5) JUndef [] None two_handlers))) = queue_of two_handlers"
proof -
  have "type_word ''click'' [''a''] = ''click.a''" "y_guids two_handlers 5 = None" "t_accepts small_dom 2" by (code_simp | simp add: small_dom_def)+
  moreover have "name_ok ''click''" "list_all name_ok [''a'']" "sorted [''a'']" by (simp_all add: name_ok_def word_ok_def html_white_def)
  ultimately show ?thesis
    using on_then_off [OF reach_two, of 2 "[]" "Plain 5" "''click''" "[''a'']" JUndef _ _] by (metis fn_of.simps(1) prod.collapse)
qed

end
