(* ===== verification/BsUtil.thy ===== *)
theory BsUtil
  imports JqClasses JqCore JsRegExp
begin

text \<open>
  The helpers of Bootstrap (util.js): configurations and their types, the selector an element names,
  the length of a transition, and the class names of an element as a list.  The list of names is the
  abstraction of the class attribute that JqClasses proves for addClass, removeClass and hasClass.
  An error that carries a message, TypeError included, is an Error of the model with that message.
\<close>

section \<open>Configurations\<close>

definition objectSpread :: "jsval obj \<Rightarrow> jsval obj list \<Rightarrow> jsval obj" where
  \<comment> \<open>later sources win, undefined values included\<close>
  "objectSpread target sources = fold (\<lambda>s t. obj_extend t s) sources target"

definition first_item :: "jsval \<Rightarrow> jsval" where
  \<comment> \<open>\<open>v[0]\<close>\<close>
  "first_item v = (case v of JArr (x # xs) \<Rightarrow> x | JObj kvs \<Rightarrow> js_prop kvs ''0'' | JStr (c # s) \<Rightarrow> JStr [c] | _ \<Rightarrow> JUndef)"

definition has_nodeType :: "jsval \<Rightarrow> bool" where
  "has_nodeType v \<longleftrightarrow> (case v of JNode n \<Rightarrow> True | JObj kvs \<Rightarrow> truthy (js_prop kvs ''nodeType'') | _ \<Rightarrow> False)"

definition isElement :: "jsval \<Rightarrow> bool" where
  \<comment> \<open>a node, or a collection that starts with one\<close>
  "isElement v \<longleftrightarrow> has_nodeType (js_or (first_item v) v)"

definition value_type :: "jsval \<Rightarrow> string" where
  "value_type v = (if truthy v \<and> isElement v then ''element'' else toType v)"

fun typeCheckConfig :: "string \<Rightarrow> jsval obj \<Rightarrow> string obj \<Rightarrow> jserr option" where
  \<comment> \<open>the error for the first option whose type does not match its pattern\<close>
  "typeCheckConfig name config [] = None"
| "typeCheckConfig name config (p # ps) =
     (let v = value_type (js_prop config (fst p))
      in if tests False (snd p) v then typeCheckConfig name config ps
         else Some (Error (toUpperCase name @ '': Option '' @ [CHR 0x22] @ fst p @ [CHR 0x22] @ '' provided type '' @ [CHR 0x22] @ v @ [CHR 0x22]
                @ '' but expected type '' @ [CHR 0x22] @ snd p @ [CHR 0x22] @ ''.'')))"

section \<open>Selectors and transitions\<close>

definition selector_attribute :: "string option \<Rightarrow> string option \<Rightarrow> string" where
  \<comment> \<open>data-target, or else the fragment in href\<close>
  "selector_attribute target href =
     (case target of
        Some t \<Rightarrow> if t \<noteq> [] \<and> t \<noteq> ''#'' then t else (case href of Some h \<Rightarrow> if h \<noteq> [] \<and> h \<noteq> ''#'' then trim h else [] | None \<Rightarrow> [])
      | None \<Rightarrow> (case href of Some h \<Rightarrow> if h \<noteq> [] \<and> h \<noteq> ''#'' then trim h else [] | None \<Rightarrow> []))"

definition getSelectorFromElement :: "(string \<Rightarrow> nat list option) \<Rightarrow> string option \<Rightarrow> string option \<Rightarrow> string option" where
  \<comment> \<open>None for null: no element, or a selector that querySelector refuses\<close>
  "getSelectorFromElement query target href =
     (case query (selector_attribute target href) of Some (n # ns) \<Rightarrow> Some (selector_attribute target href) | _ \<Rightarrow> None)"

definition first_duration :: "(string \<Rightarrow> jsnum) \<Rightarrow> string \<Rightarrow> jsnum" where
  "first_duration parseFloat t = parseFloat (hd (split_on (\<lambda>c. c = CHR '','') t))"

definition getTransitionDuration :: "(string \<Rightarrow> jsnum) \<Rightarrow> string \<Rightarrow> string \<Rightarrow> jsnum" where
  \<comment> \<open>milliseconds, from the computed duration and delay of the element\<close>
  "getTransitionDuration parseFloat duration delay =
     (if \<not> truthy (JNum (parseFloat duration)) \<and> \<not> truthy (JNum (parseFloat delay)) then num 0
      else js_mul (js_add (first_duration parseFloat duration) (first_duration parseFloat delay)) (num 1000))"

section \<open>Class names\<close>

abbreviation remove_name_from :: "string \<Rightarrow> string list \<Rightarrow> string list" where
  "remove_name_from c ns \<equiv> filter (\<lambda>x. x \<noteq> c) ns"

abbreviation swap_names :: "string \<Rightarrow> string \<Rightarrow> string list \<Rightarrow> string list" where
  \<comment> \<open>removeClass of the first, then addClass of the second\<close>
  "swap_names c d ns \<equiv> insert_name d (remove_name_from c ns)"

lemma set_insert_name [simp]: "set (insert_name c ns) = insert c (set ns)"
  by (auto simp: insert_name_def)

lemma insert_name_absent [simp]: "c \<notin> set ns \<Longrightarrow> remove_name_from c (insert_name c ns) = ns"
  by (auto simp: insert_name_def filter_id_conv)

text \<open>A configuration that passes the check has every option with a type that its pattern finds.\<close>

lemma typeCheckConfig_ok: "typeCheckConfig name config ts = None \<longleftrightarrow> list_all (\<lambda>p. tests False (snd p) (value_type (js_prop config (fst p)))) ts"
  by (induction ts) (simp_all add: Let_def)

end
