(* ===== verification/BsModal.thy ===== *)
theory BsModal
  imports BsUtil
begin

text \<open>
  The modal dialogs of Bootstrap: the fields of a Modal object together with what it keeps in the page
  (its own element, the body, the backdrops, the handlers it binds, the transitions it waits for).
  A handler of the page for one of the events of the modal is an argument; it answers whether it
  prevented the event, and may change everything.  A transition is a pending continuation that runs when
  the transition ends.  Focus and scroll positions are left out.
\<close>

section \<open>State\<close>

datatype inline = Unset | Px rat | Css string \<comment> \<open>an inline style: none, in pixels, or another text\<close>

record box =
  x_pad :: inline \<comment> \<open>padding-right\<close>
  x_pad_sheet :: rat \<comment> \<open>what the style sheets give\<close>
  x_pad_saved :: "inline option" \<comment> \<open>the data item padding-right\<close>
  x_margin :: inline
  x_margin_sheet :: rat
  x_margin_saved :: "inline option"
  x_sticky :: bool

record view =
  w_resolve :: "string \<Rightarrow> rat" \<comment> \<open>the pixels of an inline style that is not in pixels\<close>
  w_span :: rat \<comment> \<open>left plus right of the body\<close>
  w_inner :: rat \<comment> \<open>width of the window\<close>
  w_bar :: rat \<comment> \<open>width of a scrollbar\<close>
  w_scrollHeight :: rat \<comment> \<open>of the modal\<close>
  w_clientHeight :: rat \<comment> \<open>of the document\<close>

datatype mhandler = DismissClick | BackdropClick | EscKey | DialogDown | MouseUp | Resize | FocusIn

datatype mcall = ThenShow | ThenHidden \<comment> \<open>the callbacks given to showBackdrop\<close>

datatype mpend = ElementShown | HideEnd | BackdropShown nat mcall | BackdropGone nat mcall

record modal =
  m_shown :: bool
  m_transitioning :: bool
  m_overflowing :: bool
  m_ignoreClick :: bool
  m_bar :: rat
  m_backdrop :: "nat option"
  m_classes :: "string list"
  m_display :: string
  m_ariaHidden :: bool
  m_ariaModal :: bool
  m_attached :: bool
  m_padLeft :: inline
  m_padRight :: inline
  m_handlers :: "mhandler list"
  m_pending :: "mpend list"
  m_open :: bool \<comment> \<open>the body has the class modal-open\<close>
  m_body :: box
  m_boxes :: "box list" \<comment> \<open>fixed and sticky elements of the page\<close>
  m_backdrops :: "nat list" \<comment> \<open>the backdrops in the page\<close>
  m_next :: nat
  m_log :: "string list" \<comment> \<open>the events triggered\<close>

record mconfig =
  c_backdrop :: jsval
  c_keyboard :: bool
  c_focus :: bool

type_synonym mpage = "string \<Rightarrow> modal \<Rightarrow> modal \<times> bool"

definition fade :: "modal \<Rightarrow> bool" where
  "fade m \<longleftrightarrow> ''fade'' \<in> set (m_classes m)"

definition trigger_modal :: "mpage \<Rightarrow> string \<Rightarrow> modal \<Rightarrow> modal \<times> bool" where
  "trigger_modal page ev m = page ev (m\<lparr>m_log := m_log m @ [ev]\<rparr>)"

definition new_modal :: "string list \<Rightarrow> box \<Rightarrow> box list \<Rightarrow> modal" where
  "new_modal classes body boxes =
     \<lparr>m_shown = False, m_transitioning = False, m_overflowing = False, m_ignoreClick = False, m_bar = 0, m_backdrop = None,
      m_classes = classes, m_display = [], m_ariaHidden = True, m_ariaModal = False, m_attached = True, m_padLeft = Unset, m_padRight = Unset,
      m_handlers = [], m_pending = [], m_open = False, m_body = body, m_boxes = boxes, m_backdrops = [], m_next = 0, m_log = []\<rparr>"

section \<open>Scrollbars\<close>

fun pixels :: "view \<Rightarrow> inline \<Rightarrow> rat \<Rightarrow> rat" where
  \<comment> \<open>the number at the start of the computed style\<close>
  "pixels V Unset sheet = sheet"
| "pixels V (Px r) sheet = r"
| "pixels V (Css t) sheet = w_resolve V t"

definition or_unset :: "inline option \<Rightarrow> inline" where
  "or_unset p = (case p of Some i \<Rightarrow> i | None \<Rightarrow> Unset)"

definition pad_box :: "view \<Rightarrow> rat \<Rightarrow> box \<Rightarrow> box" where
  "pad_box V w b = b\<lparr>x_pad_saved := Some (x_pad b), x_pad := Px (pixels V (x_pad b) (x_pad_sheet b) + w)\<rparr>"

definition unpad_box :: "box \<Rightarrow> box" where
  "unpad_box b = b\<lparr>x_pad := or_unset (x_pad_saved b), x_pad_saved := None\<rparr>"

definition shift_box :: "view \<Rightarrow> rat \<Rightarrow> box \<Rightarrow> box" where
  "shift_box V w b =
     (if x_sticky b then b\<lparr>x_margin_saved := Some (x_margin b), x_margin := Px (pixels V (x_margin b) (x_margin_sheet b) - w)\<rparr> else b)"

definition unshift_box :: "box \<Rightarrow> box" where
  "unshift_box b =
     (case x_margin_saved b of Some i \<Rightarrow> if x_sticky b then b\<lparr>x_margin := i, x_margin_saved := None\<rparr> else b | None \<Rightarrow> b)"

definition checkScrollbar :: "view \<Rightarrow> modal \<Rightarrow> modal" where
  "checkScrollbar V m = m\<lparr>m_overflowing := (w_span V < w_inner V), m_bar := w_bar V\<rparr>"

definition setScrollbar :: "view \<Rightarrow> modal \<Rightarrow> modal" where
  "setScrollbar V m =
     (if m_overflowing m then
        m\<lparr>m_boxes := map (shift_box V (m_bar m)) (map (pad_box V (m_bar m)) (m_boxes m)), m_body := pad_box V (m_bar m) (m_body m), m_open := True\<rparr>
      else m\<lparr>m_open := True\<rparr>)"

definition resetScrollbar :: "modal \<Rightarrow> modal" where
  "resetScrollbar m = m\<lparr>m_boxes := map unshift_box (map unpad_box (m_boxes m)), m_body := unpad_box (m_body m)\<rparr>"

definition adjustDialog :: "view \<Rightarrow> modal \<Rightarrow> modal" where
  "adjustDialog V m =
     (let over = w_clientHeight V < w_scrollHeight V;
          m1 = (if \<not> m_overflowing m \<and> over then m\<lparr>m_padLeft := Px (m_bar m)\<rparr> else m)
      in if m_overflowing m1 \<and> \<not> over then m1\<lparr>m_padRight := Px (m_bar m1)\<rparr> else m1)"

definition resetAdjustments :: "modal \<Rightarrow> modal" where
  "resetAdjustments m = m\<lparr>m_padLeft := Unset, m_padRight := Unset\<rparr>"

section \<open>Handlers\<close>

definition bind_handler :: "mhandler \<Rightarrow> modal \<Rightarrow> modal" where
  "bind_handler h m = m\<lparr>m_handlers := m_handlers m @ [h]\<rparr>"

definition unbind :: "mhandler set \<Rightarrow> modal \<Rightarrow> modal" where
  "unbind H m = m\<lparr>m_handlers := filter (\<lambda>h. h \<notin> H) (m_handlers m)\<rparr>"

definition setEscapeEvent :: "mconfig \<Rightarrow> modal \<Rightarrow> modal" where
  "setEscapeEvent cfg m =
     (if m_shown m \<and> c_keyboard cfg then bind_handler EscKey m
      else if \<not> m_shown m then unbind {EscKey} m else m)"

definition setResizeEvent :: "modal \<Rightarrow> modal" where
  "setResizeEvent m = (if m_shown m then bind_handler Resize m else unbind {Resize} m)"

definition enforceFocus :: "modal \<Rightarrow> modal" where
  "enforceFocus m = bind_handler FocusIn (unbind {FocusIn} m)"

section \<open>Showing and hiding\<close>

definition transitionComplete :: "mpage \<Rightarrow> modal \<Rightarrow> modal" where
  "transitionComplete page m = fst (trigger_modal page ''shown'' (m\<lparr>m_transitioning := False\<rparr>))"

definition showElement :: "mpage \<Rightarrow> mconfig \<Rightarrow> modal \<Rightarrow> modal" where
  "showElement page cfg m =
     (let transition = fade m;
          m1 = m\<lparr>m_attached := True, m_display := ''block'', m_ariaHidden := False, m_ariaModal := True, m_classes := insert_name ''show'' (m_classes m)\<rparr>;
          m2 = (if c_focus cfg then enforceFocus m1 else m1)
      in if transition then m2\<lparr>m_pending := m_pending m2 @ [ElementShown]\<rparr> else transitionComplete page m2)"

definition removeBackdrop :: "modal \<Rightarrow> modal" where
  \<comment> \<open>with the element go the handlers that wait for its transitions\<close>
  "removeBackdrop m =
     (case m_backdrop m of
        None \<Rightarrow> m
      | Some b \<Rightarrow> m\<lparr>m_backdrop := None, m_backdrops := filter (\<lambda>d. d \<noteq> b) (m_backdrops m),
                   m_pending := filter (\<lambda>p. case p of BackdropShown d k \<Rightarrow> d \<noteq> b | BackdropGone d k \<Rightarrow> d \<noteq> b | _ \<Rightarrow> True) (m_pending m)\<rparr>)"

fun run_call :: "mpage \<Rightarrow> mconfig \<Rightarrow> mcall \<Rightarrow> modal \<Rightarrow> modal" where
  "run_call page cfg ThenShow m = showElement page cfg m"
| "run_call page cfg ThenHidden m =
     fst (trigger_modal page ''hidden'' (resetScrollbar (resetAdjustments (m\<lparr>m_open := False\<rparr>))))"

definition showBackdrop :: "mpage \<Rightarrow> mconfig \<Rightarrow> mcall \<Rightarrow> modal \<Rightarrow> modal" where
  "showBackdrop page cfg k m =
     (let animate = fade m
      in if m_shown m \<and> truthy (c_backdrop cfg) then
           (let b = m_next m;
                m1 = bind_handler BackdropClick (m\<lparr>m_backdrop := Some b, m_backdrops := m_backdrops m @ [b], m_next := Suc b\<rparr>)
            in if \<not> animate then run_call page cfg k m1 else m1\<lparr>m_pending := m_pending m1 @ [BackdropShown b k]\<rparr>)
         else (case m_backdrop m of
                 Some b \<Rightarrow>
                   if \<not> m_shown m then
                     (if animate then m\<lparr>m_pending := m_pending m @ [BackdropGone b k]\<rparr> else run_call page cfg k (removeBackdrop m))
                   else run_call page cfg k m
               | None \<Rightarrow> run_call page cfg k m))"

definition hideModal :: "mpage \<Rightarrow> mconfig \<Rightarrow> modal \<Rightarrow> modal" where
  "hideModal page cfg m =
     showBackdrop page cfg ThenHidden (m\<lparr>m_display := ''none'', m_ariaHidden := True, m_ariaModal := False, m_transitioning := False\<rparr>)"

definition show_modal :: "mpage \<Rightarrow> view \<Rightarrow> mconfig \<Rightarrow> modal \<Rightarrow> modal" where
  "show_modal page V cfg m =
     (if m_shown m \<or> m_transitioning m then m
      else (case trigger_modal page ''show'' (if fade m then m\<lparr>m_transitioning := True\<rparr> else m) of
              (m1, prevented) \<Rightarrow>
                (if m_shown m1 \<or> prevented then m1
                 else showBackdrop page cfg ThenShow
                        (bind_handler DialogDown (bind_handler DismissClick (setResizeEvent (setEscapeEvent cfg
                           (adjustDialog V (setScrollbar V (checkScrollbar V (m1\<lparr>m_shown := True\<rparr>))))))))))) "

definition hide_modal :: "mpage \<Rightarrow> mconfig \<Rightarrow> modal \<Rightarrow> modal" where
  "hide_modal page cfg m =
     (if \<not> m_shown m \<or> m_transitioning m then m
      else (case trigger_modal page ''hide'' m of
              (m1, prevented) \<Rightarrow>
                (if \<not> m_shown m1 \<or> prevented then m1
                 else (let transition = fade m1;
                           m2 = setResizeEvent (setEscapeEvent cfg (m1\<lparr>m_shown := False, m_transitioning := (if transition then True else m_transitioning m1)\<rparr>));
                           m3 = unbind {DismissClick, BackdropClick, DialogDown, FocusIn} (m2\<lparr>m_classes := remove_name_from ''show'' (m_classes m2)\<rparr>)
                       in if transition then m3\<lparr>m_pending := m_pending m3 @ [HideEnd]\<rparr> else hideModal page cfg m3))))"

definition toggle_modal :: "mpage \<Rightarrow> view \<Rightarrow> mconfig \<Rightarrow> modal \<Rightarrow> modal" where
  "toggle_modal page V cfg m = (if m_shown m then hide_modal page cfg m else show_modal page V cfg m)"

section \<open>Events of the browser\<close>

fun transition_end :: "mpage \<Rightarrow> mconfig \<Rightarrow> mpend \<Rightarrow> modal \<Rightarrow> modal" where
  \<comment> \<open>what a pending transition does when it ends\<close>
  "transition_end page cfg ElementShown m = transitionComplete page m"
| "transition_end page cfg HideEnd m = hideModal page cfg m"
| "transition_end page cfg (BackdropShown b k) m = run_call page cfg k m"
| "transition_end page cfg (BackdropGone b k) m = run_call page cfg k (removeBackdrop m)"

definition end_transition :: "mpage \<Rightarrow> mconfig \<Rightarrow> mpend \<Rightarrow> modal \<Rightarrow> modal" where
  "end_transition page cfg p m =
     (if p \<in> set (m_pending m) then transition_end page cfg p (m\<lparr>m_pending := remove1 p (m_pending m)\<rparr>) else m)"

definition escape_key :: "mpage \<Rightarrow> mconfig \<Rightarrow> modal \<Rightarrow> modal" where
  "escape_key page cfg m = (if EscKey \<in> set (m_handlers m) then hide_modal page cfg m else m)"

definition backdrop_click :: "mpage \<Rightarrow> mconfig \<Rightarrow> bool \<Rightarrow> modal \<Rightarrow> modal" where
  \<comment> \<open>a click; the flag says that its target is the element of the modal itself\<close>
  "backdrop_click page cfg itself m =
     (if BackdropClick \<notin> set (m_handlers m) then m
      else if m_ignoreClick m then m\<lparr>m_ignoreClick := False\<rparr>
      else if \<not> itself then m
      else if c_backdrop cfg = JStr ''static'' then m
      else hide_modal page cfg m)"

definition dismiss_click :: "mpage \<Rightarrow> mconfig \<Rightarrow> modal \<Rightarrow> modal" where
  \<comment> \<open>a click on a button that dismisses: its handler is the delegated one and runs first\<close>
  "dismiss_click page cfg m =
     (if DismissClick \<in> set (m_handlers m)
      then (let m1 = hide_modal page cfg m in if BackdropClick \<in> set (m_handlers m) \<and> m_ignoreClick m1 then m1\<lparr>m_ignoreClick := False\<rparr> else m1)
      else m)"

definition mouse_down :: "modal \<Rightarrow> modal" where
  "mouse_down m = (if DialogDown \<in> set (m_handlers m) then bind_handler MouseUp m else m)"

definition mouse_up :: "bool \<Rightarrow> modal \<Rightarrow> modal" where
  \<comment> \<open>the handlers bound with one; the flag says that the target is the element of the modal\<close>
  "mouse_up itself m =
     (if MouseUp \<in> set (m_handlers m) then (unbind {MouseUp} m)\<lparr>m_ignoreClick := (m_ignoreClick m \<or> itself)\<rparr> else m)"

definition window_resize :: "view \<Rightarrow> modal \<Rightarrow> modal" where
  "window_resize V m = (if Resize \<in> set (m_handlers m) then adjustDialog V m else m)"

section \<open>The plugin method\<close>

definition modal_default :: "jsval obj" where
  "modal_default = [(''backdrop'', JBool True), (''keyboard'', JBool True), (''focus'', JBool True), (''show'', JBool True)]"

definition modal_types :: "string obj" where
  "modal_types = [(''backdrop'', ''(boolean|string)''), (''keyboard'', ''boolean''), (''focus'', ''boolean''), (''show'', ''boolean'')]"

definition modal_config :: "jsval obj \<Rightarrow> jserr + jsval obj" where
  \<comment> \<open>the configuration of a new modal\<close>
  "modal_config given =
     (let c = objectSpread [] [modal_default, given]
      in case typeCheckConfig ''modal'' c modal_types of Some x \<Rightarrow> Inl x | None \<Rightarrow> Inr c)"

definition config_of :: "jsval obj \<Rightarrow> mconfig" where
  "config_of c = \<lparr>c_backdrop = js_prop c ''backdrop'', c_keyboard = truthy (js_prop c ''keyboard''), c_focus = truthy (js_prop c ''focus'')\<rparr>"

definition dispose_modal :: "modal \<Rightarrow> modal" where
  \<comment> \<open>all handlers go; the fields of the object are forgotten with it\<close>
  "dispose_modal m = m\<lparr>m_handlers := []\<rparr>"

definition modal_call :: "mpage \<Rightarrow> view \<Rightarrow> jsval obj \<Rightarrow> jsval \<Rightarrow> mconfig option \<Rightarrow> modal \<Rightarrow> jserr + mconfig option \<times> modal" where
  \<comment> \<open>one element of $().modal(config), with its data attributes and the configuration of its instance where it has one;
      the names of private methods are left out\<close>
  "modal_call page V data arg inst m =
     (let c = objectSpread [] ([modal_default, data] @ (case arg of JObj kvs \<Rightarrow> [kvs] | _ \<Rightarrow> []));
          made = (case inst of
                    Some cfg \<Rightarrow> Inr cfg
                  | None \<Rightarrow> (case modal_config c of Inl x \<Rightarrow> Inl x | Inr c' \<Rightarrow> Inr (config_of c')))
      in case made of
           Inl x \<Rightarrow> Inl x
         | Inr cfg \<Rightarrow>
             (case arg of
                JStr name \<Rightarrow>
                  (if name = ''show'' then Inr (Some cfg, show_modal page V cfg m)
                   else if name = ''hide'' then Inr (Some cfg, hide_modal page cfg m)
                   else if name = ''toggle'' then Inr (Some cfg, toggle_modal page V cfg m)
                   else if name = ''handleUpdate'' then Inr (Some cfg, adjustDialog V m)
                   else if name = ''dispose'' then Inr (None, dispose_modal m)
                   else Inl (Error (''No method named '' @ [CHR 0x22] @ name @ [CHR 0x22])))
              | _ \<Rightarrow> Inr (Some cfg, if truthy (js_prop c ''show'') then show_modal page V cfg m else m)))"

section \<open>Runs\<close>

datatype mop = Show | Hide | Toggle | EndTransition mpend | Escape | ClickBackdrop bool | ClickDismiss | MouseDown | MouseUpAt bool | WindowResize

fun do_mop :: "mpage \<Rightarrow> view \<Rightarrow> mconfig \<Rightarrow> mop \<Rightarrow> modal \<Rightarrow> modal" where
  "do_mop page V cfg Show m = show_modal page V cfg m"
| "do_mop page V cfg Hide m = hide_modal page cfg m"
| "do_mop page V cfg Toggle m = toggle_modal page V cfg m"
| "do_mop page V cfg (EndTransition p) m = end_transition page cfg p m"
| "do_mop page V cfg Escape m = escape_key page cfg m"
| "do_mop page V cfg (ClickBackdrop b) m = backdrop_click page cfg b m"
| "do_mop page V cfg ClickDismiss m = dismiss_click page cfg m"
| "do_mop page V cfg MouseDown m = mouse_down m"
| "do_mop page V cfg (MouseUpAt b) m = mouse_up b m"
| "do_mop page V cfg WindowResize m = window_resize V m"

end
