(* ===== verification/ModalLaws.thy ===== *)
theory ModalLaws
  imports BsModal
begin

text \<open>
  What holds of modal dialogs: the handlers that are bound follow the state; opening and closing gives
  the page back as it was; and two ways in which a modal that fades gets stuck.
\<close>

section \<open>Handlers and pending transitions\<close>

definition calm :: "mpage \<Rightarrow> bool" where
  \<comment> \<open>handlers of the page do not touch the modal while they run, but may prevent the event\<close>
  "calm page \<longleftrightarrow> (\<forall>ev m. let m' = fst (page ev m) in
     m_shown m' = m_shown m \<and> m_transitioning m' = m_transitioning m \<and> m_classes m' = m_classes m \<and> m_display m' = m_display m
     \<and> m_handlers m' = m_handlers m \<and> m_pending m' = m_pending m \<and> m_backdrop m' = m_backdrop m \<and> m_backdrops m' = m_backdrops m \<and> m_next m' = m_next m)"

lemma calm_trigger:
  assumes "calm page" "trigger_modal page ev m = (m', b)"
  shows "m_shown m' = m_shown m" "m_transitioning m' = m_transitioning m" "m_classes m' = m_classes m" "m_display m' = m_display m"
    "m_handlers m' = m_handlers m" "m_pending m' = m_pending m" "m_backdrop m' = m_backdrop m" "m_backdrops m' = m_backdrops m" "m_next m' = m_next m"
  using assms(1) [unfolded calm_def Let_def, rule_format, of ev "m\<lparr>m_log := m_log m @ [ev]\<rparr>"] assms(2) by (simp_all add: trigger_modal_def)

lemma calm_fst [simp]:
  assumes "calm page"
  shows "m_shown (fst (trigger_modal page ev m)) = m_shown m" "m_transitioning (fst (trigger_modal page ev m)) = m_transitioning m"
    "m_classes (fst (trigger_modal page ev m)) = m_classes m" "m_display (fst (trigger_modal page ev m)) = m_display m"
    "m_handlers (fst (trigger_modal page ev m)) = m_handlers m" "m_pending (fst (trigger_modal page ev m)) = m_pending m"
    "m_backdrop (fst (trigger_modal page ev m)) = m_backdrop m" "m_backdrops (fst (trigger_modal page ev m)) = m_backdrops m"
    "m_next (fst (trigger_modal page ev m)) = m_next m"
  using calm_trigger [OF assms, of ev m] by (metis prod.collapse)+

definition bound_when_shown :: "mconfig \<Rightarrow> mhandler list \<Rightarrow> bool" where
  "bound_when_shown cfg hs \<longleftrightarrow> count_list hs DismissClick = 1 \<and> count_list hs DialogDown = 1 \<and> count_list hs Resize = 1
     \<and> count_list hs EscKey = (if c_keyboard cfg then 1 else 0) \<and> count_list hs BackdropClick \<le> 1 \<and> count_list hs FocusIn \<le> 1"

definition handlers_ok :: "mconfig \<Rightarrow> modal \<Rightarrow> bool" where
  "handlers_ok cfg m \<longleftrightarrow> (if m_shown m then bound_when_shown cfg (m_handlers m) else list_all (\<lambda>h. h = MouseUp) (m_handlers m))"

fun pend_ok :: "modal \<Rightarrow> mpend \<Rightarrow> bool" where
  "pend_ok m ElementShown \<longleftrightarrow> m_shown m \<and> m_transitioning m"
| "pend_ok m (BackdropShown b k) \<longleftrightarrow> m_shown m \<and> m_transitioning m \<and> k = ThenShow"
| "pend_ok m HideEnd \<longleftrightarrow> \<not> m_shown m \<and> m_transitioning m"
| "pend_ok m (BackdropGone b k) \<longleftrightarrow> k = ThenHidden"

fun body_wait :: "mpend \<Rightarrow> bool" where
  \<comment> \<open>waits for the element or for a backdrop that appears\<close>
  "body_wait (BackdropGone b k) = False"
| "body_wait p = True"

definition modal_ok :: "mconfig \<Rightarrow> modal \<Rightarrow> bool" where
  "modal_ok cfg m \<longleftrightarrow> handlers_ok cfg m \<and> list_all (pend_ok m) (m_pending m) \<and> length (filter body_wait (m_pending m)) \<le> 1"

definition only_gone :: "modal \<Rightarrow> bool" where
  "only_gone m \<longleftrightarrow> list_all (\<lambda>p. \<exists>b. p = BackdropGone b ThenHidden) (m_pending m)"

lemma only_gone_wait: "only_gone m \<Longrightarrow> filter body_wait (m_pending m) = [] \<and> list_all (pend_ok m') (m_pending m)"
  by (auto simp: only_gone_def list_all_iff filter_empty_conv)

lemma pend_ok_cong: "m_shown m' = m_shown m \<Longrightarrow> m_transitioning m' = m_transitioning m \<Longrightarrow> pend_ok m' = pend_ok m"
proof
  fix p assume "m_shown m' = m_shown m" "m_transitioning m' = m_transitioning m"
  then show "pend_ok m' p = pend_ok m p" by (cases p) simp_all
qed

lemma modal_ok_cong: "modal_ok cfg m \<Longrightarrow> m_shown m' = m_shown m \<Longrightarrow> m_transitioning m' = m_transitioning m \<Longrightarrow>
   m_handlers m' = m_handlers m \<Longrightarrow> m_pending m' = m_pending m \<Longrightarrow> modal_ok cfg m'"
  unfolding modal_ok_def handlers_ok_def using pend_ok_cong [of m' m] by simp

lemma pend_gone: "pend_ok m p \<Longrightarrow> \<not> body_wait p \<Longrightarrow> \<exists>b. p = BackdropGone b ThenHidden"
  by (cases p) simp_all

lemma other_handler: "h \<notin> {EscKey, Resize, DismissClick, BackdropClick, DialogDown, FocusIn} \<Longrightarrow> h = MouseUp"
  by (cases h) simp_all

lemma not_transitioning: "modal_ok cfg m \<Longrightarrow> \<not> m_transitioning m \<Longrightarrow> only_gone m"
proof -
  assume m: "modal_ok cfg m" "\<not> m_transitioning m"
  have "\<exists>b. p = BackdropGone b ThenHidden" if "pend_ok m p" for p using that m(2) by (cases p) auto
  then show ?thesis using m(1) by (auto simp: only_gone_def modal_ok_def list_all_iff)
qed

lemma remove_waiting:
  assumes "modal_ok cfg m" "p \<in> set (m_pending m)" "body_wait p"
  shows "only_gone (m\<lparr>m_pending := remove1 p (m_pending m)\<rparr>)"
proof -
  have ok: "\<And>q. q \<in> set (m_pending m) \<Longrightarrow> pend_ok m q" and l: "length (filter body_wait (m_pending m)) \<le> 1"
    using assms(1) by (auto simp: modal_ok_def list_all_iff)
  have "p \<in> set (filter body_wait (m_pending m))" using assms by simp
  then have f: "filter body_wait (m_pending m) = [p]" using l by (cases "filter body_wait (m_pending m)") (auto split: if_splits)
  have "filter body_wait (remove1 p (m_pending m)) = []" using f by (simp add: List.filter_remove1)
  then have nw: "\<not> body_wait q" if "q \<in> set (remove1 p (m_pending m))" for q using that by (metis filter_empty_conv)
  have "q \<in> set (m_pending m)" if "q \<in> set (remove1 p (m_pending m))" for q using that by (meson notin_set_remove1)
  then have "\<exists>b. q = BackdropGone b ThenHidden" if "q \<in> set (remove1 p (m_pending m))" for q
    using pend_gone ok nw that by blast
  then show ?thesis by (simp add: only_gone_def list_all_iff)
qed

section \<open>Every operation keeps them\<close>

lemma fade_cong: "m_classes m' = m_classes m \<Longrightarrow> fade m' = fade m"
  by (simp add: fade_def)

lemma fade_show [simp]: "''fade'' \<in> set (insert_name ''show'' ns) \<longleftrightarrow> ''fade'' \<in> set ns"
  by simp

lemma pending_frame [simp]:
  "m_shown (setEscapeEvent cfg m) = m_shown m" "m_transitioning (setEscapeEvent cfg m) = m_transitioning m" "m_pending (setEscapeEvent cfg m) = m_pending m" "m_classes (setEscapeEvent cfg m) = m_classes m"
  "m_shown (setResizeEvent m) = m_shown m" "m_transitioning (setResizeEvent m) = m_transitioning m" "m_pending (setResizeEvent m) = m_pending m" "m_classes (setResizeEvent m) = m_classes m"
  "m_shown (adjustDialog V m) = m_shown m" "m_transitioning (adjustDialog V m) = m_transitioning m" "m_pending (adjustDialog V m) = m_pending m" "m_classes (adjustDialog V m) = m_classes m"
  "m_shown (setScrollbar V m) = m_shown m" "m_transitioning (setScrollbar V m) = m_transitioning m" "m_pending (setScrollbar V m) = m_pending m" "m_classes (setScrollbar V m) = m_classes m"
  by (simp_all add: setEscapeEvent_def setResizeEvent_def adjustDialog_def setScrollbar_def bind_handler_def unbind_def Let_def)

lemma page_frame [simp]:
  "m_next (setEscapeEvent cfg m) = m_next m" "m_backdrops (setEscapeEvent cfg m) = m_backdrops m" "m_display (setEscapeEvent cfg m) = m_display m" "m_backdrop (setEscapeEvent cfg m) = m_backdrop m"
  "m_next (setResizeEvent m) = m_next m" "m_backdrops (setResizeEvent m) = m_backdrops m" "m_display (setResizeEvent m) = m_display m" "m_backdrop (setResizeEvent m) = m_backdrop m"
  "m_next (adjustDialog V m) = m_next m" "m_backdrops (adjustDialog V m) = m_backdrops m" "m_display (adjustDialog V m) = m_display m" "m_backdrop (adjustDialog V m) = m_backdrop m"
  "m_next (setScrollbar V m) = m_next m" "m_backdrops (setScrollbar V m) = m_backdrops m" "m_display (setScrollbar V m) = m_display m" "m_backdrop (setScrollbar V m) = m_backdrop m"
  "m_next (checkScrollbar V m) = m_next m" "m_backdrops (checkScrollbar V m) = m_backdrops m" "m_display (checkScrollbar V m) = m_display m" "m_backdrop (checkScrollbar V m) = m_backdrop m"
  "m_shown (checkScrollbar V m) = m_shown m" "m_transitioning (checkScrollbar V m) = m_transitioning m" "m_pending (checkScrollbar V m) = m_pending m" "m_classes (checkScrollbar V m) = m_classes m" "m_handlers (checkScrollbar V m) = m_handlers m"
  by (simp_all add: setEscapeEvent_def setResizeEvent_def adjustDialog_def setScrollbar_def checkScrollbar_def bind_handler_def unbind_def Let_def)

lemma box_frame [simp]:
  "m_log (setEscapeEvent cfg m) = m_log m" "m_open (setEscapeEvent cfg m) = m_open m" "m_body (setEscapeEvent cfg m) = m_body m" "m_boxes (setEscapeEvent cfg m) = m_boxes m"
  "m_log (setResizeEvent m) = m_log m" "m_open (setResizeEvent m) = m_open m" "m_body (setResizeEvent m) = m_body m" "m_boxes (setResizeEvent m) = m_boxes m"
  "m_log (adjustDialog V m) = m_log m" "m_open (adjustDialog V m) = m_open m" "m_body (adjustDialog V m) = m_body m" "m_boxes (adjustDialog V m) = m_boxes m"
  "m_log (checkScrollbar V m) = m_log m" "m_open (checkScrollbar V m) = m_open m" "m_body (checkScrollbar V m) = m_body m" "m_boxes (checkScrollbar V m) = m_boxes m"
  "m_log (setScrollbar V m) = m_log m"
  by (simp_all add: setEscapeEvent_def setResizeEvent_def adjustDialog_def setScrollbar_def checkScrollbar_def bind_handler_def unbind_def Let_def)

lemma handlers_frame [simp]: "m_handlers (adjustDialog V m) = m_handlers m" "m_handlers (setScrollbar V m) = m_handlers m"
  by (simp_all add: adjustDialog_def setScrollbar_def Let_def)

lemma handlers_reset [simp]: "m_handlers (resetScrollbar m) = m_handlers m" "m_handlers (resetAdjustments m) = m_handlers m"
  "m_shown (resetScrollbar m) = m_shown m" "m_shown (resetAdjustments m) = m_shown m"
  "m_pending (resetScrollbar m) = m_pending m" "m_pending (resetAdjustments m) = m_pending m"
  "m_transitioning (resetScrollbar m) = m_transitioning m" "m_transitioning (resetAdjustments m) = m_transitioning m"
  by (simp_all add: resetScrollbar_def resetAdjustments_def)

lemma hidden_ok: "calm page \<Longrightarrow> modal_ok cfg m \<Longrightarrow> modal_ok cfg (run_call page cfg ThenHidden m)"
  by (rule modal_ok_cong [of cfg m]) simp_all

lemma removeBackdrop_ok: "modal_ok cfg m \<Longrightarrow> modal_ok cfg (removeBackdrop m)"
proof (cases "m_backdrop m")
  case (Some b)
  assume ok: "modal_ok cfg m"
  have "length (filter body_wait (filter Q ps)) \<le> length (filter body_wait ps)" for Q and ps :: "mpend list"
    by (induction ps) auto
  then have "length (filter body_wait (filter Q (m_pending m))) \<le> 1" for Q using ok unfolding modal_ok_def by (meson le_trans)
  moreover have "pend_ok (m\<lparr>m_backdrop := B, m_backdrops := D, m_pending := P\<rparr>) = pend_ok m" for B D P by (rule pend_ok_cong) simp_all
  ultimately show ?thesis using ok Some by (auto simp: modal_ok_def handlers_ok_def removeBackdrop_def list_all_iff)
qed (simp add: removeBackdrop_def)

lemma removeBackdrop_frame [simp]: "m_shown (removeBackdrop m) = m_shown m" "m_transitioning (removeBackdrop m) = m_transitioning m"
  by (simp_all add: removeBackdrop_def split: option.splits)

lemma count_filter: "count_list (filter P xs) x = (if P x then count_list xs x else 0)"
  by (induction xs) auto

lemma showElement_ok:
  assumes "calm page" "m_shown m" "bound_when_shown cfg (m_handlers m)" "only_gone m" "fade m \<Longrightarrow> m_transitioning m"
  shows "modal_ok cfg (showElement page cfg m)"
proof -
  let ?m1 = "m\<lparr>m_attached := True, m_display := ''block'', m_ariaHidden := False, m_ariaModal := True, m_classes := insert_name ''show'' (m_classes m)\<rparr>"
  let ?m2 = "if c_focus cfg then enforceFocus ?m1 else ?m1"
  have h: "bound_when_shown cfg (m_handlers ?m2)"
    using assms(3) by (auto simp: bound_when_shown_def enforceFocus_def bind_handler_def unbind_def count_filter)
  have f: "m_shown ?m2" "m_pending ?m2 = m_pending m" "m_transitioning ?m2 = m_transitioning m"
    using assms(2) by (simp_all add: enforceFocus_def bind_handler_def unbind_def)
  show ?thesis
  proof (cases "fade m")
    case True
    then show ?thesis using only_gone_wait [OF assms(4)] h f assms(5)
      by (simp add: showElement_def Let_def modal_ok_def handlers_ok_def)
  next
    case False
    then have e: "showElement page cfg m = transitionComplete page ?m2" unfolding showElement_def Let_def by (simp only: if_False)
    show ?thesis unfolding e using only_gone_wait [OF assms(4)] h f assms(1)
      by (simp add: transitionComplete_def modal_ok_def handlers_ok_def)
  qed
qed

lemma show_ok:
  assumes "calm page" "modal_ok cfg m"
  shows "modal_ok cfg (show_modal page V cfg m)"
proof (cases "m_shown m \<or> m_transitioning m")
  case False
  obtain m1 b where t: "trigger_modal page ''show'' (if fade m then m\<lparr>m_transitioning := True\<rparr> else m) = (m1, b)" by (metis prod.collapse)
  have m1: "\<not> m_shown m1" "m_transitioning m1 \<longleftrightarrow> fade m" "m_handlers m1 = m_handlers m" "m_pending m1 = m_pending m" "m_classes m1 = m_classes m"
    using calm_trigger [OF assms(1) t] False by simp_all
  have og: "only_gone m" using not_transitioning [OF assms(2)] False by simp
  have hs: "list_all (\<lambda>h. h = MouseUp) (m_handlers m)" using assms(2) False by (simp add: modal_ok_def handlers_ok_def)
  have c0: "count_list (m_handlers m) h = 0" if "h \<noteq> MouseUp" for h using hs that by (auto simp: count_list_0_iff list_all_iff)
  show ?thesis
  proof (cases b)
    case True
    then show ?thesis using False t only_gone_wait [OF og] hs m1
      by (simp add: show_modal_def modal_ok_def handlers_ok_def)
  next
    case False
    note nb = this
    let ?m2 = "bind_handler DialogDown (bind_handler DismissClick (setResizeEvent (setEscapeEvent cfg
                 (adjustDialog V (setScrollbar V (checkScrollbar V (m1\<lparr>m_shown := True\<rparr>)))))))"
    have e: "show_modal page V cfg m = showBackdrop page cfg ThenShow ?m2"
      using nb \<open>\<not> (m_shown m \<or> m_transitioning m)\<close> t m1(1) by (simp add: show_modal_def)
    have f: "m_shown ?m2" "m_transitioning ?m2 \<longleftrightarrow> fade m" "m_pending ?m2 = m_pending m" "fade ?m2 = fade m"
      using m1 by (simp_all add: bind_handler_def checkScrollbar_def fade_def)
    have h: "bound_when_shown cfg (m_handlers ?m2)" "count_list (m_handlers ?m2) BackdropClick = 0"
      using m1(3) c0 by (simp_all add: bound_when_shown_def bind_handler_def setResizeEvent_def setEscapeEvent_def checkScrollbar_def)
    have og2: "only_gone ?m2" using og f(3) by (simp add: only_gone_def)
    show ?thesis
    proof (cases "truthy (c_backdrop cfg)")
      case True
      let ?m3 = "bind_handler BackdropClick (?m2\<lparr>m_backdrop := Some (m_next ?m2), m_backdrops := m_backdrops ?m2 @ [m_next ?m2], m_next := Suc (m_next ?m2)\<rparr>)"
      have g: "m_shown ?m3" "m_transitioning ?m3 \<longleftrightarrow> fade m" "m_pending ?m3 = m_pending m" "fade ?m3 = fade m" "only_gone ?m3"
        using f og2 by (simp_all add: bind_handler_def fade_def only_gone_def)
      have h3: "bound_when_shown cfg (m_handlers ?m3)" using h by (simp add: bind_handler_def bound_when_shown_def)
      have s: "showBackdrop page cfg ThenShow ?m2 = (if \<not> fade m then showElement page cfg ?m3 else ?m3\<lparr>m_pending := m_pending ?m3 @ [BackdropShown (m_next ?m2) ThenShow]\<rparr>)"
        using True f(1) f(4) unfolding showBackdrop_def Let_def by (simp only: simp_thms if_True run_call.simps)
      show ?thesis
      proof (cases "fade m")
        case True
        then show ?thesis unfolding e s using g h3 only_gone_wait [OF g(5)] by (simp add: modal_ok_def handlers_ok_def)
      next
        case False
        then show ?thesis unfolding e s using showElement_ok [OF assms(1) g(1) h3 g(5)] g by simp
      qed
    next
      case False
      then have "showBackdrop page cfg ThenShow ?m2 = showElement page cfg ?m2"
        using f(1) unfolding showBackdrop_def Let_def by (simp only: simp_thms if_False if_True run_call.simps option.case_eq_if if_cancel split: if_split)
      then show ?thesis unfolding e using showElement_ok [OF assms(1) f(1) h(1) og2] f by simp
    qed
  qed
qed (use assms in \<open>simp add: show_modal_def\<close>)

lemma hideModal_ok:
  assumes "calm page" "\<not> m_shown m" "list_all (\<lambda>h. h = MouseUp) (m_handlers m)" "only_gone m"
  shows "modal_ok cfg (hideModal page cfg m)"
proof -
  let ?m = "m\<lparr>m_display := ''none'', m_ariaHidden := True, m_ariaModal := False, m_transitioning := False\<rparr>"
  have ok: "modal_ok cfg ?m" using assms only_gone_wait [OF assms(4)] by (simp add: modal_ok_def handlers_ok_def)
  have "modal_ok cfg (?m\<lparr>m_pending := m_pending m @ [BackdropGone b ThenHidden]\<rparr>)" for b
    using assms only_gone_wait [OF assms(4)] by (simp add: modal_ok_def handlers_ok_def)
  moreover have "modal_ok cfg (run_call page cfg ThenHidden ?m)" "modal_ok cfg (run_call page cfg ThenHidden (removeBackdrop ?m))"
    using hidden_ok [OF assms(1)] ok removeBackdrop_ok by blast+
  ultimately show ?thesis using assms(2) by (simp add: hideModal_def showBackdrop_def Let_def split: option.split del: run_call.simps)
qed

lemma hide_ok:
  assumes "calm page" "modal_ok cfg m"
  shows "modal_ok cfg (hide_modal page cfg m)"
proof (cases "\<not> m_shown m \<or> m_transitioning m")
  case False
  obtain m1 b where t: "trigger_modal page ''hide'' m = (m1, b)" by (metis prod.collapse)
  have m1: "m_shown m1" "\<not> m_transitioning m1" "m_handlers m1 = m_handlers m" "m_pending m1 = m_pending m" "m_classes m1 = m_classes m"
    using calm_trigger [OF assms(1) t] False by simp_all
  have og: "only_gone m1" using not_transitioning [OF assms(2)] False m1 by (simp add: only_gone_def)
  show ?thesis
  proof (cases b)
    case True
    have "hide_modal page cfg m = m1" using True False t by (simp add: hide_modal_def)
    moreover have "modal_ok cfg m1" using modal_ok_cong [OF assms(2)] calm_trigger [OF assms(1) t] by simp
    ultimately show ?thesis by simp
  next
    case nb: False
    let ?m2 = "setResizeEvent (setEscapeEvent cfg (m1\<lparr>m_shown := False, m_transitioning := (if fade m1 then True else m_transitioning m1)\<rparr>))"
    let ?m3 = "unbind {DismissClick, BackdropClick, DialogDown, FocusIn} (?m2\<lparr>m_classes := remove_name_from ''show'' (m_classes ?m2)\<rparr>)"
    have e: "hide_modal page cfg m = (if fade m1 then ?m3\<lparr>m_pending := m_pending ?m3 @ [HideEnd]\<rparr> else hideModal page cfg ?m3)"
      using nb False t m1 by (simp add: hide_modal_def Let_def)
    have f: "\<not> m_shown ?m3" "m_transitioning ?m3 \<longleftrightarrow> fade m1" "m_pending ?m3 = m_pending m1" "only_gone ?m3"
      using m1 og by (simp_all add: unbind_def only_gone_def)
    have h: "list_all (\<lambda>h. h = MouseUp) (m_handlers ?m3)"
    proof -
      have "h = MouseUp" if "h \<in> set (m_handlers ?m3)" for h
        using that by (intro other_handler) (auto simp: unbind_def setResizeEvent_def setEscapeEvent_def)
      then show ?thesis by (simp add: list_all_iff)
    qed
    show ?thesis
    proof (cases "fade m1")
      case True
      then show ?thesis unfolding e using f h only_gone_wait [OF f(4)] by (simp add: modal_ok_def handlers_ok_def)
    next
      case False
      then show ?thesis unfolding e using hideModal_ok [OF assms(1) f(1) h f(4)] by simp
    qed
  qed
qed (use assms in \<open>simp add: hide_modal_def\<close>)

lemma end_transition_ok:
  assumes "calm page" "modal_ok cfg m"
  shows "modal_ok cfg (end_transition page cfg p m)"
proof (cases "p \<in> set (m_pending m)")
  case True
  let ?m = "m\<lparr>m_pending := remove1 p (m_pending m)\<rparr>"
  have pk: "pend_ok m p" using assms(2) True by (auto simp: modal_ok_def list_all_iff)
  have e: "end_transition page cfg p m = transition_end page cfg p ?m" using True by (simp add: end_transition_def)
  show ?thesis
  proof (cases p)
    case ElementShown
    then have "only_gone ?m" using remove_waiting [OF assms(2) True] by simp
    from only_gone_wait [OF this] show ?thesis unfolding e using ElementShown pk assms
      by (simp add: transitionComplete_def modal_ok_def handlers_ok_def)
  next
    case HideEnd
    then have "only_gone ?m" using remove_waiting [OF assms(2) True] by simp
    then show ?thesis unfolding e using HideEnd pk assms hideModal_ok [OF assms(1), of ?m cfg] by (simp add: modal_ok_def handlers_ok_def)
  next
    case (BackdropShown b k)
    then have "only_gone ?m" using remove_waiting [OF assms(2) True] by simp
    then show ?thesis unfolding e using BackdropShown pk assms showElement_ok [OF assms(1), of ?m cfg] by (simp add: modal_ok_def handlers_ok_def)
  next
    case (BackdropGone b k)
    have "length (filter body_wait (remove1 p ps)) \<le> length (filter body_wait ps)" for ps by (induction ps) auto
    then have "length (filter body_wait (remove1 p (m_pending m))) \<le> 1" using assms(2) unfolding modal_ok_def by (meson le_trans)
    moreover have "q \<in> set (m_pending m)" if "q \<in> set (remove1 p (m_pending m))" for q using that by (meson notin_set_remove1)
    ultimately have "modal_ok cfg ?m" using assms(2) pend_ok_cong [of ?m m] by (auto simp: modal_ok_def handlers_ok_def list_all_iff)
    then show ?thesis unfolding e using BackdropGone pk hidden_ok [OF assms(1) removeBackdrop_ok] by simp
  qed
qed (use assms in \<open>simp add: end_transition_def\<close>)

lemma mouse_ok: "modal_ok cfg m \<Longrightarrow> modal_ok cfg (mouse_down m)" "modal_ok cfg m \<Longrightarrow> modal_ok cfg (mouse_up b m)"
proof -
  assume ok: "modal_ok cfg m"
  show "modal_ok cfg (mouse_down m)" using ok pend_ok_cong [of "bind_handler MouseUp m" m]
    by (auto simp: mouse_down_def modal_ok_def handlers_ok_def bind_handler_def bound_when_shown_def)
  show "modal_ok cfg (mouse_up b m)" using ok pend_ok_cong [of "(unbind {MouseUp} m)\<lparr>m_ignoreClick := C\<rparr>" m for C]
    by (auto simp: mouse_up_def modal_ok_def handlers_ok_def unbind_def bound_when_shown_def count_filter list_all_iff)
qed

lemma ignore_ok: "modal_ok cfg m \<Longrightarrow> modal_ok cfg (m\<lparr>m_ignoreClick := b\<rparr>)"
  by (rule modal_ok_cong) simp_all

lemma resize_ok: "modal_ok cfg m \<Longrightarrow> modal_ok cfg (window_resize V m)"
  by (rule modal_ok_cong [of cfg m]) (simp_all add: window_resize_def)

lemma do_mop_ok: "calm page \<Longrightarrow> modal_ok cfg m \<Longrightarrow> modal_ok cfg (do_mop page V cfg op m)"
  by (cases op) (simp_all add: show_ok hide_ok toggle_modal_def end_transition_ok escape_key_def backdrop_click_def dismiss_click_def
    mouse_ok ignore_ok resize_ok Let_def)

definition modal_init :: "modal \<Rightarrow> bool" where
  "modal_init m \<longleftrightarrow> (\<exists>cs body boxes. m = new_modal cs body boxes)"

definition modal_step :: "mpage \<Rightarrow> view \<Rightarrow> mconfig \<Rightarrow> modal \<Rightarrow> modal \<Rightarrow> bool" where
  "modal_step page V cfg m m' \<longleftrightarrow> calm page \<and> (\<exists>op. m' = do_mop page V cfg op m)"

interpretation dialog: inductive_invariant modal_init "modal_step page V cfg" "modal_ok cfg" for page V cfg
  by unfold_locales (auto simp: modal_init_def modal_step_def do_mop_ok, auto simp: modal_ok_def handlers_ok_def new_modal_def)


section \<open>Stuck modals\<close>

definition stuck :: "modal \<Rightarrow> bool" where
  \<comment> \<open>in transition, with no transition to wait for\<close>
  "stuck m \<longleftrightarrow> m_transitioning m \<and> m_pending m = []"

lemma hide_transitioning [simp]: "m_transitioning m \<Longrightarrow> hide_modal page cfg m = m"
  by (simp add: hide_modal_def)

lemma show_transitioning [simp]: "m_transitioning m \<Longrightarrow> show_modal page V cfg m = m"
  by (simp add: show_modal_def)

lemma stuck_step:
  assumes "stuck m" "m' = do_mop page V cfg op m"
  shows "stuck m' \<and> m_shown m' = m_shown m \<and> m_display m' = m_display m \<and> m_backdrops m' = m_backdrops m \<and> m_log m' = m_log m"
  using assms by (cases op)
    (auto simp: stuck_def toggle_modal_def end_transition_def escape_key_def backdrop_click_def dismiss_click_def mouse_down_def mouse_up_def
      window_resize_def adjustDialog_def bind_handler_def unbind_def Let_def)

lemma stuck_run: "stuck m \<Longrightarrow> m' = fold (do_mop page V cfg) ops m \<Longrightarrow>
   stuck m' \<and> m_shown m' = m_shown m \<and> m_display m' = m_display m \<and> m_backdrops m' = m_backdrops m \<and> m_log m' = m_log m"
proof (induction ops arbitrary: m)
  case (Cons op ops)
  from stuck_step [OF Cons.prems(1) refl, of page V cfg op] show ?case using Cons.IH [of "do_mop page V cfg op m"] Cons.prems(2) by simp
qed simp

text \<open>When a handler of the page prevents the show event of a modal that fades, the modal can never be shown
  again: the flag that it is in transition was set before the event, and nothing resets it.\<close>

theorem prevented_show_blocks_modal:
  assumes "calm page" "snd (trigger_modal page ''show'' (m\<lparr>m_transitioning := True\<rparr>))"
    and "fade m" "\<not> m_shown m" "\<not> m_transitioning m" "m_pending m = []"
  shows "\<not> m_shown (fold (do_mop page' V cfg) ops (show_modal page V cfg m))
    \<and> m_log (fold (do_mop page' V cfg) ops (show_modal page V cfg m)) = m_log (show_modal page V cfg m)"
proof -
  obtain m1 where t: "trigger_modal page ''show'' (m\<lparr>m_transitioning := True\<rparr>) = (m1, True)" using assms(2) by (metis prod.collapse)
  have s: "show_modal page V cfg m = m1" using assms t by (simp add: show_modal_def)
  have "stuck m1" "\<not> m_shown m1" using calm_trigger [OF assms(1) t] assms by (simp_all add: stuck_def)
  then show ?thesis unfolding s using stuck_run [OF _ refl, of m1 page' V cfg ops] by simp
qed

text \<open>A modal that fades and is shown again while its backdrop fades out is lost: when the old backdrop has
  gone, the modal counts as shown and in transition, is not displayed and cannot be hidden, and the old
  backdrop stays in the page.\<close>

theorem reshow_while_fading_loses_modal:
  assumes "calm page" "truthy (c_backdrop cfg)" "fade m" "\<not> m_shown m" "\<not> m_transitioning m"
    and "m_pending m = [BackdropGone b ThenHidden]" "b \<in> set (m_backdrops m)" "b < m_next m"
    and "\<not> snd (trigger_modal page ''show'' (m\<lparr>m_transitioning := True\<rparr>))"
    and "m' = fold (do_mop page' V' cfg) ops (end_transition page cfg (BackdropGone b ThenHidden) (show_modal page V cfg m))"
  shows "m_shown m' \<and> m_transitioning m' \<and> m_display m' = m_display m \<and> b \<in> set (m_backdrops m')"
proof -
  let ?k = "Suc (m_next m)"
  obtain m1 where t: "trigger_modal page ''show'' (m\<lparr>m_transitioning := True\<rparr>) = (m1, False)" using assms(9) by (metis (full_types) prod.collapse)
  note c = calm_trigger [OF assms(1) t]
  let ?m2 = "bind_handler DialogDown (bind_handler DismissClick (setResizeEvent (setEscapeEvent cfg
                 (adjustDialog V (setScrollbar V (checkScrollbar V (m1\<lparr>m_shown := True\<rparr>)))))))"
  have same: "m_shown ?m2" "m_transitioning ?m2" "m_pending ?m2 = m_pending m" "m_next ?m2 = m_next m" "m_backdrops ?m2 = m_backdrops m"
    "m_display ?m2 = m_display m" "fade ?m2"
    using c assms(3) by (simp_all add: fade_def bind_handler_def)
  let ?m3 = "show_modal page V cfg m"
  have s: "m_shown ?m3" "m_transitioning ?m3" "m_pending ?m3 = [BackdropGone b ThenHidden, BackdropShown (m_next m) ThenShow]" "m_backdrop ?m3 = Some (m_next m)"
    "m_backdrops ?m3 = m_backdrops m @ [m_next m]" "m_display ?m3 = m_display m"
  proof -
    have "?m3 = showBackdrop page cfg ThenShow ?m2" using t assms(3-5) c by (simp add: show_modal_def)
    also have "\<dots> = (bind_handler BackdropClick (?m2\<lparr>m_backdrop := Some (m_next ?m2), m_backdrops := m_backdrops ?m2 @ [m_next ?m2], m_next := Suc (m_next ?m2)\<rparr>))
        \<lparr>m_pending := m_pending ?m2 @ [BackdropShown (m_next ?m2) ThenShow]\<rparr>"
      using same(1,7) assms(2) unfolding showBackdrop_def Let_def by (simp add: bind_handler_def)
    finally show "m_shown ?m3" "m_transitioning ?m3" "m_pending ?m3 = [BackdropGone b ThenHidden, BackdropShown (m_next m) ThenShow]" "m_backdrop ?m3 = Some (m_next m)"
      "m_backdrops ?m3 = m_backdrops m @ [m_next m]" "m_display ?m3 = m_display m"
      using same assms(6) by (simp_all add: bind_handler_def)
  qed
  let ?m4 = "end_transition page cfg (BackdropGone b ThenHidden) ?m3"
  have "?m4 = fst (trigger_modal page ''hidden'' (resetScrollbar (resetAdjustments ((removeBackdrop (?m3\<lparr>m_pending := [BackdropShown (m_next m) ThenShow]\<rparr>))\<lparr>m_open := False\<rparr>))))"
    using s(3) by (simp add: end_transition_def)
  then have "stuck ?m4 \<and> m_shown ?m4 \<and> m_display ?m4 = m_display m \<and> m_backdrops ?m4 = filter (\<lambda>d. d \<noteq> m_next m) (m_backdrops m @ [m_next m])"
    using s assms(1) by (simp add: stuck_def removeBackdrop_def resetScrollbar_def resetAdjustments_def)
  moreover from this have "b \<in> set (m_backdrops ?m4)" using assms(7,8) by simp
  ultimately show ?thesis unfolding assms(10) using stuck_run [OF _ refl, of ?m4 page' V' cfg ops] by (simp add: stuck_def)
qed

section \<open>Opening and closing\<close>

definition quiet :: mpage where
  \<comment> \<open>a page without handlers\<close>
  "quiet ev m = (m, False)"

fun settle :: "nat \<Rightarrow> mconfig \<Rightarrow> modal \<Rightarrow> modal" where
  \<comment> \<open>lets the transitions end, the oldest first\<close>
  "settle 0 cfg m = m"
| "settle (Suc n) cfg m = (case m_pending m of [] \<Rightarrow> m | p # ps \<Rightarrow> settle n cfg (end_transition quiet cfg p m))"

definition untouched :: "box \<Rightarrow> bool" where
  "untouched b \<longleftrightarrow> x_pad_saved b = None \<and> x_margin_saved b = None"

definition closed :: "modal \<Rightarrow> bool" where
  \<comment> \<open>hidden, with nothing to wait for\<close>
  "closed m \<longleftrightarrow> \<not> m_shown m \<and> \<not> m_transitioning m \<and> m_pending m = [] \<and> m_backdrop m = None \<and> \<not> m_open m \<and> m_handlers m = []
     \<and> untouched (m_body m) \<and> list_all untouched (m_boxes m) \<and> ''show'' \<notin> set (m_classes m) \<and> list_all (\<lambda>b. b < m_next m) (m_backdrops m)"

definition prepared :: "view \<Rightarrow> mconfig \<Rightarrow> modal \<Rightarrow> modal" where
  "prepared V cfg m = bind_handler DialogDown (bind_handler DismissClick (setResizeEvent (setEscapeEvent cfg
      (adjustDialog V (setScrollbar V (checkScrollbar V (m\<lparr>m_shown := True\<rparr>)))))))"

lemma prepared_fields [simp]:
  "m_shown (prepared V cfg m)" "m_transitioning (prepared V cfg m) = m_transitioning m" "m_pending (prepared V cfg m) = m_pending m"
  "m_classes (prepared V cfg m) = m_classes m" "m_backdrop (prepared V cfg m) = m_backdrop m" "m_backdrops (prepared V cfg m) = m_backdrops m"
  "m_next (prepared V cfg m) = m_next m" 
  by (simp_all add: prepared_def bind_handler_def)

lemma prepared_page [simp]:
  "m_log (prepared V cfg m) = m_log m" "m_open (prepared V cfg m)"
  "m_body (prepared V cfg m) = (if w_span V < w_inner V then pad_box V (w_bar V) (m_body m) else m_body m)"
  "m_boxes (prepared V cfg m) = (if w_span V < w_inner V then map (shift_box V (w_bar V)) (map (pad_box V (w_bar V)) (m_boxes m)) else m_boxes m)"
  by (simp_all add: prepared_def bind_handler_def, simp_all add: setScrollbar_def checkScrollbar_def)

lemma box_restored: "untouched b \<Longrightarrow> unpad_box (pad_box V w b) = b" "untouched b \<Longrightarrow> unshift_box (unpad_box (shift_box V w (pad_box V w b))) = b"
  by (simp_all add: untouched_def pad_box_def unpad_box_def or_unset_def shift_box_def unshift_box_def)

lemma box_lost: "untouched b \<Longrightarrow> unshift_box (unpad_box b) = b\<lparr>x_pad := Unset\<rparr>" "untouched b \<Longrightarrow> unpad_box b = b\<lparr>x_pad := Unset\<rparr>"
  by (cases b; simp add: untouched_def unpad_box_def or_unset_def unshift_box_def)+

definition opened :: "view \<Rightarrow> mconfig \<Rightarrow> modal \<Rightarrow> modal \<Rightarrow> bool" where
  \<comment> \<open>a state that an opened modal may be in, in terms of the state before\<close>
  "opened V cfg m n \<longleftrightarrow> m_shown n \<and> \<not> m_transitioning n \<and> m_pending n = [] \<and> m_classes n = insert_name ''show'' (m_classes m)
     \<and> (if truthy (c_backdrop cfg) then m_backdrop n = Some (m_next m) \<and> m_backdrops n = m_backdrops m @ [m_next m] else m_backdrop n = None \<and> m_backdrops n = m_backdrops m)
     \<and> m_body n = m_body (prepared V cfg m) \<and> m_boxes n = m_boxes (prepared V cfg m) \<and> m_log n = m_log m @ [''show'', ''shown''] \<and> m_display n = ''block'' \<and> m_open n"

lemma focus_frame [simp]:
  "m_shown (enforceFocus m) = m_shown m" "m_transitioning (enforceFocus m) = m_transitioning m" "m_pending (enforceFocus m) = m_pending m"
  "m_classes (enforceFocus m) = m_classes m" "m_backdrop (enforceFocus m) = m_backdrop m" "m_backdrops (enforceFocus m) = m_backdrops m"
  "m_body (enforceFocus m) = m_body m" "m_boxes (enforceFocus m) = m_boxes m" "m_log (enforceFocus m) = m_log m" "m_display (enforceFocus m) = m_display m"
  "m_open (enforceFocus m) = m_open m"
  by (simp_all add: enforceFocus_def bind_handler_def unbind_def)

lemma opens:
  assumes "closed m"
  shows "opened V cfg m (settle 2 cfg (show_modal quiet V cfg m))"
proof -
  let ?m = "prepared V cfg ((if fade m then m\<lparr>m_transitioning := True\<rparr> else m)\<lparr>m_log := m_log m @ [''show'']\<rparr>)"
  have s: "show_modal quiet V cfg m = showBackdrop quiet cfg ThenShow ?m"
    using assms by (cases "fade m") (simp_all add: closed_def show_modal_def trigger_modal_def quiet_def prepared_def [symmetric])
  have f: "fade ?m = fade m" by (simp add: fade_def)
  show ?thesis
  proof (cases "fade m")
    case True
    then show ?thesis unfolding s using assms f
      by (simp add: closed_def opened_def showBackdrop_def bind_handler_def numeral_2_eq_2 end_transition_def showElement_def Let_def
          transitionComplete_def trigger_modal_def quiet_def fade_def split: option.split)
  next
    case False
    then show ?thesis unfolding s using assms f
      by (simp add: closed_def opened_def showBackdrop_def bind_handler_def numeral_2_eq_2 showElement_def Let_def
          transitionComplete_def trigger_modal_def quiet_def fade_def split: option.split)
  qed
qed

definition reopenable :: "modal \<Rightarrow> modal \<Rightarrow> bool" where
  \<comment> \<open>hidden again, as far as the page and the state of the modal go\<close>
  "reopenable m n \<longleftrightarrow> \<not> m_shown n \<and> \<not> m_transitioning n \<and> m_pending n = [] \<and> m_backdrop n = None \<and> m_backdrops n = m_backdrops m
     \<and> m_classes n = m_classes m \<and> \<not> m_open n \<and> m_display n = ''none'' \<and> m_log n = m_log m @ [''show'', ''shown'', ''hide'', ''hidden'']"

lemma closes:
  assumes "closed m" "opened V cfg m n"
  shows "reopenable m (settle 2 cfg (hide_modal quiet cfg n))
    \<and> m_body (settle 2 cfg (hide_modal quiet cfg n)) = unpad_box (m_body n)
    \<and> m_boxes (settle 2 cfg (hide_modal quiet cfg n)) = map unshift_box (map unpad_box (m_boxes n))"
proof -
  let ?n = "n\<lparr>m_log := m_log n @ [''hide'']\<rparr>"
  let ?m2 = "setResizeEvent (setEscapeEvent cfg (?n\<lparr>m_shown := False, m_transitioning := (if fade n then True else m_transitioning n)\<rparr>))"
  define m3 where "m3 = unbind {DismissClick, BackdropClick, DialogDown, FocusIn} (?m2\<lparr>m_classes := remove_name_from ''show'' (m_classes ?m2)\<rparr>)"
  have o: "m_shown n" "\<not> m_transitioning n" "m_pending n = []" using assms(2) by (simp_all add: opened_def)
  have h: "hide_modal quiet cfg n = (if fade n then m3\<lparr>m_pending := [HideEnd]\<rparr> else hideModal quiet cfg m3)"
    using o by (simp add: hide_modal_def trigger_modal_def quiet_def Let_def m3_def fade_def unbind_def)
  have cl: "remove_name_from ''show'' (m_classes n) = m_classes m" using assms by (simp add: opened_def closed_def)
  have f: "\<not> m_shown m3" "m_transitioning m3 \<longleftrightarrow> fade n" "m_pending m3 = []" "m_classes m3 = m_classes m" "m_log m3 = m_log n @ [''hide'']"
    "m_backdrop m3 = m_backdrop n" "m_backdrops m3 = m_backdrops n" "m_body m3 = m_body n" "m_boxes m3 = m_boxes n"
    using o cl by (simp_all add: m3_def unbind_def)
  have fn: "fade n = fade m" "fade m3 = fade m" using f(4) assms(2) by (simp_all add: fade_def opened_def)
  have bd: "filter (\<lambda>d. d \<noteq> m_next m) (m_backdrops m) = m_backdrops m"
    using assms(1) by (auto simp: closed_def filter_id_conv list_all_iff)
  show ?thesis
  proof (cases "fade m")
    case True
    then show ?thesis unfolding h using assms f fn bd
      by (simp add: opened_def reopenable_def numeral_2_eq_2 end_transition_def hideModal_def showBackdrop_def Let_def trigger_modal_def quiet_def
         removeBackdrop_def resetScrollbar_def resetAdjustments_def fade_def split: option.split if_splits)
  next
    case False
    then show ?thesis unfolding h using assms f fn bd
      by (simp add: opened_def reopenable_def numeral_2_eq_2 end_transition_def hideModal_def showBackdrop_def Let_def trigger_modal_def quiet_def
         removeBackdrop_def resetScrollbar_def resetAdjustments_def fade_def split: option.split if_splits)
  qed
qed

text \<open>C26: Opening a closed modal and closing it again takes at most two transitions each, triggers show, shown, hide and
  hidden in this order, leaves no backdrop behind, and gives the paddings and margins of the page back, if
  the page overflowed; if it did not, inline paddings of the body and of fixed elements are lost.\<close>

theorem open_then_close:
  assumes "closed m" "m' = settle 2 cfg (hide_modal quiet cfg (settle 2 cfg (show_modal quiet V cfg m)))"
  shows "reopenable m m'
    \<and> m_body m' = (if w_span V < w_inner V then m_body m else (m_body m)\<lparr>x_pad := Unset\<rparr>)
    \<and> m_boxes m' = (if w_span V < w_inner V then m_boxes m else map (\<lambda>b. b\<lparr>x_pad := Unset\<rparr>) (m_boxes m))"
proof -
  let ?n = "settle 2 cfg (show_modal quiet V cfg m)"
  have o: "opened V cfg m ?n" by (rule opens [OF assms(1)])
  have u: "untouched (m_body m)" "\<And>b. b \<in> set (m_boxes m) \<Longrightarrow> untouched b" using assms(1) by (auto simp: closed_def list_all_iff)
  have "map unshift_box (map unpad_box (map (shift_box V (w_bar V)) (map (pad_box V (w_bar V)) (m_boxes m)))) = m_boxes m"
    using u(2) by (simp add: map_idI box_restored)
  moreover have "map unshift_box (map unpad_box (m_boxes m)) = map (\<lambda>b. b\<lparr>x_pad := Unset\<rparr>) (m_boxes m)" using u(2) box_lost(1) by (simp only: map_map comp_def map_eq_conv) blast
  ultimately show ?thesis using closes [OF assms(1) o] o u(1) box_restored(1) [OF u(1)] box_lost(2) [OF u(1)]
    unfolding assms(2) by (cases "w_span V < w_inner V") (simp_all add: opened_def comp_assoc)
qed

section \<open>Examples\<close>

definition plain_box :: box where
  "plain_box = \<lparr>x_pad = Px 5, x_pad_sheet = 0, x_pad_saved = None, x_margin = Unset, x_margin_sheet = 0, x_margin_saved = None, x_sticky = False\<rparr>"

definition small_view :: view where
  "small_view = \<lparr>w_resolve = (\<lambda>_. 0), w_span = 985, w_inner = 1000, w_bar = 15, w_scrollHeight = 200, w_clientHeight = 600\<rparr>"

definition usual :: mconfig where
  "usual = \<lparr>c_backdrop = JBool True, c_keyboard = True, c_focus = True\<rparr>"

definition fading_modal :: modal where
  "fading_modal = new_modal [''modal'', ''fade''] plain_box [plain_box\<lparr>x_sticky := True, x_margin := Px 3\<rparr>]"

definition refusing :: mpage where
  "refusing ev m = (m, ev = ''show'')"

lemma calm_examples: "calm quiet" "calm refusing"
  by (simp_all add: calm_def quiet_def refusing_def)

definition fading_out :: modal where
  \<comment> \<open>shown and hidden, while the backdrop fades out\<close>
  "fading_out = fold (do_mop quiet small_view usual) [Show, EndTransition (BackdropShown 0 ThenShow), EndTransition ElementShown, Escape, EndTransition HideEnd] fading_modal"

lemma reach_fold: "calm page \<Longrightarrow> reach modal_init (modal_step page V cfg) m \<Longrightarrow> reach modal_init (modal_step page V cfg) (fold (do_mop page V cfg) ops m)"
proof (induction ops arbitrary: m)
  case (Cons op ops)
  have "reach modal_init (modal_step page V cfg) (do_mop page V cfg op m)"
    by (rule reach_step [OF Cons.prems(2)]) (use Cons.prems(1) in \<open>auto simp: modal_step_def\<close>)
  then show ?case using Cons by simp
qed simp


theorem prevented_show_blocks_modal_witness:
  "\<not> m_shown (fold (do_mop quiet small_view usual) [Show, Toggle, Show] (show_modal refusing small_view usual fading_modal))"
  using prevented_show_blocks_modal [OF calm_examples(2), of fading_modal quiet small_view usual "[Show, Toggle, Show]"]
  by (simp add: trigger_modal_def refusing_def fading_modal_def new_modal_def fade_def del: fold.simps fold_simps)

theorem reshow_while_fading_loses_modal_witness:
  "(let m' = fold (do_mop quiet small_view usual) [Hide, Escape, Show] (end_transition quiet usual (BackdropGone 0 ThenHidden) (show_modal quiet small_view usual fading_out))
    in m_shown m' \<and> m_display m' = ''none'' \<and> 0 \<in> set (m_backdrops m'))"
proof -
  have f: "fade fading_out" "\<not> m_shown fading_out" "\<not> m_transitioning fading_out" "m_pending fading_out = [BackdropGone 0 ThenHidden]"
    "0 \<in> set (m_backdrops fading_out)" "0 < m_next fading_out" "m_display fading_out = ''none''" "truthy (c_backdrop usual)"
    by code_simp+
  show ?thesis
    using reshow_while_fading_loses_modal [OF calm_examples(1) f(8) f(1-6) _ refl, where page' = quiet and V' = small_view and V = small_view and ops = "[Hide, Escape, Show]"] f(7)
    by (simp add: Let_def trigger_modal_def quiet_def del: fold.simps fold_simps)
qed

theorem open_then_close_witness:
  "(let m' = settle 2 usual (hide_modal quiet usual (settle 2 usual (show_modal quiet small_view usual fading_modal)))
    in reopenable fading_modal m' \<and> x_pad (m_body m') = Px 5)"
proof -
  have "closed fading_modal" by code_simp
  from open_then_close [OF this refl, of usual small_view] show ?thesis
    by (simp add: Let_def small_view_def) (simp add: fading_modal_def new_modal_def plain_box_def)
qed

end
