(* ===== verification/BsCollapse.thy ===== *)
theory BsCollapse
  imports BsUtil BsModal
begin

text \<open>
  The collapsible panels of Bootstrap: the Collapse objects, the panels and toggles of the page they work
  on, and the transitions they wait for.  An object is an entry of a list and its number; a panel refers
  to its object by the data item.  Which events the page prevents is an argument; its handlers do not
  operate panels while an event runs.
\<close>

section \<open>State\<close>

datatype cparent = NoParent | ByText string | ByNode nat \<comment> \<open>the option parent: empty, a selector, an element\<close>

record panel =
  k_classes :: "string list"
  k_group :: "string option" \<comment> \<open>the attribute data-parent\<close>
  k_toggle :: "bool option" \<comment> \<open>the attribute data-toggle as a truth value\<close>
  k_style :: inline \<comment> \<open>the inline style of the dimension\<close>
  k_scroll :: rat \<comment> \<open>the full size\<close>
  k_data :: "nat option" \<comment> \<open>the data item bs.collapse\<close>
  k_named :: "nat list" \<comment> \<open>the toggles that name the panel by its id\<close>

record ctoggle =
  t_targets :: "nat list option" \<comment> \<open>what its selector selects; None for the selector null\<close>
  t_parent :: "string option"
  t_collapsed :: bool
  t_expanded :: bool

record cinst =
  i_elem :: nat
  i_parent :: cparent
  i_triggers :: "nat list"
  i_selects :: "nat list" \<comment> \<open>what the selector of its last toggle selects\<close>
  i_trans :: bool

datatype cpend = Shown nat | Hidden nat

record csys =
  s_panel :: "nat \<Rightarrow> panel"
  s_order :: "nat list" \<comment> \<open>the panels in document order\<close>
  s_toggles :: "ctoggle list"
  s_insts :: "cinst list"
  s_pending :: "cpend list"
  s_log :: "(string \<times> nat) list"

record cpage =
  r_inside :: "cparent \<Rightarrow> (nat \<Rightarrow> bool) option" \<comment> \<open>the panels inside a parent; None where it is not found\<close>
  r_toggle_inside :: "cparent \<Rightarrow> nat \<Rightarrow> bool"
  r_prevents :: "string \<Rightarrow> nat \<Rightarrow> csys \<Rightarrow> bool"

definition upd_panel :: "nat \<Rightarrow> (panel \<Rightarrow> panel) \<Rightarrow> csys \<Rightarrow> csys" where
  "upd_panel e f s = s\<lparr>s_panel := (s_panel s)(e := f (s_panel s e))\<rparr>"

definition upd_inst :: "nat \<Rightarrow> (cinst \<Rightarrow> cinst) \<Rightarrow> csys \<Rightarrow> csys" where
  "upd_inst i f s = s\<lparr>s_insts := (s_insts s)[i := f (s_insts s ! i)]\<rparr>"

definition has_class :: "string \<Rightarrow> nat \<Rightarrow> csys \<Rightarrow> bool" where
  "has_class c e s \<longleftrightarrow> c \<in> set (k_classes (s_panel s e))"

definition set_classes :: "nat \<Rightarrow> (string list \<Rightarrow> string list) \<Rightarrow> csys \<Rightarrow> csys" where
  "set_classes e f s = upd_panel e (\<lambda>p. p\<lparr>k_classes := f (k_classes p)\<rparr>) s"

definition trigger_panel :: "cpage \<Rightarrow> string \<Rightarrow> nat \<Rightarrow> csys \<Rightarrow> csys \<times> bool" where
  "trigger_panel R ev e s = (s\<lparr>s_log := s_log s @ [(ev, e)]\<rparr>, r_prevents R ev e s)"

section \<open>Construction\<close>

definition mark_toggles :: "bool \<Rightarrow> nat list \<Rightarrow> csys \<Rightarrow> csys" where
  \<comment> \<open>the class collapsed and aria-expanded of some toggles\<close>
  "mark_toggles expanded js s =
     s\<lparr>s_toggles := fold (\<lambda>j ts. ts[j := (ts ! j)\<lparr>t_collapsed := \<not> expanded, t_expanded := expanded\<rparr>]) js (s_toggles s)\<rparr>"

definition addAriaAndCollapsedClass :: "nat option \<Rightarrow> nat list \<Rightarrow> csys \<Rightarrow> csys" where
  "addAriaAndCollapsedClass el js s =
     (let isOpen = (case el of Some e \<Rightarrow> has_class ''show'' e s | None \<Rightarrow> False) in if js \<noteq> [] then mark_toggles isOpen js s else s)"

definition getTargetFromElement :: "csys \<Rightarrow> nat \<Rightarrow> nat option" where
  "getTargetFromElement s j = (case t_targets (s_toggles s ! j) of Some (e # es) \<Rightarrow> Some e | _ \<Rightarrow> None)"

definition toggles_of :: "nat \<Rightarrow> csys \<Rightarrow> nat list" where
  "toggles_of e s = filter (\<lambda>j. case t_targets (s_toggles s ! j) of Some ts \<Rightarrow> e \<in> set ts | None \<Rightarrow> False) [0..<length (s_toggles s)]"

definition selected_by :: "nat list \<Rightarrow> csys \<Rightarrow> nat list" where
  "selected_by js s = (if js = [] then [] else (case t_targets (s_toggles s ! last js) of Some ts \<Rightarrow> ts | None \<Rightarrow> []))"

definition make_inst :: "cpage \<Rightarrow> nat \<Rightarrow> cparent \<Rightarrow> csys \<Rightarrow> csys \<times> (jserr + nat)" where
  \<comment> \<open>the constructor up to the option toggle\<close>
  "make_inst R e parent s =
     (let js = k_named (s_panel s e) @ toggles_of e s;
          i = length (s_insts s);
          s1 = s\<lparr>s_insts := s_insts s @ [\<lparr>i_elem = e, i_parent = parent, i_triggers = js, i_selects = selected_by (toggles_of e s) s, i_trans = False\<rparr>]\<rparr>
      in case parent of
           NoParent \<Rightarrow> (addAriaAndCollapsedClass (Some e) js s1, Inr i)
         | _ \<Rightarrow>
             (case r_inside R parent of
                None \<Rightarrow> (s1, Inl TypeError)
              | Some _ \<Rightarrow>
                  (fold (\<lambda>j s'. addAriaAndCollapsedClass (getTargetFromElement s' j) [j] s')
                     (filter (\<lambda>j. r_toggle_inside R parent j \<and> (case parent of ByText t \<Rightarrow> t_parent (s_toggles s ! j) = Some t | _ \<Rightarrow> False)) [0..<length (s_toggles s)]) s1,
                   Inr i)))"

section \<open>Hiding\<close>

definition complete_show :: "cpage \<Rightarrow> nat \<Rightarrow> csys \<Rightarrow> csys" where
  "complete_show R i s =
     (let e = i_elem (s_insts s ! i);
          s1 = upd_panel e (\<lambda>p. p\<lparr>k_classes := insert_name ''show'' (swap_names ''collapsing'' ''collapse'' (k_classes p)), k_style := Unset\<rparr>) s
      in fst (trigger_panel R ''shown'' e (upd_inst i (\<lambda>x. x\<lparr>i_trans := False\<rparr>) s1)))"

definition complete_hide :: "cpage \<Rightarrow> nat \<Rightarrow> csys \<Rightarrow> csys" where
  "complete_hide R i s =
     (let e = i_elem (s_insts s ! i)
      in fst (trigger_panel R ''hidden'' e (set_classes e (swap_names ''collapsing'' ''collapse'') (upd_inst i (\<lambda>x. x\<lparr>i_trans := False\<rparr>) s))))"

definition closed_toggles :: "nat list \<Rightarrow> csys \<Rightarrow> nat list" where
  \<comment> \<open>the toggles none of whose targets is shown\<close>
  "closed_toggles js s = filter (\<lambda>j. case t_targets (s_toggles s ! j) of Some ts \<Rightarrow> \<not> list_ex (\<lambda>e. has_class ''show'' e s) ts | None \<Rightarrow> False) js"

definition hide_inst :: "cpage \<Rightarrow> nat \<Rightarrow> csys \<Rightarrow> csys" where
  "hide_inst R i s =
     (let e = i_elem (s_insts s ! i)
      in if i_trans (s_insts s ! i) \<or> \<not> has_class ''show'' e s then s
         else (case trigger_panel R ''hide'' e s of
                 (s1, prevented) \<Rightarrow>
                   (if prevented then s1
                    else (let s2 = set_classes e (\<lambda>cs. remove_name_from ''show'' (remove_name_from ''collapse'' (insert_name ''collapsing'' cs))) s1;
                              s3 = mark_toggles False (closed_toggles (i_triggers (s_insts s2 ! i)) s2) s2;
                              s4 = upd_inst i (\<lambda>x. x\<lparr>i_trans := True\<rparr>) s3
                          in upd_panel e (\<lambda>p. p\<lparr>k_style := Unset\<rparr>) (s4\<lparr>s_pending := s_pending s4 @ [Hidden i]\<rparr>)))))"

definition parent_option :: "panel \<Rightarrow> cparent" where
  "parent_option p = (case k_group p of Some t \<Rightarrow> if t \<noteq> [] then ByText t else NoParent | None \<Rightarrow> NoParent)"

definition set_data :: "nat \<Rightarrow> nat option \<Rightarrow> csys \<Rightarrow> csys" where
  "set_data e d s = upd_panel e (\<lambda>p. p\<lparr>k_data := d\<rparr>) s"

definition call_hide :: "cpage \<Rightarrow> nat \<Rightarrow> csys \<Rightarrow> csys \<times> jserr option" where
  \<comment> \<open>the plugin method with 'hide' for one panel, which makes an object where there is none\<close>
  "call_hide R e s =
     (case k_data (s_panel s e) of
        Some i \<Rightarrow> (hide_inst R i s, None)
      | None \<Rightarrow> (case make_inst R e (parent_option (s_panel s e)) s of
                  (s1, Inl x) \<Rightarrow> (s1, Some x)
                | (s1, Inr i) \<Rightarrow> (hide_inst R i (set_data e (Some i) s1), None)))"

fun hide_all :: "cpage \<Rightarrow> nat list \<Rightarrow> csys \<Rightarrow> csys \<times> jserr option" where
  "hide_all R [] s = (s, None)"
| "hide_all R (e # es) s = (case call_hide R e s of (s1, Some x) \<Rightarrow> (s1, Some x) | (s1, None) \<Rightarrow> hide_all R es s1)"

section \<open>Showing\<close>

definition actives_of :: "cpage \<Rightarrow> cparent \<Rightarrow> csys \<Rightarrow> nat list" where
  \<comment> \<open>the panels of the same accordion that are shown or in transition\<close>
  "actives_of R parent s =
     (case parent of
        NoParent \<Rightarrow> []
      | _ \<Rightarrow>
          filter (\<lambda>e. (case r_inside R parent of Some P \<Rightarrow> P e | None \<Rightarrow> False)
                \<and> (has_class ''show'' e s \<or> has_class ''collapsing'' e s)
                \<and> (case parent of ByText t \<Rightarrow> k_group (s_panel s e) = Some t | _ \<Rightarrow> has_class ''collapse'' e s)) (s_order s))"

definition start_show :: "nat \<Rightarrow> csys \<Rightarrow> csys" where
  "start_show i s =
     (let e = i_elem (s_insts s ! i);
          s1 = set_classes e (swap_names ''collapse'' ''collapsing'') s;
          s2 = (if i_triggers (s_insts s ! i) \<noteq> [] then mark_toggles True (i_triggers (s_insts s ! i)) s1 else s1);
          s3 = upd_inst i (\<lambda>x. x\<lparr>i_trans := True\<rparr>) s2
      in upd_panel e (\<lambda>p. p\<lparr>k_style := Px (k_scroll p)\<rparr>) (s3\<lparr>s_pending := s_pending s3 @ [Shown i]\<rparr>))"

definition show_inst :: "cpage \<Rightarrow> nat \<Rightarrow> csys \<Rightarrow> csys \<times> jserr option" where
  "show_inst R i s =
     (let x = s_insts s ! i; e = i_elem x
      in if i_trans x \<or> has_class ''show'' e s then (s, None)
         else (let actives = actives_of R (i_parent x) s;
                   others = filter (\<lambda>a. a \<notin> set (i_selects x)) actives;
                   activesData = (if others = [] then None else k_data (s_panel s (hd others)))
               in if (case activesData of Some j \<Rightarrow> i_trans (s_insts s ! j) | None \<Rightarrow> False) then (s, None)
                  else (case trigger_panel R ''show'' e s of
                          (s1, prevented) \<Rightarrow>
                            (if prevented then (s1, None)
                             else if actives = [] then (start_show i s1, None)
                             else (case hide_all R others s1 of
                                     (s2, Some err) \<Rightarrow> (s2, Some err)
                                   | (s2, None) \<Rightarrow>
                                       (start_show i (if activesData = None then fold (\<lambda>a. set_data a None) actives s2 else s2), None))))))"

definition toggle_inst :: "cpage \<Rightarrow> nat \<Rightarrow> csys \<Rightarrow> csys \<times> jserr option" where
  "toggle_inst R i s = (if has_class ''show'' (i_elem (s_insts s ! i)) s then (hide_inst R i s, None) else show_inst R i s)"

section \<open>The plugin method, clicks and transitions\<close>

record cgiven =
  g_toggle :: "bool option"
  g_parent :: "cparent option"

definition new_collapse :: "cpage \<Rightarrow> nat \<Rightarrow> bool \<Rightarrow> cparent \<Rightarrow> csys \<Rightarrow> csys \<times> jserr option" where
  \<comment> \<open>the constructor, and the object stored at the panel\<close>
  "new_collapse R e toggle parent s =
     (case make_inst R e parent s of
        (s1, Inl x) \<Rightarrow> (s1, Some x)
      | (s1, Inr i) \<Rightarrow>
          (case (if toggle then toggle_inst R i s1 else (s1, None)) of
             (s2, Some x) \<Rightarrow> (s2, Some x)
           | (s2, None) \<Rightarrow> (set_data e (Some i) s2, None)))"

definition collapse_method :: "cpage \<Rightarrow> string \<Rightarrow> nat \<Rightarrow> csys \<Rightarrow> csys \<times> jserr option" where
  "collapse_method R name i s =
     (if name = ''show'' then show_inst R i s
      else if name = ''hide'' then (hide_inst R i s, None)
      else if name = ''toggle'' then toggle_inst R i s
      else (s, Some (Error (''No method named '' @ [CHR 0x22] @ name @ [CHR 0x22]))))"

definition collapse_call :: "cpage \<Rightarrow> string + cgiven \<Rightarrow> nat \<Rightarrow> csys \<Rightarrow> csys \<times> jserr option" where
  \<comment> \<open>one panel of $().collapse(config); dispose and the names of private methods are left out\<close>
  "collapse_call R arg e s =
     (let p = s_panel s e;
          toggle0 = (case (case arg of Inr g \<Rightarrow> g_toggle g | Inl _ \<Rightarrow> None) of Some b \<Rightarrow> b | None \<Rightarrow> (case k_toggle p of Some b \<Rightarrow> b | None \<Rightarrow> True));
          toggle = (toggle0 \<and> (case arg of Inl name \<Rightarrow> \<not> tests False ''show|hide'' name | Inr _ \<Rightarrow> True));
          parent = (case (case arg of Inr g \<Rightarrow> g_parent g | Inl _ \<Rightarrow> None) of Some q \<Rightarrow> q | None \<Rightarrow> parent_option p);
          made = (if k_data p = None then new_collapse R e toggle parent s else (s, None))
      in case made of
           (s1, Some x) \<Rightarrow> (s1, Some x)
         | (s1, None) \<Rightarrow>
             (case arg of
                Inr _ \<Rightarrow> (s1, None)
              | Inl name \<Rightarrow> (case k_data (s_panel s1 e) of Some i \<Rightarrow> collapse_method R name i s1 | None \<Rightarrow> (s1, None))))"

definition toggle_given :: "ctoggle \<Rightarrow> cgiven" where
  \<comment> \<open>the data attributes of a toggle; data-toggle is 'collapse'\<close>
  "toggle_given t = \<lparr>g_toggle = Some True, g_parent = (case t_parent t of Some u \<Rightarrow> Some (if u \<noteq> [] then ByText u else NoParent) | None \<Rightarrow> None)\<rparr>"

fun click_targets :: "cpage \<Rightarrow> cgiven \<Rightarrow> nat list \<Rightarrow> csys \<Rightarrow> csys \<times> jserr option" where
  "click_targets R g [] s = (s, None)"
| "click_targets R g (e # es) s =
     (case collapse_call R (if k_data (s_panel s e) = None then Inr g else Inl ''toggle'') e s of
        (s1, Some x) \<Rightarrow> (s1, Some x)
      | (s1, None) \<Rightarrow> click_targets R g es s1)"

definition click_toggle :: "cpage \<Rightarrow> nat \<Rightarrow> csys \<Rightarrow> csys \<times> jserr option" where
  "click_toggle R j s = click_targets R (toggle_given (s_toggles s ! j)) (case t_targets (s_toggles s ! j) of Some ts \<Rightarrow> ts | None \<Rightarrow> []) s"

definition end_collapse :: "cpage \<Rightarrow> cpend \<Rightarrow> csys \<Rightarrow> csys" where
  \<comment> \<open>a transition ends\<close>
  "end_collapse R p s =
     (if p \<in> set (s_pending s)
      then (let s1 = s\<lparr>s_pending := remove1 p (s_pending s)\<rparr> in case p of Shown i \<Rightarrow> complete_show R i s1 | Hidden i \<Rightarrow> complete_hide R i s1)
      else s)"

end
