(* ===== verification/CollapseLaws.thy ===== *)
theory CollapseLaws
  imports BsCollapse
begin

text \<open>
  Accordions: panels with one parent, of which at most one is meant to be open.  The abstract accordion gives
  each panel a phase; the operations on panels that all have their objects refine those of the abstract
  accordion, which keeps at most one panel open or opening.  Without objects the promise fails.
\<close>

section \<open>The abstract accordion\<close>

datatype phase = Closed | Opening | Open | Closing

definition a_hide :: "nat \<Rightarrow> (nat \<Rightarrow> phase) \<Rightarrow> nat \<Rightarrow> phase" where
  "a_hide e ph = (if ph e = Open then ph(e := Closing) else ph)"

definition a_show :: "nat list \<Rightarrow> nat \<Rightarrow> (nat \<Rightarrow> phase) \<Rightarrow> nat \<Rightarrow> phase" where
  \<comment> \<open>refused while the first panel that is not closed is in transition\<close>
  "a_show panels e ph =
     (if ph e \<noteq> Closed then ph
      else (case filter (\<lambda>x. ph x \<noteq> Closed) panels of
              [] \<Rightarrow> ph(e := Opening)
            | x # xs \<Rightarrow> if ph x = Open then (fold a_hide (x # xs) ph)(e := Opening) else ph))"

definition a_toggle :: "nat list \<Rightarrow> nat \<Rightarrow> (nat \<Rightarrow> phase) \<Rightarrow> nat \<Rightarrow> phase" where
  "a_toggle panels e ph = (if ph e = Open then a_hide e ph else a_show panels e ph)"

definition a_end :: "nat \<Rightarrow> (nat \<Rightarrow> phase) \<Rightarrow> nat \<Rightarrow> phase" where
  "a_end e ph = (if ph e = Opening then ph(e := Open) else if ph e = Closing then ph(e := Closed) else ph)"

definition one_open :: "nat list \<Rightarrow> (nat \<Rightarrow> phase) \<Rightarrow> bool" where
  "one_open panels ph \<longleftrightarrow> (\<forall>e\<in>set panels. \<forall>d\<in>set panels. ph e \<in> {Open, Opening} \<longrightarrow> ph d \<in> {Open, Opening} \<longrightarrow> e = d)"

lemma fold_a_hide: "fold a_hide xs ph e = (if e \<in> set xs \<and> ph e = Open then Closing else ph e)"
  by (induction xs arbitrary: ph) (auto simp: a_hide_def)

lemma one_open_hide: "one_open panels ph \<Longrightarrow> one_open panels (a_hide e ph)"
  by (auto simp: one_open_def a_hide_def)

lemma one_open_show:
  assumes "one_open panels ph" "e \<in> set panels"
  shows "one_open panels (a_show panels e ph)"
proof (cases "ph e = Closed")
  case True
  show ?thesis
  proof (cases "filter (\<lambda>x. ph x \<noteq> Closed) panels")
    case Nil
    then have "ph d = Closed" if "d \<in> set panels" for d using that by (auto simp: filter_empty_conv)
    then show ?thesis using True Nil by (simp add: a_show_def one_open_def)
  next
    case (Cons x xs)
    show ?thesis
    proof (cases "ph x = Open")
      case o: True
      have f: "set (x # xs) = {d \<in> set panels. ph d \<noteq> Closed}" unfolding Cons [symmetric] by simp
      then have "x \<in> set panels" by auto
      have all: "d \<in> set (x # xs)" if "d \<in> set panels" "ph d \<noteq> Closed" for d using that f by blast
      have "fold a_hide (x # xs) ph d \<notin> {Open, Opening}" if "d \<in> set panels" for d
      proof (cases "ph d \<in> {Open, Opening}")
        case True
        then have "d = x" using assms(1) o \<open>x \<in> set panels\<close> that by (auto simp: one_open_def)
        then show ?thesis using o all [OF that] unfolding fold_a_hide by simp
      qed (unfold fold_a_hide, auto)
      moreover have "a_show panels e ph = (fold a_hide (x # xs) ph)(e := Opening)" using True Cons o by (simp add: a_show_def)
      ultimately show ?thesis by (auto simp: one_open_def simp del: fold.simps fold_simps)
    qed (use assms True Cons in \<open>simp add: a_show_def\<close>)
  qed
qed (use assms in \<open>simp add: a_show_def\<close>)

lemma one_open_end: "one_open panels ph \<Longrightarrow> one_open panels (a_end e ph)"
  by (auto simp: one_open_def a_end_def)

section \<open>The panels of an accordion\<close>

definition owner_ok :: "string \<Rightarrow> csys \<Rightarrow> nat \<Rightarrow> nat \<Rightarrow> bool" where
  \<comment> \<open>the panel belongs to the accordion and has this object, whose toggles open no other panel\<close>
  "owner_ok t s e i \<longleftrightarrow> k_group (s_panel s e) = Some t \<and> k_data (s_panel s e) = Some i \<and> i < length (s_insts s)
     \<and> i_elem (s_insts s ! i) = e \<and> i_parent (s_insts s ! i) = ByText t \<and> set (i_selects (s_insts s ! i)) \<subseteq> {e}"

definition moving_ok :: "csys \<Rightarrow> nat \<Rightarrow> nat \<Rightarrow> bool" where
  \<comment> \<open>classes, flag and pending transition agree\<close>
  "moving_ok s e i \<longleftrightarrow>
     (if Shown i \<in> set (s_pending s) then i_trans (s_insts s ! i) \<and> has_class ''collapsing'' e s \<and> \<not> has_class ''show'' e s \<and> Hidden i \<notin> set (s_pending s)
      else if Hidden i \<in> set (s_pending s) then i_trans (s_insts s ! i) \<and> has_class ''collapsing'' e s \<and> \<not> has_class ''show'' e s
      else \<not> i_trans (s_insts s ! i) \<and> \<not> has_class ''collapsing'' e s)"

definition obj_of :: "csys \<Rightarrow> nat \<Rightarrow> nat" where
  "obj_of s e = the (k_data (s_panel s e))"

definition accordion :: "cpage \<Rightarrow> string \<Rightarrow> csys \<Rightarrow> bool" where
  "accordion R t s \<longleftrightarrow> t \<noteq> [] \<and> distinct (s_pending s) \<and> (\<exists>P. r_inside R (ByText t) = Some P \<and> list_all P (s_order s))
     \<and> list_all (\<lambda>e. owner_ok t s e (obj_of s e) \<and> moving_ok s e (obj_of s e)) (s_order s)
     \<and> list_all (\<lambda>p. list_ex (\<lambda>e. p = Shown (obj_of s e) \<or> p = Hidden (obj_of s e)) (s_order s)) (s_pending s)"

definition phase_of :: "csys \<Rightarrow> nat \<Rightarrow> phase" where
  "phase_of s e =
     (if e \<notin> set (s_order s) then Closed
      else if has_class ''show'' e s then Open
      else if has_class ''collapsing'' e s then (if Shown (obj_of s e) \<in> set (s_pending s) then Opening else Closing)
      else Closed)"

definition never_hides_prevented :: "cpage \<Rightarrow> bool" where
  "never_hides_prevented R \<longleftrightarrow> (\<forall>e s. \<not> r_prevents R ''hide'' e s)"

lemma accordionD:
  assumes "accordion R t s" "e \<in> set (s_order s)"
  shows "k_group (s_panel s e) = Some t" "k_data (s_panel s e) = Some (obj_of s e)" "obj_of s e < length (s_insts s)"
    "i_elem (s_insts s ! obj_of s e) = e" "i_parent (s_insts s ! obj_of s e) = ByText t" "set (i_selects (s_insts s ! obj_of s e)) \<subseteq> {e}"
    "moving_ok s e (obj_of s e)" "owner_ok t s e (obj_of s e)"
  using assms by (auto simp: accordion_def list_all_iff owner_ok_def)

lemma obj_of_inj: "accordion R t s \<Longrightarrow> e \<in> set (s_order s) \<Longrightarrow> d \<in> set (s_order s) \<Longrightarrow> obj_of s e = obj_of s d \<Longrightarrow> e = d"
  using accordionD(4) by metis

text \<open>One panel changes: its classes, its flag and its pending transition.\<close>

definition moved :: "nat \<Rightarrow> csys \<Rightarrow> csys \<Rightarrow> bool" where
  "moved e s s' \<longleftrightarrow> s_order s' = s_order s \<and> length (s_insts s') = length (s_insts s)
     \<and> (\<forall>d. k_group (s_panel s' d) = k_group (s_panel s d) \<and> k_data (s_panel s' d) = k_data (s_panel s d))
     \<and> (\<forall>d. d \<noteq> e \<longrightarrow> k_classes (s_panel s' d) = k_classes (s_panel s d))
     \<and> (\<forall>i. i_elem (s_insts s' ! i) = i_elem (s_insts s ! i) \<and> i_parent (s_insts s' ! i) = i_parent (s_insts s ! i) \<and> i_selects (s_insts s' ! i) = i_selects (s_insts s ! i))
     \<and> (\<forall>i. i \<noteq> obj_of s e \<longrightarrow> i_trans (s_insts s' ! i) = i_trans (s_insts s ! i)
            \<and> (Shown i \<in> set (s_pending s') \<longleftrightarrow> Shown i \<in> set (s_pending s)) \<and> (Hidden i \<in> set (s_pending s') \<longleftrightarrow> Hidden i \<in> set (s_pending s)))"

lemma moved_obj: "moved e s s' \<Longrightarrow> obj_of s' d = obj_of s d"
  by (simp add: moved_def obj_of_def)

lemma moved_accordion:
  assumes "accordion R t s" "e \<in> set (s_order s)" "moved e s s'" "distinct (s_pending s')" "moving_ok s' e (obj_of s e)"
  shows "accordion R t s' \<and> phase_of s' = (phase_of s)(e := phase_of s' e)"
proof -
  have o: "obj_of s' d = obj_of s d" for d using moved_obj [OF assms(3)] .
  have other: "moving_ok s' d (obj_of s d)" if "d \<in> set (s_order s)" "d \<noteq> e" for d
  proof -
    have "obj_of s d \<noteq> obj_of s e" using obj_of_inj [OF assms(1) that(1) assms(2)] that(2) by blast
    then have "k_classes (s_panel s' d) = k_classes (s_panel s d)" "i_trans (s_insts s' ! obj_of s d) = i_trans (s_insts s ! obj_of s d)"
      "Shown (obj_of s d) \<in> set (s_pending s') \<longleftrightarrow> Shown (obj_of s d) \<in> set (s_pending s)" "Hidden (obj_of s d) \<in> set (s_pending s') \<longleftrightarrow> Hidden (obj_of s d) \<in> set (s_pending s)"
      using assms(3) that(2) by (simp_all add: moved_def)
    then show ?thesis using accordionD(7) [OF assms(1) that(1)] unfolding moving_ok_def has_class_def by simp
  qed
  have m: "moving_ok s' d (obj_of s d)" if "d \<in> set (s_order s)" for d using other [OF that] assms(5) by (cases "d = e") simp_all
  have "owner_ok t s' d (obj_of s d)" if "d \<in> set (s_order s)" for d
    using accordionD(8) [OF assms(1) that] assms(3) by (simp add: owner_ok_def moved_def)
  moreover have "\<exists>d\<in>set (s_order s). p = Shown (obj_of s d) \<or> p = Hidden (obj_of s d)" if p: "p \<in> set (s_pending s')" for p
  proof -
    obtain i where i: "p = Shown i \<or> p = Hidden i" by (cases p) auto
    show ?thesis
    proof (cases "i = obj_of s e")
      case False
      then have "p \<in> set (s_pending s)" using p i assms(3) by (auto simp: moved_def)
      then show ?thesis using assms(1) by (auto simp: accordion_def list_all_iff list_ex_iff)
    qed (use i assms(2) in blast)
  qed
  ultimately have "accordion R t s'" using assms(1,3,4) m
    by (simp add: accordion_def list_all_iff list_ex_iff o) (simp add: moved_def)
  moreover have "phase_of s' d = phase_of s d" if "d \<noteq> e" for d
  proof (cases "d \<in> set (s_order s)")
    case True
    have n: "obj_of s d \<noteq> obj_of s e" using obj_of_inj [OF assms(1) True assms(2)] that by blast
    have "k_classes (s_panel s' d) = k_classes (s_panel s d)" "Shown (obj_of s d) \<in> set (s_pending s') \<longleftrightarrow> Shown (obj_of s d) \<in> set (s_pending s)"
      "s_order s' = s_order s" using assms(3) that n by (simp_all add: moved_def)
    then show ?thesis by (simp add: phase_of_def has_class_def o)
  next
    case False
    then show ?thesis using assms(3) by (simp add: phase_of_def moved_def)
  qed
  ultimately show ?thesis by (simp add: fun_eq_iff)
qed

section \<open>The operations refine the abstract ones\<close>

lemma mark_toggles_frame [simp]:
  "s_panel (mark_toggles b js s) = s_panel s" "s_order (mark_toggles b js s) = s_order s" "s_insts (mark_toggles b js s) = s_insts s"
  "s_pending (mark_toggles b js s) = s_pending s"
  by (simp_all add: mark_toggles_def)

lemma trigger_panel_frame [simp]:
  "s_panel (fst (trigger_panel R ev e s)) = s_panel s" "s_order (fst (trigger_panel R ev e s)) = s_order s"
  "s_insts (fst (trigger_panel R ev e s)) = s_insts s" "s_pending (fst (trigger_panel R ev e s)) = s_pending s"
  by (simp_all add: trigger_panel_def)

lemma accordion_logged: "accordion R t s \<Longrightarrow> accordion R t (s\<lparr>s_log := l\<rparr>) \<and> phase_of (s\<lparr>s_log := l\<rparr>) = phase_of s"
proof -
  have o: "obj_of (s\<lparr>s_log := l\<rparr>) d = obj_of s d" for d by (simp add: obj_of_def)
  assume "accordion R t s"
  moreover have h: "has_class c d (s\<lparr>s_log := l\<rparr>) = has_class c d s" for c d by (simp add: has_class_def)
  moreover have "owner_ok t (s\<lparr>s_log := l\<rparr>) = owner_ok t s" "moving_ok (s\<lparr>s_log := l\<rparr>) = moving_ok s"
    by (simp_all only: fun_eq_iff owner_ok_def moving_ok_def h) simp_all
  ultimately show ?thesis by (simp add: accordion_def o phase_of_def fun_eq_iff)
qed

lemma closed_panel:
  assumes "accordion R t s" "e \<in> set (s_order s)"
  shows "phase_of s e = Open \<longleftrightarrow> has_class ''show'' e s" "phase_of s e = Closed \<longleftrightarrow> \<not> has_class ''show'' e s \<and> \<not> i_trans (s_insts s ! obj_of s e)"
    "i_trans (s_insts s ! obj_of s e) \<longleftrightarrow> phase_of s e \<in> {Opening, Closing}"
    "has_class ''show'' e s \<or> has_class ''collapsing'' e s \<longleftrightarrow> phase_of s e \<noteq> Closed"
    "phase_of s e = Opening \<longleftrightarrow> Shown (obj_of s e) \<in> set (s_pending s)" "phase_of s e = Closing \<longleftrightarrow> Hidden (obj_of s e) \<in> set (s_pending s)"
  using accordionD(7) [OF assms] assms(2) by (auto simp: moving_ok_def phase_of_def split: if_splits)

lemma hide_inst_refines:
  assumes "accordion R t s" "e \<in> set (s_order s)" "never_hides_prevented R"
  shows "accordion R t (hide_inst R (obj_of s e) s) \<and> phase_of (hide_inst R (obj_of s e) s) = a_hide e (phase_of s)
    \<and> (\<forall>d. obj_of (hide_inst R (obj_of s e) s) d = obj_of s d) \<and> s_order (hide_inst R (obj_of s e) s) = s_order s"
proof (cases "phase_of s e = Open")
  case True
  let ?i = "obj_of s e"
  note d = accordionD [OF assms(1,2)] and c = closed_panel [OF assms(1,2)]
  have sh: "has_class ''show'' e s" "\<not> i_trans (s_insts s ! ?i)" using True c by auto
  let ?s1 = "s\<lparr>s_log := s_log s @ [(''hide'', e)]\<rparr>"
  let ?s2 = "set_classes e (\<lambda>cs. remove_name_from ''show'' (remove_name_from ''collapse'' (insert_name ''collapsing'' cs))) ?s1"
  let ?s3 = "mark_toggles False (closed_toggles (i_triggers (s_insts ?s2 ! ?i)) ?s2) ?s2"
  let ?s4 = "upd_inst ?i (\<lambda>x. x\<lparr>i_trans := True\<rparr>) ?s3"
  let ?s' = "upd_panel e (\<lambda>p. p\<lparr>k_style := Unset\<rparr>) (?s4\<lparr>s_pending := s_pending ?s4 @ [Hidden ?i]\<rparr>)"
  have e: "hide_inst R ?i s = ?s'"
    using sh d(4) assms(3) by (simp add: hide_inst_def trigger_panel_def never_hides_prevented_def Let_def)
  have fresh: "Hidden ?i \<notin> set (s_pending s)" "Shown ?i \<notin> set (s_pending s)" using True c by auto
  have m: "moved e s ?s'"
    using d(3) by (auto simp: moved_def upd_panel_def set_classes_def upd_inst_def nth_list_update)
  have k: "moving_ok ?s' e ?i" "phase_of ?s' e = Closing" "distinct (s_pending ?s')"
    using d fresh assms(1,2)
    by (auto simp: moving_ok_def phase_of_def obj_of_def has_class_def upd_panel_def set_classes_def upd_inst_def nth_list_update accordion_def)
  show ?thesis unfolding e using moved_accordion [OF assms(1,2) m k(3,1)] k(2) True moved_obj [OF m] m
    by (simp add: a_hide_def) (simp add: moved_def)
next
  case False
  then have "\<not> has_class ''show'' e s" using closed_panel [OF assms(1,2)] by simp
  then have "hide_inst R (obj_of s e) s = s" using accordionD(4) [OF assms(1,2)] by (simp add: hide_inst_def)
  then show ?thesis using False assms by (simp add: a_hide_def)
qed

lemma hide_all_refines:
  assumes "accordion R t s" "set es \<subseteq> set (s_order s)" "never_hides_prevented R"
  shows "\<exists>s'. hide_all R es s = (s', None) \<and> accordion R t s' \<and> phase_of s' = fold a_hide es (phase_of s)
    \<and> (\<forall>d. obj_of s' d = obj_of s d) \<and> s_order s' = s_order s"
  using assms(1,2)
proof (induction es arbitrary: s)
  case (Cons e es)
  have e: "e \<in> set (s_order s)" using Cons.prems by simp
  let ?s = "hide_inst R (obj_of s e) s"
  note h = hide_inst_refines [OF Cons.prems(1) e assms(3)]
  obtain s' where s': "hide_all R es ?s = (s', None) \<and> accordion R t s' \<and> phase_of s' = fold a_hide es (phase_of ?s)
      \<and> (\<forall>d. obj_of s' d = obj_of ?s d) \<and> s_order s' = s_order ?s"
    using Cons.IH [of ?s] Cons.prems h by auto
  moreover have "hide_all R (e # es) s = hide_all R es ?s" using accordionD(2) [OF Cons.prems(1) e] by (simp add: call_hide_def)
  ultimately show ?case using h by simp
qed simp

lemma start_show_refines:
  assumes "accordion R t s" "e \<in> set (s_order s)" "phase_of s e \<notin> {Open, Opening, Closing}"
  shows "accordion R t (start_show (obj_of s e) s) \<and> phase_of (start_show (obj_of s e) s) = (phase_of s)(e := Opening)
    \<and> s_order (start_show (obj_of s e) s) = s_order s"
proof -
  let ?i = "obj_of s e"
  note d = accordionD [OF assms(1,2)] and c = closed_panel [OF assms(1,2)]
  have cl: "phase_of s e = Closed" using assms(3) by (cases "phase_of s e") auto
  have fresh: "Hidden ?i \<notin> set (s_pending s)" "Shown ?i \<notin> set (s_pending s)" "\<not> has_class ''show'' e s" using cl c by auto
  let ?s1 = "set_classes e (swap_names ''collapse'' ''collapsing'') s"
  let ?s2 = "if i_triggers (s_insts s ! ?i) \<noteq> [] then mark_toggles True (i_triggers (s_insts s ! ?i)) ?s1 else ?s1"
  have s2: "s_panel ?s2 = s_panel ?s1" "s_order ?s2 = s_order s" "s_insts ?s2 = s_insts s" "s_pending ?s2 = s_pending s"
    by (simp_all add: set_classes_def upd_panel_def)
  let ?s3 = "upd_inst ?i (\<lambda>x. x\<lparr>i_trans := True\<rparr>) ?s2"
  let ?s' = "upd_panel e (\<lambda>p. p\<lparr>k_style := Px (k_scroll p)\<rparr>) (?s3\<lparr>s_pending := s_pending ?s3 @ [Shown ?i]\<rparr>)"
  define s' where "s' = start_show ?i s"
  have e: "s' = ?s'" using d(4) unfolding s'_def start_show_def Let_def by (simp only:)
  have f: "s_insts s' = (s_insts s)[?i := (s_insts s ! ?i)\<lparr>i_trans := True\<rparr>]" "s_order s' = s_order s" "s_pending s' = s_pending s @ [Shown ?i]"
    "s_panel s' = (s_panel s)(e := (s_panel s e)\<lparr>k_classes := swap_names ''collapse'' ''collapsing'' (k_classes (s_panel s e)), k_style := Px (k_scroll (s_panel s e))\<rparr>)"
    unfolding e by (simp_all add: upd_panel_def upd_inst_def s2, simp add: set_classes_def upd_panel_def fun_eq_iff)
  have m: "moved e s s'" unfolding moved_def f using d(3) by (auto simp: nth_list_update)
  have "moving_ok s' e ?i" unfolding moving_ok_def has_class_def f using d(3) fresh by (simp add: has_class_def)
  moreover have "phase_of s' e = Opening"
    unfolding phase_of_def has_class_def moved_obj [OF m] f using fresh assms(2) by (simp add: has_class_def)
  moreover have "distinct (s_pending s')" unfolding f using fresh assms(1) by (simp add: accordion_def)
  ultimately show ?thesis using moved_accordion [OF assms(1,2) m] f(2) unfolding s'_def [symmetric] by simp
qed

lemma actives_of_phase:
  assumes "accordion R t s"
  shows "actives_of R (ByText t) s = filter (\<lambda>d. phase_of s d \<noteq> Closed) (s_order s)"
proof -
  obtain P where P: "r_inside R (ByText t) = Some P" "list_all P (s_order s)" using assms by (auto simp: accordion_def)
  have "(P d \<and> (has_class ''show'' d s \<or> has_class ''collapsing'' d s) \<and> k_group (s_panel s d) = Some t) \<longleftrightarrow> phase_of s d \<noteq> Closed" if "d \<in> set (s_order s)" for d
    using accordionD(1) [OF assms that] closed_panel(4) [OF assms that] P(2) that by (auto simp: list_all_iff)
  then show ?thesis using P(1) by (auto simp: actives_of_def intro: filter_cong)
qed

lemma show_inst_refines:
  assumes "accordion R t s" "e \<in> set (s_order s)" "never_hides_prevented R"
  shows "\<exists>s'. show_inst R (obj_of s e) s = (s', None) \<and> accordion R t s' \<and> s_order s' = s_order s
    \<and> phase_of s' = (if r_prevents R ''show'' e s then phase_of s else a_show (s_order s) e (phase_of s))"
proof (cases "phase_of s e = Closed")
  case True
  let ?i = "obj_of s e" and ?act = "filter (\<lambda>d. phase_of s d \<noteq> Closed) (s_order s)"
  let ?s1 = "s\<lparr>s_log := s_log s @ [(''show'', e)]\<rparr>"
  note d = accordionD [OF assms(1,2)] and c = closed_panel [OF assms(1,2)]
  have act: "actives_of R (i_parent (s_insts s ! ?i)) s = ?act" using actives_of_phase [OF assms(1)] d(5) by simp
  have oth: "filter (\<lambda>a. a \<notin> set (i_selects (s_insts s ! ?i))) ?act = ?act"
    by (rule filter_True) (use d(6) True in auto)
  have a1: "accordion R t ?s1" "phase_of ?s1 = phase_of s" using accordion_logged [OF assms(1)] by simp_all
  have o1: "obj_of ?s1 = obj_of s" by (simp add: obj_of_def fun_eq_iff)
  have e: "show_inst R ?i s =
     (if (case (if ?act = [] then None else k_data (s_panel s (hd ?act))) of Some j \<Rightarrow> i_trans (s_insts s ! j) | None \<Rightarrow> False) then (s, None)
      else if r_prevents R ''show'' e s then (?s1, None)
      else if ?act = [] then (start_show ?i ?s1, None)
      else (case hide_all R ?act ?s1 of
              (s2, Some err) \<Rightarrow> (s2, Some err)
            | (s2, None) \<Rightarrow> (start_show ?i (if (if ?act = [] then None else k_data (s_panel s (hd ?act))) = None then fold (\<lambda>a. set_data a None) ?act s2 else s2), None)))"
    using True c(2) d(4) unfolding show_inst_def Let_def act oth trigger_panel_def by (simp cong: if_cong)
  show ?thesis
  proof (cases "?act")
    case Nil
    have "start_show ?i ?s1 = start_show (obj_of ?s1 e) ?s1" by (simp add: o1)
    then show ?thesis using start_show_refines [OF a1(1), of e] a1 assms(1,2) True Nil unfolding e by (auto simp: a_show_def)
  next
    case (Cons x xs)
    have x: "x \<in> set (s_order s)" using Cons by (metis (no_types, lifting) filter_eq_Cons_iff in_set_conv_decomp)
    have dx: "k_data (s_panel s x) = Some (obj_of s x)" using accordionD(2) [OF assms(1) x] .
    have tx: "i_trans (s_insts s ! obj_of s x) \<longleftrightarrow> phase_of s x \<noteq> Open"
      using closed_panel(3) [OF assms(1) x] Cons by (cases "phase_of s x") (auto simp: filter_eq_Cons_iff)
    show ?thesis
    proof (cases "phase_of s x = Open")
      case False
      then show ?thesis using True Cons tx dx assms(1) unfolding e by (auto simp: a_show_def)
    next
      case o: True
      have sub: "set ?act \<subseteq> set (s_order ?s1)" by auto
      obtain s2 where s2: "hide_all R ?act ?s1 = (s2, None)" "accordion R t s2" "phase_of s2 = fold a_hide ?act (phase_of s)"
          "\<And>d. obj_of s2 d = obj_of s d" "s_order s2 = s_order s"
        using hide_all_refines [OF a1(1) sub assms(3)] a1(2) o1 by auto
      have p2: "phase_of s2 e = Closed" unfolding s2(3) fold_a_hide using True by simp
      show ?thesis
      proof (cases "r_prevents R ''show'' e s")
        case True
        then show ?thesis using e Cons tx dx o a1 by simp
      next
        case False
        have "show_inst R ?i s = (start_show (obj_of s2 e) s2, None)" unfolding e using False Cons tx dx o s2 by simp
        then show ?thesis using start_show_refines [OF s2(2), of e] p2 assms(2) s2 True Cons o False
          by (simp add: a_show_def del: fold.simps fold_simps)
      qed
    qed
  qed
next
  case False
  then have "i_trans (s_insts s ! obj_of s e) \<or> has_class ''show'' e s" using closed_panel(2) [OF assms(1,2)] by blast
  then have "show_inst R (obj_of s e) s = (s, None)" using accordionD(4) [OF assms(1,2)] by (simp add: show_inst_def Let_def)
  then show ?thesis using False assms(1) by (simp add: a_show_def)
qed

lemma toggle_inst_refines:
  assumes "accordion R t s" "e \<in> set (s_order s)" "never_hides_prevented R"
  shows "\<exists>s'. toggle_inst R (obj_of s e) s = (s', None) \<and> accordion R t s' \<and> s_order s' = s_order s
    \<and> phase_of s' = (if phase_of s e \<noteq> Open \<and> r_prevents R ''show'' e s then phase_of s else a_toggle (s_order s) e (phase_of s))"
  using show_inst_refines [OF assms] hide_inst_refines [OF assms] accordionD(4) [OF assms(1,2)] closed_panel(1) [OF assms(1,2)]
  by (auto simp: toggle_inst_def a_toggle_def)

lemma remove1_other: "distinct ps \<Longrightarrow> p \<in> set ps \<Longrightarrow> set (remove1 p ps) = set ps - {p}"
  by simp

lemma end_collapse_refines:
  assumes "accordion R t s" "p \<in> set (s_pending s)"
  shows "\<exists>e\<in>set (s_order s). accordion R t (end_collapse R p s) \<and> phase_of (end_collapse R p s) = a_end e (phase_of s)
    \<and> s_order (end_collapse R p s) = s_order s"
proof -
  obtain e where e: "e \<in> set (s_order s)" "p = Shown (obj_of s e) \<or> p = Hidden (obj_of s e)"
    using assms by (auto simp: accordion_def list_all_iff list_ex_iff)
  let ?i = "obj_of s e"
  note d = accordionD [OF assms(1) e(1)] and c = closed_panel [OF assms(1) e(1)]
  have dist: "distinct (s_pending s)" using assms(1) by (simp add: accordion_def)
  let ?s1 = "s\<lparr>s_pending := remove1 p (s_pending s)\<rparr>"
  define s' where "s' = end_collapse R p s"
  show ?thesis
  proof (cases "p = Shown ?i")
    case True
    have c3: "s' = complete_show R ?i ?s1" using True assms(2) by (simp add: s'_def end_collapse_def)
    have f: "s_insts s' = (s_insts s)[?i := (s_insts s ! ?i)\<lparr>i_trans := False\<rparr>]" "s_order s' = s_order s" "s_pending s' = remove1 p (s_pending s)"
      "s_panel s' = (s_panel s)(e := (s_panel s e)\<lparr>k_classes := insert_name ''show'' (swap_names ''collapsing'' ''collapse'' (k_classes (s_panel s e))), k_style := Unset\<rparr>)"
      unfolding c3 complete_show_def by (simp_all add: upd_panel_def upd_inst_def d(4))
    have m: "moved e s s'" unfolding moved_def f using d(3) True dist by (auto simp: nth_list_update)
    have h: "Shown ?i \<in> set (s_pending s)" "Hidden ?i \<notin> set (s_pending s)" using True assms(2) d(7) by (auto simp: moving_ok_def split: if_splits)
    have "moving_ok s' e ?i" unfolding moving_ok_def has_class_def f using d(3) h True dist by simp
    moreover have "phase_of s' e = Open" unfolding phase_of_def has_class_def f using e(1) by simp
    moreover have "distinct (s_pending s')" unfolding f using dist by simp
    moreover have "phase_of s e = Opening" using c(5) h by simp
    ultimately show ?thesis using moved_accordion [OF assms(1) e(1) m] f(2) e(1) unfolding s'_def [symmetric] by (intro bexI [of _ e]) (simp_all add: a_end_def)
  next
    case False
    then have p: "p = Hidden ?i" using e(2) by simp
    have c3: "s' = complete_hide R ?i ?s1" using p assms(2) by (simp add: s'_def end_collapse_def)
    have f: "s_insts s' = (s_insts s)[?i := (s_insts s ! ?i)\<lparr>i_trans := False\<rparr>]" "s_order s' = s_order s" "s_pending s' = remove1 p (s_pending s)"
      "s_panel s' = (s_panel s)(e := (s_panel s e)\<lparr>k_classes := swap_names ''collapsing'' ''collapse'' (k_classes (s_panel s e))\<rparr>)"
      unfolding c3 complete_hide_def Let_def by (simp_all add: upd_panel_def upd_inst_def set_classes_def d(4))
    have m: "moved e s s'" unfolding moved_def f using d(3) p dist by (auto simp: nth_list_update)
    have ph: "phase_of s e = Closing" using c(6) p assms(2) by simp
    then have h: "Shown ?i \<notin> set (s_pending s)" "\<not> has_class ''show'' e s" using c by auto
    have "moving_ok s' e ?i" unfolding moving_ok_def has_class_def f using d(3) h p dist by simp
    moreover have "phase_of s' e = Closed" unfolding phase_of_def has_class_def f using e(1) h by (simp add: has_class_def)
    moreover have "distinct (s_pending s')" unfolding f using dist by simp
    ultimately show ?thesis using moved_accordion [OF assms(1) e(1) m] f(2) e(1) ph unfolding s'_def [symmetric] by (intro bexI [of _ e]) (simp_all add: a_end_def)
  qed
qed

section \<open>At most one panel is open\<close>

inductive collapse_step :: "cpage \<Rightarrow> csys \<Rightarrow> csys \<Rightarrow> bool" for R where
  called: "e \<in> set (s_order s) \<Longrightarrow> collapse_step R s (fst (collapse_call R (Inl name) e s))"
| clicked: "t_targets (s_toggles s ! j) = Some ts \<Longrightarrow> set ts \<subseteq> set (s_order s) \<Longrightarrow> collapse_step R s (fst (click_toggle R j s))"
| ended: "collapse_step R s (end_collapse R p s)"

definition steady :: "cpage \<Rightarrow> string \<Rightarrow> csys \<Rightarrow> bool" where
  "steady R t s \<longleftrightarrow> accordion R t s \<and> never_hides_prevented R \<and> one_open (s_order s) (phase_of s)"

lemma collapse_call_steady:
  assumes "steady R t s" "e \<in> set (s_order s)"
  shows "steady R t (fst (collapse_call R (Inl name) e s)) \<and> s_order (fst (collapse_call R (Inl name) e s)) = s_order s"
proof -
  have a: "accordion R t s" "never_hides_prevented R" "one_open (s_order s) (phase_of s)" using assms(1) by (simp_all add: steady_def)
  have d: "k_data (s_panel s e) = Some (obj_of s e)" using accordionD(2) [OF a(1) assms(2)] .
  have "collapse_call R (Inl name) e s = collapse_method R name (obj_of s e) s" using d by (simp add: collapse_call_def)
  then show ?thesis
    using show_inst_refines [OF a(1) assms(2) a(2)] hide_inst_refines [OF a(1) assms(2) a(2)] toggle_inst_refines [OF a(1) assms(2) a(2)]
      one_open_hide [OF a(3)] one_open_show [OF a(3) assms(2)] a
    by (auto simp: collapse_method_def steady_def a_toggle_def split: if_splits)
qed

lemma click_targets_steady:
  "steady R t s \<Longrightarrow> set ts \<subseteq> set (s_order s) \<Longrightarrow> steady R t (fst (click_targets R g ts s))"
proof (induction ts arbitrary: s)
  case (Cons e es)
  have e: "e \<in> set (s_order s)" using Cons.prems(2) by simp
  have nn: "(k_data (s_panel s e) = None) = False" using accordionD(2) e Cons.prems(1) by (auto simp: steady_def)
  obtain s1 x where x: "collapse_call R (Inl ''toggle'') e s = (s1, x)" by (metis prod.collapse)
  have c: "fst (click_targets R g (e # es) s) \<in> {fst (collapse_call R (Inl ''toggle'') e s), fst (click_targets R g es (fst (collapse_call R (Inl ''toggle'') e s)))}"
    unfolding click_targets.simps nn if_False x by (cases x) simp_all
  note st = collapse_call_steady [OF Cons.prems(1) e, of "''toggle''"]
  have "steady R t (fst (click_targets R g es (fst (collapse_call R (Inl ''toggle'') e s))))"
    using Cons.IH [of "fst (collapse_call R (Inl ''toggle'') e s)"] st Cons.prems(2) by simp
  then show ?case using c st by auto
qed simp

lemma collapse_step_steady: "steady R t s \<Longrightarrow> collapse_step R s s' \<Longrightarrow> steady R t s'"
proof -
  assume st: "steady R t s" and "collapse_step R s s'"
  from this(2) show ?thesis
  proof cases
    case (called e name)
    then show ?thesis using collapse_call_steady [OF st] by simp
  next
    case (clicked j ts)
    then show ?thesis using click_targets_steady [OF st] by (simp add: click_toggle_def)
  next
    case (ended p)
    show ?thesis
    proof (cases "p \<in> set (s_pending s)")
      case True
      then show ?thesis using end_collapse_refines [of R t s p] st ended one_open_end by (force simp: steady_def)
    qed (use st ended in \<open>simp add: end_collapse_def\<close>)
  qed
qed

interpretation accordion: inductive_invariant "steady R t" "collapse_step R" "steady R t" for R t
  by unfold_locales (auto intro: collapse_step_steady)


section \<open>Examples\<close>

definition sample_panel :: "string list \<Rightarrow> nat option \<Rightarrow> panel" where
  "sample_panel cs d = \<lparr>k_classes = cs, k_group = Some ''#acc'', k_toggle = None, k_style = Unset, k_scroll = 80, k_data = d, k_named = []\<rparr>"

definition sample_toggles :: "ctoggle list" where
  "sample_toggles = map (\<lambda>e. \<lparr>t_targets = Some [e], t_parent = None, t_collapsed = True, t_expanded = False\<rparr>) [0, 1, 2]"

definition sample_root :: cpage where
  "sample_root = \<lparr>r_inside = (\<lambda>q. if q = ByText ''#acc'' then Some (\<lambda>_. True) else None), r_toggle_inside = (\<lambda>_ _. True), r_prevents = (\<lambda>_ _ _. False)\<rparr>"

definition with_objects :: csys where
  \<comment> \<open>three panels of an accordion, the first one shown, all with their objects\<close>
  "with_objects = \<lparr>s_panel = (\<lambda>e. sample_panel (if e = 0 then [''collapse'', ''show''] else [''collapse'']) (Some e)), s_order = [0, 1, 2],
     s_toggles = sample_toggles,
     s_insts = map (\<lambda>e. \<lparr>i_elem = e, i_parent = ByText ''#acc'', i_triggers = [e], i_selects = [e], i_trans = False\<rparr>) [0, 1, 2], s_pending = [], s_log = []\<rparr>"

definition as_loaded :: csys where
  \<comment> \<open>the same page as it is loaded, without objects\<close>
  "as_loaded = with_objects\<lparr>s_panel := (\<lambda>e. sample_panel (if e = 0 then [''collapse'', ''show''] else [''collapse'']) None), s_insts := []\<rparr>"

text \<open>Objects are made on the first use, and showing a panel takes the objects of the open panels away again when
  there were none: after a click on the second toggle and one on the third, while the panels still move, two
  panels of the accordion open.\<close>

theorem accordion_opens_two:
  "(let s1 = fst (click_toggle sample_root 1 as_loaded); s2 = fst (click_toggle sample_root 2 s1);
        s3 = fold (end_collapse sample_root) (s_pending s2) s2
    in filter (\<lambda>e. has_class ''show'' e s3) (s_order s3) = [1, 2] \<and> s_pending s3 = [])"
  by code_simp


end
