(* ===== verification/BsCarousel.thy ===== *)
theory BsCarousel
  imports BsUtil
begin

text \<open>
  The carousels of Bootstrap: the fields of a Carousel object with the class names of its items and
  indicators, the timer that cycles, the slide in progress and the calls that wait for its end.  The
  items are numbers in document order; all are children of one parent.  Which slide events the page
  prevents is an argument.  Touch events and the visibility of the page are inputs of the operations.
\<close>

section \<open>State\<close>

datatype direction = Next | Prev

datatype cwait = SlideEnd nat nat direction \<comment> \<open>the transition of the active item, with the next one\<close>
  | SlidEvent nat \<comment> \<open>the slid event of a slide that ended, to be triggered from a timer\<close>

record carousel =
  c_items :: "string list list" \<comment> \<open>the class names of the items\<close>
  c_times :: "jsnum list" \<comment> \<open>their attributes data-interval, as parseInt reads them\<close>
  c_indicators :: "bool list option" \<comment> \<open>which indicators are active\<close>
  c_slide :: bool \<comment> \<open>the element has the class slide\<close>
  c_wrap :: bool
  c_interval :: jsval
  c_defaultInterval :: jsval
  c_pause :: jsval
  c_keyboard :: bool
  c_touch :: bool
  c_timer :: "jsval option" \<comment> \<open>the running interval\<close>
  c_paused :: bool
  c_sliding :: bool
  c_touchTimeout :: "jsval option"
  c_touchStartX :: rat
  c_touchDeltaX :: rat
  c_waiting :: "cwait list"
  c_later :: "jsval list" \<comment> \<open>the calls of to that wait for the slid event\<close>
  c_events :: "(string \<times> nat option) list"

definition is_active :: "carousel \<Rightarrow> nat \<Rightarrow> bool" where
  "is_active s k \<longleftrightarrow> k < length (c_items s) \<and> ''active'' \<in> set (c_items s ! k)"

definition active_item :: "carousel \<Rightarrow> nat option" where
  \<comment> \<open>the first item with the class active\<close>
  "active_item s = (case filter (is_active s) [0..<length (c_items s)] of [] \<Rightarrow> None | k # ks \<Rightarrow> Some k)"

definition item_index :: "nat option \<Rightarrow> int" where
  "item_index k = (case k of Some i \<Rightarrow> int i | None \<Rightarrow> - 1)"

definition upd_item :: "nat \<Rightarrow> (string list \<Rightarrow> string list) \<Rightarrow> carousel \<Rightarrow> carousel" where
  "upd_item k f s = s\<lparr>c_items := (c_items s)[k := f (c_items s ! k)]\<rparr>"

section \<open>Cycling\<close>

definition cycle :: "bool \<Rightarrow> carousel \<Rightarrow> carousel" where
  \<comment> \<open>with or without an event\<close>
  "cycle ev s =
     (let s1 = (if ev then s else s\<lparr>c_paused := False\<rparr>);
          s2 = s1\<lparr>c_timer := None\<rparr>
      in if truthy (c_interval s2) \<and> \<not> c_paused s2 then s2\<lparr>c_timer := Some (c_interval s2)\<rparr> else s2)"

definition next_or_prev :: "carousel \<Rightarrow> bool" where
  \<comment> \<open>some item carries an order class, that is, a slide is in progress\<close>
  "next_or_prev s \<longleftrightarrow> list_ex (\<lambda>cs. ''carousel-item-next'' \<in> set cs \<or> ''carousel-item-prev'' \<in> set cs) (c_items s)"

definition pause :: "bool \<Rightarrow> carousel \<Rightarrow> carousel" where
  \<comment> \<open>triggerTransitionEnd on the carousel itself reaches no handler of an item\<close>
  "pause ev s =
     (let s1 = (if ev then s else s\<lparr>c_paused := True\<rparr>);
          s2 = (if next_or_prev s1 then cycle True s1 else s1)
      in s2\<lparr>c_timer := None\<rparr>)"

section \<open>Sliding\<close>

definition item_by_direction :: "direction \<Rightarrow> nat \<Rightarrow> carousel \<Rightarrow> nat" where
  \<comment> \<open>for an active item; the remainder has the sign of the dividend\<close>
  "item_by_direction d k s =
     (let last = length (c_items s) - 1;
          wraps = (d = Prev \<and> k = 0 \<or> d = Next \<and> k = last)
      in if wraps \<and> \<not> c_wrap s then k
         else (let i = int k + (if d = Prev then - 1 else 1);
                   r = (if i < 0 then - (- i mod int (length (c_items s))) else i mod int (length (c_items s)))
               in if r = - 1 then last else nat r))"

definition set_indicator :: "nat \<Rightarrow> carousel \<Rightarrow> carousel" where
  "set_indicator k s =
     (case c_indicators s of
        None \<Rightarrow> s
      | Some ind \<Rightarrow> s\<lparr>c_indicators := Some ((map (\<lambda>_. False) ind)[k := True])\<rparr>)"

definition order_class :: "direction \<Rightarrow> string" where
  "order_class d = (if d = Next then ''carousel-item-next'' else ''carousel-item-prev'')"

definition direction_class :: "direction \<Rightarrow> string" where
  "direction_class d = (if d = Next then ''carousel-item-left'' else ''carousel-item-right'')"

definition slide_interval :: "nat \<Rightarrow> carousel \<Rightarrow> carousel" where
  \<comment> \<open>the interval of the item that comes\<close>
  "slide_interval k s =
     (let given = c_times s ! k
      in if truthy (JNum given) then s\<lparr>c_defaultInterval := js_or (c_defaultInterval s) (c_interval s), c_interval := JNum given\<rparr>
         else s\<lparr>c_interval := js_or (c_defaultInterval s) (c_interval s)\<rparr>)"

definition start_slide :: "direction \<Rightarrow> nat \<Rightarrow> nat \<Rightarrow> carousel \<Rightarrow> carousel" where
  \<comment> \<open>with a transition\<close>
  "start_slide d a k s =
     (let s1 = upd_item k (insert_name (order_class d)) s;
          s2 = upd_item a (insert_name (direction_class d)) s1;
          s3 = upd_item k (insert_name (direction_class d)) s2;
          s4 = slide_interval k s3
      in s4\<lparr>c_waiting := c_waiting s4 @ [SlideEnd a k d]\<rparr>)"

definition swap_active :: "nat \<Rightarrow> nat \<Rightarrow> carousel \<Rightarrow> carousel" where
  \<comment> \<open>without a transition\<close>
  "swap_active a k s = upd_item k (insert_name ''active'') (upd_item a (remove_name_from ''active'') s)"

definition end_slide :: "direction \<Rightarrow> nat \<Rightarrow> nat \<Rightarrow> carousel \<Rightarrow> carousel" where
  \<comment> \<open>the callback of the transition\<close>
  "end_slide d a k s =
     (let s1 = upd_item k (\<lambda>cs. insert_name ''active'' (remove_name_from (order_class d) (remove_name_from (direction_class d) cs))) s;
          s2 = upd_item a (\<lambda>cs. remove_name_from (direction_class d) (remove_name_from (order_class d) (remove_name_from ''active'' cs))) s1
      in s2\<lparr>c_sliding := False, c_waiting := c_waiting s2 @ [SlidEvent k]\<rparr>)"

definition slide_target :: "direction \<Rightarrow> nat option \<Rightarrow> nat option \<Rightarrow> carousel \<Rightarrow> nat option" where
  \<comment> \<open>the item given, or the neighbour of the active one\<close>
  "slide_target d given active s =
     (case given of Some k \<Rightarrow> Some k | None \<Rightarrow> (case active of Some a \<Rightarrow> Some (item_by_direction d a s) | None \<Rightarrow> None))"

text \<open>Without a transition the slid event is triggered at once; no call of to waits for it then, as calls
  only wait while a transition runs (lemma \<open>no_transition_none_wait\<close> of CarouselLaws).\<close>

type_synonym slide_page = "carousel \<Rightarrow> nat option \<Rightarrow> direction \<Rightarrow> bool"

definition slide :: "slide_page \<Rightarrow> direction \<Rightarrow> nat option \<Rightarrow> carousel \<Rightarrow> carousel" where
  "slide prevents d given s =
     (let active = active_item s;
          target = slide_target d given active s;
          isCycling = (c_timer s \<noteq> None)
      in if (case target of Some k \<Rightarrow> is_active s k | None \<Rightarrow> False) then s\<lparr>c_sliding := False\<rparr>
         else (let s1 = s\<lparr>c_events := c_events s @ [(''slide'', target)]\<rparr>
               in if prevents s target d then s1
                  else (case active of
                          None \<Rightarrow> s1
                        | Some a \<Rightarrow>
                            (case target of
                               None \<Rightarrow> s1
                             | Some k \<Rightarrow>
                                 (let s2 = s1\<lparr>c_sliding := True\<rparr>;
                                      s3 = (if isCycling then pause False s2 else s2);
                                      s4 = set_indicator k s3;
                                      s5 = (if c_slide s4 then start_slide d a k s4
                                            else (swap_active a k s4)\<lparr>c_sliding := False, c_events := c_events s4 @ [(''slid'', Some k)]\<rparr>)
                                  in if isCycling then cycle False s5 else s5)))))"

section \<open>The methods\<close>

definition next_item :: "slide_page \<Rightarrow> carousel \<Rightarrow> carousel" where
  "next_item prevents s = (if c_sliding s then s else slide prevents Next None s)"

definition prev_item :: "slide_page \<Rightarrow> carousel \<Rightarrow> carousel" where
  "prev_item prevents s = (if c_sliding s then s else slide prevents Prev None s)"

definition nextWhenVisible :: "slide_page \<Rightarrow> bool \<Rightarrow> carousel \<Rightarrow> carousel" where
  "nextWhenVisible prevents visible s = (if visible then next_item prevents s else s)"

definition greater :: "jsnum \<Rightarrow> jsnum \<Rightarrow> bool" where
  "greater a b \<longleftrightarrow> a \<noteq> NaN \<and> b \<noteq> NaN \<and> \<not> js_le a b"

definition index_number :: "jsval \<Rightarrow> jsnum" where
  \<comment> \<open>the index as it is compared: a number, or the text of data-slide-to\<close>
  "index_number v = (case v of JNum r \<Rightarrow> r | JStr t \<Rightarrow> to_number t | _ \<Rightarrow> NaN)"

definition item_at :: "jsval \<Rightarrow> nat \<Rightarrow> nat option" where
  \<comment> \<open>\<open>items[index]\<close>, for so many items\<close>
  "item_at index n =
     (case index of
        JNum (Fin r) \<Rightarrow> if r = of_int \<lfloor>r\<rfloor> \<and> 0 \<le> r \<and> r < of_nat n then Some (nat \<lfloor>r\<rfloor>) else None
      | JStr t \<Rightarrow> (case filter (\<lambda>i. nat_str i = t) [0..<n] of [] \<Rightarrow> None | i # is \<Rightarrow> Some i)
      | _ \<Rightarrow> None)"

definition carousel_to :: "slide_page \<Rightarrow> jsval \<Rightarrow> carousel \<Rightarrow> carousel" where
  \<comment> \<open>the method to; where the argument is no index, the neighbour is meant\<close>
  "carousel_to prevents index s =
     (let a = Fin (of_int (item_index (active_item s)));
          n = (case active_item s of None \<Rightarrow> 0 | Some _ \<Rightarrow> length (c_items s));
          i = index_number index
      in if greater i (Fin (of_int (int n - 1))) \<or> greater (Fin 0) i then s
         else if c_sliding s then s\<lparr>c_later := c_later s @ [index]\<rparr>
         else if (case index of JNum r \<Rightarrow> js_eq a r | _ \<Rightarrow> False) then cycle False (pause False s)
         else slide prevents (if greater i a then Next else Prev) (item_at index n) s)"

definition fire_slid :: "slide_page \<Rightarrow> nat \<Rightarrow> carousel \<Rightarrow> carousel" where
  \<comment> \<open>the calls that wait are run once each; those that have to wait again are bound anew\<close>
  "fire_slid prevents k s =
     fold (carousel_to prevents) (c_later s) (s\<lparr>c_events := c_events s @ [(''slid'', Some k)], c_later := []\<rparr>)"

definition end_wait :: "slide_page \<Rightarrow> cwait \<Rightarrow> carousel \<Rightarrow> carousel" where
  "end_wait prevents w s =
     (if w \<in> set (c_waiting s)
      then (let s1 = s\<lparr>c_waiting := remove1 w (c_waiting s)\<rparr>
            in case w of SlideEnd a k d \<Rightarrow> end_slide d a k s1 | SlidEvent k \<Rightarrow> fire_slid prevents k s1)
      else s)"

definition timer_tick :: "slide_page \<Rightarrow> bool \<Rightarrow> carousel \<Rightarrow> carousel" where
  "timer_tick prevents visible s = (if c_timer s = None then s else nextWhenVisible prevents visible s)"

section \<open>Keys, pointer and touch\<close>

definition carousel_keydown :: "slide_page \<Rightarrow> string \<Rightarrow> nat \<Rightarrow> carousel \<Rightarrow> carousel" where
  \<comment> \<open>tag name of the target and code of the key, where keys are handled\<close>
  "carousel_keydown prevents tag which s =
     (if \<not> c_keyboard s \<or> tests True ''input|textarea'' tag then s
      else if which = 37 then prev_item prevents s
      else if which = 39 then next_item prevents s
      else s)"

definition handleSwipe :: "slide_page \<Rightarrow> carousel \<Rightarrow> carousel" where
  "handleSwipe prevents s =
     (if \<bar>c_touchDeltaX s\<bar> \<le> 40 then s
      else (let s1 = (if 0 < c_touchDeltaX s then prev_item prevents s else s)
            in if c_touchDeltaX s < 0 then next_item prevents s1 else s1))"

definition mouse_enter :: "carousel \<Rightarrow> carousel" where
  "mouse_enter s = (if c_pause s = JStr ''hover'' then pause True s else s)"

definition mouse_leave :: "carousel \<Rightarrow> carousel" where
  "mouse_leave s = (if c_pause s = JStr ''hover'' then cycle True s else s)"

definition touch_start :: "rat \<Rightarrow> carousel \<Rightarrow> carousel" where
  "touch_start x s = (if c_touch s then s\<lparr>c_touchStartX := x\<rparr> else s)"

definition touch_move :: "rat list \<Rightarrow> carousel \<Rightarrow> carousel" where
  \<comment> \<open>the positions of all touches; with more than one it is no swipe\<close>
  "touch_move xs s = (if \<not> c_touch s then s else if 1 < length xs then s\<lparr>c_touchDeltaX := 0\<rparr> else s\<lparr>c_touchDeltaX := hd xs - c_touchStartX s\<rparr>)"

definition js_plus :: "jsnum \<Rightarrow> jsval \<Rightarrow> jsval" where
  \<comment> \<open>a number plus an interval, which is a number or a truth value\<close>
  "js_plus n v = (case v of JNum m \<Rightarrow> JNum (js_add n m) | JBool b \<Rightarrow> JNum (js_add n (num (if b then 1 else 0))) | _ \<Rightarrow> JNum NaN)"

definition touch_end :: "slide_page \<Rightarrow> rat option \<Rightarrow> carousel \<Rightarrow> carousel" where
  \<comment> \<open>with pointer events the position comes with the event\<close>
  "touch_end prevents x s =
     (if \<not> c_touch s then s
      else (let s1 = (case x of Some r \<Rightarrow> s\<lparr>c_touchDeltaX := r - c_touchStartX s\<rparr> | None \<Rightarrow> s);
                s2 = handleSwipe prevents s1
            in if c_pause s2 = JStr ''hover'' then (let s3 = pause False s2 in s3\<lparr>c_touchTimeout := Some (js_plus (num 500) (c_interval s3))\<rparr>) else s2))"

definition touch_timeout :: "carousel \<Rightarrow> carousel" where
  "touch_timeout s = (if c_touchTimeout s = None then s else cycle False (s\<lparr>c_touchTimeout := None\<rparr>))"

section \<open>The plugin method\<close>

definition carousel_default :: "jsval obj" where
  "carousel_default = [(''interval'', JNum (num 5000)), (''keyboard'', JBool True), (''slide'', JBool False), (''pause'', JStr ''hover''), (''wrap'', JBool True), (''touch'', JBool True)]"

definition carousel_types :: "string obj" where
  "carousel_types = [(''interval'', ''(number|boolean)''), (''keyboard'', ''boolean''), (''slide'', ''(boolean|string)''), (''pause'', ''(string|boolean)''), (''wrap'', ''boolean''), (''touch'', ''boolean'')]"

definition new_carousel :: "jsval obj \<Rightarrow> string list list \<Rightarrow> jsnum list \<Rightarrow> bool list option \<Rightarrow> bool \<Rightarrow> bool \<Rightarrow> jserr + carousel" where
  \<comment> \<open>the constructor: configuration, items with their intervals, indicators, class slide, touch support\<close>
  "new_carousel given items intervals indicators has_slide touchSupported =
     (let c = objectSpread [] [carousel_default, given]
      in case typeCheckConfig ''carousel'' c carousel_types of
           Some x \<Rightarrow> Inl x
         | None \<Rightarrow>
             Inr \<lparr>c_items = items, c_times = intervals, c_indicators = indicators, c_slide = has_slide, c_wrap = truthy (js_prop c ''wrap''),
                  c_interval = js_prop c ''interval'', c_defaultInterval = JUndef, c_pause = js_prop c ''pause'', c_keyboard = truthy (js_prop c ''keyboard''),
                  c_touch = (truthy (js_prop c ''touch'') \<and> touchSupported), c_timer = None, c_paused = False, c_sliding = False, c_touchTimeout = None,
                  c_touchStartX = 0, c_touchDeltaX = 0, c_waiting = [], c_later = [], c_events = []\<rparr>)"

definition carousel_method :: "slide_page \<Rightarrow> string \<Rightarrow> bool \<Rightarrow> carousel \<Rightarrow> jserr + carousel" where
  \<comment> \<open>the public methods without argument; dispose and the names of private methods are left out\<close>
  "carousel_method prevents name visible s =
     (if name = ''next'' then Inr (next_item prevents s)
      else if name = ''nextWhenVisible'' then Inr (nextWhenVisible prevents visible s)
      else if name = ''prev'' then Inr (prev_item prevents s)
      else if name = ''pause'' then Inr (pause False s)
      else if name = ''cycle'' then Inr (cycle False s)
      else Inl (Error (''No method named '' @ [CHR 0x22] @ name @ [CHR 0x22])))"

definition carousel_call :: "slide_page \<Rightarrow> jsval obj \<Rightarrow> jsval \<Rightarrow> bool \<Rightarrow> (jsval obj \<Rightarrow> jserr + carousel) \<Rightarrow> carousel option \<Rightarrow> jserr + carousel" where
  \<comment> \<open>one element of $().carousel(config), with its data attributes and its instance where it has one\<close>
  "carousel_call prevents data arg visible mk inst =
     (let c = objectSpread [] ([carousel_default, data] @ (case arg of JObj kvs \<Rightarrow> [kvs] | _ \<Rightarrow> []));
          action = (case arg of JStr t \<Rightarrow> JStr t | _ \<Rightarrow> js_prop c ''slide'')
      in case (case inst of Some s \<Rightarrow> Inr s | None \<Rightarrow> mk c) of
           Inl x \<Rightarrow> Inl x
         | Inr s \<Rightarrow>
             (case arg of
                JNum r \<Rightarrow> Inr (carousel_to prevents arg s)
              | _ \<Rightarrow>
                  (case action of
                     JStr name \<Rightarrow> carousel_method prevents name visible s
                   | _ \<Rightarrow> if truthy (js_prop c ''interval'') \<and> truthy (js_prop c ''ride'') then Inr (cycle False (pause False s)) else Inr s)))"

definition carousel_click :: "slide_page \<Rightarrow> jsval obj \<Rightarrow> jsval obj \<Rightarrow> string option \<Rightarrow> bool \<Rightarrow> (jsval obj \<Rightarrow> jserr + carousel) \<Rightarrow> carousel option \<Rightarrow> jserr + carousel" where
  \<comment> \<open>a click on a control of a carousel, with the data attributes of both and the attribute data-slide-to\<close>
  "carousel_click prevents data click_data slideTo visible mk inst =
     (let c = objectSpread [] [data, click_data];
          c1 = (case slideTo of Some t \<Rightarrow> if t \<noteq> [] then obj_set ''interval'' (JBool False) c else c | None \<Rightarrow> c)
      in case carousel_call prevents data (JObj c1) visible mk inst of
           Inl x \<Rightarrow> Inl x
         | Inr s \<Rightarrow> (case slideTo of Some t \<Rightarrow> if t \<noteq> [] then Inr (carousel_to prevents (JStr t) s) else Inr s | None \<Rightarrow> Inr s))"

end
