(* ===== verification/CarouselLaws.thy ===== *)
theory CarouselLaws
  imports BsCarousel
begin

text \<open>
  What holds of carousels: one item is active at any time, and between two slides no item carries the
  classes of a slide; the neighbours of an item are those of a ring, or of a row with ends.
\<close>

section \<open>Neighbours\<close>

lemma neighbour:
  assumes "k < length (c_items s)"
  shows "item_by_direction d k s =
    (if \<not> c_wrap s \<and> (d = Prev \<and> k = 0 \<or> d = Next \<and> Suc k = length (c_items s)) then k
     else if d = Next then Suc k mod length (c_items s) else (k + length (c_items s) - 1) mod length (c_items s))
    \<and> item_by_direction d k s < length (c_items s)"
proof (cases "\<not> c_wrap s \<and> (d = Prev \<and> k = 0 \<or> d = Next \<and> Suc k = length (c_items s))")
  case True
  then show ?thesis using assms by (auto simp: item_by_direction_def Let_def)
next
  case False
  let ?n = "length (c_items s)"
  have w: "\<not> ((d = Prev \<and> k = 0 \<or> d = Next \<and> k = ?n - 1) \<and> \<not> c_wrap s)" using False assms by auto
  show ?thesis
  proof (cases d)
    case Next
    have k: "int k + (if Next = Prev then - 1 else 1) = int (Suc k)" by simp
    have "0 \<le> int (Suc k) mod int ?n" by (intro pos_mod_sign) (use assms in auto)
    then have p: "\<not> int (Suc k) < 0" "int (Suc k) mod int ?n \<noteq> - 1" by linarith+
    have "item_by_direction Next k s = nat (int (Suc k) mod int ?n)"
    proof -
      have c: "((Next = Prev \<and> k = 0 \<or> Next = Next \<and> k = ?n - 1) \<and> \<not> c_wrap s) = False" using w Next by simp
      show ?thesis using p unfolding item_by_direction_def Let_def c if_False k by simp
    qed
    also have "\<dots> = Suc k mod ?n" by (metis nat_int zmod_int)
    finally have e: "item_by_direction Next k s = Suc k mod ?n" .
    have "0 < ?n" using assms by linarith
    then show ?thesis using e False Next mod_less_divisor [of ?n "Suc k"] by auto
  next
    case Prev
    show ?thesis
    proof (cases k)
      case 0
      have m: "1 mod int ?n = 1" if "?n \<noteq> 1"
      proof -
        have "1 < int ?n" using that assms by linarith
        then show ?thesis by (simp add: mod_pos_pos_trivial)
      qed
      have "item_by_direction Prev 0 s = ?n - 1" using w Prev 0 assms
        by (cases "?n = 1") (auto simp: item_by_direction_def Let_def m)
      then show ?thesis using False Prev 0 assms by simp
    next
      case (Suc j)
      have "item_by_direction Prev k s = j" using w Prev Suc assms by (auto simp: item_by_direction_def Let_def)
      moreover have "(k + ?n - 1) mod ?n = j" using Suc assms by simp
      ultimately show ?thesis using False Prev Suc assms by auto
    qed
  qed
qed

lemma item_by_direction_less: "k < length (c_items s) \<Longrightarrow> item_by_direction d k s < length (c_items s)"
  using neighbour by blast

text \<open>The item that a carousel moves to is the neighbour in the ring of its items, or the active item itself
  at the ends where the carousel does not wrap; it is always one of the items.\<close>

theorem neighbour_in_ring:
  assumes "k < length (c_items s)"
  shows "item_by_direction d k s =
    (if \<not> c_wrap s \<and> (d = Prev \<and> k = 0 \<or> d = Next \<and> Suc k = length (c_items s)) then k
     else if d = Next then Suc k mod length (c_items s) else (k + length (c_items s) - 1) mod length (c_items s))
    \<and> item_by_direction d k s < length (c_items s)"
  using neighbour [OF assms] .

section \<open>One active item\<close>

definition calm_item :: "string list \<Rightarrow> bool" where
  "calm_item cs \<longleftrightarrow> list_all (\<lambda>c. c \<notin> {''carousel-item-next'', ''carousel-item-prev'', ''carousel-item-left'', ''carousel-item-right''}) cs"

fun slide_end :: "cwait \<Rightarrow> bool" where
  "slide_end (SlideEnd a k d) = True"
| "slide_end (SlidEvent k) = False"

definition only_active :: "nat \<Rightarrow> string list list \<Rightarrow> bool" where
  "only_active a items \<longleftrightarrow> a < length items \<and> (\<forall>k<length items. ''active'' \<in> set (items ! k) \<longleftrightarrow> k = a)"

definition slide_classes :: "nat \<Rightarrow> nat \<Rightarrow> direction \<Rightarrow> string list list \<Rightarrow> bool" where
  \<comment> \<open>the classes of a slide under way\<close>
  "slide_classes a k d items \<longleftrightarrow> (\<forall>j<length items. j \<noteq> a \<longrightarrow> j \<noteq> k \<longrightarrow> calm_item (items ! j))
     \<and> calm_item (remove_name_from (direction_class d) (items ! a))
     \<and> calm_item (remove_name_from (order_class d) (remove_name_from (direction_class d) (items ! k)))"

definition carousel_ok :: "nat \<Rightarrow> carousel \<Rightarrow> bool" where
  "carousel_ok a s \<longleftrightarrow> only_active a (c_items s)
     \<and> (if c_sliding s then (\<exists>k d. filter slide_end (c_waiting s) = [SlideEnd a k d] \<and> k < length (c_items s) \<and> k \<noteq> a \<and> slide_classes a k d (c_items s))
        else filter slide_end (c_waiting s) = [] \<and> list_all calm_item (c_items s))
     \<and> (\<not> c_slide s \<longrightarrow> c_later s = [] \<and> \<not> c_sliding s)"

lemma active_item_only: "only_active a (c_items s) \<Longrightarrow> active_item s = Some a"
proof -
  assume a: "only_active a (c_items s)"
  let ?n = "length (c_items s)"
  have "filter (is_active s) [0..<?n] = filter (\<lambda>k. k = a) [0..<?n]"
    by (rule filter_cong) (use a in \<open>auto simp: only_active_def is_active_def\<close>)
  also have "\<dots> = [a]"
  proof -
    have "[0..<?n] = [0..<a] @ a # [Suc a..<?n]" using a upt_add_eq_append [of 0 a "?n - a"] upt_conv_Cons [of a ?n] by (simp add: only_active_def)
    moreover have "filter (\<lambda>k. k = a) [0..<a] = []" "filter (\<lambda>k. k = a) [Suc a..<?n] = []" by (auto simp: filter_empty_conv)
    ultimately show ?thesis by simp
  qed
  finally show ?thesis by (simp add: active_item_def)
qed

lemma is_active_only: "only_active a (c_items s) \<Longrightarrow> is_active s k \<longleftrightarrow> k = a"
  by (auto simp: only_active_def is_active_def)

text \<open>Cycling, pausing and the indicators leave the items alone.\<close>

definition core :: "carousel \<Rightarrow> string list list \<times> cwait list \<times> bool \<times> bool \<times> jsval list" where
  "core s = (c_items s, c_waiting s, c_sliding s, c_slide s, c_later s)"

lemma ok_core: "core s' = core s \<Longrightarrow> carousel_ok a s' = carousel_ok a s"
  by (simp add: carousel_ok_def core_def)

lemma core_cycle [simp]: "core (cycle ev s) = core s"
  by (simp add: cycle_def core_def Let_def)

lemma core_pause [simp]: "core (pause ev s) = core s"
  using core_cycle [of True] by (simp add: pause_def Let_def core_def)

lemma core_indicator [simp]: "core (set_indicator k s) = core s"
  by (simp add: set_indicator_def core_def split: option.split)

lemma core_interval [simp]: "core (slide_interval k s) = core s"
  by (simp add: slide_interval_def core_def Let_def)

lemma calm_class: "calm_item cs \<Longrightarrow> c \<in> {''carousel-item-next'', ''carousel-item-prev'', ''carousel-item-left'', ''carousel-item-right''} \<Longrightarrow> remove_name_from c cs = cs"
  by (auto simp: calm_item_def list_all_iff filter_id_conv)

lemma class_cases: "order_class d \<in> {''carousel-item-next'', ''carousel-item-prev'', ''carousel-item-left'', ''carousel-item-right''}"
  "direction_class d \<in> {''carousel-item-next'', ''carousel-item-prev'', ''carousel-item-left'', ''carousel-item-right''}"
  "order_class d \<noteq> direction_class d" "order_class d \<noteq> ''active''" "direction_class d \<noteq> ''active''"
  by (cases d; simp add: order_class_def direction_class_def)+

lemma calm_insert_remove: "calm_item cs \<Longrightarrow> c \<in> {''carousel-item-next'', ''carousel-item-prev'', ''carousel-item-left'', ''carousel-item-right''} \<Longrightarrow>
  calm_item (remove_name_from c (insert_name c cs))"
  using calm_class [of cs c] by (auto simp: insert_name_def calm_item_def list_all_iff)

lemma calm_active [simp]: "calm_item (insert_name ''active'' cs) = calm_item cs" "calm_item cs \<Longrightarrow> calm_item (remove_name_from c cs)"
  by (auto simp: calm_item_def list_all_iff insert_name_def)

lemma items_upd [simp]: "c_items (upd_item k f s) = (c_items s)[k := f (c_items s ! k)]" "c_waiting (upd_item k f s) = c_waiting s"
  "c_sliding (upd_item k f s) = c_sliding s" "c_slide (upd_item k f s) = c_slide s" "c_later (upd_item k f s) = c_later s"
  by (simp_all add: upd_item_def)

lemma core_fields: "core s' = core s \<Longrightarrow> c_items s' = c_items s \<and> c_waiting s' = c_waiting s \<and> c_sliding s' = c_sliding s \<and> c_slide s' = c_slide s \<and> c_later s' = c_later s"
  by (simp add: core_def)

lemma interval_fields [simp]: "c_items (slide_interval k s) = c_items s" "c_waiting (slide_interval k s) = c_waiting s"
  "c_sliding (slide_interval k s) = c_sliding s" "c_slide (slide_interval k s) = c_slide s" "c_later (slide_interval k s) = c_later s"
  using core_fields [OF core_interval] by auto

lemma start_slide_ok:
  assumes "only_active a (c_items s)" "k < length (c_items s)" "k \<noteq> a" "list_all calm_item (c_items s)" "filter slide_end (c_waiting s) = []"
    "c_sliding s" "c_slide s"
  shows "carousel_ok a (start_slide d a k s)"
proof -
  let ?i = "c_items s" and ?o = "order_class d" and ?d = "direction_class d"
  have a: "a < length ?i" "k \<noteq> a" using assms by (simp_all add: only_active_def)
  define items where "items = ?i[k := insert_name ?d (insert_name ?o (?i ! k)), a := insert_name ?d (?i ! a)]"
  have it: "c_items (start_slide d a k s) = items"
    using a assms(2) by (simp add: start_slide_def Let_def items_def list_update_swap)
  have calm: "\<And>j. j < length ?i \<Longrightarrow> calm_item (?i ! j)" using assms(4) by (simp add: list_all_length)
  have act: "only_active a items" using assms(1-3) class_cases(4,5) [of d] by (auto simp: only_active_def items_def nth_list_update)
  have "calm_item (remove_name_from ?o (remove_name_from ?d (insert_name ?d (insert_name ?o (?i ! k)))))"
    using calm [OF assms(2)] by (auto simp: calm_item_def list_all_iff)
  moreover have "calm_item (remove_name_from ?d (insert_name ?d (?i ! a)))" using calm_insert_remove [OF calm [OF a(1)] class_cases(2)] .
  ultimately have "slide_classes a k d items" using a assms(2) calm by (simp add: slide_classes_def items_def)
  moreover have "length items = length ?i" by (simp add: items_def)
  ultimately show ?thesis using act assms by (auto simp: carousel_ok_def it) (simp_all add: start_slide_def Let_def)
qed

lemma swap_active_ok:
  assumes "only_active a (c_items s)" "k < length (c_items s)" "k \<noteq> a" "list_all calm_item (c_items s)"
  shows "only_active k (c_items (swap_active a k s)) \<and> list_all calm_item (c_items (swap_active a k s))"
proof -
  have "a < length (c_items s)" using assms(1) by (simp add: only_active_def)
  then show ?thesis using assms by (auto simp: only_active_def swap_active_def nth_list_update list_all_length)
qed

lemma end_slide_ok:
  assumes "only_active a (c_items s)" "k < length (c_items s)" "k \<noteq> a" "slide_classes a k d (c_items s)" "filter slide_end (c_waiting s) = []" "c_slide s"
  shows "carousel_ok k (end_slide d a k s)"
proof -
  let ?i = "c_items s" and ?o = "order_class d" and ?d = "direction_class d"
  have a: "a < length ?i" using assms(1) by (simp add: only_active_def)
  define items where "items = ?i[k := insert_name ''active'' (remove_name_from ?o (remove_name_from ?d (?i ! k))), a := remove_name_from ?d (remove_name_from ?o (remove_name_from ''active'' (?i ! a)))]"
  have it: "c_items (end_slide d a k s) = items" using a assms(2,3) by (simp add: end_slide_def Let_def items_def)
  have act: "only_active k items" using assms(1-3) a class_cases(4,5) [of d] by (auto simp: only_active_def items_def nth_list_update)
  have "calm_item (remove_name_from ?d (remove_name_from ?o (remove_name_from ''active'' (?i ! a))))"
    using assms(4) by (auto simp: slide_classes_def calm_item_def list_all_iff)
  then have "list_all calm_item items" using assms(2-4) a by (auto simp: list_all_length items_def nth_list_update slide_classes_def)
  then show ?thesis using act assms(5,6) by (auto simp: carousel_ok_def it) (simp_all add: end_slide_def Let_def)
qed

lemma slide_ok:
  assumes "carousel_ok a s" "\<not> c_sliding s" "case given of Some k \<Rightarrow> k < length (c_items s) | None \<Rightarrow> True"
  shows "\<exists>b. carousel_ok b (slide prevents d given s)"
proof -
  have o: "only_active a (c_items s)" "filter slide_end (c_waiting s) = []" "list_all calm_item (c_items s)" "\<not> c_slide s \<longrightarrow> c_later s = []"
    using assms(1,2) by (auto simp: carousel_ok_def)
  have act: "active_item s = Some a" using active_item_only [OF o(1)] .
  have la: "a < length (c_items s)" using o(1) by (simp add: only_active_def)
  obtain k where k: "slide_target d given (Some a) s = Some k" "k < length (c_items s)"
    using assms(3) item_by_direction_less [OF la] by (cases given) (auto simp: slide_target_def)
  show ?thesis
  proof (cases "k = a")
    case True
    then have "slide prevents d given s = s\<lparr>c_sliding := False\<rparr>" using k la is_active_only [OF o(1)] by (simp add: slide_def act)
    then show ?thesis using assms(1,2) by (intro exI [of _ a]) (simp add: carousel_ok_def)
  next
    case False
    then have na: "\<not> is_active s k" using is_active_only [OF o(1)] by simp
    let ?s1 = "s\<lparr>c_events := c_events s @ [(''slide'', Some k)]\<rparr>"
    show ?thesis
    proof (cases "prevents s (Some k) d")
      case True
      then have "slide prevents d given s = ?s1" using k na by (simp add: slide_def act)
      then show ?thesis using assms(1) ok_core [of ?s1 s a] by (intro exI [of _ a]) (simp add: core_def)
    next
      case np: False
      define s4 where "s4 = set_indicator k (if c_timer s \<noteq> None then pause False (?s1\<lparr>c_sliding := True\<rparr>) else ?s1\<lparr>c_sliding := True\<rparr>)"
      define s5 where "s5 = (if c_slide s4 then start_slide d a k s4 else (swap_active a k s4)\<lparr>c_sliding := False, c_events := c_events s4 @ [(''slid'', Some k)]\<rparr>)"
      have e: "slide prevents d given s = (if c_timer s \<noteq> None then cycle False s5 else s5)"
        using k na np by (simp add: slide_def act s4_def s5_def Let_def)
      have "core s4 = core (?s1\<lparr>c_sliding := True\<rparr>)" by (simp add: s4_def)
      then have f: "c_items s4 = c_items s" "c_waiting s4 = c_waiting s" "c_sliding s4" "c_slide s4 = c_slide s" "c_later s4 = c_later s"
        by (simp_all add: core_def)
      have "carousel_ok (if c_slide s4 then a else k) s5"
      proof (cases "c_slide s4")
        case True
        then show ?thesis using start_slide_ok [of a s4 k d] o k(2) False f by (simp add: s5_def)
      next
        case nt: False
        then show ?thesis using swap_active_ok [of a s4 k] o k(2) False f
          by (simp add: s5_def carousel_ok_def) (simp add: swap_active_def)
      qed
      then show ?thesis unfolding e using ok_core [OF core_cycle] by (metis (full_types))
    qed
  qed
qed

section \<open>All operations\<close>

definition one_active :: "carousel \<Rightarrow> bool" where
  "one_active s \<longleftrightarrow> (\<exists>a. carousel_ok a s)"

lemma one_active_core: "core s' = core s \<Longrightarrow> one_active s' = one_active s"
  unfolding one_active_def using ok_core by blast

lemma one_active_slide: "one_active s \<Longrightarrow> \<not> c_sliding s \<Longrightarrow> (case given of Some k \<Rightarrow> k < length (c_items s) | None \<Rightarrow> True) \<Longrightarrow> one_active (slide prevents d given s)"
  using slide_ok unfolding one_active_def by blast

lemma one_active_next: "one_active s \<Longrightarrow> one_active (next_item prevents s)" "one_active s \<Longrightarrow> one_active (prev_item prevents s)"
  by (simp_all add: next_item_def prev_item_def one_active_slide)

lemma item_at_less: "item_at v n = Some k \<Longrightarrow> k < n"
proof (cases v)
  case (JStr t)
  assume i: "item_at v n = Some k"
  then have "k \<in> set (filter (\<lambda>i. nat_str i = t) [0..<n])" using JStr
    by (cases "filter (\<lambda>i. nat_str i = t) [0..<n]") (simp_all add: item_at_def)
  then show ?thesis by simp
next
  case (JNum r)
  assume "item_at v n = Some k"
  then show ?thesis using JNum by (cases r) (auto simp: item_at_def floor_less_iff nat_less_iff split: if_splits)
qed (simp_all add: item_at_def)

lemma one_active_to: "one_active s \<Longrightarrow> one_active (carousel_to prevents v s)"
proof -
  assume s: "one_active s"
  then obtain a where a: "carousel_ok a s" by (auto simp: one_active_def)
  then have act: "active_item s = Some a" by (intro active_item_only) (simp add: carousel_ok_def)
  have later: "one_active (s\<lparr>c_later := c_later s @ [v]\<rparr>)" if "c_sliding s"
    using a that unfolding one_active_def by (intro exI [of _ a]) (auto simp: carousel_ok_def)
  have stay: "one_active (cycle False (pause False s))" using s one_active_core core_cycle core_pause by metis
  have "one_active (slide prevents d (item_at v (length (c_items s))) s)" if "\<not> c_sliding s" for d
    using one_active_slide [OF s that] item_at_less [of v "length (c_items s)"] by (simp split: option.split)
  then show ?thesis using s later stay by (simp add: carousel_to_def act Let_def)
qed

lemma one_active_fold: "one_active s \<Longrightarrow> one_active (fold (carousel_to prevents) is s)"
  by (induction "is" arbitrary: s) (simp_all add: one_active_to)

lemma one_active_wait: "one_active s \<Longrightarrow> one_active (end_wait prevents w s)"
proof (cases "w \<in> set (c_waiting s)")
  case True
  assume "one_active s"
  then obtain a where a: "carousel_ok a s" by (auto simp: one_active_def)
  let ?s = "s\<lparr>c_waiting := remove1 w (c_waiting s)\<rparr>"
  show ?thesis
  proof (cases w)
    case (SlideEnd b k d)
    then have w: "w \<in> set (filter slide_end (c_waiting s))" using True by simp
    then obtain k' d' where f: "filter slide_end (c_waiting s) = [SlideEnd a k' d']" "k' < length (c_items s)" "k' \<noteq> a" "slide_classes a k' d' (c_items s)" "c_sliding s"
    proof -
      have "filter slide_end (c_waiting s) \<noteq> []" using w by (metis list.set(1) empty_iff)
      then have "c_sliding s" using a by (auto simp: carousel_ok_def split: if_splits)
      then show thesis using a that by (auto simp: carousel_ok_def)
    qed
    then have "b = a" "k' = k" "d' = d" using w SlideEnd by simp_all
    moreover have "filter slide_end (remove1 w (c_waiting s)) = []" using f SlideEnd calculation by (simp add: List.filter_remove1)
    moreover have "c_slide s" using a f(5) by (auto simp: carousel_ok_def)
    ultimately have "carousel_ok k (end_slide d a k ?s)" using f a by (intro end_slide_ok) (simp_all add: carousel_ok_def)
    then show ?thesis using True SlideEnd \<open>b = a\<close> by (auto simp: end_wait_def one_active_def)
  next
    case (SlidEvent k)
    have "filter slide_end (remove1 w (c_waiting s)) = filter slide_end (c_waiting s)"
      using SlidEvent by (simp add: List.filter_remove1 remove1_idem)
    then have "one_active (?s\<lparr>c_events := c_events s @ [(''slid'', Some k)], c_later := []\<rparr>)"
      using a unfolding one_active_def by (intro exI [of _ a]) (auto simp: carousel_ok_def)
    then show ?thesis using True SlidEvent by (simp add: end_wait_def fire_slid_def one_active_fold)
  qed
qed (simp add: end_wait_def)

inductive carousel_step :: "slide_page \<Rightarrow> carousel \<Rightarrow> carousel \<Rightarrow> bool" for prevents where
  cnext: "carousel_step prevents s (next_item prevents s)"
| cprev: "carousel_step prevents s (prev_item prevents s)"
| cto: "carousel_step prevents s (carousel_to prevents v s)"
| ccycle: "carousel_step prevents s (cycle ev s)"
| cpause: "carousel_step prevents s (pause ev s)"
| ctick: "carousel_step prevents s (timer_tick prevents visible s)"
| cend: "carousel_step prevents s (end_wait prevents w s)"
| ckey: "carousel_step prevents s (carousel_keydown prevents tag which s)"
| center: "carousel_step prevents s (mouse_enter s)"
| cleave: "carousel_step prevents s (mouse_leave s)"
| cstart: "carousel_step prevents s (touch_start x s)"
| cmove: "carousel_step prevents s (touch_move xs s)"
| cstop: "carousel_step prevents s (touch_end prevents r s)"
| ctimeout: "carousel_step prevents s (touch_timeout s)"

lemma one_active_fields [simp]: "one_active (s\<lparr>c_touchStartX := x\<rparr>) = one_active s" "one_active (s\<lparr>c_touchDeltaX := x\<rparr>) = one_active s"
  "one_active (s\<lparr>c_touchTimeout := t\<rparr>) = one_active s" "one_active (cycle ev s) = one_active s" "one_active (pause ev s) = one_active s"
  by (rule one_active_core, simp add: core_def; fail)+ (rule one_active_core [OF core_cycle], rule one_active_core [OF core_pause])

lemma one_active_swipe: "one_active s \<Longrightarrow> one_active (handleSwipe prevents s)"
  by (simp add: handleSwipe_def Let_def one_active_next)

lemma one_active_step: "one_active s \<Longrightarrow> carousel_step prevents s s' \<Longrightarrow> one_active s'"
proof -
  assume s: "one_active s" and "carousel_step prevents s s'"
  from this(2) show ?thesis
    by cases (use s in \<open>auto simp: one_active_next one_active_to one_active_wait timer_tick_def nextWhenVisible_def carousel_keydown_def
        mouse_enter_def mouse_leave_def touch_start_def touch_move_def touch_end_def touch_timeout_def one_active_swipe Let_def split: option.splits\<close>)
qed

interpretation carousel: inductive_invariant one_active "carousel_step prevents" one_active for prevents
  by unfold_locales (auto intro: one_active_step)

lemma no_transition_none_wait: "one_active s \<Longrightarrow> \<not> c_slide s \<Longrightarrow> c_later s = []"
  by (auto simp: one_active_def carousel_ok_def)

text \<open>C28: Whatever happens to a carousel that starts with one active item, in whatever order, exactly one item is active,
  also during a slide, and between slides no item carries the classes of a slide.\<close>

theorem one_item_active:
  assumes "only_active a (c_items s)" "list_all calm_item (c_items s)" "\<not> c_sliding s" "c_waiting s = []" "c_later s = []"
    and "(carousel_step prevents)\<^sup>*\<^sup>* s s'"
  shows "length (filter (\<lambda>cs. ''active'' \<in> set cs) (c_items s')) = 1 \<and> (\<not> c_sliding s' \<longrightarrow> list_all calm_item (c_items s'))"
proof -
  have "one_active s" using assms(1-5) by (auto simp: one_active_def carousel_ok_def)
  then obtain b where b: "carousel_ok b s'" using carousel.inv_steps [OF assms(6)] by (auto simp: one_active_def)
  have "length (filter (\<lambda>cs. ''active'' \<in> set cs) (c_items s')) = card {k. k < length (c_items s') \<and> ''active'' \<in> set (c_items s' ! k)}"
    by (rule length_filter_conv_card)
  also have "{k. k < length (c_items s') \<and> ''active'' \<in> set (c_items s' ! k)} = {b}"
    using b by (auto simp: carousel_ok_def only_active_def)
  finally show ?thesis using b by (auto simp: carousel_ok_def)
qed

section \<open>Examples\<close>

definition three_items :: carousel where
  "three_items = \<lparr>c_items = [[''carousel-item'', ''active''], [''carousel-item''], [''carousel-item'']], c_times = [NaN, NaN, num 2000], c_indicators = Some [True, False, False],
     c_slide = True, c_wrap = True, c_interval = JNum (num 5000), c_defaultInterval = JUndef, c_pause = JStr ''hover'', c_keyboard = True, c_touch = True,
     c_timer = None, c_paused = False, c_sliding = False, c_touchTimeout = None, c_touchStartX = 0, c_touchDeltaX = 0, c_waiting = [], c_later = [], c_events = []\<rparr>"

theorem neighbour_in_ring_witness: "item_by_direction Prev 0 three_items = 2 \<and> item_by_direction Next 2 three_items = 0"
  using neighbour_in_ring [of 0 three_items Prev] neighbour_in_ring [of 2 three_items Next] by (simp add: three_items_def)

theorem one_item_active_witness:
  "(let s' = end_wait (\<lambda>_ _ _. False) (SlideEnd 0 2 Prev) (carousel_to (\<lambda>_ _ _. False) (JNum (num 1)) (prev_item (\<lambda>_ _ _. False) three_items))
    in length (filter (\<lambda>cs. ''active'' \<in> set cs) (c_items s')) = 1 \<and> active_item s' = Some 2 \<and> c_later s' = [JNum (num 1)])"
proof -
  let ?p = "\<lambda>(_ :: carousel) (_ :: nat option) (_ :: direction). False"
  let ?s' = "end_wait ?p (SlideEnd 0 2 Prev) (carousel_to ?p (JNum (num 1)) (prev_item ?p three_items))"
  have o: "only_active 0 (c_items three_items)" by (auto simp: only_active_def three_items_def less_Suc_eq numeral_3_eq_3)
  have c: "list_all calm_item (c_items three_items)" "\<not> c_sliding three_items" "c_waiting three_items = []" "c_later three_items = []" by code_simp+
  have st: "(carousel_step ?p)\<^sup>*\<^sup>* three_items ?s'"
    by (rule rtranclp.rtrancl_into_rtrancl, rule rtranclp.rtrancl_into_rtrancl, rule r_into_rtranclp, rule cprev, rule cto, rule cend)
  have r: "active_item ?s' = Some 2" "c_later ?s' = [JNum (num 1)]" by code_simp+
  show ?thesis using one_item_active [OF o c st] r by (simp add: Let_def)
qed

end
