(* ===== verification/BsSanitizer.thy ===== *)
theory BsSanitizer
  imports JsRegExp JsValue
begin

text \<open>
  The sanitizer of Bootstrap, which cleans the markup that tooltips and popovers show.  A parsed document is
  a forest whose elements carry a number, so that the loop over the elements, which removes elements and
  attributes of the document while it runs, stands in the model as it stands in the source.  The parser
  and the serialiser of the browser are arguments.
\<close>

section \<open>Documents\<close>

datatype node = Text string | Elem nat string "(string \<times> string) list" "node list"

fun all_elements :: "node list \<Rightarrow> (nat \<times> string \<times> (string \<times> string) list) list" where
  \<comment> \<open>querySelectorAll of all elements, in document order: number, name and attributes\<close>
  "all_elements [] = []"
| "all_elements (Text t # ns) = all_elements ns"
| "all_elements (Elem i n as cs # ns) = (i, n, as) # all_elements cs @ all_elements ns"

fun remove_node :: "nat \<Rightarrow> node list \<Rightarrow> node list" where
  "remove_node i [] = []"
| "remove_node i (Text t # ns) = Text t # remove_node i ns"
| "remove_node i (Elem j n as cs # ns) = (if j = i then remove_node i ns else Elem j n as (remove_node i cs) # remove_node i ns)"

fun change_attrs :: "nat \<Rightarrow> ((string \<times> string) list \<Rightarrow> (string \<times> string) list) \<Rightarrow> node list \<Rightarrow> node list" where
  "change_attrs i f [] = []"
| "change_attrs i f (Text t # ns) = Text t # change_attrs i f ns"
| "change_attrs i f (Elem j n as cs # ns) = Elem j n (if j = i then f as else as) (change_attrs i f cs) # change_attrs i f ns"

section \<open>Allowed attributes\<close>

datatype allow = Name string | Pattern bool string \<comment> \<open>an attribute name, or a regular expression and whether it ignores case\<close>

type_synonym whitelist = "allow list obj"

definition uriAttrs :: "string list" where
  "uriAttrs = [''background'', ''cite'', ''href'', ''itemtype'', ''longdesc'', ''poster'', ''src'', ''xlink:href'']"

definition aria_pattern :: string where "aria_pattern = ''^aria-[`w-]*$''"

definition safe_url_pattern :: string where
  "safe_url_pattern = ''^(?:(?:https?|mailto|ftp|tel|file):|[^&:/?#]*(?:[/?#]|$))''"

definition data_url_pattern :: string where
  "data_url_pattern = ''^data:(?:image`/(?:bmp|gif|jpeg|jpg|png|tiff|webp)|video`/(?:mpeg|mp4|ogg|webm)|audio`/(?:mp3|oga|ogg|opus));base64,[a-z0-9+/]+=*$''"

definition DefaultWhitelist :: whitelist where
  "DefaultWhitelist =
     [(''*'', [Name ''class'', Name ''dir'', Name ''id'', Name ''lang'', Name ''role'', Pattern True aria_pattern]),
      (''a'', [Name ''target'', Name ''href'', Name ''title'', Name ''rel'']),
      (''area'', []), (''b'', []), (''br'', []), (''col'', []), (''code'', []), (''div'', []), (''em'', []), (''hr'', []),
      (''h1'', []), (''h2'', []), (''h3'', []), (''h4'', []), (''h5'', []), (''h6'', []), (''i'', []),
      (''img'', [Name ''src'', Name ''alt'', Name ''title'', Name ''width'', Name ''height'']),
      (''li'', []), (''ol'', []), (''p'', []), (''pre'', []), (''s'', []), (''small'', []), (''span'', []), (''sub'', []), (''sup'', []),
      (''strong'', []), (''u'', []), (''ul'', [])]"

definition is_uri :: "string \<Rightarrow> bool" where
  "is_uri n \<longleftrightarrow> List.member uriAttrs n"

definition safe_uri :: "string \<Rightarrow> bool" where
  "safe_uri v \<longleftrightarrow> tests True safe_url_pattern v \<or> tests True data_url_pattern v"

fun pattern_allows :: "string \<Rightarrow> allow \<Rightarrow> bool" where
  "pattern_allows n (Pattern ci p) = tests ci p n"
| "pattern_allows n (Name m) = False"

definition allowedAttribute :: "string \<times> string \<Rightarrow> allow list \<Rightarrow> bool" where
  "allowedAttribute a allowed =
     (let n = toLowerCase (fst a)
      in if list_ex (\<lambda>x. x = Name n) allowed then (if is_uri n then safe_uri (snd a) else True)
         else list_ex (pattern_allows n) allowed)"

section \<open>The sanitizer\<close>

definition given_list :: "whitelist \<Rightarrow> string \<Rightarrow> allow list" where
  "given_list W n = (case obj_get W n of Some l \<Rightarrow> l | None \<Rightarrow> [])"

definition whitelistedAttributes :: "whitelist \<Rightarrow> string \<Rightarrow> allow list" where
  "whitelistedAttributes W n = given_list W ''*'' @ given_list W n"

fun removeAttribute :: "string \<Rightarrow> (string \<times> string) list \<Rightarrow> (string \<times> string) list" where
  \<comment> \<open>the first attribute of the name\<close>
  "removeAttribute n [] = []"
| "removeAttribute n (a # as) = (if fst a = n then as else a # removeAttribute n as)"

definition clean_attrs :: "allow list \<Rightarrow> (string \<times> string) list \<Rightarrow> (string \<times> string) list" where
  \<comment> \<open>the loop over a copy of the attributes\<close>
  "clean_attrs allowed as = fold (\<lambda>a bs. if allowedAttribute a allowed then bs else removeAttribute (fst a) bs) as as"

definition sanitize_element :: "whitelist \<Rightarrow> nat \<times> string \<times> (string \<times> string) list \<Rightarrow> node list \<Rightarrow> node list" where
  \<comment> \<open>one round of the loop\<close>
  "sanitize_element W el doc =
     (case el of (i, name, _) \<Rightarrow>
        let n = toLowerCase name
        in if obj_has n W then change_attrs i (clean_attrs (whitelistedAttributes W n)) doc else remove_node i doc)"

definition sanitize_body :: "whitelist \<Rightarrow> node list \<Rightarrow> node list" where
  "sanitize_body W doc = fold (sanitize_element W) (all_elements doc) doc"

definition sanitizeHtml :: "(string \<Rightarrow> node list) \<Rightarrow> (node list \<Rightarrow> string) \<Rightarrow> whitelist \<Rightarrow> (string \<Rightarrow> string) option \<Rightarrow> string \<Rightarrow> string" where
  "sanitizeHtml parse serialize W sanitizeFn unsafe =
     (if unsafe = [] then unsafe
      else (case sanitizeFn of
              Some f \<Rightarrow> f unsafe
            | None \<Rightarrow> serialize (sanitize_body W (parse unsafe))))"

end
