(* ===== verification/BsTooltip.thy ===== *)
theory BsTooltip
  imports BsUtil BsSanitizer ValidateRules
begin

text \<open>
  The tooltips and popovers of Bootstrap: the configuration with its sanitizer, the fields of a Tooltip object with
  what it shows in the page, the triggers, the timer of the delay and the transitions it waits for.  What the
  page and the browser decide is an argument: whether the element is visible and in the document, which
  events are prevented, what functions of the configuration return, the parser and the serialiser.  A Tooltip
  that delegates to the elements of a selector is left out, and so are positions, which Popper computes.
\<close>

section \<open>Configuration\<close>

text \<open>A regular expression in a value is an object with the properties source and ignoreCase.\<close>

definition allow_value :: "allow \<Rightarrow> jsval" where
  "allow_value x = (case x of Name n \<Rightarrow> JStr n | Pattern ci p \<Rightarrow> JObj [(''source'', JStr p), (''ignoreCase'', JBool ci)])"

definition whitelist_value :: "whitelist \<Rightarrow> jsval" where
  "whitelist_value W = JObj (map (\<lambda>(k, l). (k, JArr (map allow_value l))) W)"

definition allow_of :: "jsval \<Rightarrow> allow list" where
  "allow_of v =
     (case v of
        JStr n \<Rightarrow> [Name n]
      | JObj r \<Rightarrow> (case js_prop r ''source'' of JStr p \<Rightarrow> [Pattern (truthy (js_prop r ''ignoreCase'')) p] | _ \<Rightarrow> [])
      | _ \<Rightarrow> [])"

definition whitelist_of :: "jsval \<Rightarrow> whitelist" where
  "whitelist_of v =
     (case v of
        JObj kvs \<Rightarrow> map (\<lambda>(k, l). (k, case l of JArr xs \<Rightarrow> concat (map allow_of xs) | _ \<Rightarrow> [])) kvs
      | _ \<Rightarrow> [])"

definition tooltip_template :: string where
  "tooltip_template =
     (let q = [CHR 0x22] in ''<div class='' @ q @ ''tooltip'' @ q @ '' role='' @ q @ ''tooltip'' @ q @ ''><div class='' @ q @ ''arrow'' @ q
        @ ''></div><div class='' @ q @ ''tooltip-inner'' @ q @ ''></div></div>'')"

definition popover_template :: string where
  "popover_template =
     (let q = [CHR 0x22] in ''<div class='' @ q @ ''popover'' @ q @ '' role='' @ q @ ''tooltip'' @ q @ ''><div class='' @ q @ ''arrow'' @ q
        @ ''></div><h3 class='' @ q @ ''popover-header'' @ q @ ''></h3><div class='' @ q @ ''popover-body'' @ q @ ''></div></div>'')"

definition tooltip_default :: "jsval obj" where
  "tooltip_default =
     [(''animation'', JBool True), (''template'', JStr tooltip_template), (''trigger'', JStr ''hover focus''), (''title'', JStr []), (''delay'', JNum (num 0)),
      (''html'', JBool False), (''selector'', JBool False), (''placement'', JStr ''top''), (''offset'', JNum (num 0)), (''container'', JBool False),
      (''fallbackPlacement'', JStr ''flip''), (''boundary'', JStr ''scrollParent''), (''sanitize'', JBool True), (''sanitizeFn'', JNull),
      (''whiteList'', whitelist_value DefaultWhitelist)]"

definition popover_default :: "jsval obj" where
  "popover_default = objectSpread [] [tooltip_default,
     [(''placement'', JStr ''right''), (''trigger'', JStr ''click''), (''content'', JStr []), (''template'', JStr popover_template)]]"

definition tooltip_types :: "string obj" where
  "tooltip_types =
     [(''animation'', ''boolean''), (''template'', ''string''), (''title'', ''(string|element|function)''), (''trigger'', ''string''), (''delay'', ''(number|object)''),
      (''html'', ''boolean''), (''selector'', ''(string|boolean)''), (''placement'', ''(string|function)''), (''offset'', ''(number|string|function)''),
      (''container'', ''(string|element|boolean)''), (''fallbackPlacement'', ''(string|array)''), (''boundary'', ''(string|element)''),
      (''sanitize'', ''boolean''), (''sanitizeFn'', ''(null|function)''), (''whiteList'', ''object'')]"

definition popover_types :: "string obj" where
  "popover_types = tooltip_types @ [(''content'', ''(string|element|function)'')]"

definition disallowed_attributes :: "string list" where
  "disallowed_attributes = [''sanitize'', ''whiteList'', ''sanitizeFn'']"

record tpage =
  y_popover :: bool
  y_visible :: bool
  y_inDom :: bool
  y_placed :: bool \<comment> \<open>the tip has the attribute x-placement\<close>
  y_original :: "string option" \<comment> \<open>the attribute data-original-title\<close>
  y_content :: "string option" \<comment> \<open>the attribute data-content\<close>
  y_call :: "nat \<Rightarrow> jsval" \<comment> \<open>what functions of the configuration return for the element\<close>
  y_sanitizeFn :: "nat \<Rightarrow> string \<Rightarrow> string"
  y_string :: "jsval \<Rightarrow> string" \<comment> \<open>the text of an object\<close>
  y_parse :: "string \<Rightarrow> node list"
  y_serialize :: "node list \<Rightarrow> string"

definition sanitize_with :: "tpage \<Rightarrow> jsval obj \<Rightarrow> string \<Rightarrow> string" where
  \<comment> \<open>sanitizeHtml with the options of a configuration\<close>
  "sanitize_with y c t =
     sanitizeHtml (y_parse y) (y_serialize y) (whitelist_of (js_prop c ''whiteList''))
       (case js_prop c ''sanitizeFn'' of JFun f \<Rightarrow> Some (y_sanitizeFn y f) | _ \<Rightarrow> None) t"

definition delay_option :: "jsval obj \<Rightarrow> jsval obj" where
  \<comment> \<open>a number means the same delay for both\<close>
  "delay_option c = (case js_prop c ''delay'' of JNum n \<Rightarrow> obj_set ''delay'' (JObj [(''show'', JNum n), (''hide'', JNum n)]) c | _ \<Rightarrow> c)"

definition text_option :: "string \<Rightarrow> jsval obj \<Rightarrow> jsval obj" where
  "text_option k c = (case js_prop c k of JNum n \<Rightarrow> obj_set k (JStr (js_num_string n)) c | _ \<Rightarrow> c)"

definition tooltip_config :: "tpage \<Rightarrow> jsval obj \<Rightarrow> jsval \<Rightarrow> jserr + jsval obj" where
  \<comment> \<open>data attributes and the options given by the script\<close>
  "tooltip_config y data given =
     (let data' = filter (\<lambda>p. \<not> List.member disallowed_attributes (fst p)) data;
          c = objectSpread [] ([if y_popover y then popover_default else tooltip_default, data'] @ (case given of JObj kvs \<Rightarrow> [kvs] | _ \<Rightarrow> []));
          c1 = text_option ''content'' (text_option ''title'' (delay_option c))
      in case typeCheckConfig ''tooltip'' c1 (if y_popover y then popover_types else tooltip_types) of
           Some x \<Rightarrow> Inl x
         | None \<Rightarrow>
             Inr (if truthy (js_prop c1 ''sanitize'')
                  then obj_set ''template'' (JStr (sanitize_with y c1 (case js_prop c1 ''template'' of JStr t \<Rightarrow> t | v \<Rightarrow> y_string y v))) c1
                  else c1))"

section \<open>State\<close>

datatype thover = Neither | HoverShow | HoverOut

datatype ttimer = ShowTimer | HideTimer

datatype tpend = TipShown | TipHidden

datatype shown = NothingShown | AsText string | AsHtml string | AsNodes jsval

record tip =
  t_enabled :: bool
  t_timer :: "ttimer option"
  t_hover :: thover
  t_click :: bool
  t_focus :: bool
  t_mouse :: bool
  t_classes :: "string list"
  t_title :: shown \<comment> \<open>the contents of the tip, or of the header of a popover\<close>
  t_body :: shown
  t_inPage :: bool
  t_described :: bool \<comment> \<open>the element has aria-describedby\<close>
  t_popper :: bool \<comment> \<open>a Popper instance keeps the position\<close>
  t_pending :: "tpend list"
  t_log :: "string list"

definition new_tip :: "string list \<Rightarrow> tip" where
  \<comment> \<open>with the class names of the template\<close>
  "new_tip classes =
     \<lparr>t_enabled = True, t_timer = None, t_hover = Neither, t_click = False, t_focus = False, t_mouse = False, t_classes = classes, t_title = NothingShown,
      t_body = NothingShown, t_inPage = False, t_described = False, t_popper = False, t_pending = [], t_log = []\<rparr>"

type_synonym tguard = "string \<Rightarrow> tip \<Rightarrow> bool" \<comment> \<open>which events the page prevents\<close>

definition log_tip :: "string \<Rightarrow> tip \<Rightarrow> tip" where
  "log_tip ev s = s\<lparr>t_log := t_log s @ [ev]\<rparr>"

definition tip_class :: "string \<Rightarrow> tip \<Rightarrow> bool" where
  "tip_class c s \<longleftrightarrow> List.member (t_classes s) c"

definition fixTitle :: "string option \<times> string option \<Rightarrow> string option \<times> string option" where
  \<comment> \<open>the attributes title and data-original-title\<close>
  "fixTitle a =
     (let title = (case fst a of Some t \<Rightarrow> t | None \<Rightarrow> [])
      in if title \<noteq> [] \<or> snd a = None then (Some [], Some title) else a)"

section \<open>Contents\<close>

definition getTitle :: "tpage \<Rightarrow> jsval obj \<Rightarrow> jsval" where
  "getTitle y c =
     (case y_original y of
        Some (x # t) \<Rightarrow> JStr (x # t)
      | _ \<Rightarrow> (case js_prop c ''title'' of JFun f \<Rightarrow> y_call y f | v \<Rightarrow> v))"

definition getContent :: "tpage \<Rightarrow> jsval obj \<Rightarrow> jsval" where
  "getContent y c = (case y_content y of Some (x # t) \<Rightarrow> JStr (x # t) | _ \<Rightarrow> js_prop c ''content'')"

definition isWithContent :: "tpage \<Rightarrow> jsval obj \<Rightarrow> bool" where
  "isWithContent y c \<longleftrightarrow> truthy (getTitle y c) \<or> (y_popover y \<and> truthy (getContent y c))"

definition content_text :: "tpage \<Rightarrow> jsval \<Rightarrow> string" where
  "content_text y v = (case v of JStr t \<Rightarrow> t | JNum n \<Rightarrow> js_num_string n | _ \<Rightarrow> y_string y v)"

definition setElementContent :: "tpage \<Rightarrow> jsval obj \<Rightarrow> jsval \<Rightarrow> shown" where
  "setElementContent y c v =
     (if has_nodeType v \<or> (case v of JObj kvs \<Rightarrow> truthy (js_prop kvs ''jquery'') | _ \<Rightarrow> False)
      then (if truthy (js_prop c ''html'') then AsNodes v else AsText (y_string y v))
      else if truthy (js_prop c ''html'')
      then AsHtml (if truthy (js_prop c ''sanitize'') then sanitize_with y c (content_text y v) else content_text y v)
      else AsText (content_text y v))"

definition setContent :: "tpage \<Rightarrow> jsval obj \<Rightarrow> tip \<Rightarrow> tip" where
  "setContent y c s =
     (let s1 = s\<lparr>t_title := setElementContent y c (getTitle y c)\<rparr>;
          s2 = (if y_popover y
                then s1\<lparr>t_body := setElementContent y c (case getContent y c of JFun f \<Rightarrow> y_call y f | v \<Rightarrow> v)\<rparr> else s1)
      in s2\<lparr>t_classes := remove_name_from ''show'' (remove_name_from ''fade'' (t_classes s2))\<rparr>)"

section \<open>Placement\<close>

definition class_prefix :: "tpage \<Rightarrow> string" where
  "class_prefix y = (if y_popover y then ''bs-popover'' else ''bs-tooltip'')"

definition getAttachment :: "string \<Rightarrow> string" where
  \<comment> \<open>the entry of the map, as it shows in the class name\<close>
  "getAttachment p = (if List.member [''AUTO'', ''TOP'', ''RIGHT'', ''BOTTOM'', ''LEFT''] (toUpperCase p) then toLowerCase (toUpperCase p) else ''undefined'')"

definition addAttachmentClass :: "tpage \<Rightarrow> string \<Rightarrow> tip \<Rightarrow> tip" where
  "addAttachmentClass y a s = s\<lparr>t_classes := insert_name (class_prefix y @ ''-'' @ a) (t_classes s)\<rparr>"

definition cleanTipClass :: "tpage \<Rightarrow> tip \<Rightarrow> tip" where
  "cleanTipClass y s =
     s\<lparr>t_classes := filter (\<lambda>n. \<not> (take (length (class_prefix y)) n = class_prefix y \<and> length (class_prefix y) < length n)) (t_classes s)\<rparr>"

definition popper_placement_change :: "tpage \<Rightarrow> string \<Rightarrow> tip \<Rightarrow> tip" where
  "popper_placement_change y p s = addAttachmentClass y (getAttachment p) (cleanTipClass y s)"

definition placement_option :: "tpage \<Rightarrow> jsval obj \<Rightarrow> string" where
  "placement_option y c = (case js_prop c ''placement'' of JFun f \<Rightarrow> content_text y (y_call y f) | v \<Rightarrow> content_text y v)"

section \<open>Hiding and leaving\<close>

definition complete_tip_hide :: "tpage \<Rightarrow> tip \<Rightarrow> tip" where
  "complete_tip_hide y s =
     (let s1 = (if t_hover s \<noteq> HoverShow then s\<lparr>t_inPage := False\<rparr> else s)
      in (log_tip ''hidden'' ((cleanTipClass y s1)\<lparr>t_described := False\<rparr>))\<lparr>t_popper := False\<rparr>)"

definition hide_tip :: "tpage \<Rightarrow> tguard \<Rightarrow> tip \<Rightarrow> tip" where
  "hide_tip y prevents s =
     (let s0 = log_tip ''hide'' s
      in if prevents ''hide'' s0 then s0
         else (let s1 = s0\<lparr>t_classes := remove_name_from ''show'' (t_classes s0), t_click := False, t_focus := False, t_mouse := False\<rparr>;
                   s2 = (if tip_class ''fade'' s1 then s1\<lparr>t_pending := t_pending s1 @ [TipHidden]\<rparr> else complete_tip_hide y s1)
               in s2\<lparr>t_hover := Neither\<rparr>))"

definition delay_of :: "jsval obj \<Rightarrow> string \<Rightarrow> bool" where
  \<comment> \<open>whether there is a delay\<close>
  "delay_of c k = (case js_prop c ''delay'' of JObj d \<Rightarrow> truthy (js_prop d k) | _ \<Rightarrow> False)"

definition withActiveTrigger :: "tip \<Rightarrow> bool" where
  "withActiveTrigger s \<longleftrightarrow> t_click s \<or> t_focus s \<or> t_mouse s"

definition leave_tip :: "tpage \<Rightarrow> tguard \<Rightarrow> jsval obj \<Rightarrow> tip \<Rightarrow> tip" where
  "leave_tip y prevents c s =
     (if withActiveTrigger s then s
      else (let s1 = s\<lparr>t_timer := None, t_hover := HoverOut\<rparr>
            in if \<not> delay_of c ''hide'' then hide_tip y prevents s1 else s1\<lparr>t_timer := Some HideTimer\<rparr>))"

section \<open>Showing and entering\<close>

definition start_tip :: "tpage \<Rightarrow> jsval obj \<Rightarrow> tip \<Rightarrow> tip" where
  \<comment> \<open>from setContent to the class show\<close>
  "start_tip y c s =
     (let s1 = setContent y c (s\<lparr>t_described := True\<rparr>);
          s2 = (if truthy (js_prop c ''animation'') then s1\<lparr>t_classes := insert_name ''fade'' (t_classes s1)\<rparr> else s1);
          s3 = log_tip ''inserted'' ((addAttachmentClass y (getAttachment (placement_option y c)) s2)\<lparr>t_inPage := True\<rparr>)
      in s3\<lparr>t_popper := True, t_classes := insert_name ''show'' (t_classes s3)\<rparr>)"

definition after_tip :: "tpage \<Rightarrow> tguard \<Rightarrow> jsval obj \<Rightarrow> tip \<Rightarrow> tip" where
  \<comment> \<open>the callback of show after the repair of the transition\<close>
  "after_tip y prevents c s =
     (let s1 = log_tip ''shown'' (s\<lparr>t_hover := Neither\<rparr>)
      in if t_hover s = HoverOut then leave_tip y prevents c s1 else s1)"

definition invisible_error :: jserr where
  "invisible_error = Error ''Please use show on visible elements''"

definition show_with :: "(tip \<Rightarrow> tip) \<Rightarrow> tpage \<Rightarrow> tguard \<Rightarrow> jsval obj \<Rightarrow> tip \<Rightarrow> tip \<times> jserr option" where
  \<comment> \<open>show, up to what happens after the class show is set\<close>
  "show_with finish y prevents c s =
     (if \<not> y_visible y then (s, Some invisible_error)
      else if isWithContent y c \<and> t_enabled s
      then (let s0 = log_tip ''show'' s
            in if prevents ''show'' s0 \<or> \<not> y_inDom y then (s0, None) else (finish (start_tip y c s0), None))
      else (s, None))"

definition no_animation :: "jsval obj \<Rightarrow> jsval obj" where
  "no_animation c = obj_set ''animation'' (JBool False) c"

definition fixTransition :: "tpage \<Rightarrow> tguard \<Rightarrow> jsval obj \<Rightarrow> tip \<Rightarrow> tip \<times> jserr option" where
  \<comment> \<open>without animation there is no transition to wait for; that an error here leaves the animation switched off is not followed\<close>
  "fixTransition y prevents c s =
     (if y_placed y then (s, None)
      else show_with (after_tip y prevents (no_animation c)) y prevents (no_animation c)
             (hide_tip y prevents (s\<lparr>t_classes := remove_name_from ''fade'' (t_classes s)\<rparr>)))"

definition complete_tip_show :: "tpage \<Rightarrow> tguard \<Rightarrow> jsval obj \<Rightarrow> tip \<Rightarrow> tip \<times> jserr option" where
  "complete_tip_show y prevents c s =
     (case (if truthy (js_prop c ''animation'') then fixTransition y prevents c s else (s, None)) of
        (s1, Some x) \<Rightarrow> (s1, Some x)
      | (s1, None) \<Rightarrow> (after_tip y prevents c s1, None))"

definition show_tip :: "tpage \<Rightarrow> tguard \<Rightarrow> jsval obj \<Rightarrow> tip \<Rightarrow> tip \<times> jserr option" where
  \<comment> \<open>the tip has the class fade just when it is animated\<close>
  "show_tip y prevents c s =
     show_with (\<lambda>s1. if tip_class ''fade'' s1 then s1\<lparr>t_pending := t_pending s1 @ [TipShown]\<rparr> else after_tip y prevents c s1) y prevents c s"

definition enter_tip :: "tpage \<Rightarrow> tguard \<Rightarrow> jsval obj \<Rightarrow> tip \<Rightarrow> tip \<times> jserr option" where
  "enter_tip y prevents c s =
     (if tip_class ''show'' s \<or> t_hover s = HoverShow then (s\<lparr>t_hover := HoverShow\<rparr>, None)
      else (let s1 = s\<lparr>t_timer := None, t_hover := HoverShow\<rparr>
            in if \<not> delay_of c ''show'' then show_tip y prevents c s1 else (s1\<lparr>t_timer := Some ShowTimer\<rparr>, None)))"

definition toggle_tip :: "tpage \<Rightarrow> tguard \<Rightarrow> jsval obj \<Rightarrow> bool \<Rightarrow> tip \<Rightarrow> tip \<times> jserr option" where
  \<comment> \<open>with an event, the trigger click changes\<close>
  "toggle_tip y prevents c ev s =
     (if \<not> t_enabled s then (s, None)
      else if ev then
        (let s1 = s\<lparr>t_click := \<not> t_click s\<rparr>
         in if withActiveTrigger s1 then enter_tip y prevents c s1 else (leave_tip y prevents c s1, None))
      else if tip_class ''show'' s then (leave_tip y prevents c s, None)
      else enter_tip y prevents c s)"

section \<open>Events\<close>

definition enter_event :: "tpage \<Rightarrow> tguard \<Rightarrow> jsval obj \<Rightarrow> bool \<Rightarrow> tip \<Rightarrow> tip \<times> jserr option" where
  \<comment> \<open>focusin, or else mouseenter\<close>
  "enter_event y prevents c focusin s = enter_tip y prevents c (if focusin then s\<lparr>t_focus := True\<rparr> else s\<lparr>t_mouse := True\<rparr>)"

definition leave_event :: "tpage \<Rightarrow> tguard \<Rightarrow> jsval obj \<Rightarrow> bool \<Rightarrow> tip \<Rightarrow> tip" where
  "leave_event y prevents c focusout s = leave_tip y prevents c (if focusout then s\<lparr>t_focus := False\<rparr> else s\<lparr>t_mouse := False\<rparr>)"

definition trigger_words :: "jsval obj \<Rightarrow> string list" where
  "trigger_words c = (case js_prop c ''trigger'' of JStr t \<Rightarrow> split_on (\<lambda>ch. ch = CHR '' '') t | _ \<Rightarrow> [])"

definition listeners_of :: "string \<Rightarrow> string list" where
  \<comment> \<open>the events a trigger listens to; every word but click, hover and manual means focus\<close>
  "listeners_of w =
     (if w = ''click'' then [''click''] else if w = ''manual'' then [] else if w = ''hover'' then [''mouseenter'', ''mouseleave''] else [''focusin'', ''focusout''])"

definition tip_listener :: "tpage \<Rightarrow> tguard \<Rightarrow> jsval obj \<Rightarrow> string \<Rightarrow> tip \<Rightarrow> tip \<times> jserr option" where
  "tip_listener y prevents c ev s =
     (if ev = ''click'' then toggle_tip y prevents c True s
      else if ev = ''mouseenter'' then enter_event y prevents c False s
      else if ev = ''focusin'' then enter_event y prevents c True s
      else if ev = ''mouseleave'' then (leave_event y prevents c False s, None)
      else (leave_event y prevents c True s, None))"

fun run_listeners :: "tpage \<Rightarrow> tguard \<Rightarrow> jsval obj \<Rightarrow> string \<Rightarrow> string list \<Rightarrow> tip \<Rightarrow> tip \<times> jserr option" where
  \<comment> \<open>the listeners of an event, one for each trigger that has it\<close>
  "run_listeners y prevents c ev [] s = (s, None)"
| "run_listeners y prevents c ev (w # ws) s =
     (if List.member (listeners_of w) ev
      then (case tip_listener y prevents c ev s of
              (s1, Some x) \<Rightarrow> (s1, Some x)
            | (s1, None) \<Rightarrow> run_listeners y prevents c ev ws s1)
      else run_listeners y prevents c ev ws s)"

definition tip_event :: "tpage \<Rightarrow> tguard \<Rightarrow> jsval obj \<Rightarrow> string \<Rightarrow> tip \<Rightarrow> tip \<times> jserr option" where
  "tip_event y prevents c ev s = run_listeners y prevents c ev (trigger_words c) s"

definition tip_timeout :: "tpage \<Rightarrow> tguard \<Rightarrow> jsval obj \<Rightarrow> tip \<Rightarrow> tip \<times> jserr option" where
  \<comment> \<open>the timer of the delay\<close>
  "tip_timeout y prevents c s =
     (case t_timer s of
        None \<Rightarrow> (s, None)
      | Some ShowTimer \<Rightarrow> (if t_hover s = HoverShow then show_tip y prevents c (s\<lparr>t_timer := None\<rparr>) else (s\<lparr>t_timer := None\<rparr>, None))
      | Some HideTimer \<Rightarrow> (if t_hover s = HoverOut then (hide_tip y prevents (s\<lparr>t_timer := None\<rparr>), None) else (s\<lparr>t_timer := None\<rparr>, None)))"

definition end_tip :: "tpage \<Rightarrow> tguard \<Rightarrow> jsval obj \<Rightarrow> tpend \<Rightarrow> tip \<Rightarrow> tip \<times> jserr option" where
  \<comment> \<open>a transition ends\<close>
  "end_tip y prevents c p s =
     (if List.member (t_pending s) p
      then (let s1 = s\<lparr>t_pending := remove1 p (t_pending s)\<rparr>
            in case p of TipShown \<Rightarrow> complete_tip_show y prevents c s1 | TipHidden \<Rightarrow> (complete_tip_hide y s1, None))
      else (s, None))"

definition dispose_tip :: "tip \<Rightarrow> tip" where
  "dispose_tip s = s\<lparr>t_timer := None, t_hover := Neither, t_click := False, t_focus := False, t_mouse := False, t_inPage := False, t_popper := False, t_pending := []\<rparr>"

definition tooltip_method :: "tpage \<Rightarrow> tguard \<Rightarrow> jsval obj \<Rightarrow> string \<Rightarrow> tip \<Rightarrow> tip \<times> jserr option" where
  \<comment> \<open>the public methods; the names of private methods are left out, and so is update, which asks for a new position\<close>
  "tooltip_method y prevents c name s =
     (if name = ''enable'' then (s\<lparr>t_enabled := True\<rparr>, None)
      else if name = ''disable'' then (s\<lparr>t_enabled := False\<rparr>, None)
      else if name = ''toggleEnabled'' then (s\<lparr>t_enabled := \<not> t_enabled s\<rparr>, None)
      else if name = ''toggle'' then toggle_tip y prevents c False s
      else if name = ''show'' then show_tip y prevents c s
      else if name = ''hide'' then (hide_tip y prevents s, None)
      else if name = ''dispose'' then (dispose_tip s, None)
      else (s, Some (Error (''No method named '' @ [CHR 0x22] @ name @ [CHR 0x22]))))"

definition tooltip_call :: "tpage \<Rightarrow> tguard \<Rightarrow> string list \<Rightarrow> jsval obj \<Rightarrow> jsval \<Rightarrow> (jsval obj \<times> tip) option \<Rightarrow> jserr + (jsval obj \<times> tip) option \<times> jserr option" where
  \<comment> \<open>one element of $().tooltip(config), with the class names of the template, the data attributes and the instance where there is one\<close>
  "tooltip_call y prevents classes data arg inst =
     (if inst = None \<and> (case arg of JStr t \<Rightarrow> tests False ''dispose|hide'' t | _ \<Rightarrow> False) then Inr (None, None)
      else (case (case inst of Some i \<Rightarrow> Inr i | None \<Rightarrow> (case tooltip_config y data arg of Inl x \<Rightarrow> Inl x | Inr c \<Rightarrow> Inr (c, new_tip classes))) of
              Inl x \<Rightarrow> Inl x
            | Inr (c, s) \<Rightarrow>
                (case arg of
                   JStr name \<Rightarrow> (case tooltip_method y prevents c name s of (s1, x) \<Rightarrow> Inr (if name = ''dispose'' then None else Some (c, s1), x))
                 | _ \<Rightarrow> Inr (Some (c, s), None))))"

end
