(* ===== verification/SanitizerLaws.thy ===== *)
theory SanitizerLaws
  imports BsSanitizer
begin

text \<open>
  What the sanitizer lets through.  The loop that changes the document is shown equal to a recursive filter;
  the two patterns for addresses are related to the scheme that a browser reads from an address; together
  they give the safety of the markup that is shown.
\<close>

section \<open>The loop as a filter\<close>

definition ids :: "node list \<Rightarrow> nat list" where
  "ids ns = map fst (all_elements ns)"

lemma ids_simps [simp]: "ids [] = []" "ids (Text t # ns) = ids ns" "ids (Elem i n as cs # ns) = i # ids cs @ ids ns"
  by (simp_all add: ids_def)

fun clean :: "whitelist \<Rightarrow> node list \<Rightarrow> node list" where
  \<comment> \<open>the reference: keep the elements of the list, and of their attributes the allowed ones\<close>
  "clean W [] = []"
| "clean W (Text t # ns) = Text t # clean W ns"
| "clean W (Elem i n as cs # ns) =
     (if obj_has (toLowerCase n) W
      then Elem i n (filter (\<lambda>a. allowedAttribute a (whitelistedAttributes W (toLowerCase n))) as) (clean W cs) # clean W ns
      else clean W ns)"

definition parsed_ok :: "node list \<Rightarrow> bool" where
  \<comment> \<open>what a parser gives: elements are different objects, and no element has two attributes of one name\<close>
  "parsed_ok doc \<longleftrightarrow> distinct (ids doc) \<and> list_all (\<lambda>el. distinct (map fst (snd (snd el)))) (all_elements doc)"

lemma removeAttribute_other: "n \<notin> fst ` set as \<Longrightarrow> removeAttribute n (as @ bs) = as @ removeAttribute n bs"
  by (induction as) auto

lemma clean_attrs_filter:
  assumes "distinct (map fst as)"
  shows "clean_attrs l as = filter (\<lambda>a. allowedAttribute a l) as"
proof -
  let ?f = "\<lambda>a bs. if allowedAttribute a l then bs else removeAttribute (fst a) bs"
  have "distinct (map fst (pre @ xs)) \<Longrightarrow>
      fold ?f xs (filter (\<lambda>a. allowedAttribute a l) pre @ xs) = filter (\<lambda>a. allowedAttribute a l) (pre @ xs)" for pre xs
  proof (induction xs arbitrary: pre)
    case (Cons x xs)
    then have "fst x \<notin> fst ` set (filter (\<lambda>a. allowedAttribute a l) pre)" by auto
    note rest = removeAttribute_other [OF this, of "x # xs"]
    have "fold ?f xs (filter (\<lambda>a. allowedAttribute a l) (pre @ [x]) @ xs) = filter (\<lambda>a. allowedAttribute a l) ((pre @ [x]) @ xs)"
      by (rule Cons.IH) (use Cons.prems in simp)
    then show ?case using rest by (cases "allowedAttribute x l") simp_all
  qed simp
  from this [of "[]" as] assms show ?thesis by (simp add: clean_attrs_def)
qed

lemma remove_node_other: "i \<notin> set (ids ns) \<Longrightarrow> remove_node i ns = ns"
  by (induction ns rule: all_elements.induct) auto

lemma change_attrs_other: "i \<notin> set (ids ns) \<Longrightarrow> change_attrs i f ns = ns"
  by (induction ns rule: all_elements.induct) auto

lemma ids_remove_node: "set (ids (remove_node i ns)) \<subseteq> set (ids ns)"
  by (induction ns rule: all_elements.induct) auto

lemma ids_change_attrs: "ids (change_attrs i f ns) = ids ns"
  by (induction ns rule: all_elements.induct) auto

lemma sanitize_element_other: "fst el \<notin> set (ids ns) \<Longrightarrow> sanitize_element W el ns = ns"
  by (cases el) (auto simp: sanitize_element_def Let_def intro: remove_node_other change_attrs_other)

lemma ids_sanitize_element: "set (ids (sanitize_element W el ns)) \<subseteq> set (ids ns)"
  using ids_remove_node by (cases el) (simp add: sanitize_element_def Let_def ids_change_attrs)

lemma sanitize_element_Text [simp]: "sanitize_element W el (Text t # ns) = Text t # sanitize_element W el ns"
  by (cases el) (simp add: sanitize_element_def Let_def)

lemma sanitize_element_Elem: "fst el \<noteq> i \<Longrightarrow>
    sanitize_element W el (Elem i n as cs # ns) = Elem i n as (sanitize_element W el cs) # sanitize_element W el ns"
  by (cases el) (auto simp: sanitize_element_def Let_def)

lemma sanitize_all_other: "set (map fst E) \<inter> set (ids ns) = {} \<Longrightarrow> fold (sanitize_element W) E ns = ns"
  by (induction E) (auto simp: sanitize_element_other)

lemma ids_sanitize_all: "set (ids (fold (sanitize_element W) E ns)) \<subseteq> set (ids ns)"
proof (induction E arbitrary: ns)
  case (Cons el E)
  from Cons [of "sanitize_element W el ns"] ids_sanitize_element [of W el ns] show ?case by simp
qed simp

lemma sanitize_all_Text: "fold (sanitize_element W) E (Text t # ns) = Text t # fold (sanitize_element W) E ns"
  by (induction E arbitrary: ns) auto

lemma sanitize_all_Elem: "i \<notin> set (map fst E) \<Longrightarrow>
    fold (sanitize_element W) E (Elem i n as cs # ns) = Elem i n as (fold (sanitize_element W) E cs) # fold (sanitize_element W) E ns"
  by (induction E arbitrary: cs ns) (auto simp: sanitize_element_Elem)

lemma sanitize_body_filter:
  assumes "parsed_ok doc"
  shows "sanitize_body W doc = clean W doc"
  using assms
proof (induction doc rule: all_elements.induct)
  case (3 i n as cs ns)
  let ?S = "sanitize_element W" and ?A = "all_elements cs" and ?B = "all_elements ns"
  have d: "i \<notin> set (ids cs)" "i \<notin> set (ids ns)" "set (ids cs) \<inter> set (ids ns) = {}" "distinct (map fst as)"
    using 3(3) by (auto simp: parsed_ok_def)
  have ih: "fold ?S ?A cs = clean W cs" "fold ?S ?B ns = clean W ns"
    using 3 by (auto simp: parsed_ok_def sanitize_body_def)
  have out: "fold ?S ?A ns = ns" "fold ?S ?B (fold ?S ?A cs) = fold ?S ?A cs"
    using d(3) ids_sanitize_all [of W ?A cs] by (auto intro!: sanitize_all_other simp: ids_def [symmetric] simp del: set_map)
  have i: "i \<notin> set (map fst (?A @ ?B))" using d(1,2) by (simp add: ids_def)
  show ?case
    using d out ih remove_node_other [of i] change_attrs_other [of i]
    by (simp add: sanitize_body_def sanitize_all_Elem [OF i, simplified] sanitize_element_def Let_def clean_attrs_filter)
qed (simp_all add: parsed_ok_def sanitize_body_def sanitize_all_Text)

text \<open>C33: The loop of the sanitizer, which removes elements and attributes of the document while it runs over a
  copy of the elements and also visits those already removed, is the recursive filter.\<close>

theorem sanitize_is_filter:
  assumes "parsed_ok doc"
  shows "sanitize_body W doc = clean W doc"
  by (rule sanitize_body_filter [OF assms])

section \<open>Addresses\<close>

definition schemes :: "string list" where
  "schemes = [''http'', ''https'', ''mailto'', ''ftp'', ''tel'', ''file'']"

definition scheme_re :: re where
  "scheme_re = EAlt
     (ESeq (lit CHR ''h'') (ESeq (lit CHR ''t'') (ESeq (lit CHR ''t'') (ESeq (lit CHR ''p'') (EAlt EEps (lit CHR ''s''))))))
     (EAlt (ESeq (lit CHR ''m'') (ESeq (lit CHR ''a'') (ESeq (lit CHR ''i'') (ESeq (lit CHR ''l'') (ESeq (lit CHR ''t'') (lit CHR ''o''))))))
     (EAlt (ESeq (lit CHR ''f'') (ESeq (lit CHR ''t'') (lit CHR ''p'')))
     (EAlt (ESeq (lit CHR ''t'') (ESeq (lit CHR ''e'') (lit CHR ''l'')))
           (ESeq (lit CHR ''f'') (ESeq (lit CHR ''i'') (ESeq (lit CHR ''l'') (lit CHR ''e'')))))))"

definition points :: "string \<Rightarrow> cls_item list" where
  "points ds = map (\<lambda>d. CRange (code_unit d) (code_unit d)) ds"

definition path_re :: re where
  "path_re = ESeq (EStar (ECls True (points ''&:/?#''))) (EAlt (ECls False (points ''/?#'')) EEol)"

lemma safe_url_parsed: "parse_re (bq safe_url_pattern) = Some (ESeq EBol (EAlt (ESeq scheme_re (lit CHR '':'')) path_re))"
  by code_simp

definition text_re :: "string \<Rightarrow> re \<Rightarrow> re" where
  "text_re w r = foldr (\<lambda>c. ESeq (lit c)) w r"

definition word_re :: "string \<Rightarrow> re" where
  "word_re w = text_re (butlast w) (lit (last w))"

fun words_re :: "string list \<Rightarrow> re" where
  "words_re [] = EEps"
| "words_re (w # ws) = (if ws = [] then word_re w else EAlt (word_re w) (words_re ws))"

definition media_re :: re where
  "media_re = EAlt (text_re ''image/'' (words_re [''bmp'', ''gif'', ''jpeg'', ''jpg'', ''png'', ''tiff'', ''webp'']))
     (EAlt (text_re ''video/'' (words_re [''mpeg'', ''mp4'', ''ogg'', ''webm'']))
           (text_re ''audio/'' (words_re [''mp3'', ''oga'', ''ogg'', ''opus''])))"

definition base64_re :: re where
  "base64_re = (let b = ECls False [CRange 97 122, CRange 48 57, CRange 43 43, CRange 47 47]
     in text_re '';base64,'' (ESeq (ESeq b (EStar b)) (ESeq (EStar (lit CHR ''='')) EEol)))"

lemma data_url_parsed: "parse_re (bq data_url_pattern) = Some (ESeq EBol (text_re ''data:'' (ESeq media_re base64_re)))"
  by code_simp

lemma lower_code: "is_lower d \<longleftrightarrow> 97 \<le> code_unit d \<and> code_unit d \<le> 122"
  by (simp add: is_lower_def in_range_def) (simp add: code_unit_def)

lemma upper_code: "is_upper d \<longleftrightarrow> 65 \<le> code_unit d \<and> code_unit d \<le> 90"
  by (simp add: is_upper_def in_range_def) (simp add: code_unit_def)

definition fixed_case :: "char \<Rightarrow> bool" where
  \<comment> \<open>letters that stand for both cases, and characters without case\<close>
  "fixed_case d \<longleftrightarrow> is_lower d \<or> code_unit d < 65"

lemma low_char_fixed: "fixed_case d \<Longrightarrow> low_char d = d"
  by (auto simp: fixed_case_def low_char_def lower_code upper_code)

lemma up_char_fixed:
  assumes "fixed_case d" "up_char c = d"
  shows "c = d"
proof (rule ccontr)
  assume "c \<noteq> d"
  then have c: "is_lower c \<or> 224 \<le> code_unit c" and d: "d = char_of (code_unit c - 32)" using assms(2) by (auto simp: up_char_def split: if_splits)
  have "code_unit d = code_unit c - 32" unfolding d by (rule code_unit_char_of) (use code_unit_less [of c] in linarith)
  then show False using assms(1) c by (auto simp: fixed_case_def lower_code)
qed

lemma item_single: "item_match (CRange (code_unit d) (code_unit d)) x \<longleftrightarrow> x = d"
  unfolding item_match.simps code_unit_eq_iff [symmetric] by (auto intro: antisym)

lemma cls_points:
  assumes "list_all fixed_case ds"
  shows "cls_match True neg (points ds) c \<longleftrightarrow> neg \<noteq> (low_char c \<in> set ds)"
proof -
  have "(\<exists>d\<in>set ds. c = d \<or> up_char c = d \<or> low_char c = d) \<longleftrightarrow> low_char c \<in> set ds"
  proof
    assume "\<exists>d\<in>set ds. c = d \<or> up_char c = d \<or> low_char c = d"
    then obtain d where "d \<in> set ds" "c = d \<or> up_char c = d \<or> low_char c = d" by blast
    moreover have "fixed_case d" using assms calculation(1) by (simp add: list_all_iff)
    ultimately show "low_char c \<in> set ds" using low_char_fixed [of d] up_char_fixed [of d c] by auto
  qed blast
  then show ?thesis unfolding cls_match_def points_def list_ex_iff set_map bex_simps item_single by simp
qed

lemma lit_points: "lit d = ECls False (points [d])"
  by (simp add: lit_def points_def)

lemma lit_lower: "is_lower d \<Longrightarrow> cls_match True False [CRange (code_unit d) (code_unit d)] c \<longleftrightarrow> low_char c = d"
  using cls_points [of "[d]" False c] by (simp add: points_def fixed_case_def)

lemma lang_lit_lower: "is_lower d \<Longrightarrow> s \<in> lang (to_rx True (lit d)) \<longleftrightarrow> (\<exists>c. s = [c] \<and> low_char c = d)"
  by (auto simp: lit_def lit_lower)

lemma lang_lit_lower_seq: "is_lower d \<Longrightarrow>
    s \<in> lang (RSeq (to_rx True (lit d)) r) \<longleftrightarrow> (\<exists>c t. s = c # t \<and> low_char c = d \<and> t \<in> lang r)"
  by (cases s) (auto simp: lit_def lit_lower in_RSeq_RCls simp del: lang.simps)

lemma lang_scheme_re: "s \<in> lang (to_rx True scheme_re) \<longleftrightarrow> toLowerCase s \<in> set schemes"
proof -
  have l: "is_lower CHR ''h''" "is_lower CHR ''t''" "is_lower CHR ''p''" "is_lower CHR ''s''" "is_lower CHR ''m''" "is_lower CHR ''a''"
    "is_lower CHR ''i''" "is_lower CHR ''l''" "is_lower CHR ''o''" "is_lower CHR ''f''" "is_lower CHR ''e''"
    by code_simp+
  note step = lang_lit_lower_seq [OF l(1)] lang_lit_lower_seq [OF l(2)] lang_lit_lower_seq [OF l(3)] lang_lit_lower_seq [OF l(4)] lang_lit_lower_seq [OF l(5)]
    lang_lit_lower_seq [OF l(6)] lang_lit_lower_seq [OF l(7)] lang_lit_lower_seq [OF l(8)] lang_lit_lower_seq [OF l(9)] lang_lit_lower_seq [OF l(10)] lang_lit_lower_seq [OF l(11)]
    lang_lit_lower [OF l(3)] lang_lit_lower [OF l(4)] lang_lit_lower [OF l(8)] lang_lit_lower [OF l(9)] lang_lit_lower [OF l(11)]
  show ?thesis
    unfolding scheme_re_def to_rx.simps in_RAlt step in_ROne
    unfolding toLowerCase_def schemes_def by (auto simp: map_eq_Cons_conv)
qed

lemma low_char_small: "code_unit (low_char c) < 65 \<Longrightarrow> low_char c = c"
  by (auto simp: low_char_def upper_code code_unit_char_of split: if_splits)

lemma low_char_in_small: "list_all (\<lambda>d. code_unit d < 65) ds \<Longrightarrow> low_char c \<in> set ds \<longleftrightarrow> c \<in> set ds"
  using low_char_small [of c] low_char_fixed [of c] by (auto simp: list_all_iff fixed_case_def)

lemma mat_text_re:
  assumes "list_all fixed_case w" "mat True (text_re w r) p u n"
  shows "\<exists>a b p'. u = a @ b \<and> map low_char a = w \<and> mat True r p' b n"
  using assms
proof (induction w arbitrary: p u)
  case (Cons d w)
  then obtain c b where c: "u = c # b" "low_char c = d" "mat True (text_re w r) (Some c) b n"
    by (auto simp: text_re_def lit_points cls_points)
  with Cons.IH [OF _ c(3)] Cons.prems(1) obtain a b' p' where "b = a @ b'" "map low_char a = w" "mat True r p' b' n" by auto
  then show ?case using c by (intro exI [of _ "c # a"] exI [of _ b'] exI [of _ p']) auto
qed (auto simp: text_re_def)

lemma mat_text_reE:
  assumes "mat True (text_re w r) p u n" "list_all fixed_case w"
  obtains a b p' where "u = a @ b" "map low_char a = w" "mat True r p' b n"
  using mat_text_re [OF assms(2,1)] by (elim exE conjE)

lemma tests_bol: "parse_re (bq p) = Some (ESeq EBol r) \<Longrightarrow> tests ci p s \<longleftrightarrow> (\<exists>v w. s = v @ w \<and> mat ci r None v (nxt w None))"
  unfolding tests_parsed re_test_iff by (auto simp: prv_def split: if_splits)

lemma safe_url_iff:
  "tests True safe_url_pattern v \<longleftrightarrow>
     (\<exists>s w. v = s @ CHR '':'' # w \<and> toLowerCase s \<in> set schemes)
   \<or> (\<exists>u w. v = u @ w \<and> list_all (\<lambda>c. c \<notin> set ''&:/?#'') u \<and> (w = [] \<or> hd w \<in> set ''/?#''))"
proof -
  have f: "list_all (\<lambda>d. code_unit d < 65) ''&:/?#''" "list_all (\<lambda>d. code_unit d < 65) ''/?#''" "list_all (\<lambda>d. code_unit d < 65) '':''"
    by code_simp+
  then have g: "list_all fixed_case ''&:/?#''" "list_all fixed_case ''/?#''" "list_all fixed_case '':''" by (simp_all add: fixed_case_def)
  note cls = cls_points [OF g(1), unfolded low_char_in_small [OF f(1)]] cls_points [OF g(2), unfolded low_char_in_small [OF f(2)]]
    cls_points [OF g(3), unfolded low_char_in_small [OF f(3)]]
  have star: "mat True (EStar (ECls True (points ''&:/?#''))) p u n \<longleftrightarrow> list_all (\<lambda>c. c \<notin> set ''&:/?#'') u" for p u n
  proof -
    have "mat True (EStar (ECls True (points ''&:/?#''))) p u n \<longleftrightarrow> u \<in> star (lang (RCls (cls_match True True (points ''&:/?#''))))"
      by (subst mat_plain) (simp_all del: lang.simps(3))
    moreover have "cls_match True True (points ''&:/?#'') = (\<lambda>c. c \<notin> set ''&:/?#'')" by (rule ext) (simp only: cls simp_thms)
    ultimately show ?thesis unfolding in_star_RCls by (simp only:)
  qed
  have sch: "mat True scheme_re p u n \<longleftrightarrow> toLowerCase u \<in> set schemes" for p u n
    unfolding lang_scheme_re [symmetric] by (rule mat_plain) code_simp
  have colon: "mat True (lit CHR '':'') p u n \<longleftrightarrow> u = '':''" for p u n
    using cls(3) [of False] by (simp add: lit_points)
  have path: "mat True path_re None u n \<longleftrightarrow> (\<exists>x y. u = x @ y \<and> list_all (\<lambda>c. c \<notin> set ''&:/?#'') x \<and> ((\<exists>c. y = [c] \<and> c \<in> set ''/?#'') \<or> y = [] \<and> n = None))" for u n
    unfolding path_re_def mat.simps(2,3,4,7) star cls(2) simp_thms by blast
  have "(\<exists>u w. v = u @ w \<and> mat True path_re None u (nxt w None)) \<longleftrightarrow>
      (\<exists>u w. v = u @ w \<and> list_all (\<lambda>c. c \<notin> set ''&:/?#'') u \<and> (w = [] \<or> hd w \<in> set ''/?#''))" (is "?l \<longleftrightarrow> ?r")
  proof
    assume ?l
    then obtain u w x y where v: "v = (x @ y) @ w" and x: "list_all (\<lambda>c. c \<notin> set ''&:/?#'') x"
      and y: "(\<exists>c. y = [c] \<and> c \<in> set ''/?#'') \<or> y = [] \<and> nxt w None = None"
      unfolding path by blast
    from y have "y @ w = [] \<or> hd (y @ w) \<in> set ''/?#''" by (cases w) auto
    then show ?r using v x by (intro exI [of _ x] exI [of _ "y @ w"]) simp
  next
    assume ?r
    then obtain x w where v: "v = x @ w" and x: "list_all (\<lambda>c. c \<notin> set ''&:/?#'') x" and w: "w = [] \<or> hd w \<in> set ''/?#''" by blast
    have "mat True path_re None (x @ take 1 w) (nxt (drop 1 w) None)"
      unfolding path using x w by (intro exI [of _ x] exI [of _ "take 1 w"]) (cases w; auto)
    then show ?l using v by (intro exI [of _ "x @ take 1 w"] exI [of _ "drop 1 w"]) simp
  qed
  moreover have "(\<exists>u w. v = u @ w \<and> mat True (ESeq scheme_re (lit CHR '':'')) None u (nxt w None)) \<longleftrightarrow>
      (\<exists>s w. v = s @ CHR '':'' # w \<and> toLowerCase s \<in> set schemes)"
    (is "?l \<longleftrightarrow> ?r")
  proof
    assume ?l
    then obtain u w a b where "v = u @ w" "u = a @ b" "toLowerCase a \<in> set schemes" "b = '':''" unfolding mat.simps(3) sch colon by blast
    then show ?r by (intro exI [of _ a] exI [of _ w]) simp
  next
    assume ?r
    then obtain s w where "v = s @ CHR '':'' # w" "toLowerCase s \<in> set schemes" by blast
    then show ?l unfolding mat.simps(3) sch colon by (intro exI [of _ "s @ '':''"] exI [of _ w]) simp
  qed
  ultimately show ?thesis unfolding tests_bol [OF safe_url_parsed] mat.simps(4) conj_disj_distribL ex_disj_distrib by (simp only:)
qed

text \<open>How a browser reads the scheme of an address: control characters and spaces in front are dropped, tabs and
  line breaks are dropped everywhere, and what stands before the first colon is the scheme if it starts with
  a letter and has only letters, digits, plus, minus and dots.\<close>

definition url_input :: "string \<Rightarrow> string" where
  "url_input v = filter (\<lambda>c. \<not> List.member [9, 10, 13] (code_unit c)) (dropWhile (\<lambda>c. code_unit c \<le> 32) v)"

definition scheme_char :: "char \<Rightarrow> bool" where
  "scheme_char c \<longleftrightarrow> is_lower c \<or> is_upper c \<or> is_digit c \<or> List.member ''+-.'' c"

definition browser_scheme :: "string \<Rightarrow> string option" where
  "browser_scheme v =
     (let s = url_input v; t = takeWhile scheme_char s
      in if t \<noteq> [] \<and> (is_lower (hd t) \<or> is_upper (hd t)) \<and> take 1 (drop (length t) s) = '':'' then Some (toLowerCase t) else None)"

definition media_data :: "string \<Rightarrow> bool" where
  "media_data v \<longleftrightarrow> List.member [''data:image/'', ''data:video/'', ''data:audio/''] (take 11 (toLowerCase v))"

definition harmless_address :: "string \<Rightarrow> bool" where
  \<comment> \<open>without scheme, with one of the six, or the data of an image, a film or a sound\<close>
  "harmless_address v \<longleftrightarrow> (case browser_scheme v of None \<Rightarrow> True | Some s \<Rightarrow> List.member schemes s \<or> s = ''data'' \<and> media_data v)"

lemma scheme_char_code: "scheme_char c \<Longrightarrow> 32 < code_unit c \<and> c \<noteq> CHR '':'' \<and> c \<notin> set ''/?#''"
  by (auto simp: scheme_char_def lower_code upper_code is_digit_def in_range_def) (auto simp: code_unit_def)

lemma letter_low:
  assumes "is_lower (low_char c)"
  shows "is_lower c \<or> is_upper c"
proof (rule ccontr)
  assume n: "\<not> (is_lower c \<or> is_upper c)"
  then have c: "192 \<le> code_unit c" "code_unit c \<le> 222" "low_char c = char_of (code_unit c + 32)"
    using assms by (auto simp: low_char_def split: if_splits)
  then have "code_unit (low_char c) = code_unit c + 32" by (simp add: code_unit_char_of)
  then show False using assms c by (simp add: lower_code)
qed

lemma url_input_scheme:
  assumes "list_all (\<lambda>c. is_lower c \<or> is_upper c) s"
  shows "url_input (s @ CHR '':'' # w) = s @ CHR '':'' # filter (\<lambda>c. \<not> List.member [9, 10, 13] (code_unit c)) w"
proof -
  have k: "32 < code_unit c \<and> \<not> List.member [9, 10, 13] (code_unit c)" if "is_lower c \<or> is_upper c \<or> c = CHR '':''" for c
  proof -
    have "code_unit CHR '':'' = 58" by code_simp
    then show ?thesis using that by (auto simp: lower_code upper_code)
  qed
  have "dropWhile (\<lambda>c. code_unit c \<le> 32) (s @ CHR '':'' # w) = s @ CHR '':'' # w"
  proof (cases s)
    case Nil
    then show ?thesis using k [of "CHR '':''"] by (simp add: not_le)
  next
    case (Cons a s')
    then have "32 < code_unit a" using k [of a] assms by simp blast
    then show ?thesis using Cons by (simp add: not_le)
  qed
  moreover have "filter (\<lambda>c. \<not> List.member [9, 10, 13] (code_unit c)) s = s" using assms k by (auto simp: list_all_iff intro!: filter_True)
  ultimately show ?thesis using k [of "CHR '':''"] by (simp add: url_input_def)
qed

lemma browser_scheme_known:
  assumes "list_all is_lower (toLowerCase s)" "s \<noteq> []"
  shows "browser_scheme (s @ CHR '':'' # w) = Some (toLowerCase s)"
proof -
  have l: "list_all (\<lambda>c. is_lower c \<or> is_upper c) s" using assms(1) letter_low by (auto simp: list_all_iff toLowerCase_def)
  have "\<not> scheme_char CHR '':''" by code_simp
  then have "takeWhile scheme_char (s @ CHR '':'' # x) = s" for x
    using l by (subst takeWhile_append2) (auto simp: list_all_iff scheme_char_def)
  moreover have "is_lower (hd s) \<or> is_upper (hd s)" using l assms(2) by (cases s) auto
  ultimately show ?thesis using assms(2) by (simp add: browser_scheme_def url_input_scheme [OF l])
qed

lemma browser_scheme_none:
  assumes "v = u @ w" "list_all (\<lambda>c. c \<notin> set ''&:/?#'') u" "w = [] \<or> hd w \<in> set ''/?#''"
  shows "browser_scheme v = None"
proof -
  let ?P = "\<lambda>c. \<not> List.member [9, 10, 13] (code_unit c)"
  have hw: "32 < code_unit (hd w) \<and> ?P (hd w)" if "w \<noteq> []" using assms(3) that by (auto simp: code_unit_def)
  obtain u' w' where s: "url_input v = u' @ w'" and u: "CHR '':'' \<notin> set u'" and w: "w' = [] \<or> hd w' \<in> set ''/?#''"
  proof
    have "url_input v = filter ?P (dropWhile (\<lambda>c. code_unit c \<le> 32) u) @ filter ?P w"
    proof (cases "dropWhile (\<lambda>c. code_unit c \<le> 32) u = []")
      case True
      then have "dropWhile (\<lambda>c. code_unit c \<le> 32) (u @ w) = w"
        using hw by (cases w) (auto simp: dropWhile_append)
      then show ?thesis unfolding url_input_def assms(1) True by simp
    next
      case False
      then have "\<exists>x\<in>set u. \<not> code_unit x \<le> 32" by (simp add: dropWhile_eq_Nil_conv)
      then have "dropWhile (\<lambda>c. code_unit c \<le> 32) (u @ w) = dropWhile (\<lambda>c. code_unit c \<le> 32) u @ w" by (metis dropWhile_append1)
      then show ?thesis unfolding url_input_def assms(1) by simp
    qed
    then show "url_input v = filter ?P (dropWhile (\<lambda>c. code_unit c \<le> 32) u) @ filter ?P w" .
    show "CHR '':'' \<notin> set (filter ?P (dropWhile (\<lambda>c. code_unit c \<le> 32) u))" using assms(2) by (auto simp: list_all_iff dest!: set_dropWhileD)
    show "filter ?P w = [] \<or> hd (filter ?P w) \<in> set ''/?#''" using assms(3) hw by (cases w) auto
  qed
  show ?thesis
  proof (rule ccontr)
    assume "browser_scheme v \<noteq> None"
    define t where "t = takeWhile scheme_char (url_input v)"
    from \<open>browser_scheme v \<noteq> None\<close> have "take 1 (drop (length t) (url_input v)) = '':''" by (auto simp: browser_scheme_def Let_def t_def split: if_splits)
    then obtain r where r: "drop (length t) (url_input v) = CHR '':'' # r" by (cases "drop (length t) (url_input v)") auto
    have colon: "length t < length (url_input v)" "url_input v ! length t = CHR '':''"
      using r nth_via_drop [OF r] by (metis drop_all list.distinct(1) not_le)+
    have t: "i < length t \<Longrightarrow> scheme_char (url_input v ! i)" for i
      unfolding t_def by (metis nth_mem set_takeWhileD takeWhile_nth)
    have "length u' \<le> length t" using colon u s by (metis not_le nth_append nth_mem)
    moreover have "w' \<noteq> []" using calculation colon s by auto
    ultimately have "url_input v ! length u' \<in> set ''/?#''" using w s by (cases w') auto
    then show False using t [of "length u'"] scheme_char_code [of "url_input v ! length u'"] colon \<open>length u' \<le> length t\<close>
      by (cases "length u' = length t") auto
  qed
qed

definition media_words :: "string list" where
  "media_words = [''image/'', ''video/'', ''audio/'']"

lemma data_url_prefix:
  assumes "tests True data_url_pattern v"
  shows "\<exists>s w. v = s @ CHR '':'' # w \<and> toLowerCase s = ''data'' \<and> media_data v"
proof -
  have f: "list_all fixed_case ''data:''" "list_all fixed_case ''image/''" "list_all fixed_case ''video/''" "list_all fixed_case ''audio/''" by code_simp+
  from assms obtain u w where v: "v = u @ w" and m: "mat True (text_re ''data:'' (ESeq media_re base64_re)) None u (nxt w None)"
    unfolding tests_bol [OF data_url_parsed] by blast
  obtain a b p where u: "u = a @ b" "map low_char a = ''data:''" and m: "mat True (ESeq media_re base64_re) p b (nxt w None)"
    by (rule mat_text_reE [OF m f(1)])
  from m obtain x y n where b: "b = x @ y" and m: "mat True media_re p x n" unfolding mat.simps(3) by blast
  from m consider (i) r where "mat True (text_re ''image/'' r) p x n" | (v) r where "mat True (text_re ''video/'' r) p x n"
    | (a) r where "mat True (text_re ''audio/'' r) p x n"
    unfolding media_re_def mat.simps(4) by blast
  then have "\<exists>c d. x = c @ d \<and> map low_char c \<in> set media_words"
  proof cases
    case i
    show ?thesis by (rule mat_text_reE [OF i f(2)]) (intro exI conjI, assumption, simp only: media_words_def list.set insert_iff simp_thms)
  next
    case v
    show ?thesis by (rule mat_text_reE [OF v f(3)]) (intro exI conjI, assumption, simp only: media_words_def list.set insert_iff simp_thms)
  next
    case a
    show ?thesis by (rule mat_text_reE [OF a f(4)]) (intro exI conjI, assumption, simp only: media_words_def list.set insert_iff simp_thms)
  qed
  then obtain c d where x: "x = c @ d" "map low_char c \<in> set media_words" by blast
  have la: "length a = 5" using arg_cong [OF u(2), of length] by simp
  have lc: "length c = 6" using x(2) unfolding media_words_def list.set by (elim insertE emptyE) (drule arg_cong [of _ _ length], simp)+
  have "take 11 (toLowerCase v) = map low_char a @ map low_char c" using la lc x(1) u(1) b v by (simp add: toLowerCase_def)
  then have "take 11 (toLowerCase v) = ''data:'' @ map low_char c" unfolding u(2) .
  then have "media_data v" using x(2) unfolding media_data_def media_words_def list.set by (elim insertE emptyE) simp_all
  obtain s e where a: "a = s @ [e]" "map low_char s = ''data''" "low_char e = CHR '':''"
  proof (cases a rule: rev_cases)
    case (snoc s e)
    then have "map low_char s @ [low_char e] = ''data'' @ '':''" using u(2) by simp
    then have "map low_char s = ''data'' \<and> low_char e = CHR '':''" unfolding append1_eq_conv .
    then show thesis by (elim conjE) (rule that [OF snoc])
  qed (use la in simp)
  have "code_unit CHR '':'' < 65" by code_simp
  then have "e = CHR '':''" using a(3) low_char_small [of e] by simp
  then show ?thesis using \<open>media_data v\<close> v u a by (auto simp: toLowerCase_def)
qed

lemma schemes_lower: "list_all (\<lambda>s. list_all is_lower s \<and> s \<noteq> []) (''data'' # schemes)"
  by code_simp

lemma safe_uri_harmless:
  assumes "safe_uri v"
  shows "harmless_address v"
proof -
  have known: "browser_scheme v = Some (toLowerCase s)" if "v = s @ CHR '':'' # w" "toLowerCase s \<in> set (''data'' # schemes)" for s w
  proof -
    have "list_all is_lower (toLowerCase s) \<and> toLowerCase s \<noteq> []" using schemes_lower that(2) unfolding list_all_iff by (rule bspec)
    then show ?thesis using browser_scheme_known [of s w] that(1) by (auto simp: toLowerCase_def)
  qed
  show ?thesis
  proof (cases "tests True safe_url_pattern v")
    case True
    then show ?thesis unfolding safe_url_iff
    proof (elim disjE [where R = "harmless_address v"] exE)
      fix s w assume "v = s @ CHR '':'' # w \<and> toLowerCase s \<in> set schemes"
      then show ?thesis using known [of s w] by (simp add: harmless_address_def)
    next
      fix u w assume "v = u @ w \<and> list_all (\<lambda>c. c \<notin> set ''&:/?#'') u \<and> (w = [] \<or> hd w \<in> set ''/?#'')"
      then have "browser_scheme v = None" by (elim conjE) (rule browser_scheme_none)
      then show ?thesis by (simp add: harmless_address_def)
    qed
  next
    case False
    then have "tests True data_url_pattern v" using assms by (simp add: safe_uri_def)
    from data_url_prefix [OF this] obtain s w where s: "v = s @ CHR '':'' # w" "toLowerCase s = ''data''" "media_data v" by (elim exE conjE)
    then show ?thesis using known [of s w] by (simp add: harmless_address_def)
  qed
qed

section \<open>What is shown\<close>

definition harmless :: "nat \<times> string \<times> (string \<times> string) list \<Rightarrow> bool" where
  \<comment> \<open>no script, frame or other active element, no handler and no style, and no address that runs code\<close>
  "harmless el =
     (case el of (i, name, as) \<Rightarrow>
        \<not> List.member [''script'', ''style'', ''iframe'', ''object'', ''embed'', ''link'', ''meta'', ''base'', ''form'', ''svg'', ''math''] (toLowerCase name)
        \<and> list_all (\<lambda>(n, v). take 2 (toLowerCase n) \<noteq> ''on'' \<and> toLowerCase n \<noteq> ''style'' \<and> toLowerCase n \<noteq> ''srcdoc''
             \<and> (if List.member uriAttrs (toLowerCase n) then harmless_address v else True)) as)"

lemma all_clean: "el \<in> set (all_elements (clean W doc)) \<Longrightarrow>
    obj_has (toLowerCase (fst (snd el))) W
    \<and> list_all (\<lambda>a. allowedAttribute a (whitelistedAttributes W (toLowerCase (fst (snd el))))) (snd (snd el))"
  by (induction doc rule: all_elements.induct) (auto simp: list_all_iff split: if_splits)

lemma aria_parsed: "parse_re (bq aria_pattern) = Some (ESeq EBol (text_re ''aria-'' (ESeq (EStar (ECls False [CWord, CRange 45 45])) EEol)))"
  by code_simp

lemma aria_prefix:
  assumes "tests True aria_pattern n"
  shows "take 5 (toLowerCase n) = ''aria-''"
proof -
  have f: "list_all fixed_case ''aria-''" by code_simp
  from assms obtain u w r where v: "n = u @ w" and m: "mat True (text_re ''aria-'' r) None u (nxt w None)"
    unfolding tests_bol [OF aria_parsed] by blast
  obtain a b p where u: "u = a @ b" "map low_char a = ''aria-''" by (rule mat_text_reE [OF m f])
  have "length a = 5" using arg_cong [OF u(2), of length] by simp
  then show ?thesis using u v by (simp add: toLowerCase_def)
qed

definition default_names :: "string list" where
  \<comment> \<open>every attribute the default list names, on some element\<close>
  "default_names = [''class'', ''dir'', ''id'', ''lang'', ''role'', ''target'', ''href'', ''title'', ''rel'', ''src'', ''alt'', ''width'', ''height'']"

lemma toLowerCase_idem [simp]: "toLowerCase (toLowerCase s) = toLowerCase s"
proof -
  have "low_char (low_char c) = low_char c" for c
    by (auto simp: low_char_def upper_code code_unit_char_of)
  then show ?thesis by (simp add: toLowerCase_def)
qed

lemma default_lists: "list_all (\<lambda>e. list_all (\<lambda>x. x = Pattern True aria_pattern \<or> (\<exists>m\<in>set default_names. x = Name m)) (snd e)) DefaultWhitelist"
  by code_simp

lemma default_list:
  assumes "x \<in> set (whitelistedAttributes DefaultWhitelist n)"
  shows "x = Pattern True aria_pattern \<or> (\<exists>m\<in>set default_names. x = Name m)"
proof -
  from assms obtain k l where "(k, l) \<in> set DefaultWhitelist" "x \<in> set l"
    unfolding whitelistedAttributes_def given_list_def by (auto split: option.splits) (metis map_of_SomeD)+
  then show ?thesis using default_lists unfolding list_all_iff by fastforce
qed

lemma allowed_cases:
  assumes "allowedAttribute (n, v) (whitelistedAttributes DefaultWhitelist e)"
  shows "toLowerCase n \<in> set default_names \<and> (List.member uriAttrs (toLowerCase n) \<longrightarrow> safe_uri v) \<or> take 5 (toLowerCase n) = ''aria-''"
proof (cases "Name (toLowerCase n) \<in> set (whitelistedAttributes DefaultWhitelist e)")
  case True
  then have "toLowerCase n \<in> set default_names" using default_list by fastforce
  moreover have "List.member uriAttrs (toLowerCase n) \<longrightarrow> safe_uri v"
    using True assms by (auto simp: allowedAttribute_def is_uri_def list_ex_iff split: if_splits)
  ultimately show ?thesis by blast
next
  case False
  then obtain x where x: "x \<in> set (whitelistedAttributes DefaultWhitelist e)" "pattern_allows (toLowerCase n) x"
    using assms by (auto simp: allowedAttribute_def list_ex_iff split: if_splits)
  then have "tests True aria_pattern (toLowerCase n)" using default_list [OF x(1)] by auto
  from aria_prefix [OF this] show ?thesis by simp
qed

lemma names_harmless:
  "list_all (\<lambda>n. take 2 n \<noteq> ''on'' \<and> n \<noteq> ''style'' \<and> n \<noteq> ''srcdoc'') default_names"
  "list_all (\<lambda>n. take 5 n \<noteq> ''aria-'') uriAttrs"
  "list_all (\<lambda>n. \<not> obj_has n DefaultWhitelist) [''script'', ''style'', ''iframe'', ''object'', ''embed'', ''link'', ''meta'', ''base'', ''form'', ''svg'', ''math'']"
  by code_simp+

lemma aria_harmless:
  assumes "take 5 n = ''aria-''"
  shows "take 2 n \<noteq> ''on'' \<and> n \<noteq> ''style'' \<and> n \<noteq> ''srcdoc'' \<and> \<not> List.member uriAttrs n"
proof -
  have "take 2 n = take 2 (take 5 n)" by (simp add: take_take)
  then have "take 2 n = ''ar''" unfolding assms by simp
  moreover have "n \<notin> set uriAttrs" using names_harmless(2) assms by (auto simp: list_all_iff)
  ultimately show ?thesis by auto
qed

lemma list_all_harmless:
  assumes "parsed_ok doc"
  shows "list_all harmless (all_elements (sanitize_body DefaultWhitelist doc))"
  unfolding list_all_iff
proof
  fix el assume "el \<in> set (all_elements (sanitize_body DefaultWhitelist doc))"
  moreover obtain i e as where el: "el = (i, e, as)" by (cases el)
  ultimately have k: "obj_has (toLowerCase e) DefaultWhitelist"
    and a: "\<And>n v. (n, v) \<in> set as \<Longrightarrow> allowedAttribute (n, v) (whitelistedAttributes DefaultWhitelist (toLowerCase e))"
    using all_clean [of el DefaultWhitelist doc] unfolding sanitize_body_filter [OF assms] by (auto simp: list_all_iff)
  have "take 2 (toLowerCase n) \<noteq> ''on'' \<and> toLowerCase n \<noteq> ''style'' \<and> toLowerCase n \<noteq> ''srcdoc''
      \<and> (if List.member uriAttrs (toLowerCase n) then harmless_address v else True)" if "(n, v) \<in> set as" for n v
    using allowed_cases [OF a [OF that]]
  proof
    assume h: "toLowerCase n \<in> set default_names \<and> (List.member uriAttrs (toLowerCase n) \<longrightarrow> safe_uri v)"
    then have "take 2 (toLowerCase n) \<noteq> ''on'' \<and> toLowerCase n \<noteq> ''style'' \<and> toLowerCase n \<noteq> ''srcdoc''"
      using names_harmless(1) unfolding list_all_iff by blast
    then show ?thesis using h safe_uri_harmless [of v] by presburger
  next
    assume "take 5 (toLowerCase n) = ''aria-''"
    from aria_harmless [OF this] show ?thesis by presburger
  qed
  moreover have "\<not> List.member [''script'', ''style'', ''iframe'', ''object'', ''embed'', ''link'', ''meta'', ''base'', ''form'', ''svg'', ''math''] (toLowerCase e)"
    using names_harmless(3) k by auto
  ultimately show "harmless el" unfolding harmless_def el by (auto simp: list_all_iff)
qed

text \<open>C32: With the list of the library, no element and no attribute that could run code is left of any markup a
  browser parses: no script or frame, no event handler and no style, and every address in an attribute that
  holds one has, as a browser reads it, no scheme, one of six harmless ones, or the data of a picture, a film or
  a sound.\<close>

theorem sanitized_harmless:
  assumes "parsed_ok doc"
  shows "list_all harmless (all_elements (sanitize_body DefaultWhitelist doc))"
  by (rule list_all_harmless [OF assms])

text \<open>An address in an attribute that a list allows by a regular expression is not checked.\<close>

lemma pattern_skips_address_check: "allowedAttribute (''href'', ''javascript:alert(1)'') [Pattern False ''^hr'']"
  by code_simp

section \<open>Examples\<close>

definition sample_markup :: "node list" where
  "sample_markup =
     [Elem 0 ''B'' [(''onclick'', ''f()''), (''class'', ''x'')] [Text ''bold'', Elem 1 ''SCRIPT'' [] [Text ''f()'', Elem 2 ''B'' [] []]],
      Elem 3 ''A'' [(''href'', ''java script:f()''), (''ARIA-label'', ''y'')] [Text ''link''], Elem 4 ''A'' [(''href'', ''HTTPS://h/a:b'')] []]"

theorem sanitize_is_filter_witness:
  "sanitize_body DefaultWhitelist sample_markup =
     [Elem 0 ''B'' [(''class'', ''x'')] [Text ''bold''], Elem 3 ''A'' [(''ARIA-label'', ''y'')] [Text ''link''], Elem 4 ''A'' [(''href'', ''HTTPS://h/a:b'')] []]"
proof -
  have "parsed_ok sample_markup" by (simp add: parsed_ok_def sample_markup_def)
  moreover have "clean DefaultWhitelist sample_markup =
     [Elem 0 ''B'' [(''class'', ''x'')] [Text ''bold''], Elem 3 ''A'' [(''ARIA-label'', ''y'')] [Text ''link''], Elem 4 ''A'' [(''href'', ''HTTPS://h/a:b'')] []]"
    by code_simp
  ultimately show ?thesis using sanitize_is_filter [of sample_markup DefaultWhitelist] by simp
qed

theorem sanitized_harmless_witness: "list_all harmless (all_elements (sanitize_body DefaultWhitelist sample_markup))"
  by (rule sanitized_harmless) (simp add: parsed_ok_def sample_markup_def)

end
