(* ===== verification/TooltipLaws.thy ===== *)
theory TooltipLaws
  imports BsTooltip SanitizerLaws RuleTypes
begin

text \<open>
  Tooltips and popovers: what they show is harmless whatever the attributes of the page say; without delay and
  animation a tip is shown just while one of its triggers is active; and with animation a tip that is entered
  again while it fades out stays without its position.
\<close>

section \<open>Options that attributes cannot set\<close>

lemma map_of_obj_extend_other: "k \<notin> fst ` set s \<Longrightarrow> map_of (obj_extend t s) k = map_of t k"
  by (induction t s rule: obj_extend.induct) auto

declare js_prop_set [simp]

lemma options_kept:
  assumes "k \<in> {''sanitize'', ''sanitizeFn'', ''whiteList''}"
  shows "js_prop (text_option ''content'' (text_option ''title'' (delay_option c))) k = js_prop c k"
proof -
  have "js_prop (delay_option c) k = js_prop c k" using assms by (auto simp: delay_option_def split: jsval.split)
  moreover have "js_prop (text_option ''title'' d) k = js_prop d k" "js_prop (text_option ''content'' d) k = js_prop d k" for d
    using assms by (auto simp: text_option_def split: jsval.split)
  ultimately show ?thesis by simp
qed

lemma default_wf: "obj_wf popover_default" "obj_wf tooltip_default"
  by code_simp+

lemma default_options:
  "js_prop popover_default ''sanitize'' = JBool True" "js_prop popover_default ''sanitizeFn'' = JNull"
  "js_prop popover_default ''whiteList'' = whitelist_value DefaultWhitelist"
  "js_prop tooltip_default ''sanitize'' = JBool True" "js_prop tooltip_default ''sanitizeFn'' = JNull"
  "js_prop tooltip_default ''whiteList'' = whitelist_value DefaultWhitelist"
  "whitelist_of (whitelist_value DefaultWhitelist) = DefaultWhitelist"
  by code_simp+

definition leaves_sanitizer :: "jsval \<Rightarrow> bool" where
  \<comment> \<open>the script gives no options of the sanitizer\<close>
  "leaves_sanitizer given \<longleftrightarrow> (case given of JObj kvs \<Rightarrow> list_all (\<lambda>p. \<not> List.member disallowed_attributes (fst p)) kvs | _ \<Rightarrow> True)"

lemma config_options:
  assumes "tooltip_config y data given = Inr c" "leaves_sanitizer given"
  shows "truthy (js_prop c ''sanitize'') \<and> js_prop c ''sanitizeFn'' = JNull \<and> js_prop c ''whiteList'' = whitelist_value DefaultWhitelist
    \<and> (\<exists>t. js_prop c ''template'' = JStr (sanitize_with y c t))"
proof -
  let ?data = "filter (\<lambda>p. \<not> List.member disallowed_attributes (fst p)) data"
  let ?d = "if y_popover y then popover_default else tooltip_default"
  define g where "g = (case given of JObj kvs \<Rightarrow> kvs | _ \<Rightarrow> [])"
  define c0 where "c0 = objectSpread [] ([?d, ?data] @ (case given of JObj kvs \<Rightarrow> [kvs] | _ \<Rightarrow> []))"
  define c1 where "c1 = text_option ''content'' (text_option ''title'' (delay_option c0))"
  have d: "js_prop c0 k = js_prop ?d k" if k: "k \<in> {''sanitize'', ''sanitizeFn'', ''whiteList''}" for k
  proof -
    have n: "k \<notin> fst ` set ?data" "k \<notin> fst ` set g"
      using k assms(2) by (auto simp: disallowed_attributes_def leaves_sanitizer_def g_def list_all_iff split: jsval.splits)
    have "map_of c0 k = map_of (obj_extend (obj_extend [] ?d) ?data) k"
      using map_of_obj_extend_other [OF n(2)] by (cases given) (simp_all add: c0_def g_def objectSpread_def)
    also have "\<dots> = map_of (obj_extend [] ?d) k" by (rule map_of_obj_extend_other [OF n(1)])
    also have "\<dots> = map_of ?d k" by (subst map_of_obj_extend) (auto split: option.split simp: default_wf)
    finally show ?thesis by (simp add: js_prop_def)
  qed
  have o: "js_prop c1 ''sanitize'' = JBool True" "js_prop c1 ''sanitizeFn'' = JNull" "js_prop c1 ''whiteList'' = whitelist_value DefaultWhitelist"
    using options_kept [of _ c0] d default_options unfolding c1_def by (cases "y_popover y"; simp)+
  obtain X where c: "c = obj_set ''template'' (JStr (sanitize_with y c1 X)) c1"
    using assms(1) o(1) unfolding tooltip_config_def Let_def c0_def [symmetric] c1_def [symmetric]
    by (cases "typeCheckConfig ''tooltip'' c1 (if y_popover y then popover_types else tooltip_types)") (simp_all, metis)
  have "sanitize_with y c t = sanitize_with y c1 t" for t unfolding sanitize_with_def c by simp
  then show ?thesis using o unfolding c by auto
qed

section \<open>What is shown\<close>

definition harmless_html :: "tpage \<Rightarrow> string \<Rightarrow> bool" where
  \<comment> \<open>nothing, or the text of a harmless document\<close>
  "harmless_html y u \<longleftrightarrow> u = [] \<or> (\<exists>d. u = y_serialize y d \<and> list_all harmless (all_elements d))"

definition harmless_shown :: "tpage \<Rightarrow> shown \<Rightarrow> bool" where
  "harmless_shown y sh \<longleftrightarrow> (case sh of AsHtml u \<Rightarrow> harmless_html y u | _ \<Rightarrow> True)"

definition own_sanitizer :: "tpage \<Rightarrow> jsval obj \<Rightarrow> bool" where
  "own_sanitizer y c \<longleftrightarrow> truthy (js_prop c ''sanitize'') \<and> js_prop c ''sanitizeFn'' = JNull \<and> js_prop c ''whiteList'' = whitelist_value DefaultWhitelist
     \<and> (\<forall>t. parsed_ok (y_parse y t))"

lemma sanitize_with_harmless: "own_sanitizer y c \<Longrightarrow> harmless_html y (sanitize_with y c t)"
  using list_all_harmless [of "y_parse y t"]
  by (auto simp: own_sanitizer_def harmless_html_def sanitize_with_def sanitizeHtml_def default_options)

lemma setElementContent_harmless: "own_sanitizer y c \<Longrightarrow> harmless_shown y (setElementContent y c v)"
  by (auto simp: setElementContent_def harmless_shown_def sanitize_with_harmless own_sanitizer_def)

definition shows_harmless :: "tpage \<Rightarrow> tip \<Rightarrow> bool" where
  "shows_harmless y s \<longleftrightarrow> harmless_shown y (t_title s) \<and> harmless_shown y (t_body s)"

lemma shows_updates [simp]:
  "shows_harmless y (s\<lparr>t_pending := p\<rparr>) = shows_harmless y s" "shows_harmless y (s\<lparr>t_hover := h\<rparr>) = shows_harmless y s"
  "shows_harmless y (s\<lparr>t_timer := m\<rparr>) = shows_harmless y s" "shows_harmless y (s\<lparr>t_timer := m, t_hover := h\<rparr>) = shows_harmless y s"
  "shows_harmless y (s\<lparr>t_click := b\<rparr>) = shows_harmless y s" "shows_harmless y (s\<lparr>t_focus := b\<rparr>) = shows_harmless y s"
  "shows_harmless y (s\<lparr>t_mouse := b\<rparr>) = shows_harmless y s" "shows_harmless y (s\<lparr>t_classes := cs\<rparr>) = shows_harmless y s"
  "shows_harmless y (s\<lparr>t_enabled := b\<rparr>) = shows_harmless y s" "shows_harmless y (log_tip ev s) = shows_harmless y s"
  by (simp_all add: shows_harmless_def log_tip_def)

lemma own_no_animation [simp]: "own_sanitizer y (no_animation c) = own_sanitizer y c"
  by (simp add: own_sanitizer_def no_animation_def)

named_theorems tip_safe \<open>operations that keep the contents harmless\<close>

lemma hide_safe [tip_safe]: "shows_harmless y s \<Longrightarrow> shows_harmless y (hide_tip y prevents s)"
  by (simp add: hide_tip_def complete_tip_hide_def log_tip_def cleanTipClass_def shows_harmless_def Let_def)

lemma complete_hide_safe [tip_safe]: "shows_harmless y s \<Longrightarrow> shows_harmless y (complete_tip_hide y s)"
  by (simp add: complete_tip_hide_def log_tip_def cleanTipClass_def shows_harmless_def Let_def)

lemma leave_safe [tip_safe]: "shows_harmless y s \<Longrightarrow> shows_harmless y (leave_tip y prevents c s)"
  unfolding leave_tip_def Let_def by (auto intro!: hide_safe)

lemma after_safe [tip_safe]: "shows_harmless y s \<Longrightarrow> shows_harmless y (after_tip y prevents c s)"
  unfolding after_tip_def Let_def by (auto intro!: leave_safe)

lemma start_safe [tip_safe]: "own_sanitizer y c \<Longrightarrow> shows_harmless y s \<Longrightarrow> shows_harmless y (start_tip y c s)"
  by (simp add: start_tip_def setContent_def addAttachmentClass_def log_tip_def shows_harmless_def setElementContent_harmless Let_def)

lemma show_with_safe [tip_safe]:
  assumes "own_sanitizer y c" "shows_harmless y s" "\<And>s. shows_harmless y s \<Longrightarrow> shows_harmless y (finish s)"
  shows "shows_harmless y (fst (show_with finish y prevents c s))"
proof -
  have "shows_harmless y (log_tip ev s)" for ev using assms(2) by (simp add: log_tip_def shows_harmless_def)
  then show ?thesis using assms by (simp add: show_with_def Let_def start_safe)
qed

lemma show_safe [tip_safe]: "own_sanitizer y c \<Longrightarrow> shows_harmless y s \<Longrightarrow> shows_harmless y (fst (show_tip y prevents c s))"
  unfolding show_tip_def by (rule show_with_safe) (auto intro: after_safe)

lemma fix_safe [tip_safe]: "own_sanitizer y c \<Longrightarrow> shows_harmless y s \<Longrightarrow> shows_harmless y (fst (fixTransition y prevents c s))"
  unfolding fixTransition_def by (auto intro!: show_with_safe hide_safe after_safe)

lemma complete_show_safe [tip_safe]:
  assumes "own_sanitizer y c" "shows_harmless y s"
  shows "shows_harmless y (fst (complete_tip_show y prevents c s))"
  using fix_safe [OF assms, of prevents] after_safe assms(2) by (auto simp: complete_tip_show_def split: prod.splits option.splits)

lemma enter_safe [tip_safe]: "own_sanitizer y c \<Longrightarrow> shows_harmless y s \<Longrightarrow> shows_harmless y (fst (enter_tip y prevents c s))"
  unfolding enter_tip_def Let_def by (auto intro!: show_safe)

lemma toggle_safe [tip_safe]: "own_sanitizer y c \<Longrightarrow> shows_harmless y s \<Longrightarrow> shows_harmless y (fst (toggle_tip y prevents c ev s))"
  unfolding toggle_tip_def Let_def by (auto intro!: enter_safe leave_safe)

lemma listener_safe [tip_safe]:
  "own_sanitizer y c \<Longrightarrow> shows_harmless y s \<Longrightarrow> shows_harmless y (fst (tip_listener y prevents c ev s))"
  unfolding tip_listener_def enter_event_def leave_event_def
  by (auto intro!: toggle_safe enter_safe leave_safe)

lemma listeners_safe [tip_safe]:
  "own_sanitizer y c \<Longrightarrow> shows_harmless y s \<Longrightarrow> shows_harmless y (fst (run_listeners y prevents c ev ws s))"
proof (induction ws arbitrary: s)
  case (Cons w ws)
  then show ?case using listener_safe [OF Cons.prems, of prevents ev] by (auto split: prod.split option.split)
qed simp

inductive tip_step :: "tpage \<Rightarrow> jsval obj \<Rightarrow> tip \<Rightarrow> tip \<Rightarrow> bool" for y c where
  an_event: "tip_step y c s (fst (tip_event y prevents c ev s))"
| a_timeout: "tip_step y c s (fst (tip_timeout y prevents c s))"
| a_transition: "tip_step y c s (fst (end_tip y prevents c p s))"
| a_call: "tip_step y c s (fst (tooltip_method y prevents c name s))"
| a_placement: "tip_step y c s (popper_placement_change y p s)"

inductive_cases tip_stepE: "tip_step y c s s'"

definition tip_init :: "tip \<Rightarrow> bool" where
  "tip_init s \<longleftrightarrow> (\<exists>classes. s = new_tip classes)"

lemma tip_step_safe: "own_sanitizer y c \<Longrightarrow> shows_harmless y s \<Longrightarrow> tip_step y c s s' \<Longrightarrow> shows_harmless y s'"
proof (erule tip_stepE)
  fix prevents ev assume "own_sanitizer y c" "shows_harmless y s" "s' = fst (tip_event y prevents c ev s)"
  then show ?thesis by (simp add: tip_event_def listeners_safe)
next
  fix prevents assume "own_sanitizer y c" "shows_harmless y s" "s' = fst (tip_timeout y prevents c s)"
  then show ?thesis unfolding tip_timeout_def by (auto split: option.split ttimer.split intro!: show_safe hide_safe)
next
  fix prevents p assume "own_sanitizer y c" "shows_harmless y s" "s' = fst (end_tip y prevents c p s)"
  then show ?thesis unfolding end_tip_def Let_def
    by (auto split: tpend.split intro!: complete_show_safe complete_hide_safe)
next
  fix prevents name assume "own_sanitizer y c" "shows_harmless y s" "s' = fst (tooltip_method y prevents c name s)"
  then show ?thesis unfolding tooltip_method_def
    by (auto intro!: toggle_safe show_safe hide_safe) (auto simp: dispose_tip_def shows_harmless_def)
next
  fix p assume "shows_harmless y s" "s' = popper_placement_change y p s"
  then show ?thesis by (simp add: popper_placement_change_def addAttachmentClass_def cleanTipClass_def shows_harmless_def)
qed

lemma init_safe: "shows_harmless y (new_tip classes)"
  by (simp add: new_tip_def shows_harmless_def harmless_shown_def)

interpretation tooltip: inductive_invariant tip_init "\<lambda>s s'. own_sanitizer y c \<and> tip_step y c s s'" "shows_harmless y" for y c
  by unfold_locales (auto simp: tip_init_def init_safe intro: tip_step_safe)

text \<open>C34: Whatever attributes of the page say, and whatever is done to a tooltip or popover, the markup that it shows and the
  markup of its template are the text of a harmless document, as long as the script does not change the
  sanitizer: attributes can switch markup on, but not the sanitizer off.\<close>

theorem tooltip_markup_harmless:
  assumes "tooltip_config y data given = Inr c" "leaves_sanitizer given" "\<And>t. parsed_ok (y_parse y t)"
    and "reach tip_init (tip_step y c) s"
  shows "harmless_shown y (t_title s) \<and> harmless_shown y (t_body s) \<and> (\<exists>t. js_prop c ''template'' = JStr t \<and> harmless_html y t)"
proof -
  note o = config_options [OF assms(1,2)]
  then have own: "own_sanitizer y c" using assms(3) by (simp add: own_sanitizer_def)
  have "reach tip_init (\<lambda>s s'. own_sanitizer y c \<and> tip_step y c s s') s"
    using assms(4) own by (induction rule: reach.induct) (auto intro: reach.intros)
  then have "shows_harmless y s" by (rule tooltip.inv_reach)
  then show ?thesis using o sanitize_with_harmless [OF own] by (auto simp: shows_harmless_def)
qed

section \<open>Shown while triggered\<close>

text \<open>The abstract tooltip: which of its triggers are active.\<close>

type_synonym triggers = "bool \<times> bool \<times> bool" \<comment> \<open>click, focus, hover\<close>

definition triggers_of :: "tip \<Rightarrow> triggers" where
  "triggers_of s = (t_click s, t_focus s, t_mouse s)"

definition any_trigger :: "triggers \<Rightarrow> bool" where
  "any_trigger t \<longleftrightarrow> (case t of (k, f, m) \<Rightarrow> k \<or> f \<or> m)"

definition hear :: "string \<Rightarrow> triggers \<Rightarrow> triggers" where
  "hear ev t =
     (case t of (k, f, m) \<Rightarrow>
        if ev = ''click'' then (\<not> k, f, m) else if ev = ''mouseenter'' then (k, f, True) else if ev = ''focusin'' then (k, True, m)
        else if ev = ''mouseleave'' then (k, f, False) else (k, False, m))"

definition abstract_event :: "string list \<Rightarrow> string \<Rightarrow> triggers \<Rightarrow> triggers" where
  "abstract_event ws ev t = fold (\<lambda>w t. if List.member (listeners_of w) ev then hear ev t else t) ws t"

definition plain_page :: "tpage \<Rightarrow> jsval obj \<Rightarrow> bool" where
  "plain_page y c \<longleftrightarrow> y_visible y \<and> y_inDom y \<and> isWithContent y c \<and> \<not> truthy (js_prop c ''animation'') \<and> \<not> delay_of c ''show'' \<and> \<not> delay_of c ''hide''"

definition resting :: "bool \<Rightarrow> tip \<Rightarrow> bool" where
  "resting b s \<longleftrightarrow> t_enabled s \<and> \<not> tip_class ''fade'' s \<and> t_timer s = None \<and> t_pending s = [] \<and> tip_class ''show'' s = b
     \<and> t_inPage s = b \<and> t_described s = b \<and> t_popper s = b \<and> (t_hover s = Neither \<or> t_hover s = HoverShow \<and> b)"

lemma resting_updates [simp]:
  "resting b (s\<lparr>t_click := x\<rparr>) = resting b s" "resting b (s\<lparr>t_focus := x\<rparr>) = resting b s" "resting b (s\<lparr>t_mouse := x\<rparr>) = resting b s"
  by (simp_all add: resting_def tip_class_def)

lemma active_iff: "withActiveTrigger s = any_trigger (triggers_of s)"
  by (simp add: withActiveTrigger_def any_trigger_def triggers_of_def)

lemma prefix_other: "class_prefix y @ a \<noteq> ''show''" "class_prefix y @ a \<noteq> ''fade''"
  by (auto simp: class_prefix_def)

lemma clean_keeps: "c \<in> {''show'', ''fade''} \<Longrightarrow> c \<in> set (t_classes (cleanTipClass y s)) \<longleftrightarrow> c \<in> set (t_classes s)"
  by (auto simp: cleanTipClass_def class_prefix_def)

lemma leave_rests:
  assumes "resting b s" "\<not> withActiveTrigger s" "plain_page y c"
  shows "resting False (leave_tip y (\<lambda>_ _. False) c s)" "triggers_of (leave_tip y (\<lambda>_ _. False) c s) = triggers_of s"
proof -
  define s1 where "s1 = (log_tip ''hide'' (s\<lparr>t_timer := None, t_hover := HoverOut\<rparr>))\<lparr>t_classes := remove_name_from ''show'' (t_classes s), t_click := False, t_focus := False, t_mouse := False\<rparr>"
  have f: "\<not> tip_class ''fade'' s1" using assms(1) by (auto simp: s1_def resting_def tip_class_def log_tip_def)
  have l: "leave_tip y (\<lambda>_ _. False) c s = (complete_tip_hide y s1)\<lparr>t_hover := Neither\<rparr>"
    using assms f unfolding leave_tip_def hide_tip_def Let_def by (simp add: plain_page_def s1_def log_tip_def)
  have h: "t_hover s1 = HoverOut" by (simp add: s1_def log_tip_def)
  show "resting False (leave_tip y (\<lambda>_ _. False) c s)"
    using assms(1) clean_keeps [of "''show''" y "s1\<lparr>t_inPage := False\<rparr>"] clean_keeps [of "''fade''" y "s1\<lparr>t_inPage := False\<rparr>"] f
    unfolding l complete_tip_hide_def h by (auto simp: resting_def tip_class_def log_tip_def cleanTipClass_def s1_def)
  show "triggers_of (leave_tip y (\<lambda>_ _. False) c s) = triggers_of s"
    using assms(2) unfolding l by (auto simp: complete_tip_hide_def log_tip_def cleanTipClass_def s1_def triggers_of_def withActiveTrigger_def Let_def)
qed

lemma start_rests:
  assumes "resting False s" "plain_page y c"
  defines "s' \<equiv> start_tip y c (log_tip ''show'' (s\<lparr>t_timer := None, t_hover := HoverShow\<rparr>))"
  shows "resting True (log_tip ''shown'' (s'\<lparr>t_hover := Neither\<rparr>))" "triggers_of s' = triggers_of s" "t_hover s' = HoverShow" "\<not> tip_class ''fade'' s'"
  using assms(1,2) prefix_other [of y "''-'' @ getAttachment (placement_option y c)"] prefix_other [of y "''-'' @ getAttachment (placement_option y c)", symmetric]
  by (auto simp: s'_def start_tip_def setContent_def addAttachmentClass_def log_tip_def resting_def tip_class_def plain_page_def triggers_of_def set_insert_name Let_def)

lemma enter_rests:
  assumes "resting b s" "plain_page y c"
  shows "resting True (fst (enter_tip y (\<lambda>_ _. False) c s))" "triggers_of (fst (enter_tip y (\<lambda>_ _. False) c s)) = triggers_of s"
    "snd (enter_tip y (\<lambda>_ _. False) c s) = None"
proof -
  let ?e = "enter_tip y (\<lambda>_ _. False) c s"
  have "resting True (fst ?e) \<and> triggers_of (fst ?e) = triggers_of s \<and> snd ?e = None"
  proof (cases b)
    case True
    then show ?thesis using assms(1) by (simp add: enter_tip_def resting_def tip_class_def triggers_of_def)
  next
    case False
    then have r: "resting False s" using assms(1) by simp
    note st = start_rests [OF r assms(2)]
    have en: "t_enabled s" "\<not> tip_class ''show'' s" "t_hover s = Neither" using r by (auto simp: resting_def)
    have "?e = (after_tip y (\<lambda>_ _. False) c (start_tip y c (log_tip ''show'' (s\<lparr>t_timer := None, t_hover := HoverShow\<rparr>))), None)"
      using assms(2) st(4) en unfolding enter_tip_def show_tip_def show_with_def Let_def plain_page_def by simp
    then show ?thesis using st by (simp add: after_tip_def Let_def) (simp add: triggers_of_def log_tip_def)
  qed
  then show "resting True (fst ?e)" "triggers_of (fst ?e) = triggers_of s" "snd ?e = None" by auto
qed

lemma listener_rests:
  fixes s and y and c and ev
  assumes "resting (withActiveTrigger s) s" "plain_page y c"
  defines "r \<equiv> tip_listener y (\<lambda>_ _. False) c ev s"
  shows "resting (withActiveTrigger (fst r)) (fst r) \<and> triggers_of (fst r) = hear ev (triggers_of s) \<and> snd r = None"
proof -
  have enter: "resting (withActiveTrigger (fst e)) (fst e) \<and> triggers_of (fst e) = triggers_of s1 \<and> snd e = None"
    if "resting b s1" "withActiveTrigger s1" "e = enter_tip y (\<lambda>_ _. False) c s1" for b s1 e
    using enter_rests [OF that(1) assms(2)] that(2) unfolding that(3) active_iff by simp
  have leave: "resting (withActiveTrigger l) l \<and> triggers_of l = triggers_of s1"
    if "resting b s1" "withActiveTrigger s1 \<longrightarrow> b" "l = leave_tip y (\<lambda>_ _. False) c s1" for b s1 l
  proof (cases "withActiveTrigger s1")
    case True
    then show ?thesis using that by (simp add: leave_tip_def)
  next
    case False
    then show ?thesis using leave_rests [OF that(1) False assms(2)] unfolding that(3) active_iff by simp
  qed
  have en: "t_enabled s" using assms(1) by (simp add: resting_def)
  consider (click) "ev = ''click''" | (over) "ev = ''mouseenter''" | (focus) "ev = ''focusin''" | (out) "ev = ''mouseleave''"
    | (blur) "ev \<noteq> ''click''" "ev \<noteq> ''mouseenter''" "ev \<noteq> ''focusin''" "ev \<noteq> ''mouseleave''" by blast
  then show ?thesis
  proof cases
    case click
    let ?s1 = "s\<lparr>t_click := \<not> t_click s\<rparr>"
    show ?thesis
    proof (cases "withActiveTrigger ?s1")
      case True
      then show ?thesis using enter [of _ ?s1 r, OF _ True] assms(1) en click by (simp add: r_def tip_listener_def toggle_tip_def hear_def triggers_of_def)
    next
      case False
      then show ?thesis using leave [of _ ?s1 "fst r"] assms(1) en click by (simp add: r_def tip_listener_def toggle_tip_def hear_def triggers_of_def)
    qed
  next
    case over
    then show ?thesis using enter [of "withActiveTrigger s" "s\<lparr>t_mouse := True\<rparr>" r] assms(1)
      by (auto simp: r_def tip_listener_def enter_event_def hear_def triggers_of_def withActiveTrigger_def)
  next
    case focus
    then show ?thesis using enter [of "withActiveTrigger s" "s\<lparr>t_focus := True\<rparr>" r] assms(1)
      by (auto simp: r_def tip_listener_def enter_event_def hear_def triggers_of_def withActiveTrigger_def)
  next
    case out
    then show ?thesis using leave [of "withActiveTrigger s" "s\<lparr>t_mouse := False\<rparr>" "fst r"] assms(1)
      by (auto simp: r_def tip_listener_def leave_event_def hear_def triggers_of_def withActiveTrigger_def)
  next
    case blur
    then show ?thesis using leave [of "withActiveTrigger s" "s\<lparr>t_focus := False\<rparr>" "fst r"] assms(1)
      by (auto simp: r_def tip_listener_def leave_event_def hear_def triggers_of_def withActiveTrigger_def)
  qed
qed

lemma listeners_rest:
  fixes s and y and c and ev and ws
  assumes "resting (withActiveTrigger s) s" "plain_page y c"
  defines "r \<equiv> run_listeners y (\<lambda>_ _. False) c ev ws s"
  shows "resting (withActiveTrigger (fst r)) (fst r) \<and> triggers_of (fst r) = abstract_event ws ev (triggers_of s) \<and> snd r = None"
  unfolding r_def using assms(1)
proof (induction ws arbitrary: s)
  case (Cons w ws)
  show ?case
  proof (cases "List.member (listeners_of w) ev")
    case True
    obtain s1 where s1: "tip_listener y (\<lambda>_ _. False) c ev s = (s1, None)"
      using listener_rests [OF Cons.prems assms(2), of ev] by (metis prod.collapse)
    then have "resting (withActiveTrigger s1) s1" "triggers_of s1 = hear ev (triggers_of s)"
      using listener_rests [OF Cons.prems assms(2), of ev] by simp_all
    with Cons.IH [of s1] True s1 show ?thesis by (simp add: abstract_event_def)
  next
    case False
    then show ?thesis using Cons.IH [OF Cons.prems] by (simp add: abstract_event_def)
  qed
qed (simp add: abstract_event_def)

text \<open>C35: Without delay and animation, on a visible element with contents, a tooltip is a map from the events of its element to
  the set of active triggers: after any events it is in the page, shown, described and positioned just when
  some trigger is active, and no event raises an error.\<close>

theorem tooltip_shown_iff_triggered:
  assumes "plain_page y c" "list_all (\<lambda>k. \<not> List.member classes k) [''show'', ''fade'']"
    and "s = fold (\<lambda>ev s. fst (tip_event y (\<lambda>_ _. False) c ev s)) evs (new_tip classes)"
    and "active = any_trigger (fold (abstract_event (trigger_words c)) evs (False, False, False))"
  shows "tip_class ''show'' s = active \<and> t_inPage s = active \<and> t_described s = active \<and> t_popper s = active
    \<and> snd (tip_event y (\<lambda>_ _. False) c ev s) = None"
proof -
  let ?run = "\<lambda>evs s. fold (\<lambda>ev s. fst (tip_event y (\<lambda>_ _. False) c ev s)) evs s"
  have run: "resting (withActiveTrigger (?run evs s0)) (?run evs s0)
      \<and> triggers_of (?run evs s0) = fold (abstract_event (trigger_words c)) evs (triggers_of s0)"
    if "resting (withActiveTrigger s0) s0" for s0
    using that
  proof (induction evs arbitrary: s0)
    case (Cons e es)
    from listeners_rest [OF Cons.prems assms(1), of e "trigger_words c"]
    have "resting (withActiveTrigger (fst (tip_event y (\<lambda>_ _. False) c e s0))) (fst (tip_event y (\<lambda>_ _. False) c e s0))"
      "triggers_of (fst (tip_event y (\<lambda>_ _. False) c e s0)) = abstract_event (trigger_words c) e (triggers_of s0)"
      by (simp_all add: tip_event_def)
    from Cons.IH [OF this(1)] this(2) show ?case by simp
  qed simp
  have "resting (withActiveTrigger (new_tip classes)) (new_tip classes)" "triggers_of (new_tip classes) = (False, False, False)"
    using assms(2) by (simp_all add: resting_def new_tip_def withActiveTrigger_def tip_class_def triggers_of_def)
  from run [OF this(1)] this(2) have r: "resting (withActiveTrigger s) s"
    and "triggers_of s = fold (abstract_event (trigger_words c)) evs (False, False, False)" unfolding assms(3) by simp_all
  from this(2) have a: "withActiveTrigger s = active" unfolding assms(4) active_iff by simp
  from listeners_rest [OF r assms(1), of ev "trigger_words c"] show ?thesis using r a by (simp add: tip_event_def resting_def)
qed

section \<open>Entered again while it fades out\<close>

text \<open>With animation, a tooltip that is entered again while it fades out stays in the page and shown, but loses its
  description and its Popper, as the end of the first transition cleans up for both.\<close>

theorem reentered_tip_loses_position:
  assumes "y_visible y" "y_inDom y" "y_placed y" "isWithContent y c" "truthy (js_prop c ''animation'')" "\<not> delay_of c ''show''" "\<not> delay_of c ''hide''"
    and "t_enabled s" "t_hover s = Neither" "t_pending s = []" "tip_class ''show'' s" "tip_class ''fade'' s" "triggers_of s = (False, False, True)"
    and "s1 = fst (enter_event y (\<lambda>_ _. False) c False (leave_event y (\<lambda>_ _. False) c False s))"
    and "s2 = fst (end_tip y (\<lambda>_ _. False) c TipShown (fst (end_tip y (\<lambda>_ _. False) c TipHidden s1)))"
  shows "tip_class ''show'' s2 \<and> t_inPage s2 \<and> t_mouse s2 \<and> t_pending s2 = [] \<and> \<not> t_described s2 \<and> \<not> t_popper s2"
proof -
  define l where "l = leave_event y (\<lambda>_ _. False) c False s"
  have l: "t_pending l = [TipHidden]" "t_hover l = Neither" "\<not> tip_class ''show'' l" "t_enabled l" "triggers_of l = (False, False, False)"
    using assms unfolding l_def leave_event_def leave_tip_def hide_tip_def Let_def
    by (simp_all add: tip_class_def log_tip_def withActiveTrigger_def triggers_of_def)
  define e where "e = start_tip y c (log_tip ''show'' (l\<lparr>t_mouse := True, t_timer := None, t_hover := HoverShow\<rparr>))"
  have e: "t_pending e = [TipHidden]" "t_hover e = HoverShow" "tip_class ''show'' e" "tip_class ''fade'' e" "t_inPage e" "t_mouse e"
    using l assms(5) unfolding e_def start_tip_def setContent_def addAttachmentClass_def Let_def
    by (simp_all add: tip_class_def log_tip_def set_insert_name)
  have s1: "s1 = e\<lparr>t_pending := [TipHidden, TipShown]\<rparr>"
    using l e assms(1,2,4,6) unfolding assms(14) l_def [symmetric] enter_event_def enter_tip_def show_tip_def show_with_def Let_def
    by (simp add: e_def tip_class_def)
  define h where "h = complete_tip_hide y (s1\<lparr>t_pending := [TipShown]\<rparr>)"
  have h: "t_pending h = [TipShown]" "t_hover h = HoverShow" "tip_class ''show'' h" "t_inPage h" "t_mouse h" "\<not> t_described h" "\<not> t_popper h"
    using e clean_keeps [of "''show''" y e] unfolding h_def s1 complete_tip_hide_def Let_def
    by (simp_all add: tip_class_def log_tip_def cleanTipClass_def)
  have "fst (end_tip y (\<lambda>_ _. False) c TipHidden s1) = h" using s1 by (simp add: end_tip_def h_def)
  then show ?thesis using h assms(3) unfolding assms(15)
    by (simp add: end_tip_def complete_tip_show_def fixTransition_def after_tip_def tip_class_def log_tip_def Let_def)
qed

section \<open>Examples\<close>

definition sample_page :: tpage where
  "sample_page = \<lparr>y_popover = False, y_visible = True, y_inDom = True, y_placed = True, y_original = Some ''<b onclick=f()>hi</b>'', y_content = None,
     y_call = (\<lambda>_. JUndef), y_sanitizeFn = (\<lambda>_ t. t), y_string = (\<lambda>_. []),
     y_parse = (\<lambda>t. if t = ''<b onclick=f()>hi</b>'' then [Elem 0 ''B'' [(''onclick'', ''f()'')] [node.Text ''hi'']] else []),
     y_serialize = (\<lambda>d. if d = [Elem 0 ''B'' [] [node.Text ''hi'']] then ''<b>hi</b>'' else [])\<rparr>"

definition sample_data :: "jsval obj" where
  "sample_data = [(''html'', JBool True), (''sanitize'', JBool False), (''animation'', JBool False)]"

definition sample_config :: "jsval obj" where
  "sample_config = (case tooltip_config sample_page sample_data JUndef of Inr c \<Rightarrow> c | Inl _ \<Rightarrow> [])"

lemma sample_config_ok: "tooltip_config sample_page sample_data JUndef = Inr sample_config"
  by code_simp

theorem tooltip_markup_harmless_witness:
  "harmless_shown sample_page (t_title (fst (tip_event sample_page (\<lambda>_ _. False) sample_config ''mouseenter'' (new_tip [''tooltip'']))))
   \<and> t_title (fst (tip_event sample_page (\<lambda>_ _. False) sample_config ''mouseenter'' (new_tip [''tooltip'']))) = AsHtml ''<b>hi</b>''"
proof
  have p: "parsed_ok (y_parse sample_page t)" for t by (simp add: sample_page_def parsed_ok_def)
  have "reach tip_init (tip_step sample_page sample_config) (fst (tip_event sample_page (\<lambda>_ _. False) sample_config ''mouseenter'' (new_tip [''tooltip''])))"
    by (rule reach_step, rule reach_init, simp add: tip_init_def, rule exI, rule refl, rule an_event)
  from tooltip_markup_harmless [OF sample_config_ok _ p this]
  show "harmless_shown sample_page (t_title (fst (tip_event sample_page (\<lambda>_ _. False) sample_config ''mouseenter'' (new_tip [''tooltip'']))))"
    by (simp add: leaves_sanitizer_def)
  show "t_title (fst (tip_event sample_page (\<lambda>_ _. False) sample_config ''mouseenter'' (new_tip [''tooltip'']))) = AsHtml ''<b>hi</b>''"
    by code_simp
qed

theorem tooltip_shown_iff_triggered_witness:
  "(let s = fold (\<lambda>ev s. fst (tip_event sample_page (\<lambda>_ _. False) sample_config ev s)) [''mouseenter'', ''focusin'', ''mouseleave''] (new_tip [''tooltip''])
    in tip_class ''show'' s \<and> t_inPage s)"
proof -
  have p: "plain_page sample_page sample_config" by code_simp
  have a: "any_trigger (fold (abstract_event (trigger_words sample_config)) [''mouseenter'', ''focusin'', ''mouseleave''] (False, False, False))" by code_simp
  have c: "list_all (\<lambda>k. \<not> List.member [''tooltip''] k) [''show'', ''fade'']" by code_simp
  from tooltip_shown_iff_triggered [OF p c refl refl, of "[''mouseenter'', ''focusin'', ''mouseleave'']"] a show ?thesis by (simp only: Let_def)
qed

definition animated_config :: "jsval obj" where
  "animated_config = [(''animation'', JBool True), (''trigger'', JStr ''hover''), (''placement'', JStr ''top''), (''html'', JBool False)]"

definition hovered_tip :: tip where
  "hovered_tip = fst (end_tip sample_page (\<lambda>_ _. False) animated_config TipShown
     (fst (enter_event sample_page (\<lambda>_ _. False) animated_config False (new_tip [''tooltip'']))))"

definition reentered_tip :: tip where
  "reentered_tip = fst (enter_event sample_page (\<lambda>_ _. False) animated_config False (leave_event sample_page (\<lambda>_ _. False) animated_config False hovered_tip))"

definition lost_tip :: tip where
  "lost_tip = fst (end_tip sample_page (\<lambda>_ _. False) animated_config TipShown (fst (end_tip sample_page (\<lambda>_ _. False) animated_config TipHidden reentered_tip)))"

theorem reentered_tip_loses_position_witness: "t_inPage lost_tip \<and> \<not> t_popper lost_tip"
proof -
  have "y_visible sample_page" "y_inDom sample_page" "y_placed sample_page" "isWithContent sample_page animated_config"
    "truthy (js_prop animated_config ''animation'')" "\<not> delay_of animated_config ''show''" "\<not> delay_of animated_config ''hide''"
    "t_enabled hovered_tip" "t_hover hovered_tip = Neither" "t_pending hovered_tip = []" "tip_class ''show'' hovered_tip" "tip_class ''fade'' hovered_tip"
    "triggers_of hovered_tip = (False, False, True)"
    by code_simp+
  from reentered_tip_loses_position [OF this reentered_tip_def lost_tip_def] show ?thesis by simp
qed

end
