(* ===== verification/BsDropdown.thy ===== *)
theory BsDropdown
  imports BsUtil
begin

text \<open>
  The menus of Bootstrap that open on a toggle: the toggles of a page in document order, the parents and menus
  with their class show, the objects that are made on the first use, clicks, keys and the handler that closes
  menus.  Parents and menus are numbers.  Which events the page prevents is an argument; positions, which
  Popper computes, are left out, and a menu has a position while its flag says so.
\<close>

section \<open>State\<close>

record dtoggle =
  d_parent :: nat
  d_menu :: "nat option"
  d_disabled :: bool \<comment> \<open>the property or the class\<close>
  d_expanded :: bool
  d_data :: bool \<comment> \<open>the toggle has its Dropdown object\<close>
  d_inNavbar :: bool
  d_popper :: bool

record dsys =
  z_toggles :: "dtoggle list"
  z_parents :: "nat set" \<comment> \<open>the parents with the class show\<close>
  z_menus :: "nat set" \<comment> \<open>the menus with the class show\<close>
  z_log :: "(string \<times> nat) list"

record devent =
  v_type :: string
  v_which :: nat
  v_tag :: string \<comment> \<open>the tag name of the target\<close>
  v_inside :: "nat \<Rightarrow> bool" \<comment> \<open>the parents that contain the target\<close>

type_synonym dpage = "string \<Rightarrow> nat \<Rightarrow> dsys \<Rightarrow> bool"

definition trigger_parent :: "dpage \<Rightarrow> string \<Rightarrow> nat \<Rightarrow> dsys \<Rightarrow> dsys \<times> bool" where
  "trigger_parent prevents ev p s = (s\<lparr>z_log := z_log s @ [(ev, p)]\<rparr>, prevents ev p s)"

definition flip :: "nat \<Rightarrow> nat set \<Rightarrow> nat set" where
  \<comment> \<open>toggleClass\<close>
  "flip x A = (if x \<in> A then A - {x} else insert x A)"

definition menu_set :: "nat option \<Rightarrow> nat set" where
  "menu_set m = (case m of Some x \<Rightarrow> {x} | None \<Rightarrow> {})"

definition flip_menu :: "nat option \<Rightarrow> nat set \<Rightarrow> nat set" where
  "flip_menu m A = (case m of Some x \<Rightarrow> flip x A | None \<Rightarrow> A)"

definition menu_shown :: "dsys \<Rightarrow> nat \<Rightarrow> bool" where
  \<comment> \<open>the menu of a toggle has the class show\<close>
  "menu_shown s i \<longleftrightarrow> (case d_menu (z_toggles s ! i) of Some m \<Rightarrow> m \<in> z_menus s | None \<Rightarrow> False)"

definition upd_toggle :: "nat \<Rightarrow> (dtoggle \<Rightarrow> dtoggle) \<Rightarrow> dsys \<Rightarrow> dsys" where
  "upd_toggle i f s = s\<lparr>z_toggles := (z_toggles s)[i := f (z_toggles s ! i)]\<rparr>"

section \<open>Closing menus\<close>

definition stays_open :: "devent option \<Rightarrow> nat \<Rightarrow> bool" where
  \<comment> \<open>a click on an input in the menu, or the tab key within it\<close>
  "stays_open ev p \<longleftrightarrow>
     (case ev of
        None \<Rightarrow> False
      | Some e \<Rightarrow> (v_type e = ''click'' \<and> tests True ''input|textarea'' (v_tag e) \<or> v_type e = ''keyup'' \<and> v_which e = 9) \<and> v_inside e p)"

definition clear_menu :: "dpage \<Rightarrow> devent option \<Rightarrow> nat \<Rightarrow> dsys \<Rightarrow> dsys" where
  \<comment> \<open>one round of the loop over the toggles\<close>
  "clear_menu prevents ev i s =
     (let t = z_toggles s ! i; p = d_parent t
      in if \<not> d_data t \<or> p \<notin> z_parents s \<or> stays_open ev p then s
         else (case trigger_parent prevents ''hide'' p s of
                 (s1, prevented) \<Rightarrow>
                   (if prevented then s1
                    else (let s2 = upd_toggle i (\<lambda>t. t\<lparr>d_expanded := False\<rparr>) s1;
                              s3 = s2\<lparr>z_menus := z_menus s2 - menu_set (d_menu t), z_parents := z_parents s2 - {p}\<rparr>
                          in fst (trigger_parent prevents ''hidden'' p s3)))))"

definition clearMenus :: "dpage \<Rightarrow> devent option \<Rightarrow> dsys \<Rightarrow> dsys" where
  "clearMenus prevents ev s =
     (if (case ev of None \<Rightarrow> False | Some e \<Rightarrow> v_which e = 3 \<or> v_type e = ''keyup'' \<and> v_which e \<noteq> 9) then s
      else fold (clear_menu prevents ev) [0..<length (z_toggles s)] s)"

section \<open>The methods\<close>

definition flip_both :: "dpage \<Rightarrow> string \<Rightarrow> nat \<Rightarrow> dsys \<Rightarrow> dsys" where
  \<comment> \<open>toggle the class show of the menu and of the parent, and trigger the event\<close>
  "flip_both prevents ev i s =
     (let t = z_toggles s ! i
      in fst (trigger_parent prevents ev (d_parent t) (s\<lparr>z_menus := flip_menu (d_menu t) (z_menus s), z_parents := flip (d_parent t) (z_parents s)\<rparr>)))"

definition toggle_dropdown :: "dpage \<Rightarrow> nat \<Rightarrow> dsys \<Rightarrow> dsys" where
  "toggle_dropdown prevents i s =
     (if d_disabled (z_toggles s ! i) then s
      else (let isActive = menu_shown s i;
                s1 = clearMenus prevents None s
            in if isActive then s1
               else (case trigger_parent prevents ''show'' (d_parent (z_toggles s ! i)) s1 of
                       (s2, prevented) \<Rightarrow>
                         (if prevented then s2
                          else flip_both prevents ''shown'' i
                                 (upd_toggle i (\<lambda>t. t\<lparr>d_expanded := True, d_popper := (d_popper t \<or> \<not> d_inNavbar t)\<rparr>) s2)))))"

definition show_dropdown :: "dpage \<Rightarrow> nat \<Rightarrow> dsys \<Rightarrow> dsys" where
  "show_dropdown prevents i s =
     (if d_disabled (z_toggles s ! i) \<or> menu_shown s i then s
      else (case trigger_parent prevents ''show'' (d_parent (z_toggles s ! i)) s of
              (s1, prevented) \<Rightarrow> (if prevented then s1 else flip_both prevents ''shown'' i s1)))"

definition hide_dropdown :: "dpage \<Rightarrow> nat \<Rightarrow> dsys \<Rightarrow> dsys" where
  "hide_dropdown prevents i s =
     (if d_disabled (z_toggles s ! i) \<or> \<not> menu_shown s i then s
      else (case trigger_parent prevents ''hide'' (d_parent (z_toggles s ! i)) s of
              (s1, prevented) \<Rightarrow> (if prevented then s1 else flip_both prevents ''hidden'' i s1)))"

definition dispose_dropdown :: "nat \<Rightarrow> dsys \<Rightarrow> dsys" where
  "dispose_dropdown i s = upd_toggle i (\<lambda>t. t\<lparr>d_data := False, d_popper := False\<rparr>) s"

definition dropdown_method :: "dpage \<Rightarrow> string \<Rightarrow> nat \<Rightarrow> dsys \<Rightarrow> dsys \<times> jserr option" where
  \<comment> \<open>the public methods; update only asks Popper for a new position, and the names of private methods are left out\<close>
  "dropdown_method prevents name i s =
     (if name = ''toggle'' then (toggle_dropdown prevents i s, None)
      else if name = ''show'' then (show_dropdown prevents i s, None)
      else if name = ''hide'' then (hide_dropdown prevents i s, None)
      else if name = ''dispose'' then (dispose_dropdown i s, None)
      else (s, Some (Error (''No method named '' @ [CHR 0x22] @ name @ [CHR 0x22]))))"

definition dropdown_default :: "jsval obj" where
  "dropdown_default = [(''offset'', JNum (num 0)), (''flip'', JBool True), (''boundary'', JStr ''scrollParent''), (''reference'', JStr ''toggle''), (''display'', JStr ''dynamic'')]"

definition dropdown_types :: "string obj" where
  "dropdown_types = [(''offset'', ''(number|string|function)''), (''flip'', ''boolean''), (''boundary'', ''(string|element)''), (''reference'', ''(string|element)''), (''display'', ''string'')]"

definition dropdown_config :: "jsval obj \<Rightarrow> jsval obj \<Rightarrow> jserr + jsval obj" where
  "dropdown_config data given =
     (let c = objectSpread [] [dropdown_default, data, given]
      in case typeCheckConfig ''dropdown'' c dropdown_types of Some x \<Rightarrow> Inl x | None \<Rightarrow> Inr c)"

definition dropdown_call :: "dpage \<Rightarrow> jsval obj \<Rightarrow> jsval \<Rightarrow> nat \<Rightarrow> dsys \<Rightarrow> dsys \<times> jserr option" where
  \<comment> \<open>one toggle of $().dropdown(config)\<close>
  "dropdown_call prevents data arg i s =
     (case (if d_data (z_toggles s ! i) then (s, None)
            else (case dropdown_config data (case arg of JObj kvs \<Rightarrow> kvs | _ \<Rightarrow> []) of
                    Inl x \<Rightarrow> (s, Some x)
                  | Inr _ \<Rightarrow> (upd_toggle i (\<lambda>t. t\<lparr>d_data := True\<rparr>) s, None))) of
        (s1, Some x) \<Rightarrow> (s1, Some x)
      | (s1, None) \<Rightarrow> (case arg of JStr name \<Rightarrow> dropdown_method prevents name i s1 | _ \<Rightarrow> (s1, None)))"

definition toggle_click :: "dpage \<Rightarrow> jsval obj \<Rightarrow> nat \<Rightarrow> dsys \<Rightarrow> dsys \<times> jserr option" where
  \<comment> \<open>a click on a toggle: its own listener, or else the one of the document; neither lets the click reach the listener that closes menus\<close>
  "toggle_click prevents data i s = dropdown_call prevents data (JStr ''toggle'') i s"

section \<open>Placement\<close>

definition getPlacement :: "string list \<Rightarrow> string list \<Rightarrow> string" where
  \<comment> \<open>from the class names of the parent and of the menu\<close>
  "getPlacement parent menu =
     (if List.member parent ''dropup'' then (if List.member menu ''dropdown-menu-right'' then ''top-end'' else ''top-start'')
      else if List.member parent ''dropright'' then ''right-start''
      else if List.member parent ''dropleft'' then ''left-start''
      else if List.member menu ''dropdown-menu-right'' then ''bottom-end''
      else ''bottom-start'')"

definition getPopperConfig :: "string \<Rightarrow> jsval obj \<Rightarrow> jsval obj" where
  \<comment> \<open>for a placement; a function as offset is passed as the property fn\<close>
  "getPopperConfig placement c =
     [(''placement'', JStr placement),
      (''modifiers'', JObj ([(''offset'', JObj [(case js_prop c ''offset'' of JFun f \<Rightarrow> ''fn'' | _ \<Rightarrow> ''offset'', js_prop c ''offset'')]),
          (''flip'', JObj [(''enabled'', js_prop c ''flip'')]), (''preventOverflow'', JObj [(''boundariesElement'', js_prop c ''boundary'')])]
        @ (if js_prop c ''display'' = JStr ''static'' then [(''applyStyle'', JObj [(''enabled'', JBool False)])] else [])))]"

section \<open>Keys\<close>

definition key_pattern :: string where "key_pattern = ''38|40|27''"

definition key_ignored :: "string \<Rightarrow> nat \<Rightarrow> bool \<Rightarrow> bool" where
  \<comment> \<open>tag name of the target, code of the key, and whether the target is in a menu\<close>
  "key_ignored tag which inMenu \<longleftrightarrow>
     (if tests True ''input|textarea'' tag then which = 32 \<or> which \<noteq> 27 \<and> (which \<noteq> 40 \<and> which \<noteq> 38 \<or> inMenu)
      else \<not> tests False key_pattern (nat_str which))"

definition item_after_key :: "nat \<Rightarrow> int \<Rightarrow> nat \<Rightarrow> int" where
  \<comment> \<open>the index of the item that gets the focus, from the code of the key, the index of the target, or -1, and the number of items\<close>
  "item_after_key which index n =
     (let i1 = (if which = 38 \<and> 0 < index then index - 1 else index);
          i2 = (if which = 40 \<and> i1 < int n - 1 then i1 + 1 else i1)
      in if i2 < 0 then 0 else i2)"

datatype key_action = KIgnored | KConsumed | KClick bool \<comment> \<open>whether the toggle gets the focus first\<close> | KFocus int

definition keydown_action :: "string \<Rightarrow> nat \<Rightarrow> bool \<Rightarrow> bool \<Rightarrow> bool \<Rightarrow> nat \<Rightarrow> int \<Rightarrow> key_action" where
  "keydown_action tag which inMenu disabled isActive n index =
     (if key_ignored tag which inMenu then KIgnored
      else if disabled then KConsumed
      else if \<not> isActive \<or> which = 27 \<or> which = 32 then KClick (which = 27)
      else if n = 0 then KConsumed
      else KFocus (item_after_key which index n))"

definition toggle_keydown :: "dpage \<Rightarrow> jsval obj \<Rightarrow> string \<Rightarrow> nat \<Rightarrow> bool \<Rightarrow> nat \<Rightarrow> int \<Rightarrow> nat \<Rightarrow> dsys \<Rightarrow> (dsys \<times> jserr option) \<times> int option" where
  \<comment> \<open>the handler on a toggle; the answer says which item of its parent gets the focus\<close>
  "toggle_keydown prevents data tag which inMenu n index i s =
     (let t = z_toggles s ! i
      in case keydown_action tag which inMenu (d_disabled t) (d_parent t \<in> z_parents s) n index of
           KClick _ \<Rightarrow> (toggle_click prevents data i s, None)
         | KFocus k \<Rightarrow> ((s, None), Some k)
         | _ \<Rightarrow> ((s, None), None))"

definition menu_keydown :: "dpage \<Rightarrow> devent \<Rightarrow> string \<Rightarrow> nat \<Rightarrow> bool \<Rightarrow> nat \<Rightarrow> int \<Rightarrow> nat \<Rightarrow> dsys \<Rightarrow> dsys \<times> int option" where
  \<comment> \<open>the handler on the menu of a parent; its click, with the menu as the target, reaches the listener of the document\<close>
  "menu_keydown prevents click tag which disabled n index p s =
     (case keydown_action tag which True disabled (p \<in> z_parents s) n index of
        KClick _ \<Rightarrow> (clearMenus prevents (Some click) s, None)
      | KFocus k \<Rightarrow> (s, Some k)
      | _ \<Rightarrow> (s, None))"

end
