(* ===== verification/DropdownLaws.thy ===== *)
theory DropdownLaws
  imports BsDropdown
begin

text \<open>
  Menus of a page whose toggles have parents and menus of their own: whatever is clicked and pressed, at most
  one is open, and a menu and its parent agree.  The item that a key moves to stays in the menu.
\<close>

section \<open>Closing\<close>

definition skeleton :: "dsys \<Rightarrow> (nat \<times> nat option \<times> bool) list" where
  "skeleton s = map (\<lambda>t. (d_parent t, d_menu t, d_data t)) (z_toggles s)"

definition own_menus :: "dsys \<Rightarrow> bool" where
  "own_menus s \<longleftrightarrow> distinct (map d_parent (z_toggles s)) \<and> distinct (map d_menu (z_toggles s)) \<and> list_all (\<lambda>t. d_menu t \<noteq> None) (z_toggles s)"

definition parent_shown :: "dsys \<Rightarrow> nat \<Rightarrow> bool" where
  "parent_shown s i \<longleftrightarrow> d_parent (z_toggles s ! i) \<in> z_parents s"

lemma menus_given: "list_all (\<lambda>t. d_menu t \<noteq> None) ts \<longleftrightarrow> None \<notin> set (map d_menu ts)"
  by (induction ts) auto

lemma skeleton_own:
  assumes "skeleton s' = skeleton s"
  shows "own_menus s' = own_menus s"
proof -
  from assms have "map fst (skeleton s') = map fst (skeleton s)" "map (fst \<circ> snd) (skeleton s') = map (fst \<circ> snd) (skeleton s)" by simp_all
  then have "map d_parent (z_toggles s') = map d_parent (z_toggles s)" "map d_menu (z_toggles s') = map d_menu (z_toggles s)"
    by (simp_all add: skeleton_def comp_def)
  then show ?thesis unfolding own_menus_def menus_given by simp
qed

lemma skeleton_nth:
  assumes "skeleton s' = skeleton s" "i < length (z_toggles s)"
  shows "d_parent (z_toggles s' ! i) = d_parent (z_toggles s ! i)" "d_menu (z_toggles s' ! i) = d_menu (z_toggles s ! i)"
    "d_data (z_toggles s' ! i) = d_data (z_toggles s ! i)" "i < length (z_toggles s')"
proof -
  have l: "length (z_toggles s') = length (z_toggles s)" using assms(1) by (metis length_map skeleton_def)
  then show "i < length (z_toggles s')" using assms(2) by simp
  have "skeleton s' ! i = skeleton s ! i" using assms(1) by simp
  then show "d_parent (z_toggles s' ! i) = d_parent (z_toggles s ! i)" "d_menu (z_toggles s' ! i) = d_menu (z_toggles s ! i)"
    "d_data (z_toggles s' ! i) = d_data (z_toggles s ! i)"
    using assms(2) l by (simp_all add: skeleton_def)
qed

lemma own_apart:
  assumes "own_menus s" "i < length (z_toggles s)" "j < length (z_toggles s)" "i \<noteq> j"
  shows "d_parent (z_toggles s ! i) \<noteq> d_parent (z_toggles s ! j)" "d_menu (z_toggles s ! i) \<noteq> d_menu (z_toggles s ! j)"
  using assms by (auto simp: own_menus_def distinct_conv_nth)

lemma own_menu: "own_menus s \<Longrightarrow> i < length (z_toggles s) \<Longrightarrow> \<exists>m. d_menu (z_toggles s ! i) = Some m"
  by (auto simp: own_menus_def list_all_length)

definition never_hide_prevented :: "dpage \<Rightarrow> bool" where
  "never_hide_prevented prevents \<longleftrightarrow> (\<forall>p s. \<not> prevents ''hide'' p s)"

definition changes_only :: "nat \<Rightarrow> dsys \<Rightarrow> dsys \<Rightarrow> bool" where
  \<comment> \<open>at most the menu and the parent of one toggle change\<close>
  "changes_only i s s' \<longleftrightarrow> skeleton s' = skeleton s \<and> (\<forall>j < length (z_toggles s). j \<noteq> i \<longrightarrow> menu_shown s' j = menu_shown s j \<and> parent_shown s' j = parent_shown s j)"

lemma skeleton_upd:
  assumes "\<And>t. d_parent (f t) = d_parent t" "\<And>t. d_menu (f t) = d_menu t" "\<And>t. d_data (f t) = d_data t"
  shows "skeleton (upd_toggle i f s) = skeleton s"
proof (cases "i < length (z_toggles s)")
  case True
  let ?g = "\<lambda>t. (d_parent t, d_menu t, d_data t)"
  have "map ?g ((z_toggles s)[i := f (z_toggles s ! i)]) = (map ?g (z_toggles s))[i := map ?g (z_toggles s) ! i]"
    using True by (simp only: map_update nth_map assms)
  then show ?thesis by (simp add: skeleton_def upd_toggle_def)
qed (simp add: skeleton_def upd_toggle_def list_update_beyond)

lemma toggles_upd:
  assumes "\<And>t. d_parent (f t) = d_parent t" "\<And>t. d_menu (f t) = d_menu t"
  shows "d_parent (z_toggles (upd_toggle i f s) ! j) = d_parent (z_toggles s ! j)" "d_menu (z_toggles (upd_toggle i f s) ! j) = d_menu (z_toggles s ! j)"
proof -
  have "d_parent (z_toggles (upd_toggle i f s) ! j) = d_parent (z_toggles s ! j) \<and> d_menu (z_toggles (upd_toggle i f s) ! j) = d_menu (z_toggles s ! j)"
  proof (cases "i < length (z_toggles s)")
    case True
    then show ?thesis by (cases "i = j") (simp_all add: upd_toggle_def assms)
  qed (simp add: upd_toggle_def list_update_beyond)
  then show "d_parent (z_toggles (upd_toggle i f s) ! j) = d_parent (z_toggles s ! j)" "d_menu (z_toggles (upd_toggle i f s) ! j) = d_menu (z_toggles s ! j)"
    by blast+
qed

lemma skeleton_other [simp]:
  "skeleton (s\<lparr>z_menus := A\<rparr>) = skeleton s" "skeleton (s\<lparr>z_parents := A\<rparr>) = skeleton s" "skeleton (s\<lparr>z_log := l\<rparr>) = skeleton s"
  "skeleton (s\<lparr>z_menus := A, z_parents := B\<rparr>) = skeleton s" "skeleton (s\<lparr>z_menus := A, z_parents := B, z_log := l\<rparr>) = skeleton s"
  by (simp_all add: skeleton_def)

lemma shown_log [simp]:
  "menu_shown (s\<lparr>z_log := l\<rparr>) i = menu_shown s i" "parent_shown (s\<lparr>z_log := l\<rparr>) i = parent_shown s i"
  by (simp_all add: menu_shown_def parent_shown_def split: option.split)

lemma clear_menu_effect:
  fixes prevents and ev and i and s
  assumes "own_menus s" "i < length (z_toggles s)" "never_hide_prevented prevents"
  defines "s' \<equiv> clear_menu prevents ev i s"
  shows "changes_only i s s'"
    and "if d_data (z_toggles s ! i) \<and> parent_shown s i \<and> \<not> stays_open ev (d_parent (z_toggles s ! i)) then \<not> menu_shown s' i \<and> \<not> parent_shown s' i
         else menu_shown s' i = menu_shown s i \<and> parent_shown s' i = parent_shown s i"
proof -
  let ?t = "z_toggles s ! i"
  obtain m where m: "d_menu ?t = Some m" using own_menu [OF assms(1,2)] by blast
  have "changes_only i s s' \<and>
    (if d_data ?t \<and> parent_shown s i \<and> \<not> stays_open ev (d_parent ?t) then \<not> menu_shown s' i \<and> \<not> parent_shown s' i
     else menu_shown s' i = menu_shown s i \<and> parent_shown s' i = parent_shown s i)"
  proof (cases "d_data ?t \<and> parent_shown s i \<and> \<not> stays_open ev (d_parent ?t)")
    case False
    then have "s' = s" by (auto simp: s'_def clear_menu_def parent_shown_def Let_def)
    then show ?thesis using False by (simp add: changes_only_def)
  next
    case True
    define s2 where "s2 = upd_toggle i (\<lambda>t. t\<lparr>d_expanded := False\<rparr>) (s\<lparr>z_log := z_log s @ [(''hide'', d_parent ?t)]\<rparr>)"
    have s': "s' = fst (trigger_parent prevents ''hidden'' (d_parent ?t) (s2\<lparr>z_menus := z_menus s - {m}, z_parents := z_parents s - {d_parent ?t}\<rparr>))"
      using True assms(3) m by (simp add: s'_def clear_menu_def parent_shown_def never_hide_prevented_def trigger_parent_def s2_def upd_toggle_def menu_set_def Let_def)
    have same: "d_parent (z_toggles s2 ! j) = d_parent (z_toggles s ! j)" "d_menu (z_toggles s2 ! j) = d_menu (z_toggles s ! j)" for j
      unfolding s2_def by (simp_all add: toggles_upd)
    have sk: "skeleton s2 = skeleton s" unfolding s2_def by (subst skeleton_upd) simp_all
    have "menu_shown s' j = menu_shown s j \<and> parent_shown s' j = parent_shown s j" if "j < length (z_toggles s)" "j \<noteq> i" for j
      using own_apart [OF assms(1,2) that(1)] that(2) m unfolding s'
      by (auto simp: trigger_parent_def menu_shown_def parent_shown_def same split: option.splits)
    moreover have "\<not> menu_shown s' i" "\<not> parent_shown s' i" unfolding s' using m by (simp_all add: trigger_parent_def menu_shown_def parent_shown_def same)
    ultimately show ?thesis using True sk unfolding changes_only_def by (simp add: s' trigger_parent_def)
  qed
  then show "changes_only i s s'"
    and "if d_data ?t \<and> parent_shown s i \<and> \<not> stays_open ev (d_parent ?t) then \<not> menu_shown s' i \<and> \<not> parent_shown s' i
         else menu_shown s' i = menu_shown s i \<and> parent_shown s' i = parent_shown s i" by blast+
qed

section \<open>At most one menu\<close>

definition menus_agree :: "dsys \<Rightarrow> bool" where
  \<comment> \<open>every menu is shown just when its parent is, and then its toggle has its object\<close>
  "menus_agree s \<longleftrightarrow> own_menus s \<and> (\<forall>i < length (z_toggles s). menu_shown s i = parent_shown s i \<and> (parent_shown s i \<longrightarrow> d_data (z_toggles s ! i)))"

definition opens :: "dsys \<Rightarrow> nat set" where
  "opens s = {i. i < length (z_toggles s) \<and> parent_shown s i}"

definition one_open :: "dsys \<Rightarrow> bool" where
  "one_open s \<longleftrightarrow> menus_agree s \<and> (\<forall>i \<in> opens s. \<forall>j \<in> opens s. i = j)"

lemma clear_menu_agrees:
  assumes "menus_agree s" "i < length (z_toggles s)" "never_hide_prevented prevents"
  shows "menus_agree (clear_menu prevents ev i s)" "opens (clear_menu prevents ev i s) \<subseteq> opens s"
    "ev = None \<Longrightarrow> opens (clear_menu prevents ev i s) = opens s - {i}" "length (z_toggles (clear_menu prevents ev i s)) = length (z_toggles s)"
proof -
  let ?s' = "clear_menu prevents ev i s"
  have o: "own_menus s" using assms(1) by (simp add: menus_agree_def)
  note e = clear_menu_effect [OF o assms(2,3), of ev]
  have sk: "skeleton ?s' = skeleton s" and other: "\<And>j. j < length (z_toggles s) \<Longrightarrow> j \<noteq> i \<Longrightarrow> menu_shown ?s' j = menu_shown s j \<and> parent_shown ?s' j = parent_shown s j"
    using e(1) by (auto simp: changes_only_def)
  show len: "length (z_toggles ?s') = length (z_toggles s)" using sk by (metis length_map skeleton_def)
  have d: "d_data (z_toggles ?s' ! j) = d_data (z_toggles s ! j)" if "j < length (z_toggles s)" for j by (rule skeleton_nth [OF sk that])
  have all: "menu_shown ?s' j = parent_shown ?s' j \<and> (parent_shown ?s' j \<longrightarrow> parent_shown s j)" if "j < length (z_toggles s)" for j
    using e(2) other [OF that] assms(1) that by (cases "j = i") (auto simp: menus_agree_def split: if_splits)
  show "menus_agree ?s'" using all d assms(1) skeleton_own [OF sk] by (auto simp: menus_agree_def len)
  show "opens ?s' \<subseteq> opens s" using all by (auto simp: opens_def len)
  show "opens ?s' = opens s - {i}" if "ev = None"
  proof -
    have "\<not> parent_shown ?s' i" using e(2) assms(1,2) that by (auto simp: menus_agree_def stays_open_def split: if_splits)
    then show ?thesis using other by (auto simp: opens_def len)
  qed
qed

lemma clear_list:
  assumes "menus_agree s" "\<And>i. i \<in> set js \<Longrightarrow> i < length (z_toggles s)" "never_hide_prevented prevents"
  shows "menus_agree (fold (clear_menu prevents ev) js s) \<and> opens (fold (clear_menu prevents ev) js s) \<subseteq> opens s
    \<and> (ev = None \<longrightarrow> opens (fold (clear_menu prevents ev) js s) = opens s - set js) \<and> length (z_toggles (fold (clear_menu prevents ev) js s)) = length (z_toggles s)"
  using assms(1,2)
proof (induction js arbitrary: s)
  case (Cons i js)
  note c = clear_menu_agrees [OF Cons.prems(1) _ assms(3), of i ev]
  have i: "i < length (z_toggles s)" using Cons.prems(2) by simp
  have "\<And>j. j \<in> set js \<Longrightarrow> j < length (z_toggles (clear_menu prevents ev i s))" using Cons.prems(2) c(4) [OF i] by simp
  from Cons.IH [OF c(1) [OF i] this] c(2-4) [OF i] show ?case by auto
qed simp

lemma clearMenus_agrees:
  assumes "menus_agree s" "never_hide_prevented prevents"
  shows "menus_agree (clearMenus prevents ev s)" "opens (clearMenus prevents ev s) \<subseteq> opens s"
    "ev = None \<Longrightarrow> opens (clearMenus prevents ev s) = {}" "length (z_toggles (clearMenus prevents ev s)) = length (z_toggles s)"
proof -
  have "\<And>i. i \<in> set [0..<length (z_toggles s)] \<Longrightarrow> i < length (z_toggles s)" by simp
  note c = clear_list [OF assms(1) this assms(2), of "[0..<length (z_toggles s)]" ev, simplified]
  show "menus_agree (clearMenus prevents ev s)" "opens (clearMenus prevents ev s) \<subseteq> opens s"
    "length (z_toggles (clearMenus prevents ev s)) = length (z_toggles s)"
    using c assms(1) by (simp_all add: clearMenus_def)
  show "opens (clearMenus prevents ev s) = {}" if "ev = None"
    using c that by (auto simp: clearMenus_def opens_def)
qed

lemma clear_data:
  assumes "i < length (z_toggles s)" "menus_agree s" "never_hide_prevented prevents"
  shows "d_data (z_toggles (clearMenus prevents ev s) ! i) = d_data (z_toggles s ! i)"
proof -
  have "skeleton (clear_menu prevents ev j s) = skeleton s" for j s
    by (simp add: clear_menu_def trigger_parent_def Let_def) (auto simp: skeleton_upd)
  then have "skeleton (fold (clear_menu prevents ev) js s) = skeleton s" for js s by (induction js arbitrary: s) simp_all
  then have "skeleton (clearMenus prevents ev s) = skeleton s" by (simp add: clearMenus_def)
  from skeleton_nth(3) [OF this assms(1)] show ?thesis .
qed

lemma flip_both_effect:
  fixes s and i and j and prevents and ev
  assumes "menus_agree s" "i < length (z_toggles s)" and that: "j < length (z_toggles s)"
  defines "s' \<equiv> flip_both prevents ev i s"
  shows "skeleton s' = skeleton s" "menu_shown s' j = (if j = i then \<not> menu_shown s i else menu_shown s j)"
    "parent_shown s' j = (if j = i then \<not> parent_shown s i else parent_shown s j)"
proof -
  have o: "own_menus s" using assms(1) by (simp add: menus_agree_def)
  obtain m where m: "d_menu (z_toggles s ! i) = Some m" using own_menu [OF o assms(2)] by blast
  have s': "s' = s\<lparr>z_menus := flip m (z_menus s), z_parents := flip (d_parent (z_toggles s ! i)) (z_parents s),
      z_log := z_log s @ [(ev, d_parent (z_toggles s ! i))]\<rparr>"
    by (simp add: s'_def flip_both_def m flip_menu_def trigger_parent_def Let_def)
  show "skeleton s' = skeleton s" unfolding s' by simp
  have f: "x \<in> flip y A \<longleftrightarrow> (if x = y then x \<notin> A else x \<in> A)" for x y :: nat and A by (auto simp: flip_def)
  show "menu_shown s' j = (if j = i then \<not> menu_shown s i else menu_shown s j)"
    using own_apart(2) [OF o assms(2) that] m unfolding s' by (cases "j = i") (auto simp: menu_shown_def f split: option.splits)
  show "parent_shown s' j = (if j = i then \<not> parent_shown s i else parent_shown s j)"
    using own_apart(1) [OF o assms(2) that] unfolding s' by (cases "j = i") (auto simp: parent_shown_def f)
qed

lemma agree_log [simp]: "menus_agree (s\<lparr>z_log := l\<rparr>) = menus_agree s" "opens (s\<lparr>z_log := l\<rparr>) = opens s"
  by (simp_all add: menus_agree_def own_menus_def opens_def)

lemma agree_upd:
  assumes "\<And>t. d_parent (f t) = d_parent t" "\<And>t. d_menu (f t) = d_menu t" "\<And>t. d_data t \<longrightarrow> d_data (f t)" "menus_agree s"
  shows "menus_agree (upd_toggle i f s)" "opens (upd_toggle i f s) = opens s" "length (z_toggles (upd_toggle i f s)) = length (z_toggles s)"
proof -
  note u = toggles_upd [of f, OF assms(1,2)]
  show l: "length (z_toggles (upd_toggle i f s)) = length (z_toggles s)" by (simp add: upd_toggle_def)
  have z: "z_menus (upd_toggle i f s) = z_menus s" "z_parents (upd_toggle i f s) = z_parents s" by (simp_all add: upd_toggle_def)
  have "map d_parent (z_toggles (upd_toggle i f s)) = map d_parent (z_toggles s)" "map d_menu (z_toggles (upd_toggle i f s)) = map d_menu (z_toggles s)"
    using u l by (auto intro!: nth_equalityI)
  then have o: "own_menus (upd_toggle i f s) = own_menus s" unfolding own_menus_def menus_given by simp
  have sh: "menu_shown (upd_toggle i f s) j = menu_shown s j" "parent_shown (upd_toggle i f s) j = parent_shown s j" for j
    by (simp_all add: menu_shown_def parent_shown_def u z split: option.split)
  have "d_data (z_toggles s ! j) \<longrightarrow> d_data (z_toggles (upd_toggle i f s) ! j)" for j
    using assms(3) by (cases "j = i"; cases "i < length (z_toggles s)") (simp_all add: upd_toggle_def list_update_beyond)
  then show "menus_agree (upd_toggle i f s)" using assms(4) by (simp add: menus_agree_def o l sh)
  show "opens (upd_toggle i f s) = opens s" by (simp add: opens_def l sh)
qed

lemma flip_both_agrees:
  assumes "menus_agree s" "i < length (z_toggles s)" "d_data (z_toggles s ! i)"
  shows "menus_agree (flip_both prevents ev i s)" "opens (flip_both prevents ev i s) = (if i \<in> opens s then opens s - {i} else insert i (opens s))"
    "length (z_toggles (flip_both prevents ev i s)) = length (z_toggles s)"
proof -
  let ?s' = "flip_both prevents ev i s"
  note e = flip_both_effect [OF assms(1,2), of _ prevents ev]
  have sk: "skeleton ?s' = skeleton s" using e(1) [OF assms(2)] .
  show len: "length (z_toggles ?s') = length (z_toggles s)" using sk by (metis length_map skeleton_def)
  have "d_data (z_toggles ?s' ! j) = d_data (z_toggles s ! j)" if "j < length (z_toggles s)" for j by (rule skeleton_nth [OF sk that])
  then show "menus_agree ?s'" using e(2,3) assms skeleton_own [OF sk] by (auto simp: menus_agree_def len)
  show "opens ?s' = (if i \<in> opens s then opens s - {i} else insert i (opens s))" using e(3) assms(2) by (auto simp: opens_def len split: if_splits)
qed

lemma toggle_agrees:
  assumes "one_open s" "i < length (z_toggles s)" "d_data (z_toggles s ! i)" "never_hide_prevented prevents"
  shows "one_open (toggle_dropdown prevents i s)" "length (z_toggles (toggle_dropdown prevents i s)) = length (z_toggles s)"
proof -
  have a: "menus_agree s" using assms(1) by (simp add: one_open_def)
  let ?c = "clearMenus prevents None s"
  note c = clearMenus_agrees [OF a assms(4), of None]
  let ?f = "\<lambda>t. t\<lparr>d_expanded := True, d_popper := (d_popper t \<or> \<not> d_inNavbar t)\<rparr>"
  let ?l = "?c\<lparr>z_log := z_log ?c @ [(''show'', d_parent (z_toggles s ! i))]\<rparr>"
  let ?u = "upd_toggle i ?f ?l"
  have u: "menus_agree ?u" "opens ?u = {}" "length (z_toggles ?u) = length (z_toggles s)"
    using agree_upd [of ?f ?l i] c by simp_all
  have dc: "d_data (z_toggles ?c ! i)"
    using assms(3) clear_data [OF assms(2) a assms(4)] by simp
  then have "d_data (z_toggles ?u ! i)" using c(4) assms(2) by (simp add: upd_toggle_def)
  with flip_both_agrees [OF u(1), of i prevents "''shown''"] u assms(2)
  have f: "menus_agree (flip_both prevents ''shown'' i ?u)" "opens (flip_both prevents ''shown'' i ?u) = {i}"
    "length (z_toggles (flip_both prevents ''shown'' i ?u)) = length (z_toggles s)" by auto
  have "toggle_dropdown prevents i s \<in> {s, ?c, ?l, flip_both prevents ''shown'' i ?u}"
    by (simp add: toggle_dropdown_def trigger_parent_def Let_def)
  then have "one_open (toggle_dropdown prevents i s) \<and> length (z_toggles (toggle_dropdown prevents i s)) = length (z_toggles s)"
    using assms(1) c f by (auto simp: one_open_def)
  then show "one_open (toggle_dropdown prevents i s)" "length (z_toggles (toggle_dropdown prevents i s)) = length (z_toggles s)" by blast+
qed

lemma hide_agrees:
  assumes "one_open s" "i < length (z_toggles s)"
  shows "one_open (hide_dropdown prevents i s)" "length (z_toggles (hide_dropdown prevents i s)) = length (z_toggles s)"
proof -
  let ?l = "s\<lparr>z_log := z_log s @ [(''hide'', d_parent (z_toggles s ! i))]\<rparr>"
  have a: "menus_agree s" "menus_agree ?l" using assms(1) by (simp_all add: one_open_def)
  have "one_open (hide_dropdown prevents i s) \<and> length (z_toggles (hide_dropdown prevents i s)) = length (z_toggles s)"
  proof (cases "menu_shown s i")
    case True
    then have d: "i \<in> opens s" "d_data (z_toggles s ! i)" using a(1) assms(2) by (auto simp: menus_agree_def opens_def)
    then have "one_open (flip_both prevents ''hidden'' i ?l) \<and> length (z_toggles (flip_both prevents ''hidden'' i ?l)) = length (z_toggles s)"
      using flip_both_agrees [OF a(2), of i prevents "''hidden''"] assms by (auto simp: one_open_def)
    moreover have "hide_dropdown prevents i s \<in> {s, ?l, flip_both prevents ''hidden'' i ?l}" by (simp add: hide_dropdown_def trigger_parent_def Let_def)
    ultimately show ?thesis using assms(1) by (auto simp: one_open_def)
  qed (simp add: hide_dropdown_def assms(1))
  then show "one_open (hide_dropdown prevents i s)" "length (z_toggles (hide_dropdown prevents i s)) = length (z_toggles s)" by blast+
qed

lemma clear_one_open: "one_open s \<Longrightarrow> never_hide_prevented prevents \<Longrightarrow> one_open (clearMenus prevents ev s)"
  using clearMenus_agrees(1,2) [of s prevents ev] unfolding one_open_def by blast

lemma click_one_open:
  assumes "one_open s" "i < length (z_toggles s)" "never_hide_prevented prevents"
  shows "one_open (fst (toggle_click prevents data i s))"
proof (cases "d_data (z_toggles s ! i)")
  case True
  then show ?thesis using toggle_agrees [OF assms(1,2) True assms(3)] by (simp add: toggle_click_def dropdown_call_def dropdown_method_def)
next
  case False
  let ?u = "upd_toggle i (\<lambda>t. t\<lparr>d_data := True\<rparr>) s"
  have "menus_agree s" using assms(1) by (simp add: one_open_def)
  from agree_upd [of "\<lambda>t. t\<lparr>d_data := True\<rparr>" s i, OF _ _ _ this]
  have u: "one_open ?u" "length (z_toggles ?u) = length (z_toggles s)" using assms(1) by (auto simp: one_open_def)
  have d: "d_data (z_toggles ?u ! i)" using assms(2) by (simp add: upd_toggle_def)
  note g = toggle_agrees [OF u(1) _ d assms(3)]
  show ?thesis using False g u(2) assms(1,2)
    by (cases "dropdown_config data []") (simp_all add: toggle_click_def dropdown_call_def dropdown_method_def)
qed

inductive menu_step :: "dpage \<Rightarrow> dsys \<Rightarrow> dsys \<Rightarrow> bool" for prevents where
  on_toggle: "i < length (z_toggles s) \<Longrightarrow> menu_step prevents s (fst (toggle_click prevents data i s))"
| elsewhere: "menu_step prevents s (clearMenus prevents ev s)"
| key_on_toggle: "i < length (z_toggles s) \<Longrightarrow> menu_step prevents s (fst (fst (toggle_keydown prevents data tag which inMenu n index i s)))"
| key_on_menu: "menu_step prevents s (fst (menu_keydown prevents click tag which disabled n index p s))"
| hiding: "i < length (z_toggles s) \<Longrightarrow> menu_step prevents s (hide_dropdown prevents i s)"

inductive_cases menu_stepE: "menu_step prevents s s'"

lemma menu_step_one_open:
  assumes "one_open s" "never_hide_prevented prevents" "menu_step prevents s s'"
  shows "one_open s'"
  using assms(3)
proof (cases rule: menu_step.cases)
  case (key_on_toggle i data tag which inMenu n index)
  then show ?thesis using assms(1) click_one_open [OF assms(1) _ assms(2)]
    by (cases "keydown_action tag which inMenu (d_disabled (z_toggles s ! i)) (d_parent (z_toggles s ! i) \<in> z_parents s) n index")
      (simp_all add: toggle_keydown_def Let_def)
next
  case (key_on_menu click tag which disabled n index p)
  then show ?thesis using assms(1) clear_one_open [OF assms(1,2)]
    by (cases "keydown_action tag which True disabled (p \<in> z_parents s) n index") (simp_all add: menu_keydown_def)
qed (simp_all add: click_one_open [OF assms(1) _ assms(2)] clear_one_open [OF assms(1,2)] hide_agrees [OF assms(1)])

definition all_closed :: "dsys \<Rightarrow> bool" where
  "all_closed s \<longleftrightarrow> own_menus s \<and> z_menus s = {} \<and> z_parents s = {}"

interpretation menus: inductive_invariant all_closed "\<lambda>s s'. never_hide_prevented prevents \<and> menu_step prevents s s'" one_open for prevents
proof unfold_locales
  fix s assume "all_closed s"
  then show "one_open s" by (auto simp: all_closed_def one_open_def menus_agree_def menu_shown_def parent_shown_def opens_def split: option.splits)
qed (auto intro: menu_step_one_open)

text \<open>C36: On a page whose toggles have menus of their own, all closed at first, at most one menu is open however clicks and
  keys on toggles, menus and elsewhere follow each other, if the page does not prevent menus from closing; and
  a menu is shown just when its parent is.\<close>

theorem one_menu_open:
  assumes "all_closed s0" "never_hide_prevented prevents" "(menu_step prevents)\<^sup>*\<^sup>* s0 s"
    and "i < length (z_toggles s)" "j < length (z_toggles s)"
  shows "(menu_shown s i \<and> menu_shown s j \<longrightarrow> i = j) \<and> menu_shown s i = parent_shown s i"
proof -
  have "(\<lambda>s s'. never_hide_prevented prevents \<and> menu_step prevents s s')\<^sup>*\<^sup>* s0 s"
    using assms(3) by (rule rtranclp_mono [THEN predicate2D, rotated]) (use assms(2) in blast)
  then have "one_open s" by (rule menus.inv_steps) (rule menus.inv_init [OF assms(1)])
  then show ?thesis using assms(4,5) by (auto simp: one_open_def menus_agree_def opens_def)
qed

text \<open>Calls of the method show do not close other menus.\<close>

lemma show_opens_second:
  "(let t = (\<lambda>p. \<lparr>d_parent = p, d_menu = Some p, d_disabled = False, d_expanded = False, d_data = True, d_inNavbar = False, d_popper = False\<rparr>);
        s = \<lparr>z_toggles = [t 0, t 1], z_parents = {}, z_menus = {}, z_log = []\<rparr>;
        s' = show_dropdown (\<lambda>_ _ _. False) 1 (toggle_dropdown (\<lambda>_ _ _. False) 0 s)
    in menu_shown s' 0 \<and> menu_shown s' 1)"
  by code_simp

section \<open>Keys\<close>

text \<open>The arrow keys move the focus by one item and stop at both ends; from outside the items they
  go to the first one; the item always exists.\<close>

theorem item_after_key_bounds:
  assumes "0 < n" "- 1 \<le> index" "index < int n"
  shows "0 \<le> item_after_key which index n \<and> item_after_key which index n < int n
    \<and> \<bar>item_after_key which index n - index\<bar> \<le> 1
    \<and> item_after_key which index n = (if which = 38 then max 0 (index - 1) else if which = 40 then min (int n - 1) (index + 1) else max 0 index)"
  using assms by (auto simp: item_after_key_def Let_def)

section \<open>Examples\<close>

definition sample_toggle :: "nat \<Rightarrow> dtoggle" where
  "sample_toggle p = \<lparr>d_parent = p, d_menu = Some (p + 10), d_disabled = False, d_expanded = False, d_data = False, d_inNavbar = False, d_popper = False\<rparr>"

definition three_toggles :: dsys where
  "three_toggles = \<lparr>z_toggles = map sample_toggle [0, 1, 2], z_parents = {}, z_menus = {}, z_log = []\<rparr>"

definition after_clicks :: dsys where
  "after_clicks = fst (toggle_click (\<lambda>_ _ _. False) [] 2 (fst (toggle_click (\<lambda>_ _ _. False) [] 0 three_toggles)))"

theorem one_menu_open_witness: "menu_shown after_clicks 2 \<and> \<not> menu_shown after_clicks 0 \<and> parent_shown after_clicks 2"
proof -
  have a: "all_closed three_toggles" by code_simp
  have n: "never_hide_prevented (\<lambda>_ _ _. False)" by (simp add: never_hide_prevented_def)
  have l: "length (z_toggles three_toggles) = 3" "length (z_toggles (fst (toggle_click (\<lambda>_ _ _. False) [] 0 three_toggles))) = 3" by code_simp+
  have "menu_step (\<lambda>_ _ _. False) three_toggles (fst (toggle_click (\<lambda>_ _ _. False) [] 0 three_toggles))"
    by (rule on_toggle) (simp add: l)
  moreover have "menu_step (\<lambda>_ _ _. False) (fst (toggle_click (\<lambda>_ _ _. False) [] 0 three_toggles)) after_clicks"
    unfolding after_clicks_def by (rule on_toggle) (simp add: l)
  ultimately have st: "(menu_step (\<lambda>_ _ _. False))\<^sup>*\<^sup>* three_toggles after_clicks" by auto
  have m: "menu_shown after_clicks 2" "length (z_toggles after_clicks) = 3" by code_simp+
  from one_menu_open [OF a n st, of 2 0] one_menu_open [OF a n st, of 2 2] m show ?thesis by auto
qed

theorem item_after_key_bounds_witness: "item_after_key 40 2 3 = 2 \<and> item_after_key 38 (- 1) 3 = 0"
  using item_after_key_bounds [of 3 2 40] item_after_key_bounds [of 3 "- 1" 38] by simp

end
