(* ===== verification/BsScrollSpy.thy ===== *)
theory BsScrollSpy
  imports BsUtil
begin

text \<open>
  The scroll spy of Bootstrap: the links it watches, the places of their targets, and the link it marks.  Links are
  numbered from 0; a number beyond them is another node that is marked with a link, as the toggle of its menu.
  What the page looks like at a moment (how far it is scrolled, what selectors find and where) is an argument.
  Then what it marks: the last section that begins above the scrolled position.
\<close>

section \<open>State\<close>

datatype starget = SNull | SUndef | STarget string

record slink =
  l_dataTarget :: "string option"
  l_href :: "string option"
  l_item :: bool \<comment> \<open>it has the class dropdown-item\<close>
  l_menuToggles :: "nat list" \<comment> \<open>the toggles in the dropdown it is in\<close>
  l_above :: "nat list" \<comment> \<open>the links in front of the lists it is in\<close>

record sview =
  g_top :: rat
  g_height :: rat \<comment> \<open>scrollHeight\<close>
  g_window :: rat \<comment> \<open>the height that is seen\<close>
  g_query :: "string \<Rightarrow> nat list option" \<comment> \<open>querySelectorAll; None where the selector is refused\<close>
  g_box :: "nat \<Rightarrow> bool" \<comment> \<open>the node has a width or a height\<close>
  g_place :: "string \<Rightarrow> nat \<Rightarrow> rat" \<comment> \<open>its y, by offset or position\<close>

record sspy =
  p_links :: "slink list"
  p_isWindow :: bool
  p_method :: string
  p_offset :: rat
  p_offsets :: "rat list"
  p_targets :: "string list"
  p_active :: starget
  p_height :: rat
  p_marked :: "nat set" \<comment> \<open>the nodes with the class active\<close>
  p_log :: "starget list" \<comment> \<open>the activate events\<close>

section \<open>Refreshing\<close>

definition spy_item :: "sview \<Rightarrow> string \<Rightarrow> rat \<Rightarrow> slink \<Rightarrow> (rat \<times> string) list" where
  "spy_item V m base l =
     (case getSelectorFromElement (g_query V) (l_dataTarget l) (l_href l) of
        None \<Rightarrow> []
      | Some sel \<Rightarrow>
          (case g_query V sel of
             Some (n # ns) \<Rightarrow> (if g_box V n then [(g_place V m n + base, sel)] else [])
           | _ \<Rightarrow> []))"

definition spy_method :: "sspy \<Rightarrow> string" where
  "spy_method s = (if p_method s = ''auto'' then (if p_isWindow s then ''offset'' else ''position'') else p_method s)"

definition refresh :: "sview \<Rightarrow> sspy \<Rightarrow> sspy" where
  "refresh V s =
     (let base = (if spy_method s = ''position'' then g_top V else 0);
          items = sort_key fst (concat (map (spy_item V (spy_method s) base) (p_links s)))
      in s\<lparr>p_height := g_height V, p_offsets := map fst items, p_targets := map snd items\<rparr>)"

section \<open>Marking\<close>

definition spy_clear :: "sspy \<Rightarrow> sspy" where
  \<comment> \<open>only the links lose the class\<close>
  "spy_clear s = s\<lparr>p_marked := Set.filter (\<lambda>i. length (p_links s) \<le> i) (p_marked s)\<rparr>"

definition target_text :: "starget \<Rightarrow> string" where
  "target_text t = (case t of STarget x \<Rightarrow> x | SUndef \<Rightarrow> ''undefined'' | SNull \<Rightarrow> ''null'')"

definition links_to :: "string \<Rightarrow> sspy \<Rightarrow> nat list" where
  "links_to t s = filter (\<lambda>i. l_dataTarget (p_links s ! i) = Some t \<or> l_href (p_links s ! i) = Some t) [0..<length (p_links s)]"

definition marks_for :: "string \<Rightarrow> sspy \<Rightarrow> nat list" where
  \<comment> \<open>the links to a target, and the toggles of their dropdowns or the links in front of their lists\<close>
  "marks_for t s =
     (let ls = links_to t s
      in ls @ (if list_ex (\<lambda>i. l_item (p_links s ! i)) ls then concat (map (\<lambda>i. l_menuToggles (p_links s ! i)) ls)
               else concat (map (\<lambda>i. l_above (p_links s ! i)) ls)))"

definition spy_activate :: "starget \<Rightarrow> sspy \<Rightarrow> sspy" where
  "spy_activate t s =
     (let s1 = spy_clear (s\<lparr>p_active := t\<rparr>)
      in s1\<lparr>p_marked := p_marked s1 \<union> set (marks_for (target_text t) s1), p_log := p_log s1 @ [t]\<rparr>)"

section \<open>Scrolling\<close>

definition spy_step :: "rat \<Rightarrow> nat \<Rightarrow> sspy \<Rightarrow> sspy" where
  \<comment> \<open>one round of the loop over the sections\<close>
  "spy_step y i s =
     (if p_active s \<noteq> STarget (p_targets s ! i) \<and> p_offsets s ! i \<le> y \<and> (length (p_offsets s) \<le> Suc i \<or> y < p_offsets s ! Suc i)
      then spy_activate (STarget (p_targets s ! i)) s else s)"

definition at_bottom :: "sview \<Rightarrow> sspy \<Rightarrow> bool" where
  "at_bottom V s \<longleftrightarrow> p_offset s + g_height V - g_window V \<le> g_top V + p_offset s"

definition last_target :: "sspy \<Rightarrow> starget" where
  "last_target s = (if p_targets s = [] then SUndef else STarget (last (p_targets s)))"

definition has_target :: "sspy \<Rightarrow> bool" where
  "has_target s \<longleftrightarrow> (case p_active s of STarget t \<Rightarrow> t \<noteq> [] | _ \<Rightarrow> False)"

definition refreshed :: "sview \<Rightarrow> sspy \<Rightarrow> sspy" where
  "refreshed V s = (if p_height s \<noteq> g_height V then refresh V s else s)"

definition process :: "sview \<Rightarrow> sspy \<Rightarrow> sspy" where
  "process V s0 =
     (let y = g_top V + p_offset s0;
          s = refreshed V s0
      in if at_bottom V s0 then (if p_active s \<noteq> last_target s then spy_activate (last_target s) s else s)
         else if has_target s \<and> p_offsets s \<noteq> [] \<and> y < hd (p_offsets s) \<and> 0 < hd (p_offsets s) then spy_clear (s\<lparr>p_active := SNull\<rparr>)
         else fold (spy_step y) (rev [0..<length (p_offsets s)]) s)"

section \<open>Construction\<close>

definition spy_default :: "jsval obj" where
  "spy_default = [(''offset'', JNum (num 10)), (''method'', JStr ''auto''), (''target'', JStr [])]"

definition spy_types :: "string obj" where
  "spy_types = [(''offset'', ''number''), (''method'', ''string''), (''target'', ''(string|element)'')]"

definition spy_config :: "(jsval \<Rightarrow> string) \<Rightarrow> jsval \<Rightarrow> jserr + jsval obj" where
  \<comment> \<open>an element as target is named by its id, which is made where it has none\<close>
  "spy_config id_of given =
     (let c = objectSpread [] ([spy_default] @ (case given of JObj kvs \<Rightarrow> [kvs] | _ \<Rightarrow> []));
          c1 = (case js_prop c ''target'' of JStr t \<Rightarrow> c | v \<Rightarrow> obj_set ''target'' (JStr (''#'' @ id_of v)) c)
      in case typeCheckConfig ''scrollspy'' c1 spy_types of Some x \<Rightarrow> Inl x | None \<Rightarrow> Inr c1)"

definition spy_selector :: "string \<Rightarrow> string" where
  "spy_selector target = target @ '' .nav-link,'' @ target @ '' .list-group-item,'' @ target @ '' .dropdown-item''"

definition new_spy :: "sview \<Rightarrow> slink list \<Rightarrow> bool \<Rightarrow> string \<Rightarrow> rat \<Rightarrow> sspy" where
  "new_spy V links isWindow m offset =
     process V (refresh V \<lparr>p_links = links, p_isWindow = isWindow, p_method = m, p_offset = offset, p_offsets = [], p_targets = [],
       p_active = SNull, p_height = 0, p_marked = {}, p_log = []\<rparr>)"

definition given_number :: "jsval \<Rightarrow> rat" where
  \<comment> \<open>an offset; one that is not finite is outside the model\<close>
  "given_number v = (case v of JNum (Fin r) \<Rightarrow> r | _ \<Rightarrow> 0)"

definition given_text :: "jsval \<Rightarrow> string" where
  "given_text v = (case v of JStr t \<Rightarrow> t | _ \<Rightarrow> [])"

definition spy_method_call :: "sview \<Rightarrow> string \<Rightarrow> sspy \<Rightarrow> jserr + sspy option" where
  \<comment> \<open>None once it is disposed of; the names of private methods are left out\<close>
  "spy_method_call V name s =
     (if name = ''refresh'' then Inr (Some (refresh V s))
      else if name = ''dispose'' then Inr None
      else Inl (Error (''No method named '' @ [CHR 0x22] @ name @ [CHR 0x22])))"

definition spy_call :: "sview \<Rightarrow> (jsval \<Rightarrow> string) \<Rightarrow> (string \<Rightarrow> slink list) \<Rightarrow> bool \<Rightarrow> jsval \<Rightarrow> sspy option \<Rightarrow> jserr + sspy option" where
  \<comment> \<open>one element of $().scrollspy(config), with the links a selector finds and its instance where it has one\<close>
  "spy_call V id_of links_of isWindow given inst =
     (case (case inst of
              Some s \<Rightarrow> Inr s
            | None \<Rightarrow>
                (case spy_config id_of given of
                   Inl x \<Rightarrow> Inl x
                 | Inr c \<Rightarrow> Inr (new_spy V (links_of (spy_selector (given_text (js_prop c ''target'')))) isWindow
                                  (given_text (js_prop c ''method'')) (given_number (js_prop c ''offset''))))) of
        Inl x \<Rightarrow> Inl x
      | Inr s \<Rightarrow> (case given of JStr name \<Rightarrow> spy_method_call V name s | _ \<Rightarrow> Inr (Some s)))"

section \<open>What is marked\<close>

definition spy_ok :: "sspy \<Rightarrow> bool" where
  "spy_ok s \<longleftrightarrow> sorted (p_offsets s) \<and> length (p_targets s) = length (p_offsets s)"

definition sections_above :: "rat \<Rightarrow> sspy \<Rightarrow> nat" where
  \<comment> \<open>how many sections begin at or above a position\<close>
  "sections_above y s = length (filter (\<lambda>r. r \<le> y) (p_offsets s))"

lemma refresh_ok: "spy_ok (refresh V s)"
  by (simp add: spy_ok_def refresh_def Let_def)

lemma refreshed_ok: "spy_ok s \<Longrightarrow> spy_ok (refreshed V s)"
  by (simp add: refreshed_def refresh_ok)

lemma activate_simps [simp]:
  "p_active (spy_activate t s) = t" "p_offsets (spy_activate t s) = p_offsets s" "p_targets (spy_activate t s) = p_targets s"
  "p_links (spy_activate t s) = p_links s"
  by (simp_all add: spy_activate_def spy_clear_def Let_def)

lemma sorted_count: "sorted xs \<Longrightarrow> j < length xs \<Longrightarrow> xs ! j \<le> t \<longleftrightarrow> j < length (filter (\<lambda>r. r \<le> t) (xs :: rat list))"
proof (induction xs arbitrary: j)
  case (Cons x xs)
  show ?case
  proof (cases "x \<le> t")
    case True
    then show ?thesis using Cons by (cases j) auto
  next
    case False
    then have "\<forall>r \<in> set (x # xs). \<not> r \<le> t" using Cons.prems(1) by auto
    then have "filter (\<lambda>r. r \<le> t) (x # xs) = []" "\<not> (x # xs) ! j \<le> t" using Cons.prems(2) nth_mem [of j "x # xs"] by (auto simp: filter_empty_conv)
    then show ?thesis by simp
  qed
qed simp

lemma in_section_iff:
  assumes "spy_ok s" "i < length (p_offsets s)"
  shows "p_offsets s ! i \<le> y \<and> (length (p_offsets s) \<le> Suc i \<or> y < p_offsets s ! Suc i) \<longleftrightarrow> Suc i = sections_above y s"
proof -
  have s: "sorted (p_offsets s)" using assms(1) by (simp add: spy_ok_def)
  have le: "sections_above y s \<le> length (p_offsets s)" by (simp add: sections_above_def)
  note c = sorted_count [OF s, of _ y, folded sections_above_def]
  show ?thesis
  proof (cases "Suc i < length (p_offsets s)")
    case True
    then have "y < p_offsets s ! Suc i \<longleftrightarrow> sections_above y s \<le> Suc i" using c [OF True] by (simp add: not_le [symmetric])
    then show ?thesis using True c [OF assms(2)] by auto
  next
    case False
    then show ?thesis using c [OF assms(2)] le assms(2) by auto
  qed
qed

lemma spy_loop:
  assumes "spy_ok s" "\<And>i. i \<in> set js \<Longrightarrow> i < length (p_offsets s)"
  shows "p_active (fold (spy_step y) js s) =
    (if \<exists>i \<in> set js. Suc i = sections_above y s then STarget (p_targets s ! (sections_above y s - 1)) else p_active s)"
  using assms
proof (induction js arbitrary: s)
  case (Cons i js)
  have i: "i < length (p_offsets s)" using Cons.prems(2) by simp
  define s' where "s' = spy_step y i s"
  have o: "p_offsets s' = p_offsets s" "p_targets s' = p_targets s" by (simp_all add: s'_def spy_step_def)
  have ok: "spy_ok s'" using Cons.prems(1) o by (simp add: spy_ok_def)
  have a: "p_active s' = (if Suc i = sections_above y s then STarget (p_targets s ! i) else p_active s)"
    using in_section_iff [OF Cons.prems(1) i, of y] by (auto simp: s'_def spy_step_def)
  have "sections_above y s' = sections_above y s" by (simp add: sections_above_def o)
  moreover have "\<And>j. j \<in> set js \<Longrightarrow> j < length (p_offsets s')" using Cons.prems(2) o by simp
  ultimately have "p_active (fold (spy_step y) js s') =
      (if \<exists>j \<in> set js. Suc j = sections_above y s then STarget (p_targets s ! (sections_above y s - 1)) else p_active s')"
    using Cons.IH [OF ok] o by simp
  moreover have "sections_above y s - 1 = i" if "Suc i = sections_above y s" using that [symmetric] by simp
  ultimately show ?case using a by (auto simp: s'_def)
qed simp

lemma process_active:
  fixes V :: sview and s :: sspy
  assumes "spy_ok s"
  defines "r \<equiv> refreshed V s" and "k \<equiv> sections_above (g_top V + p_offset s) (refreshed V s)"
  shows "p_active (process V s) =
    (if at_bottom V s then last_target r
     else if k = 0 then (if has_target r \<and> p_offsets r \<noteq> [] \<and> 0 < hd (p_offsets r) then SNull else p_active r)
     else STarget (p_targets r ! (k - 1)))"
proof -
  let ?y = "g_top V + p_offset s"
  have ok: "spy_ok r" unfolding r_def by (rule refreshed_ok [OF assms(1)])
  have le: "k \<le> length (p_offsets r)" by (simp add: k_def r_def sections_above_def)
  have loop: "p_active (fold (spy_step ?y) (rev [0..<length (p_offsets r)]) r) = (if k = 0 then p_active r else STarget (p_targets r ! (k - 1)))"
  proof -
    have "(\<exists>i \<in> set (rev [0..<length (p_offsets r)]). Suc i = k) \<longleftrightarrow> k \<noteq> 0" using le by (cases k) auto
    then show ?thesis using spy_loop [OF ok, of "rev [0..<length (p_offsets r)]" ?y] by (simp add: k_def r_def)
  qed
  have hd: "p_offsets r \<noteq> [] \<and> ?y < hd (p_offsets r) \<longleftrightarrow> p_offsets r \<noteq> [] \<and> k = 0"
  proof (cases "p_offsets r")
    case (Cons x xs)
    then have "\<not> x \<le> ?y \<longleftrightarrow> k = 0" using sorted_count [of "p_offsets r" 0 ?y] ok by (auto simp: spy_ok_def k_def r_def sections_above_def)
    then show ?thesis using Cons by auto
  qed simp
  show ?thesis
  proof (cases "at_bottom V s")
    case True
    then show ?thesis by (simp add: process_def r_def [symmetric] Let_def)
  next
    case False
    then have "p_active (process V s) =
      (if has_target r \<and> (p_offsets r \<noteq> [] \<and> ?y < hd (p_offsets r)) \<and> 0 < hd (p_offsets r) then SNull
       else p_active (fold (spy_step ?y) (rev [0..<length (p_offsets r)]) r))"
      by (simp add: process_def r_def [symmetric] Let_def spy_clear_def)
    then show ?thesis unfolding hd loop using False by auto
  qed
qed

definition marked_links :: "sspy \<Rightarrow> nat set" where
  "marked_links s = p_marked s \<inter> {..<length (p_links s)}"

definition spy_marks :: "sspy \<Rightarrow> bool" where
  \<comment> \<open>the links that are marked are those for the active target\<close>
  "spy_marks s \<longleftrightarrow> marked_links s = (if p_active s = SNull then {} else set (marks_for (target_text (p_active s)) s) \<inter> {..<length (p_links s)})"

lemma marks_for_links: "p_links s' = p_links s \<Longrightarrow> marks_for t s' = marks_for t s"
  by (simp only: marks_for_def links_to_def)

lemma clear_marks: "spy_marks (spy_clear (s\<lparr>p_active := SNull\<rparr>))"
  by (auto simp: spy_marks_def marked_links_def spy_clear_def)

lemma activate_marks: "t \<noteq> SNull \<Longrightarrow> spy_marks (spy_activate t s)"
  using marks_for_links [of "spy_clear (s\<lparr>p_active := t\<rparr>)" s] marks_for_links [of "spy_activate t s" s]
  by (auto simp: spy_marks_def marked_links_def spy_activate_def spy_clear_def Let_def)

lemma step_marks: "spy_marks s \<Longrightarrow> spy_marks (spy_step t i s)"
  by (simp add: spy_step_def activate_marks)

lemma refreshed_marks: "spy_marks s \<Longrightarrow> spy_marks (refreshed V s)"
  using marks_for_links [of "refreshed V s" s] by (simp add: refreshed_def refresh_def spy_marks_def marked_links_def Let_def split: if_splits)

lemma process_marks:
  assumes "spy_marks s"
  shows "spy_marks (process V s)"
proof -
  have "spy_marks (fold (spy_step t) js x)" if "spy_marks x" for t js x using that by (induction js arbitrary: x) (simp_all add: step_marks)
  then show ?thesis using refreshed_marks [OF assms, of V]
    by (simp add: process_def Let_def activate_marks clear_marks last_target_def)
qed

text \<open>C30: After every scroll the active target is the last section that begins at or above the scrolled position, or the
  last of all at the end of the page, and none above the first section; and the links that are marked are those for the
  active target.\<close>

theorem spy_finds_section:
  assumes "spy_ok s" "spy_marks s" "r = refreshed V s" "k = sections_above (g_top V + p_offset s) r"
  shows "p_active (process V s) =
      (if at_bottom V s then last_target r
       else if k = 0 then (if has_target r \<and> p_offsets r \<noteq> [] \<and> 0 < hd (p_offsets r) then SNull else p_active r)
       else STarget (p_targets r ! (k - 1)))
    \<and> spy_marks (process V s)"
  unfolding assms(3,4) by (rule conjI [OF process_active [OF assms(1)] process_marks [OF assms(2)]])

definition sample_view :: "rat \<Rightarrow> sview" where
  "sample_view y =
     \<lparr>g_top = y, g_height = 1000, g_window = 100, g_query = (\<lambda>q. if q = ''#a'' then Some [1] else if q = ''#b'' then Some [2] else if q = ''#c'' then Some [3] else None),
      g_box = (\<lambda>_. True), g_place = (\<lambda>_ n. if n = 1 then 50 else if n = 2 then 500 else 300)\<rparr>"

definition sample_spy :: sspy where
  "sample_spy = new_spy (sample_view 0)
     (map (\<lambda>h. \<lparr>l_dataTarget = None, l_href = Some h, l_item = False, l_menuToggles = [], l_above = []\<rparr>) [''#a'', ''#b'', ''#c'', ''#d'']) True ''auto'' 10"

theorem spy_finds_section_witness:
  "p_active (process (sample_view 350) sample_spy) = STarget ''#c'' \<and> p_active (process (sample_view 900) sample_spy) = STarget ''#b''
   \<and> marked_links (process (sample_view 350) sample_spy) = {2}"
proof -
  have ok: "spy_ok sample_spy" by code_simp
  have m: "spy_marks sample_spy" by code_simp
  have v: "at_bottom (sample_view 900) sample_spy" "\<not> at_bottom (sample_view 350) sample_spy"
    "last_target (refreshed (sample_view 900) sample_spy) = STarget ''#b''"
    "sections_above (g_top (sample_view 350) + p_offset sample_spy) (refreshed (sample_view 350) sample_spy) = 2"
    "p_targets (refreshed (sample_view 350) sample_spy) ! 1 = ''#c''"
    by code_simp+
  have l: "marks_for ''#c'' (process (sample_view 350) sample_spy) = [2]" "length (p_links (process (sample_view 350) sample_spy)) = 4" by code_simp+
  note a = spy_finds_section [OF ok m refl refl, of "sample_view 350"] 
  show ?thesis using a spy_finds_section [OF ok m refl refl, of "sample_view 900"] v l by (auto simp: spy_marks_def target_text_def)
qed

text \<open>A spy without any section activates the target undefined at the end of the page.\<close>

lemma spy_without_sections: "p_log (new_spy (sample_view 900) [] True ''auto'' 10) = [SUndef]"
  by code_simp

end
