(* ===== verification/BsTab.thy ===== *)
theory BsTab
  imports BsUtil
begin

text \<open>
  The tabs of Bootstrap: the nodes of a page by number, with what their place in the page is and the classes and
  attributes that change, the transitions of panes that are waited for, and the events in order.
\<close>

section \<open>State\<close>

datatype tabevent = HideTab | ShowTab | HiddenTab | ShownTab

record tabnode =
  w_classes :: "string list"
  w_parent :: "nat option" \<comment> \<open>the element around it\<close>
  w_list :: "nat option" \<comment> \<open>the closest element with the class nav or list-group\<close>
  w_isList :: bool \<comment> \<open>it is UL or OL\<close>
  w_children :: "nat list"
  w_items :: "nat list" \<comment> \<open>the children of its LI children\<close>
  w_inside :: "nat list" \<comment> \<open>all elements in it\<close>
  w_inMenus :: "nat list" \<comment> \<open>the elements in its children with the class dropdown-menu\<close>
  w_dropToggles :: "nat list" \<comment> \<open>the toggles in the closest dropdown\<close>
  w_dataTarget :: "string option"
  w_href :: "string option"
  w_role :: bool \<comment> \<open>its role is tab\<close>
  w_selected :: "bool option" \<comment> \<open>aria-selected\<close>
  w_expanded :: bool \<comment> \<open>aria-expanded was set\<close>

record tabcall =
  b_link :: "nat option" \<comment> \<open>the link shown; None once its instance is disposed of\<close>
  b_previous :: "nat option"

record tabwait =
  b_element :: nat
  b_active :: "nat option"
  b_call :: "tabcall option"

record tabsys =
  q_nodes :: "tabnode list"
  q_waits :: "tabwait list" \<comment> \<open>the transitions under way\<close>
  q_log :: "(tabevent \<times> nat) list"

type_synonym tabpage = "(tabevent \<times> nat) list \<Rightarrow> tabevent \<Rightarrow> nat \<Rightarrow> bool"
  \<comment> \<open>whether a handler of the page prevents an event\<close>

definition upd_tab :: "nat \<Rightarrow> (tabnode \<Rightarrow> tabnode) \<Rightarrow> tabsys \<Rightarrow> tabsys" where
  "upd_tab i f s = s\<lparr>q_nodes := (q_nodes s)[i := f (q_nodes s ! i)]\<rparr>"

definition tab_has :: "string \<Rightarrow> tabsys \<Rightarrow> nat \<Rightarrow> bool" where
  "tab_has c s i \<longleftrightarrow> List.member (w_classes (q_nodes s ! i)) c"

abbreviation is_on :: "tabsys \<Rightarrow> nat \<Rightarrow> bool" where
  "is_on \<equiv> tab_has ''active''"

definition class_on :: "string \<Rightarrow> nat \<Rightarrow> tabsys \<Rightarrow> tabsys" where
  "class_on c i s = upd_tab i (\<lambda>n. n\<lparr>w_classes := insert_name c (w_classes n)\<rparr>) s"

definition class_off :: "string \<Rightarrow> nat \<Rightarrow> tabsys \<Rightarrow> tabsys" where
  "class_off c i s = upd_tab i (\<lambda>n. n\<lparr>w_classes := remove_name_from c (w_classes n)\<rparr>) s"

definition select_tab :: "bool \<Rightarrow> nat \<Rightarrow> tabsys \<Rightarrow> tabsys" where
  \<comment> \<open>aria-selected, where the role is tab\<close>
  "select_tab b i s = upd_tab i (\<lambda>n. if w_role n then n\<lparr>w_selected := Some b\<rparr> else n) s"

definition trigger_tab :: "tabpage \<Rightarrow> tabevent \<Rightarrow> nat \<Rightarrow> tabsys \<Rightarrow> tabsys \<times> bool" where
  \<comment> \<open>and whether it was prevented\<close>
  "trigger_tab prevents ev i s = (s\<lparr>q_log := q_log s @ [(ev, i)]\<rparr>, prevents (q_log s) ev i)"

definition trigger_some :: "tabpage \<Rightarrow> tabevent \<Rightarrow> nat option \<Rightarrow> tabsys \<Rightarrow> tabsys \<times> bool" where
  "trigger_some prevents ev e s = (case e of Some i \<Rightarrow> trigger_tab prevents ev i s | None \<Rightarrow> (s, False))"

section \<open>Activating\<close>

definition end_call :: "tabpage \<Rightarrow> tabcall \<Rightarrow> tabsys \<Rightarrow> tabsys" where
  \<comment> \<open>complete in show\<close>
  "end_call prevents call s =
     fst (trigger_some prevents ShownTab (b_link call) (fst (trigger_some prevents HiddenTab (b_previous call) s)))"

definition switch_off :: "nat \<Rightarrow> tabsys \<Rightarrow> tabsys" where
  \<comment> \<open>the part of _transitionComplete for the node that was active\<close>
  "switch_off i s =
     (let s1 = class_off ''active'' i s;
          inMenus = (case w_parent (q_nodes s1 ! i) of Some p \<Rightarrow> filter (is_on s1) (w_inMenus (q_nodes s1 ! p)) | None \<Rightarrow> []);
          s2 = (case inMenus of d # ds \<Rightarrow> class_off ''active'' d s1 | [] \<Rightarrow> s1)
      in select_tab False i s2)"

definition switch_on :: "nat \<Rightarrow> tabsys \<Rightarrow> tabsys" where
  \<comment> \<open>the part for the new one\<close>
  "switch_on i s =
     (let s1 = select_tab True i (class_on ''active'' i s);
          s2 = (if tab_has ''fade'' s1 i then class_on ''show'' i s1 else s1)
      in (case w_parent (q_nodes s2 ! i) of
            Some p \<Rightarrow>
              (if tab_has ''dropdown-menu'' s2 p
               then upd_tab i (\<lambda>n. n\<lparr>w_expanded := True\<rparr>) (fold (class_on ''active'') (w_dropToggles (q_nodes s2 ! i)) s2)
               else s2)
          | None \<Rightarrow> s2))"

definition switch_from :: "nat option \<Rightarrow> tabsys \<Rightarrow> tabsys" where
  "switch_from active s = (case active of Some a \<Rightarrow> switch_off a s | None \<Rightarrow> s)"

definition transition_done :: "tabpage \<Rightarrow> tabwait \<Rightarrow> tabsys \<Rightarrow> tabsys" where
  "transition_done prevents w s =
     (let s1 = switch_on (b_element w) (switch_from (b_active w) s)
      in case b_call w of Some call \<Rightarrow> end_call prevents call s1 | None \<Rightarrow> s1)"

definition active_in :: "tabsys \<Rightarrow> nat option \<Rightarrow> nat list" where
  "active_in s place =
     (case place of
        Some c \<Rightarrow> filter (is_on s) (if w_isList (q_nodes s ! c) then w_items (q_nodes s ! c) else w_children (q_nodes s ! c))
      | None \<Rightarrow> [])"

definition first_of :: "nat list \<Rightarrow> nat option" where
  "first_of xs = (case xs of x # _ \<Rightarrow> Some x | [] \<Rightarrow> None)"

definition activate_tab :: "tabpage \<Rightarrow> nat \<Rightarrow> nat option \<Rightarrow> tabcall option \<Rightarrow> tabsys \<Rightarrow> tabsys" where
  "activate_tab prevents i place call s =
     (let active = first_of (active_in s place);
          w = \<lparr>b_element = i, b_active = active, b_call = call\<rparr>
      in case active of
           Some a \<Rightarrow>
             (if call \<noteq> None \<and> tab_has ''fade'' s a
              then (let s1 = class_off ''show'' a s in s1\<lparr>q_waits := q_waits s1 @ [w]\<rparr>)
              else transition_done prevents w s)
         | None \<Rightarrow> transition_done prevents w s)"

section \<open>Showing a tab\<close>

definition previous_tab :: "tabsys \<Rightarrow> nat option \<Rightarrow> nat option" where
  \<comment> \<open>the last active item of the list\<close>
  "previous_tab s place =
     (case place of
        Some c \<Rightarrow>
          (let xs = filter (is_on s) (if w_isList (q_nodes s ! c) then w_items (q_nodes s ! c) else w_inside (q_nodes s ! c))
           in if xs = [] then None else Some (last xs))
      | None \<Rightarrow> None)"

definition tab_target :: "(string \<Rightarrow> nat list option) \<Rightarrow> tabnode \<Rightarrow> nat option" where
  "tab_target query n =
     (case getSelectorFromElement query (w_dataTarget n) (w_href n) of
        Some sel \<Rightarrow> (case query sel of Some xs \<Rightarrow> first_of xs | None \<Rightarrow> None)
      | None \<Rightarrow> None)"

definition show_tab :: "tabpage \<Rightarrow> (string \<Rightarrow> nat list option) \<Rightarrow> nat \<Rightarrow> tabsys \<Rightarrow> tabsys" where
  "show_tab prevents query i s =
     (let n = q_nodes s ! i
      in if (w_parent n \<noteq> None \<and> is_on s i) \<or> tab_has ''disabled'' s i then s
         else (let previous = previous_tab s (w_list n)
               in case trigger_some prevents HideTab previous s of
                    (s1, hidePrevented) \<Rightarrow>
                      (case trigger_tab prevents ShowTab i s1 of
                         (s2, showPrevented) \<Rightarrow>
                           (if showPrevented \<or> hidePrevented then s2
                            else (let s3 = activate_tab prevents i (w_list n) None s2;
                                      call = \<lparr>b_link = Some i, b_previous = previous\<rparr>
                                  in case tab_target query n of
                                       Some t \<Rightarrow> activate_tab prevents t (w_parent (q_nodes s3 ! t)) (Some call) s3
                                     | None \<Rightarrow> end_call prevents call s3)))))"

definition end_tab :: "tabpage \<Rightarrow> nat \<Rightarrow> tabsys \<Rightarrow> tabsys" where
  \<comment> \<open>one of the transitions under way ends\<close>
  "end_tab prevents k s =
     (if k < length (q_waits s)
      then transition_done prevents (q_waits s ! k) (s\<lparr>q_waits := take k (q_waits s) @ drop (Suc k) (q_waits s)\<rparr>)
      else s)"

definition dispose_tab :: "nat \<Rightarrow> tabsys \<Rightarrow> tabsys" where
  \<comment> \<open>an instance holds nothing but its element, which the ends of its transitions still look at\<close>
  "dispose_tab i s =
     s\<lparr>q_waits := map (\<lambda>w. w\<lparr>b_call := map_option (\<lambda>c. if b_link c = Some i then c\<lparr>b_link := None\<rparr> else c) (b_call w)\<rparr>) (q_waits s)\<rparr>"

definition tab_call :: "tabpage \<Rightarrow> (string \<Rightarrow> nat list option) \<Rightarrow> nat \<Rightarrow> jsval \<Rightarrow> tabsys \<Rightarrow> tabsys \<times> jserr option" where
  \<comment> \<open>one element of $().tab(config); names of private methods are left out\<close>
  "tab_call prevents query i config s =
     (case config of
        JStr name \<Rightarrow>
          (if name = ''show'' then (show_tab prevents query i s, None)
           else if name = ''dispose'' then (dispose_tab i s, None)
           else (s, Some (Error (''No method named '' @ [CHR 0x22] @ name @ [CHR 0x22]))))
      | _ \<Rightarrow> (s, None))"

definition tab_click :: "tabpage \<Rightarrow> (string \<Rightarrow> nat list option) \<Rightarrow> nat \<Rightarrow> tabsys \<Rightarrow> tabsys" where
  "tab_click prevents query i s = fst (tab_call prevents query i (JStr ''show'') s)"

end
