(* ===== verification/TabLaws.thy ===== *)
theory TabLaws
  imports BsTab
begin

text \<open>
  Tabs: without fading, a list of tabs with its panes is the index of the tab selected, whatever is clicked and
  whatever the page prevents; with fading, two quick clicks leave two panes active.
\<close>

section \<open>What changes\<close>

definition is_stable :: "tabnode \<Rightarrow> tabnode \<Rightarrow> bool" where
  \<comment> \<open>only the classes active and show and the attributes differ\<close>
  "is_stable n n' \<longleftrightarrow> w_parent n' = w_parent n \<and> w_list n' = w_list n \<and> w_isList n' = w_isList n \<and> w_children n' = w_children n
     \<and> w_items n' = w_items n \<and> w_inMenus n' = w_inMenus n \<and> w_dataTarget n' = w_dataTarget n \<and> w_href n' = w_href n \<and> w_role n' = w_role n
     \<and> (\<forall>c. c \<noteq> ''active'' \<longrightarrow> c \<noteq> ''show'' \<longrightarrow> List.member (w_classes n') c = List.member (w_classes n) c)"

definition same_page :: "tabsys \<Rightarrow> tabsys \<Rightarrow> bool" where
  "same_page s s' \<longleftrightarrow> length (q_nodes s') = length (q_nodes s) \<and> (\<forall>i. is_stable (q_nodes s ! i) (q_nodes s' ! i))"

lemma same_page_refl: "same_page s s"
  by (simp add: same_page_def is_stable_def)

lemma same_page_trans: "same_page s s' \<Longrightarrow> same_page s' s'' \<Longrightarrow> same_page s s''"
  by (simp add: same_page_def is_stable_def)

lemma upd_same_page: "is_stable (q_nodes s ! i) (f (q_nodes s ! i)) \<Longrightarrow> same_page s (upd_tab i f s)"
  by (cases "i < length (q_nodes s)")
    (auto simp: same_page_def upd_tab_def nth_list_update is_stable_def list_update_beyond)

lemma upd_nodes: "q_nodes (upd_tab i f s) ! k = (if k = i \<and> i < length (q_nodes s) then f (q_nodes s ! i) else q_nodes s ! k)"
  by (cases "i < length (q_nodes s)") (auto simp: upd_tab_def nth_list_update list_update_beyond)

lemma upd_rest [simp]: "q_waits (upd_tab i f s) = q_waits s" "q_log (upd_tab i f s) = q_log s" "length (q_nodes (upd_tab i f s)) = length (q_nodes s)"
  by (simp_all add: upd_tab_def)

lemma class_changes:
  "same_page s (class_on ''active'' i s)" "same_page s (class_off ''active'' i s)" "same_page s (select_tab b i s)"
  unfolding class_on_def class_off_def select_tab_def
  by (rule upd_same_page, auto simp: is_stable_def)+

definition plain_tab :: "tabsys \<Rightarrow> nat \<Rightarrow> bool" where
  \<comment> \<open>a node outside dropdowns that does not fade\<close>
  "plain_tab s i \<longleftrightarrow> i < length (q_nodes s) \<and> \<not> tab_has ''fade'' s i \<and>
     (case w_parent (q_nodes s ! i) of Some p \<Rightarrow> w_inMenus (q_nodes s ! p) = [] \<and> \<not> tab_has ''dropdown-menu'' s p | None \<Rightarrow> False)"

lemma stable_has: "same_page s s' \<Longrightarrow> c \<noteq> ''active'' \<Longrightarrow> c \<noteq> ''show'' \<Longrightarrow> tab_has c s' i = tab_has c s i"
  by (simp add: same_page_def is_stable_def tab_has_def)

lemma plain_same: "same_page s s' \<Longrightarrow> plain_tab s' i = plain_tab s i"
  by (auto simp: plain_tab_def stable_has same_page_def is_stable_def tab_has_def split: option.splits)

lemma switch_off_plain: "plain_tab s i \<Longrightarrow> switch_off i s = select_tab False i (class_off ''active'' i s)"
  using class_changes(2) [of s i]
  by (auto simp: switch_off_def Let_def plain_tab_def same_page_def is_stable_def split: option.splits)

lemma switch_on_plain:
  assumes "plain_tab s i"
  shows "switch_on i s = select_tab True i (class_on ''active'' i s)"
proof -
  let ?s1 = "select_tab True i (class_on ''active'' i s)"
  have p: "same_page s ?s1" by (rule same_page_trans [OF class_changes(1) class_changes(3)])
  have "plain_tab ?s1 i" using assms plain_same [OF p] by simp
  then show ?thesis by (auto simp: switch_on_def Let_def plain_tab_def split: option.splits)
qed

lemma class_facts:
  "i < length (q_nodes s) \<Longrightarrow> is_on (class_on ''active'' i s) k = (k = i \<or> is_on s k)"
  "i < length (q_nodes s) \<Longrightarrow> is_on (class_off ''active'' i s) k = (k \<noteq> i \<and> is_on s k)"
  "is_on (select_tab b i s) k = is_on s k"
  "w_selected (q_nodes (class_on c i s) ! k) = w_selected (q_nodes s ! k)"
  "w_selected (q_nodes (class_off c i s) ! k) = w_selected (q_nodes s ! k)"
  "i < length (q_nodes s) \<Longrightarrow> w_selected (q_nodes (select_tab b i s) ! k) = (if k = i \<and> w_role (q_nodes s ! k) then Some b else w_selected (q_nodes s ! k))"
  "length (q_nodes (class_on c i s)) = length (q_nodes s)" "length (q_nodes (class_off c i s)) = length (q_nodes s)" "length (q_nodes (select_tab b i s)) = length (q_nodes s)"
  "q_waits (class_on c i s) = q_waits s" "q_waits (class_off c i s) = q_waits s" "q_waits (select_tab b i s) = q_waits s"
  "w_role (q_nodes (class_on c i s) ! k) = w_role (q_nodes s ! k)" "w_role (q_nodes (class_off c i s) ! k) = w_role (q_nodes s ! k)"
  "w_role (q_nodes (select_tab b i s) ! k) = w_role (q_nodes s ! k)"
  by (auto simp: tab_has_def class_on_def class_off_def select_tab_def upd_nodes)

text \<open>The move of the class active from one node to another.\<close>

definition moved :: "nat \<Rightarrow> nat \<Rightarrow> tabsys \<Rightarrow> tabsys \<Rightarrow> bool" where
  "moved a b s s' \<longleftrightarrow> same_page s s' \<and> q_waits s' = q_waits s \<and> (\<forall>k. is_on s' k = (k = b \<or> (k \<noteq> a \<and> is_on s k))) \<and>
     (\<forall>k. w_selected (q_nodes s' ! k) = (if w_role (q_nodes s ! k) \<and> k = b then Some True else if w_role (q_nodes s ! k) \<and> k = a then Some False else w_selected (q_nodes s ! k)))"

lemma switch_moves:
  assumes "plain_tab s a" "plain_tab s b"
  shows "moved a b s (switch_on b (switch_off a s))"
proof -
  let ?s1 = "select_tab False a (class_off ''active'' a s)"
  have p: "same_page s ?s1" by (rule same_page_trans [OF class_changes(2) class_changes(3)])
  have b: "plain_tab ?s1 b" using assms(2) plain_same [OF p] by simp
  have q: "same_page s (select_tab True b (class_on ''active'' b ?s1))"
    by (rule same_page_trans [OF p same_page_trans [OF class_changes(1) class_changes(3)]])
  have "a < length (q_nodes s)" "b < length (q_nodes s)" using assms by (simp_all add: plain_tab_def)
  then show ?thesis unfolding switch_off_plain [OF assms(1)] switch_on_plain [OF b] moved_def
    by (intro conjI allI q) (auto simp: class_facts)
qed

lemma moved_logs: "moved a b s s' \<Longrightarrow> q_nodes s'' = q_nodes s' \<Longrightarrow> q_waits s'' = q_waits s' \<Longrightarrow> moved a b s s''"
  by (simp add: moved_def same_page_def tab_has_def)

section \<open>Tabs and panes\<close>

definition only_on :: "tabsys \<Rightarrow> nat list \<Rightarrow> nat \<Rightarrow> bool" where
  "only_on s xs j \<longleftrightarrow> (\<forall>i < length xs. is_on s (xs ! i) = (i = j))"

definition tab_page :: "(string \<Rightarrow> nat list option) \<Rightarrow> nat \<Rightarrow> nat \<Rightarrow> nat list \<Rightarrow> nat list \<Rightarrow> tabsys \<Rightarrow> bool" where
  \<comment> \<open>a list \<open>u\<close> with the links of tabs, and an element \<open>p\<close> with their panes, none of which fades\<close>
  "tab_page query u p links panes s \<longleftrightarrow>
     length links = length panes \<and> distinct links \<and> distinct panes \<and> set links \<inter> set panes = {} \<and>
     w_isList (q_nodes s ! u) \<and> w_items (q_nodes s ! u) = links \<and> \<not> w_isList (q_nodes s ! p) \<and> w_children (q_nodes s ! p) = panes \<and>
     (\<forall>i < length links. plain_tab s (links ! i) \<and> plain_tab s (panes ! i) \<and> w_list (q_nodes s ! (links ! i)) = Some u \<and>
        w_parent (q_nodes s ! (panes ! i)) = Some p \<and> tab_target query (q_nodes s ! (links ! i)) = Some (panes ! i))"

lemma tab_page_same:
  assumes "same_page s s'" "tab_page query u p links panes s"
  shows "tab_page query u p links panes s'"
  using assms(2) plain_same [OF assms(1)] assms(1) by (simp add: tab_page_def same_page_def is_stable_def tab_target_def)

definition tab_selected :: "(string \<Rightarrow> nat list option) \<Rightarrow> nat \<Rightarrow> nat \<Rightarrow> nat list \<Rightarrow> nat list \<Rightarrow> tabsys \<Rightarrow> nat \<Rightarrow> bool" where
  \<comment> \<open>the tab \<open>j\<close> and its pane are active, no others are, and no transition is under way\<close>
  "tab_selected query u p links panes s j \<longleftrightarrow>
     tab_page query u p links panes s \<and> j < length links \<and> q_waits s = [] \<and> only_on s links j \<and> only_on s panes j \<and>
     (\<forall>i < length links. w_role (q_nodes s ! (links ! i)) \<longrightarrow> w_selected (q_nodes s ! (links ! i)) = Some (i = j))"

lemma filter_only: "only_on s xs j \<Longrightarrow> distinct xs \<Longrightarrow> j < length xs \<Longrightarrow> filter (is_on s) xs = [xs ! j]"
proof -
  assume o: "only_on s xs j" and d: "distinct xs" and j: "j < length xs"
  have "filter (is_on s) xs = filter (\<lambda>x. x = xs ! j) xs"
  proof (rule filter_cong)
    fix x assume "x \<in> set xs"
    then obtain i where "i < length xs" "x = xs ! i" by (auto simp: in_set_conv_nth)
    then show "is_on s x = (x = xs ! j)" using o d j by (simp add: only_on_def nth_eq_iff_index_eq)
  qed simp
  moreover have "filter (\<lambda>x. x = xs ! j) xs = [xs ! j]" using d j by (induction xs arbitrary: j) (auto simp: nth_Cons filter_empty_conv split: nat.splits)
  ultimately show ?thesis by simp
qed

lemma moved_only:
  assumes "moved (xs ! j) (xs ! i) s s'" "only_on s xs j" "distinct xs" "i < length xs" "j < length xs"
  shows "only_on s' xs i"
  using assms by (auto simp: moved_def only_on_def nth_eq_iff_index_eq)

lemma moved_elsewhere:
  assumes "moved a b s s'" "only_on s xs j" "a \<notin> set xs" "b \<notin> set xs"
  shows "only_on s' xs j"
proof -
  have "xs ! i \<noteq> a \<and> xs ! i \<noteq> b" if "i < length xs" for i using assms(3,4) nth_mem [OF that] by auto
  then show ?thesis using assms(1,2) by (simp add: moved_def only_on_def)
qed

text \<open>Activating one of several nodes of which another is active.\<close>

lemma activate_plain:
  assumes "active_in s place = [a]" "plain_tab s a" "plain_tab s b"
  shows "moved a b s (activate_tab prevents b place call s)"
proof -
  have "\<not> tab_has ''fade'' s a" using assms(2) by (simp add: plain_tab_def)
  then show ?thesis
    using switch_moves [OF assms(2,3)]
    by (auto simp: activate_tab_def Let_def assms(1) first_of_def transition_done_def switch_from_def end_call_def trigger_tab_def trigger_some_def
        intro: moved_logs split: option.splits)
qed

lemma show_selects:
  assumes "tab_selected query u p links panes s j" "i < length links"
  shows "\<exists>k. tab_selected query u p links panes (show_tab prevents query (links ! i) s) k \<and> (k = i \<or> k = j)
    \<and> same_page s (show_tab prevents query (links ! i) s)
    \<and> ((\<forall>l ev n. \<not> prevents l ev n) \<and> \<not> tab_has ''disabled'' s (links ! i) \<longrightarrow> k = i)"
proof -
  have pg: "tab_page query u p links panes s" and j: "j < length links" and w: "q_waits s = []" and ol: "only_on s links j" and op: "only_on s panes j"
    and sel: "\<And>i. i < length links \<Longrightarrow> w_role (q_nodes s ! (links ! i)) \<Longrightarrow> w_selected (q_nodes s ! (links ! i)) = Some (i = j)"
    using assms(1) by (auto simp: tab_selected_def)
  have len: "length panes = length links" and dl: "distinct links" and dp: "distinct panes" and disj: "set links \<inter> set panes = {}"
    and pl: "\<And>k. k < length links \<Longrightarrow> plain_tab s (links ! k)" and pp: "\<And>k. k < length links \<Longrightarrow> plain_tab s (panes ! k)"
    and li: "w_list (q_nodes s ! (links ! i)) = Some u" and pa: "w_parent (q_nodes s ! (panes ! i)) = Some p"
    and ta: "tab_target query (q_nodes s ! (links ! i)) = Some (panes ! i)"
    and us: "w_isList (q_nodes s ! u)" "w_items (q_nodes s ! u) = links" and ps: "\<not> w_isList (q_nodes s ! p)" "w_children (q_nodes s ! p) = panes"
    using pg assms(2) by (auto simp: tab_page_def)
  have par: "w_parent (q_nodes s ! (links ! i)) \<noteq> None" using pl [OF assms(2)] by (auto simp: plain_tab_def split: option.splits)
  show ?thesis
  proof (cases "i = j \<or> tab_has ''disabled'' s (links ! i)")
    case True
    then have "show_tab prevents query (links ! i) s = s" using par ol assms(2) by (auto simp: show_tab_def Let_def only_on_def)
    then show ?thesis using True assms(1) same_page_refl by auto
  next
    case False
    then have off: "\<not> is_on s (links ! i)" "\<not> tab_has ''disabled'' s (links ! i)" using ol assms(2) by (auto simp: only_on_def)
    define s2 where "s2 = s\<lparr>q_log := q_log s @ [(HideTab, links ! j), (ShowTab, links ! i)]\<rparr>"
    define v where "v = (prevents (q_log s @ [(HideTab, links ! j)]) ShowTab (links ! i) \<or> prevents (q_log s) HideTab (links ! j))"
    have prev: "previous_tab s (Some u) = Some (links ! j)" by (simp add: previous_tab_def us filter_only [OF ol dl j])
    let ?s3 = "activate_tab prevents (links ! i) (Some u) None s2"
    have sh: "show_tab prevents query (links ! i) s =
       (if v then s2 else activate_tab prevents (panes ! i) (w_parent (q_nodes ?s3 ! (panes ! i))) (Some \<lparr>b_link = Some (links ! i), b_previous = Some (links ! j)\<rparr>) ?s3)"
      using off by (simp add: show_tab_def Let_def li ta prev trigger_some_def trigger_tab_def v_def s2_def)
    have s2: "same_page s s2" "q_nodes s2 = q_nodes s" "q_waits s2 = []" "\<And>k. tab_has c s2 k = tab_has c s k" for c
      by (simp_all add: s2_def w same_page_def is_stable_def tab_has_def)
    have ol2: "only_on s2 links j" and op2: "only_on s2 panes j" using ol op by (simp_all add: only_on_def s2)
    have "active_in s2 (Some u) = [links ! j]" using filter_only [OF ol2 dl j] by (simp add: active_in_def s2 us)
    then have m3: "moved (links ! j) (links ! i) s2 ?s3"
      by (rule activate_plain) (use plain_same [OF s2(1)] pl j assms(2) in auto)
    then have p3: "same_page s ?s3" using s2(1) same_page_trans by (auto simp: moved_def)
    have np: "links ! k \<notin> set panes" "panes ! k \<notin> set links" if "k < length links" for k
      using disj nth_mem [of k links] nth_mem [of k panes] that len unfolding disjoint_iff by auto
    have op3: "only_on ?s3 panes j" by (rule moved_elsewhere [OF m3 op2]) (use np j assms(2) in auto)
    have ol3: "only_on ?s3 links i" by (rule moved_only [OF m3 ol2 dl assms(2) j])
    have stp: "w_parent (q_nodes ?s3 ! (panes ! i)) = Some p" "w_isList (q_nodes ?s3 ! p) = False" "w_children (q_nodes ?s3 ! p) = panes"
      using p3 pa ps by (auto simp: same_page_def is_stable_def)
    let ?s4 = "activate_tab prevents (panes ! i) (Some p) (Some \<lparr>b_link = Some (links ! i), b_previous = Some (links ! j)\<rparr>) ?s3"
    have "active_in ?s3 (Some p) = [panes ! j]" using filter_only [OF op3 dp] j len by (simp add: active_in_def stp)
    then have m4: "moved (panes ! j) (panes ! i) ?s3 ?s4"
      by (rule activate_plain) (use plain_same [OF p3] pp j assms(2) in auto)
    then have p4: "same_page s ?s4" using p3 same_page_trans by (auto simp: moved_def)
    have o4: "only_on ?s4 links i" "only_on ?s4 panes i"
      using moved_elsewhere [OF m4 ol3] moved_only [OF m4 op3 dp] np j assms(2) len by auto
    have w4: "q_waits ?s4 = []" using m3 m4 s2 by (simp add: moved_def)
    have sel4: "w_selected (q_nodes ?s4 ! (links ! k)) = Some (k = i)" if k: "k < length links" and r: "w_role (q_nodes ?s4 ! (links ! k))" for k
    proof -
      have ne: "links ! k \<noteq> panes ! j" "links ! k \<noteq> panes ! i"
        using np(1) [OF k] nth_mem [of j panes] nth_mem [of i panes] j assms(2) len by auto
      have r': "w_role (q_nodes s ! (links ! k))" using p4 r by (simp add: same_page_def is_stable_def)
      have r2: "w_role (q_nodes s2 ! (links ! k))" using r' by (simp add: s2)
      have e: "links ! k = links ! x \<longleftrightarrow> k = x" if "x < length links" for x using dl k that by (simp add: nth_eq_iff_index_eq)
      have "w_selected (q_nodes ?s4 ! (links ! k)) = w_selected (q_nodes ?s3 ! (links ! k))" using m4 ne by (simp add: moved_def)
      also have "\<dots> = (if k = i then Some True else if k = j then Some False else w_selected (q_nodes s ! (links ! k)))"
        using m3 r2 e [OF assms(2)] e [OF j] by (simp add: moved_def s2)
      finally show ?thesis using sel [OF k r'] False by auto
    qed
    have sel_i: "tab_selected query u p links panes ?s4 i"
      using tab_page_same [OF p4 pg] assms(2) w4 o4 sel4 by (simp add: tab_selected_def)
    have kept: "tab_selected query u p links panes s2 j"
      using tab_page_same [OF s2(1) pg] j ol2 op2 sel by (simp add: tab_selected_def s2)
    have sv: "show_tab prevents query (links ! i) s = (if v then s2 else ?s4)" using sh stp by simp
    show ?thesis
    proof (cases v)
      case True
      then have "\<not> (\<forall>l ev n. \<not> prevents l ev n)" by (auto simp: v_def)
      then show ?thesis using True kept s2(1) unfolding sv by auto
    next
      case False
      then show ?thesis using sel_i p4 unfolding sv by auto
    qed
  qed
qed

section \<open>The tab selected\<close>

text \<open>C29: Without fading, a list of tabs with its panes is the index of one tab: after clicks on any of its links exactly one
  link and exactly its pane are active and aria-selected says so, whatever the page prevents; and it is the link
  clicked last if the page prevents nothing and no link is disabled.\<close>

theorem tabs_are_an_index:
  assumes "tab_selected query u p links panes s j" "\<And>i. i \<in> set clicks \<Longrightarrow> i < length links"
  shows "\<exists>k \<in> set (j # clicks). tab_selected query u p links panes (fold (\<lambda>i. tab_click prevents query (links ! i)) clicks s) k
    \<and> ((\<forall>l ev n. \<not> prevents l ev n) \<and> (\<forall>i < length links. \<not> tab_has ''disabled'' s (links ! i)) \<longrightarrow> k = last (j # clicks))"
  using assms
proof (induction clicks arbitrary: s j)
  case (Cons i clicks)
  let ?s = "show_tab prevents query (links ! i) s"
  have i: "i < length links" using Cons.prems(2) by simp
  obtain k where k: "tab_selected query u p links panes ?s k" "k = i \<or> k = j" "same_page s ?s"
      "(\<forall>l ev n. \<not> prevents l ev n) \<and> \<not> tab_has ''disabled'' s (links ! i) \<Longrightarrow> k = i"
    using show_selects [OF Cons.prems(1) i, of prevents] by blast
  have d: "tab_has ''disabled'' ?s x = tab_has ''disabled'' s x" for x by (rule stable_has [OF k(3)]) simp_all
  obtain m where m: "m \<in> set (k # clicks)" "tab_selected query u p links panes (fold (\<lambda>i. tab_click prevents query (links ! i)) clicks ?s) m"
      "(\<forall>l ev n. \<not> prevents l ev n) \<and> (\<forall>i < length links. \<not> tab_has ''disabled'' ?s (links ! i)) \<longrightarrow> m = last (k # clicks)"
    using Cons.IH [OF k(1)] Cons.prems(2) by (meson list.set_intros(2))
  have c: "tab_click prevents query (links ! i) s = ?s" by (simp add: tab_click_def tab_call_def)
  have "m \<in> set (j # i # clicks)" using m(1) k(2) by auto
  moreover have "(\<forall>l ev n. \<not> prevents l ev n) \<and> (\<forall>i < length links. \<not> tab_has ''disabled'' s (links ! i)) \<longrightarrow> m = last (j # i # clicks)"
    using m(3) k(4) i unfolding d by auto
  ultimately show ?case using m(2) by (auto simp: c)
qed simp

section \<open>Examples\<close>

definition tab_link :: "nat \<Rightarrow> string \<Rightarrow> nat \<Rightarrow> tabnode" where
  "tab_link on h i =
     \<lparr>w_classes = (if i = on then [''active''] else []), w_parent = Some 0, w_list = Some 0, w_isList = False, w_children = [], w_items = [],
      w_inside = [], w_inMenus = [], w_dropToggles = [], w_dataTarget = None, w_href = Some h, w_role = True, w_selected = Some (i = on), w_expanded = False\<rparr>"

definition tab_pane :: "string list \<Rightarrow> tabnode" where
  "tab_pane cs =
     \<lparr>w_classes = cs, w_parent = Some 1, w_list = None, w_isList = False, w_children = [], w_items = [],
      w_inside = [], w_inMenus = [], w_dropToggles = [], w_dataTarget = None, w_href = None, w_role = False, w_selected = None, w_expanded = False\<rparr>"

definition three_tabs :: "string list \<Rightarrow> tabsys" where
  \<comment> \<open>a list 0 with the links 2, 3, 4 and an element 1 with their panes 5, 6, 7, the first of which is active\<close>
  "three_tabs fade =
     \<lparr>q_nodes = [(tab_pane [])\<lparr>w_isList := True, w_items := [2, 3, 4]\<rparr>, (tab_pane [])\<lparr>w_children := [5, 6, 7]\<rparr>,
        tab_link 0 ''#a'' 0, tab_link 0 ''#b'' 1, tab_link 0 ''#c'' 2, tab_pane (''active'' # ''show'' # fade), tab_pane fade, tab_pane fade],
      q_waits = [], q_log = []\<rparr>"

definition find_pane :: "string \<Rightarrow> nat list option" where
  "find_pane q = (if q = ''#a'' then Some [5] else if q = ''#b'' then Some [6] else if q = ''#c'' then Some [7] else None)"

definition active_nodes :: "tabsys \<Rightarrow> nat list" where
  "active_nodes s = filter (is_on s) [0..<length (q_nodes s)]"

lemma three_tabs_selected: "tab_selected find_pane 0 1 [2, 3, 4] [5, 6, 7] (three_tabs []) 0"
  by code_simp

theorem tabs_are_an_index_witness:
  "tab_selected find_pane 0 1 [2, 3, 4] [5, 6, 7] (fold (\<lambda>i. tab_click (\<lambda>_ _ _. False) find_pane ([2, 3, 4] ! i)) [1, 2] (three_tabs [])) 2"
proof -
  have "\<forall>i < length [2, 3, 4 :: nat]. \<not> tab_has ''disabled'' (three_tabs []) ([2, 3, 4] ! i)" by code_simp
  moreover have "i < length [2, 3, 4 :: nat]" if "i \<in> set [1, 2]" for i using that by auto
  ultimately show ?thesis using tabs_are_an_index [OF three_tabs_selected, of "[1, 2]" "\<lambda>_ _ _. False"] by force
qed

text \<open>When panes fade, two quick clicks leave two panes active: the second click still finds the first pane active, so
  that the ends of both transitions take it away and activate a pane each.\<close>

theorem quick_clicks_two_panes:
  "(let click = tab_click (\<lambda>_ _ _. False) find_pane; end_first = end_tab (\<lambda>_ _ _. False) 0;
        s = end_first (end_first (click 4 (click 3 (three_tabs [''fade'']))))
    in active_nodes s = [4, 6, 7] \<and> q_waits s = [] \<and> tab_has ''show'' s 6 \<and> tab_has ''show'' s 7)"
  by code_simp

end
