(* ===== verification/BsToast.thy ===== *)
theory BsToast
  imports BsUtil
begin

text \<open>
  The toasts of Bootstrap: the classes of a toast, the timers and the transitions under way, and its events.  A
  toast that hides itself always has a timer under way while it is shown.  But showing a toast neither stops an old
  timer nor an old transition, so that the old ones close or hide what was shown anew.
\<close>

section \<open>State\<close>

datatype toastevent = ShowToast | ShownToast | HideToast | HiddenToast

datatype toastwait = EndShow | EndClose

record toast =
  o_classes :: "string list"
  o_animation :: bool
  o_autohide :: bool
  o_timeout :: "nat option" \<comment> \<open>_timeout\<close>
  o_timers :: "nat list" \<comment> \<open>the timers under way\<close>
  o_nextTimer :: nat
  o_waits :: "toastwait list" \<comment> \<open>the transitions under way\<close>
  o_listens :: bool \<comment> \<open>the handler for dismissing is bound\<close>
  o_disposed :: bool
  o_log :: "toastevent list"

definition toast_on :: "string \<Rightarrow> toast \<Rightarrow> toast" where
  "toast_on c s = s\<lparr>o_classes := insert_name c (o_classes s)\<rparr>"

definition toast_off :: "string \<Rightarrow> toast \<Rightarrow> toast" where
  "toast_off c s = s\<lparr>o_classes := remove_name_from c (o_classes s)\<rparr>"

definition log_toast :: "toastevent \<Rightarrow> toast \<Rightarrow> toast" where
  "log_toast ev s = s\<lparr>o_log := o_log s @ [ev]\<rparr>"

definition toast_shown :: "toast \<Rightarrow> bool" where
  "toast_shown s \<longleftrightarrow> List.member (o_classes s) ''show''"

section \<open>Operations\<close>

definition toast_closed :: "toast \<Rightarrow> toast" where
  \<comment> \<open>complete in _close\<close>
  "toast_closed s = log_toast HiddenToast (toast_on ''hide'' s)"

definition toast_close :: "toast \<Rightarrow> toast" where
  "toast_close s =
     (let s1 = toast_off ''show'' s
      in if o_animation s1 then s1\<lparr>o_waits := o_waits s1 @ [EndClose]\<rparr> else toast_closed s1)"

definition hide_toast :: "bool \<Rightarrow> toast \<Rightarrow> toast" where
  "hide_toast withoutTimeout s =
     (if \<not> toast_shown s then s
      else (let s1 = log_toast HideToast s
            in if withoutTimeout then toast_close s1
               else s1\<lparr>o_timeout := Some (o_nextTimer s1), o_timers := o_timers s1 @ [o_nextTimer s1], o_nextTimer := Suc (o_nextTimer s1)\<rparr>))"

definition toast_opened :: "toast \<Rightarrow> toast" where
  \<comment> \<open>complete in show\<close>
  "toast_opened s =
     (let s1 = log_toast ShownToast (toast_on ''show'' (toast_off ''showing'' s))
      in if o_autohide s1 then hide_toast False s1 else s1)"

definition show_toast :: "toast \<Rightarrow> toast" where
  "show_toast s =
     (let s1 = log_toast ShowToast s;
          s2 = (if o_animation s1 then toast_on ''fade'' s1 else s1);
          s3 = toast_on ''showing'' (toast_off ''hide'' s2)
      in if o_animation s3 then s3\<lparr>o_waits := o_waits s3 @ [EndShow]\<rparr> else toast_opened s3)"

definition dispose_toast :: "toast \<Rightarrow> toast" where
  "dispose_toast s =
     (let s1 = s\<lparr>o_timers := (case o_timeout s of Some t \<Rightarrow> filter (\<lambda>x. x \<noteq> t) (o_timers s) | None \<Rightarrow> o_timers s), o_timeout := None\<rparr>;
          s2 = (if toast_shown s1 then toast_off ''show'' s1 else s1)
      in s2\<lparr>o_listens := False, o_disposed := True\<rparr>)"

definition dismiss_toast :: "toast \<Rightarrow> toast" where
  \<comment> \<open>a click on the button of the toast\<close>
  "dismiss_toast s = (if o_listens s then hide_toast True s else s)"

definition toast_timer :: "nat \<Rightarrow> toast \<Rightarrow> toast \<times> jserr option" where
  \<comment> \<open>the timer \<open>t\<close> expires; the element of a toast disposed of is null\<close>
  "toast_timer t s =
     (if List.member (o_timers s) t
      then (let s1 = s\<lparr>o_timers := filter (\<lambda>x. x \<noteq> t) (o_timers s)\<rparr>
            in if o_disposed s1 then (s1, Some TypeError) else (toast_close s1, None))
      else (s, None))"

definition end_toast :: "nat \<Rightarrow> toast \<Rightarrow> toast \<times> jserr option" where
  \<comment> \<open>one of the transitions under way ends\<close>
  "end_toast k s =
     (if k < length (o_waits s)
      then (let s1 = s\<lparr>o_waits := take k (o_waits s) @ drop (Suc k) (o_waits s)\<rparr>
            in if o_disposed s1 then (s1, Some TypeError)
               else (case o_waits s ! k of EndShow \<Rightarrow> (toast_opened s1, None) | EndClose \<Rightarrow> (toast_closed s1, None)))
      else (s, None))"

section \<open>Construction\<close>

definition toast_default :: "jsval obj" where
  "toast_default = [(''animation'', JBool True), (''autohide'', JBool True), (''delay'', JNum (num 500))]"

definition toast_types :: "string obj" where
  "toast_types = [(''animation'', ''boolean''), (''autohide'', ''boolean''), (''delay'', ''number'')]"

definition toast_config :: "jsval obj \<Rightarrow> jsval \<Rightarrow> jserr + jsval obj" where
  "toast_config data given =
     (let c = objectSpread [] ([toast_default, data] @ (case given of JObj kvs \<Rightarrow> [kvs] | _ \<Rightarrow> []))
      in case typeCheckConfig ''toast'' c toast_types of Some x \<Rightarrow> Inl x | None \<Rightarrow> Inr c)"

definition new_toast :: "string list \<Rightarrow> jsval obj \<Rightarrow> toast" where
  "new_toast classes c =
     \<lparr>o_classes = classes, o_animation = truthy (js_prop c ''animation''), o_autohide = truthy (js_prop c ''autohide''), o_timeout = None,
      o_timers = [], o_nextTimer = 0, o_waits = [], o_listens = True, o_disposed = False, o_log = []\<rparr>"

definition toast_method :: "string \<Rightarrow> toast \<Rightarrow> toast \<times> jserr option" where
  \<comment> \<open>the methods take the element as their argument, so that hide does not wait; names of private methods are left out\<close>
  "toast_method name s =
     (if name = ''show'' then (show_toast s, None)
      else if name = ''hide'' then (hide_toast True s, None)
      else if name = ''dispose'' then (dispose_toast s, None)
      else (s, Some (Error (''No method named '' @ [CHR 0x22] @ name @ [CHR 0x22]))))"

definition toast_call :: "string list \<Rightarrow> jsval obj \<Rightarrow> jsval \<Rightarrow> toast option \<Rightarrow> jserr + toast \<times> jserr option" where
  \<comment> \<open>one element of $().toast(config), with its classes, its data attributes and its instance where it has one\<close>
  "toast_call classes data given inst =
     (case (case inst of Some s \<Rightarrow> Inr s | None \<Rightarrow> (case toast_config data given of Inl x \<Rightarrow> Inl x | Inr c \<Rightarrow> Inr (new_toast classes c))) of
        Inl x \<Rightarrow> Inl x
      | Inr s \<Rightarrow> Inr (case given of JStr name \<Rightarrow> toast_method name s | _ \<Rightarrow> (s, None)))"

section \<open>Toasts that hide themselves\<close>

inductive toast_step :: "toast \<Rightarrow> toast \<Rightarrow> bool" where
  showing: "toast_step s (show_toast s)"
| hiding: "toast_step s (hide_toast w s)"
| dismissed: "toast_step s (dismiss_toast s)"
| expired: "\<not> o_disposed s \<Longrightarrow> toast_step s (fst (toast_timer t s))"
| ended: "\<not> o_disposed s \<Longrightarrow> toast_step s (fst (end_toast k s))"

inductive_cases toast_stepE: "toast_step s s'"

definition timed :: "toast \<Rightarrow> bool" where
  \<comment> \<open>a timer is under way while it is shown\<close>
  "timed s \<longleftrightarrow> o_autohide s \<and> \<not> o_disposed s \<and> (toast_shown s \<longrightarrow> o_timers s \<noteq> [])"

lemma toast_classes:
  "toast_shown (toast_on c s) = (c = ''show'' \<or> toast_shown s)" "toast_shown (toast_off c s) = (c \<noteq> ''show'' \<and> toast_shown s)"
  "toast_shown (log_toast ev s) = toast_shown s"
  by (auto simp: toast_shown_def toast_on_def toast_off_def log_toast_def)

lemma toast_fields:
  "o_autohide (toast_on c s) = o_autohide s" "o_autohide (toast_off c s) = o_autohide s" "o_autohide (log_toast ev s) = o_autohide s"
  "o_disposed (toast_on c s) = o_disposed s" "o_disposed (toast_off c s) = o_disposed s" "o_disposed (log_toast ev s) = o_disposed s"
  "o_timers (toast_on c s) = o_timers s" "o_timers (toast_off c s) = o_timers s" "o_timers (log_toast ev s) = o_timers s"
  "o_animation (toast_on c s) = o_animation s" "o_animation (toast_off c s) = o_animation s" "o_animation (log_toast ev s) = o_animation s"
  by (simp_all add: toast_on_def toast_off_def log_toast_def)

lemmas toast_facts = toast_classes toast_fields timed_def Let_def

lemma close_timed: "o_autohide s \<Longrightarrow> \<not> o_disposed s \<Longrightarrow> timed (toast_close s)"
  by (auto simp: toast_close_def toast_closed_def toast_facts) (simp add: toast_shown_def toast_off_def)

lemma hide_timed: "timed s \<Longrightarrow> timed (hide_toast w s)"
  using close_timed [of "log_toast HideToast s"] by (cases w) (auto simp: hide_toast_def toast_facts)

lemma wait_timed: "o_autohide s \<Longrightarrow> \<not> o_disposed s \<Longrightarrow> timed (hide_toast False s)"
  by (auto simp: hide_toast_def toast_facts)

lemma opened_timed: "timed s \<Longrightarrow> timed (toast_opened s)"
  using wait_timed [of "log_toast ShownToast (toast_on ''show'' (toast_off ''showing'' s))"]
  by (simp add: toast_opened_def Let_def toast_fields) (simp add: timed_def)

lemma show_timed: "timed s \<Longrightarrow> timed (show_toast s)"
proof -
  assume t: "timed s"
  let ?s3 = "toast_on ''showing'' (toast_off ''hide'' (if o_animation (log_toast ShowToast s) then toast_on ''fade'' (log_toast ShowToast s) else log_toast ShowToast s))"
  have s3: "timed ?s3" using t by (simp add: toast_facts)
  then have "timed (?s3\<lparr>o_waits := o_waits ?s3 @ [EndShow]\<rparr>)" by (simp add: timed_def toast_shown_def)
  then show ?thesis using opened_timed [OF s3] by (simp add: show_toast_def Let_def)
qed

lemma waits_timed: "timed s \<Longrightarrow> timed (s\<lparr>o_waits := w\<rparr>)"
  by (simp add: timed_def toast_shown_def)

lemma timer_timed: "timed s \<Longrightarrow> timed (fst (toast_timer t s))"
proof -
  assume t: "timed s"
  have "timed (toast_close (s\<lparr>o_timers := x\<rparr>))" for x by (rule close_timed) (use t in \<open>simp_all add: timed_def\<close>)
  then show ?thesis using t by (simp add: toast_timer_def Let_def) (simp add: timed_def)
qed

lemma end_timed: "timed s \<Longrightarrow> timed (fst (end_toast k s))"
proof -
  assume t: "timed s"
  let ?s = "s\<lparr>o_waits := take k (o_waits s) @ drop (Suc k) (o_waits s)\<rparr>"
  have "timed ?s" by (rule waits_timed [OF t])
  moreover from this have "timed (toast_closed ?s)" by (simp add: toast_closed_def toast_facts)
  ultimately show ?thesis using t opened_timed [of ?s] by (auto simp: end_toast_def Let_def split: toastwait.split)
qed

lemma toast_step_timed: "timed s \<Longrightarrow> toast_step s s' \<Longrightarrow> timed s'"
  by (erule toast_stepE) (simp_all add: show_timed hide_timed dismiss_toast_def timer_timed end_timed)

definition toast_init :: "toast \<Rightarrow> bool" where
  "toast_init s \<longleftrightarrow> o_autohide s \<and> \<not> o_disposed s \<and> \<not> toast_shown s"

interpretation toasts: inductive_invariant toast_init toast_step timed
  by unfold_locales (simp add: toast_init_def timed_def, rule toast_step_timed)

text \<open>C31: A toast that hides itself always has a timer under way while it is shown, whatever is done to it, and any of its
  timers takes the class show away when it expires.\<close>

theorem toast_always_hides:
  assumes "toast_init s0" "toast_step\<^sup>*\<^sup>* s0 s" "toast_shown s"
  shows "o_timers s \<noteq> [] \<and> (\<forall>t. List.member (o_timers s) t \<longrightarrow> \<not> toast_shown (fst (toast_timer t s)) \<and> snd (toast_timer t s) = None)"
proof -
  have t: "timed s" by (rule toasts.inv_steps [OF assms(2) toasts.inv_init [OF assms(1)]])
  have "\<not> toast_shown (toast_close x)" for x
    by (simp add: toast_close_def toast_closed_def Let_def toast_classes) (simp add: toast_shown_def toast_off_def)
  then show ?thesis using t assms(3) by (auto simp: timed_def toast_timer_def Let_def)
qed

definition sample_toast :: "bool \<Rightarrow> toast" where
  "sample_toast animation = new_toast [''toast''] [(''animation'', JBool animation), (''autohide'', JBool True), (''delay'', JNum (num 500))]"

theorem toast_always_hides_witness: "o_timers (show_toast (sample_toast False)) \<noteq> []"
proof -
  have i: "toast_init (sample_toast False)" by code_simp
  have sh: "toast_shown (show_toast (sample_toast False))" by code_simp
  have "toast_step\<^sup>*\<^sup>* (sample_toast False) (show_toast (sample_toast False))" by (rule r_into_rtranclp) (rule showing)
  from toast_always_hides [OF i this sh] show ?thesis by blast
qed

section \<open>Old timers and transitions\<close>

text \<open>A timer outlives the dismissal of its toast: shown again, the toast is closed by the old timer, before its own time;
  and a toast that fades and is shown while it still fades out ends with the classes show and hide, so that it is
  hidden for good although it counts as shown.\<close>

theorem old_timer_closes_new_toast:
  "(let s = show_toast (dismiss_toast (show_toast (sample_toast False)));
        s' = fst (toast_timer 0 s)
    in toast_shown s \<and> o_timers s = [0, 1] \<and> \<not> toast_shown s' \<and> o_timers s' = [1]) \<and>
   (let s = dismiss_toast (fst (end_toast 0 (show_toast (sample_toast True))));
        s' = fst (end_toast 0 (fst (end_toast 0 (show_toast s))))
    in toast_shown s' \<and> List.member (o_classes s') ''hide'' \<and> o_waits s' = [])"
  by code_simp

text \<open>Only the last timer is stopped when a toast is disposed of: an older one fails.\<close>

lemma disposed_timer_fails: "snd (toast_timer 0 (dispose_toast (show_toast (show_toast (sample_toast False))))) = Some TypeError"
  by code_simp

end
