(* ===== verification/BsButton.thy ===== *)
theory BsButton
  imports BsUtil
begin

text \<open>
  The buttons and alerts of Bootstrap.  A button group holds its buttons in the order of the page, each with the input
  inside it where it has one.  What the browser does when a radio input is checked, taking the check from the others
  with its name, is written out.  Then: a group of radio buttons is the choice of one of them; and a click on a
  disabled one takes the class active from the chosen one all the same.
\<close>

section \<open>Buttons\<close>

record binput =
  n_type :: string
  n_name :: string
  n_checked :: bool
  n_disabledAttr :: bool
  n_disabledClass :: bool

record bbutton =
  u_active :: bool
  u_focus :: bool
  u_pressed :: "bool option" \<comment> \<open>aria-pressed\<close>
  u_input :: "binput option" \<comment> \<open>the first input inside it that is not hidden\<close>

record bgroup =
  e_grouped :: bool \<comment> \<open>there is an element with data-toggle buttons around them\<close>
  e_disabledAttr :: bool
  e_disabledClass :: bool
  e_buttons :: "bbutton list"
  e_changes :: "nat list" \<comment> \<open>the change events\<close>
  e_focused :: "nat option" \<comment> \<open>the button whose input was focused last\<close>

definition upd_button :: "nat \<Rightarrow> (bbutton \<Rightarrow> bbutton) \<Rightarrow> bgroup \<Rightarrow> bgroup" where
  "upd_button i f g = g\<lparr>e_buttons := (e_buttons g)[i := f (e_buttons g ! i)]\<rparr>"

definition first_active :: "bgroup \<Rightarrow> nat option" where
  \<comment> \<open>what the selector .active finds in the group\<close>
  "first_active g = (case filter (\<lambda>i. u_active (e_buttons g ! i)) [0..<length (e_buttons g)] of i # _ \<Rightarrow> Some i | [] \<Rightarrow> None)"

definition input_disabled :: "bgroup \<Rightarrow> binput \<Rightarrow> bool" where
  "input_disabled g n \<longleftrightarrow> n_disabledAttr n \<or> e_disabledAttr g \<or> n_disabledClass n \<or> e_disabledClass g"

definition uncheck :: "binput \<Rightarrow> bbutton \<Rightarrow> bbutton" where
  \<comment> \<open>what the browser does to the other radio inputs with the name of the one that is checked\<close>
  "uncheck n b =
     (case u_input b of
        Some m \<Rightarrow> if n_type n = ''radio'' \<and> n_type m = ''radio'' \<and> n_name m = n_name n then b\<lparr>u_input := Some (m\<lparr>n_checked := False\<rparr>)\<rparr> else b
      | None \<Rightarrow> b)"

definition set_checked :: "nat \<Rightarrow> binput \<Rightarrow> bool \<Rightarrow> bgroup \<Rightarrow> bgroup" where
  "set_checked i n v g =
     (let g1 = (if v then g\<lparr>e_buttons := map (uncheck n) (e_buttons g)\<rparr> else g)
      in upd_button i (\<lambda>b. b\<lparr>u_input := Some (n\<lparr>n_checked := v\<rparr>)\<rparr>) g1)"

definition flip_active :: "nat \<Rightarrow> bgroup \<Rightarrow> bgroup" where
  "flip_active i g = upd_button i (\<lambda>b. b\<lparr>u_active := \<not> u_active b\<rparr>) g"

definition press :: "nat \<Rightarrow> bgroup \<Rightarrow> bgroup" where
  "press i g = upd_button i (\<lambda>b. b\<lparr>u_pressed := Some (\<not> u_active b)\<rparr>) g"

definition release :: "nat \<Rightarrow> bgroup \<Rightarrow> bgroup" where
  "release i g = upd_button i (\<lambda>b. b\<lparr>u_active := False\<rparr>) g"

definition toggle_button :: "nat \<Rightarrow> bgroup \<Rightarrow> bgroup" where
  "toggle_button i g =
     (case (if e_grouped g then u_input (e_buttons g ! i) else None) of
        None \<Rightarrow> flip_active i (press i g)
      | Some n \<Rightarrow>
          (let chosen = n_type n = ''radio'' \<and> n_checked n \<and> u_active (e_buttons g ! i);
               g1 = (if n_type n = ''radio'' \<and> \<not> chosen then (case first_active g of Some j \<Rightarrow> release j g | None \<Rightarrow> g) else g)
           in if chosen then g1\<lparr>e_focused := Some i\<rparr>
              else if input_disabled g1 n then g1
              else (let g2 = set_checked i n (\<not> u_active (e_buttons g1 ! i)) g1
                    in flip_active i (g2\<lparr>e_changes := e_changes g2 @ [i], e_focused := Some i\<rparr>))))"

definition button_call :: "nat \<Rightarrow> jsval \<Rightarrow> bgroup \<Rightarrow> bgroup" where
  \<comment> \<open>one element of $().button(config); an instance holds nothing but its element\<close>
  "button_call i config g = (case config of JStr name \<Rightarrow> if name = ''toggle'' then toggle_button i g else g | _ \<Rightarrow> g)"

definition button_click :: "nat option \<Rightarrow> bgroup \<Rightarrow> bgroup" where
  \<comment> \<open>a click in the button \<open>i\<close>, or in no button\<close>
  "button_click i g = (case i of Some j \<Rightarrow> button_call j (JStr ''toggle'') g | None \<Rightarrow> g)"

definition button_focus :: "nat option \<Rightarrow> string \<Rightarrow> bgroup \<Rightarrow> bgroup" where
  "button_focus i ev g =
     (case i of Some j \<Rightarrow> upd_button j (\<lambda>b. b\<lparr>u_focus := (ev = ''focus'' \<or> ev = ''focusin'')\<rparr>) g | None \<Rightarrow> g)"

section \<open>Alerts\<close>

datatype alertevent = CloseAlert | ClosedAlert

record alertnode =
  y_classes :: "string list"
  y_inPage :: bool
  y_data :: bool \<comment> \<open>it has an instance\<close>
  y_dataTarget :: "string option"
  y_href :: "string option"
  y_closest :: "nat option" \<comment> \<open>the closest element with the class alert\<close>

record alertsys =
  h_nodes :: "alertnode list"
  h_waits :: "nat list" \<comment> \<open>the elements that fade out\<close>
  h_log :: "(alertevent \<times> nat) list"

definition upd_alert :: "nat \<Rightarrow> (alertnode \<Rightarrow> alertnode) \<Rightarrow> alertsys \<Rightarrow> alertsys" where
  "upd_alert i f s = s\<lparr>h_nodes := (h_nodes s)[i := f (h_nodes s ! i)]\<rparr>"

definition getRootElement :: "(string \<Rightarrow> nat list option) \<Rightarrow> alertnode \<Rightarrow> nat option" where
  "getRootElement query n =
     (case getSelectorFromElement query (y_dataTarget n) (y_href n) of
        Some sel \<Rightarrow> (case query sel of Some (x # _) \<Rightarrow> Some x | _ \<Rightarrow> y_closest n)
      | None \<Rightarrow> y_closest n)"

definition destroyElement :: "nat \<Rightarrow> alertsys \<Rightarrow> alertsys" where
  \<comment> \<open>detach, trigger and remove, which also takes the data away\<close>
  "destroyElement i s =
     (let s1 = upd_alert i (\<lambda>n. n\<lparr>y_inPage := False\<rparr>) s;
          s2 = s1\<lparr>h_log := h_log s1 @ [(ClosedAlert, i)]\<rparr>
      in upd_alert i (\<lambda>n. n\<lparr>y_data := False\<rparr>) s2)"

definition removeElement :: "nat \<Rightarrow> alertsys \<Rightarrow> alertsys" where
  "removeElement i s =
     (let s1 = upd_alert i (\<lambda>n. n\<lparr>y_classes := remove_name_from ''show'' (y_classes n)\<rparr>) s
      in if List.member (y_classes (h_nodes s1 ! i)) ''fade'' then s1\<lparr>h_waits := h_waits s1 @ [i]\<rparr> else destroyElement i s1)"

definition close_alert :: "((alertevent \<times> nat) list \<Rightarrow> nat \<Rightarrow> bool) \<Rightarrow> (string \<Rightarrow> nat list option) \<Rightarrow> nat option \<Rightarrow> nat option \<Rightarrow> alertsys \<Rightarrow> alertsys" where
  \<comment> \<open>called on the element of an instance, or on none for the clicks of the page, with the element to close;
    a root that is not found takes no events and is not removed\<close>
  "close_alert prevents query own given s =
     (case (case given of Some e \<Rightarrow> getRootElement query (h_nodes s ! e) | None \<Rightarrow> own) of
        None \<Rightarrow> s
      | Some r \<Rightarrow>
          (let s1 = s\<lparr>h_log := h_log s @ [(CloseAlert, r)]\<rparr>
           in if prevents (h_log s) r then s1 else removeElement r s1))"

definition end_alert :: "nat \<Rightarrow> alertsys \<Rightarrow> alertsys" where
  \<comment> \<open>one of the transitions under way ends\<close>
  "end_alert k s =
     (if k < length (h_waits s) then destroyElement (h_waits s ! k) (s\<lparr>h_waits := take k (h_waits s) @ drop (Suc k) (h_waits s)\<rparr>) else s)"

definition alert_call :: "((alertevent \<times> nat) list \<Rightarrow> nat \<Rightarrow> bool) \<Rightarrow> (string \<Rightarrow> nat list option) \<Rightarrow> nat \<Rightarrow> jsval \<Rightarrow> alertsys \<Rightarrow> alertsys" where
  \<comment> \<open>one element of $().alert(config)\<close>
  "alert_call prevents query i config s =
     (let s1 = upd_alert i (\<lambda>n. n\<lparr>y_data := True\<rparr>) s
      in case config of JStr name \<Rightarrow> if name = ''close'' then close_alert prevents query (Some i) (Some i) s1 else s1 | _ \<Rightarrow> s1)"

definition dispose_alert :: "nat \<Rightarrow> alertsys \<Rightarrow> alertsys" where
  "dispose_alert i s = upd_alert i (\<lambda>n. n\<lparr>y_data := False\<rparr>) s"

definition alert_click :: "((alertevent \<times> nat) list \<Rightarrow> nat \<Rightarrow> bool) \<Rightarrow> (string \<Rightarrow> nat list option) \<Rightarrow> nat \<Rightarrow> alertsys \<Rightarrow> alertsys" where
  \<comment> \<open>a click on an element with data-dismiss alert\<close>
  "alert_click prevents query i s = close_alert prevents query None (Some i) s"

section \<open>Groups of radio buttons\<close>

definition radio_button :: "string \<Rightarrow> bbutton \<Rightarrow> bool" where
  \<comment> \<open>a button with a radio input of the name that is not disabled, and shows whether it is checked\<close>
  "radio_button nm b \<longleftrightarrow>
     (case u_input b of
        Some n \<Rightarrow> n_type n = ''radio'' \<and> n_name n = nm \<and> \<not> n_disabledAttr n \<and> \<not> n_disabledClass n \<and> n_checked n = u_active b
      | None \<Rightarrow> False)"

definition radio_group :: "string \<Rightarrow> bgroup \<Rightarrow> bool" where
  "radio_group nm g \<longleftrightarrow> e_grouped g \<and> \<not> e_disabledAttr g \<and> \<not> e_disabledClass g \<and>
     (\<forall>i < length (e_buttons g). radio_button nm (e_buttons g ! i)) \<and>
     (\<forall>i < length (e_buttons g). \<forall>j < length (e_buttons g). u_active (e_buttons g ! i) \<and> u_active (e_buttons g ! j) \<longrightarrow> i = j)"

definition chosen_only :: "bgroup \<Rightarrow> nat \<Rightarrow> bool" where
  "chosen_only g j \<longleftrightarrow> (\<forall>i < length (e_buttons g). u_active (e_buttons g ! i) = (i = j))"

lemma inactive_same: "\<not> u_active b \<Longrightarrow> b\<lparr>u_active := False\<rparr> = b"
  by (cases b) simp

lemma first_active_cases:
  obtains (none) "first_active g = None" "\<And>i. i < length (e_buttons g) \<Longrightarrow> \<not> u_active (e_buttons g ! i)"
  | (some) j where "first_active g = Some j" "j < length (e_buttons g)" "u_active (e_buttons g ! j)"
proof (cases "filter (\<lambda>i. u_active (e_buttons g ! i)) [0..<length (e_buttons g)]")
  case Nil
  then show ?thesis using none by (auto simp: first_active_def filter_empty_conv)
next
  case (Cons j js)
  have "j \<in> {i \<in> set [0..<length (e_buttons g)]. u_active (e_buttons g ! i)}" unfolding set_filter [symmetric] Cons by simp
  then show ?thesis using some [of j] by (simp add: first_active_def Cons)
qed

text \<open>What the buttons of the group are once the active one is released and another one is checked.\<close>

lemma radio_toggle:
  assumes "radio_group nm g" "i < length (e_buttons g)"
  shows "radio_group nm (toggle_button i g) \<and> length (e_buttons (toggle_button i g)) = length (e_buttons g) \<and> chosen_only (toggle_button i g) i"
proof -
  let ?b = "e_buttons g"
  obtain n where n: "u_input (?b ! i) = Some n" "n_type n = ''radio''" "n_name n = nm" "\<not> n_disabledAttr n" "\<not> n_disabledClass n"
      "n_checked n = u_active (?b ! i)"
    using assms by (auto simp: radio_group_def radio_button_def split: option.splits)
  have g: "e_grouped g" "\<not> e_disabledAttr g" "\<not> e_disabledClass g" using assms(1) by (simp_all add: radio_group_def)
  have one: "a = b" if "a < length ?b" "b < length ?b" "u_active (?b ! a)" "u_active (?b ! b)" for a b
    using assms(1) that by (auto simp: radio_group_def)
  have rb: "radio_button nm (?b ! k)" if "k < length ?b" for k using assms(1) that by (simp add: radio_group_def)
  show ?thesis
  proof (cases "u_active (?b ! i)")
    case True
    then have "toggle_button i g = g\<lparr>e_focused := Some i\<rparr>" using n g by (simp add: toggle_button_def)
    moreover have "chosen_only g i" using one [OF _ assms(2) _ True] True by (auto simp: chosen_only_def)
    ultimately show ?thesis using assms(1) by (simp add: radio_group_def chosen_only_def)
  next
    case False
    define g1 where "g1 = (case first_active g of Some j \<Rightarrow> release j g | None \<Rightarrow> g)"
    have l1: "length (e_buttons g1) = length ?b" and r1: "e_grouped g1" "\<not> e_disabledAttr g1" "\<not> e_disabledClass g1"
      using g by (auto simp: g1_def release_def upd_button_def split: option.split)
    have b1: "e_buttons g1 ! k = (?b ! k)\<lparr>u_active := False\<rparr>" if k: "k < length ?b" for k
    proof (cases rule: first_active_cases [of g])
      case none
      then show ?thesis using k by (simp add: g1_def inactive_same)
    next
      case (some j)
      then show ?thesis using k one [OF k some(2)] by (cases "u_active (?b ! k)") (auto simp: inactive_same g1_def release_def upd_button_def nth_list_update)
    qed
    define g2 where "g2 = set_checked i n True g1"
    have b2: "e_buttons g2 ! k = (if k = i then (?b ! k)\<lparr>u_active := False, u_input := Some (n\<lparr>n_checked := True\<rparr>)\<rparr>
        else (?b ! k)\<lparr>u_active := False, u_input := map_option (\<lambda>m. m\<lparr>n_checked := False\<rparr>) (u_input (?b ! k))\<rparr>)" if k: "k < length ?b" for k
      using k l1 b1 [OF k] rb [OF k] n
      by (auto simp: g2_def set_checked_def upd_button_def nth_list_update uncheck_def radio_button_def split: option.splits)
    have l2: "length (e_buttons g2) = length ?b" using l1 by (simp add: g2_def set_checked_def upd_button_def)
    have r2: "e_grouped g2" "\<not> e_disabledAttr g2" "\<not> e_disabledClass g2" using r1 by (simp_all add: g2_def set_checked_def upd_button_def)
    have na: "\<not> u_active (e_buttons g1 ! i)" using b1 [OF assms(2)] by simp
    define g3 where "g3 = toggle_button i g"
    have g3: "g3 = flip_active i (g2\<lparr>e_changes := e_changes g2 @ [i], e_focused := Some i\<rparr>)"
      unfolding g3_def g2_def using n g r1 False na
      by (simp add: toggle_button_def Let_def input_disabled_def g1_def [symmetric])
    have l3: "length (e_buttons g3) = length ?b" using l2 by (simp add: g3 flip_active_def upd_button_def)
    have b3: "e_buttons g3 ! k = (if k = i then (?b ! k)\<lparr>u_active := True, u_input := Some (n\<lparr>n_checked := True\<rparr>)\<rparr>
        else (?b ! k)\<lparr>u_active := False, u_input := map_option (\<lambda>m. m\<lparr>n_checked := False\<rparr>) (u_input (?b ! k))\<rparr>)" if k: "k < length ?b" for k
      using b2 [OF k] b2 [OF assms(2)] l2 k by (simp add: g3 flip_active_def upd_button_def nth_list_update)
    have act: "u_active (e_buttons g3 ! k) = (k = i)" if k: "k < length ?b" for k using b3 [OF k] by simp
    have "radio_button nm (e_buttons g3 ! k)" if k: "k < length ?b" for k
      using b3 [OF k] rb [OF k] n by (auto simp: radio_button_def split: option.splits)
    moreover have "e_grouped g3" "\<not> e_disabledAttr g3" "\<not> e_disabledClass g3" using r2 by (simp_all add: g3 flip_active_def upd_button_def)
    ultimately show ?thesis unfolding g3_def [symmetric] using act l3 by (simp add: radio_group_def chosen_only_def)
  qed
qed

text \<open>A group of radio buttons is the choice of one of them: after any clicks on its buttons, the button clicked last is the
  only one that is active, and every input is checked just when its button is active.\<close>

theorem radio_group_is_choice:
  assumes "radio_group nm g" "clicks \<noteq> []" "\<And>i. i \<in> set clicks \<Longrightarrow> i < length (e_buttons g)"
  shows "radio_group nm (fold (\<lambda>i. button_click (Some i)) clicks g) \<and> chosen_only (fold (\<lambda>i. button_click (Some i)) clicks g) (last clicks)"
  using assms(2,1,3)
proof (induction clicks arbitrary: g rule: list_nonempty_induct)
  case (single i)
  then show ?case using radio_toggle [of nm g i] by (simp add: button_click_def button_call_def)
next
  case (cons i clicks)
  have r: "radio_group nm (button_click (Some i) g)" "length (e_buttons (button_click (Some i) g)) = length (e_buttons g)"
    using radio_toggle [of nm g i] cons.prems by (simp_all add: button_click_def button_call_def)
  then show ?case using cons.IH [OF r(1)] cons.prems(2) cons.hyps by auto
qed

definition sample_radio :: "bool \<Rightarrow> bool \<Rightarrow> bbutton" where
  "sample_radio on disabled =
     \<lparr>u_active = on, u_focus = False, u_pressed = None,
      u_input = Some \<lparr>n_type = ''radio'', n_name = ''size'', n_checked = on, n_disabledAttr = disabled, n_disabledClass = False\<rparr>\<rparr>"

definition sample_group :: "bool \<Rightarrow> bgroup" where
  "sample_group disabled =
     \<lparr>e_grouped = True, e_disabledAttr = False, e_disabledClass = False, e_buttons = [sample_radio True False, sample_radio False False, sample_radio False disabled],
      e_changes = [], e_focused = None\<rparr>"

theorem radio_group_is_choice_witness: "chosen_only (fold (\<lambda>i. button_click (Some i)) [2, 0, 1] (sample_group False)) 1"
proof -
  have r: "radio_group ''size'' (sample_group False)"
    by (simp add: radio_group_def sample_group_def sample_radio_def radio_button_def less_Suc_eq)
  have l: "length (e_buttons (sample_group False)) = 3" by code_simp
  have c: "\<And>i. i \<in> set [2, 0, 1] \<Longrightarrow> i < length (e_buttons (sample_group False))" by (auto simp: l)
  have ne: "[2, 0, 1 :: nat] \<noteq> []" by simp
  have e: "last [2, 0, 1 :: nat] = 1" by simp
  from radio_group_is_choice [OF r ne c] show ?thesis unfolding e by (rule conjunct2)
qed

text \<open>A click on a disabled radio button takes the class active from the chosen button, before it finds that it is disabled:
  the input that is checked stays so, but no button shows it.\<close>

theorem disabled_radio_hides_choice:
  "(let g = button_click (Some 2) (sample_group True)
    in map u_active (e_buttons g) = [False, False, False] \<and> map (map_option n_checked \<circ> u_input) (e_buttons g) = [Some True, Some False, Some False]
       \<and> e_changes g = [])"
  by code_simp

section \<open>Closing an alert\<close>

definition alerts_in_page :: "alertsys \<Rightarrow> nat set" where
  "alerts_in_page s = {i. i < length (h_nodes s) \<and> y_inPage (h_nodes s ! i)}"

lemma destroy_leaves: "alerts_in_page (destroyElement i s) = alerts_in_page s - {i}"
  by (cases "i < length (h_nodes s)")
    (auto simp: alerts_in_page_def destroyElement_def upd_alert_def Let_def nth_list_update list_update_beyond)

text \<open>Closing takes just the element from the page that the click names, at once or when it has faded out.\<close>

lemma close_alert_leaves:
  assumes "getRootElement query (h_nodes s ! i) = Some r" "\<not> prevents (h_log s) r"
    and "s' = alert_click prevents query i s"
  shows "if h_waits s' = h_waits s then alerts_in_page s' = alerts_in_page s - {r}
    else alerts_in_page s' = alerts_in_page s \<and> alerts_in_page (end_alert (length (h_waits s)) s') = alerts_in_page s - {r}"
proof -
  let ?s = "upd_alert r (\<lambda>n. n\<lparr>y_classes := remove_name_from ''show'' (y_classes n)\<rparr>) (s\<lparr>h_log := h_log s @ [(CloseAlert, r)]\<rparr>)"
  have p: "alerts_in_page ?s = alerts_in_page s"
    by (cases "r < length (h_nodes s)") (auto simp: alerts_in_page_def upd_alert_def nth_list_update list_update_beyond)
  have w: "h_waits ?s = h_waits s" "h_waits (destroyElement r ?s) = h_waits s" by (simp_all add: upd_alert_def destroyElement_def Let_def)
  have s': "s' = (if List.member (y_classes (h_nodes ?s ! r)) ''fade'' then ?s\<lparr>h_waits := h_waits ?s @ [r]\<rparr> else destroyElement r ?s)"
    using assms by (simp add: alert_click_def close_alert_def removeElement_def Let_def)
  have u: "alerts_in_page (x\<lparr>h_waits := q\<rparr>) = alerts_in_page x" for x q by (simp add: alerts_in_page_def)
  show ?thesis
  proof (cases "List.member (y_classes (h_nodes ?s ! r)) ''fade''")
    case True
    then have e: "s' = ?s\<lparr>h_waits := h_waits s @ [r]\<rparr>" using s' w by simp
    then show ?thesis using p by (simp add: u end_alert_def destroy_leaves)
  next
    case False
    then show ?thesis using s' w p by (simp add: destroy_leaves)
  qed
qed

end
