(* ===== verification/PopperOffsets.thy ===== *)
theory PopperOffsets
  imports Prelude
begin

text \<open>
  Popper, the part of Bootstrap that places menus and tooltips: rectangles, the names of placements, and the distances
  that a page gives as text.  The lengths are exact rationals.
\<close>

section \<open>Rectangles and placements\<close>

record rect =
  r_left :: rat
  r_top :: rat
  r_width :: rat
  r_height :: rat
  r_right :: rat
  r_bottom :: rat

definition getClientRect :: "rect \<Rightarrow> rect" where
  "getClientRect r = r\<lparr>r_right := r_left r + r_width r, r_bottom := r_top r + r_height r\<rparr>"

definition side :: "string \<Rightarrow> rect \<Rightarrow> rat" where
  \<comment> \<open>the property of a rectangle with this name\<close>
  "side k r =
     (if k = ''left'' then r_left r else if k = ''top'' then r_top r else if k = ''width'' then r_width r
      else if k = ''height'' then r_height r else if k = ''right'' then r_right r else r_bottom r)"

definition base_of :: "string \<Rightarrow> string" where
  "base_of placement = hd (split_on (\<lambda>c. c = CHR ''-'') placement)"

definition variation_of :: "string \<Rightarrow> string" where
  \<comment> \<open>empty where there is none\<close>
  "variation_of placement = (case split_on (\<lambda>c. c = CHR ''-'') placement of b # v # vs \<Rightarrow> v | _ \<Rightarrow> [])"

definition with_variation :: "string \<Rightarrow> string \<Rightarrow> string" where
  "with_variation base v = base @ (if v = [] then [] else CHR ''-'' # v)"

definition starts :: "string \<Rightarrow> string \<Rightarrow> bool" where
  "starts p s \<longleftrightarrow> take (length p) s = p"

function getOppositePlacement :: "string \<Rightarrow> string" where
  \<comment> \<open>every name of a side is replaced by its opposite\<close>
  "getOppositePlacement s =
     (case s of [] \<Rightarrow> []
      | c # cs \<Rightarrow>
          (if starts ''left'' s then ''right'' @ getOppositePlacement (drop 4 s)
           else if starts ''right'' s then ''left'' @ getOppositePlacement (drop 5 s)
           else if starts ''bottom'' s then ''top'' @ getOppositePlacement (drop 6 s)
           else if starts ''top'' s then ''bottom'' @ getOppositePlacement (drop 3 s)
           else c # getOppositePlacement cs))"
  by auto

termination
  by (relation "measure length") auto

declare getOppositePlacement.simps [simp del]

definition getOppositeVariation :: "string \<Rightarrow> string" where
  "getOppositeVariation v = (if v = ''end'' then ''start'' else if v = ''start'' then ''end'' else v)"

definition placement_names :: "string list" where
  "placement_names = [''auto-start'', ''auto'', ''auto-end'', ''top-start'', ''top'', ''top-end'', ''right-start'', ''right'', ''right-end'',
     ''bottom-end'', ''bottom'', ''bottom-start'', ''left-end'', ''left'', ''left-start'']"

definition validPlacements :: "string list" where
  "validPlacements = drop 3 placement_names"

definition clockwise :: "string \<Rightarrow> bool \<Rightarrow> string list" where
  \<comment> \<open>the index is -1 where the placement is not found\<close>
  "clockwise placement counter =
     (let i = length (takeWhile (\<lambda>p. p \<noteq> placement) validPlacements);
          arr = (if i < length validPlacements then drop (Suc i) validPlacements @ take i validPlacements
                 else validPlacements @ take (length validPlacements - 1) validPlacements)
      in if counter then rev arr else arr)"

definition horizontal :: "string \<Rightarrow> bool" where
  "horizontal base \<longleftrightarrow> List.member [''right'', ''left''] base"

definition vertical :: "string \<Rightarrow> bool" where
  "vertical base \<longleftrightarrow> List.member [''top'', ''bottom''] base"

section \<open>The offsets of the popper\<close>

definition getPopperOffsets :: "rat \<times> rat \<Rightarrow> rect \<Rightarrow> string \<Rightarrow> rect \<Rightarrow> rect" where
  \<comment> \<open>the outer size of the popper, the reference and the placement; what is set anew in a rectangle: its right and
    bottom sides are left as they are\<close>
  "getPopperOffsets outer ref placement old =
     (let b = base_of placement;
          w = fst outer; h = snd outer;
          r = old\<lparr>r_width := w, r_height := h\<rparr>
      in if horizontal b
         then (let y = r_top ref + r_height ref / 2 - h / 2
               in if b = ''left'' then r\<lparr>r_top := y, r_left := r_left ref - w\<rparr>
                  else r\<lparr>r_top := y, r_left := side (getOppositePlacement ''left'') ref\<rparr>)
         else (let x = r_left ref + r_width ref / 2 - w / 2
               in if b = ''top'' then r\<lparr>r_left := x, r_top := r_top ref - h\<rparr>
                  else r\<lparr>r_left := x, r_top := side (getOppositePlacement ''top'') ref\<rparr>))"

section \<open>Distances\<close>

datatype ovalue = OText string | ONum rat

definition op_sign :: "char \<Rightarrow> bool" where
  "op_sign c \<longleftrightarrow> c = CHR ''+'' \<or> c = CHR ''-''"

function split_signs :: "string \<Rightarrow> string list" where
  \<comment> \<open>split(/([+-])/): the signs are items of their own\<close>
  "split_signs s =
     (let a = takeWhile (\<lambda>c. \<not> op_sign c) s; b = dropWhile (\<lambda>c. \<not> op_sign c) s
      in case b of [] \<Rightarrow> [a] | c # cs \<Rightarrow> a # [c] # split_signs cs)"
  by auto

termination
proof (relation "measure length")
  fix s a b c and cs :: string
  assume "b = dropWhile (\<lambda>c. \<not> op_sign c) s" "b = c # cs"
  then have "length (c # cs) \<le> length s" by (metis length_dropWhile_le)
  then show "(cs, s) \<in> measure length" by simp
qed simp

declare split_signs.simps [simp del]

definition separates :: "char \<Rightarrow> bool" where
  "separates c \<longleftrightarrow> c = CHR '','' \<or> is_space c"

definition first_part :: "string \<Rightarrow> string" where
  "first_part s = takeWhile (\<lambda>c. \<not> separates c) s"

definition second_part :: "string \<Rightarrow> string" where
  \<comment> \<open>the second item of split(/ws*,ws*|ws+/)\<close>
  "second_part s =
     (let r = dropWhile is_space (dropWhile (\<lambda>c. \<not> separates c) s)
      in takeWhile (\<lambda>c. \<not> separates c) (case r of c # cs \<Rightarrow> if c = CHR '','' then dropWhile is_space cs else r | [] \<Rightarrow> []))"

fun merge_signs :: "string list \<Rightarrow> bool \<Rightarrow> string list \<Rightarrow> string list" where
  \<comment> \<open>the reduce: what is gathered so far, mergeWithPrevious, and the items left\<close>
  "merge_signs acc m [] = acc"
| "merge_signs acc m (b # bs) =
     (if acc \<noteq> [] \<and> last acc = [] \<and> (b = ''+'' \<or> b = ''-'') then merge_signs (butlast acc @ [b]) True bs
      else if m then merge_signs (butlast acc @ [last acc @ b]) False bs
      else merge_signs (acc @ [b]) m bs)"

definition number_prefix :: "string \<Rightarrow> string \<times> string" where
  \<comment> \<open>a sign, digits, a point and digits, each where it is there, and the rest, which is the unit\<close>
  "number_prefix s =
     (let sign = (case s of c # cs \<Rightarrow> if op_sign c then [c] else [] | [] \<Rightarrow> []);
          r1 = drop (length sign) s;
          d1 = takeWhile is_digit r1; r2 = dropWhile is_digit r1;
          dot = (case r2 of c # cs \<Rightarrow> if c = CHR ''.'' then [c] else [] | [] \<Rightarrow> []);
          r3 = drop (length dot) r2;
          d2 = takeWhile is_digit r3
      in (sign @ d1 @ dot @ d2, dropWhile is_digit r3))"

definition toValue :: "rat \<times> rat \<Rightarrow> rect \<Rightarrow> rect \<Rightarrow> string \<Rightarrow> string \<Rightarrow> ovalue" where
  \<comment> \<open>the size of the win, the rectangles of the popper and of the reference, the measurement and the text\<close>
  "toValue win popper ref measurement s =
     (case number_prefix s of
        (n, u) \<Rightarrow>
          (case to_number n of
             Fin value \<Rightarrow>
               (if value = 0 then OText s
                else if take 1 u = ''%'' then ONum (side measurement (getClientRect (if u = ''%p'' then popper else ref)) / 100 * value)
                else if u = ''vh'' then ONum (snd win / 100 * value)
                else if u = ''vw'' then ONum (fst win / 100 * value)
                else ONum value)
           | _ \<Rightarrow> OText s))"

definition numeric_value :: "ovalue \<Rightarrow> rat option" where
  \<comment> \<open>isNumeric and its number; a text is a number to parseFloat as well where it is one that is not blank\<close>
  "numeric_value v =
     (case v of
        ONum r \<Rightarrow> Some r
      | OText s \<Rightarrow> if trim s = [] then None else (case to_number s of Fin r \<Rightarrow> Some r | _ \<Rightarrow> None))"

fun sum_op :: "bool \<Rightarrow> ovalue list \<Rightarrow> rat" where
  \<comment> \<open>whether the item before was a minus, and the items\<close>
  "sum_op neg [] = 0"
| "sum_op neg (v # vs) = (case numeric_value v of Some r \<Rightarrow> if neg then - r else r | None \<Rightarrow> 0) + sum_op (v = OText ''-'') vs"

definition has_divider :: "string \<Rightarrow> bool" where
  "has_divider frag \<longleftrightarrow> list_ex separates frag"

definition split_pair :: "string list \<Rightarrow> string list list" where
  "split_pair frags =
     (let d = length (takeWhile (\<lambda>f. \<not> has_divider f) frags)
      in if d < length frags then [take d frags @ [first_part (frags ! d)], second_part (frags ! d) # drop (Suc d) frags] else [frags])"

definition parseOffset :: "rat \<times> rat \<Rightarrow> rect \<Rightarrow> rect \<Rightarrow> string \<Rightarrow> string \<Rightarrow> rat \<times> rat" where
  "parseOffset win popper ref base txt =
     (let useHeight = horizontal base;
          ops = split_pair (map trim (split_signs txt));
          total = (\<lambda>i op. sum_op False (map (toValue win popper ref (if (if i = 1 then \<not> useHeight else useHeight) then ''height'' else ''width'')) (merge_signs [] False op)))
      in case ops of a # b # _ \<Rightarrow> (total 0 a, total (1 :: nat) b) | [a] \<Rightarrow> (total 0 a, 0) | [] \<Rightarrow> (0, 0))"

definition offset_pair :: "rat \<times> rat \<Rightarrow> rect \<Rightarrow> rect \<Rightarrow> string \<Rightarrow> ovalue \<Rightarrow> rat \<times> rat" where
  "offset_pair win popper ref base v =
     (case v of
        ONum r \<Rightarrow> (r, 0)
      | OText s \<Rightarrow> (case to_number s of Fin r \<Rightarrow> (r, 0) | _ \<Rightarrow> parseOffset win popper ref base s))"

end
