(* ===== verification/PopperModifiers.thy ===== *)
theory PopperModifiers
  imports PopperOffsets
begin

text \<open>
  The modifiers of Popper, which move the popper step by step, and one update.  What the page looks like at an update
  is an argument: the sizes of the popper, the rectangle of the reference, the boundaries by their names, the arrow,
  margins and borders, and the parent the offsets count from.
\<close>

section \<open>The page, the options and the data\<close>

record ppage =
  v_outer :: "rat \<times> rat" \<comment> \<open>getOuterSizes of the popper\<close>
  v_client :: "rat \<times> rat" \<comment> \<open>clientWidth and clientHeight of the popper\<close>
  v_reference :: rect
  v_bounds :: "string \<Rightarrow> rect" \<comment> \<open>boundaries without paddings; preventOverflow measures them with the position of the popper reset\<close>
  v_window :: "rat \<times> rat"
  v_arrow :: "(rat \<times> rat) option" \<comment> \<open>the outer size of the arrow, if it is found in the popper\<close>
  v_margin :: "string \<Rightarrow> rat" \<comment> \<open>margin of the popper on a side\<close>
  v_border :: "string \<Rightarrow> rat"
  v_parentSize :: "rat \<times> rat" \<comment> \<open>of the offset parent: its client size for HTML, else its rectangle\<close>
  v_transform :: "string option" \<comment> \<open>the name of the property transform in this browser\<close>
  v_rounds :: bool \<comment> \<open>devicePixelRatio is less than 2, or the browser is not Firefox\<close>

datatype pmod = PShift | POffset | PPreventOverflow | PKeepTogether | PArrow | PFlip | PInner | PHide | PComputeStyle | PApplyStyle

record pmodifier =
  m_name :: pmod
  m_order :: nat
  m_enabled :: bool

datatype padding = PNumber rat | PSides rat rat rat rat \<comment> \<open>left, top, right and bottom\<close>

datatype behavior = Opposite | Clockwise | Counterclockwise | Steps "string list"

record poptions =
  o_placement :: string
  o_positionFixed :: bool
  o_modifiers :: "pmodifier list" \<comment> \<open>in their order\<close>
  o_offset :: ovalue
  o_priority :: "string list"
  o_overflowPadding :: padding
  o_overflowBoundaries :: string
  o_escape :: bool \<comment> \<open>escapeWithReference\<close>
  o_behavior :: behavior
  o_flipVariations :: bool
  o_flipPadding :: padding
  o_flipBoundaries :: string
  o_gpu :: bool \<comment> \<open>gpuAcceleration of computeStyle\<close>
  o_legacyGpu :: "bool option" \<comment> \<open>gpuAcceleration of applyStyle\<close>
  o_x :: string
  o_y :: string

datatype pstyle = SText string | SNum rat | STranslate rat rat

record pdata =
  d_placement :: string
  d_originalPlacement :: string
  d_flipped :: bool
  d_popper :: rect
  d_reference :: rect
  d_arrow :: "(string \<times> rat) option" \<comment> \<open>the side of the arrow and its value\<close>
  d_boundaries :: "rect option" \<comment> \<open>the boundaries preventOverflow leaves in its options\<close>
  d_hide :: "bool option"
  d_styles :: "(string \<times> pstyle) list"
  d_attributes :: "(string \<times> string option) list" \<comment> \<open>None for an attribute to remove\<close>
  d_arrowStyles :: "(string \<times> pstyle) list"
  d_applied :: bool \<comment> \<open>styles and attributes were written to the page\<close>

section \<open>Boundaries and placements\<close>

definition add_padding :: "padding \<Rightarrow> rect \<Rightarrow> rect" where
  "add_padding p r =
     (case p of
        PNumber n \<Rightarrow> r\<lparr>r_left := r_left r + n, r_top := r_top r + n, r_right := r_right r - n, r_bottom := r_bottom r - n\<rparr>
      | PSides a b c d \<Rightarrow> r\<lparr>r_left := r_left r + a, r_top := r_top r + b, r_right := r_right r - c, r_bottom := r_bottom r - d\<rparr>)"

definition contains_auto :: "string \<Rightarrow> bool" where
  "contains_auto p \<longleftrightarrow> list_ex (\<lambda>i. starts ''auto'' (drop i p)) [0..<length p]"

definition areas :: "rect \<Rightarrow> rect \<Rightarrow> (string \<times> rat \<times> rat) list" where
  \<comment> \<open>the side, and the width and height there are\<close>
  "areas bounds ref =
     [(''top'', r_width bounds, r_top ref - r_top bounds), (''right'', r_right bounds - r_right ref, r_height bounds),
      (''bottom'', r_width bounds, r_bottom bounds - r_bottom ref), (''left'', r_left ref - r_left bounds, r_height bounds)]"

definition sorted_areas :: "rect \<Rightarrow> rect \<Rightarrow> (string \<times> rat \<times> rat) list" where
  \<comment> \<open>the largest first\<close>
  "sorted_areas bounds ref = sort_key (\<lambda>a. - (fst (snd a) * snd (snd a))) (areas bounds ref)"

definition fits :: "rat \<times> rat \<Rightarrow> string \<times> rat \<times> rat \<Rightarrow> bool" where
  "fits client a \<longleftrightarrow> fst client \<le> fst (snd a) \<and> snd client \<le> snd (snd a)"

definition computeAutoPlacement :: "ppage \<Rightarrow> poptions \<Rightarrow> string" where
  "computeAutoPlacement v q =
     (if \<not> contains_auto (o_placement q) then o_placement q
      else (let bounds = add_padding (o_flipPadding q) (v_bounds v (o_flipBoundaries q));
                sorted = sorted_areas bounds (v_reference v);
                filtered = filter (fits (v_client v)) sorted
            in with_variation (if filtered \<noteq> [] then fst (hd filtered) else fst (hd sorted)) (variation_of (o_placement q))))"

section \<open>The modifiers\<close>

definition isModifierEnabled :: "pmodifier list \<Rightarrow> pmod \<Rightarrow> bool" where
  "isModifierEnabled ms n \<longleftrightarrow> list_ex (\<lambda>m. m_enabled m \<and> m_name m = n) ms"

definition isModifierRequired :: "pmodifier list \<Rightarrow> pmod \<Rightarrow> pmod \<Rightarrow> bool" where
  "isModifierRequired ms requesting requested =
     (case find (\<lambda>m. m_name m = requesting) ms of
        Some r \<Rightarrow> list_ex (\<lambda>m. m_name m = requested \<and> m_enabled m \<and> m_order m < m_order r) ms
      | None \<Rightarrow> False)"

definition set_side :: "string \<Rightarrow> rat \<Rightarrow> rect \<Rightarrow> rect" where
  "set_side k x r = (if k = ''left'' then r\<lparr>r_left := x\<rparr> else r\<lparr>r_top := x\<rparr>)"

definition shift_rect :: "string \<Rightarrow> rect \<Rightarrow> rect \<Rightarrow> rect" where
  "shift_rect placement ref p =
     (let b = base_of placement; var = variation_of placement;
          k = (if vertical b then ''left'' else ''top''); m = (if vertical b then ''width'' else ''height'')
      in if var = ''start'' then set_side k (side k ref) p
         else if var = ''end'' then set_side k (side k ref + side m ref - side m p) p
         else p)"

definition shift_mod :: "pdata \<Rightarrow> pdata" where
  "shift_mod d = d\<lparr>d_popper := shift_rect (d_placement d) (d_reference d) (d_popper d)\<rparr>"

definition offset_mod :: "ppage \<Rightarrow> poptions \<Rightarrow> pdata \<Rightarrow> pdata" where
  "offset_mod v q d =
     (let b = base_of (d_placement d); p = d_popper d;
          f = offset_pair (v_window v) p (d_reference d) b (o_offset q)
      in if b = ''left'' then d\<lparr>d_popper := p\<lparr>r_top := r_top p + fst f, r_left := r_left p - snd f\<rparr>\<rparr>
         else if b = ''right'' then d\<lparr>d_popper := p\<lparr>r_top := r_top p + fst f, r_left := r_left p + snd f\<rparr>\<rparr>
         else if b = ''top'' then d\<lparr>d_popper := p\<lparr>r_left := r_left p + fst f, r_top := r_top p - snd f\<rparr>\<rparr>
         else if b = ''bottom'' then d\<lparr>d_popper := p\<lparr>r_left := r_left p + fst f, r_top := r_top p + snd f\<rparr>\<rparr>
         else d)"

definition overflow_side :: "bool \<Rightarrow> rect \<Rightarrow> string \<Rightarrow> rect \<Rightarrow> rect" where
  \<comment> \<open>check: the right and bottom sides of the popper are those of before\<close>
  "overflow_side escape bounds k p =
     (if k = ''left'' \<or> k = ''top''
      then set_side k (if side k p < side k bounds \<and> \<not> escape then max (side k p) (side k bounds) else side k p) p
      else (let main = (if k = ''right'' then ''left'' else ''top'')
            in set_side main
                 (if side k p > side k bounds \<and> \<not> escape
                  then min (side main p) (side k bounds - (if k = ''right'' then r_width p else r_height p)) else side main p) p))"

definition preventOverflow :: "ppage \<Rightarrow> poptions \<Rightarrow> pdata \<Rightarrow> pdata" where
  "preventOverflow v q d =
     (let bounds = add_padding (o_overflowPadding q) (v_bounds v (o_overflowBoundaries q))
      in d\<lparr>d_boundaries := Some bounds, d_popper := fold (overflow_side (o_escape q) bounds) (o_priority q) (d_popper d)\<rparr>)"

definition floored :: "rat \<Rightarrow> rat" where
  "floored x = of_int \<lfloor>x\<rfloor>"

definition keepTogether :: "pdata \<Rightarrow> pdata" where
  "keepTogether d =
     (let b = base_of (d_placement d); ref = d_reference d; p = d_popper d;
          k = (if vertical b then ''right'' else ''bottom''); op = (if vertical b then ''left'' else ''top'');
          m = (if vertical b then ''width'' else ''height'');
          p1 = (if side k p < floored (side op ref) then set_side op (floored (side op ref) - side m p) p else p);
          p2 = (if side op p1 > floored (side k ref) then set_side op (floored (side k ref)) p1 else p1)
      in d\<lparr>d_popper := p2\<rparr>)"

definition rounded :: "rat \<Rightarrow> rat" where
  \<comment> \<open>Math.round\<close>
  "rounded x = of_int \<lfloor>x + 1 / 2\<rfloor>"

definition arrow_shift :: "string \<Rightarrow> string \<Rightarrow> rat \<Rightarrow> rect \<Rightarrow> rect \<Rightarrow> rect" where
  \<comment> \<open>the popper keeps enough pixels in common with its reference for the arrow\<close>
  "arrow_shift k op a ref p =
     (let p1 = (if side op ref - a < side k p then set_side k (side k p - (side k p - (side op ref - a))) p else p)
      in if side k ref + a > side op p1 then set_side k (side k p1 + (side k ref + a - side op p1)) p1 else p1)"

definition arrow_mod :: "ppage \<Rightarrow> poptions \<Rightarrow> pdata \<Rightarrow> pdata" where
  "arrow_mod v q d =
     (if \<not> isModifierRequired (o_modifiers q) PArrow PKeepTogether then d
      else (case v_arrow v of
              None \<Rightarrow> d
            | Some outer \<Rightarrow>
                (let b = base_of (d_placement d); ref = d_reference d; p = d_popper d;
                     len = (if horizontal b then ''height'' else ''width''); k = (if horizontal b then ''top'' else ''left'');
                     op = (if horizontal b then ''bottom'' else ''right'');
                     a = (if horizontal b then snd outer else fst outer);
                     p2 = arrow_shift k op a ref p;
                     p3 = getClientRect p2;
                     center = side k ref + side len ref / 2 - a / 2;
                     value = center - side k p3 - v_margin v k - v_border v k
                 in d\<lparr>d_popper := p3, d_arrow := Some (k, rounded (max (min (side len p2 - a) value) 0))\<rparr>)))"

definition hide_mod :: "poptions \<Rightarrow> pdata \<Rightarrow> pdata" where
  "hide_mod q d =
     (if \<not> isModifierRequired (o_modifiers q) PHide PPreventOverflow then d
      else (case d_boundaries d of
              None \<Rightarrow> d
            | Some bound \<Rightarrow>
                (let ref = d_reference d
                 in if r_bottom ref < r_top bound \<or> r_left ref > r_right bound \<or> r_top ref > r_bottom bound \<or> r_right ref < r_left bound
                    then (if d_hide d = Some True then d
                          else d\<lparr>d_hide := Some True, d_attributes := d_attributes d @ [(''x-out-of-boundaries'', Some [])]\<rparr>)
                    else (if d_hide d = Some False then d
                          else d\<lparr>d_hide := Some False, d_attributes := d_attributes d @ [(''x-out-of-boundaries'', None)]\<rparr>))))"

definition inner_mod :: "pdata \<Rightarrow> pdata" where
  "inner_mod d =
     (let b = base_of (d_placement d); p = d_popper d;
          k = (if horizontal b then ''left'' else ''top'');
          sub = (if b = ''top'' \<or> b = ''left'' then 0 else side (if horizontal b then ''width'' else ''height'') p)
      in d\<lparr>d_placement := getOppositePlacement (d_placement d), d_popper := getClientRect (set_side k (side b (d_reference d) - sub) p)\<rparr>)"

definition js_parity :: "rat \<Rightarrow> int" where
  \<comment> \<open>the remainder of an integer by 2, with its sign\<close>
  "js_parity x = (if 0 \<le> x then \<lfloor>x\<rfloor> mod 2 else - ((- \<lfloor>x\<rfloor>) mod 2))"

definition getRoundedOffsets :: "bool \<Rightarrow> pdata \<Rightarrow> rat \<times> rat \<times> rat \<times> rat" where
  \<comment> \<open>left, top, bottom and right\<close>
  "getRoundedOffsets shouldRound d =
     (let p = d_popper d;
          rw = rounded (r_width (d_reference d)); pw = rounded (r_width p);
          isVertical = (d_placement d = ''left'' \<or> d_placement d = ''right'');
          isVariation = List.member (d_placement d) (CHR ''-'');
          sameParity = (js_parity rw = js_parity pw);
          bothOdd = (js_parity rw = 1 \<and> js_parity pw = 1);
          hor = (if \<not> shouldRound then (\<lambda>x. x) else if isVertical \<or> isVariation \<or> sameParity then rounded else floored);
          ver = (if \<not> shouldRound then (\<lambda>x. x) else rounded)
      in (hor (if bothOdd \<and> \<not> isVariation \<and> shouldRound then r_left p - 1 else r_left p), ver (r_top p), ver (r_bottom p), hor (r_right p)))"

definition computeStyle :: "ppage \<Rightarrow> poptions \<Rightarrow> pdata \<Rightarrow> pdata" where
  "computeStyle v q d =
     (case getRoundedOffsets (v_rounds v) d of
        (left, y, bottom, right) \<Rightarrow>
          (let gpu = (case o_legacyGpu q of Some g \<Rightarrow> g | None \<Rightarrow> o_gpu q);
               sideA = (if o_x q = ''bottom'' then ''top'' else ''bottom''); sideB = (if o_y q = ''right'' then ''left'' else ''right'');
               t = (if sideA = ''bottom'' then - snd (v_parentSize v) + bottom else y);
               l = (if sideB = ''right'' then - fst (v_parentSize v) + right else left);
               position = (''position'', SText (if o_positionFixed q then ''fixed'' else ''absolute''));
               styles = (case (gpu, v_transform v) of
                  (True, Some tr) \<Rightarrow> [position, (tr, STranslate l t), (sideA, SNum 0), (sideB, SNum 0), (''willChange'', SText ''transform'')]
                | _ \<Rightarrow> [position, (sideA, SNum (if sideA = ''bottom'' then - t else t)), (sideB, SNum (if sideB = ''right'' then - l else l)),
                        (''willChange'', SText (sideA @ '', '' @ sideB))])
           in d\<lparr>d_attributes := (''x-placement'', Some (d_placement d)) # d_attributes d, d_styles := styles,
                d_arrowStyles := (case d_arrow d of
                   Some (k, x) \<Rightarrow> [(k, SNum x), (if k = ''top'' then ''left'' else ''top'', SText [])] | None \<Rightarrow> [])\<rparr>))"

definition refresh_rects :: "pdata \<Rightarrow> pdata" where
  \<comment> \<open>done before each modifier\<close>
  "refresh_rects d = d\<lparr>d_popper := getClientRect (d_popper d), d_reference := getClientRect (d_reference d)\<rparr>"

definition simple_mod :: "ppage \<Rightarrow> poptions \<Rightarrow> pmod \<Rightarrow> pdata \<Rightarrow> pdata" where
  \<comment> \<open>the modifiers but for flip, which runs those before it\<close>
  "simple_mod v q n d =
     (case n of
        PShift \<Rightarrow> shift_mod d
      | POffset \<Rightarrow> offset_mod v q d
      | PPreventOverflow \<Rightarrow> preventOverflow v q d
      | PKeepTogether \<Rightarrow> keepTogether d
      | PArrow \<Rightarrow> arrow_mod v q d
      | PFlip \<Rightarrow> d
      | PInner \<Rightarrow> inner_mod d
      | PHide \<Rightarrow> hide_mod q d
      | PComputeStyle \<Rightarrow> computeStyle v q d
      | PApplyStyle \<Rightarrow> d\<lparr>d_applied := True\<rparr>)"

definition run_simple :: "ppage \<Rightarrow> poptions \<Rightarrow> pmodifier list \<Rightarrow> pdata \<Rightarrow> pdata" where
  "run_simple v q ms d = fold (\<lambda>m d. if m_enabled m then simple_mod v q (m_name m) (refresh_rects d) else d) ms d"

definition before_flip :: "pmodifier list \<Rightarrow> pmodifier list" where
  \<comment> \<open>slice(0, findIndex(modifiers, 'name', 'flip'))\<close>
  "before_flip ms = (if list_ex (\<lambda>m. m_name m = PFlip) ms then takeWhile (\<lambda>m. m_name m \<noteq> PFlip) ms else butlast ms)"

section \<open>Flipping\<close>

definition flip_order :: "behavior \<Rightarrow> string \<Rightarrow> string list" where
  "flip_order b placement =
     (case b of
        Opposite \<Rightarrow> [placement, getOppositePlacement placement]
      | Clockwise \<Rightarrow> clockwise placement False
      | Counterclockwise \<Rightarrow> clockwise placement True
      | Steps xs \<Rightarrow> xs)"

definition overlaps_ref :: "string \<Rightarrow> rect \<Rightarrow> rect \<Rightarrow> bool" where
  "overlaps_ref b p ref \<longleftrightarrow>
     (b = ''left'' \<and> \<lfloor>r_right p\<rfloor> > \<lfloor>r_left ref\<rfloor>) \<or> (b = ''right'' \<and> \<lfloor>r_left p\<rfloor> < \<lfloor>r_right ref\<rfloor>) \<or>
     (b = ''top'' \<and> \<lfloor>r_bottom p\<rfloor> > \<lfloor>r_top ref\<rfloor>) \<or> (b = ''bottom'' \<and> \<lfloor>r_top p\<rfloor> < \<lfloor>r_bottom ref\<rfloor>)"

definition overflows :: "string \<Rightarrow> rect \<Rightarrow> rect \<Rightarrow> bool" where
  \<comment> \<open>the popper is beyond the boundaries on a side\<close>
  "overflows b p bounds \<longleftrightarrow>
     (b = ''left'' \<and> \<lfloor>r_left p\<rfloor> < \<lfloor>r_left bounds\<rfloor>) \<or> (b = ''right'' \<and> \<lfloor>r_right p\<rfloor> > \<lfloor>r_right bounds\<rfloor>) \<or>
     (b = ''top'' \<and> \<lfloor>r_top p\<rfloor> < \<lfloor>r_top bounds\<rfloor>) \<or> (b = ''bottom'' \<and> \<lfloor>r_bottom p\<rfloor> > \<lfloor>r_bottom bounds\<rfloor>)"

definition flips_variation :: "string \<Rightarrow> string \<Rightarrow> rect \<Rightarrow> rect \<Rightarrow> bool" where
  "flips_variation b var p bounds \<longleftrightarrow>
     (vertical b \<and> var = ''start'' \<and> overflows ''left'' p bounds) \<or> (vertical b \<and> var = ''end'' \<and> overflows ''right'' p bounds) \<or>
     (\<not> vertical b \<and> var = ''start'' \<and> overflows ''top'' p bounds) \<or> (\<not> vertical b \<and> var = ''end'' \<and> overflows ''bottom'' p bounds)"

definition flip_step :: "ppage \<Rightarrow> poptions \<Rightarrow> rect \<Rightarrow> string list \<Rightarrow> nat \<times> string \<Rightarrow> string \<times> string \<times> pdata \<Rightarrow> string \<times> string \<times> pdata" where
  \<comment> \<open>one round of the loop: the placement and the variation it keeps, and the data\<close>
  "flip_step v q bounds order istep s =
     (case s of (placement, var, d) \<Rightarrow>
        (if placement \<noteq> snd istep \<or> length order = fst istep + 1 then s
         else (let b = base_of (d_placement d);
                   bad = overlaps_ref b (d_popper d) (d_reference d) \<or> overflows b (d_popper d) bounds;
                   fv = o_flipVariations q \<and> flips_variation b var (d_popper d) bounds
               in if bad \<or> fv
                  then (let b' = (if bad then order ! (fst istep + 1) else b);
                            var' = (if fv then getOppositeVariation var else var);
                            d1 = d\<lparr>d_flipped := True, d_placement := with_variation b' var'\<rparr>;
                            d2 = d1\<lparr>d_popper := getPopperOffsets (v_outer v) (d_reference d1) (d_placement d1) (d_popper d1)\<rparr>
                        in (b', var', run_simple v q (before_flip (o_modifiers q)) d2))
                  else (b, var, d))))"

definition flip_mod :: "ppage \<Rightarrow> poptions \<Rightarrow> pdata \<Rightarrow> pdata" where
  "flip_mod v q d =
     (if isModifierEnabled (o_modifiers q) PInner \<or> (d_flipped d \<and> d_placement d = d_originalPlacement d) then d
      else (let bounds = add_padding (o_flipPadding q) (v_bounds v (o_flipBoundaries q));
                placement = base_of (d_placement d); var = variation_of (d_placement d);
                order = flip_order (o_behavior q) placement
            in snd (snd (fold (flip_step v q bounds order) (enumerate 0 order) (placement, var, d)))))"

section \<open>An update\<close>

definition run_modifier :: "ppage \<Rightarrow> poptions \<Rightarrow> pmodifier \<Rightarrow> pdata \<Rightarrow> pdata" where
  "run_modifier v q m d =
     (if m_enabled m then (if m_name m = PFlip then flip_mod v q (refresh_rects d) else simple_mod v q (m_name m) (refresh_rects d)) else d)"

definition runModifiers :: "ppage \<Rightarrow> poptions \<Rightarrow> pdata \<Rightarrow> pdata" where
  "runModifiers v q d = fold (run_modifier v q) (o_modifiers q) d"

definition no_rect :: rect where
  \<comment> \<open>sides that are not defined yet\<close>
  "no_rect = \<lparr>r_left = 0, r_top = 0, r_width = 0, r_height = 0, r_right = 0, r_bottom = 0\<rparr>"

definition start_data :: "ppage \<Rightarrow> poptions \<Rightarrow> pdata" where
  "start_data v q =
     (let placement = computeAutoPlacement v q
      in \<lparr>d_placement = placement, d_originalPlacement = placement, d_flipped = False,
          d_popper = getPopperOffsets (v_outer v) (v_reference v) placement no_rect, d_reference = v_reference v,
          d_arrow = None, d_boundaries = None, d_hide = None, d_styles = [], d_attributes = [], d_arrowStyles = [], d_applied = False\<rparr>)"

definition update_popper :: "ppage \<Rightarrow> poptions \<Rightarrow> pdata" where
  "update_popper v q = runModifiers v q (start_data v q)"

section \<open>The options of the library\<close>

definition default_modifiers :: "pmodifier list" where
  "default_modifiers =
     map (\<lambda>(n, order, enabled). \<lparr>m_name = n, m_order = order, m_enabled = enabled\<rparr>)
       [(PShift, 100, True), (POffset, 200, True), (PPreventOverflow, 300, True), (PKeepTogether, 400, True), (PArrow, 500, True),
        (PFlip, 600, True), (PInner, 700, False), (PHide, 800, True), (PComputeStyle, 850, True), (PApplyStyle, 900, True)]"

definition popper_defaults :: poptions where
  "popper_defaults =
     \<lparr>o_placement = ''bottom'', o_positionFixed = False, o_modifiers = default_modifiers, o_offset = ONum 0,
      o_priority = [''left'', ''right'', ''top'', ''bottom''], o_overflowPadding = PNumber 5, o_overflowBoundaries = ''scrollParent'', o_escape = False,
      o_behavior = Opposite, o_flipVariations = False, o_flipPadding = PNumber 5, o_flipBoundaries = ''viewport'',
      o_gpu = True, o_legacyGpu = None, o_x = ''bottom'', o_y = ''right''\<rparr>"

end
