(* ===== verification/PopperLaws.thy ===== *)
theory PopperLaws
  imports PopperModifiers
begin

text \<open>
  Where Popper puts the popper: beside its reference, inside the boundaries where it fits, in touch with the reference,
  on the side that was asked for or the opposite one; and the whole update on a page with enough space.
\<close>

section \<open>Sides\<close>

definition sides :: "string list" where
  "sides = [''left'', ''right'', ''top'', ''bottom'']"

lemma side_cases:
  assumes "List.member sides b"
  obtains "b = ''left''" | "b = ''right''" | "b = ''top''" | "b = ''bottom''"
  using assms by (auto simp: sides_def)

lemma side_parts:
  "base_of ''left'' = ''left''" "base_of ''right'' = ''right''" "base_of ''top'' = ''top''" "base_of ''bottom'' = ''bottom''"
  "variation_of ''left'' = []" "variation_of ''right'' = []" "variation_of ''top'' = []" "variation_of ''bottom'' = []"
  "getOppositePlacement ''left'' = ''right''" "getOppositePlacement ''right'' = ''left''" "getOppositePlacement ''top'' = ''bottom''" "getOppositePlacement ''bottom'' = ''top''"
  by code_simp+

lemma side_kinds:
  "horizontal ''left''" "horizontal ''right''" "\<not> horizontal ''top''" "\<not> horizontal ''bottom''"
  "\<not> vertical ''left''" "\<not> vertical ''right''" "vertical ''top''" "vertical ''bottom''"
  by code_simp+

lemma sides_direction: "List.member sides b \<Longrightarrow> vertical b = (\<not> horizontal b)"
  by (erule side_cases) (simp_all add: side_kinds)

lemma side_names [simp]:
  "side ''left'' = r_left" "side ''top'' = r_top" "side ''width'' = r_width" "side ''height'' = r_height" "side ''right'' = r_right" "side ''bottom'' = r_bottom"
  by (auto simp: side_def)

lemma set_side_names [simp]: "set_side ''left'' x r = r\<lparr>r_left := x\<rparr>" "set_side ''top'' x r = r\<lparr>r_top := x\<rparr>"
  by (simp_all add: set_side_def)

lemma opposite_twice: "list_all (\<lambda>p. getOppositePlacement (getOppositePlacement p) = p) placement_names"
  by code_simp

definition whole_rect :: "rect \<Rightarrow> bool" where
  \<comment> \<open>its sides agree with its size\<close>
  "whole_rect r \<longleftrightarrow> r_right r = r_left r + r_width r \<and> r_bottom r = r_top r + r_height r"

lemma whole_client [simp]: "whole_rect (getClientRect r)" "whole_rect r \<Longrightarrow> getClientRect r = r"
  by (simp_all add: whole_rect_def getClientRect_def)

section \<open>Beside the reference\<close>

definition aligned :: "string \<Rightarrow> rat \<Rightarrow> rat \<Rightarrow> rat \<Rightarrow> rat \<Rightarrow> bool" where
  \<comment> \<open>the popper from \<open>l\<close> with the length \<open>w\<close> begins or ends with the reference from \<open>x\<close> with the length \<open>y\<close>, or is centred on it\<close>
  "aligned var l w x y \<longleftrightarrow> (if var = ''start'' then l = x else if var = ''end'' then l + w = x + y else l + w / 2 = x + y / 2)"

definition beside :: "string \<Rightarrow> rect \<Rightarrow> rect \<Rightarrow> bool" where
  \<comment> \<open>the popper touches the reference on the side of a placement, and is aligned to it as the placement says\<close>
  "beside placement p ref \<longleftrightarrow>
     (let b = base_of placement; var = variation_of placement
      in (if b = ''left'' then r_right p = r_left ref else if b = ''right'' then r_left p = r_right ref
          else if b = ''top'' then r_bottom p = r_top ref else r_top p = r_bottom ref) \<and>
         (if horizontal b then aligned var (r_top p) (r_height p) (r_top ref) (r_height ref) else aligned var (r_left p) (r_width p) (r_left ref) (r_width ref)))"

definition placed_rect :: "ppage \<Rightarrow> string \<Rightarrow> rect" where
  \<comment> \<open>where the popper goes if nothing is in its way\<close>
  "placed_rect v placement = getClientRect (shift_rect placement (v_reference v) (getPopperOffsets (v_outer v) (v_reference v) placement no_rect))"

lemma valid_base:
  assumes "List.member validPlacements p"
  shows "with_variation (base_of p) (variation_of p) = p" "with_variation (getOppositePlacement (base_of p)) (variation_of p) = getOppositePlacement p"
    "List.member sides (base_of p)" "\<not> contains_auto p"
proof -
  have "list_all (\<lambda>p. with_variation (base_of p) (variation_of p) = p \<and> with_variation (getOppositePlacement (base_of p)) (variation_of p) = getOppositePlacement p
      \<and> List.member sides (base_of p) \<and> \<not> contains_auto p) validPlacements"
    by code_simp
  then show "with_variation (base_of p) (variation_of p) = p" "with_variation (getOppositePlacement (base_of p)) (variation_of p) = getOppositePlacement p"
    "List.member sides (base_of p)" "\<not> contains_auto p"
    using assms by (auto simp: list_all_iff)
qed

lemma placed_beside:
  assumes "List.member validPlacements placement" "whole_rect (v_reference v)"
  shows "beside placement (placed_rect v placement) (v_reference v)"
proof -
  define b where "b = base_of placement"
  define var where "var = variation_of placement"
  have b: "List.member sides b" unfolding b_def by (rule valid_base(3) [OF assms(1)])
  show ?thesis using assms(2)
    by (cases rule: side_cases [OF b])
      (simp_all add: beside_def placed_rect_def shift_rect_def getPopperOffsets_def b_def [symmetric] var_def [symmetric] Let_def side_kinds side_parts
        getClientRect_def aligned_def whole_rect_def)
qed

lemma placed_size: "r_width (placed_rect v placement) = fst (v_outer v)" "r_height (placed_rect v placement) = snd (v_outer v)"
  by (simp_all add: placed_rect_def shift_rect_def getPopperOffsets_def getClientRect_def set_side_def Let_def)

lemma placed_whole: "whole_rect (placed_rect v placement)"
  by (simp add: placed_rect_def)

section \<open>Inside the boundaries\<close>

definition clamp :: "rat \<Rightarrow> rat \<Rightarrow> rat \<Rightarrow> rat" where
  "clamp lo hi x = max lo (min hi x)"

text \<open>C39: Where the popper fits into the boundaries, preventOverflow moves it inside and no further than it must: its left and top
  sides are clamped between the first and the last place at which it is inside.\<close>

theorem preventOverflow_clamps:
  assumes "whole_rect (d_popper d)" "\<not> o_escape q" "o_priority q = o_priority popper_defaults"
    and "bounds = add_padding (o_overflowPadding q) (v_bounds v (o_overflowBoundaries q))"
    and "r_width (d_popper d) \<le> r_right bounds - r_left bounds" "r_height (d_popper d) \<le> r_bottom bounds - r_top bounds"
  shows "r_left (d_popper (preventOverflow v q d)) = clamp (r_left bounds) (r_right bounds - r_width (d_popper d)) (r_left (d_popper d))
    \<and> r_top (d_popper (preventOverflow v q d)) = clamp (r_top bounds) (r_bottom bounds - r_height (d_popper d)) (r_top (d_popper d))
    \<and> r_width (d_popper (preventOverflow v q d)) = r_width (d_popper d) \<and> r_height (d_popper (preventOverflow v q d)) = r_height (d_popper d)"
proof -
  have p: "d_popper (preventOverflow v q d) = fold (overflow_side False bounds) [''left'', ''right'', ''top'', ''bottom''] (d_popper d)"
    using assms(2,3) by (simp add: preventOverflow_def Let_def assms(4) popper_defaults_def)
  show ?thesis unfolding p using assms(1,5,6)
    by (simp add: overflow_side_def Let_def clamp_def whole_rect_def max_def min_def)
qed

section \<open>In touch with the reference\<close>

text \<open>keepTogether leaves the popper within reach of its reference, to the whole pixel: along the side it is on, it neither
  ends before the reference begins nor begins after the reference ends.\<close>

theorem keepTogether_touches:
  assumes "whole_rect (d_popper d)" "whole_rect (d_reference d)" "0 \<le> r_width (d_popper d)" "0 \<le> r_height (d_popper d)"
    and "0 \<le> r_width (d_reference d)" "0 \<le> r_height (d_reference d)" "p = getClientRect (d_popper (keepTogether d))"
  shows "if vertical (base_of (d_placement d))
    then floored (r_left (d_reference d)) \<le> r_right p \<and> r_left p \<le> floored (r_right (d_reference d))
    else floored (r_top (d_reference d)) \<le> r_bottom p \<and> r_top p \<le> floored (r_bottom (d_reference d))"
proof -
  have "floored (r_left (d_reference d)) \<le> floored (r_right (d_reference d))" "floored (r_top (d_reference d)) \<le> floored (r_bottom (d_reference d))"
    using assms(2,5,6) by (simp_all add: floored_def whole_rect_def floor_mono)
  then show ?thesis using assms(1,3,4)
    by (simp add: assms(7) keepTogether_def Let_def getClientRect_def whole_rect_def)
qed

section \<open>The arrow\<close>

lemma rounded_mono: "x \<le> y \<Longrightarrow> rounded x \<le> rounded y"
  by (simp add: rounded_def floor_mono)

lemma arrow_shift_size: "r_width (arrow_shift k op a ref p) = r_width p" "r_height (arrow_shift k op a ref p) = r_height p"
  by (simp_all add: arrow_shift_def Let_def set_side_def)

lemma arrow_inside:
  assumes "v_arrow v = Some outer" "isModifierRequired (o_modifiers q) PArrow PKeepTogether" "d_arrow (arrow_mod v q d) = Some (k, x)"
    and "horizontal (base_of (d_placement d)) \<Longrightarrow> snd outer \<le> r_height (d_popper d)" "\<not> horizontal (base_of (d_placement d)) \<Longrightarrow> fst outer \<le> r_width (d_popper d)"
  shows "0 \<le> x \<and> x \<le> (if horizontal (base_of (d_placement d)) then rounded (r_height (d_popper d) - snd outer) else rounded (r_width (d_popper d) - fst outer))"
proof -
  have "0 \<le> rounded (max y 0)" for y using rounded_mono [of 0 "max y 0"] by (simp add: rounded_def)
  moreover have "rounded (max (min a y) 0) \<le> rounded a" if "0 \<le> a" for a y by (rule rounded_mono) (use that in simp)
  ultimately show ?thesis using assms(3,4,5)
    by (cases "horizontal (base_of (d_placement d))") (auto simp: arrow_mod_def Let_def assms(1,2) arrow_shift_size)
qed

section \<open>The automatic placement\<close>

definition area :: "string \<times> rat \<times> rat \<Rightarrow> rat" where
  "area a = fst (snd a) * snd (snd a)"

lemma hd_sorted: "sorted (map f xs) \<Longrightarrow> x \<in> set xs \<Longrightarrow> f (hd xs) \<le> (f x :: rat)"
  by (cases xs) auto

lemma hd_filter_sorted: "sorted (map f xs) \<Longrightarrow> x \<in> set xs \<Longrightarrow> P x \<Longrightarrow> f (hd (filter P xs)) \<le> (f x :: rat)"
  by (rule hd_sorted) (auto simp: sorted_filter)

text \<open>An automatic placement is the side with the largest area of those where the popper fits, or the largest of all where it
  fits nowhere.\<close>

theorem auto_placement_largest:
  assumes "contains_auto (o_placement q)" "A = areas (add_padding (o_flipPadding q) (v_bounds v (o_flipBoundaries q))) (v_reference v)"
  shows "\<exists>a \<in> set A. computeAutoPlacement v q = with_variation (fst a) (variation_of (o_placement q))
    \<and> (if list_ex (fits (v_client v)) A then fits (v_client v) a \<and> list_all (\<lambda>c. \<not> fits (v_client v) c \<or> area c \<le> area a) A
       else list_all (\<lambda>c. area c \<le> area a) A)"
proof -
  define S where "S = sort_key (\<lambda>a. - area a) A"
  define F where "F = filter (fits (v_client v)) S"
  have S: "set S = set A" "sorted (map (\<lambda>a. - area a) S)" by (simp_all add: S_def)
  have "A \<noteq> []" by (simp add: assms(2) areas_def)
  then have ne: "S \<noteq> []" using S(1) by (metis set_empty)
  have sa: "sorted_areas (add_padding (o_flipPadding q) (v_bounds v (o_flipBoundaries q))) (v_reference v) = S"
    unfolding S_def sorted_areas_def area_def assms(2) ..
  have c: "computeAutoPlacement v q = with_variation (if F \<noteq> [] then fst (hd F) else fst (hd S)) (variation_of (o_placement q))"
    using assms(1) by (simp only: computeAutoPlacement_def Let_def sa F_def not_True_eq_False if_False)
  show ?thesis
  proof (cases "F = []")
    case True
    then have "\<not> list_ex (fits (v_client v)) A" using S(1) by (auto simp: F_def filter_empty_conv list_ex_iff)
    moreover have "area x \<le> area (hd S)" if "x \<in> set A" for x using hd_sorted [OF S(2), of x] that S(1) by simp
    moreover have "hd S \<in> set A" using ne S(1) hd_in_set by blast
    ultimately show ?thesis using c True by (auto simp: list_all_iff)
  next
    case False
    then have h: "hd F \<in> set A" "fits (v_client v) (hd F)" using S(1) hd_in_set [of F] by (auto simp: F_def)
    then have "list_ex (fits (v_client v)) A" by (auto simp: list_ex_iff)
    moreover have "area x \<le> area (hd F)" if "x \<in> set A" "fits (v_client v) x" for x
      using hd_filter_sorted [OF S(2), of x "fits (v_client v)"] that S(1) by (simp add: F_def)
    ultimately show ?thesis using c False h by (auto simp: list_all_iff)
  qed
qed

section \<open>The side of the popper\<close>

text \<open>Only flip and inner change the placement.\<close>

definition placed :: "pdata \<Rightarrow> string \<times> string \<times> bool" where
  "placed d = (d_placement d, d_originalPlacement d, d_flipped d)"

lemma simple_placed:
  assumes "n \<noteq> PInner"
  shows "placed (simple_mod v q n d) = placed d"
proof -
  have "placed (shift_mod d) = placed d" "placed (offset_mod v q d) = placed d" "placed (preventOverflow v q d) = placed d" "placed (keepTogether d) = placed d"
    by (simp_all add: placed_def shift_mod_def offset_mod_def preventOverflow_def keepTogether_def Let_def)
  moreover have "placed (arrow_mod v q d) = placed d" "placed (hide_mod q d) = placed d"
    by (simp_all add: placed_def arrow_mod_def hide_mod_def Let_def split: option.split)
  moreover have "placed (computeStyle v q d) = placed d"
    by (simp add: placed_def computeStyle_def Let_def split: prod.split)
  ultimately show ?thesis using assms by (cases n) (simp_all add: simple_mod_def placed_def)
qed

lemma refresh_placed [simp]: "placed (refresh_rects d) = placed d"
  by (simp add: placed_def refresh_rects_def)

lemma run_simple_placed:
  assumes "\<not> isModifierEnabled ms PInner"
  shows "placed (run_simple v q ms d) = placed d"
  using assms
proof (induction ms arbitrary: d)
  case (Cons m ms)
  have "placed (if m_enabled m then simple_mod v q (m_name m) (refresh_rects d) else d) = placed d"
    using Cons.prems simple_placed [of "m_name m" v q "refresh_rects d"] by (simp add: isModifierEnabled_def)
  then show ?case using Cons.IH Cons.prems by (simp add: run_simple_def isModifierEnabled_def)
qed (simp add: run_simple_def)

lemma run_others_placed:
  assumes "\<not> isModifierEnabled ms PInner" "\<And>m. m \<in> set ms \<Longrightarrow> m_name m \<noteq> PFlip"
  shows "placed (fold (run_modifier v q) ms d) = placed d"
  using assms
proof (induction ms arbitrary: d)
  case (Cons m ms)
  have "placed (run_modifier v q m d) = placed d"
    using Cons.prems simple_placed [of "m_name m" v q "refresh_rects d"] by (auto simp: run_modifier_def isModifierEnabled_def)
  then show ?case using Cons.IH Cons.prems by (simp add: isModifierEnabled_def)
qed simp

lemma enabled_before: "isModifierEnabled (before_flip ms) n \<Longrightarrow> isModifierEnabled ms n"
  by (auto simp: isModifierEnabled_def before_flip_def list_ex_iff dest: set_takeWhileD in_set_butlastD split: if_splits)

lemma flip_opposite:
  assumes "o_behavior q = Opposite" "\<not> o_flipVariations q" "\<not> isModifierEnabled (o_modifiers q) PInner"
    and "List.member validPlacements (d_placement d)" "\<not> d_flipped d"
  shows "d_originalPlacement (flip_mod v q d) = d_originalPlacement d"
    "d_placement (flip_mod v q d) = (if d_flipped (flip_mod v q d) then getOppositePlacement (d_placement d) else d_placement d)"
proof -
  define b where "b = base_of (d_placement d)"
  define bounds where "bounds = add_padding (o_flipPadding q) (v_bounds v (o_flipBoundaries q))"
  define d2 where "d2 = (d\<lparr>d_flipped := True, d_placement := getOppositePlacement (d_placement d)\<rparr>)
      \<lparr>d_popper := getPopperOffsets (v_outer v) (d_reference d) (getOppositePlacement (d_placement d)) (d_popper d)\<rparr>"
  have f: "flip_mod v q d = (if overlaps_ref b (d_popper d) (d_reference d) \<or> overflows b (d_popper d) bounds
      then run_simple v q (before_flip (o_modifiers q)) d2 else d)"
    using assms valid_base(2) [OF assms(4)]
    by (simp add: flip_mod_def flip_order_def flip_step_def Let_def b_def [symmetric] bounds_def [symmetric] d2_def)
  have "placed (run_simple v q (before_flip (o_modifiers q)) d2) = placed d2"
    by (rule run_simple_placed) (use enabled_before assms(3) in blast)
  then have "d_placement (run_simple v q (before_flip (o_modifiers q)) d2) = getOppositePlacement (d_placement d)"
      "d_flipped (run_simple v q (before_flip (o_modifiers q)) d2)"
      "d_originalPlacement (run_simple v q (before_flip (o_modifiers q)) d2) = d_originalPlacement d"
    by (simp_all add: placed_def d2_def)
  then show "d_originalPlacement (flip_mod v q d) = d_originalPlacement d"
    "d_placement (flip_mod v q d) = (if d_flipped (flip_mod v q d) then getOppositePlacement (d_placement d) else d_placement d)"
    using assms(5) by (simp_all add: f)
qed

text \<open>C38: Whatever the page looks like, an update leaves the popper on the side that was asked for or computed, or flips it to the
  opposite side with the same variation, and it is marked as flipped just then.\<close>

theorem popper_side:
  assumes "o_behavior q = Opposite" "\<not> o_flipVariations q" "\<not> isModifierEnabled (o_modifiers q) PInner" "distinct (map m_name (o_modifiers q))"
    and "List.member validPlacements (computeAutoPlacement v q)"
  shows "d_placement (update_popper v q) = (if d_flipped (update_popper v q) then getOppositePlacement (computeAutoPlacement v q) else computeAutoPlacement v q)
    \<and> d_originalPlacement (update_popper v q) = computeAutoPlacement v q"
proof -
  let ?P = "computeAutoPlacement v q" and ?d = "start_data v q"
  have st: "placed ?d = (?P, ?P, False)" by (simp add: start_data_def placed_def Let_def)
  show ?thesis
  proof (cases "\<exists>m \<in> set (o_modifiers q). m_name m = PFlip")
    case False
    then have "placed (update_popper v q) = (?P, ?P, False)"
      using run_others_placed [OF assms(3)] st by (auto simp: update_popper_def runModifiers_def)
    then show ?thesis by (simp add: placed_def)
  next
    case True
    then obtain m xs ys where m: "o_modifiers q = xs @ m # ys" "m_name m = PFlip" by (meson split_list)
    have no: "m' \<in> set xs \<Longrightarrow> m_name m' \<noteq> PFlip" "m' \<in> set ys \<Longrightarrow> m_name m' \<noteq> PFlip" for m' using assms(4) m by force+
    have en: "\<not> isModifierEnabled xs PInner" "\<not> isModifierEnabled ys PInner" using assms(3) m by (auto simp: isModifierEnabled_def)
    define d1 where "d1 = refresh_rects (fold (run_modifier v q) xs ?d)"
    have d1: "placed d1 = (?P, ?P, False)" using run_others_placed [OF en(1) no(1)] st by (simp add: d1_def)
    let ?d2 = "run_modifier v q m (fold (run_modifier v q) xs ?d)"
    have d2: "?d2 = (if m_enabled m then flip_mod v q d1 else fold (run_modifier v q) xs ?d)" using m(2) by (simp add: run_modifier_def d1_def)
    have fin: "placed (update_popper v q) = placed ?d2"
      using run_others_placed [OF en(2) no(2)] m(1) by (simp add: update_popper_def runModifiers_def)
    have "d_originalPlacement (flip_mod v q d1) = ?P" "d_placement (flip_mod v q d1) = (if d_flipped (flip_mod v q d1) then getOppositePlacement ?P else ?P)"
      using flip_opposite [OF assms(1-3), of d1] d1 assms(5) by (simp_all add: placed_def)
    moreover have "placed (fold (run_modifier v q) xs ?d) = (?P, ?P, False)" using d1 by (simp add: d1_def)
    ultimately show ?thesis using fin unfolding d2 by (auto simp: placed_def split: if_splits)
  qed
qed

section \<open>A page with enough space\<close>

definition inside :: "rect \<Rightarrow> rect \<Rightarrow> bool" where
  "inside p bounds \<longleftrightarrow> r_left bounds \<le> r_left p \<and> r_top bounds \<le> r_top p \<and> r_right p \<le> r_right bounds \<and> r_bottom p \<le> r_bottom bounds"

definition sizes_fit :: "ppage \<Rightarrow> bool" where
  \<comment> \<open>popper and reference have a pixel at least in both directions, and the arrow is no longer than either\<close>
  "sizes_fit v \<longleftrightarrow> 1 \<le> fst (v_outer v) \<and> 1 \<le> snd (v_outer v) \<and> 1 \<le> r_width (v_reference v) \<and> 1 \<le> r_height (v_reference v) \<and>
     (case v_arrow v of
        Some a \<Rightarrow> fst a \<le> fst (v_outer v) \<and> fst a \<le> r_width (v_reference v) \<and> snd a \<le> snd (v_outer v) \<and> snd a \<le> r_height (v_reference v)
      | None \<Rightarrow> True)"

definition overflow_bounds :: "ppage \<Rightarrow> poptions \<Rightarrow> rect" where
  "overflow_bounds v q = add_padding (o_overflowPadding q) (v_bounds v (o_overflowBoundaries q))"

definition flip_bounds :: "ppage \<Rightarrow> poptions \<Rightarrow> rect" where
  "flip_bounds v q = add_padding (o_flipPadding q) (v_bounds v (o_flipBoundaries q))"

definition free_page :: "ppage \<Rightarrow> poptions \<Rightarrow> bool" where
  \<comment> \<open>the place of the popper is inside both boundaries, and the options move it nowhere else\<close>
  "free_page v q \<longleftrightarrow>
     List.member validPlacements (o_placement q) \<and> whole_rect (v_reference v) \<and> sizes_fit v \<and>
     inside (placed_rect v (o_placement q)) (overflow_bounds v q) \<and> inside (placed_rect v (o_placement q)) (flip_bounds v q) \<and>
     o_offset q = ONum 0 \<and> list_all (List.member sides) (o_priority q) \<and> \<not> isModifierEnabled (o_modifiers q) PInner \<and>
     (case o_modifiers q of m # ms \<Rightarrow> m_name m = PShift \<and> m_enabled m | [] \<Rightarrow> False)"

definition resting :: "ppage \<Rightarrow> poptions \<Rightarrow> pdata \<Rightarrow> bool" where
  "resting v q d \<longleftrightarrow> d_popper d = placed_rect v (o_placement q) \<and> d_reference d = v_reference v \<and> d_placement d = o_placement q \<and> \<not> d_flipped d"

definition at_rest :: "ppage \<Rightarrow> poptions \<Rightarrow> pdata \<Rightarrow> bool" where
  "at_rest v q d \<longleftrightarrow> resting v q (refresh_rects d)"

lemma overflow_inside:
  assumes "inside p bounds" "List.member sides k"
  shows "overflow_side e bounds k p = p"
  using assms(1) by (cases rule: side_cases [OF assms(2)]) (simp_all add: overflow_side_def inside_def Let_def)

lemma overflow_all_inside:
  assumes "inside p bounds" "list_all (List.member sides) ks"
  shows "fold (overflow_side e bounds) ks p = p"
  using assms(2) by (induction ks) (simp_all add: overflow_inside [OF assms(1)])

lemma inside_not_over: "inside p bounds \<Longrightarrow> \<not> overflows b p bounds"
  by (auto simp: overflows_def inside_def not_less floor_mono)

lemma beside_not_overlapping: "List.member sides (base_of b) \<Longrightarrow> beside b p ref \<Longrightarrow> \<not> overlaps_ref (base_of b) p ref"
  by (erule side_cases) (simp_all add: beside_def overlaps_ref_def Let_def)

text \<open>Two lengths that are aligned overlap as far as keepTogether and the arrow ask for.\<close>

lemma aligned_overlap:
  assumes "aligned var l w x y" "1 \<le> w" "1 \<le> y"
  shows "floored x \<le> l + w" "l \<le> floored (x + y)"
proof -
  have "floored x \<le> x" "x + y < floored (x + y) + 1" by (simp_all add: floored_def) linarith
  then show "floored x \<le> l + w" "l \<le> floored (x + y)" using assms by (auto simp: aligned_def split: if_splits)
qed

lemma aligned_arrow:
  assumes "aligned var l w x y" "a \<le> w" "a \<le> y"
  shows "l \<le> x + y - a" "x + a \<le> l + w"
  using assms by (auto simp: aligned_def split: if_splits)

lemma free_facts:
  assumes "free_page v q"
  shows "List.member sides (base_of (o_placement q))" "beside (o_placement q) (placed_rect v (o_placement q)) (v_reference v)" "whole_rect (v_reference v)" "sizes_fit v"
  using assms valid_base(3) placed_beside by (simp_all add: free_page_def)

lemma keep_rest:
  assumes "free_page v q" "resting v q d"
  shows "keepTogether d = d"
proof -
  note f = free_facts [OF assms(1)]
  have d: "d_popper d = placed_rect v (o_placement q)" "d_reference d = v_reference v" "d_placement d = o_placement q" using assms(2) by (simp_all add: resting_def)
  have same: "d\<lparr>d_popper := placed_rect v (o_placement q)\<rparr> = d" using d(1) by (cases d) simp
  have sz: "1 \<le> fst (v_outer v)" "1 \<le> snd (v_outer v)" "1 \<le> r_width (v_reference v)" "1 \<le> r_height (v_reference v)" using f(4) by (simp_all add: sizes_fit_def)
  note w = placed_whole [of v "o_placement q", unfolded whole_rect_def] f(3) [unfolded whole_rect_def]
  show ?thesis
  proof (cases "horizontal (base_of (o_placement q))")
    case True
    then have "aligned (variation_of (o_placement q)) (r_top (placed_rect v (o_placement q))) (snd (v_outer v)) (r_top (v_reference v)) (r_height (v_reference v))"
      using f(2) by (simp add: beside_def Let_def placed_size)
    from aligned_overlap [OF this sz(2,4)] show ?thesis using True d same w
      by (simp add: keepTogether_def Let_def sides_direction [OF f(1)] not_less placed_size)
  next
    case False
    then have "aligned (variation_of (o_placement q)) (r_left (placed_rect v (o_placement q))) (fst (v_outer v)) (r_left (v_reference v)) (r_width (v_reference v))"
      using f(2) by (simp add: beside_def Let_def placed_size)
    from aligned_overlap [OF this sz(1,3)] show ?thesis using False d same w
      by (simp add: keepTogether_def Let_def sides_direction [OF f(1)] not_less placed_size)
  qed
qed

lemma arrow_shift_rest:
  assumes "free_page v q" "v_arrow v = Some a" "b = base_of (o_placement q)"
  shows "arrow_shift (if horizontal b then ''top'' else ''left'') (if horizontal b then ''bottom'' else ''right'') (if horizontal b then snd a else fst a)
    (v_reference v) (placed_rect v (o_placement q)) = placed_rect v (o_placement q)"
proof -
  note f = free_facts [OF assms(1)]
  have a: "fst a \<le> fst (v_outer v)" "fst a \<le> r_width (v_reference v)" "snd a \<le> snd (v_outer v)" "snd a \<le> r_height (v_reference v)"
    using f(4) assms(2) by (simp_all add: sizes_fit_def)
  note w = placed_whole [of v "o_placement q", unfolded whole_rect_def] f(3) [unfolded whole_rect_def]
  show ?thesis
  proof (cases "horizontal b")
    case True
    then have "aligned (variation_of (o_placement q)) (r_top (placed_rect v (o_placement q))) (snd (v_outer v)) (r_top (v_reference v)) (r_height (v_reference v))"
      using f(2) assms(3) by (simp add: beside_def Let_def placed_size)
    from aligned_arrow [OF this a(3,4)] show ?thesis using True w by (simp add: arrow_shift_def Let_def not_less placed_size)
  next
    case False
    then have "aligned (variation_of (o_placement q)) (r_left (placed_rect v (o_placement q))) (fst (v_outer v)) (r_left (v_reference v)) (r_width (v_reference v))"
      using f(2) assms(3) by (simp add: beside_def Let_def placed_size)
    from aligned_arrow [OF this a(1,2)] show ?thesis using False w by (simp add: arrow_shift_def Let_def not_less placed_size)
  qed
qed

lemma arrow_mod_shape:
  fixes v q d
  defines "b \<equiv> base_of (d_placement d)"
  shows "arrow_mod v q d = d \<or>
    (\<exists>a x. v_arrow v = Some a \<and> arrow_mod v q d = d\<lparr>d_popper := getClientRect (arrow_shift (if horizontal b then ''top'' else ''left'')
        (if horizontal b then ''bottom'' else ''right'') (if horizontal b then snd a else fst a) (d_reference d) (d_popper d)), d_arrow := x\<rparr>)"
proof (cases "v_arrow v")
  case (Some a)
  show ?thesis unfolding arrow_mod_def Let_def Some option.case b_def by (cases "isModifierRequired (o_modifiers q) PArrow PKeepTogether") (simp_all only: not_True_eq_False not_False_eq_True if_True if_False, blast+)
qed (simp add: arrow_mod_def)

lemma arrow_rest:
  assumes "free_page v q" "resting v q d"
  shows "resting v q (arrow_mod v q d)"
proof -
  have d: "d_popper d = placed_rect v (o_placement q)" "d_reference d = v_reference v" "d_placement d = o_placement q" "\<not> d_flipped d"
    using assms(2) by (simp_all add: resting_def)
  consider "arrow_mod v q d = d" | a x where "v_arrow v = Some a" "arrow_mod v q d = d\<lparr>d_popper := getClientRect (placed_rect v (o_placement q)), d_arrow := x\<rparr>"
    using arrow_mod_shape [of v q d] arrow_shift_rest [OF assms(1) _ refl] unfolding d(1-3) by metis
  then show ?thesis
  proof cases
    case (2 a x)
    then show ?thesis using d placed_whole by (simp add: resting_def)
  qed (use assms(2) in simp)
qed

lemma shift_again: "shift_rect P ref (shift_rect P ref p) = shift_rect P ref p"
  by (simp add: shift_rect_def set_side_def Let_def)

lemma shift_client: "getClientRect (shift_rect P ref (getClientRect p)) = getClientRect (shift_rect P ref p)"
  by (simp add: shift_rect_def set_side_def getClientRect_def Let_def)

lemma rect_same: "r\<lparr>r_top := r_top r, r_left := r_left r\<rparr> = (r :: rect)" "r\<lparr>r_left := r_left r, r_top := r_top r\<rparr> = (r :: rect)"
  by (cases r; simp)+

lemma simple_rest:
  assumes "free_page v q" "resting v q d" "n \<noteq> PInner"
  shows "at_rest v q (simple_mod v q n d)"
proof -
  let ?p = "placed_rect v (o_placement q)"
  have d: "d_popper d = ?p" "d_reference d = v_reference v" "d_placement d = o_placement q" "\<not> d_flipped d" using assms(2) by (simp_all add: resting_def)
  have w: "getClientRect ?p = ?p" "getClientRect (v_reference v) = v_reference v" using free_facts(3) [OF assms(1)] placed_whole by simp_all
  have r: "at_rest v q x" if "resting v q x" for x using that w by (simp add: at_rest_def resting_def refresh_rects_def)
  have same: "?p\<lparr>r_top := r_top ?p, r_left := r_left ?p\<rparr> = ?p" "?p\<lparr>r_left := r_left ?p, r_top := r_top ?p\<rparr> = ?p" by (rule rect_same)+
  have off: "o_offset q = ONum 0" and pr: "list_all (List.member sides) (o_priority q)" using assms(1) by (simp_all add: free_page_def)
  have ins: "inside ?p (add_padding (o_overflowPadding q) (v_bounds v (o_overflowBoundaries q)))"
    using assms(1) by (simp add: free_page_def overflow_bounds_def)
  show ?thesis
  proof (cases n)
    case PShift
    have "getClientRect (shift_rect (o_placement q) (v_reference v) ?p) = ?p"
      by (simp add: placed_rect_def shift_client shift_again)
    then show ?thesis using PShift d w by (simp add: simple_mod_def shift_mod_def at_rest_def resting_def refresh_rects_def)
  next
    case POffset
    then have "simple_mod v q n d = d\<lparr>d_popper := ?p\<rparr> \<or> simple_mod v q n d = d"
      by (simp add: simple_mod_def offset_mod_def offset_pair_def off d Let_def same)
    then show ?thesis using assms(2) by (auto intro!: r simp: resting_def)
  next
    case PPreventOverflow
    then show ?thesis using assms(2) by (auto intro!: r simp: simple_mod_def preventOverflow_def Let_def overflow_all_inside [OF ins pr] resting_def)
  next
    case PKeepTogether
    then show ?thesis using r [OF assms(2)] by (simp add: simple_mod_def keep_rest [OF assms(1,2)])
  next
    case PArrow
    then show ?thesis using r [OF arrow_rest [OF assms(1,2)]] by (simp add: simple_mod_def)
  next
    case PHide
    then show ?thesis using assms(2) by (auto intro!: r simp: simple_mod_def hide_mod_def resting_def Let_def split: option.split)
  next
    case PComputeStyle
    then show ?thesis using assms(2) by (auto intro!: r simp: simple_mod_def computeStyle_def resting_def Let_def split: prod.split)
  qed (use assms(3) r [OF assms(2)] in \<open>auto intro!: r simp: simple_mod_def resting_def d\<close>)
qed

lemma flip_rest:
  assumes "free_page v q" "resting v q d"
  shows "flip_mod v q d = d"
proof -
  note f = free_facts [OF assms(1)]
  have d: "d_popper d = placed_rect v (o_placement q)" "d_reference d = v_reference v" "d_placement d = o_placement q" using assms(2) by (simp_all add: resting_def)
  have ok: "\<not> overlaps_ref (base_of (d_placement d)) (d_popper d) (d_reference d)" "\<not> overflows k (d_popper d) (flip_bounds v q)" for k
    using beside_not_overlapping [OF f(1,2)] inside_not_over assms(1) by (simp_all add: d free_page_def)
  have st: "\<exists>pl'. flip_step v q (flip_bounds v q) order i (pl, var, d) = (pl', var, d)" for order i pl var
    using ok by (auto simp: flip_step_def flips_variation_def Let_def)
  have "snd (snd (fold (flip_step v q (flip_bounds v q) order) xs (pl, var, d))) = d" for order xs pl var
  proof (induction xs arbitrary: pl)
    case (Cons i xs)
    obtain pl' where "flip_step v q (flip_bounds v q) order i (pl, var, d) = (pl', var, d)" using st by blast
    then show ?case using Cons.IH [of pl'] by simp
  qed simp
  then show ?thesis by (simp add: flip_mod_def Let_def flip_bounds_def)
qed

lemma run_rest:
  assumes "free_page v q" "at_rest v q d" "m \<in> set (o_modifiers q)"
  shows "at_rest v q (run_modifier v q m d)"
proof (cases "m_enabled m")
  case True
  then have n: "m_name m \<noteq> PInner" using assms(1,3) by (auto simp: free_page_def isModifierEnabled_def list_ex_iff)
  have r: "resting v q (refresh_rects d)" using assms(2) by (simp add: at_rest_def)
  have "refresh_rects (refresh_rects d) = refresh_rects d" by (simp add: refresh_rects_def)
  then show ?thesis using True simple_rest [OF assms(1) r n] flip_rest [OF assms(1) r] r by (simp add: run_modifier_def at_rest_def)
qed (simp add: run_modifier_def assms(2))

text \<open>Where there is enough space at the placement that was asked for, an update puts the popper just there: beside its
  reference, aligned as the placement says, and no modifier moves or flips it.\<close>

theorem update_beside_reference:
  assumes "free_page v q"
  shows "d_placement (update_popper v q) = o_placement q \<and> \<not> d_flipped (update_popper v q)
    \<and> beside (o_placement q) (getClientRect (d_popper (update_popper v q))) (v_reference v)"
proof -
  obtain m ms where m: "o_modifiers q = m # ms" "m_name m = PShift" "m_enabled m" using assms by (auto simp: free_page_def split: list.splits)
  have val: "List.member validPlacements (o_placement q)" and w: "whole_rect (v_reference v)" using assms by (simp_all add: free_page_def)
  have P: "computeAutoPlacement v q = o_placement q" using valid_base(4) [OF val] by (simp add: computeAutoPlacement_def)
  have first: "at_rest v q (run_modifier v q m (start_data v q))"
    using m(2,3) w P
    by (simp add: run_modifier_def simple_mod_def shift_mod_def at_rest_def resting_def refresh_rects_def start_data_def Let_def shift_client placed_rect_def)
  have "at_rest v q (fold (run_modifier v q) xs d)" if "at_rest v q d" "set xs \<subseteq> set (o_modifiers q)" for xs d
    using that by (induction xs arbitrary: d) (simp_all add: run_rest [OF assms])
  from this [OF first, of ms] have "at_rest v q (update_popper v q)" using m(1) by (auto simp: update_popper_def runModifiers_def)
  then show ?thesis using free_facts(2) [OF assms] by (simp add: at_rest_def resting_def refresh_rects_def)
qed

section \<open>Examples\<close>

definition make_rect :: "rat \<Rightarrow> rat \<Rightarrow> rat \<Rightarrow> rat \<Rightarrow> rect" where
  "make_rect l t w h = getClientRect \<lparr>r_left = l, r_top = t, r_width = w, r_height = h, r_right = 0, r_bottom = 0\<rparr>"

definition sample_page :: "rat \<Rightarrow> ppage" where
  \<comment> \<open>a popper of 80 by 40 and a reference of 50 by 20 at the height \<open>y\<close>\<close>
  "sample_page y =
     \<lparr>v_outer = (80, 40), v_client = (80, 40), v_reference = make_rect 300 y 50 20, v_bounds = (\<lambda>_. make_rect 0 0 1000 800), v_window = (1000, 800),
      v_arrow = Some (10, 10), v_margin = (\<lambda>_. 0), v_border = (\<lambda>_. 0), v_parentSize = (1000, 800), v_transform = Some ''transform'', v_rounds = True\<rparr>"

lemma sample_free: "free_page (sample_page 100) (popper_defaults\<lparr>o_placement := ''bottom-start''\<rparr>)"
  by code_simp

theorem update_beside_reference_witness:
  "beside ''bottom-start'' (getClientRect (d_popper (update_popper (sample_page 100) (popper_defaults\<lparr>o_placement := ''bottom-start''\<rparr>)))) (make_rect 300 100 50 20)"
  using update_beside_reference [OF sample_free] by (simp add: sample_page_def)

definition only_flips :: poptions where
  "only_flips = popper_defaults\<lparr>o_modifiers := [\<lparr>m_name = PFlip, m_order = 600, m_enabled = True\<rparr>]\<rparr>"

theorem popper_side_witness:
  "let d = update_popper (sample_page 770) only_flips in d_flipped d \<and> d_placement d = ''top'' \<and> d_originalPlacement d = ''bottom''"
proof -
  have o: "o_behavior only_flips = Opposite" "\<not> o_flipVariations only_flips" by code_simp+
  have m: "\<not> isModifierEnabled (o_modifiers only_flips) PInner" "distinct (map m_name (o_modifiers only_flips))" by code_simp+
  have p: "computeAutoPlacement (sample_page 770) only_flips = ''bottom''" by code_simp
  have v: "List.member validPlacements ''bottom''" by code_simp
  have f: "d_flipped (update_popper (sample_page 770) only_flips)" by code_simp
  have g: "getOppositePlacement ''bottom'' = ''top''" by code_simp
  from popper_side [OF o m, of "sample_page 770"] v f show ?thesis unfolding p g Let_def by simp
qed

theorem auto_placement_largest_witness:
  "computeAutoPlacement (sample_page 100) (popper_defaults\<lparr>o_placement := ''auto''\<rparr>) = ''bottom''"
proof -
  let ?q = "popper_defaults\<lparr>o_placement := ''auto''\<rparr>"
  define A where "A = areas (add_padding (o_flipPadding ?q) (v_bounds (sample_page 100) (o_flipBoundaries ?q))) (v_reference (sample_page 100))"
  have c: "contains_auto (o_placement ?q)" by code_simp
  have e: "A = [(''top'', 1000, 95), (''right'', 645, 800), (''bottom'', 1000, 675), (''left'', 295, 800)]" unfolding A_def by code_simp
  have f: "list_ex (fits (v_client (sample_page 100))) A" unfolding e by code_simp
  have g: "variation_of (o_placement ?q) = []" by code_simp
  from auto_placement_largest [OF c A_def] f obtain a where a: "a \<in> set A" "computeAutoPlacement (sample_page 100) ?q = with_variation (fst a) []"
      "list_all (\<lambda>c. \<not> fits (v_client (sample_page 100)) c \<or> area c \<le> area a) A"
    unfolding g by auto
  have "fits (v_client (sample_page 100)) (''bottom'', 1000, 675)" by code_simp
  then have "675000 \<le> area a" using a(3) by (simp add: e area_def)
  then have "fst a = ''bottom''" using a(1) by (auto simp: e area_def)
  then show ?thesis using a(2) by (simp add: with_variation_def)
qed

definition sample_data :: pdata where
  \<comment> \<open>a popper over the right side of the page, above the beginning of its reference\<close>
  "sample_data = (start_data (sample_page 100) popper_defaults)\<lparr>d_popper := make_rect 980 200 80 40\<rparr>"

theorem preventOverflow_clamps_witness: "r_left (d_popper (preventOverflow (sample_page 100) popper_defaults sample_data)) = 915"
proof -
  have w: "whole_rect (d_popper sample_data)" and e: "\<not> o_escape popper_defaults" by code_simp+
  have s: "r_width (d_popper sample_data) = 80" "r_height (d_popper sample_data) = 40" "r_left (d_popper sample_data) = 980" by code_simp+
  define b where "b = add_padding (o_overflowPadding popper_defaults) (v_bounds (sample_page 100) (o_overflowBoundaries popper_defaults))"
  have b: "r_left b = 5" "r_right b = 995" "r_top b = 5" "r_bottom b = 795" unfolding b_def by code_simp+
  from preventOverflow_clamps [OF w e refl b_def] show ?thesis by (simp add: s b clamp_def)
qed

theorem keepTogether_touches_witness: "r_left (getClientRect (d_popper (keepTogether sample_data))) \<le> 350"
proof -
  have w: "whole_rect (d_popper sample_data)" "whole_rect (d_reference sample_data)" by code_simp+
  have s: "0 \<le> r_width (d_popper sample_data)" "0 \<le> r_height (d_popper sample_data)" "0 \<le> r_width (d_reference sample_data)" "0 \<le> r_height (d_reference sample_data)"
    by code_simp+
  have b: "vertical (base_of (d_placement sample_data))" "floored (r_right (d_reference sample_data)) = 350" by code_simp+
  from keepTogether_touches [OF w s refl] show ?thesis by (simp add: b)
qed

section \<open>Distances given as text\<close>

text \<open>The examples of the library: a window of 1000 by 800, a popper of 80 by 40 and a reference of 50 by 20, below which the
  popper is.\<close>

lemma offset_examples:
  "map (parseOffset (1000, 800) (make_rect 0 0 80 40) (make_rect 0 0 50 20) ''bottom'')
     [''10%'', ''10, 10'', ''10%, 10'', ''10 + 10%'', ''10 - 5vh + 3%'', ''-10px + 5vh, 5px - 6%'', ''50%p'']
   = [(5, 0), (10, 10), (5, 10), (15, 0), (- 57 / 2, 0), (30, 19 / 5), (40, 0)]"
  by code_simp

end
