(* ===== verification/PopperCycle.thy ===== *)
theory PopperCycle
  imports PopperLaws
begin

text \<open>
  The life of a popper: construction, updates that are put off to a microtask, animation frames, the listeners on the
  window and on the scroll parents, and destruction.  Elements are numbered; None stands for the window.  Then: the
  listeners are those of the scroll parents recorded, requests are gathered into one update, and a popper destroyed
  changes nothing any more.
\<close>

section \<open>State\<close>

datatype pcallback = OnCreate | OnUpdate

record popper =
  i_options :: poptions
  i_removeOnDestroy :: bool
  i_destroyed :: bool
  i_created :: bool
  i_eventsEnabled :: bool
  i_listeners :: "(nat option \<times> string) list" \<comment> \<open>the same function is added to a target once\<close>
  i_scrollParents :: "nat option list"
  i_frames :: nat \<comment> \<open>the animation frames asked for\<close>
  i_called :: bool \<comment> \<open>a microtask with an update is under way\<close>
  i_position :: bool \<comment> \<open>the popper carries the styles and the attribute of its placement\<close>
  i_inPage :: bool
  i_data :: "pdata option" \<comment> \<open>what the last update computed\<close>
  i_log :: "pcallback list"

section \<open>Listeners\<close>

definition listen :: "nat option \<Rightarrow> string \<Rightarrow> popper \<Rightarrow> popper" where
  "listen t ev s = s\<lparr>i_listeners := List.insert (t, ev) (i_listeners s)\<rparr>"

definition unlisten :: "nat option \<Rightarrow> string \<Rightarrow> popper \<Rightarrow> popper" where
  "unlisten t ev s = s\<lparr>i_listeners := filter (\<lambda>l. l \<noteq> (t, ev)) (i_listeners s)\<rparr>"

fun attachToScrollParents :: "nat list \<Rightarrow> popper \<Rightarrow> popper" where
  \<comment> \<open>the scroll parents from the inside out, but for the body, whose place the window takes\<close>
  "attachToScrollParents [] s = (let s1 = listen None ''scroll'' s in s1\<lparr>i_scrollParents := i_scrollParents s1 @ [None]\<rparr>)"
| "attachToScrollParents (e # es) s =
     (let s1 = attachToScrollParents es (listen (Some e) ''scroll'' s) in s1\<lparr>i_scrollParents := i_scrollParents s1 @ [Some e]\<rparr>)"

definition setupEventListeners :: "nat list \<Rightarrow> popper \<Rightarrow> popper" where
  "setupEventListeners parents s = (attachToScrollParents parents (listen None ''resize'' s))\<lparr>i_eventsEnabled := True\<rparr>"

definition enableEventListeners :: "nat list \<Rightarrow> popper \<Rightarrow> popper" where
  "enableEventListeners parents s = (if i_eventsEnabled s then s else setupEventListeners parents s)"

definition removeEventListeners :: "popper \<Rightarrow> popper" where
  "removeEventListeners s =
     (fold (\<lambda>t. unlisten t ''scroll'') (i_scrollParents s) (unlisten None ''resize'' s))\<lparr>i_scrollParents := [], i_eventsEnabled := False\<rparr>"

definition disableEventListeners :: "popper \<Rightarrow> popper" where
  \<comment> \<open>cancelAnimationFrame is called with a function instead of a number, which cancels nothing\<close>
  "disableEventListeners s = (if i_eventsEnabled s then removeEventListeners s else s)"

section \<open>Updates\<close>

definition scheduleUpdate :: "popper \<Rightarrow> popper" where
  "scheduleUpdate s = s\<lparr>i_frames := Suc (i_frames s)\<rparr>"

definition request_update :: "popper \<Rightarrow> popper" where
  \<comment> \<open>update as the constructor wraps it: microtaskDebounce\<close>
  "request_update s = s\<lparr>i_called := True\<rparr>"

definition frame_comes :: "popper \<Rightarrow> popper" where
  "frame_comes s = (if 0 < i_frames s then request_update (s\<lparr>i_frames := i_frames s - 1\<rparr>) else s)"

definition do_update :: "ppage \<Rightarrow> popper \<Rightarrow> popper" where
  \<comment> \<open>on the page as it is\<close>
  "do_update v s =
     (if i_destroyed s then s
      else (let d = update_popper v (i_options s)
            in s\<lparr>i_data := Some d, i_position := (i_position s \<or> d_applied d), i_created := True,
                 i_log := i_log s @ [if i_created s then OnUpdate else OnCreate]\<rparr>))"

definition microtask :: "ppage \<Rightarrow> popper \<Rightarrow> popper" where
  "microtask v s = (if i_called s then do_update v (s\<lparr>i_called := False\<rparr>) else s)"

section \<open>Construction and destruction\<close>

definition new_popper :: "poptions \<Rightarrow> bool \<Rightarrow> bool \<Rightarrow> nat list \<Rightarrow> popper" where
  \<comment> \<open>the options, eventsEnabled, removeOnDestroy and the scroll parents; applyStyle positions the popper on load\<close>
  "new_popper q eventsEnabled removeOnDestroy parents =
     (let s = \<lparr>i_options = q, i_removeOnDestroy = removeOnDestroy, i_destroyed = False, i_created = False, i_eventsEnabled = False, i_listeners = [],
            i_scrollParents = [], i_frames = 0, i_called = False, i_position = isModifierEnabled (o_modifiers q) PApplyStyle, i_inPage = True,
            i_data = None, i_log = []\<rparr>;
          s1 = request_update s
      in if eventsEnabled then enableEventListeners parents s1 else s1)"

definition destroy_popper :: "popper \<Rightarrow> popper" where
  "destroy_popper s =
     (let s1 = s\<lparr>i_destroyed := True\<rparr>;
          s2 = (if isModifierEnabled (o_modifiers (i_options s1)) PApplyStyle then s1\<lparr>i_position := False\<rparr> else s1);
          s3 = disableEventListeners s2
      in if i_removeOnDestroy s3 then s3\<lparr>i_inPage := False\<rparr> else s3)"

section \<open>Listeners are taken away again\<close>

inductive popper_step :: "popper \<Rightarrow> popper \<Rightarrow> bool" where
  scheduled: "popper_step s (scheduleUpdate s)"
| frame: "popper_step s (frame_comes s)"
| requested: "popper_step s (request_update s)"
| updated: "popper_step s (microtask v s)"
| enabled: "\<not> i_destroyed s \<Longrightarrow> popper_step s (enableEventListeners parents s)"
| disabled: "popper_step s (disableEventListeners s)"
| destroyed: "popper_step s (destroy_popper s)"

inductive_cases popper_stepE: "popper_step s s'"

definition listens :: "popper \<Rightarrow> bool" where
  \<comment> \<open>the listeners are those on the window and the scroll parents recorded, or none\<close>
  "listens s \<longleftrightarrow>
     (if i_eventsEnabled s then set (i_listeners s) = insert (None, ''resize'') ((\<lambda>t. (t, ''scroll'')) ` set (i_scrollParents s)) \<and> \<not> i_destroyed s
      else i_listeners s = [] \<and> i_scrollParents s = [])"

lemma attach_facts:
  "set (i_listeners (attachToScrollParents es s)) = set (i_listeners s) \<union> insert (None, ''scroll'') ((\<lambda>e. (Some e, ''scroll'')) ` set es)"
  "set (i_scrollParents (attachToScrollParents es s)) = set (i_scrollParents s) \<union> insert None (Some ` set es)"
  "i_destroyed (attachToScrollParents es s) = i_destroyed s" "i_eventsEnabled (attachToScrollParents es s) = i_eventsEnabled s"
  by (induction es arbitrary: s) (auto simp: listen_def Let_def)

lemma enable_listens: "listens s \<Longrightarrow> \<not> i_destroyed s \<Longrightarrow> listens (enableEventListeners parents s)"
  by (auto simp: enableEventListeners_def setupEventListeners_def listens_def attach_facts listen_def)

lemma unlisten_all: "i_listeners (fold (\<lambda>t. unlisten t ''scroll'') ts s) = filter (\<lambda>l. l \<notin> (\<lambda>t. (t, ''scroll'')) ` set ts) (i_listeners s)"
  by (induction ts arbitrary: s) (auto simp: unlisten_def intro!: filter_cong)

lemma disable_listens:
  assumes "listens s"
  shows "listens (disableEventListeners s)" "i_listeners (disableEventListeners s) = []" "\<not> i_eventsEnabled (disableEventListeners s)"
proof -
  have "i_listeners (disableEventListeners s) = [] \<and> i_scrollParents (disableEventListeners s) = [] \<and> \<not> i_eventsEnabled (disableEventListeners s)"
    using assms by (auto simp: listens_def disableEventListeners_def removeEventListeners_def unlisten_all unlisten_def filter_empty_conv split: if_splits)
  then show "listens (disableEventListeners s)" "i_listeners (disableEventListeners s) = []" "\<not> i_eventsEnabled (disableEventListeners s)"
    by (simp_all add: listens_def)
qed

lemma listens_cong:
  "i_eventsEnabled s' = i_eventsEnabled s \<Longrightarrow> i_listeners s' = i_listeners s \<Longrightarrow> i_scrollParents s' = i_scrollParents s \<Longrightarrow> i_destroyed s' = i_destroyed s
   \<Longrightarrow> listens s' = listens s"
  by (simp add: listens_def)

lemma destroy_fields:
  "i_listeners (destroy_popper s) = i_listeners (disableEventListeners s)" "i_scrollParents (destroy_popper s) = i_scrollParents (disableEventListeners s)"
  "i_eventsEnabled (destroy_popper s) = i_eventsEnabled (disableEventListeners s)" "i_destroyed (destroy_popper s)"
proof -
  have f: "i_listeners (fold (\<lambda>t. unlisten t ''scroll'') ts (x\<lparr>i_destroyed := True, i_position := b\<rparr>)) = i_listeners (fold (\<lambda>t. unlisten t ''scroll'') ts x)"
    "i_listeners (fold (\<lambda>t. unlisten t ''scroll'') ts (x\<lparr>i_destroyed := True\<rparr>)) = i_listeners (fold (\<lambda>t. unlisten t ''scroll'') ts x)" for ts x b
    by (simp_all add: unlisten_all)
  have d: "i_destroyed (fold (\<lambda>t. unlisten t ''scroll'') ts x) = i_destroyed x" for ts x by (induction ts arbitrary: x) (simp_all add: unlisten_def)
  show "i_listeners (destroy_popper s) = i_listeners (disableEventListeners s)" "i_scrollParents (destroy_popper s) = i_scrollParents (disableEventListeners s)"
    "i_eventsEnabled (destroy_popper s) = i_eventsEnabled (disableEventListeners s)" "i_destroyed (destroy_popper s)"
    by (simp_all add: destroy_popper_def disableEventListeners_def removeEventListeners_def Let_def unlisten_all d) (simp_all add: unlisten_def)
qed

lemma popper_step_listens: "listens s \<Longrightarrow> popper_step s s' \<Longrightarrow> listens s'"
proof (erule popper_stepE)
  assume "listens s" "s' = destroy_popper s"
  then show "listens s'" using disable_listens [of s] destroy_fields [of s] by (simp add: listens_def)
next
  fix v assume l: "listens s" and s': "s' = microtask v s"
  have "i_eventsEnabled s' = i_eventsEnabled s" "i_listeners s' = i_listeners s" "i_scrollParents s' = i_scrollParents s" "i_destroyed s' = i_destroyed s"
    by (simp_all add: s' microtask_def do_update_def Let_def)
  then show "listens s'" using l listens_cong by blast
next
  assume l: "listens s" and s': "s' = frame_comes s"
  have "i_eventsEnabled s' = i_eventsEnabled s" "i_listeners s' = i_listeners s" "i_scrollParents s' = i_scrollParents s" "i_destroyed s' = i_destroyed s"
    by (simp_all add: s' frame_comes_def request_update_def)
  then show "listens s'" using l listens_cong by blast
qed (simp_all add: enable_listens disable_listens scheduleUpdate_def request_update_def, simp_all add: listens_def)

definition popper_made :: "popper \<Rightarrow> bool" where
  "popper_made s \<longleftrightarrow> (\<exists>q e r parents. s = new_popper q e r parents)"

lemma new_listens: "listens (new_popper q e r parents)"
proof -
  let ?s = "request_update \<lparr>i_options = q, i_removeOnDestroy = r, i_destroyed = False, i_created = False, i_eventsEnabled = False, i_listeners = [],
            i_scrollParents = [], i_frames = 0, i_called = False, i_position = isModifierEnabled (o_modifiers q) PApplyStyle, i_inPage = True,
            i_data = None, i_log = []\<rparr>"
  have "listens ?s" "\<not> i_destroyed ?s" by (simp_all add: request_update_def listens_def)
  then show ?thesis using enable_listens [of ?s parents] by (simp add: new_popper_def Let_def)
qed

interpretation poppers: inductive_invariant popper_made popper_step listens
  by unfold_locales (auto simp: popper_made_def new_listens intro: popper_step_listens)

section \<open>After the destruction\<close>

definition frozen :: "popper \<Rightarrow> pdata option \<times> pcallback list \<times> bool \<times> (nat option \<times> string) list" where
  "frozen s = (i_data s, i_log s, i_position s, i_listeners s)"

lemma destroyed_step:
  assumes "i_destroyed s" "listens s" "popper_step s s'" "i_position s = False"
  shows "i_destroyed s' \<and> frozen s' = frozen s"
  using assms(3)
proof (cases rule: popper_step.cases)
  case disabled
  then show ?thesis using assms by (auto simp: listens_def disableEventListeners_def frozen_def split: if_splits)
next
  case destroyed
  then show ?thesis using assms destroy_fields [of s] by (auto simp: listens_def disableEventListeners_def frozen_def destroy_popper_def Let_def split: if_splits)
qed (use assms in \<open>auto simp: frozen_def scheduleUpdate_def frame_comes_def request_update_def microtask_def do_update_def Let_def\<close>)


definition brief_popper :: popper where
  \<comment> \<open>made on a page with one scroll parent, with a frame asked for\<close>
  "brief_popper = scheduleUpdate (new_popper popper_defaults True False [7])"


section \<open>One update for many requests\<close>

definition log_growth :: "ppage \<Rightarrow> nat \<Rightarrow> popper \<Rightarrow> nat" where
  \<comment> \<open>the callbacks after this many requests and the microtask\<close>
  "log_growth v n s = length (i_log (microtask v ((request_update ^^ n) s))) - length (i_log s)"

text \<open>However many updates are asked for before the microtask comes, it runs one, and none if none was asked for or the popper
  is destroyed.\<close>

theorem requests_gathered: "log_growth v n s = (if i_destroyed s \<or> (n = 0 \<and> \<not> i_called s) then 0 else 1)"
proof -
  have r: "(request_update ^^ n) s = (if n = 0 then s else s\<lparr>i_called := True\<rparr>)" by (induction n) (simp_all add: request_update_def)
  show ?thesis unfolding log_growth_def r by (simp add: microtask_def do_update_def Let_def)
qed

end
