(* ===== verification/PopperUse.thy ===== *)
theory PopperUse
  imports BsDropdown PopperCycle
begin

text \<open>
  How the menus of Bootstrap use Popper: the options that the constructor makes of a configuration, and where a menu
  opens.
\<close>

section \<open>The options of a configuration\<close>

definition modifier_option :: "jsval obj \<Rightarrow> string \<Rightarrow> string \<Rightarrow> jsval" where
  \<comment> \<open>undefined where it is not given\<close>
  "modifier_option c n k =
     (case js_prop c ''modifiers'' of JObj ms \<Rightarrow> (case js_prop ms n of JObj kvs \<Rightarrow> js_prop kvs k | _ \<Rightarrow> JUndef) | _ \<Rightarrow> JUndef)"

definition modifier_key :: "pmod \<Rightarrow> string" where
  "modifier_key n =
     (case n of PShift \<Rightarrow> ''shift'' | POffset \<Rightarrow> ''offset'' | PPreventOverflow \<Rightarrow> ''preventOverflow'' | PKeepTogether \<Rightarrow> ''keepTogether''
      | PArrow \<Rightarrow> ''arrow'' | PFlip \<Rightarrow> ''flip'' | PInner \<Rightarrow> ''inner'' | PHide \<Rightarrow> ''hide'' | PComputeStyle \<Rightarrow> ''computeStyle'' | PApplyStyle \<Rightarrow> ''applyStyle'')"

definition text_or :: "string \<Rightarrow> jsval \<Rightarrow> string" where
  "text_or t v = (case v of JStr s \<Rightarrow> s | _ \<Rightarrow> t)"

definition given_behavior :: "jsval \<Rightarrow> behavior" where
  "given_behavior v =
     (case v of
        JStr s \<Rightarrow> if s = ''clockwise'' then Clockwise else if s = ''counterclockwise'' then Counterclockwise else Opposite
      | JArr xs \<Rightarrow> Steps (map (text_or []) xs)
      | _ \<Rightarrow> Opposite)"

definition merge_options :: "jsval obj \<Rightarrow> poptions" where
  \<comment> \<open>the options that Bootstrap gives, over the defaults; their orders are the default ones, so that the list stays sorted\<close>
  "merge_options c =
     popper_defaults
       \<lparr>o_placement := text_or (o_placement popper_defaults) (js_prop c ''placement''),
        o_modifiers := map (\<lambda>m. case modifier_option c (modifier_key (m_name m)) ''enabled'' of
            JUndef \<Rightarrow> m | b \<Rightarrow> m\<lparr>m_enabled := truthy b\<rparr>) default_modifiers,
        o_offset := (case modifier_option c ''offset'' ''offset'' of JNum (Fin r) \<Rightarrow> ONum r | JStr s \<Rightarrow> OText s | _ \<Rightarrow> o_offset popper_defaults),
        o_behavior := given_behavior (modifier_option c ''flip'' ''behavior''),
        o_overflowBoundaries := text_or (o_overflowBoundaries popper_defaults) (modifier_option c ''preventOverflow'' ''boundariesElement'')\<rparr>"

section \<open>Menus\<close>

definition menu_options :: "string list \<Rightarrow> string list \<Rightarrow> poptions" where
  \<comment> \<open>of a menu with the default options, from the class names of its parent and its own\<close>
  "menu_options parent menu = merge_options (getPopperConfig (getPlacement parent menu) dropdown_default)"

lemma menu_options_facts:
  "o_placement (menu_options parent menu) = getPlacement parent menu" "o_offset (menu_options parent menu) = ONum 0"
  "o_modifiers (menu_options parent menu) = default_modifiers" "o_priority (menu_options parent menu) = o_priority popper_defaults"
  "o_overflowBoundaries (menu_options parent menu) = ''scrollParent''" "o_overflowPadding (menu_options parent menu) = PNumber 5"
  "o_flipBoundaries (menu_options parent menu) = ''viewport''" "o_flipPadding (menu_options parent menu) = PNumber 5"
proof -
  have c: "js_prop dropdown_default ''offset'' = JNum (Fin 0)" "js_prop dropdown_default ''flip'' = JBool True" "js_prop dropdown_default ''boundary'' = JStr ''scrollParent''"
    "js_prop dropdown_default ''display'' = JStr ''dynamic''"
    by code_simp+
  have g: "getPopperConfig p dropdown_default = [(''placement'', JStr p), (''modifiers'', JObj [(''offset'', JObj [(''offset'', JNum (Fin 0))]),
      (''flip'', JObj [(''enabled'', JBool True)]), (''preventOverflow'', JObj [(''boundariesElement'', JStr ''scrollParent'')])])]" for p
    by (simp add: getPopperConfig_def c)
  let ?m = "map (\<lambda>m. case modifier_option (getPopperConfig p dropdown_default) (modifier_key (m_name m)) ''enabled'' of
            JUndef \<Rightarrow> m | b \<Rightarrow> m\<lparr>m_enabled := truthy b\<rparr>) default_modifiers"
  have m: "map (\<lambda>m. case modifier_option (getPopperConfig p dropdown_default) (modifier_key (m_name m)) ''enabled'' of
            JUndef \<Rightarrow> m | b \<Rightarrow> m\<lparr>m_enabled := truthy b\<rparr>) default_modifiers = default_modifiers" for p
    unfolding g by (simp add: default_modifiers_def modifier_option_def modifier_key_def js_prop_def)
  have o: "modifier_option (getPopperConfig p dropdown_default) ''offset'' ''offset'' = JNum (Fin 0)"
    "modifier_option (getPopperConfig p dropdown_default) ''preventOverflow'' ''boundariesElement'' = JStr ''scrollParent''"
    "js_prop (getPopperConfig p dropdown_default) ''placement'' = JStr p" for p
    unfolding g by (simp_all add: modifier_option_def js_prop_def)
  show "o_placement (menu_options parent menu) = getPlacement parent menu" "o_offset (menu_options parent menu) = ONum 0"
    "o_modifiers (menu_options parent menu) = default_modifiers" "o_priority (menu_options parent menu) = o_priority popper_defaults"
    "o_overflowBoundaries (menu_options parent menu) = ''scrollParent''" "o_overflowPadding (menu_options parent menu) = PNumber 5"
    "o_flipBoundaries (menu_options parent menu) = ''viewport''" "o_flipPadding (menu_options parent menu) = PNumber 5"
    unfolding menu_options_def merge_options_def m o by (simp_all add: text_or_def) (simp_all add: popper_defaults_def)
qed

definition room_for :: "ppage \<Rightarrow> string \<Rightarrow> bool" where
  \<comment> \<open>a placement keeps 5 pixels to the scroll parent and to the viewport\<close>
  "room_for v placement \<longleftrightarrow>
     whole_rect (v_reference v) \<and> sizes_fit v \<and>
     inside (placed_rect v placement) (add_padding (PNumber 5) (v_bounds v ''scrollParent'')) \<and>
     inside (placed_rect v placement) (add_padding (PNumber 5) (v_bounds v ''viewport''))"

lemma menu_free: "room_for v (getPlacement parent menu) \<Longrightarrow> free_page v (menu_options parent menu)"
proof -
  assume r: "room_for v (getPlacement parent menu)"
  have "list_all (List.member validPlacements) [''top-end'', ''top-start'', ''right-start'', ''left-start'', ''bottom-end'', ''bottom-start'']" by code_simp
  then have v: "List.member validPlacements (getPlacement parent menu)" by (simp add: getPlacement_def)
  have e: "\<not> isModifierEnabled default_modifiers PInner" "list_all (List.member sides) (o_priority popper_defaults)" by code_simp+
  have h: "case default_modifiers of m # ms \<Rightarrow> m_name m = PShift \<and> m_enabled m | [] \<Rightarrow> False" by (simp add: default_modifiers_def)
  show ?thesis using r v e h by (simp add: free_page_def menu_options_facts room_for_def overflow_bounds_def flip_bounds_def)
qed

text \<open>C37: Where there is room, the menu of a dropdown opens right below its toggle and begins with it, or ends with it when the menu is
  marked as one for the right side; the menu of a dropup opens above in the same way.\<close>

theorem menu_opens_at_toggle:
  assumes "room_for v (getPlacement parent menu)" "p = getClientRect (d_popper (update_popper v (menu_options parent menu)))" "t = v_reference v"
    and "\<not> List.member parent ''dropright''" "\<not> List.member parent ''dropleft''"
  shows "(if List.member parent ''dropup'' then r_bottom p = r_top t else r_top p = r_bottom t)
    \<and> (if List.member menu ''dropdown-menu-right'' then r_right p = r_right t else r_left p = r_left t)"
proof -
  have b: "beside (getPlacement parent menu) p t" using update_beside_reference [OF menu_free [OF assms(1)]] assms(2,3) by (simp add: menu_options_facts)
  have w: "whole_rect t" "whole_rect p" using assms(1,2,3) by (simp_all add: room_for_def)
  have f: "base_of ''top-end'' = ''top''" "base_of ''top-start'' = ''top''" "base_of ''bottom-end'' = ''bottom''" "base_of ''bottom-start'' = ''bottom''"
    "variation_of ''top-end'' = ''end''" "variation_of ''top-start'' = ''start''" "variation_of ''bottom-end'' = ''end''" "variation_of ''bottom-start'' = ''start''"
    by code_simp+
  show ?thesis using b w assms(4,5)
    by (cases "List.member parent ''dropup''"; cases "List.member menu ''dropdown-menu-right''")
      (simp_all add: getPlacement_def beside_def f side_kinds aligned_def whole_rect_def Let_def)
qed

theorem menu_opens_at_toggle_witness:
  "r_top (getClientRect (d_popper (update_popper (sample_page 100) (menu_options [''dropdown''] [''dropdown-menu''])))) = 120"
proof -
  have r: "room_for (sample_page 100) (getPlacement [''dropdown''] [''dropdown-menu''])" by code_simp
  have t: "r_bottom (v_reference (sample_page 100)) = 120" by code_simp
  have n: "\<not> List.member [''dropdown''] ''dropright''" "\<not> List.member [''dropdown''] ''dropleft''" "\<not> List.member [''dropdown''] ''dropup''" by simp_all
  from menu_opens_at_toggle [OF r refl refl n(1,2)] n(3) show ?thesis by (simp add: t)
qed

end
