(* ===== verification/Spec2Isabelle.thy ===== *)
theory Spec2Isabelle
  imports WebApp FormatLaws Dates RuleTypes ValidatorRemote ClassLaws Unobtrusive JqDeferred JqAjax EventLaws ModalLaws CollapseLaws CarouselLaws TooltipLaws DropdownLaws BsScrollSpy TabLaws BsToast BsButton PopperUse
begin

text \<open>
  Verification library of the iMovies certificate authority.

  The program.  Employees of iMovies sign in to a web application (src/WebServer), with a password or
  with a client certificate, change their data, and request, download and revoke certificates.  The
  web application talks to the core CA (src/CertServer) through a client library (src/CoreCA.Client)
  and shared data types (src/CoreCA.DataModel).  The pages of the web application check forms in the
  browser with the JavaScript libraries under src/WebServer/wwwroot/lib: jQuery, jQuery Validation
  with its additional methods, and the unobtrusive adapter library, which reads the rules of a form
  from the attributes the server writes.

  \<^bold>\<open>Shared theories.\<close>
  \<^item> Prelude: characters, strings, numbers of JavaScript (exact rationals with NaN and infinities, as the
    libraries only do exact arithmetic with them), reachable states and the locale inductive_invariant.
  \<^item> JsValue: values and insertion-ordered objects, with the laws of objects as a locale.
  \<^item> JsRegex, JsRegExp: regular expressions by derivatives, and a parser for the pattern texts of the
    libraries with the anchors and boundaries; its fuel is three times the length of the text plus three,
    as each call either consumes a character or descends one of the three grammar levels.

  \<^bold>\<open>The certificate authority.\<close>
  \<^item> CoreCA: the tables, serial numbers, PEM export (src/CoreCA.DataModel, src/CertServer/CAConfig.cs,
    Models), CADBModifier and UserDBAuthenticator.  Lemmas: freshness and bounds of serial numbers,
    well-formed tables, the serial numbers of revocation lists.
  \<^item> CertServer: one definition per handler of src/CertServer/Controllers, and the transition system of
    overlapping issue transactions, which read a snapshot and write rows.  Lemmas: the invariant ca_inv,
    the handlers as steps of that system, refused requests, failures after the commit.
  \<^item> WebApp: the controllers and the authentication of src/WebServer with the calls of CoreCAClient, on
    the composed state.  Lemmas: who passes the admin policy, passwords across the two servers.

  \<^bold>\<open>Form validation\<close> (src/WebServer/wwwroot/lib/jquery-validation).
  \<^item> ValidateBase: elements, their values and the optional test.
  \<^item> Checksums, Formats, Dates, ValidateMethods: one definition per method of additional-methods.js and of
    jquery.validate.js.  FormatLaws and the ends of the others relate loops and patterns to reference
    definitions: residues modulo 97, weighted sums, octets, the calendar.
  \<^item> ValidateRules: the sources of rules, their normalisation and order, message formatting; RuleTypes: the
    types of the parameters that reach the methods.
  \<^item> Validator: the state of the validator object and its operations, in the order of the source: check,
    form, element, labels, the remote method with its requests, submit and the event handlers.
    ValidatorLaws: what the operations leave alone.  ValidatorForm: a form whose rules need no server
    reports the first failing rule of each element.  ValidatorRemote: the reachable states of a form with
    requests under way; the counter of pending requests, and when a submit goes through.
  \<^item> Unobtrusive: jquery.validate.unobtrusive.js, composed with the rules and the check.

  \<^bold>\<open>jQuery\<close> (src/WebServer/wwwroot/lib/jquery/dist/jquery.js), as far as validation stands on it.
  \<^item> JqCore: words, kinds of values, extend, each, map, grep, merge, makeArray.
  \<^item> JqClasses: class names on the text of the attribute, refined from lists of names; ClassLaws shows that
    the validator uses them by the same laws.
  \<^item> JqCallbacks, JqDeferred: callback lists as a stack machine in which page code may do anything it has
    access to, and the six lists of a deferred object.  A run of n callbacks that only return needs 2n+3
    steps, which is the bound in the termination property.
  \<^item> JqAjax: prefilters, the choice of a response, conversions (a partial function, proved to end for
    converters with keys of two words), the request object and its completion.
  \<^item> JqEvents: the queues of handlers of the elements, binding, removal, dispatch and trigger, with page code
    that may bind and unbind while an event runs.  EventLaws: the queues stay in order, an event runs the
    handlers bound when it starts, the pattern of namespaces is the inclusion of sets.

  \<^bold>\<open>Bootstrap\<close> (src/WebServer/wwwroot/lib/bootstrap/dist/js/bootstrap.js; bootstrap.bundle.js holds the same
  plugins).  The end of a transition is an input: each component keeps the transitions it waits for, and they
  may end in any order.
  \<^item> BsUtil: configurations, selectors of elements, the length of transitions.
  \<^item> BsModal, ModalLaws: dialogs with their backdrops, handlers and the paddings of the page; opening and
    closing as a round trip, and two ways in which a dialog is stuck.
  \<^item> BsCollapse, CollapseLaws: the panels of an accordion, as a refinement of abstract phases.
  \<^item> BsCarousel, CarouselLaws: the ring of items, the slide in progress, timers and swipes.
  \<^item> BsSanitizer, SanitizerLaws: sanitizeHtml on documents as ordered trees, with the parser and the printer of
    the browser as parameters; the loop is the recursive filter, and what it leaves is harmless.
  \<^item> BsTooltip, TooltipLaws: tooltips and popovers, from their options, which the page may set in part, to the
    triggers, timers and transitions; the markup they show, the set of active triggers as their specification.
  \<^item> BsDropdown, DropdownLaws: menus, the clearing of open menus by clicks and keys, the focus.
  \<^item> BsScrollSpy: the sections of a page and the links marked for them, as the page is scrolled.
  \<^item> BsTab, TabLaws: tabs and their panes, as a refinement of the index of one tab when panes do not fade.
  \<^item> BsToast, BsButton: toasts with their timers, groups of buttons with their inputs, alerts.
  \<^item> PopperOffsets, PopperModifiers, PopperLaws, PopperCycle, PopperUse (Popper in
    bootstrap.bundle.js): the placement of menus and tooltips by a list of modifiers over exact
    lengths, the life of a popper, and its composition with the options of menus: where a menu opens.

  \<^bold>\<open>How the library is used.\<close>  An interface is a locale that is interpreted on the model where it is
  provided: inductive_invariant for the transition systems of the CA, of callback lists, of deferred
  objects, of requests, of forms, of the queues of handlers, of dialogs, accordions, carousels, tooltips, menus, toasts and poppers; digit_checksum for the weighted sums; object_map for objects;
  class_names for class attributes; static_methods and request_methods for the methods a form uses.
  Properties carry an identifier C1, C2 and so on, and rest on the facts of these interpretations.

  \<^bold>\<open>Findings.\<close>  Where a theorem shows that the code misses its purpose, the text before it says so: for
  example, certificates for RSA keys whose backup cannot be encrypted, passwords outside ASCII, vehicle
  numbers, a request of the remote method that fails, an equalto attribute without its parameter.

  \<^bold>\<open>Not modelled.\<close>  Hosting, health checks, migrations, the update service and the provisioning scripts:
  input and output around the handlers.  The cryptography library of .NET, the database server, the
  browser: parameters, with what the code relies on as hypotheses.  Of jQuery: the selector engine,
  traversal, effects, styles, the transports and the methods then, pipe and when of deferred
  objects.  Of Popper: the rectangles of elements, which
  are those of the browser's layout; of Bootstrap: focus and scroll positions.  site.js has no code.  Characters beyond code unit 255 are outside the strings of the model, and so are keys of objects
  that look like numbers where their order of enumeration would matter.
\<close>

end
